(* ===== verification/Prelude.thy ===== *)
theory Prelude
  imports Main "HOL-Library.AList" "HOL-Library.Word" "HOL-Library.Multiset"
begin

text \<open>
  What the component theories share: Go's \<open>error\<close> as text, Go maps as association lists
  (the order of the list is one order in which \<open>range\<close> may visit the map), sums as results
  of fallible functions, 32-bit and 64-bit wrap-around, and the interface of a keyed store
  (a mutex-protected map with lookup, insertion and deletion) that the registries, the
  engine pool and the error cache of the program all implement.
\<close>

named_theorems gomap_simps \<open>lookups in Go maps\<close>
named_theorems str_simps \<open>facts on the string routines\<close>
named_theorems chain_simps \<open>frame facts of rule chains\<close>
named_theorems engine_simps \<open>frame facts of the engine state\<close>

section \<open>Errors and results\<close>

type_synonym error = string

fun is_err :: "'e + 'a \<Rightarrow> bool" where
  "is_err (Inl e) = True"
| "is_err (Inr a) = False"

lemma is_err_cases:
  obtains (err) e where "r = Inl e" "is_err r" | (ok) a where "r = Inr a" "\<not> is_err r"
  by (cases r) auto

section \<open>Go maps\<close>

type_synonym ('k, 'v) gomap = "('k \<times> 'v) list"

text \<open>\<open>m[k] = v\<close> and \<open>delete(m, k)\<close>.\<close>

abbreviation gm_put :: "'k \<Rightarrow> 'v \<Rightarrow> ('k, 'v) gomap \<Rightarrow> ('k, 'v) gomap" where
  "gm_put \<equiv> AList.update"

abbreviation gm_del :: "'k \<Rightarrow> ('k, 'v) gomap \<Rightarrow> ('k, 'v) gomap" where
  "gm_del \<equiv> AList.delete"

text \<open>The loop \<open>for k, v := range src { dst[k] = v }\<close>.\<close>

definition gm_copy_into :: "('k, 'v) gomap \<Rightarrow> ('k, 'v) gomap \<Rightarrow> ('k, 'v) gomap" where
  "gm_copy_into src dst = fold (\<lambda>(k, v) m. gm_put k v m) src dst"

lemma gm_lookup_put [gomap_simps, simp]:
  "map_of (gm_put k v m) k' = (if k' = k then Some v else map_of m k')"
  by (simp add: update_conv')

lemma gm_lookup_del [gomap_simps, simp]:
  "map_of (gm_del k m) k' = (if k' = k then None else map_of m k')"
  by (simp add: delete_conv')

lemma gm_copy_into_Nil [simp]: "gm_copy_into [] m = m"
  by (simp add: gm_copy_into_def)

lemma gm_copy_into_Cons [simp]:
  "gm_copy_into ((k, v) # src) m = gm_copy_into src (gm_put k v m)"
  by (simp add: gm_copy_into_def)

lemma gm_put_distinct [simp]: "distinct (map fst m) \<Longrightarrow> distinct (map fst (gm_put k v m))"
  by (rule distinct_update)

lemma gm_copy_into_distinct:
  "distinct (map fst m) \<Longrightarrow> distinct (map fst (gm_copy_into src m))"
  by (induction src arbitrary: m) auto

text \<open>A map has each key once, so the loop overwrites exactly the keys of its source.\<close>

lemma map_of_gm_copy_into:
  "distinct (map fst src) \<Longrightarrow>
     map_of (gm_copy_into src m) k = (case map_of src k of Some v \<Rightarrow> Some v | None \<Rightarrow> map_of m k)"
proof (induction src arbitrary: m)
  case Nil
  then show ?case by simp
next
  case (Cons p src)
  obtain a v where p: "p = (a, v)" by force
  with Cons.prems have a: "map_of src a = None" and d: "distinct (map fst src)"
    by (auto simp: map_of_eq_None_iff)
  from Cons.IH [OF d] a show ?case by (auto simp: p split: option.splits)
qed

lemma gm_put_new: "k \<notin> fst ` set m \<Longrightarrow> gm_put k v m = m @ [(k, v)]"
  by (induction m) auto

lemma gm_copy_into_append:
  "distinct (map fst (m @ src)) \<Longrightarrow> gm_copy_into src m = m @ src"
proof (induction src arbitrary: m)
  case Nil
  then show ?case by simp
next
  case (Cons p src)
  obtain k v where p: "p = (k, v)" by force
  from Cons.prems have "gm_put k v m = m @ [(k, v)]"
    by (auto simp: p gm_put_new)
  with Cons.IH [of "m @ [(k, v)]"] Cons.prems show ?case by (simp add: p)
qed

lemma gm_copy_into_Nil_id: "distinct (map fst m) \<Longrightarrow> gm_copy_into m [] = m"
  using gm_copy_into_append [of "[]" m] by simp

section \<open>Counting in lists\<close>

lemma sum_list_map_update:
  "i < length xs \<Longrightarrow> sum_list (map f (xs[i := x])) + f (xs ! i) = sum_list (map f xs) + (f x :: nat)"
proof (induction xs arbitrary: i)
  case Nil
  then show ?case by simp
next
  case (Cons y ys)
  then show ?case by (cases i) auto
qed

text \<open>How many elements of a list have a property, as one element is replaced.\<close>

definition cnt :: "('a \<Rightarrow> bool) \<Rightarrow> 'a list \<Rightarrow> nat" where
  "cnt P xs = sum_list (map (\<lambda>x. if P x then 1 else 0) xs)"

lemma cnt_update: "i < length xs \<Longrightarrow> cnt P (xs[i := x]) + (if P (xs ! i) then 1 else 0) = cnt P xs + (if P x then 1 else 0)"
  unfolding cnt_def by (rule sum_list_map_update)

lemma cnt_le: "cnt P xs \<le> length xs"
  by (induction xs) (auto simp: cnt_def)

lemma cnt_full: "cnt P xs = length xs \<longleftrightarrow> (\<forall>x \<in> set xs. P x)"
proof (induction xs)
  case (Cons x xs)
  then show ?case using cnt_le [of P xs] by (auto simp: cnt_def)
qed (simp add: cnt_def)

lemma cnt_zero: "cnt P xs = 0 \<longleftrightarrow> (\<forall>x \<in> set xs. \<not> P x)"
  by (auto simp: cnt_def)

lemma cnt_replicate [simp]: "cnt P (replicate k x) = (if P x then k else 0)"
  by (induction k) (auto simp: cnt_def)

section \<open>Machine integers\<close>

text \<open>\<open>int32\<close> and \<open>int64\<close> addition with Go's wrap-around, on \<open>int\<close>.\<close>

definition wrap32 :: "int \<Rightarrow> int" where
  "wrap32 x = (x + 2 ^ 31) mod 2 ^ 32 - 2 ^ 31"

definition wrap64 :: "int \<Rightarrow> int" where
  "wrap64 x = (x + 2 ^ 63) mod 2 ^ 64 - 2 ^ 63"

lemma wrap32_id: "- (2 ^ 31) \<le> x \<Longrightarrow> x < 2 ^ 31 \<Longrightarrow> wrap32 x = x"
  by (simp add: wrap32_def)

lemma wrap64_id: "- (2 ^ 63) \<le> x \<Longrightarrow> x < 2 ^ 63 \<Longrightarrow> wrap64 x = x"
  by (simp add: wrap64_def)

section \<open>Keyed stores\<close>

text \<open>
  The contract of a map behind a lock: a lookup after an insertion or a deletion at a key
  sees that operation at the key and nothing of it at the others.
\<close>

locale keyed_store =
  fixes lookup :: "'s \<Rightarrow> 'k \<Rightarrow> 'v option"
    and put :: "'k \<Rightarrow> 'v \<Rightarrow> 's \<Rightarrow> 's"
    and remove :: "'k \<Rightarrow> 's \<Rightarrow> 's"
  assumes lookup_put: "lookup (put k v s) k' = (if k' = k then Some v else lookup s k')"
    and lookup_remove: "lookup (remove k s) k' = (if k' = k then None else lookup s k')"
begin

lemma put_overwrites: "lookup (put k w (put k v s)) = lookup (put k w s)"
  by (rule ext) (simp add: lookup_put)

lemma put_commutes: "k \<noteq> l \<Longrightarrow> lookup (put k v (put l w s)) = lookup (put l w (put k v s))"
  by (rule ext) (simp add: lookup_put)

lemma remove_undoes_put: "lookup s k = None \<Longrightarrow> lookup (remove k (put k v s)) = lookup s"
  by (rule ext) (simp add: lookup_put lookup_remove)

lemma lookup_remove_all:
  "lookup (fold remove ks s) k = (if k \<in> set ks then None else lookup s k)"
  by (induction ks arbitrary: s) (auto simp: lookup_remove)

lemma lookup_put_all:
  "distinct (map fst kvs) \<Longrightarrow>
     lookup (fold (\<lambda>(k, v). put k v) kvs s) k =
       (case map_of kvs k of Some v \<Rightarrow> Some v | None \<Rightarrow> lookup s k)"
proof (induction kvs arbitrary: s)
  case Nil
  then show ?case by simp
next
  case (Cons p kvs)
  obtain a v where p: "p = (a, v)" by force
  with Cons.prems have a: "map_of kvs a = None" and d: "distinct (map fst kvs)"
    by (auto simp: map_of_eq_None_iff)
  from Cons.IH [OF d] a show ?case by (auto simp: p lookup_put split: option.splits)
qed

end

text \<open>Go maps themselves are the first instance.\<close>

interpretation gomap: keyed_store map_of gm_put gm_del
  by unfold_locales simp_all

end
