(* ===== verification/GoStr.thy ===== *)
theory GoStr
  imports Prelude
begin

text \<open>
  The string utilities of \<open>utils/str\<close>, \<open>utils/maps\<close> and \<open>utils/json\<close>, on byte strings,
  with the routines of Go's \<open>strings\<close> and \<open>strconv\<close> packages they call. A value of type
  \<open>interface{}\<close> is a \<open>go_val\<close>. The JSON codec and the shortest-decimal float formatter are
  fields of a \<open>go_env\<close> that the definitions take as an argument.
\<close>

section \<open>The strings package\<close>

fun HasPrefix :: "string \<Rightarrow> string \<Rightarrow> bool" where
  "HasPrefix s [] = True"
| "HasPrefix [] (p # ps) = False"
| "HasPrefix (c # cs) (p # ps) = (c = p \<and> HasPrefix cs ps)"

definition HasSuffix :: "string \<Rightarrow> string \<Rightarrow> bool" where
  "HasSuffix s t = HasPrefix (rev s) (rev t)"

fun Contains :: "string \<Rightarrow> string \<Rightarrow> bool" where
  "Contains [] sub = HasPrefix [] sub"
| "Contains (c # cs) sub = (HasPrefix (c # cs) sub \<or> Contains cs sub)"

text \<open>
  \<open>strings.Replace(s, old, new, -1)\<close>: the leftmost occurrences, without overlap; an empty
  \<open>old\<close> matches before every character and at the end.
\<close>

function replace_all :: "string \<Rightarrow> string \<Rightarrow> string \<Rightarrow> string" where
  "replace_all old new [] = (if old = [] then new else [])"
| "replace_all old new (c # cs) =
     (if old = [] then new @ c # replace_all old new cs
      else if HasPrefix (c # cs) old
           then new @ replace_all old new (drop (length old) (c # cs))
           else c # replace_all old new cs)"
  by pat_completeness auto
termination
  by (relation "measure (\<lambda>(old, new, s). length s)") auto

text \<open>\<open>strings.Replace(s, old, new, 1)\<close>.\<close>

fun replace_first :: "string \<Rightarrow> string \<Rightarrow> string \<Rightarrow> string" where
  "replace_first old new [] = (if old = [] then new else [])"
| "replace_first old new (c # cs) =
     (if HasPrefix (c # cs) old then new @ drop (length old) (c # cs)
      else c # replace_first old new cs)"

text \<open>\<open>strings.Split(s, sep)\<close> for a separator of one character.\<close>

fun Split :: "string \<Rightarrow> char \<Rightarrow> string list" where
  "Split [] sep = [[]]"
| "Split (c # cs) sep =
     (if c = sep then [] # Split cs sep
      else (case Split cs sep of [] \<Rightarrow> [[c]] | p # ps \<Rightarrow> (c # p) # ps))"

text \<open>\<open>strings.Trim(s, cutset)\<close> and, for the ASCII space characters, \<open>strings.TrimSpace\<close>.\<close>

definition Trim :: "string \<Rightarrow> string \<Rightarrow> string" where
  "Trim s cutset =
     rev (dropWhile (\<lambda>c. c \<in> set cutset) (rev (dropWhile (\<lambda>c. c \<in> set cutset) s)))"

definition space_chars :: string where
  "space_chars = map char_of [9::nat, 10, 11, 12, 13, 32]"

definition TrimSpace :: "string \<Rightarrow> string" where
  "TrimSpace s = Trim s space_chars"

definition to_lower_char :: "char \<Rightarrow> char" where
  "to_lower_char c =
     (let n = of_char c :: nat in if 65 \<le> n \<and> n \<le> 90 then char_of (n + 32) else c)"

section \<open>The strconv package\<close>

definition dec_digit :: "nat \<Rightarrow> char" where
  "dec_digit d = char_of (48 + d)"

fun dec_of_nat :: "nat \<Rightarrow> string" where
  "dec_of_nat n = (if n < 10 then [dec_digit n] else dec_of_nat (n div 10) @ [dec_digit (n mod 10)])"

declare dec_of_nat.simps [simp del]

definition Itoa :: "int \<Rightarrow> string" where
  "Itoa i = (if i < 0 then CHR ''-'' # dec_of_nat (nat (- i)) else dec_of_nat (nat i))"

definition is_digit :: "char \<Rightarrow> bool" where
  "is_digit c = (48 \<le> (of_char c :: nat) \<and> (of_char c :: nat) \<le> 57)"

fun parse_digits :: "nat \<Rightarrow> string \<Rightarrow> nat option" where
  "parse_digits acc [] = Some acc"
| "parse_digits acc (c # cs) =
     (if is_digit c then parse_digits (10 * acc + (of_char c - 48)) cs else None)"

text \<open>\<open>strconv.Atoi\<close> on a 64-bit platform: an optional sign, at least one digit, in range.\<close>

definition Atoi :: "string \<Rightarrow> error + int" where
  "Atoi s =
     (let neg = (s \<noteq> [] \<and> hd s = CHR ''-'');
          body = (if s \<noteq> [] \<and> (hd s = CHR ''-'' \<or> hd s = CHR ''+'') then tl s else s)
      in if body = [] then Inl ''invalid syntax''
         else case parse_digits 0 body of
                None \<Rightarrow> Inl ''invalid syntax''
              | Some n \<Rightarrow>
                  let i = (if neg then - int n else int n)
                  in if - (2 ^ 63) \<le> i \<and> i < 2 ^ 63 then Inr i else Inl ''value out of range'')"

section \<open>Values of type interface{}\<close>

datatype go_val =
    GNil
  | GString string
  | GBool bool
  | GFloat64 "64 word"
  | GFloat32 "32 word"
  | GInt "64 word"
  | GUint "64 word"
  | GInt8 "8 word"
  | GUint8 "8 word"
  | GInt16 "16 word"
  | GUint16 "16 word"
  | GInt32 "32 word"
  | GUint32 "32 word"
  | GInt64 "64 word"
  | GUint64 "64 word"
  | GBytes string
  | GStringer string
  | GError string
  | GSlice "go_val list"
  | GMap "(string \<times> go_val) list"
  | GMapStr "(string \<times> string) list"
  | GMapAnyStr "(go_val \<times> string) list"
  | GMapAny "(go_val \<times> go_val) list"
  | GStruct "(string \<times> go_val) list"
  | GFunc nat
  | GNilSlice

text \<open>
  What the code takes from \<open>encoding/json\<close> and the float formatter of \<open>strconv\<close>:
  \<open>ge_encode v escapeHTML\<close> is what \<open>Encoder.Encode\<close> writes and its error, \<open>ge_unmarshal\<close>
  decodes into a fresh \<open>interface{}\<close>, \<open>ge_unmarshal_strmap\<close> is the content of a
  \<open>map[string]string\<close> after a decoding attempt whose error is ignored (\<open>None\<close>: nil map).
\<close>

record go_env =
  ge_encode :: "go_val \<Rightarrow> bool \<Rightarrow> string \<times> error option"
  ge_unmarshal :: "string \<Rightarrow> error + go_val"
  ge_unmarshal_strmap :: "string \<Rightarrow> (string, string) gomap option"
  ge_format_float :: "nat \<Rightarrow> int \<Rightarrow> string"

definition Marshal2 :: "go_env \<Rightarrow> go_val \<Rightarrow> bool \<Rightarrow> string \<times> error option" where
  "Marshal2 env v escapeHTML =
     (let (buf, err) = ge_encode env v escapeHTML
      in if err = None \<and> length buf > 0 then (take (length buf - 1) buf, err) else (buf, err))"

definition Marshal :: "go_env \<Rightarrow> go_val \<Rightarrow> string \<times> error option" where
  "Marshal env v = Marshal2 env v False"

section \<open>utils/str\<close>

definition varPatternLeft :: string where "varPatternLeft = ''${''"

definition varPatternRight :: string where "varPatternRight = ''}''"

definition ProcessVar :: "string \<Rightarrow> string \<Rightarrow> string \<Rightarrow> string" where
  "ProcessVar pattern key val =
     (let varPattern = varPatternLeft @ key @ varPatternRight
      in replace_all varPattern val pattern)"

text \<open>The dictionary is listed in the order in which \<open>range\<close> happens to visit it.\<close>

fun SprintfVar :: "string \<Rightarrow> string \<Rightarrow> (string, string) gomap \<Rightarrow> string" where
  "SprintfVar result keyPrefix [] = result"
| "SprintfVar result keyPrefix ((key, value) # dict) =
     SprintfVar (ProcessVar result (keyPrefix @ key) value) keyPrefix dict"

definition SprintfDict :: "string \<Rightarrow> (string, string) gomap \<Rightarrow> string" where
  "SprintfDict pattern dict = SprintfVar pattern [] dict"

definition randomStrOptions :: string where
  "randomStrOptions = ''abcdefghijklmnopqrstuvwxyzABCDEFGHIJKLMNOPQRSTUVWXYZ0123456789''"

text \<open>\<open>rnd i\<close> is the result of the \<open>i\<close>-th call of \<open>rand.Intn(randomStrOptionsLen)\<close>.\<close>

definition RandomStr :: "(nat \<Rightarrow> nat) \<Rightarrow> int \<Rightarrow> string" where
  "RandomStr rnd num = map (\<lambda>i. randomStrOptions ! rnd i) [0 ..< nat num]"

fun ToStringMaybeErr :: "go_env \<Rightarrow> go_val \<Rightarrow> string \<times> error option" where
  "ToStringMaybeErr env GNil = ([], None)"
| "ToStringMaybeErr env (GString v) = (v, None)"
| "ToStringMaybeErr env (GBool v) = (if v then ''true'' else ''false'', None)"
| "ToStringMaybeErr env (GFloat64 v) = (ge_format_float env 64 (uint v), None)"
| "ToStringMaybeErr env (GFloat32 v) = (ge_format_float env 32 (uint v), None)"
| "ToStringMaybeErr env (GInt v) = (Itoa (sint v), None)"
| "ToStringMaybeErr env (GUint v) = (Itoa (sint v), None)"
| "ToStringMaybeErr env (GInt8 v) = (Itoa (sint v), None)"
| "ToStringMaybeErr env (GUint8 v) = (Itoa (uint v), None)"
| "ToStringMaybeErr env (GInt16 v) = (Itoa (sint v), None)"
| "ToStringMaybeErr env (GUint16 v) = (Itoa (uint v), None)"
| "ToStringMaybeErr env (GInt32 v) = (Itoa (sint v), None)"
| "ToStringMaybeErr env (GUint32 v) = (Itoa (uint v), None)"
| "ToStringMaybeErr env (GInt64 v) = (Itoa (sint v), None)"
| "ToStringMaybeErr env (GUint64 v) = (Itoa (uint v), None)"
| "ToStringMaybeErr env (GBytes v) = (v, None)"
| "ToStringMaybeErr env (GStringer v) = (v, None)"
| "ToStringMaybeErr env (GError v) = (v, None)"
| "ToStringMaybeErr env input =
     (case Marshal env input of
        (newValue, None) \<Rightarrow> (newValue, None)
      | (newValue, Some err) \<Rightarrow> ([], Some err))"

definition ToString :: "go_env \<Rightarrow> go_val \<Rightarrow> string" where
  "ToString env input = fst (ToStringMaybeErr env input)"

fun ToStringMapString :: "go_env \<Rightarrow> go_val \<Rightarrow> (string, string) gomap option" where
  "ToStringMapString env (GMapStr v) = Some v"
| "ToStringMapString env (GMap v) =
     Some (fold (\<lambda>(k, val) output. gm_put (ToString env (GString k)) (ToString env val) output) v [])"
| "ToStringMapString env (GMapAnyStr v) =
     Some (fold (\<lambda>(k, val) output. gm_put (ToString env k) (ToString env (GString val)) output) v [])"
| "ToStringMapString env (GMapAny v) =
     Some (fold (\<lambda>(k, val) output. gm_put (ToString env k) (ToString env val) output) v [])"
| "ToStringMapString env (GString v) = ge_unmarshal_strmap env v"
| "ToStringMapString env _ = Some []"

definition CheckHasVar :: "string \<Rightarrow> bool" where
  "CheckHasVar str = (Contains str ''${'' \<and> Contains str ''}'')"

text \<open>The loop of \<open>ConvertDollarPlaceholder\<close>: one \<open>?\<close> less in every round.\<close>

lemma replace_first_count:
  "Contains s [q] \<Longrightarrow> q \<notin> set new \<Longrightarrow>
     count_list (replace_first [q] new s) q < count_list s q"
proof (induction s)
  case Nil
  then show ?case by simp
next
  case (Cons c s)
  have z: "q \<notin> set xs \<Longrightarrow> count_list xs q = 0" for xs :: string
    by (simp add: count_list_0_iff)
  show ?case
  proof (cases "c = q")
    case True
    with Cons.prems z show ?thesis by simp
  next
    case False
    with Cons show ?thesis by simp
  qed
qed

lemma dec_digit_neq: "d < 10 \<Longrightarrow> dec_digit d \<noteq> c \<or> is_digit c"
  by (auto simp: dec_digit_def is_digit_def of_char_of)

lemma dec_of_nat_digits: "c \<in> set (dec_of_nat n) \<Longrightarrow> is_digit c"
proof (induction n rule: dec_of_nat.induct)
  case (1 n)
  have d: "is_digit (dec_digit d)" if "d < 10" for d
    using dec_digit_neq [OF that] by blast
  show ?case
  proof (cases "n < 10")
    case True
    with "1.prems" d show ?thesis by (simp add: dec_of_nat.simps [of n])
  next
    case False
    with "1" d show ?thesis by (auto simp: dec_of_nat.simps [of n])
  qed
qed

function convert_loop :: "string \<Rightarrow> nat \<Rightarrow> string" where
  "convert_loop sql n =
     (if Contains sql ''?''
      then convert_loop (replace_first ''?'' (CHR ''$'' # dec_of_nat n) sql) (n + 1)
      else sql)"
  by pat_completeness auto
termination
proof (relation "measure (\<lambda>(sql, n). count_list sql (CHR ''?''))")
  fix sql n
  assume c: "Contains sql ''?''"
  have "CHR ''?'' \<notin> set (CHR ''$'' # dec_of_nat n)"
    by (auto dest: dec_of_nat_digits simp: is_digit_def)
  from replace_first_count [OF c this]
  show "((replace_first ''?'' (CHR ''$'' # dec_of_nat n) sql, n + 1), sql, n)
          \<in> measure (\<lambda>(sql, n). count_list sql (CHR ''?''))"
    by simp
qed simp

declare convert_loop.simps [simp del]

definition ConvertDollarPlaceholder :: "string \<Rightarrow> string \<Rightarrow> string" where
  "ConvertDollarPlaceholder sql dbType =
     (if dbType = ''postgres'' then convert_loop sql 1 else sql)"

text \<open>
  \<open>string(c)\<close> of a byte is the UTF-8 encoding of the code point of that number: one byte
  below 128, two bytes from 128 on.
\<close>

definition string_of_byte :: "char \<Rightarrow> string" where
  "string_of_byte c =
     (let n = of_char c :: nat
      in if n < 128 then [c] else [char_of (192 + n div 64), char_of (128 + n mod 64)])"

fun RemoveBraces :: "string \<Rightarrow> string" where
  "RemoveBraces [] = []"
| "RemoveBraces (c # cs) =
     (case cs of
        d # ds \<Rightarrow>
          if c = CHR ''$'' \<and> d = CHR ''{'' then RemoveBraces ds
          else if c = CHR ''}'' then RemoveBraces cs
          else if c = CHR '' '' then RemoveBraces cs
          else string_of_byte c @ RemoveBraces cs
      | [] \<Rightarrow>
          if c = CHR ''}'' then []
          else if c = CHR '' '' then []
          else string_of_byte c)"

text \<open>\<open>strings.ToLower\<close> of one byte outside ASCII gives the encoded replacement character.\<close>

definition ToLowerFirst :: "string \<Rightarrow> string" where
  "ToLowerFirst s =
     (case s of [] \<Rightarrow> []
      | c # cs \<Rightarrow>
          if (of_char c :: nat) < 128 then to_lower_char c # cs
          else map char_of [239::nat, 191, 189] @ cs)"

section \<open>utils/maps\<close>

text \<open>The loop of \<open>maps.Get\<close> over the path, with nil (\<open>GNil\<close>) as its early return.\<close>

fun get_fields :: "go_val \<Rightarrow> string list \<Rightarrow> go_val" where
  "get_fields result [] = result"
| "get_fields result (field # rest) =
     (case result of
        GMap mapValue \<Rightarrow>
          (case map_of mapValue field of
             Some v \<Rightarrow> get_fields v rest
           | None \<Rightarrow> GNil)
      | _ \<Rightarrow> GNil)"

definition maps_Get :: "go_val \<Rightarrow> string \<Rightarrow> go_val" where
  "maps_Get input fieldName = get_fields input (Split fieldName CHR ''.'')"

section \<open>Splitting, trimming and numbers\<close>

fun join :: "char \<Rightarrow> string list \<Rightarrow> string" where
  "join sep [] = []"
| "join sep [p] = p"
| "join sep (p # q # ps) = p @ sep # join sep (q # ps)"

lemma Split_nonempty [simp, str_simps]: "Split s sep \<noteq> []"
  by (induction s) (auto split: list.splits)

lemma join_Cons_char: "ps \<noteq> [] \<Longrightarrow> join sep ((c # hd ps) # tl ps) = c # join sep ps"
  by (cases ps rule: remdups_adj.cases) auto

lemma join_Nil_Cons: "ps \<noteq> [] \<Longrightarrow> join sep ([] # ps) = sep # join sep ps"
  by (cases ps) auto

lemma join_Split: "join sep (Split s sep) = s"
proof (induction s)
  case Nil
  then show ?case by simp
next
  case (Cons c s)
  show ?case
  proof (cases "c = sep")
    case True
    with Cons show ?thesis by (simp add: join_Nil_Cons)
  next
    case False
    obtain p ps where "Split s sep = p # ps" by (cases "Split s sep") auto
    with False Cons join_Cons_char [of "p # ps" sep c] show ?thesis by simp
  qed
qed

lemma Split_pieces: "p \<in> set (Split s sep) \<Longrightarrow> sep \<notin> set p"
proof (induction s arbitrary: p)
  case Nil
  then show ?case by simp
next
  case (Cons c s)
  then show ?case by (auto split: if_splits list.splits)
qed

lemma Split_join:
  "ps \<noteq> [] \<Longrightarrow> (\<forall>p \<in> set ps. sep \<notin> set p) \<Longrightarrow> Split (join sep ps) sep = ps"
proof (induction sep ps rule: join.induct)
  case (1 sep)
  then show ?case by simp
next
  case (2 sep p)
  then show ?case by (induction p) auto
next
  case (3 sep p q ps)
  have *: "sep \<notin> set p \<Longrightarrow> Split (p @ sep # s) sep = p # Split s sep" for s
    by (induction p) auto
  from 3 show ?case by (simp add: *)
qed

lemma Trim_empty_cutset: "Trim s [] = s"
  by (simp add: Trim_def)

lemma of_dec_digit: "d < 10 \<Longrightarrow> of_char (dec_digit d) = 48 + (d :: nat)"
  by (simp add: dec_digit_def of_char_of)

lemma parse_digits_append:
  "parse_digits acc (s @ t) =
     (case parse_digits acc s of None \<Rightarrow> None | Some n \<Rightarrow> parse_digits n t)"
  by (induction s arbitrary: acc) auto

lemma parse_dec_of_nat: "parse_digits 0 (dec_of_nat n) = Some n"
proof (induction n rule: dec_of_nat.induct)
  case (1 n)
  show ?case
  proof (cases "n < 10")
    case True
    then show ?thesis by (simp add: dec_of_nat.simps [of n] is_digit_def of_dec_digit)
  next
    case False
    with "1" have "parse_digits 0 (dec_of_nat (n div 10)) = Some (n div 10)" by simp
    with False show ?thesis
      by (simp add: dec_of_nat.simps [of n] parse_digits_append is_digit_def of_dec_digit)
  qed
qed

lemma dec_of_nat_nonempty [simp]: "dec_of_nat n \<noteq> []"
  by (subst dec_of_nat.simps) simp

lemma dec_of_nat_hd: "is_digit (hd (dec_of_nat n))"
  by (rule dec_of_nat_digits [of _ n]) simp

lemma Atoi_Itoa: "- (2 ^ 63) \<le> i \<Longrightarrow> i < 2 ^ 63 \<Longrightarrow> Atoi (Itoa i) = Inr i"
proof -
  assume b: "- (2 ^ 63) \<le> i" "i < 2 ^ 63"
  have ns: "hd (dec_of_nat n) \<noteq> CHR ''-''" "hd (dec_of_nat n) \<noteq> CHR ''+''" for n
    using dec_of_nat_hd [of n] by (auto simp: is_digit_def)
  show ?thesis
  proof (cases "i < 0")
    case True
    with b show ?thesis by (simp add: Atoi_def Itoa_def Let_def parse_dec_of_nat)
  next
    case False
    with b ns show ?thesis by (simp add: Atoi_def Itoa_def Let_def parse_dec_of_nat)
  qed
qed

section \<open>Placeholders\<close>

datatype tok = Lit string | Var string

fun render :: "tok \<Rightarrow> string" where
  "render (Lit t) = t"
| "render (Var k) = varPatternLeft @ k @ varPatternRight"

fun clean_tok :: "tok \<Rightarrow> bool" where
  "clean_tok (Lit t) = (CHR ''$'' \<notin> set t)"
| "clean_tok (Var k) = (CHR ''$'' \<notin> set k \<and> CHR ''}'' \<notin> set k)"

fun tok_subst :: "(string, string) gomap \<Rightarrow> tok \<Rightarrow> string" where
  "tok_subst dict (Lit t) = t"
| "tok_subst dict (Var k) = (case map_of dict k of Some v \<Rightarrow> v | None \<Rightarrow> render (Var k))"

definition tok_set :: "string \<Rightarrow> string \<Rightarrow> tok \<Rightarrow> tok" where
  "tok_set k v t = (if t = Var k then Lit v else t)"

lemma HasPrefix_append [simp]: "HasPrefix (p @ s) p"
  by (induction p) auto

lemma HasPrefix_same [simp]: "HasPrefix (p @ s) (p @ t) = HasPrefix s t"
  by (induction p) auto

lemma HasPrefix_key:
  "CHR ''}'' \<notin> set k \<Longrightarrow> CHR ''}'' \<notin> set l \<Longrightarrow>
     HasPrefix (k @ CHR ''}'' # s) (l @ ''}'') = (k = l)"
proof (induction k arbitrary: l)
  case Nil
  then show ?case by (cases l) auto
next
  case (Cons c k)
  then show ?case by (cases l) auto
qed

lemma replace_all_literal:
  "x \<notin> set t \<Longrightarrow> replace_all (x # old) new (t @ s) = t @ replace_all (x # old) new s"
  by (induction t) auto

lemma replace_all_match:
  "old \<noteq> [] \<Longrightarrow> replace_all old new (old @ s) = new @ replace_all old new s"
  by (cases old) (auto simp del: HasPrefix.simps simp: HasPrefix_append [of "_ # _", simplified])

lemma replace_all_tok:
  assumes "CHR ''$'' \<notin> set k" "CHR ''}'' \<notin> set k" and "clean_tok t"
  shows "replace_all (render (Var k)) v (render t @ s) =
           render (tok_set k v t) @ replace_all (render (Var k)) v s"
proof (cases t)
  case (Lit l)
  with assms(3) show ?thesis
    by (simp add: tok_set_def varPatternLeft_def replace_all_literal)
next
  case (Var l)
  show ?thesis
  proof (cases "l = k")
    case True
    with Var show ?thesis
      using replace_all_match [of "render (Var k)" v s]
      by (simp add: tok_set_def varPatternLeft_def varPatternRight_def)
  next
    case False
    let ?old = "render (Var k)"
    from assms(3) Var have l: "CHR ''$'' \<notin> set l" "CHR ''}'' \<notin> set l" by auto
    from HasPrefix_key [OF l(2) assms(2), of s] False
    have "\<not> HasPrefix (render (Var l) @ s) ?old"
      by (simp add: varPatternLeft_def varPatternRight_def)
    then have "replace_all ?old v (render (Var l) @ s) =
                 CHR ''$'' # replace_all ?old v ((CHR ''{'' # l @ ''}'') @ s)"
      by (simp add: varPatternLeft_def varPatternRight_def)
    also have "\<dots> = CHR ''$'' # (CHR ''{'' # l @ ''}'') @ replace_all ?old v s"
      using l replace_all_literal [of "CHR ''$''" "CHR ''{'' # l @ ''}''" "CHR ''{'' # k @ ''}''" v s]
      by (simp add: varPatternLeft_def varPatternRight_def)
    finally show ?thesis using Var False
      by (simp add: tok_set_def varPatternLeft_def varPatternRight_def)
  qed
qed

lemma ProcessVar_toks:
  assumes "CHR ''$'' \<notin> set k" "CHR ''}'' \<notin> set k" and "\<forall>t \<in> set ts. clean_tok t"
  shows "ProcessVar (concat (map render ts)) k v = concat (map render (map (tok_set k v) ts))"
  using assms(3)
proof (induction ts)
  case Nil
  then show ?case by (simp add: ProcessVar_def varPatternLeft_def)
next
  case (Cons t ts)
  then show ?case
    using replace_all_tok [OF assms(1,2), of t v "concat (map render ts)"]
    by (simp add: ProcessVar_def)
qed

text \<open>A dictionary whose keys and values cannot be taken for parts of a placeholder.\<close>

definition plain_dict :: "string \<Rightarrow> (string, string) gomap \<Rightarrow> bool" where
  "plain_dict pre dict =
     (distinct (map fst dict) \<and>
      (\<forall>(k, v) \<in> set dict. CHR ''$'' \<notin> set (pre @ k) \<and> CHR ''}'' \<notin> set (pre @ k) \<and> CHR ''$'' \<notin> set v))"

lemma tok_subst_set:
  "map_of dict k = None \<Longrightarrow>
     tok_subst dict (tok_set k v t) = tok_subst ((k, v) # dict) t"
  by (cases t) (auto simp: tok_set_def split: option.splits)

lemma map_of_prefixed: "map_of (map (\<lambda>(k, v). (pre @ k, v)) dict) (pre @ k) = map_of dict k"
  by (induction dict) auto

lemma SprintfVar_toks:
  "plain_dict pre dict \<Longrightarrow> (\<forall>t \<in> set ts. clean_tok t) \<Longrightarrow>
     SprintfVar (concat (map render ts)) pre dict =
       concat (map (tok_subst (map (\<lambda>(k, v). (pre @ k, v)) dict)) ts)"
proof (induction dict arbitrary: ts)
  case Nil
  have "tok_subst [] t = render t" for t by (cases t) auto
  then show ?case by simp
next
  case (Cons p dict)
  obtain k v where p: "p = (k, v)" by force
  let ?ts = "map (tok_set (pre @ k) v) ts"
  from Cons.prems p have k: "CHR ''$'' \<notin> set (pre @ k)" "CHR ''}'' \<notin> set (pre @ k)" "CHR ''$'' \<notin> set v"
    and d: "plain_dict pre dict" "map_of dict k = None"
    by (auto simp: plain_dict_def map_of_eq_None_iff)
  have "\<forall>t \<in> set ?ts. clean_tok t" using Cons.prems(2) k(3) by (auto simp: tok_set_def)
  from Cons.IH [OF d(1) this]
  have "SprintfVar (concat (map render ?ts)) pre dict =
          concat (map (tok_subst (map (\<lambda>(k, v). (pre @ k, v)) dict)) ?ts)" .
  moreover have "map (tok_subst (map (\<lambda>(k, v). (pre @ k, v)) dict)) ?ts =
                 map (tok_subst (map (\<lambda>(k, v). (pre @ k, v)) (p # dict))) ts"
    using d(2) by (simp add: p tok_subst_set map_of_prefixed)
  ultimately show ?case
    using ProcessVar_toks [OF k(1,2) Cons.prems(2), of v] by (simp add: p del: map_map)
qed

text \<open>\<open>SprintfVar\<close> computes the simultaneous substitution of the placeholders. For a
  pattern made of literal text without \<open>$\<close> and of placeholders, and a dictionary whose keys
  and values cannot be taken for parts of a placeholder, the sequence of replacements gives
  the pattern with every \<open>${prefix key}\<close> replaced by its value, placeholders that are not in
  the dictionary left as they are, whatever the order in which the map is visited.\<close>

theorem SprintfVar_substitutes:
  assumes "plain_dict pre dict" and "\<forall>t \<in> set ts. clean_tok t" and "mset visit = mset dict"
  shows "SprintfVar (concat (map render ts)) pre visit =
           concat (map (tok_subst (map (\<lambda>(k, v). (pre @ k, v)) dict)) ts)"
proof -
  from assms(3) have d: "distinct (map fst visit) = distinct (map fst dict)"
    by (metis mset_eq_imp_distinct_iff mset_map)
  from assms(3) have "set visit = set dict" by (rule mset_eq_setD)
  with assms(1) d have v: "plain_dict pre visit" by (simp add: plain_dict_def)
  have "map fst (map (\<lambda>(k, v). (pre @ k, v)) d) = map ((@) pre) (map fst d)"
    for d :: "(string, string) gomap"
    by (induction d) auto
  moreover have "distinct (map ((@) pre) xs) = distinct xs" for xs
    by (simp add: distinct_map inj_on_def)
  ultimately have inj: "distinct (map fst (map (\<lambda>(k, v). (pre @ k, v)) d)) = distinct (map fst d)"
    for d :: "(string, string) gomap"
    by metis
  from v assms(1) inj have "map_of (map (\<lambda>(k, v). (pre @ k, v)) visit) =
                   map_of (map (\<lambda>(k, v). (pre @ k, v)) dict)"
    using \<open>set visit = set dict\<close> by (simp add: plain_dict_def map_of_inject_set)
  then have "tok_subst (map (\<lambda>(k, v). (pre @ k, v)) visit) t =
             tok_subst (map (\<lambda>(k, v). (pre @ k, v)) dict) t" for t
    by (cases t) auto
  with SprintfVar_toks [OF v assms(2)] show ?thesis by presburger
qed

theorem SprintfVar_substitutes_witness:
  "SprintfVar ''t=${global.temp}, u=${global.unit}'' ''global.'' [(''temp'', ''42''), (''ip'', ''x'')]
     = ''t=42, u=${global.unit}''"
  using SprintfVar_substitutes [of "''global.''" "[(''ip'', ''x''), (''temp'', ''42'')]"
      "[Lit ''t='', Var ''global.temp'', Lit '', u='', Var ''global.unit'']"
      "[(''temp'', ''42''), (''ip'', ''x'')]"]
  by (simp add: plain_dict_def varPatternLeft_def varPatternRight_def)

text \<open>without that restriction the result depends on the order in which the map is
  visited, which Go leaves open: a value that contains a placeholder is expanded again or
  not.\<close>

theorem SprintfDict_order_dependent:
  "SprintfDict ''${a}'' [(''a'', ''${b}''), (''b'', ''x'')] = ''x'' \<and>
   SprintfDict ''${a}'' [(''b'', ''x''), (''a'', ''${b}'')] = ''${b}''"
  by (simp add: SprintfDict_def ProcessVar_def varPatternLeft_def varPatternRight_def)

section \<open>The postgres placeholders\<close>

fun number_marks :: "nat \<Rightarrow> string \<Rightarrow> string" where
  "number_marks n [] = []"
| "number_marks n (c # cs) =
     (if c = CHR ''?'' then CHR ''$'' # dec_of_nat n @ number_marks (n + 1) cs
      else c # number_marks n cs)"

lemma Contains_char: "Contains s [q] = (q \<in> set s)"
  by (induction s) auto

lemma replace_first_at:
  "q \<notin> set pre \<Longrightarrow> replace_first [q] new (pre @ q # s) = pre @ new @ s"
  by (induction pre) auto

lemma number_marks_none: "CHR ''?'' \<notin> set s \<Longrightarrow> number_marks n s = s"
  by (induction s) auto

lemma number_marks_append:
  "CHR ''?'' \<notin> set pre \<Longrightarrow> number_marks n (pre @ s) = pre @ number_marks n s"
  by (induction pre) auto

lemma convert_loop_eq:
  "CHR ''?'' \<notin> set pre \<Longrightarrow> convert_loop (pre @ s) n = pre @ number_marks n s"
proof (induction "length s" arbitrary: pre s n rule: less_induct)
  case less
  show ?case
  proof (cases "CHR ''?'' \<in> set s")
    case False
    with less.prems show ?thesis
      by (simp add: convert_loop.simps [of "pre @ s"] Contains_char number_marks_none)
  next
    case True
    then obtain a b where s: "s = a @ CHR ''?'' # b" "CHR ''?'' \<notin> set a"
      by (meson split_list_first)
    let ?d = "CHR ''$'' # dec_of_nat n"
    have d: "CHR ''?'' \<notin> set ?d" by (auto dest: dec_of_nat_digits simp: is_digit_def)
    have "convert_loop (pre @ s) n = convert_loop ((pre @ a @ ?d) @ b) (n + 1)"
      using s less.prems replace_first_at [of "CHR ''?''" "pre @ a" ?d b]
      by (simp add: convert_loop.simps [of "pre @ a @ CHR ''?'' # b"] Contains_char)
    also have "\<dots> = (pre @ a @ ?d) @ number_marks (n + 1) b"
      using s d less.prems by (intro less.hyps) auto
    finally show ?thesis using s by (simp add: number_marks_append)
  qed
qed

text \<open>\<open>ConvertDollarPlaceholder\<close> terminates and, for \<open>postgres\<close>, replaces the marks from
  left to right by \<open>$1\<close>, \<open>$2\<close> and so on, in one pass and leaving no mark; for every other
  database type it leaves the statement alone.\<close>

theorem ConvertDollarPlaceholder_numbers:
  "ConvertDollarPlaceholder sql db = (if db = ''postgres'' then number_marks 1 sql else sql) \<and>
   CHR ''?'' \<notin> set (ConvertDollarPlaceholder sql ''postgres'')"
proof -
  have eq: "ConvertDollarPlaceholder sql ''postgres'' = number_marks 1 sql"
    using convert_loop_eq [of "[]" sql 1] by (simp add: ConvertDollarPlaceholder_def)
  have "CHR ''?'' \<notin> set (number_marks n sql)" for n
    by (induction sql arbitrary: n) (auto dest: dec_of_nat_digits simp: is_digit_def)
  with eq show ?thesis by (auto simp: ConvertDollarPlaceholder_def)
qed

section \<open>Nested fields, text of values\<close>

lemma get_fields_GNil: "get_fields GNil (f # fs) = GNil"
  by simp

lemma get_fields_append:
  "get_fields v (p @ q) = (if q = [] then get_fields v p else get_fields (get_fields v p) q)"
proof (induction p arbitrary: v)
  case Nil
  then show ?case by simp
next
  case (Cons f p)
  obtain g q' where "q = g # q' \<or> q = []" by (cases q) auto
  with Cons show ?case by (auto split: go_val.splits option.splits)
qed

text \<open>a \<open>uint\<close> of 2 to the 63 or more is printed as a negative number, since it is
  converted to \<open>int\<close> first; the same value as a \<open>uint64\<close> is printed correctly.\<close>

theorem ToString_uint_wraps:
  "ToString env (GUint w) = Itoa (if uint w < 2 ^ 63 then uint w else uint w - 2 ^ 64) \<and>
   ToString env (GUint64 w) = Itoa (uint w)"
proof -
  have "sint w = (uint w + 2 ^ 63) mod 2 ^ 64 - 2 ^ 63"
    by (simp add: sint_uint signed_take_bit_eq_take_bit_shift take_bit_eq_mod)
  moreover have "(uint w + 2 ^ 63) mod 2 ^ 64 =
      (if uint w < 2 ^ 63 then uint w + 2 ^ 63 else uint w - 2 ^ 63)"
  proof (cases "uint w < 2 ^ 63")
    case True
    then show ?thesis by (simp add: mod_pos_pos_trivial)
  next
    case False
    have "(uint w + 2 ^ 63) mod 2 ^ 64 = ((uint w - 2 ^ 63) + 2 ^ 64) mod 2 ^ 64"
      by (simp add: add.commute)
    also have "\<dots> = uint w - 2 ^ 63"
      using False uint_lt2p [of w] by (simp only: mod_add_self2) (simp add: mod_pos_pos_trivial)
    finally show ?thesis using False by simp
  qed
  ultimately have "sint w = (if uint w < 2 ^ 63 then uint w else uint w - 2 ^ 64)"
    by (simp split: if_splits)
  then show ?thesis by (simp add: ToString_def)
qed

end
