(* ===== verification/Msg.thy ===== *)
theory Msg
  imports GoStr
begin

text \<open>
  Messages, metadata, node identifiers and the calls a node makes on its context
  (\<open>api/types/msg.go\<close> and \<open>api/types/types.go\<close>). Metadata is a Go map, nil (\<open>None\<close>) or a
  list of entries; the clock and the UUID generator are arguments of the functions that
  read them.
\<close>

section \<open>Constants\<close>

definition Success :: string where "Success = ''Success''"
definition Failure :: string where "Failure = ''Failure''"
definition TrueRel :: string where "TrueRel = ''True''"
definition FalseRel :: string where "FalseRel = ''False''"
definition In :: string where "In = ''IN''"
definition Out :: string where "Out = ''OUT''"
definition Js :: string where "Js = ''Js''"
definition JSON :: string where "JSON = ''JSON''"
definition TEXT :: string where "TEXT = ''TEXT''"
definition BINARY :: string where "BINARY = ''BINARY''"
definition MsgKey :: string where "MsgKey = ''msg''"
definition MetadataKey :: string where "MetadataKey = ''metadata''"
definition MsgTypeKey :: string where "MsgTypeKey = ''msgType''"
definition DataTypeKey :: string where "DataTypeKey = ''dataType''"
definition ScriptFuncSeparator :: string where "ScriptFuncSeparator = ''#''"

lemmas rel_defs = Success_def Failure_def TrueRel_def FalseRel_def

section \<open>Metadata\<close>

type_synonym Metadata = "(string, string) gomap option"

definition NewMetadata :: Metadata where "NewMetadata = Some []"

text \<open>\<open>md.Values()\<close> as a dictionary to range over: a nil map has no entries.\<close>

definition md_entries :: "Metadata \<Rightarrow> (string, string) gomap" where
  "md_entries md = (case md of None \<Rightarrow> [] | Some m \<Rightarrow> m)"

definition BuildMetadata :: "Metadata \<Rightarrow> Metadata" where
  "BuildMetadata data = Some (gm_copy_into (md_entries data) [])"

definition Metadata_Copy :: "Metadata \<Rightarrow> Metadata" where
  "Metadata_Copy md = BuildMetadata md"

definition Has :: "Metadata \<Rightarrow> string \<Rightarrow> bool" where
  "Has md key = (map_of (md_entries md) key \<noteq> None)"

definition GetValue :: "Metadata \<Rightarrow> string \<Rightarrow> string" where
  "GetValue md key = (case map_of (md_entries md) key of Some v \<Rightarrow> v | None \<Rightarrow> [])"

text \<open>Storing into a nil map panics (\<open>Inl\<close>); an empty key is ignored.\<close>

definition PutValue :: "Metadata \<Rightarrow> string \<Rightarrow> string \<Rightarrow> error + Metadata" where
  "PutValue md key value =
     (if key \<noteq> [] then
        (case md of None \<Rightarrow> Inl ''assignment to entry in nil map''
         | Some m \<Rightarrow> Inr (Some (gm_put key value m)))
      else Inr md)"

section \<open>Messages\<close>

record RuleMsg =
  Ts :: int
  MsgId :: string
  DataType :: string
  MsgType :: string
  Data :: string
  MsgMetadata :: Metadata

definition newMsg ::
  "int \<Rightarrow> string \<Rightarrow> string \<Rightarrow> int \<Rightarrow> string \<Rightarrow> string \<Rightarrow> Metadata \<Rightarrow> string \<Rightarrow> RuleMsg" where
  "newMsg now uuid msgId ts msgType dataType metaData data =
     (let ts = (if ts \<le> 0 then now else ts);
          msgId = (if msgId = [] then uuid else msgId)
      in \<lparr>Ts = ts, MsgId = msgId, DataType = dataType, MsgType = msgType, Data = data,
           MsgMetadata = metaData\<rparr>)"

text \<open>\<open>NewMsg\<close> generates the identifier itself (\<open>uuid\<close>); \<open>uuid'\<close> is what a second call of the
  generator would return.\<close>

definition NewMsg ::
  "int \<Rightarrow> string \<Rightarrow> string \<Rightarrow> int \<Rightarrow> string \<Rightarrow> string \<Rightarrow> Metadata \<Rightarrow> string \<Rightarrow> RuleMsg" where
  "NewMsg now uuid uuid' ts msgType dataType metaData data =
     newMsg now uuid' uuid ts msgType dataType metaData data"

definition Copy :: "int \<Rightarrow> string \<Rightarrow> RuleMsg \<Rightarrow> RuleMsg" where
  "Copy now uuid m =
     newMsg now uuid (MsgId m) (Ts m) (MsgType m) (DataType m) (Metadata_Copy (MsgMetadata m)) (Data m)"

record WrapperMsg =
  wm_Msg :: RuleMsg
  wm_Err :: string
  wm_NodeId :: string

text \<open>The JSON tags of the message structs, for the encoder.\<close>

definition msg_val :: "RuleMsg \<Rightarrow> go_val" where
  "msg_val m = GStruct
     [(''ts'', GInt64 (word_of_int (Ts m))), (''id'', GString (MsgId m)),
      (''dataType'', GString (DataType m)), (''type'', GString (MsgType m)),
      (''data'', GString (Data m)),
      (''metadata'', case MsgMetadata m of None \<Rightarrow> GNil | Some md \<Rightarrow> GMapStr md)]"

definition wrapper_val :: "WrapperMsg \<Rightarrow> go_val" where
  "wrapper_val w = GStruct
     [(''msg'', msg_val (wm_Msg w)), (''err'', GString (wm_Err w)), (''nodeId'', GString (wm_NodeId w))]"

section \<open>Node identifiers\<close>

datatype ComponentType = NODE | CHAIN

record RuleNodeId =
  NodeId :: string
  NodeKind :: ComponentType

abbreviation node_id :: "string \<Rightarrow> RuleNodeId" where
  "node_id i \<equiv> \<lparr>NodeId = i, NodeKind = NODE\<rparr>"

abbreviation chain_id :: "string \<Rightarrow> RuleNodeId" where
  "chain_id i \<equiv> \<lparr>NodeId = i, NodeKind = CHAIN\<rparr>"

definition EmptyRuleNodeId :: RuleNodeId where
  "EmptyRuleNodeId = \<lparr>NodeId = [], NodeKind = NODE\<rparr>"

record RuleNodeRelation =
  InId :: RuleNodeId
  OutId :: RuleNodeId
  RelationType :: string

section \<open>Calls on the context\<close>

text \<open>
  What a node, an aspect or a callback asks of its \<open>RuleContext\<close>. \<open>TellSuccess\<close>,
  \<open>TellFailure\<close> and \<open>TellNext\<close> are all \<open>tell(msg, err, relationTypes...)\<close>; a call without
  relation types passes a nil slice (\<open>None\<close>). \<open>CExecuteNode\<close> and \<open>CTellFlow\<close> name the
  callbacks they install by a number (\<open>None\<close>: nil callbacks), as do \<open>SetEndFunc\<close> and
  \<open>SetOnAllNodeCompleted\<close>; a \<open>context.Context\<close> is a number.
\<close>

datatype ctx_call =
    CTell RuleMsg "error option" "string list option"
  | CTellSelf RuleMsg int
  | CTellFlow RuleMsg string "nat option"
  | CExecuteNode string RuleMsg bool nat
  | CDoOnEnd RuleMsg "error option" string
  | CSetContext nat
  | CSetEndFunc "nat option"
  | CSetOnAllNodeCompleted "nat option"

definition TellSuccess :: "RuleMsg \<Rightarrow> ctx_call" where
  "TellSuccess msg = CTell msg None (Some [Success])"

definition TellFailure :: "RuleMsg \<Rightarrow> error option \<Rightarrow> ctx_call" where
  "TellFailure msg err = CTell msg err (Some [Failure])"

definition TellNext :: "RuleMsg \<Rightarrow> string list option \<Rightarrow> ctx_call" where
  "TellNext msg relationTypes = CTell msg None relationTypes"

definition TellSelf :: "RuleMsg \<Rightarrow> int \<Rightarrow> ctx_call" where
  "TellSelf msg delayMs = CTellSelf msg delayMs"

lemmas tell_defs = TellSuccess_def TellFailure_def TellNext_def TellSelf_def

section \<open>Facts\<close>

lemma md_entries_simps [simp]: "md_entries None = []" "md_entries (Some m) = m"
  by (simp_all add: md_entries_def)

definition wf_md :: "Metadata \<Rightarrow> bool" where
  "wf_md md = distinct (map fst (md_entries md))"

definition wf_msg :: "RuleMsg \<Rightarrow> bool" where
  "wf_msg m = (Ts m > 0 \<and> MsgId m \<noteq> [] \<and> MsgMetadata m \<noteq> None \<and> wf_md (MsgMetadata m))"

lemma BuildMetadata_wf: "wf_md (BuildMetadata md)"
  by (simp add: wf_md_def BuildMetadata_def gm_copy_into_distinct)

lemma BuildMetadata_id: "wf_md md \<Longrightarrow> BuildMetadata md = Some (md_entries md)"
  by (simp add: wf_md_def BuildMetadata_def gm_copy_into_Nil_id)

lemma Has_GetValue_PutValue:
  assumes "PutValue md key value = Inr md'" and "key \<noteq> []"
  shows "Has md' key' = (key' = key \<or> Has md key')"
    and "GetValue md' key' = (if key' = key then value else GetValue md key')"
  using assms by (auto simp: PutValue_def Has_def GetValue_def split: option.splits)

lemma Copy_wf_id: "wf_msg m \<Longrightarrow> Copy now uuid m = m"
  by (auto simp: Copy_def newMsg_def wf_msg_def Metadata_Copy_def BuildMetadata_id)

lemma wf_msg_Copy [simp]: "wf_msg m \<Longrightarrow> wf_msg (Copy now uuid m)"
  by (simp add: Copy_wf_id)

text \<open>a copy has the identifier, time stamp, types and payload of the message and the
  same metadata entries in a map of its own (a nil map becomes an empty one), for every
  message that already has a time stamp and an identifier; a missing one is filled in from
  the clock and the generator, so every copy is stamped and identified.\<close>

theorem Copy_preserves:
  assumes "0 < now" and "uuid \<noteq> []" and "wf_md (MsgMetadata m)"
  shows "Ts (Copy now uuid m) = (if Ts m \<le> 0 then now else Ts m) \<and>
         MsgId (Copy now uuid m) = (if MsgId m = [] then uuid else MsgId m) \<and>
         MsgType (Copy now uuid m) = MsgType m \<and> DataType (Copy now uuid m) = DataType m \<and>
         Data (Copy now uuid m) = Data m \<and>
         MsgMetadata (Copy now uuid m) = Some (md_entries (MsgMetadata m)) \<and>
         wf_msg (Copy now uuid m)"
  using assms
  by (auto simp: Copy_def newMsg_def Metadata_Copy_def BuildMetadata_id wf_msg_def wf_md_def)

theorem Copy_preserves_witness:
  "wf_msg (Copy 1700 ''u'' \<lparr>Ts = 0, MsgId = [], DataType = JSON, MsgType = ''T'', Data = ''{}'',
                              MsgMetadata = None\<rparr>)"
  using Copy_preserves [of 1700 "''u''" "\<lparr>Ts = 0, MsgId = [], DataType = JSON, MsgType = ''T'',
                              Data = ''{}'', MsgMetadata = None\<rparr>"]
  by (simp add: wf_md_def)

end
