(* ===== verification/Config.thy ===== *)
theory Config
  imports Msg "HOL-Library.Char_ord" "HOL-Library.List_Lexorder" "HOL-Library.Product_Lexorder"
begin

text \<open>
  The engine configuration and the aspect lists it yields (\<open>api/types/config.go\<close>,
  \<open>api/types/aspect.go\<close>), and the component forms of \<open>api/types/component.go\<close> and
  \<open>utils/reflect\<close>. An aspect is a record with one optional function per advice interface:
  the type assertion \<open>item.(BeforeAspect)\<close> succeeds when that field is present. Advice and
  nodes read and write a world of type \<open>'w\<close> (caches, clients, counters).
\<close>

section \<open>Sorting a slice\<close>

text \<open>
  \<open>sort.Slice\<close> promises a permutation that is sorted, not which one among equal elements:
  the definitions below take the routine as an argument and this is its contract.
\<close>

locale slice_sort =
  fixes srt :: "('a \<Rightarrow> 'k :: linorder) \<Rightarrow> 'a list \<Rightarrow> 'a list"
  assumes mset_srt: "mset (srt f xs) = mset xs"
    and sorted_srt: "sorted (map f (srt f xs))"
begin

lemma set_srt: "set (srt f xs) = set xs"
  using mset_srt by (rule mset_eq_setD)

lemma filter_srt_mset: "mset (filter P (srt f xs)) = mset (filter P xs)"
  by (simp add: mset_srt mset_filter)

lemma filter_srt_sorted: "sorted (map f (filter P (srt f xs)))"
  by (rule sorted_filter) (rule sorted_srt)

lemma srt_sorted_id_mset: "mset (srt f (srt f xs)) = mset xs"
  by (simp add: mset_srt)

end

text \<open>The insertion sort that \<open>sort.Slice\<close> runs on slices of at most twelve elements: each
  element is moved left past the greater ones.\<close>

fun slide :: "('a \<Rightarrow> 'k :: linorder) \<Rightarrow> 'a \<Rightarrow> 'a list \<Rightarrow> 'a list" where
  "slide f x [] = [x]"
| "slide f x (y # ys) = (if f x < f y then y # slide f x ys else x # y # ys)"

definition sort_Slice :: "('a \<Rightarrow> 'k :: linorder) \<Rightarrow> 'a list \<Rightarrow> 'a list" where
  "sort_Slice f xs = rev (fold (slide f) xs [])"

lemma mset_slide: "mset (slide f x ys) = add_mset x (mset ys)"
  by (induction ys) auto

lemma set_slide [simp]: "set (slide f x ys) = insert x (set ys)"
  by (metis mset_slide set_mset_add_mset_insert set_mset_mset)

lemma slide_sorted: "sorted_wrt (\<lambda>a b. f b \<le> f a) ys \<Longrightarrow> sorted_wrt (\<lambda>a b. f b \<le> f a) (slide f x ys)"
  by (induction ys) auto

lemma mset_fold_slide: "mset (fold (slide f) xs acc) = mset xs + mset acc"
  by (induction xs arbitrary: acc) (auto simp: mset_slide)

lemma sorted_fold_slide:
  "sorted_wrt (\<lambda>a b. f b \<le> f a) acc \<Longrightarrow> sorted_wrt (\<lambda>a b. f b \<le> f a) (fold (slide f) xs acc)"
  by (induction xs arbitrary: acc) (auto simp: slide_sorted)

interpretation go_sort: slice_sort "sort_Slice :: ('a \<Rightarrow> 'k :: linorder) \<Rightarrow> 'a list \<Rightarrow> 'a list"
proof
  fix f :: "'a \<Rightarrow> 'k" and xs :: "'a list"
  show "mset (sort_Slice f xs) = mset xs"
    by (simp add: sort_Slice_def mset_fold_slide)
  have "sorted_wrt (\<lambda>a b. f b \<le> f a) (fold (slide f) xs [])"
    by (rule sorted_fold_slide) simp
  then show "sorted (map f (sort_Slice f xs))"
    by (simp add: sort_Slice_def sorted_map sorted_wrt_rev)
qed

section \<open>Aspects\<close>

text \<open>What an aspect sees of the context it is called with.\<close>

record ctx_view =
  cv_self :: "RuleNodeId option"
  cv_from :: "RuleNodeId option"
  cv_chain :: "RuleNodeId option"
  cv_debug :: bool

record 'w aspect =
  a_Order :: int
  a_PointCut :: "ctx_view \<Rightarrow> RuleMsg \<Rightarrow> string \<Rightarrow> 'w \<Rightarrow> bool"
  a_Before :: "(ctx_view \<Rightarrow> RuleMsg \<Rightarrow> string \<Rightarrow> 'w \<Rightarrow> RuleMsg \<times> 'w) option"
  a_After :: "(ctx_view \<Rightarrow> RuleMsg \<Rightarrow> error option \<Rightarrow> string \<Rightarrow> 'w \<Rightarrow> RuleMsg \<times> 'w) option"
  a_Around :: "(ctx_view \<Rightarrow> RuleMsg \<Rightarrow> string \<Rightarrow> 'w \<Rightarrow> (RuleMsg \<times> bool \<times> ctx_call list) \<times> 'w) option"
  a_Start :: "(ctx_view \<Rightarrow> RuleMsg \<Rightarrow> 'w \<Rightarrow> RuleMsg \<times> 'w) option"
  a_End :: "(ctx_view \<Rightarrow> RuleMsg \<Rightarrow> error option \<Rightarrow> string \<Rightarrow> 'w \<Rightarrow> RuleMsg \<times> 'w) option"
  a_Completed :: "(ctx_view \<Rightarrow> RuleMsg \<Rightarrow> 'w \<Rightarrow> RuleMsg \<times> 'w) option"
  a_OnCreated :: "(RuleNodeId \<Rightarrow> 'w \<Rightarrow> 'w) option"
  a_OnReload :: "(RuleNodeId \<Rightarrow> RuleNodeId \<Rightarrow> error option \<Rightarrow> 'w \<Rightarrow> 'w) option"
  a_OnDestroy :: "(RuleNodeId \<Rightarrow> 'w \<Rightarrow> 'w) option"

section \<open>Configuration\<close>

datatype parser_ref = JsonParser | CustomParser nat
datatype registry_ref = DefaultRegistry | CustomRegistry nat
datatype logger_ref = DefaultLogger | CustomLogger nat

text \<open>A user-defined function: a \<open>Script\<close> with its type and content, or any other value.\<close>

datatype udf = UdfScript string go_val | UdfValue go_val

type_synonym Configuration = "(string, go_val) gomap"

text \<open>
  Callbacks of the user are present or nil; what the engine does with them is recorded as
  events. \<open>cfg_Pool\<close> is the result of \<open>Submit\<close> in the current world; \<open>None\<close> is a nil pool.
\<close>

record 'w Config =
  cfg_OnDebug :: bool
  cfg_OnEnd :: bool
  cfg_ScriptMaxExecutionTime :: int
  cfg_Pool :: "('w \<Rightarrow> bool \<times> 'w) option"
  cfg_ComponentsRegistry :: "registry_ref option"
  cfg_Parser :: "parser_ref option"
  cfg_Logger :: "logger_ref option"
  cfg_Properties :: Metadata
  cfg_Udf :: "(string, udf) gomap option"
  cfg_Aspects :: "'w aspect list"

definition RegisterUdf :: "string \<Rightarrow> udf \<Rightarrow> 'w Config \<Rightarrow> 'w Config" where
  "RegisterUdf name value c =
     (let udfs = (case cfg_Udf c of None \<Rightarrow> [] | Some m \<Rightarrow> m);
          key = (case value of UdfScript ty content \<Rightarrow> ty @ ScriptFuncSeparator @ name
                 | UdfValue v \<Rightarrow> name)
      in c\<lparr>cfg_Udf := Some (gm_put key value udfs)\<rparr>)"

text \<open>
  The three accessors sort \<open>c.Aspects\<close> in place, so each returns the configuration with the
  sorted list as well.
\<close>

type_synonym 'w sorter = "('w aspect \<Rightarrow> int) \<Rightarrow> 'w aspect list \<Rightarrow> 'w aspect list"

definition GetNodeAspects ::
  "'w sorter \<Rightarrow> 'w Config \<Rightarrow> 'w Config \<times> 'w aspect list \<times> 'w aspect list \<times> 'w aspect list" where
  "GetNodeAspects srt c =
     (let sorted_aspects = srt a_Order (cfg_Aspects c)
      in (c\<lparr>cfg_Aspects := sorted_aspects\<rparr>,
          filter (\<lambda>item. a_Around item \<noteq> None) sorted_aspects,
          filter (\<lambda>item. a_Before item \<noteq> None) sorted_aspects,
          filter (\<lambda>item. a_After item \<noteq> None) sorted_aspects))"

definition GetChainAspects ::
  "'w sorter \<Rightarrow> 'w Config \<Rightarrow> 'w Config \<times> 'w aspect list \<times> 'w aspect list \<times> 'w aspect list" where
  "GetChainAspects srt c =
     (let sorted_aspects = srt a_Order (cfg_Aspects c)
      in (c\<lparr>cfg_Aspects := sorted_aspects\<rparr>,
          filter (\<lambda>item. a_Start item \<noteq> None) sorted_aspects,
          filter (\<lambda>item. a_End item \<noteq> None) sorted_aspects,
          filter (\<lambda>item. a_Completed item \<noteq> None) sorted_aspects))"

definition GetEngineAspects ::
  "'w sorter \<Rightarrow> 'w Config \<Rightarrow> 'w Config \<times> 'w aspect list \<times> 'w aspect list \<times> 'w aspect list" where
  "GetEngineAspects srt c =
     (let sorted_aspects = srt a_Order (cfg_Aspects c)
      in (c\<lparr>cfg_Aspects := sorted_aspects\<rparr>,
          filter (\<lambda>item. a_OnCreated item \<noteq> None) sorted_aspects,
          filter (\<lambda>item. a_OnReload item \<noteq> None) sorted_aspects,
          filter (\<lambda>item. a_OnDestroy item \<noteq> None) sorted_aspects))"

subsection \<open>Options\<close>

type_synonym 'w Option = "'w Config \<Rightarrow> 'w Config"

definition types_NewConfig :: "'w Option list \<Rightarrow> 'w Config" where
  "types_NewConfig opts =
     fold (\<lambda>opt c. opt c) opts
       \<lparr>cfg_OnDebug = False, cfg_OnEnd = False, cfg_ScriptMaxExecutionTime = 2000 * 1000000,
        cfg_Pool = None, cfg_ComponentsRegistry = None, cfg_Parser = None,
        cfg_Logger = Some DefaultLogger, cfg_Properties = NewMetadata, cfg_Udf = None,
        cfg_Aspects = []\<rparr>"

definition NewLogger :: "logger_ref option \<Rightarrow> logger_ref" where
  "NewLogger custom = (case custom of Some l \<Rightarrow> l | None \<Rightarrow> DefaultLogger)"

definition WithComponentsRegistry :: "registry_ref option \<Rightarrow> 'w Option" where
  "WithComponentsRegistry r c = c\<lparr>cfg_ComponentsRegistry := r\<rparr>"

definition WithOnDebug :: "bool \<Rightarrow> 'w Option" where
  "WithOnDebug onDebug c = c\<lparr>cfg_OnDebug := onDebug\<rparr>"

definition WithPool :: "('w \<Rightarrow> bool \<times> 'w) option \<Rightarrow> 'w Option" where
  "WithPool pool c = c\<lparr>cfg_Pool := pool\<rparr>"

definition WithScriptMaxExecutionTime :: "int \<Rightarrow> 'w Option" where
  "WithScriptMaxExecutionTime t c = c\<lparr>cfg_ScriptMaxExecutionTime := t\<rparr>"

definition WithParser :: "parser_ref option \<Rightarrow> 'w Option" where
  "WithParser p c = c\<lparr>cfg_Parser := p\<rparr>"

definition WithLogger :: "logger_ref option \<Rightarrow> 'w Option" where
  "WithLogger l c = c\<lparr>cfg_Logger := l\<rparr>"

definition WithAspects :: "'w aspect list \<Rightarrow> 'w Option" where
  "WithAspects aspects c = c\<lparr>cfg_Aspects := aspects\<rparr>"

text \<open>\<open>NewConfig\<close> of \<open>engine.go\<close> adds the default parser and registry.\<close>

definition NewConfig :: "'w Option list \<Rightarrow> 'w Config" where
  "NewConfig opts =
     (let c = types_NewConfig opts;
          c = (if cfg_Parser c = None then c\<lparr>cfg_Parser := Some JsonParser\<rparr> else c);
          c = (if cfg_ComponentsRegistry c = None
               then c\<lparr>cfg_ComponentsRegistry := Some DefaultRegistry\<rparr> else c)
      in c)"

section \<open>Facts on aspect lists\<close>

text \<open>the node aspects come in ascending order of \<open>Order\<close>, and each of the three lists
  holds exactly the registered aspects that implement its interface, each as often as it was
  registered; the same holds whatever sorted permutation \<open>sort.Slice\<close> chooses.\<close>

theorem GetNodeAspects_sorted_complete:
  assumes "slice_sort srt" and "GetNodeAspects srt c = (c', around, before, after)"
  shows "sorted (map a_Order around) \<and> sorted (map a_Order before) \<and> sorted (map a_Order after) \<and>
         mset around = {# a \<in># mset (cfg_Aspects c). a_Around a \<noteq> None #} \<and>
         mset before = {# a \<in># mset (cfg_Aspects c). a_Before a \<noteq> None #} \<and>
         mset after = {# a \<in># mset (cfg_Aspects c). a_After a \<noteq> None #} \<and>
         mset (cfg_Aspects c') = mset (cfg_Aspects c)"
  using assms(2)
  by (auto simp: GetNodeAspects_def Let_def slice_sort.filter_srt_sorted [OF assms(1)]
      slice_sort.mset_srt [OF assms(1)] mset_filter)

definition sample_aspect :: "int \<Rightarrow> bool \<Rightarrow> unit aspect" where
  "sample_aspect n b =
     \<lparr>a_Order = n, a_PointCut = (\<lambda>_ _ _ _. True),
      a_Before = (if b then Some (\<lambda>_ m _ w. (m, w)) else None),
      a_After = Some (\<lambda>_ m _ _ w. (m, w)), a_Around = None, a_Start = None, a_End = None,
      a_Completed = None, a_OnCreated = None, a_OnReload = None, a_OnDestroy = None\<rparr>"

theorem GetNodeAspects_sorted_complete_witness:
  "sorted (map a_Order (fst (snd (snd
     (GetNodeAspects sort_Slice (types_NewConfig [WithAspects [sample_aspect 9 True, sample_aspect 3 True]]))))))"
  using GetNodeAspects_sorted_complete [OF go_sort.slice_sort_axioms,
      of "types_NewConfig [WithAspects [sample_aspect 9 True, sample_aspect 3 True]]"]
  by (metis prod.collapse)

lemma NewConfig_defaults:
  "cfg_Parser (NewConfig opts) \<noteq> None \<and> cfg_ComponentsRegistry (NewConfig opts) \<noteq> None"
  by (simp add: NewConfig_def Let_def)

end
