(* ===== verification/Registry.thy ===== *)
theory Registry
  imports Config
begin

text \<open>
  The registries: node components (\<open>registry.go\<close>), endpoint components
  (\<open>endpoint/registry.go\<close>) and the functions of the functions node
  (\<open>components/action/functions_node.go\<close>). A registered component is the prototype the
  code keeps: its type and the instance \<open>New\<close> returns. What \<open>plugin.Open\<close> and the
  symbol lookup give is an argument. Locks are not modelled: every operation is one step.
\<close>

section \<open>The contract of a component registry\<close>

locale type_registry =
  fixes known :: "'r \<Rightarrow> string \<Rightarrow> 'c option"
    and register :: "'c \<Rightarrow> 'r \<Rightarrow> error + 'r"
    and ctype :: "'c \<Rightarrow> string"
  assumes register_dup: "known r (ctype c) \<noteq> None \<Longrightarrow> is_err (register c r)"
    and register_new: "known r (ctype c) = None \<Longrightarrow>
      \<exists>r'. register c r = Inr r' \<and> known r' = (known r)(ctype c \<mapsto> c)"
begin

lemma register_ok_iff: "is_err (register c r) \<longleftrightarrow> known r (ctype c) \<noteq> None"
  using register_dup [of r c] register_new [of r c] by (cases "known r (ctype c)") auto

lemma register_known: "register c r = Inr r' \<Longrightarrow> known r' = (known r)(ctype c \<mapsto> c)"
  using register_new [of r c] register_dup [of r c] by (cases "known r (ctype c)") auto

text \<open>Registering a list and ignoring the errors: the first component of a type wins.\<close>

lemma known_register_all:
  "known (fold (\<lambda>c r. case register c r of Inl _ \<Rightarrow> r | Inr r' \<Rightarrow> r') cs r) t =
     (case known r t of Some c \<Rightarrow> Some c | None \<Rightarrow> find (\<lambda>c. ctype c = t) cs)"
proof (induction cs arbitrary: r)
  case Nil
  then show ?case by (simp split: option.splits)
next
  case (Cons c cs)
  show ?case
  proof (cases "known r (ctype c)")
    case None
    with register_new obtain r' where "register c r = Inr r'" "known r' = (known r)(ctype c \<mapsto> c)"
      by blast
    with Cons None show ?thesis by (auto split: option.splits)
  next
    case (Some d)
    with register_dup obtain e where "register c r = Inl e" by (cases "register c r") force+
    with Cons Some show ?thesis by (auto split: option.splits)
  qed
qed

end

section \<open>Node components\<close>

text \<open>
  The methods of the \<open>Node\<close> interface, dispatched on the instance. \<open>OnMsg\<close> is given by the
  calls it makes on its context, in order, and the value it panics with afterwards, if any.
  \<open>n_OnEnd\<close> and \<open>n_OnDone\<close> are the closures that an \<open>OnMsg\<close> passed to \<open>ExecuteNode\<close> or
  \<open>TellFlow\<close>, named by their number: they act on the context of that \<open>OnMsg\<close>.
\<close>

record ('n, 'w) node_ops =
  n_Init :: "'n \<Rightarrow> 'w Config \<Rightarrow> Configuration \<Rightarrow> error + 'n"
  n_OnMsg :: "'n \<Rightarrow> ctx_view \<Rightarrow> RuleMsg \<Rightarrow> 'w \<Rightarrow> (ctx_call list \<times> string option) \<times> 'w"
  n_Destroy :: "'n \<Rightarrow> 'w \<Rightarrow> 'w"
  n_OnEnd :: "'n \<Rightarrow> nat \<Rightarrow> RuleMsg \<Rightarrow> error option \<Rightarrow> string \<Rightarrow> 'w \<Rightarrow> ctx_call list \<times> 'w"
  n_OnDone :: "'n \<Rightarrow> nat \<Rightarrow> 'w \<Rightarrow> ctx_call list \<times> 'w"

record 'n component =
  cmp_Type :: string
  cmp_New :: 'n

record 'n RuleComponentRegistry =
  reg_components :: "(string, 'n component) gomap option"
  reg_plugins :: "(string, 'n component list) gomap option"

definition new_RuleComponentRegistry :: "'n RuleComponentRegistry" where
  "new_RuleComponentRegistry = \<lparr>reg_components = None, reg_plugins = None\<rparr>"

abbreviation gm_of :: "('k, 'v) gomap option \<Rightarrow> ('k, 'v) gomap" where
  "gm_of m \<equiv> (case m of None \<Rightarrow> [] | Some x \<Rightarrow> x)"

definition Register ::
  "'n component \<Rightarrow> 'n RuleComponentRegistry \<Rightarrow> error + 'n RuleComponentRegistry" where
  "Register node r =
     (let comps = gm_of (reg_components r)
      in if map_of comps (cmp_Type node) \<noteq> None
         then Inl (''the component already exists. nodeType='' @ cmp_Type node)
         else Inr (r\<lparr>reg_components := Some (gm_put (cmp_Type node) node comps)\<rparr>))"

text \<open>\<open>loaded\<close>: what \<open>PluginComponentRegistry.Init\<close> and \<open>Components\<close> give for the file. The
  registry is returned in the error case too, with the components registered so far.\<close>

fun register_each ::
  "'n component list \<Rightarrow> 'n RuleComponentRegistry
     \<Rightarrow> error option \<times> 'n RuleComponentRegistry" where
  "register_each [] r = (None, r)"
| "register_each (node # nodes) r =
     (case Register node r of Inl err \<Rightarrow> (Some err, r) | Inr r' \<Rightarrow> register_each nodes r')"

definition RegisterPlugin ::
  "(error + 'n component list) \<Rightarrow> string \<Rightarrow> 'n RuleComponentRegistry
     \<Rightarrow> error option \<times> 'n RuleComponentRegistry" where
  "RegisterPlugin loaded name r =
     (case loaded of
        Inl err \<Rightarrow> (Some err, r)
      | Inr comps \<Rightarrow>
          (case find (\<lambda>node. map_of (gm_of (reg_components r)) (cmp_Type node) \<noteq> None) comps of
             Some node \<Rightarrow> (Some (''the component already exists. nodeType='' @ cmp_Type node), r)
           | None \<Rightarrow>
               (case register_each comps r of
                  (Some err, r') \<Rightarrow> (Some err, r')
                | (None, r') \<Rightarrow>
                    (None, r'\<lparr>reg_plugins := Some (gm_put name comps (gm_of (reg_plugins r')))\<rparr>))))"

definition Unregister ::
  "string \<Rightarrow> 'n RuleComponentRegistry \<Rightarrow> error option \<times> 'n RuleComponentRegistry" where
  "Unregister componentType r =
     (let (removed, r) =
            (case map_of (gm_of (reg_plugins r)) componentType of
               Some nodes \<Rightarrow>
                 (True, r\<lparr>reg_components := map_option (fold (\<lambda>node. gm_del (cmp_Type node)) nodes) (reg_components r),
                          reg_plugins := map_option (gm_del componentType) (reg_plugins r)\<rparr>)
             | None \<Rightarrow> (False, r));
          (removed, r) =
            (if map_of (gm_of (reg_components r)) componentType \<noteq> None
             then (True, r\<lparr>reg_components := map_option (gm_del componentType) (reg_components r)\<rparr>)
             else (removed, r))
      in if \<not> removed then (Some (''component not found.componentType='' @ componentType), r)
         else (None, r))"

definition NewNode :: "string \<Rightarrow> 'n RuleComponentRegistry \<Rightarrow> error + 'n" where
  "NewNode nodeType r =
     (case map_of (gm_of (reg_components r)) nodeType of
        None \<Rightarrow> Inl (''component not found.componentType='' @ nodeType)
      | Some node \<Rightarrow> Inr (cmp_New node))"

definition GetComponents :: "'n RuleComponentRegistry \<Rightarrow> (string, 'n component) gomap" where
  "GetComponents r = gm_copy_into (gm_of (reg_components r)) []"

text \<open>The \<open>init\<close> function: all built-in components, errors ignored.\<close>

definition init_registry ::
  "'n component list list \<Rightarrow> 'n RuleComponentRegistry \<Rightarrow> 'n RuleComponentRegistry" where
  "init_registry registries r =
     fold (\<lambda>node r. case Register node r of Inl _ \<Rightarrow> r | Inr r' \<Rightarrow> r') (concat registries) r"

text \<open>\<open>SafeComponentSlice\<close>.\<close>

definition SafeComponentSlice_Add :: "'n list \<Rightarrow> 'n list \<Rightarrow> 'n list" where
  "SafeComponentSlice_Add nodes components = fold (\<lambda>node cs. cs @ [node]) nodes components"

definition reg_lookup :: "'n RuleComponentRegistry \<Rightarrow> string \<Rightarrow> 'n component option" where
  "reg_lookup r t = map_of (gm_of (reg_components r)) t"

interpretation node_registry: type_registry reg_lookup Register cmp_Type
proof
  fix r :: "'n RuleComponentRegistry" and c
  show "reg_lookup r (cmp_Type c) \<noteq> None \<Longrightarrow> is_err (Register c r)"
    by (simp add: reg_lookup_def Register_def Let_def)
  show "reg_lookup r (cmp_Type c) = None \<Longrightarrow>
          \<exists>r'. Register c r = Inr r' \<and> reg_lookup r' = (reg_lookup r)(cmp_Type c \<mapsto> c)"
    by (auto simp: reg_lookup_def Register_def Let_def fun_eq_iff)
qed

section \<open>Endpoint components\<close>

record ('n, 'w) endpoint_component =
  ep_Type :: string
  ep_New :: 'n
  ep_IsEndpoint :: bool
  ep_Init :: "'n \<Rightarrow> 'w Config \<Rightarrow> Configuration \<Rightarrow> error + 'n"

type_synonym ('n, 'w) ComponentRegistry = "(string, ('n, 'w) endpoint_component) gomap option"

definition ep_Register ::
  "('n, 'w) endpoint_component \<Rightarrow> ('n, 'w) ComponentRegistry \<Rightarrow> error + ('n, 'w) ComponentRegistry" where
  "ep_Register endpoint r =
     (if map_of (gm_of r) (ep_Type endpoint) \<noteq> None
      then Inl (''the component already exists. type='' @ ep_Type endpoint)
      else Inr (Some (gm_put (ep_Type endpoint) endpoint (gm_of r))))"

definition ep_Unregister ::
  "string \<Rightarrow> ('n, 'w) ComponentRegistry \<Rightarrow> error option \<times> ('n, 'w) ComponentRegistry" where
  "ep_Unregister componentType r =
     (if map_of (gm_of r) componentType \<noteq> None
      then (None, map_option (gm_del componentType) r)
      else (Some (''component not found. type='' @ componentType), r))"

text \<open>The configuration argument is nil, a \<open>types.Configuration\<close>, or a struct that
  \<open>Map2Struct\<close> (third-party reflection, given by its result) turns into one.\<close>

datatype ep_conf = NilConf | MapConf Configuration | StructConf "error + Configuration"

definition ep_New_instance ::
  "string \<Rightarrow> 'w Config \<Rightarrow> ep_conf \<Rightarrow> ('n, 'w) ComponentRegistry \<Rightarrow> error + 'n" where
  "ep_New_instance componentType ruleConfig configuration r =
     (case map_of (gm_of r) componentType of
        None \<Rightarrow> Inl (''component not found. type='' @ componentType)
      | Some node \<Rightarrow>
          (let config = (case configuration of
                           NilConf \<Rightarrow> Inr [] | MapConf c \<Rightarrow> Inr c | StructConf res \<Rightarrow> res)
           in case config of
                Inl err \<Rightarrow> Inl err
              | Inr config \<Rightarrow>
                  if ep_IsEndpoint node then ep_Init node (ep_New node) ruleConfig config
                  else Inl (componentType @ '' not type of Endpoint'')))"

definition ep_lookup :: "('n, 'w) ComponentRegistry \<Rightarrow> string \<Rightarrow> ('n, 'w) endpoint_component option" where
  "ep_lookup r t = map_of (gm_of r) t"

interpretation endpoint_registry: type_registry ep_lookup ep_Register ep_Type
proof
  fix r :: "('n, 'w) ComponentRegistry" and c
  show "ep_lookup r (ep_Type c) \<noteq> None \<Longrightarrow> is_err (ep_Register c r)"
    by (simp add: ep_lookup_def ep_Register_def)
  show "ep_lookup r (ep_Type c) = None \<Longrightarrow>
          \<exists>r'. ep_Register c r = Inr r' \<and> ep_lookup r' = (ep_lookup r)(ep_Type c \<mapsto> c)"
    by (auto simp: ep_lookup_def ep_Register_def fun_eq_iff)
qed

section \<open>Functions\<close>

type_synonym 'f FunctionsRegistry = "(string, 'f) gomap option"

definition fn_Register :: "string \<Rightarrow> 'f \<Rightarrow> 'f FunctionsRegistry \<Rightarrow> 'f FunctionsRegistry" where
  "fn_Register functionName f x = Some (gm_put functionName f (gm_of x))"

definition fn_UnRegister :: "string \<Rightarrow> 'f FunctionsRegistry \<Rightarrow> 'f FunctionsRegistry" where
  "fn_UnRegister functionName x = map_option (gm_del functionName) x"

definition fn_Get :: "'f FunctionsRegistry \<Rightarrow> string \<Rightarrow> 'f option" where
  "fn_Get x functionName = (case x of None \<Rightarrow> None | Some m \<Rightarrow> map_of m functionName)"

interpretation fnreg: keyed_store fn_Get fn_Register fn_UnRegister
  by unfold_locales (auto simp: fn_Get_def fn_Register_def fn_UnRegister_def split: option.splits)

section \<open>Registry properties\<close>

definition registry_ok :: "'n RuleComponentRegistry \<Rightarrow> bool" where
  "registry_ok r =
     (distinct (map fst (gm_of (reg_components r))) \<and>
      (\<forall>(t, c) \<in> set (gm_of (reg_components r)). cmp_Type c = t))"

lemma NewNode_lookup:
  "NewNode t r = (case reg_lookup r t of
     None \<Rightarrow> Inl (''component not found.componentType='' @ t) | Some c \<Rightarrow> Inr (cmp_New c))"
  by (simp add: NewNode_def reg_lookup_def)

text \<open>a successful registration makes \<open>NewNode\<close> create instances of exactly the new type
  and changes nothing for the others; a registration fails exactly when the type is taken.\<close>

theorem Register_NewNode:
  "(case Register c r of
      Inl e \<Rightarrow> \<not> is_err (NewNode (cmp_Type c) r)
    | Inr r' \<Rightarrow> is_err (NewNode (cmp_Type c) r) \<and>
        (\<forall>t. NewNode t r' = (if t = cmp_Type c then Inr (cmp_New c) else NewNode t r)))"
proof (cases "reg_lookup r (cmp_Type c)")
  case None
  then obtain r' where "Register c r = Inr r'" "reg_lookup r' = (reg_lookup r)(cmp_Type c \<mapsto> c)"
    using node_registry.register_new by blast
  with None show ?thesis by (simp add: NewNode_lookup)
next
  case (Some d)
  then have "is_err (Register c r)" by (simp add: node_registry.register_ok_iff)
  with Some show ?thesis by (auto simp: NewNode_lookup split: sum.splits)
qed

lemma registry_ok_Register: "registry_ok r \<Longrightarrow> Register c r = Inr r' \<Longrightarrow> registry_ok r'"
  by (auto simp: registry_ok_def Register_def Let_def gm_put_new map_of_eq_None_iff
      split: if_splits option.splits)

lemma registry_ok_register_each:
  "registry_ok r \<Longrightarrow> register_each cs r = (e, r') \<Longrightarrow> registry_ok r'"
  by (induction cs r rule: register_each.induct)
     (auto split: sum.splits dest: registry_ok_Register)

lemma registry_ok_plugins [simp]: "registry_ok (r\<lparr>reg_plugins := p\<rparr>) = registry_ok r"
  by (simp add: registry_ok_def)

lemma registry_ok_subset:
  "registry_ok r \<Longrightarrow> distinct (map fst m) \<Longrightarrow> set m \<subseteq> set (gm_of (reg_components r)) \<Longrightarrow>
     registry_ok (r\<lparr>reg_components := Some m\<rparr>)"
  by (auto simp: registry_ok_def)

lemma fold_del_facts:
  "distinct (map fst m) \<Longrightarrow>
     distinct (map fst (fold (\<lambda>n. gm_del (f n)) ns m)) \<and> set (fold (\<lambda>n. gm_del (f n)) ns m) \<subseteq> set m"
proof (induction ns arbitrary: m)
  case Nil
  then show ?case by simp
next
  case (Cons n ns)
  have "set (gm_del (f n) m) \<subseteq> set m" by (auto simp: AList.delete_eq)
  with Cons.IH [OF distinct_delete [OF Cons.prems]] show ?case by auto
qed

lemma registry_ok_del:
  "registry_ok r \<Longrightarrow>
     registry_ok (r\<lparr>reg_components := map_option (fold (\<lambda>n. gm_del (f n)) ns) (reg_components r)\<rparr>)"
  using fold_del_facts [of "gm_of (reg_components r)" f ns]
  by (cases "reg_components r") (auto simp: registry_ok_def)

lemma registry_ok_del1:
  "registry_ok r \<Longrightarrow> registry_ok (r\<lparr>reg_components := map_option (gm_del t) (reg_components r)\<rparr>)"
  using registry_ok_del [of r "\<lambda>_. t" "[()]"] by simp

lemma registry_ok_Unregister:
  assumes "registry_ok r"
  shows "registry_ok (snd (Unregister t r))"
proof -
  define r1 where "r1 = (case map_of (gm_of (reg_plugins r)) t of
      Some nodes \<Rightarrow> r\<lparr>reg_components := map_option (fold (\<lambda>node. gm_del (cmp_Type node)) nodes) (reg_components r),
                      reg_plugins := map_option (gm_del t) (reg_plugins r)\<rparr>
    | None \<Rightarrow> r)"
  have "registry_ok r1"
    using assms registry_ok_del [OF assms, of cmp_Type]
    by (auto simp: r1_def registry_ok_def split: option.splits)
  moreover have "snd (Unregister t r) \<in> {r1, r1\<lparr>reg_components := map_option (gm_del t) (reg_components r1)\<rparr>}"
    by (auto simp: Unregister_def Let_def r1_def split: option.splits)
  ultimately show ?thesis using registry_ok_del1 [of r1 t] by auto
qed

text \<open>every entry of the component map is filed under the type of its component and no
  type occurs twice, and registering a component or a plugin (also one that fails half-way)
  and unregistering keep it so.\<close>

theorem registry_ok_preserved:
  assumes "registry_ok r"
  shows "(\<forall>c r'. Register c r = Inr r' \<longrightarrow> registry_ok r') \<and>
         registry_ok (snd (RegisterPlugin loaded name r)) \<and>
         registry_ok (snd (Unregister t r))"
proof (intro conjI allI impI)
  show "registry_ok r'" if "Register c r = Inr r'" for c r'
    using assms that by (rule registry_ok_Register)
  show "registry_ok (snd (RegisterPlugin loaded name r))"
    using assms
    by (auto simp: RegisterPlugin_def split: sum.splits option.splits prod.splits
        dest: registry_ok_register_each)
  show "registry_ok (snd (Unregister t r))"
    using assms by (rule registry_ok_Unregister)
qed

theorem registry_ok_preserved_witness:
  "registry_ok (snd (RegisterPlugin (Inr [\<lparr>cmp_Type = ''upper'', cmp_New = ()\<rparr>])
      ''test'' (new_RuleComponentRegistry :: unit RuleComponentRegistry)))"
  using registry_ok_preserved [of "new_RuleComponentRegistry :: unit RuleComponentRegistry"]
  by (simp add: registry_ok_def new_RuleComponentRegistry_def)

lemma register_each_Cons_ok:
  assumes "register_each (c # cs) r = (None, r')"
  obtains r1 where "Register c r = Inr r1" "register_each cs r1 = (None, r')"
    "reg_lookup r (cmp_Type c) = None" "reg_lookup r1 = (reg_lookup r)(cmp_Type c \<mapsto> c)"
    "reg_plugins r1 = reg_plugins r"
proof -
  from assms obtain r1 where r1: "Register c r = Inr r1" "register_each cs r1 = (None, r')"
    by (auto split: sum.splits)
  moreover have "reg_plugins r1 = reg_plugins r"
    using r1(1) by (auto simp: Register_def Let_def split: if_splits)
  moreover have "reg_lookup r1 = (reg_lookup r)(cmp_Type c \<mapsto> c)" "reg_lookup r (cmp_Type c) = None"
    using r1(1) node_registry.register_known node_registry.register_ok_iff [of c r] by auto
  ultimately show ?thesis using that by blast
qed

lemma register_each_fresh:
  "register_each cs r = (None, r') \<Longrightarrow> c \<in> set cs \<Longrightarrow> reg_lookup r (cmp_Type c) = None"
proof (induction cs arbitrary: r)
  case Nil
  then show ?case by simp
next
  case (Cons d cs)
  from Cons.prems(1) show ?case
  proof (rule register_each_Cons_ok)
    fix r1
    assume a: "register_each cs r1 = (None, r')" "reg_lookup r (cmp_Type d) = None"
      "reg_lookup r1 = (reg_lookup r)(cmp_Type d \<mapsto> d)"
    show ?case
    proof (cases "c = d")
      case True
      with a show ?thesis by simp
    next
      case False
      with Cons.prems(2) Cons.IH [OF a(1)] have "reg_lookup r1 (cmp_Type c) = None" by simp
      with a(3) show ?thesis by (simp split: if_splits)
    qed
  qed
qed

lemma register_each_other:
  "register_each cs r = (None, r') \<Longrightarrow> t \<notin> cmp_Type ` set cs \<Longrightarrow> reg_lookup r' t = reg_lookup r t"
proof (induction cs arbitrary: r)
  case Nil
  then show ?case by simp
next
  case (Cons d cs)
  from Cons.prems(1) show ?case
    by (rule register_each_Cons_ok) (use Cons.IH Cons.prems(2) in force)
qed

lemma register_each_plugins:
  "register_each cs r = (None, r') \<Longrightarrow> reg_plugins r' = reg_plugins r"
proof (induction cs arbitrary: r)
  case Nil
  then show ?case by simp
next
  case (Cons d cs)
  from Cons.prems(1) show ?case
    by (rule register_each_Cons_ok) (use Cons.IH in force)
qed

lemma map_of_fold_del:
  "map_of (fold (\<lambda>n. gm_del (f n)) ns m) t = (if t \<in> f ` set ns then None else map_of m t)"
  by (induction ns arbitrary: m) auto

text \<open>C35: registering a plugin and unregistering it by its name gives back the registry one
  started from, as far as lookups of components and of other plugins go. The name of the plugin is not the type of a
  component, neither of a registered one nor of its own: \<open>Unregister\<close> would take it for that component.\<close>

theorem plugin_roundtrip:
  assumes reg: "RegisterPlugin (Inr cs) name r = (None, r')"
    and free: "reg_lookup r name = None" "name \<notin> cmp_Type ` set cs"
  shows "fst (Unregister name r') = None \<and>
         reg_lookup (snd (Unregister name r')) = reg_lookup r \<and>
         map_of (gm_of (reg_plugins (snd (Unregister name r')))) =
           (map_of (gm_of (reg_plugins r)))(name := None)"
proof -
  from reg obtain r1 where r1: "register_each cs r = (None, r1)"
    and r': "r' = r1\<lparr>reg_plugins := Some (gm_put name cs (gm_of (reg_plugins r1)))\<rparr>"
    by (auto simp: RegisterPlugin_def split: option.splits prod.splits)
  let ?m = "fold (\<lambda>node. gm_del (cmp_Type node)) cs (gm_of (reg_components r1))"
  have look: "map_of ?m t = reg_lookup r t" for t
  proof (cases "t \<in> cmp_Type ` set cs")
    case True
    with register_each_fresh [OF r1] show ?thesis by (auto simp: map_of_fold_del)
  next
    case False
    with register_each_other [OF r1] show ?thesis by (simp add: map_of_fold_del reg_lookup_def)
  qed
  then have "map_of ?m name = None" using free(1) by simp
  then have "Unregister name r' =
      (None, r1\<lparr>reg_components := map_option (fold (\<lambda>node. gm_del (cmp_Type node)) cs) (reg_components r1),
                reg_plugins := Some (gm_del name (gm_put name cs (gm_of (reg_plugins r1))))\<rparr>)"
    by (cases "reg_components r1") (simp_all add: Unregister_def Let_def r')
  moreover have "map_of (gm_of (map_option (fold (\<lambda>node. gm_del (cmp_Type node)) cs) (reg_components r1))) t
                   = reg_lookup r t" for t
    using look [of t] by (cases "reg_components r1") (simp_all add: map_of_fold_del split: if_splits)
  ultimately show ?thesis using register_each_plugins [OF r1]
    by (simp add: reg_lookup_def fun_eq_iff)
qed

abbreviation demo_component :: "string \<Rightarrow> unit component" where
  "demo_component t \<equiv> \<lparr>cmp_Type = t, cmp_New = ()\<rparr>"

theorem plugin_roundtrip_witness:
  "reg_lookup (snd (Unregister ''p'' (snd (RegisterPlugin (Inr [demo_component ''upper'', demo_component ''time''])
      ''p'' new_RuleComponentRegistry)))) =
   reg_lookup (new_RuleComponentRegistry :: unit RuleComponentRegistry)"
proof -
  let ?r = "new_RuleComponentRegistry :: unit RuleComponentRegistry"
  let ?cs = "[demo_component ''upper'', demo_component ''time'']"
  have "RegisterPlugin (Inr ?cs) ''p'' ?r = (None, snd (RegisterPlugin (Inr ?cs) ''p'' ?r))"
    by (simp add: RegisterPlugin_def Register_def new_RuleComponentRegistry_def)
  from plugin_roundtrip [OF this] show ?thesis
    by (simp add: reg_lookup_def new_RuleComponentRegistry_def)
qed

text \<open>a plugin one of whose types is already registered is refused as a whole: the
  registry does not change.\<close>

theorem RegisterPlugin_refuses_known_type:
  assumes "c \<in> set cs" and "reg_lookup r (cmp_Type c) \<noteq> None"
  shows "\<exists>err. RegisterPlugin (Inr cs) name r = (Some err, r)"
proof -
  have "find (\<lambda>node. map_of (gm_of (reg_components r)) (cmp_Type node) \<noteq> None) cs \<noteq> None"
    using assms by (auto simp: find_None_iff reg_lookup_def)
  then show ?thesis by (auto simp: RegisterPlugin_def split: option.splits)
qed

theorem RegisterPlugin_refuses_known_type_witness:
  "\<exists>err. RegisterPlugin (Inr [demo_component ''b'', demo_component ''a'']) ''q''
     \<lparr>reg_components = Some [(''a'', demo_component ''a'')], reg_plugins = None\<rparr> =
   (Some err, \<lparr>reg_components = Some [(''a'', demo_component ''a'')], reg_plugins = None\<rparr>)"
  by (rule RegisterPlugin_refuses_known_type [of "demo_component ''a''"])
     (simp_all add: reg_lookup_def)

text \<open>a second plugin under a name that is already in use is accepted and takes the name
  over, so that unregistering by the name leaves the components of the first plugin behind,
  although the interface promises an error for a name that exists.\<close>

theorem RegisterPlugin_name_taken_over:
  "let r1 = snd (RegisterPlugin (Inr [demo_component ''a'']) ''p'' new_RuleComponentRegistry);
       (err, r2) = RegisterPlugin (Inr [demo_component ''b'']) ''p'' r1;
       r3 = snd (Unregister ''p'' r2)
   in err = None \<and> \<not> is_err (NewNode ''a'' r3) \<and> is_err (NewNode ''b'' r3) \<and>
      fst (Unregister ''p'' r3) \<noteq> None"
  by (simp add: RegisterPlugin_def Register_def Unregister_def NewNode_def new_RuleComponentRegistry_def Let_def)

lemma init_registry_first_wins:
  "reg_lookup (init_registry registries r) t =
     (case reg_lookup r t of Some c \<Rightarrow> Some c
      | None \<Rightarrow> find (\<lambda>c. cmp_Type c = t) (concat registries))"
  unfolding init_registry_def by (rule node_registry.known_register_all)

lemma SafeComponentSlice_Add_append: "SafeComponentSlice_Add nodes cs = cs @ nodes"
  by (induction nodes arbitrary: cs) (auto simp: SafeComponentSlice_Add_def)

lemma ep_register_unregister:
  "ep_lookup r (ep_Type c) = None \<Longrightarrow> ep_Register c r = Inr r' \<Longrightarrow>
     ep_Unregister (ep_Type c) r' = (None, r'') \<Longrightarrow> ep_lookup r'' = ep_lookup r"
  by (auto simp: ep_lookup_def ep_Register_def ep_Unregister_def fun_eq_iff split: if_splits)

end
