(* ===== verification/Chain.thy ===== *)
theory Chain
  imports Registry
begin

text \<open>
  Rule chain definitions, node contexts and rule chain contexts (\<open>dsl.go\<close>, \<open>node.go\<close>,
  \<open>parser.go\<close>, \<open>chain.go\<close>). The definition of a chain keeps its nodes as pointers that the
  node contexts share: a pointer is the index into the node list of the definition, so that
  reloading a node is seen in the definition of the chain. A reference to a node context is
  the key it is stored under; a reference to a sub rule chain is its key in the engine pool,
  and a pool is seen as the map from its keys to the ids of the root chains there.
\<close>

section \<open>Definitions in the DSL\<close>

record NodeAdditionalInfo =
  nai_Description :: string
  nai_LayoutX :: int
  nai_LayoutY :: int

record RuleNode =
  rn_Id :: string
  rn_AdditionalInfo :: NodeAdditionalInfo
  rn_Type :: string
  rn_Name :: string
  rn_DebugMode :: bool
  rn_Configuration :: "Configuration option"

record NodeConnection =
  nco_FromId :: string
  nco_ToId :: string
  nco_Type :: string

record RuleChainConnection =
  rcco_FromId :: string
  rcco_ToId :: string
  rcco_Type :: string

record RuleChainBaseInfo =
  rcb_ID :: string
  rcb_AdditionalInfo :: "(string, string) gomap option"
  rcb_Name :: string
  rcb_DebugMode :: bool
  rcb_Root :: bool
  rcb_Configuration :: "Configuration option"

record RuleMetadata =
  rm_FirstNodeIndex :: int
  rm_Nodes :: "RuleNode list"
  rm_Connections :: "NodeConnection list"
  rm_RuleChainConnections :: "RuleChainConnection list"

record RuleChain =
  rch_RuleChain :: RuleChainBaseInfo
  rch_Metadata :: RuleMetadata

text \<open>
  The JSON codec of \<open>ParserRuleChain\<close>, \<open>ParserRuleNode\<close> and of the \<open>Encode\<close> functions: what
  \<open>json.Unmarshal\<close> and \<open>json.Marshal\<close> give for these structs, and \<open>json.Indent\<close>.
\<close>

record codec =
  cd_unmarshal_chain :: "string \<Rightarrow> error + RuleChain"
  cd_unmarshal_node :: "string \<Rightarrow> error + RuleNode"
  cd_marshal_chain :: "RuleChain \<Rightarrow> error + string"
  cd_marshal_node :: "RuleNode \<Rightarrow> error + string"
  cd_indent :: "string \<Rightarrow> error + string"

definition ParserRuleChain :: "codec \<Rightarrow> string \<Rightarrow> error + RuleChain" where
  "ParserRuleChain cd rootRuleChain = cd_unmarshal_chain cd rootRuleChain"

definition ParserRuleNode :: "codec \<Rightarrow> string \<Rightarrow> error + RuleNode" where
  "ParserRuleNode cd rootRuleChain = cd_unmarshal_node cd rootRuleChain"

text \<open>A failure is an error that is returned or a panic.\<close>

datatype fail = Err error | Panic string

section \<open>Node contexts\<close>

definition defaultNodeIdPrefix :: string where "defaultNodeIdPrefix = ''node''"

record ('n, 'w) RuleNodeCtx =
  nc_Node :: 'n
  nc_SelfDefinition :: nat
  nc_Config :: "'w Config"

definition processGlobalPlaceholders :: "'w Config \<Rightarrow> Configuration \<Rightarrow> Configuration" where
  "processGlobalPlaceholders config configuration =
     (case cfg_Properties config of
        Some values \<Rightarrow>
          fold (\<lambda>(key, value) result.
                  gm_put key (case value of GString strV \<Rightarrow> GString (SprintfVar strV ''global.'' values)
                              | _ \<Rightarrow> value) result)
            configuration []
      | None \<Rightarrow> configuration)"

text \<open>The instance and the definition, whose nil configuration is replaced by an empty one.\<close>

definition InitRuleNodeCtx ::
  "('n, 'w) node_ops \<Rightarrow> 'n RuleComponentRegistry \<Rightarrow> 'w Config \<Rightarrow> RuleNode \<Rightarrow> error + 'n \<times> RuleNode" where
  "InitRuleNodeCtx ops reg config selfDefinition =
     (case NewNode (rn_Type selfDefinition) reg of
        Inl err \<Rightarrow> Inl err
      | Inr node \<Rightarrow>
          (let configuration = (case rn_Configuration selfDefinition of None \<Rightarrow> [] | Some c \<Rightarrow> c);
               selfDefinition = selfDefinition\<lparr>rn_Configuration := Some configuration\<rparr>
           in case n_Init ops node config (processGlobalPlaceholders config configuration) of
                Inl err \<Rightarrow> Inl err
              | Inr node \<Rightarrow> Inr (node, selfDefinition)))"

definition DecodeRuleNode ::
  "('n, 'w) node_ops \<Rightarrow> 'n RuleComponentRegistry \<Rightarrow> codec \<Rightarrow> 'w Config \<Rightarrow> string \<Rightarrow> error + 'n \<times> RuleNode" where
  "DecodeRuleNode ops reg cd config dsl =
     (case ParserRuleNode cd dsl of
        Inl err \<Rightarrow> Inl err
      | Inr node \<Rightarrow> InitRuleNodeCtx ops reg config node)"

text \<open>\<open>Copy\<close> of \<open>node.go\<close>: the instance is replaced, the shared definition keeps its id.\<close>

definition RuleNodeCtx_Copy ::
  "'n \<times> RuleNode \<Rightarrow> ('n, 'w) RuleNodeCtx \<Rightarrow> RuleNode \<Rightarrow> ('n, 'w) RuleNodeCtx \<times> RuleNode" where
  "RuleNodeCtx_Copy newCtx rn self =
     (rn\<lparr>nc_Node := fst newCtx\<rparr>,
      self\<lparr>rn_AdditionalInfo := rn_AdditionalInfo (snd newCtx), rn_Name := rn_Name (snd newCtx),
           rn_Type := rn_Type (snd newCtx), rn_DebugMode := rn_DebugMode (snd newCtx),
           rn_Configuration := rn_Configuration (snd newCtx)\<rparr>)"

text \<open>\<open>RuleNodeCtx.ReloadSelf\<close>: the old instance is destroyed only if the new one is there.\<close>

definition RuleNodeCtx_ReloadSelf ::
  "('n, 'w) node_ops \<Rightarrow> 'n RuleComponentRegistry \<Rightarrow> codec \<Rightarrow> string \<Rightarrow> ('n, 'w) RuleNodeCtx \<Rightarrow> RuleNode \<Rightarrow> 'w
     \<Rightarrow> error option \<times> ('n, 'w) RuleNodeCtx \<times> RuleNode \<times> 'w" where
  "RuleNodeCtx_ReloadSelf ops reg cd dsl rn self w =
     (case DecodeRuleNode ops reg cd (nc_Config rn) dsl of
        Inr newCtx \<Rightarrow>
          (let w = n_Destroy ops (nc_Node rn) w;
               (rn, self) = RuleNodeCtx_Copy newCtx rn self
           in (None, rn, self, w))
      | Inl err \<Rightarrow> (Some err, rn, self, w))"

definition encode :: "codec \<Rightarrow> error + string \<Rightarrow> error + string" where
  "encode cd marshalled = (case marshalled of Inl err \<Rightarrow> Inl err | Inr v \<Rightarrow> cd_indent cd v)"

definition EncodeRuleChain :: "codec \<Rightarrow> RuleChain \<Rightarrow> error + string" where
  "EncodeRuleChain cd d = encode cd (cd_marshal_chain cd d)"

definition EncodeRuleNode :: "codec \<Rightarrow> RuleNode \<Rightarrow> error + string" where
  "EncodeRuleNode cd d = encode cd (cd_marshal_node cd d)"

text \<open>\<open>DSL\<close> drops the error and returns what is left of the value: nil, an empty text.\<close>

definition RuleNodeCtx_DSL :: "codec \<Rightarrow> RuleNode \<Rightarrow> string" where
  "RuleNodeCtx_DSL cd self = (case EncodeRuleNode cd self of Inl _ \<Rightarrow> [] | Inr v \<Rightarrow> v)"

section \<open>Rule chain contexts\<close>

datatype pool_ref = DefaultRuleGo | PoolRef nat

text \<open>A value of type \<open>NodeCtx\<close>: a node of the chain or the root chain of a pooled engine.\<close>

datatype node_ref = NodeRef RuleNodeId | ChainRef string

type_synonym pool_view = "string \<Rightarrow> RuleNodeId option"

text \<open>
  \<open>rc_root\<close> is the \<open>self\<close> of \<open>rootRuleContext\<close> (\<open>None\<close>: the chain has no root context), and
  \<open>rc_rootSelf\<close> says whether that context points back to this very chain context, which it
  no longer does after \<open>Copy\<close>; \<open>rc_rootConfig\<close> is the configuration of that context.
\<close>

record ('n, 'w) RuleChainCtx =
  rc_Id :: RuleNodeId
  rc_SelfDefinition :: RuleChain
  rc_Config :: "'w Config"
  rc_initialized :: bool
  rc_nodeIds :: "RuleNodeId list"
  rc_nodes :: "(RuleNodeId, ('n, 'w) RuleNodeCtx) gomap"
  rc_nodeRoutes :: "(RuleNodeId, RuleNodeRelation list) gomap"
  rc_relationCache :: "(RuleNodeId \<times> string, node_ref list) gomap"
  rc_root :: "node_ref option"
  rc_rootSelf :: bool
  rc_rootConfig :: "'w Config"
  rc_ruleChainPool :: "pool_ref option"
  rc_reloadAspects :: "'w aspect list"
  rc_destroyAspects :: "'w aspect list"

definition SetRuleChainPool :: "pool_ref option \<Rightarrow> ('n, 'w) RuleChainCtx \<Rightarrow> ('n, 'w) RuleChainCtx" where
  "SetRuleChainPool pool rc = rc\<lparr>rc_ruleChainPool := pool\<rparr>"

definition GetRuleChainPool :: "('n, 'w) RuleChainCtx \<Rightarrow> pool_ref" where
  "GetRuleChainPool rc = (case rc_ruleChainPool rc of None \<Rightarrow> DefaultRuleGo | Some p \<Rightarrow> p)"

definition GetNodeById :: "pool_view \<Rightarrow> RuleNodeId \<Rightarrow> ('n, 'w) RuleChainCtx \<Rightarrow> node_ref option" where
  "GetNodeById pool nid rc =
     (case NodeKind nid of
        CHAIN \<Rightarrow> (case pool (NodeId nid) of Some _ \<Rightarrow> Some (ChainRef (NodeId nid)) | None \<Rightarrow> None)
      | NODE \<Rightarrow> (case map_of (rc_nodes rc) nid of Some _ \<Rightarrow> Some (NodeRef nid) | None \<Rightarrow> None))"

definition GetNodeByIndex ::
  "pool_view \<Rightarrow> int \<Rightarrow> ('n, 'w) RuleChainCtx \<Rightarrow> fail + node_ref option" where
  "GetNodeByIndex pool index rc =
     (if index \<ge> int (length (rc_nodeIds rc)) then Inr None
      else if index < 0 then Inl (Panic ''index out of range'')
      else Inr (GetNodeById pool (rc_nodeIds rc ! nat index) rc))"

definition GetFirstNode :: "pool_view \<Rightarrow> ('n, 'w) RuleChainCtx \<Rightarrow> fail + node_ref option" where
  "GetFirstNode pool rc = GetNodeByIndex pool (rm_FirstNodeIndex (rch_Metadata (rc_SelfDefinition rc))) rc"

definition GetNodeRoutes :: "RuleNodeId \<Rightarrow> ('n, 'w) RuleChainCtx \<Rightarrow> RuleNodeRelation list option" where
  "GetNodeRoutes nid rc = map_of (rc_nodeRoutes rc) nid"

text \<open>The loop over the relations: the nodes found and the flag \<open>hasNextComponents\<close>.\<close>

fun collect_next ::
  "pool_view \<Rightarrow> string \<Rightarrow> ('n, 'w) RuleChainCtx \<Rightarrow> RuleNodeRelation list
     \<Rightarrow> node_ref list \<times> bool \<Rightarrow> node_ref list \<times> bool" where
  "collect_next pool relationType rc [] acc = acc"
| "collect_next pool relationType rc (item # items) (nodeCtxList, hasNext) =
     collect_next pool relationType rc items
       (if RelationType item = relationType then
          (case GetNodeById pool (OutId item) rc of
             Some nodeCtx \<Rightarrow> (nodeCtxList @ [nodeCtx], True)
           | None \<Rightarrow> (nodeCtxList, hasNext))
        else (nodeCtxList, hasNext))"

definition GetNextNodes ::
  "pool_view \<Rightarrow> RuleNodeId \<Rightarrow> string \<Rightarrow> ('n, 'w) RuleChainCtx
     \<Rightarrow> (node_ref list \<times> bool) \<times> ('n, 'w) RuleChainCtx" where
  "GetNextNodes pool nid relationType rc =
     (let cacheKey = (nid, relationType)
      in case map_of (rc_relationCache rc) cacheKey of
           Some nodeCtxList \<Rightarrow> ((nodeCtxList, nodeCtxList \<noteq> []), rc)
         | None \<Rightarrow>
             (let (nodeCtxList, hasNext) =
                    (case GetNodeRoutes nid rc of
                       Some relations \<Rightarrow> collect_next pool relationType rc relations ([], False)
                     | None \<Rightarrow> ([], False))
              in ((nodeCtxList, hasNext),
                  rc\<lparr>rc_relationCache := gm_put cacheKey nodeCtxList (rc_relationCache rc)\<rparr>)))"

subsection \<open>Construction\<close>

text \<open>The loop over the node definitions, from index \<open>index\<close> on.\<close>

fun load_nodes ::
  "('n, 'w) node_ops \<Rightarrow> 'n RuleComponentRegistry \<Rightarrow> 'w Config \<Rightarrow> nat \<Rightarrow> RuleNode list
     \<Rightarrow> ('n, 'w) RuleChainCtx \<Rightarrow> error + ('n, 'w) RuleChainCtx" where
  "load_nodes ops reg config index [] rc = Inr rc"
| "load_nodes ops reg config index (item # items) rc =
     (let item = (if rn_Id item = [] then item\<lparr>rn_Id := defaultNodeIdPrefix @ dec_of_nat index\<rparr> else item);
          ruleNodeId = node_id (rn_Id item)
      in case InitRuleNodeCtx ops reg config item of
           Inl err \<Rightarrow> Inl err
         | Inr (node, item) \<Rightarrow>
             load_nodes ops reg config (Suc index) items
               (rc\<lparr>rc_nodeIds := rc_nodeIds rc @ [ruleNodeId],
                   rc_nodes := gm_put ruleNodeId
                     \<lparr>nc_Node = node, nc_SelfDefinition = index, nc_Config = config\<rparr> (rc_nodes rc),
                   rc_SelfDefinition := (rc_SelfDefinition rc)\<lparr>rch_Metadata :=
                     (rch_Metadata (rc_SelfDefinition rc))\<lparr>rm_Nodes :=
                       (rm_Nodes (rch_Metadata (rc_SelfDefinition rc)))[index := item]\<rparr>\<rparr>\<rparr>))"

definition add_route ::
  "RuleNodeRelation \<Rightarrow> (RuleNodeId, RuleNodeRelation list) gomap \<Rightarrow> (RuleNodeId, RuleNodeRelation list) gomap" where
  "add_route rel routes =
     (case map_of routes (InId rel) of
        Some nodeRelations \<Rightarrow> gm_put (InId rel) (nodeRelations @ [rel]) routes
      | None \<Rightarrow> gm_put (InId rel) [rel] routes)"

definition conn_relation :: "NodeConnection \<Rightarrow> RuleNodeRelation" where
  "conn_relation item =
     \<lparr>InId = node_id (nco_FromId item), OutId = node_id (nco_ToId item), RelationType = nco_Type item\<rparr>"

definition chain_conn_relation :: "RuleChainConnection \<Rightarrow> RuleNodeRelation" where
  "chain_conn_relation item =
     \<lparr>InId = node_id (rcco_FromId item), OutId = chain_id (rcco_ToId item), RelationType = rcco_Type item\<rparr>"

definition InitRuleChainCtx ::
  "('n, 'w) node_ops \<Rightarrow> 'n RuleComponentRegistry \<Rightarrow> 'w sorter \<Rightarrow> pool_view \<Rightarrow> 'w Config \<Rightarrow> RuleChain
     \<Rightarrow> fail + ('n, 'w) RuleChainCtx" where
  "InitRuleChainCtx ops reg srt pool config ruleChainDef =
     (let rc = \<lparr>rc_Id = (if rcb_ID (rch_RuleChain ruleChainDef) \<noteq> []
                         then chain_id (rcb_ID (rch_RuleChain ruleChainDef)) else EmptyRuleNodeId),
                rc_SelfDefinition = ruleChainDef, rc_Config = config, rc_initialized = True,
                rc_nodeIds = [], rc_nodes = [], rc_nodeRoutes = [], rc_relationCache = [],
                rc_root = None, rc_rootSelf = True, rc_rootConfig = config, rc_ruleChainPool = None,
                rc_reloadAspects = [], rc_destroyAspects = []\<rparr>
      in case load_nodes ops reg config 0 (rm_Nodes (rch_Metadata ruleChainDef)) rc of
           Inl err \<Rightarrow> Inl (Err err)
         | Inr rc \<Rightarrow>
             (let rc = rc\<lparr>rc_nodeRoutes :=
                        fold add_route
                          (map chain_conn_relation (rm_RuleChainConnections (rch_Metadata ruleChainDef)))
                          (fold add_route (map conn_relation (rm_Connections (rch_Metadata ruleChainDef))) [])\<rparr>
              in case GetFirstNode pool rc of
                   Inl p \<Rightarrow> Inl p
                 | Inr firstNode \<Rightarrow>
                     (let (config', _, reloadAspects, destroyAspects) = GetEngineAspects srt config
                      in Inr (rc\<lparr>rc_root := firstNode, rc_reloadAspects := reloadAspects,
                                 rc_destroyAspects := destroyAspects\<rparr>))))"

definition DecodeRuleChain ::
  "('n, 'w) node_ops \<Rightarrow> 'n RuleComponentRegistry \<Rightarrow> 'w sorter \<Rightarrow> pool_view \<Rightarrow> codec \<Rightarrow> 'w Config \<Rightarrow> string
     \<Rightarrow> fail + ('n, 'w) RuleChainCtx" where
  "DecodeRuleChain ops reg srt pool cd config dsl =
     (case ParserRuleChain cd dsl of
        Inr rootRuleChainDef \<Rightarrow> InitRuleChainCtx ops reg srt pool config rootRuleChainDef
      | Inl err \<Rightarrow> Inl (Err err))"

subsection \<open>Life cycle\<close>

definition Chain_Type :: string where "Chain_Type = ''ruleChain''"

definition Chain_IsDebugMode :: "('n, 'w) RuleChainCtx \<Rightarrow> bool" where
  "Chain_IsDebugMode rc = rcb_DebugMode (rch_RuleChain (rc_SelfDefinition rc))"

definition GetNodeId :: "('n, 'w) RuleChainCtx \<Rightarrow> RuleNodeId" where
  "GetNodeId rc = rc_Id rc"

definition Destroy :: "('n, 'w) node_ops \<Rightarrow> ('n, 'w) RuleChainCtx \<Rightarrow> 'w \<Rightarrow> 'w" where
  "Destroy ops rc w =
     (let w = fold (\<lambda>(_, v). n_Destroy ops (nc_Node v)) (rc_nodes rc) w
      in fold (\<lambda>aop w. case a_OnDestroy aop of Some f \<Rightarrow> f (rc_Id rc) w | None \<Rightarrow> w)
           (rc_destroyAspects rc) w)"

definition Chain_Copy ::
  "('n, 'w) RuleChainCtx \<Rightarrow> ('n, 'w) RuleChainCtx \<Rightarrow> ('n, 'w) RuleChainCtx" where
  "Chain_Copy newCtx rc =
     rc\<lparr>rc_Id := rc_Id newCtx, rc_Config := rc_Config newCtx, rc_initialized := rc_initialized newCtx,
        rc_SelfDefinition := rc_SelfDefinition newCtx, rc_nodeIds := rc_nodeIds newCtx,
        rc_nodes := rc_nodes newCtx, rc_nodeRoutes := rc_nodeRoutes newCtx,
        rc_root := rc_root newCtx, rc_rootSelf := False, rc_rootConfig := rc_rootConfig newCtx,
        rc_ruleChainPool := rc_ruleChainPool newCtx,
        rc_reloadAspects := rc_reloadAspects newCtx, rc_destroyAspects := rc_destroyAspects newCtx,
        rc_relationCache := []\<rparr>"

definition run_reload_aspects ::
  "'w aspect list \<Rightarrow> RuleNodeId \<Rightarrow> RuleNodeId \<Rightarrow> error option \<Rightarrow> 'w \<Rightarrow> 'w" where
  "run_reload_aspects aspects parent self err w =
     fold (\<lambda>aop w. case a_OnReload aop of Some f \<Rightarrow> f parent self err w | None \<Rightarrow> w) aspects w"

text \<open>The \<open>Init\<close> method with a \<open>selfDefinition\<close> of type \<open>*RuleChain\<close>; any other
  configuration does nothing.\<close>

definition Chain_Init ::
  "('n, 'w) node_ops \<Rightarrow> 'n RuleComponentRegistry \<Rightarrow> 'w sorter \<Rightarrow> pool_view \<Rightarrow> RuleChain option
     \<Rightarrow> ('n, 'w) RuleChainCtx \<Rightarrow> fail option \<times> ('n, 'w) RuleChainCtx" where
  "Chain_Init ops reg srt pool selfDefinition rc =
     (case selfDefinition of
        Some v \<Rightarrow>
          (case InitRuleChainCtx ops reg srt pool (rc_Config rc) v of
             Inr ruleChainCtx \<Rightarrow> (None, Chain_Copy ruleChainCtx rc)
           | Inl err \<Rightarrow> (Some err, rc))
      | None \<Rightarrow> (None, rc))"

definition Chain_ReloadSelf ::
  "('n, 'w) node_ops \<Rightarrow> 'n RuleComponentRegistry \<Rightarrow> 'w sorter \<Rightarrow> pool_view \<Rightarrow> codec \<Rightarrow> string
     \<Rightarrow> ('n, 'w) RuleChainCtx \<Rightarrow> 'w \<Rightarrow> fail option \<times> ('n, 'w) RuleChainCtx \<times> 'w" where
  "Chain_ReloadSelf ops reg srt pool cd dsl rc w =
     (case DecodeRuleChain ops reg srt pool cd (rc_Config rc) dsl of
        Inr ctx \<Rightarrow>
          (let w = Destroy ops rc w;
               rc = Chain_Copy ctx rc
           in (None, rc, run_reload_aspects (rc_reloadAspects rc) (rc_Id rc) (rc_Id rc) None w))
      | Inl (Err err) \<Rightarrow>
          (Some (Err err), rc, run_reload_aspects (rc_reloadAspects rc) (rc_Id rc) (rc_Id rc) (Some err) w)
      | Inl (Panic p) \<Rightarrow> (Some (Panic p), rc, w))"

text \<open>\<open>ReloadChild\<close> for a node of the chain (the only kind of id the engine passes).\<close>

definition Chain_ReloadChild ::
  "('n, 'w) node_ops \<Rightarrow> 'n RuleComponentRegistry \<Rightarrow> codec \<Rightarrow> string \<Rightarrow> string
     \<Rightarrow> ('n, 'w) RuleChainCtx \<Rightarrow> 'w \<Rightarrow> error option \<times> ('n, 'w) RuleChainCtx \<times> 'w" where
  "Chain_ReloadChild ops reg cd ruleNodeId dsl rc w =
     (case map_of (rc_nodes rc) (node_id ruleNodeId) of
        Some node \<Rightarrow>
          (let meta = rch_Metadata (rc_SelfDefinition rc);
               self = rm_Nodes meta ! nc_SelfDefinition node;
               (err, node, self, w) = RuleNodeCtx_ReloadSelf ops reg cd dsl node self w;
               rc = rc\<lparr>rc_nodes := gm_put (node_id ruleNodeId) node (rc_nodes rc),
                       rc_SelfDefinition := (rc_SelfDefinition rc)\<lparr>rch_Metadata :=
                         meta\<lparr>rm_Nodes := (rm_Nodes meta)[nc_SelfDefinition node := self]\<rparr>\<rparr>\<rparr>
           in (err, rc, run_reload_aspects (rc_reloadAspects rc) (rc_Id rc)
                          (node_id (rn_Id self)) err w))
      | None \<Rightarrow> (None, rc, w))"

definition Chain_DSL :: "codec \<Rightarrow> ('n, 'w) RuleChainCtx \<Rightarrow> string" where
  "Chain_DSL cd rc = (case EncodeRuleChain cd (rc_SelfDefinition rc) of Inl _ \<Rightarrow> [] | Inr v \<Rightarrow> v)"

section \<open>Routing\<close>

text \<open>The reference: the targets of the connections of a node with a given type that exist,
  in the order of the route table, without a cache.\<close>

definition route_next :: "pool_view \<Rightarrow> RuleNodeId \<Rightarrow> string \<Rightarrow> ('n, 'w) RuleChainCtx \<Rightarrow> node_ref list" where
  "route_next pool nid rel rc =
     List.map_filter (\<lambda>item. if RelationType item = rel then GetNodeById pool (OutId item) rc else None)
       (case GetNodeRoutes nid rc of Some relations \<Rightarrow> relations | None \<Rightarrow> [])"

definition cache_ok :: "pool_view \<Rightarrow> ('n, 'w) RuleChainCtx \<Rightarrow> bool" where
  "cache_ok pool rc =
     (\<forall>nid rel l. map_of (rc_relationCache rc) (nid, rel) = Some l \<longrightarrow> l = route_next pool nid rel rc)"

lemma collect_next_eq:
  "collect_next pool rel rc items (l, b) =
     (let m = List.map_filter (\<lambda>item. if RelationType item = rel then GetNodeById pool (OutId item) rc else None) items
      in (l @ m, b \<or> m \<noteq> []))"
  by (induction items arbitrary: l b) (auto simp: map_filter_simps Let_def split: option.splits)

lemma GetNodeById_cache [simp, chain_simps]:
  "GetNodeById pool nid (rc\<lparr>rc_relationCache := c\<rparr>) = GetNodeById pool nid rc"
  by (simp add: GetNodeById_def split: ComponentType.split)

lemma route_next_cache [simp, chain_simps]:
  "route_next pool nid rel (rc\<lparr>rc_relationCache := c\<rparr>) = route_next pool nid rel rc"
  by (simp add: route_next_def GetNodeRoutes_def cong: if_cong)

lemma GetNextNodes_hit:
  "map_of (rc_relationCache rc) (nid, rel) = Some l \<Longrightarrow> GetNextNodes pool nid rel rc = ((l, l \<noteq> []), rc)"
  by (simp add: GetNextNodes_def)

lemma GetNextNodes_miss:
  assumes "map_of (rc_relationCache rc) (nid, rel) = None"
  shows "GetNextNodes pool nid rel rc =
       ((route_next pool nid rel rc, route_next pool nid rel rc \<noteq> []),
        rc\<lparr>rc_relationCache := gm_put (nid, rel) (route_next pool nid rel rc) (rc_relationCache rc)\<rparr>)"
  using assms
  by (cases "GetNodeRoutes nid rc")
     (simp_all add: GetNextNodes_def Let_def collect_next_eq route_next_def map_filter_simps)

lemma cache_ok_GetNextNodes:
  "cache_ok pool rc \<Longrightarrow> cache_ok pool (snd (GetNextNodes pool nid rel rc))"
  by (cases "map_of (rc_relationCache rc) (nid, rel)")
     (auto simp: GetNextNodes_hit GetNextNodes_miss cache_ok_def)

lemma GetNextNodes_eq:
  "cache_ok pool rc \<Longrightarrow>
     GetNextNodes pool nid rel rc =
       ((route_next pool nid rel rc, route_next pool nid rel rc \<noteq> []),
        rc\<lparr>rc_relationCache := rc_relationCache (snd (GetNextNodes pool nid rel rc))\<rparr>)"
  by (cases "map_of (rc_relationCache rc) (nid, rel)")
     (auto simp: GetNextNodes_hit GetNextNodes_miss cache_ok_def)

text \<open>C19: with a relation cache that agrees with the route table, \<open>GetNextNodes\<close> returns the
  targets the route table gives, and reports a next component exactly when there is one; it
  changes nothing but the cache, which still agrees afterwards, so every sequence of lookups
  behaves as if there were no cache.\<close>

theorem GetNextNodes_refines_routes:
  assumes "cache_ok pool rc"
  shows "fst (GetNextNodes pool nid rel rc) = (route_next pool nid rel rc, route_next pool nid rel rc \<noteq> []) \<and>
         cache_ok pool (snd (GetNextNodes pool nid rel rc)) \<and>
         snd (GetNextNodes pool nid rel rc) =
           rc\<lparr>rc_relationCache := rc_relationCache (snd (GetNextNodes pool nid rel rc))\<rparr>"
  using GetNextNodes_eq [OF assms, of nid rel] cache_ok_GetNextNodes [OF assms, of nid rel]
  by (metis fst_conv snd_conv)

text \<open>once a lookup has been answered, the answer is frozen until the chain is reloaded:
  a sub rule chain that is added to or deleted from the engine pool afterwards is not
  noticed.\<close>

theorem GetNextNodes_frozen:
  "fst (GetNextNodes pool' nid rel (snd (GetNextNodes pool nid rel rc))) = fst (GetNextNodes pool nid rel rc)"
  by (cases "map_of (rc_relationCache rc) (nid, rel)")
     (simp_all add: GetNextNodes_hit GetNextNodes_miss)

section \<open>The route table of a chain\<close>

lemma map_of_add_route:
  "map_of (add_route rel routes) nid =
     (if nid = InId rel then Some ((case map_of routes nid of Some l \<Rightarrow> l | None \<Rightarrow> []) @ [rel])
      else map_of routes nid)"
  by (auto simp: add_route_def split: option.splits)

lemma map_of_fold_add_route:
  "map_of (fold add_route rels routes) nid =
     (let l = (case map_of routes nid of Some l \<Rightarrow> l | None \<Rightarrow> []) @ filter (\<lambda>r. InId r = nid) rels
      in if l = [] \<and> map_of routes nid = None then None else Some l)"
proof (induction rels arbitrary: routes)
  case Nil
  then show ?case by (simp split: option.splits)
next
  case (Cons rel rels)
  then show ?case by (auto simp: map_of_add_route Let_def split: option.splits)
qed

abbreviation def_nodes :: "('n, 'w) RuleChainCtx \<Rightarrow> RuleNode list" where
  "def_nodes rc \<equiv> rm_Nodes (rch_Metadata (rc_SelfDefinition rc))"

definition nodes_match :: "nat \<Rightarrow> ('n, 'w) RuleChainCtx \<Rightarrow> bool" where
  "nodes_match n rc =
     (length (rc_nodeIds rc) = n \<and> n \<le> length (def_nodes rc) \<and>
      (\<forall>nid \<in> set (rc_nodeIds rc). map_of (rc_nodes rc) nid \<noteq> None) \<and>
      (\<forall>nid c. map_of (rc_nodes rc) nid = Some c \<longrightarrow>
         nc_SelfDefinition c < n \<and> NodeKind nid = NODE \<and>
         rn_Id (def_nodes rc ! nc_SelfDefinition c) = NodeId nid \<and>
         rc_nodeIds rc ! nc_SelfDefinition c = nid))"

definition chain_ok :: "('n, 'w) RuleChainCtx \<Rightarrow> bool" where
  "chain_ok rc = nodes_match (length (def_nodes rc)) rc"

lemma InitRuleNodeCtx_Id: "InitRuleNodeCtx ops reg config d = Inr (node, d') \<Longrightarrow> rn_Id d' = rn_Id d"
  by (auto simp: InitRuleNodeCtx_def Let_def split: sum.splits)

lemma nodes_match_step:
  assumes "nodes_match n rc" and "n < length (def_nodes rc)"
  shows "nodes_match (Suc n)
     (rc\<lparr>rc_nodeIds := rc_nodeIds rc @ [node_id (rn_Id d)],
         rc_nodes := gm_put (node_id (rn_Id d)) \<lparr>nc_Node = x, nc_SelfDefinition = n, nc_Config = c\<rparr> (rc_nodes rc),
         rc_SelfDefinition := (rc_SelfDefinition rc)\<lparr>rch_Metadata :=
           (rch_Metadata (rc_SelfDefinition rc))\<lparr>rm_Nodes := (def_nodes rc)[n := d]\<rparr>\<rparr>\<rparr>)"
  using assms
  by (auto simp: nodes_match_def nth_append nth_list_update less_Suc_eq split: if_splits)
     (metis less_irrefl)

lemma load_nodes_facts:
  "load_nodes ops reg config n items rc = Inr rc' \<Longrightarrow> nodes_match n rc \<Longrightarrow>
     length (def_nodes rc) = n + length items \<Longrightarrow>
     nodes_match (n + length items) rc' \<and> length (def_nodes rc') = n + length items \<and>
     rc_nodeRoutes rc' = rc_nodeRoutes rc \<and> rc_relationCache rc' = rc_relationCache rc \<and>
     rc_Id rc' = rc_Id rc \<and> rm_FirstNodeIndex (rch_Metadata (rc_SelfDefinition rc')) =
       rm_FirstNodeIndex (rch_Metadata (rc_SelfDefinition rc)) \<and>
     rc_ruleChainPool rc' = rc_ruleChainPool rc \<and> rc_rootSelf rc' = rc_rootSelf rc"
proof (induction items arbitrary: n rc)
  case Nil
  then show ?case by simp
next
  case (Cons d items)
  define d0 where "d0 = (if rn_Id d = [] then d\<lparr>rn_Id := defaultNodeIdPrefix @ dec_of_nat n\<rparr> else d)"
  from Cons.prems(1) obtain x d1 where i: "InitRuleNodeCtx ops reg config d0 = Inr (x, d1)"
    by (auto simp: Let_def d0_def split: sum.splits)
  define rc1 where "rc1 = rc\<lparr>rc_nodeIds := rc_nodeIds rc @ [node_id (rn_Id d1)],
         rc_nodes := gm_put (node_id (rn_Id d1)) \<lparr>nc_Node = x, nc_SelfDefinition = n, nc_Config = config\<rparr> (rc_nodes rc),
         rc_SelfDefinition := (rc_SelfDefinition rc)\<lparr>rch_Metadata :=
           (rch_Metadata (rc_SelfDefinition rc))\<lparr>rm_Nodes := (def_nodes rc)[n := d1]\<rparr>\<rparr>\<rparr>"
  have "load_nodes ops reg config (Suc n) items rc1 = Inr rc'"
    using Cons.prems(1) i InitRuleNodeCtx_Id [OF i]
    by (simp add: Let_def d0_def [symmetric] rc1_def)
  moreover have "nodes_match (Suc n) rc1"
    unfolding rc1_def using Cons.prems by (intro nodes_match_step) auto
  moreover have "length (def_nodes rc1) = Suc n + length items"
    using Cons.prems(3) by (simp add: rc1_def)
  ultimately show ?case using Cons.IH [of "Suc n" rc1] by (simp add: rc1_def)
qed

lemma InitRuleChainCtx_cases:
  assumes "InitRuleChainCtx ops reg srt pool config d = Inr rc"
  obtains rc0 rc1 ro ra da rt where
    "load_nodes ops reg config 0 (rm_Nodes (rch_Metadata d)) rc0 = Inr rc1"
    "nodes_match 0 rc0" "rc_SelfDefinition rc0 = d" "rc_relationCache rc0 = []"
    "rc_rootSelf rc0" "rc_ruleChainPool rc0 = None"
    "rt = fold add_route (map chain_conn_relation (rm_RuleChainConnections (rch_Metadata d)))
        (fold add_route (map conn_relation (rm_Connections (rch_Metadata d))) [])"
    "GetFirstNode pool (rc1\<lparr>rc_nodeRoutes := rt\<rparr>) = Inr ro"
    "rc = rc1\<lparr>rc_nodeRoutes := rt, rc_root := ro, rc_reloadAspects := ra, rc_destroyAspects := da\<rparr>"
    "rc_nodeIds rc0 = []"
proof -
  define rc0 :: "('a, 'b) RuleChainCtx" where
    "rc0 = \<lparr>rc_Id = (if rcb_ID (rch_RuleChain d) \<noteq> [] then chain_id (rcb_ID (rch_RuleChain d)) else EmptyRuleNodeId),
            rc_SelfDefinition = d, rc_Config = config, rc_initialized = True,
            rc_nodeIds = [], rc_nodes = [], rc_nodeRoutes = [], rc_relationCache = [],
            rc_root = None, rc_rootSelf = True, rc_rootConfig = config, rc_ruleChainPool = None,
            rc_reloadAspects = [], rc_destroyAspects = []\<rparr>"
  have nm: "nodes_match 0 rc0" by (simp add: nodes_match_def rc0_def)
  have f: "rc_SelfDefinition rc0 = d" "rc_relationCache rc0 = []" "rc_rootSelf rc0"
    "rc_ruleChainPool rc0 = None" "rc_nodeIds rc0 = []" by (simp_all add: rc0_def)
  define rt where "rt = fold add_route (map chain_conn_relation (rm_RuleChainConnections (rch_Metadata d)))
        (fold add_route (map conn_relation (rm_Connections (rch_Metadata d))) [])"
  from assms obtain rc1 where 1: "load_nodes ops reg config 0 (rm_Nodes (rch_Metadata d)) rc0 = Inr rc1"
    by (cases "load_nodes ops reg config 0 (rm_Nodes (rch_Metadata d)) rc0")
       (simp_all add: InitRuleChainCtx_def Let_def rc0_def [symmetric])
  with assms obtain ro where 2: "GetFirstNode pool (rc1\<lparr>rc_nodeRoutes := rt\<rparr>) = Inr ro"
    by (cases "GetFirstNode pool (rc1\<lparr>rc_nodeRoutes := rt\<rparr>)")
       (simp_all add: InitRuleChainCtx_def Let_def rc0_def [symmetric] rt_def [symmetric])
  obtain cf oa ra da where 3: "GetEngineAspects srt config = (cf, oa, ra, da)"
    by (metis prod_cases4)
  from assms 1 2 3 have "rc = rc1\<lparr>rc_nodeRoutes := rt, rc_root := ro, rc_reloadAspects := ra, rc_destroyAspects := da\<rparr>"
    by (simp add: InitRuleChainCtx_def Let_def rc0_def [symmetric] rt_def [symmetric])
  then show ?thesis by (rule that [OF 1 nm f(1-4) rt_def 2 _ f(5)])
qed

lemma load_nodes_ids:
  "load_nodes ops reg config n items rc = Inr rc' \<Longrightarrow>
     rc_nodeIds rc' = rc_nodeIds rc @
       map (\<lambda>(i, d). node_id (if rn_Id d = [] then defaultNodeIdPrefix @ dec_of_nat i else rn_Id d))
         (enumerate n items)"
proof (induction items arbitrary: n rc)
  case Nil
  then show ?case by simp
next
  case (Cons d items)
  then show ?case by (auto simp: Let_def split: sum.splits)
qed

lemma nodes_match_upd [simp]:
  "nodes_match n (rc\<lparr>rc_nodeRoutes := a, rc_root := b, rc_reloadAspects := c, rc_destroyAspects := e\<rparr>) =
   nodes_match n rc"
  by (simp add: nodes_match_def)

lemma Init_chain_ok:
  assumes "InitRuleChainCtx ops reg srt pool config d = Inr rc"
  shows "chain_ok rc \<and> cache_ok pool' rc \<and> rc_rootSelf rc \<and> rc_ruleChainPool rc = None \<and>
    rc_nodeIds rc = map (\<lambda>(i, d). node_id (if rn_Id d = [] then defaultNodeIdPrefix @ dec_of_nat i else rn_Id d))
         (enumerate 0 (rm_Nodes (rch_Metadata d)))"
  using assms
proof (rule InitRuleChainCtx_cases)
  fix rc0 rc1 ro ra da rt
  assume a: "load_nodes ops reg config 0 (rm_Nodes (rch_Metadata d)) rc0 = Inr rc1"
    "nodes_match 0 rc0" "rc_SelfDefinition rc0 = d" "rc_relationCache rc0 = []"
    "rc_rootSelf rc0" "rc_ruleChainPool rc0 = None" "rc_nodeIds rc0 = []"
    "rc = rc1\<lparr>rc_nodeRoutes := rt, rc_root := ro, rc_reloadAspects := ra, rc_destroyAspects := da\<rparr>"
  from load_nodes_facts [OF a(1,2)] load_nodes_ids [OF a(1)] a(3-8)
  show ?thesis by (auto simp: chain_ok_def cache_ok_def)
qed

text \<open>C18: the chain context built from a definition has one node context per distinct node id,
  each referring to its own definition; the ids are those of the definition in order, an
  empty one replaced by \<open>node\<close> and the index, and the root node is the one at
  \<open>firstNodeIndex\<close>, absent when the index is beyond the list.\<close>

theorem InitRuleChainCtx_structure:
  assumes init: "InitRuleChainCtx ops reg srt pool config d = Inr rc"
  shows "chain_ok rc \<and>
    rc_nodeIds rc = map (\<lambda>(i, d). node_id (if rn_Id d = [] then defaultNodeIdPrefix @ dec_of_nat i else rn_Id d))
         (enumerate 0 (rm_Nodes (rch_Metadata d))) \<and>
    rc_root rc = (let i = rm_FirstNodeIndex (rch_Metadata d)
                  in if i < int (length (rm_Nodes (rch_Metadata d))) then Some (NodeRef (rc_nodeIds rc ! nat i))
                     else None)"
  using init
proof (rule InitRuleChainCtx_cases)
  fix rc0 rc1 ro ra da rt
  assume a: "load_nodes ops reg config 0 (rm_Nodes (rch_Metadata d)) rc0 = Inr rc1"
    "nodes_match 0 rc0" "rc_SelfDefinition rc0 = d"
    "GetFirstNode pool (rc1\<lparr>rc_nodeRoutes := rt\<rparr>) = Inr ro"
    "rc = rc1\<lparr>rc_nodeRoutes := rt, rc_root := ro, rc_reloadAspects := ra, rc_destroyAspects := da\<rparr>"
  let ?i = "rm_FirstNodeIndex (rch_Metadata d)" and ?n = "length (rm_Nodes (rch_Metadata d))"
  from load_nodes_facts [OF a(1,2)] a(3) have m: "nodes_match ?n rc1"
    and f: "rm_FirstNodeIndex (rch_Metadata (rc_SelfDefinition rc1)) = ?i" by auto
  have "ro = (if ?i < int ?n then Some (NodeRef (rc_nodeIds rc1 ! nat ?i)) else None)"
  proof (cases "?i < int ?n")
    case False
    with a(4) m f show ?thesis by (simp add: GetFirstNode_def GetNodeByIndex_def nodes_match_def)
  next
    case True
    with a(4) m f have pos: "0 \<le> ?i"
      by (auto simp: GetFirstNode_def GetNodeByIndex_def nodes_match_def split: if_splits)
    let ?nid = "rc_nodeIds rc1 ! nat ?i"
    from True pos m have "?nid \<in> set (rc_nodeIds rc1)" by (auto simp: nodes_match_def)
    with m obtain c where c: "map_of (rc_nodes rc1) ?nid = Some c" by (auto simp: nodes_match_def)
    with m have "NodeKind ?nid = NODE" unfolding nodes_match_def by blast
    with True pos m f c a(4) show ?thesis
      by (auto simp: GetFirstNode_def GetNodeByIndex_def GetNodeById_def nodes_match_def)
  qed
  with Init_chain_ok [OF init, of pool] a(5) show ?thesis by (simp add: Let_def)
qed

text \<open>C23: the route table lists, for every node, its connections of the definition in their
  order, the connections to sub rule chains after the ones to nodes; a fresh chain answers
  lookups from it.\<close>

theorem InitRuleChainCtx_routes:
  assumes "InitRuleChainCtx ops reg srt pool config d = Inr rc"
  shows "GetNodeRoutes nid rc =
           (let l = filter (\<lambda>r. InId r = nid)
                      (map conn_relation (rm_Connections (rch_Metadata d)) @
                       map chain_conn_relation (rm_RuleChainConnections (rch_Metadata d)))
            in if l = [] then None else Some l) \<and>
         (\<forall>pool' rel. fst (GetNextNodes pool' nid rel rc) =
            (route_next pool' nid rel rc, route_next pool' nid rel rc \<noteq> []))"
proof -
  from assms have "rc_nodeRoutes rc =
      fold add_route (map chain_conn_relation (rm_RuleChainConnections (rch_Metadata d)))
        (fold add_route (map conn_relation (rm_Connections (rch_Metadata d))) [])"
    by (rule InitRuleChainCtx_cases) auto
  moreover have "cache_ok pool' rc" for pool'
    using Init_chain_ok [OF assms] by blast
  ultimately show ?thesis
    using GetNextNodes_eq [of _ rc nid]
    by (auto simp: GetNodeRoutes_def map_of_fold_add_route Let_def) (metis fst_conv)+
qed

section \<open>Reloading\<close>

lemma nodes_match_Copy [simp]: "nodes_match n (Chain_Copy new rc) = nodes_match n new"
  by (simp add: nodes_match_def Chain_Copy_def)

lemma chain_ok_Copy [simp]: "chain_ok (Chain_Copy new rc) = chain_ok new"
  by (simp add: chain_ok_def) (simp add: Chain_Copy_def)

text \<open>What a refused definition does to the world: the reload aspects of the chain see the error; a panic
  passes them by.\<close>

definition reload_refused :: "('n, 'w) RuleChainCtx \<Rightarrow> fail \<Rightarrow> 'w \<Rightarrow> 'w" where
  "reload_refused rc err w =
     (case err of
        Err e \<Rightarrow> run_reload_aspects (rc_reloadAspects rc) (rc_Id rc) (rc_Id rc) (Some e) w
      | Panic _ \<Rightarrow> w)"

text \<open>C21: reloading a rule chain either fails, and then the chain keeps serving the old
  definition unchanged and no node is destroyed (at most the reload aspects are told of the error),
  or replaces nodes, routes and definition as a whole by those of the
  new one, with an empty relation cache, after the old nodes have been destroyed.\<close>

theorem Chain_ReloadSelf_all_or_nothing:
  assumes "Chain_ReloadSelf ops reg srt pool cd dsl rc w = (err, rc', w')" and "chain_ok rc"
  shows "chain_ok rc' \<and>
    (case err of
       Some e \<Rightarrow> DecodeRuleChain ops reg srt pool cd (rc_Config rc) dsl = Inl e \<and> rc' = rc \<and> w' = reload_refused rc e w
     | None \<Rightarrow> \<exists>new. DecodeRuleChain ops reg srt pool cd (rc_Config rc) dsl = Inr new \<and>
         rc_nodes rc' = rc_nodes new \<and> rc_nodeRoutes rc' = rc_nodeRoutes new \<and>
         rc_SelfDefinition rc' = rc_SelfDefinition new \<and> rc_root rc' = rc_root new \<and>
         (\<forall>pool'. cache_ok pool' rc') \<and>
         w' = run_reload_aspects (rc_reloadAspects new) (rc_Id new) (rc_Id new) None (Destroy ops rc w))"
proof (cases "DecodeRuleChain ops reg srt pool cd (rc_Config rc) dsl")
  case (Inl e)
  with assms show ?thesis by (cases e) (auto simp: Chain_ReloadSelf_def reload_refused_def)
next
  case (Inr new)
  then obtain d where "InitRuleChainCtx ops reg srt pool (rc_Config rc) d = Inr new"
    by (auto simp: DecodeRuleChain_def split: sum.splits)
  then have "chain_ok new" using Init_chain_ok by blast
  with assms Inr show ?thesis
    by (auto simp: Chain_ReloadSelf_def Let_def) (auto simp: Chain_Copy_def cache_ok_def)
qed

lemma map_update_same: "f y = f (xs ! i) \<Longrightarrow> map f (xs[i := y]) = map f xs"
  by (rule nth_equalityI) (simp, metis length_map length_list_update nth_list_update_eq nth_list_update_neq nth_map)

lemma RuleNodeCtx_ReloadSelf_facts:
  assumes "RuleNodeCtx_ReloadSelf ops reg cd dsl node self w = (err, node', self', w')"
  shows "rn_Id self' = rn_Id self \<and> nc_SelfDefinition node' = nc_SelfDefinition node \<and>
    nc_Config node' = nc_Config node \<and> (err \<noteq> None \<longrightarrow> node' = node \<and> self' = self \<and> w' = w)"
  using assms
  by (auto simp: RuleNodeCtx_ReloadSelf_def RuleNodeCtx_Copy_def split: sum.splits)

lemma nodes_match_replace:
  assumes "nodes_match n rc" and "map_of (rc_nodes rc) nid = Some c"
    and "nc_SelfDefinition c' = nc_SelfDefinition c"
    and "rn_Id d = rn_Id (def_nodes rc ! nc_SelfDefinition c)"
  shows "nodes_match n (rc\<lparr>rc_nodes := gm_put nid c' (rc_nodes rc),
           rc_SelfDefinition := (rc_SelfDefinition rc)\<lparr>rch_Metadata :=
             (rch_Metadata (rc_SelfDefinition rc))\<lparr>rm_Nodes := (def_nodes rc)[nc_SelfDefinition c := d]\<rparr>\<rparr>\<rparr>)"
proof -
  have o: "nc_SelfDefinition e \<noteq> nc_SelfDefinition c"
    if "map_of (rc_nodes rc) nid' = Some e" "nid' \<noteq> nid" for nid' e
    using assms(1,2) that unfolding nodes_match_def by metis
  from assms(1,2) have c: "nc_SelfDefinition c < n" "n \<le> length (def_nodes rc)"
    unfolding nodes_match_def by blast+
  then have d: "(def_nodes rc)[nc_SelfDefinition c := d] ! i = (if i = nc_SelfDefinition c then d else def_nodes rc ! i)"
    for i by simp
  from assms c o show ?thesis by (simp add: nodes_match_def d)
qed

lemma Chain_ReloadChild_known:
  assumes "map_of (rc_nodes rc) (node_id nid) = Some c"
    and "RuleNodeCtx_ReloadSelf ops reg cd dsl c (def_nodes rc ! nc_SelfDefinition c) w = (err, c', d', w1)"
  shows "Chain_ReloadChild ops reg cd nid dsl rc w =
    (let rc' = rc\<lparr>rc_nodes := gm_put (node_id nid) c' (rc_nodes rc),
           rc_SelfDefinition := (rc_SelfDefinition rc)\<lparr>rch_Metadata :=
             (rch_Metadata (rc_SelfDefinition rc))\<lparr>rm_Nodes := (def_nodes rc)[nc_SelfDefinition c := d']\<rparr>\<rparr>\<rparr>
     in (err, rc', run_reload_aspects (rc_reloadAspects rc) (rc_Id rc) (node_id (rn_Id d')) err w1))"
  using assms RuleNodeCtx_ReloadSelf_facts [OF assms(2)]
  by (simp add: Chain_ReloadChild_def Let_def)

lemma RuleNodeCtx_ReloadSelf_cases:
  "RuleNodeCtx_ReloadSelf ops reg cd dsl node self w =
    (case DecodeRuleNode ops reg cd (nc_Config node) dsl of
       Inl e \<Rightarrow> (Some e, node, self, w)
     | Inr (n, d) \<Rightarrow> (None, node\<lparr>nc_Node := n\<rparr>, d\<lparr>rn_Id := rn_Id self\<rparr>, n_Destroy ops (nc_Node node) w))"
  by (auto simp: RuleNodeCtx_ReloadSelf_def RuleNodeCtx_Copy_def split: sum.splits)

lemma chain_ok_node:
  assumes "chain_ok rc" "map_of (rc_nodes rc) (node_id nid) = Some c"
  shows "rn_Id (def_nodes rc ! nc_SelfDefinition c) = nid" "nc_SelfDefinition c < length (def_nodes rc)"
  using assms by (auto simp: chain_ok_def nodes_match_def)

text \<open>C22: reloading one node of a well-formed chain keeps the chain well formed and touches nothing but
  that node. If the new definition is accepted, the old instance is destroyed, the context of the node
  has the new instance, its definition is the new one under the old id, and every other context, every other
  definition, and everything else of the chain is as before; if it is refused, or if the chain has no such node,
  nothing of the chain changes and nothing is destroyed.\<close>

theorem Chain_ReloadChild_local:
  assumes "chain_ok rc" and "Chain_ReloadChild ops reg cd nid dsl rc w = (err, rc', w')"
  shows "chain_ok rc' \<and>
    (case map_of (rc_nodes rc) (node_id nid) of
       None \<Rightarrow> err = None \<and> rc' = rc \<and> w' = w
     | Some c \<Rightarrow>
         (case DecodeRuleNode ops reg cd (nc_Config c) dsl of
            Inl e \<Rightarrow> err = Some e \<and> rc' = rc \<and>
              w' = run_reload_aspects (rc_reloadAspects rc) (rc_Id rc) (node_id nid) (Some e) w
          | Inr (n, d) \<Rightarrow> err = None \<and>
              map_of (rc_nodes rc') = (map_of (rc_nodes rc))(node_id nid \<mapsto> c\<lparr>nc_Node := n\<rparr>) \<and>
              def_nodes rc' = (def_nodes rc)[nc_SelfDefinition c := d\<lparr>rn_Id := nid\<rparr>] \<and>
              rc' = rc\<lparr>rc_nodes := rc_nodes rc', rc_SelfDefinition := (rc_SelfDefinition rc)\<lparr>rch_Metadata :=
                (rch_Metadata (rc_SelfDefinition rc))\<lparr>rm_Nodes := def_nodes rc'\<rparr>\<rparr>\<rparr> \<and>
              w' = run_reload_aspects (rc_reloadAspects rc) (rc_Id rc) (node_id nid) None (n_Destroy ops (nc_Node c) w)))"
proof (cases "map_of (rc_nodes rc) (node_id nid)")
  case None
  with assms show ?thesis by (simp add: Chain_ReloadChild_def)
next
  case (Some c)
  obtain err1 c' d' w1 where r:
    "RuleNodeCtx_ReloadSelf ops reg cd dsl c (def_nodes rc ! nc_SelfDefinition c) w = (err1, c', d', w1)"
    by (metis prod_cases4)
  note f = RuleNodeCtx_ReloadSelf_facts [OF r] and nid = chain_ok_node [OF assms(1) Some]
  define rc1 where "rc1 = rc\<lparr>rc_nodes := gm_put (node_id nid) c' (rc_nodes rc),
           rc_SelfDefinition := (rc_SelfDefinition rc)\<lparr>rch_Metadata :=
             (rch_Metadata (rc_SelfDefinition rc))\<lparr>rm_Nodes := (def_nodes rc)[nc_SelfDefinition c := d']\<rparr>\<rparr>\<rparr>"
  from assms(2) Chain_ReloadChild_known [OF Some r] have e: "err1 = err" and rc': "rc' = rc1"
    and w': "w' = run_reload_aspects (rc_reloadAspects rc) (rc_Id rc) (node_id (rn_Id d')) err w1"
    by (auto simp: Let_def rc1_def)
  have "nodes_match (length (def_nodes rc)) rc1"
    unfolding rc1_def using assms(1) Some f by (intro nodes_match_replace) (auto simp: chain_ok_def)
  then have ok: "chain_ok rc1" by (simp add: chain_ok_def rc1_def)
  show ?thesis
  proof (cases "DecodeRuleNode ops reg cd (nc_Config c) dsl")
    case (Inl x)
    with r have "err1 = Some x" "c' = c" "d' = def_nodes rc ! nc_SelfDefinition c" "w1 = w"
      by (auto simp: RuleNodeCtx_ReloadSelf_cases)
    moreover from this have "rc1 = rc" using Some by (simp add: rc1_def update_triv)
    ultimately show ?thesis using Some Inl e rc' w' ok nid by simp
  next
    case (Inr nd)
    obtain n d where "nd = (n, d)" by force
    with Inr r nid have "err1 = None" "c' = c\<lparr>nc_Node := n\<rparr>" "d' = d\<lparr>rn_Id := nid\<rparr>" "w1 = n_Destroy ops (nc_Node c) w"
      by (auto simp: RuleNodeCtx_ReloadSelf_cases)
    with Some Inr \<open>nd = (n, d)\<close> e rc' w' ok show ?thesis by (simp add: rc1_def fun_eq_iff)
  qed
qed

text \<open>reloading a node that the chain does not have reports no error and does nothing.\<close>

theorem Chain_ReloadChild_unknown_silent:
  "map_of (rc_nodes rc) (node_id nid) = None \<Longrightarrow> Chain_ReloadChild ops reg cd nid dsl rc w = (None, rc, w)"
  by (simp add: Chain_ReloadChild_def)

section \<open>A concrete chain\<close>

text \<open>Two nodes of one component type, the second reached over \<open>Success\<close> and over \<open>True\<close>,
  and a sub rule chain reached over \<open>Failure\<close>. A node instance is its configuration.\<close>

definition demo_ops :: "(Configuration, unit) node_ops" where
  "demo_ops = \<lparr>n_Init = (\<lambda>_ _ conf. if map_of conf ''bad'' = None then Inr conf else Inl ''bad configuration''),
     n_OnMsg = (\<lambda>_ _ msg w. (([TellSuccess msg], None), w)), n_Destroy = (\<lambda>_ w. w),
     n_OnEnd = (\<lambda>_ _ _ _ _ w. ([], w)), n_OnDone = (\<lambda>_ _ w. ([], w))\<rparr>"

definition demo_reg :: "Configuration RuleComponentRegistry" where
  "demo_reg = \<lparr>reg_components = Some [(''log'', \<lparr>cmp_Type = ''log'', cmp_New = []\<rparr>)], reg_plugins = None\<rparr>"

definition demo_info :: NodeAdditionalInfo where
  "demo_info = \<lparr>nai_Description = [], nai_LayoutX = 0, nai_LayoutY = 0\<rparr>"

definition demo_node :: "string \<Rightarrow> Configuration option \<Rightarrow> RuleNode" where
  "demo_node i conf = \<lparr>rn_Id = i, rn_AdditionalInfo = demo_info, rn_Type = ''log'', rn_Name = i,
     rn_DebugMode = False, rn_Configuration = conf\<rparr>"

definition demo_chain :: RuleChain where
  "demo_chain =
     \<lparr>rch_RuleChain = \<lparr>rcb_ID = ''chain'', rcb_AdditionalInfo = None, rcb_Name = ''demo'',
        rcb_DebugMode = False, rcb_Root = True, rcb_Configuration = None\<rparr>,
      rch_Metadata = \<lparr>rm_FirstNodeIndex = 0, rm_Nodes = [demo_node ''s1'' None, demo_node [] (Some [])],
        rm_Connections = [\<lparr>nco_FromId = ''s1'', nco_ToId = ''node1'', nco_Type = ''Success''\<rparr>,
                          \<lparr>nco_FromId = ''s1'', nco_ToId = ''node1'', nco_Type = ''True''\<rparr>],
        rm_RuleChainConnections = [\<lparr>rcco_FromId = ''s1'', rcco_ToId = ''sub'', rcco_Type = ''Failure''\<rparr>]\<rparr>\<rparr>"

definition demo_pool :: pool_view where
  "demo_pool k = (if k = ''sub'' then Some (chain_id ''sub'') else None)"

definition demo_ctx :: "(Configuration, unit) RuleChainCtx" where
  "demo_ctx = (case InitRuleChainCtx demo_ops demo_reg sort_Slice demo_pool (types_NewConfig []) demo_chain of
                 Inr rc \<Rightarrow> rc)"

lemmas demo_defs = demo_ops_def demo_reg_def demo_info_def demo_node_def demo_chain_def demo_pool_def

lemma demo_init:
  "InitRuleChainCtx demo_ops demo_reg sort_Slice demo_pool (types_NewConfig []) demo_chain = Inr demo_ctx"
  unfolding demo_ctx_def
  by (simp add: InitRuleChainCtx_def Let_def demo_defs InitRuleNodeCtx_def NewNode_def
      processGlobalPlaceholders_def types_NewConfig_def NewMetadata_def GetEngineAspects_def
      GetFirstNode_def GetNodeByIndex_def GetNodeById_def sort_Slice_def defaultNodeIdPrefix_def)

theorem InitRuleChainCtx_structure_witness:
  "chain_ok demo_ctx \<and> rc_nodeIds demo_ctx = [node_id ''s1'', node_id ''node1''] \<and>
   rc_root demo_ctx = Some (NodeRef (node_id ''s1''))"
  using InitRuleChainCtx_structure [OF demo_init]
  by (simp add: demo_defs defaultNodeIdPrefix_def dec_of_nat.simps dec_digit_def char_of_def bit_0 Let_def)

theorem InitRuleChainCtx_routes_witness:
  "GetNodeRoutes (node_id ''s1'') demo_ctx =
     Some [\<lparr>InId = node_id ''s1'', OutId = node_id ''node1'', RelationType = ''Success''\<rparr>,
           \<lparr>InId = node_id ''s1'', OutId = node_id ''node1'', RelationType = ''True''\<rparr>,
           \<lparr>InId = node_id ''s1'', OutId = chain_id ''sub'', RelationType = ''Failure''\<rparr>]"
  using InitRuleChainCtx_routes [OF demo_init, of "node_id ''s1''"]
  by (simp add: demo_defs conn_relation_def chain_conn_relation_def)

lemma demo_ok: "chain_ok demo_ctx" "cache_ok pool demo_ctx"
  using Init_chain_ok [OF demo_init] by blast+

theorem GetNextNodes_refines_routes_witness:
  "cache_ok demo_pool (snd (GetNextNodes demo_pool (node_id ''s1'') ''Failure'' demo_ctx))"
  using GetNextNodes_refines_routes [OF demo_ok(2)] by blast

definition demo_codec :: codec where
  "demo_codec = \<lparr>cd_unmarshal_chain = (\<lambda>s. if s = ''chain'' then Inr demo_chain else Inl ''bad JSON''),
     cd_unmarshal_node = (\<lambda>s. if s = ''node'' then Inr (demo_node ''x'' (Some [(''bad'', GNil)])) else Inl ''bad JSON''),
     cd_marshal_chain = (\<lambda>_. Inr ''chain''), cd_marshal_node = (\<lambda>_. Inr ''node''), cd_indent = Inr\<rparr>"

theorem Chain_ReloadSelf_all_or_nothing_witness:
  "chain_ok (fst (snd (Chain_ReloadSelf demo_ops demo_reg sort_Slice demo_pool demo_codec ''chain'' demo_ctx ()))) \<and>
   fst (snd (Chain_ReloadSelf demo_ops demo_reg sort_Slice demo_pool demo_codec ''junk'' demo_ctx ())) = demo_ctx"
proof -
  let ?r = "\<lambda>dsl. Chain_ReloadSelf demo_ops demo_reg sort_Slice demo_pool demo_codec dsl demo_ctx ()"
  have t: "?r dsl = (fst (?r dsl), fst (snd (?r dsl)), snd (snd (?r dsl)))" for dsl by (simp only: prod.collapse)
  have "fst (?r ''junk'') = Some (Err ''bad JSON'')"
    by (simp add: Chain_ReloadSelf_def DecodeRuleChain_def ParserRuleChain_def demo_codec_def)
  with Chain_ReloadSelf_all_or_nothing [OF t [of "''chain''"] demo_ok(1)]
    Chain_ReloadSelf_all_or_nothing [OF t [of "''junk''"] demo_ok(1)]
  show ?thesis by simp
qed

definition renaming_codec :: codec where
  "renaming_codec = demo_codec\<lparr>cd_unmarshal_node := (\<lambda>s. if s = ''node'' then Inr (demo_node ''x'' (Some [(''k'', GNil)])) else Inl ''bad JSON'')\<rparr>"

theorem Chain_ReloadChild_local_witness:
  "\<exists>rc'. Chain_ReloadChild demo_ops demo_reg renaming_codec ''s1'' ''node'' demo_ctx () = (None, rc', ()) \<and> chain_ok rc' \<and>
     def_nodes rc' = (def_nodes demo_ctx)[0 := (demo_node ''x'' (Some [(''k'', GNil)]))\<lparr>rn_Id := ''s1''\<rparr>]"
proof -
  let ?r = "Chain_ReloadChild demo_ops demo_reg renaming_codec ''s1'' ''node'' demo_ctx ()"
  have t: "?r = (fst ?r, fst (snd ?r), ())" by (simp add: prod_eq_iff)
  obtain c where c: "map_of (rc_nodes demo_ctx) (node_id ''s1'') = Some c" "nc_SelfDefinition c = 0"
    "nc_Config c = types_NewConfig []"
    by (auto simp: demo_ctx_def InitRuleChainCtx_def Let_def demo_defs InitRuleNodeCtx_def NewNode_def
        processGlobalPlaceholders_def types_NewConfig_def NewMetadata_def GetEngineAspects_def
        GetFirstNode_def GetNodeByIndex_def GetNodeById_def sort_Slice_def defaultNodeIdPrefix_def)
  have "DecodeRuleNode demo_ops demo_reg renaming_codec (nc_Config c) ''node'' =
      Inr ([(''k'', GNil)], demo_node ''x'' (Some [(''k'', GNil)]))"
    by (simp add: c(3) DecodeRuleNode_def ParserRuleNode_def renaming_codec_def InitRuleNodeCtx_def demo_defs NewNode_def
        processGlobalPlaceholders_def types_NewConfig_def NewMetadata_def Let_def)
  with Chain_ReloadChild_local [OF demo_ok(1) t] c t show ?thesis by (intro exI [of _ "fst (snd ?r)"]) simp
qed

theorem Chain_ReloadChild_unknown_silent_witness:
  "Chain_ReloadChild demo_ops demo_reg demo_codec ''zz'' ''node''
     (demo_ctx\<lparr>rc_nodes := []\<rparr>) () = (None, demo_ctx\<lparr>rc_nodes := []\<rparr>, ())"
  by (rule Chain_ReloadChild_unknown_silent) simp

end
