(* ===== verification/Engine.thy ===== *)
theory Engine
  imports Chain
begin

text \<open>
  The rule engine as an object (\<open>engine.go\<close>) and the pool of engines (\<open>rulego.go\<close>):
  creation, reloading, inspection, stopping, and the pool's \<open>New\<close>, \<open>Get\<close>, \<open>Del\<close>,
  \<open>Stop\<close> and \<open>Load\<close>. The processing of messages is in the theory \<open>Run\<close>. A pool is a Go
  map from keys to engines; \<open>sync.Map.Range\<close> visits it in the order of the list.
\<close>

section \<open>Rule engines\<close>

record ('n, 'w) RuleEngine =
  re_Id :: string
  re_Config :: "'w Config"
  re_RuleChainPool :: pool_ref
  re_root :: "('n, 'w) RuleChainCtx option"
  re_startAspects :: "'w aspect list"
  re_endAspects :: "'w aspect list"
  re_completedAspects :: "'w aspect list"

type_synonym ('n, 'w) RuleEngineOption = "('n, 'w) RuleEngine \<Rightarrow> ('n, 'w) RuleEngine"

definition WithConfig :: "'w Config \<Rightarrow> ('n, 'w) RuleEngineOption" where
  "WithConfig config re = re\<lparr>re_Config := config\<rparr>"

definition Initialized :: "('n, 'w) RuleEngine \<Rightarrow> bool" where
  "Initialized e = (re_root e \<noteq> None)"

text \<open>
  What loading a definition needs from outside the engine: the methods of the nodes, the
  component registry, the sorting routine, the view of the pool and the JSON codec.
\<close>

record ('n, 'w) loader =
  ld_ops :: "('n, 'w) node_ops"
  ld_reg :: "'n RuleComponentRegistry"
  ld_sort :: "'w sorter"
  ld_pool :: pool_view
  ld_codec :: codec

definition ld_decode :: "('n, 'w) loader \<Rightarrow> 'w Config \<Rightarrow> string \<Rightarrow> fail + ('n, 'w) RuleChainCtx" where
  "ld_decode ld config dsl =
     DecodeRuleChain (ld_ops ld) (ld_reg ld) (ld_sort ld) (ld_pool ld) (ld_codec ld) config dsl"

text \<open>\<open>RuleEngine.ReloadSelf\<close>: the options, then a reload of the chain in place or, when
  there is none yet, its creation.\<close>

definition ReloadSelf ::
  "('n, 'w) loader \<Rightarrow> string \<Rightarrow> ('n, 'w) RuleEngineOption list \<Rightarrow> ('n, 'w) RuleEngine \<Rightarrow> 'w
     \<Rightarrow> fail option \<times> ('n, 'w) RuleEngine \<times> 'w" where
  "ReloadSelf ld def opts e w =
     (let e = fold (\<lambda>opt e. opt e) opts e
      in case re_root e of
           Some rc \<Rightarrow>
             (let rc = rc\<lparr>rc_Config := re_Config e\<rparr>
              in case Chain_ReloadSelf (ld_ops ld) (ld_reg ld) (ld_sort ld) (ld_pool ld) (ld_codec ld) def rc w of
                   (Some (Panic p), rc, w) \<Rightarrow> (Some (Panic p), e\<lparr>re_root := Some rc\<rparr>, w)
                 | (err, rc, w) \<Rightarrow>
                     (err, e\<lparr>re_root := Some (SetRuleChainPool (Some (re_RuleChainPool e)) rc)\<rparr>, w))
         | None \<Rightarrow>
             (case ld_decode ld (re_Config e) def of
                Inr ctx \<Rightarrow>
                  (let e = e\<lparr>re_root := Some (SetRuleChainPool (Some (re_RuleChainPool e)) ctx)\<rparr>;
                       (config, createdAspects, _, _) = GetEngineAspects (ld_sort ld) (re_Config e);
                       w = fold (\<lambda>aop w. case a_OnCreated aop of Some f \<Rightarrow> f (rc_Id ctx) w | None \<Rightarrow> w)
                             createdAspects w
                   in (None, e\<lparr>re_Config := config\<rparr>, w))
              | Inl err \<Rightarrow> (Some err, e, w)))"

text \<open>\<open>newRuleEngine\<close>: the error, the engine (nil only for an empty definition) and the world.\<close>

definition newRuleEngine ::
  "('n, 'w) loader \<Rightarrow> string \<Rightarrow> string \<Rightarrow> ('n, 'w) RuleEngineOption list \<Rightarrow> 'w
     \<Rightarrow> fail option \<times> ('n, 'w) RuleEngine option \<times> 'w" where
  "newRuleEngine ld engineId def opts w =
     (if def = [] then (Some (Err ''def can not nil''), None, w)
      else
        (let ruleEngine = \<lparr>re_Id = engineId, re_Config = NewConfig [], re_RuleChainPool = DefaultRuleGo,
                           re_root = None, re_startAspects = [], re_endAspects = [],
                           re_completedAspects = []\<rparr>;
             (err, ruleEngine, w) = ReloadSelf ld def opts ruleEngine w;
             ruleEngine =
               (case (err, re_root ruleEngine) of
                  (None, Some rc) \<Rightarrow>
                    (if engineId \<noteq> [] then ruleEngine\<lparr>re_root := Some (rc\<lparr>rc_Id := chain_id engineId\<rparr>)\<rparr>
                     else ruleEngine\<lparr>re_Id := NodeId (rc_Id rc)\<rparr>)
                | _ \<Rightarrow> ruleEngine);
             (config, startAspects, endAspects, completedAspects) =
               GetChainAspects (ld_sort ld) (re_Config ruleEngine)
         in (err, Some (ruleEngine\<lparr>re_Config := config, re_startAspects := startAspects,
                                   re_endAspects := endAspects,
                                   re_completedAspects := completedAspects\<rparr>), w)))"

definition ReloadChild ::
  "('n, 'w) loader \<Rightarrow> string \<Rightarrow> string \<Rightarrow> ('n, 'w) RuleEngine \<Rightarrow> 'w
     \<Rightarrow> fail option \<times> ('n, 'w) RuleEngine \<times> 'w" where
  "ReloadChild ld ruleNodeId dsl e w =
     (if dsl = [] then (Some (Err ''dsl can not empty''), e, w)
      else case re_root e of
        None \<Rightarrow> (Some (Err ''ReloadNode error.RuleEngine not initialized''), e, w)
      | Some rc \<Rightarrow>
          (if ruleNodeId = [] then ReloadSelf ld dsl [] e w
           else
             (case Chain_ReloadChild (ld_ops ld) (ld_reg ld) (ld_codec ld) ruleNodeId dsl rc w of
                (err, rc, w) \<Rightarrow> (map_option Err err, e\<lparr>re_root := Some rc\<rparr>, w))))"

definition DSL :: "codec \<Rightarrow> ('n, 'w) RuleEngine \<Rightarrow> string" where
  "DSL cd e = (case re_root e of Some rc \<Rightarrow> Chain_DSL cd rc | None \<Rightarrow> [])"

text \<open>
  \<open>NodeDSL\<close>. \<open>sub\<close> gives the root chains of the pool by key. A node context has no children
  (its \<open>GetNodeById\<close> reports false), and \<open>GetNodeById\<close> of a chain of the pool looks further
  chains up in the same pool.
\<close>

definition NodeDSL_of ::
  "codec \<Rightarrow> pool_view \<Rightarrow> (string \<Rightarrow> ('n, 'w) RuleChainCtx option) \<Rightarrow> RuleNodeId \<Rightarrow> ('n, 'w) RuleChainCtx
     \<Rightarrow> string" where
  "NodeDSL_of cd pool sub nid rc =
     (case GetNodeById pool nid rc of
        Some (NodeRef n) \<Rightarrow>
          (case map_of (rc_nodes rc) n of
             Some c \<Rightarrow> RuleNodeCtx_DSL cd (rm_Nodes (rch_Metadata (rc_SelfDefinition rc)) ! nc_SelfDefinition c)
           | None \<Rightarrow> [])
      | Some (ChainRef k) \<Rightarrow> (case sub k of Some rc' \<Rightarrow> Chain_DSL cd rc' | None \<Rightarrow> [])
      | None \<Rightarrow> [])"

definition NodeDSL ::
  "codec \<Rightarrow> pool_view \<Rightarrow> (string \<Rightarrow> ('n, 'w) RuleChainCtx option) \<Rightarrow> RuleNodeId \<Rightarrow> RuleNodeId
     \<Rightarrow> ('n, 'w) RuleEngine \<Rightarrow> string" where
  "NodeDSL cd pool sub chainId childNodeId e =
     (case re_root e of
        None \<Rightarrow> []
      | Some rc \<Rightarrow>
          (if NodeId chainId = [] then NodeDSL_of cd pool sub childNodeId rc
           else
             (case GetNodeById pool chainId rc of
                Some (ChainRef k) \<Rightarrow> (case sub k of Some rc' \<Rightarrow> NodeDSL_of cd pool sub childNodeId rc' | None \<Rightarrow> [])
              | _ \<Rightarrow> [])))"

definition Stop :: "('n, 'w) node_ops \<Rightarrow> ('n, 'w) RuleEngine \<Rightarrow> 'w \<Rightarrow> ('n, 'w) RuleEngine \<times> 'w" where
  "Stop ops e w =
     (case re_root e of
        Some rc \<Rightarrow> (e\<lparr>re_root := None\<rparr>, Destroy ops rc w)
      | None \<Rightarrow> (e, w))"

section \<open>The pool of engines\<close>

type_synonym ('n, 'w) RuleGo = "(string, ('n, 'w) RuleEngine) gomap"

definition Get :: "('n, 'w) RuleGo \<Rightarrow> string \<Rightarrow> ('n, 'w) RuleEngine option" where
  "Get g engineId = map_of g engineId"

text \<open>What the chains see of a pool: the ids of the root chains of its initialised engines.\<close>

definition pool_of :: "('n, 'w) RuleGo \<Rightarrow> pool_view" where
  "pool_of g k = (case Get g k of Some e \<Rightarrow> map_option rc_Id (re_root e) | None \<Rightarrow> None)"

definition Store :: "string \<Rightarrow> ('n, 'w) RuleEngine \<Rightarrow> ('n, 'w) RuleGo \<Rightarrow> ('n, 'w) RuleGo" where
  "Store k e g = gm_put k e g"

definition Remove :: "string \<Rightarrow> ('n, 'w) RuleGo \<Rightarrow> ('n, 'w) RuleGo" where
  "Remove k g = gm_del k g"

text \<open>\<open>New\<close> on the pool \<open>g\<close>, referred to as \<open>self\<close>: an engine with this id is returned as
  it is; the pool of the engine is set last, after its chain has taken the default one. The
  stored pointer sees that update.\<close>

definition New ::
  "('n, 'w) loader \<Rightarrow> pool_ref \<Rightarrow> string \<Rightarrow> string \<Rightarrow> ('n, 'w) RuleEngineOption list \<Rightarrow> ('n, 'w) RuleGo \<Rightarrow> 'w
     \<Rightarrow> (fail + ('n, 'w) RuleEngine) \<times> ('n, 'w) RuleGo \<times> 'w" where
  "New ld self engineId rootRuleChainSrc opts g w =
     (case Get g engineId of
        Some v \<Rightarrow> (Inr v, g, w)
      | None \<Rightarrow>
          (case newRuleEngine ld engineId rootRuleChainSrc opts w of
             (Some err, _, w) \<Rightarrow> (Inl err, g, w)
           | (None, None, w) \<Rightarrow> (Inl (Panic ''nil engine''), g, w)
           | (None, Some ruleEngine, w) \<Rightarrow>
               (let ruleEngine' = ruleEngine\<lparr>re_RuleChainPool := self\<rparr>;
                    g = (if re_Id ruleEngine \<noteq> [] then Store (re_Id ruleEngine) ruleEngine' g else g)
                in (Inr ruleEngine', g, w))))"

definition Del :: "('n, 'w) node_ops \<Rightarrow> string \<Rightarrow> ('n, 'w) RuleGo \<Rightarrow> 'w \<Rightarrow> ('n, 'w) RuleGo \<times> 'w" where
  "Del ops engineId g w =
     (case Get g engineId of
        Some v \<Rightarrow> (let (v', w) = Stop ops v w in (Remove engineId g, w))
      | None \<Rightarrow> (g, w))"

definition Stop_all :: "('n, 'w) node_ops \<Rightarrow> ('n, 'w) RuleGo \<Rightarrow> 'w \<Rightarrow> ('n, 'w) RuleGo \<times> 'w" where
  "Stop_all ops g w =
     fold (\<lambda>(key, value) (g', w). (Remove key g', snd (Stop ops value w))) g (g, w)"

text \<open>\<open>Load\<close>: \<open>glob\<close> is what \<open>fs.GetFilePaths\<close> answers, \<open>readf\<close> what \<open>fs.LoadFile\<close> does
  (\<open>None\<close>: nil).\<close>

definition load_pattern :: "string \<Rightarrow> string" where
  "load_pattern folderPath =
     (if \<not> HasSuffix folderPath ''*.json'' \<and> \<not> HasSuffix folderPath ''*.JSON'' then
        (if HasSuffix folderPath ''/'' \<or> HasSuffix folderPath [CHR 0x5C] then folderPath @ ''*.json''
         else if folderPath = [] then ''./*.json''
         else folderPath @ ''/*.json'')
      else folderPath)"

fun load_files ::
  "(('n, 'w) RuleGo \<Rightarrow> ('n, 'w) loader) \<Rightarrow> pool_ref \<Rightarrow> (string \<Rightarrow> string option)
     \<Rightarrow> ('n, 'w) RuleEngineOption list \<Rightarrow> string list \<Rightarrow> ('n, 'w) RuleGo \<Rightarrow> 'w
     \<Rightarrow> fail option \<times> ('n, 'w) RuleGo \<times> 'w" where
  "load_files ld self readf opts [] g w = (None, g, w)"
| "load_files ld self readf opts (path # paths) g w =
     (case readf path of
        None \<Rightarrow> load_files ld self readf opts paths g w
      | Some b \<Rightarrow>
          (case New (ld g) self [] b opts g w of
             (Inl err, g, w) \<Rightarrow> (Some err, g, w)
           | (Inr _, g, w) \<Rightarrow> load_files ld self readf opts paths g w))"

definition Load ::
  "(('n, 'w) RuleGo \<Rightarrow> ('n, 'w) loader) \<Rightarrow> pool_ref \<Rightarrow> (string \<Rightarrow> error + string list) \<Rightarrow> (string \<Rightarrow> string option)
     \<Rightarrow> ('n, 'w) RuleEngineOption list \<Rightarrow> string \<Rightarrow> ('n, 'w) RuleGo \<Rightarrow> 'w
     \<Rightarrow> fail option \<times> ('n, 'w) RuleGo \<times> 'w" where
  "Load ld self glob readf opts folderPath g w =
     (case glob (load_pattern folderPath) of
        Inl err \<Rightarrow> (Some (Err err), g, w)
      | Inr paths \<Rightarrow> load_files ld self readf opts paths g w)"

interpretation engine_pool: keyed_store Get Store Remove
  by unfold_locales (simp_all add: Get_def Store_def Remove_def)

section \<open>Facts on engines\<close>

lemma fold_WithConfig [simp]:
  "re_Id (fold (\<lambda>opt e. opt e) (map WithConfig cs) e) = re_Id e \<and>
   re_root (fold (\<lambda>opt e. opt e) (map WithConfig cs) e) = re_root e \<and>
   re_RuleChainPool (fold (\<lambda>opt e. opt e) (map WithConfig cs) e) = re_RuleChainPool e"
  by (induction cs arbitrary: e) (auto simp: WithConfig_def)

lemma InitRuleChainCtx_Id:
  assumes "InitRuleChainCtx ops reg srt pool config d = Inr rc"
  shows "rc_Id rc = (if rcb_ID (rch_RuleChain d) \<noteq> [] then chain_id (rcb_ID (rch_RuleChain d)) else EmptyRuleNodeId)"
proof -
  define rc0 :: "('a, 'b) RuleChainCtx" where
    "rc0 = \<lparr>rc_Id = (if rcb_ID (rch_RuleChain d) \<noteq> [] then chain_id (rcb_ID (rch_RuleChain d)) else EmptyRuleNodeId),
            rc_SelfDefinition = d, rc_Config = config, rc_initialized = True,
            rc_nodeIds = [], rc_nodes = [], rc_nodeRoutes = [], rc_relationCache = [],
            rc_root = None, rc_rootSelf = True, rc_rootConfig = config, rc_ruleChainPool = None,
            rc_reloadAspects = [], rc_destroyAspects = []\<rparr>"
  from assms obtain rc1 where 1: "load_nodes ops reg config 0 (rm_Nodes (rch_Metadata d)) rc0 = Inr rc1"
    by (cases "load_nodes ops reg config 0 (rm_Nodes (rch_Metadata d)) rc0")
       (simp_all add: InitRuleChainCtx_def Let_def rc0_def [symmetric])
  have "nodes_match 0 rc0" by (simp add: nodes_match_def rc0_def)
  then have "rc_Id rc1 = rc_Id rc0" using load_nodes_facts [OF 1] by (simp add: rc0_def)
  moreover have "rc_Id rc = rc_Id rc1"
    using assms 1 by (auto simp: InitRuleChainCtx_def Let_def rc0_def [symmetric] split: sum.splits prod.splits)
  ultimately show ?thesis by (simp add: rc0_def)
qed

lemma ReloadSelf_fresh:
  assumes "ReloadSelf ld def (map WithConfig cs) e w = (err, e', w')" and "re_root e = None"
  shows "re_Id e' = re_Id e \<and>
    (case err of
       None \<Rightarrow> \<exists>config rc. ld_decode ld config def = Inr rc \<and>
                 re_root e' = Some (SetRuleChainPool (Some (re_RuleChainPool e)) rc)
     | Some _ \<Rightarrow> re_root e' = None)"
  using assms
  by (auto simp: ReloadSelf_def Let_def split: sum.splits prod.splits) blast

text \<open>a new engine whose definition loads carries the id it was asked for, on itself and
  on its root chain; asked for none, it takes the id of the definition. An engine whose
  definition does not load has no root chain.\<close>

theorem newRuleEngine_id:
  assumes "newRuleEngine ld engineId def (map WithConfig cs) w = (err, Some e, w')"
  shows "case err of
           Some _ \<Rightarrow> re_root e = None \<and> re_Id e = engineId
         | None \<Rightarrow> (\<exists>config rc0 rc. ld_decode ld config def = Inr rc0 \<and> re_root e = Some rc \<and>
             rc_nodes rc = rc_nodes rc0 \<and> rc_nodeRoutes rc = rc_nodeRoutes rc0 \<and>
             rc_root rc = rc_root rc0 \<and>
             (if engineId = [] then re_Id e = NodeId (rc_Id rc0) \<and> rc_Id rc = rc_Id rc0
              else re_Id e = engineId \<and> rc_Id rc = chain_id engineId))"
proof -
  obtain err0 e0 w0 where r: "ReloadSelf ld def (map WithConfig cs)
      \<lparr>re_Id = engineId, re_Config = NewConfig [], re_RuleChainPool = DefaultRuleGo,
       re_root = None, re_startAspects = [], re_endAspects = [], re_completedAspects = []\<rparr> w = (err0, e0, w0)"
    by (metis prod_cases3)
  from assms have "def \<noteq> []" by (auto simp: newRuleEngine_def)
  show ?thesis
  proof (cases err0)
    case None
    with ReloadSelf_fresh [OF r] obtain config rc0 where
      d: "ld_decode ld config def = Inr rc0" "re_Id e0 = engineId"
      and r0: "re_root e0 = Some (SetRuleChainPool (Some DefaultRuleGo) rc0)" by auto
    from assms r None r0 \<open>def \<noteq> []\<close> d show ?thesis
      by (cases "engineId = []")
         (simp add: newRuleEngine_def SetRuleChainPool_def GetChainAspects_def Let_def,
          rule exI [of _ config], rule exI [of _ rc0], auto)+
  next
    case (Some x)
    with assms r ReloadSelf_fresh [OF r] \<open>def \<noteq> []\<close> show ?thesis
      by (auto simp: newRuleEngine_def GetChainAspects_def Let_def)
  qed
qed

lemma ReloadSelf_initialised:
  assumes "re_root e = Some rc"
  shows "ReloadSelf ld def (map WithConfig cs) e w =
    (let e = fold (\<lambda>opt e. opt e) (map WithConfig cs) e
     in case Chain_ReloadSelf (ld_ops ld) (ld_reg ld) (ld_sort ld) (ld_pool ld) (ld_codec ld) def
               (rc\<lparr>rc_Config := re_Config e\<rparr>) w of
          (Some (Panic p), rc, w) \<Rightarrow> (Some (Panic p), e\<lparr>re_root := Some rc\<rparr>, w)
        | (err, rc, w) \<Rightarrow> (err, e\<lparr>re_root := Some (SetRuleChainPool (Some (re_RuleChainPool e)) rc)\<rparr>, w))"
  using assms by (simp add: ReloadSelf_def Let_def)

lemma fold_WithConfig_eq:
  "fold (\<lambda>opt e. opt e) (map WithConfig cs) e = e\<lparr>re_Config := last (re_Config e # cs)\<rparr>"
  by (induction cs arbitrary: e) (simp_all add: WithConfig_def)

text \<open>C24: reloading an initialised engine with a definition that is refused leaves it
  serving. It is refused exactly when its definition does not decode under the configuration the options ask
  for. Then nodes, routes, root, ids, cache and definition of its chain and the aspects of the engine are the old ones
  and no node is destroyed: the world changes by what the reload aspects of the chain do with the error. Only the
  configuration has been replaced by the one of the options and the pool of the chain by that of the engine.\<close>

theorem ReloadSelf_failure_keeps_serving:
  assumes "re_root e = Some rc" and "ReloadSelf ld def (map WithConfig cs) e w = (err, e', w')"
  defines "config \<equiv> last (re_Config e # cs)"
  shows "(case ld_decode ld config def of
       Inr _ \<Rightarrow> err = None
     | Inl x \<Rightarrow> err = Some x \<and> w' = reload_refused rc x w \<and>
         e' = e\<lparr>re_Config := config, re_root := Some (rc\<lparr>rc_Config := config,
           rc_ruleChainPool := (case x of Err _ \<Rightarrow> Some (re_RuleChainPool e) | Panic _ \<Rightarrow> rc_ruleChainPool rc)\<rparr>)\<rparr>)"
proof -
  have "reload_refused (rc\<lparr>rc_Config := config\<rparr>) x w = reload_refused rc x w" for x
    by (cases x) (simp_all add: reload_refused_def)
  moreover have "e\<lparr>re_Config := config, re_root := Some r\<rparr> = e\<lparr>re_root := Some r, re_Config := config\<rparr>" for r by simp
  ultimately show ?thesis
    using assms(1,2) unfolding ReloadSelf_initialised [OF assms(1)] fold_WithConfig_eq Let_def config_def [symmetric]
    by (auto simp: Chain_ReloadSelf_def ld_decode_def SetRuleChainPool_def reload_refused_def Let_def
        split: sum.splits fail.splits option.splits)
qed

text \<open>a successful reload gives the chain the id written in the new definition, whatever
  id the engine was created with.\<close>

theorem ReloadSelf_takes_definition_id:
  assumes "re_root e = Some rc" and "ReloadSelf ld def (map WithConfig cs) e w = (None, e', w')"
  shows "\<exists>d rc'. ParserRuleChain (ld_codec ld) def = Inr d \<and> re_root e' = Some rc' \<and> re_Id e' = re_Id e \<and>
    rc_Id rc' = (if rcb_ID (rch_RuleChain d) \<noteq> [] then chain_id (rcb_ID (rch_RuleChain d)) else EmptyRuleNodeId)"
proof -
  let ?e = "fold (\<lambda>opt e. opt e) (map WithConfig cs) e"
  obtain r1 rc1 w1 where c: "Chain_ReloadSelf (ld_ops ld) (ld_reg ld) (ld_sort ld) (ld_pool ld) (ld_codec ld) def
               (rc\<lparr>rc_Config := re_Config ?e\<rparr>) w = (r1, rc1, w1)" by (metis prod_cases3)
  with assms have r: "r1 = None" and e': "e' = ?e\<lparr>re_root := Some (SetRuleChainPool (Some (re_RuleChainPool ?e)) rc1)\<rparr>"
    by (auto simp: ReloadSelf_initialised Let_def split: fail.splits option.splits)
  from c r obtain new where
    "DecodeRuleChain (ld_ops ld) (ld_reg ld) (ld_sort ld) (ld_pool ld) (ld_codec ld) (re_Config ?e) def = Inr new"
    and id: "rc_Id rc1 = rc_Id new"
    by (auto simp: Chain_ReloadSelf_def Let_def Chain_Copy_def split: sum.splits fail.splits)
  then obtain d where "ParserRuleChain (ld_codec ld) def = Inr d"
    "InitRuleChainCtx (ld_ops ld) (ld_reg ld) (ld_sort ld) (ld_pool ld) (re_Config ?e) d = Inr new"
    by (auto simp: DecodeRuleChain_def split: sum.splits)
  with InitRuleChainCtx_Id id e' show ?thesis by (fastforce simp: SetRuleChainPool_def)
qed

section \<open>Facts on the pool\<close>

definition pool_ok :: "('n, 'w) RuleGo \<Rightarrow> bool" where
  "pool_ok g = (distinct (map fst g) \<and> (\<forall>k e. Get g k = Some e \<longrightarrow> re_Id e = k \<and> k \<noteq> []))"

lemma pool_ok_Store: "pool_ok g \<Longrightarrow> re_Id e = k \<Longrightarrow> k \<noteq> [] \<Longrightarrow> pool_ok (Store k e g)"
  by (simp add: pool_ok_def engine_pool.lookup_put) (simp add: Store_def)

lemma pool_ok_Remove: "pool_ok g \<Longrightarrow> pool_ok (Remove k g)"
  by (simp add: pool_ok_def engine_pool.lookup_remove) (simp add: Remove_def distinct_delete)

lemma newRuleEngine_Id:
  assumes "newRuleEngine ld engineId def (map WithConfig cs) w = (None, Some e, w')" and "engineId \<noteq> []"
  shows "re_Id e = engineId"
proof -
  obtain err0 e0 w0 where r: "ReloadSelf ld def (map WithConfig cs)
      \<lparr>re_Id = engineId, re_Config = NewConfig [], re_RuleChainPool = DefaultRuleGo,
       re_root = None, re_startAspects = [], re_endAspects = [], re_completedAspects = []\<rparr> w = (err0, e0, w0)"
    by (metis prod_cases3)
  from assms have "def \<noteq> []" by (auto simp: newRuleEngine_def)
  with assms r ReloadSelf_fresh [OF r] show ?thesis
    by (auto simp: newRuleEngine_def GetChainAspects_def Let_def split: option.splits)
qed

lemma New_cases:
  assumes "New ld self engineId def opts g w = (res, g', w')"
  obtains (existing) v where "Get g engineId = Some v" "res = Inr v" "g' = g" "w' = w"
  | (failed) err where "res = Inl err" "g' = g" "Get g engineId = None"
  | (created) e where "Get g engineId = None" "newRuleEngine ld engineId def opts w = (None, Some e, w')"
      "res = Inr (e\<lparr>re_RuleChainPool := self\<rparr>)"
      "g' = (if re_Id e \<noteq> [] then Store (re_Id e) (e\<lparr>re_RuleChainPool := self\<rparr>) g else g)"
  using assms by (auto simp: New_def Let_def split: option.splits prod.splits)

text \<open>C17: creating an engine keeps the pool keyed by engine ids, each once. If the call
  succeeds the engine can be found under its id, which is the id asked for if there was one,
  and every other entry is untouched; if it fails the pool is unchanged. An id that is
  already known returns the engine that is there.\<close>

theorem New_then_Get:
  assumes "pool_ok g" and "New ld self engineId def (map WithConfig cs) g w = (res, g', w')"
  shows "pool_ok g' \<and>
    (case res of
       Inl _ \<Rightarrow> g' = g
     | Inr e \<Rightarrow> (re_Id e \<noteq> [] \<longrightarrow> Get g' (re_Id e) = Some e) \<and> (engineId \<noteq> [] \<longrightarrow> re_Id e = engineId) \<and>
               (\<forall>k. k \<noteq> re_Id e \<longrightarrow> Get g' k = Get g k) \<and>
               (Get g engineId \<noteq> None \<longrightarrow> Get g engineId = Some e \<and> g' = g))"
  using assms(2)
proof (cases rule: New_cases)
  case (existing v)
  with assms(1) show ?thesis by (auto simp: pool_ok_def)
next
  case (failed err)
  with assms(1) show ?thesis by simp
next
  case (created e)
  with assms(1) newRuleEngine_Id [OF created(2)] show ?thesis
    by (auto simp: engine_pool.lookup_put pool_ok_Store)
qed

text \<open>a deleted engine is not found any more and its chain has been destroyed; the other
  engines stay. Deleting an unknown id changes nothing.\<close>

theorem Del_removes:
  "Get (fst (Del ops engineId g w)) k = (if k = engineId then None else Get g k) \<and>
   snd (Del ops engineId g w) =
     (case Get g engineId of
        Some e \<Rightarrow> (case re_root e of Some rc \<Rightarrow> Destroy ops rc w | None \<Rightarrow> w)
      | None \<Rightarrow> w)"
  by (auto simp: Del_def Let_def Stop_def engine_pool.lookup_remove split: option.splits prod.splits)

lemma Stop_all_loop:
  "fold (\<lambda>(key, value) (g', w). (Remove key g', snd (Stop ops value w))) l (g, w) =
     (fold Remove (map fst l) g,
      fold (\<lambda>(_, e) w. case re_root e of Some rc \<Rightarrow> Destroy ops rc w | None \<Rightarrow> w) l w)"
  by (induction l arbitrary: g w) (auto simp: Stop_def split: option.splits)

text \<open>stopping the pool empties it and destroys the root chain of every engine that still
  has one, each exactly once.\<close>

theorem Stop_all_empties:
  "Stop_all ops g w =
     ([], fold (\<lambda>(_, e) w. case re_root e of Some rc \<Rightarrow> Destroy ops rc w | None \<Rightarrow> w) g w)"
proof -
  have "map_of (fold Remove (map fst g) g) k = None" for k
    using engine_pool.lookup_remove_all [of "map fst g" g k]
    by (auto simp: Get_def map_of_eq_None_iff split: if_splits)
  then have "fold Remove (map fst g) g = []"
    by (metis list.exhaust map_of_Cons_code(2) option.distinct(1) surj_pair)
  then show ?thesis by (simp add: Stop_all_def Stop_all_loop)
qed

text \<open>the folder argument of \<open>Load\<close> always becomes a pattern for JSON files, and a pattern
  is not extended twice.\<close>

theorem load_pattern_idempotent:
  "(HasSuffix (load_pattern p) ''*.json'' \<or> HasSuffix (load_pattern p) ''*.JSON'') \<and>
   load_pattern (load_pattern p) = load_pattern p"
  by (auto simp: load_pattern_def HasSuffix_def)

section \<open>A concrete pool\<close>

definition demo_loader :: "(Configuration, unit) loader" where
  "demo_loader = \<lparr>ld_ops = demo_ops, ld_reg = demo_reg, ld_sort = sort_Slice, ld_pool = demo_pool, ld_codec = demo_codec\<rparr>"

definition demo_engine :: "(Configuration, unit) RuleEngine" where
  "demo_engine = \<lparr>re_Id = ''rule01'', re_Config = types_NewConfig [], re_RuleChainPool = DefaultRuleGo,
     re_root = Some demo_ctx, re_startAspects = [], re_endAspects = [], re_completedAspects = []\<rparr>"

theorem newRuleEngine_id_witness:
  "re_root (the (fst (snd (newRuleEngine demo_loader ''rule01'' ''junk'' (map WithConfig []) ())))) = None"
proof -
  have "newRuleEngine demo_loader ''rule01'' ''junk'' (map WithConfig []) () =
     (Some (Err ''bad JSON''), Some (the (fst (snd (newRuleEngine demo_loader ''rule01'' ''junk'' (map WithConfig []) ())))), ())"
    by (simp add: newRuleEngine_def ReloadSelf_def ld_decode_def DecodeRuleChain_def ParserRuleChain_def
        demo_loader_def demo_codec_def GetChainAspects_def Let_def)
  from newRuleEngine_id [OF this] show ?thesis by simp
qed

theorem ReloadSelf_failure_keeps_serving_witness:
  "fst (snd (ReloadSelf demo_loader ''junk'' (map WithConfig []) demo_engine ())) =
     demo_engine\<lparr>re_root := Some (demo_ctx\<lparr>rc_Config := re_Config demo_engine,
       rc_ruleChainPool := Some (re_RuleChainPool demo_engine)\<rparr>)\<rparr>"
proof -
  let ?r = "ReloadSelf demo_loader ''junk'' (map WithConfig []) demo_engine ()"
  have r: "re_root demo_engine = Some demo_ctx" by (simp add: demo_engine_def)
  have t: "?r = (fst ?r, fst (snd ?r), ())" by (simp add: prod_eq_iff)
  have "ld_decode demo_loader config ''junk'' = Inl (Err ''bad JSON'')" for config
    by (simp add: ld_decode_def DecodeRuleChain_def ParserRuleChain_def demo_loader_def demo_codec_def)
  with ReloadSelf_failure_keeps_serving [OF r t] show ?thesis by (auto simp: demo_engine_def)
qed

theorem ReloadSelf_takes_definition_id_witness:
  "\<exists>rc'. re_root (fst (snd (ReloadSelf demo_loader ''chain'' (map WithConfig [types_NewConfig []]) demo_engine ()))) = Some rc' \<and>
     rc_Id rc' = chain_id ''chain''"
proof -
  have "re_root demo_engine = Some demo_ctx" by (simp add: demo_engine_def)
  moreover have "ReloadSelf demo_loader ''chain'' (map WithConfig [types_NewConfig []]) demo_engine () =
     (None, fst (snd (ReloadSelf demo_loader ''chain'' (map WithConfig [types_NewConfig []]) demo_engine ())), ())"
    by (simp add: ReloadSelf_def Chain_ReloadSelf_def DecodeRuleChain_def ParserRuleChain_def WithConfig_def
        demo_loader_def demo_codec_def demo_engine_def Let_def demo_init)
  ultimately show ?thesis
    using ReloadSelf_takes_definition_id [of demo_engine demo_ctx demo_loader "''chain''" "[types_NewConfig []]"]
    by (fastforce simp: ParserRuleChain_def demo_loader_def demo_codec_def demo_chain_def)
qed

theorem New_then_Get_witness:
  "Get (fst (snd (New demo_loader DefaultRuleGo ''rule01'' ''chain'' (map WithConfig []) [(''rule01'', demo_engine)] ())))
     ''rule01'' = Some demo_engine"
proof -
  have "pool_ok [(''rule01'', demo_engine)]" by (simp add: pool_ok_def Get_def demo_engine_def)
  from New_then_Get [OF this, of demo_loader DefaultRuleGo "''rule01''" "''chain''" "[]" "()"] show ?thesis
    by (auto simp: New_def Get_def)
qed

end
