(* ===== verification/Run.thy ===== *)
theory Run
  imports Engine
begin

text \<open>
  The processing of a message (\<open>engine.go\<close>): rule contexts, the dispatch of messages over
  the relations of a chain, aspects, end and completion callbacks.

  A run is a set of goroutines over a heap of contexts. A context is an index into the heap,
  and a goroutine is the list of the actions it still has to do, innermost first, so that a
  synchronous call puts actions in front of the list and a panic drops actions until a
  deferred recovery. One action is one step; goroutines are interleaved in any order. The
  loop that hands a message to the targets of one relation takes one step per target, and
  reading and setting the flag \<open>onAllNodeCompletedDone\<close> are two steps. Timers fire at any
  later time. The callbacks of the caller are recorded as events.
\<close>

section \<open>Contexts, actions and states\<close>

datatype 'w advice = UserAspect "'w aspect" | DebugAspect

text \<open>End callbacks: of the caller, of an \<open>OnMsg\<close> running in a context, and the closure that
  \<open>onMsgAndWait\<close> builds for an engine, a root context and the callback it replaces. Completion
  callbacks are alike; that of the engine knows the message and whether the caller waits.\<close>

datatype end_fn = UserEnd nat | NodeEnd nat nat | EngineEnd string nat "end_fn option"

datatype done_fn =
    UserDone nat
  | NodeDone nat nat
  | EngineDone string nat RuleMsg bool "done_fn option"

record 'w DefaultRuleContext =
  dc_context :: nat
  dc_config :: "'w Config"
  dc_chain :: string
  dc_from :: "node_ref option"
  dc_self :: "node_ref option"
  dc_isFirst :: bool
  dc_pool :: "('w \<Rightarrow> bool \<times> 'w) option"
  dc_onEnd :: "end_fn option"
  dc_waitingCount :: int
  dc_parent :: "nat option"
  dc_onAllNodeCompleted :: "done_fn option"
  dc_onAllNodeCompletedDone :: bool
  dc_skipTellNext :: bool
  dc_aroundAspects :: "'w aspect list"
  dc_beforeAspects :: "'w advice list"
  dc_afterAspects :: "'w advice list"

text \<open>
  The variable of a \<open>for range\<close> loop is one variable for the whole loop (Go before 1.22), and
  a closure that mentions it reads it when it runs: an argument is a constant or the address
  of such a variable.
\<close>

datatype captured = Const string | LoopVar nat

datatype 'w action =
    IStart string RuleMsg bool "end_fn option" "done_fn option"
  | IAwait nat
  | IFirst nat RuleMsg "error option"
  | ITellNext nat RuleMsg node_ref captured
  | IAround nat RuleMsg RuleMsg string "'w aspect list" bool
  | IOnMsg nat RuleMsg
  | ICalls nat "ctx_call list" "string option"
  | IRecover nat RuleMsg string
  | ITellRels nat RuleMsg "error option" "string list" nat
  | IDispatch nat RuleMsg nat "node_ref list"
  | IEnd nat RuleMsg "error option" string
  | IEndFn end_fn nat RuleMsg "error option" string
  | IDone nat
  | ICompleted nat
  | ISetDone nat done_fn
  | IDoneFn done_fn
  | IClose nat
  | IGlobalEnd RuleMsg "error option"
  | IDebug nat string RuleMsg string "error option"
  | IPanic string

datatype event =
    EvOnMsg nat RuleMsg
  | EvEngineEnd string nat nat RuleMsg "error option" string
  | EvUserEnd nat nat RuleMsg "error option" string
  | EvCompleted string nat
  | EvUserDone nat
  | EvClosed nat
  | EvGlobalEnd RuleMsg "error option"
  | EvDebug string string string RuleMsg string "error option"
  | EvSubmitRefused
  | EvNotInitialized

record ('n, 'w) sys =
  s_engines :: "('n, 'w) RuleGo"
  s_heap :: "'w DefaultRuleContext list"
  s_vars :: "string list"
  s_gos :: "'w action list list"
  s_trace :: "event list"
  s_world :: 'w
  s_tick :: nat
  s_crashed :: "string option"

text \<open>What a run takes from outside: the methods of the nodes, the sorting routine, the clock
  and the UUID generator at each tick.\<close>

record ('n, 'w) env =
  env_ops :: "('n, 'w) node_ops"
  env_sort :: "'w sorter"
  env_now :: "nat \<Rightarrow> int"
  env_uuid :: "nat \<Rightarrow> string"

definition ctx_at :: "('n, 'w) sys \<Rightarrow> nat \<Rightarrow> 'w DefaultRuleContext" where
  "ctx_at s c = s_heap s ! c"

definition upd_ctx ::
  "nat \<Rightarrow> ('w DefaultRuleContext \<Rightarrow> 'w DefaultRuleContext) \<Rightarrow> ('n, 'w) sys \<Rightarrow> ('n, 'w) sys" where
  "upd_ctx c f s = s\<lparr>s_heap := (s_heap s)[c := f (s_heap s ! c)]\<rparr>"

definition emit :: "event \<Rightarrow> ('n, 'w) sys \<Rightarrow> ('n, 'w) sys" where
  "emit ev s = s\<lparr>s_trace := s_trace s @ [ev]\<rparr>"

text \<open>The statement \<open>go task()\<close>.\<close>

definition spawn :: "'w action list \<Rightarrow> ('n, 'w) sys \<Rightarrow> ('n, 'w) sys" where
  "spawn g s = s\<lparr>s_gos := s_gos s @ [g]\<rparr>"

definition copy_msg :: "('n, 'w) env \<Rightarrow> RuleMsg \<Rightarrow> ('n, 'w) sys \<Rightarrow> RuleMsg \<times> ('n, 'w) sys" where
  "copy_msg E msg s =
     (Copy (env_now E (s_tick s)) (env_uuid E (s_tick s)) msg, s\<lparr>s_tick := Suc (s_tick s)\<rparr>)"

section \<open>Nodes and chains as seen from a context\<close>

definition chain_of :: "('n, 'w) sys \<Rightarrow> string \<Rightarrow> ('n, 'w) RuleChainCtx option" where
  "chain_of s k = (case Get (s_engines s) k of Some e \<Rightarrow> re_root e | None \<Rightarrow> None)"

text \<open>\<open>GetNodeId\<close> of a node context or of the root chain of a pooled engine.\<close>

definition ref_id :: "('n, 'w) sys \<Rightarrow> node_ref \<Rightarrow> RuleNodeId" where
  "ref_id s ref =
     (case ref of
        NodeRef nid \<Rightarrow> nid
      | ChainRef k \<Rightarrow> (case chain_of s k of Some rc \<Rightarrow> GetNodeId rc | None \<Rightarrow> chain_id k))"

definition ref_debug :: "('n, 'w) sys \<Rightarrow> string \<Rightarrow> node_ref \<Rightarrow> bool" where
  "ref_debug s k ref =
     (case ref of
        NodeRef nid \<Rightarrow>
          (case chain_of s k of
             None \<Rightarrow> False
           | Some rc \<Rightarrow>
               (case map_of (rc_nodes rc) nid of
                  Some c \<Rightarrow> rn_DebugMode (rm_Nodes (rch_Metadata (rc_SelfDefinition rc)) ! nc_SelfDefinition c)
                | None \<Rightarrow> False))
      | ChainRef k' \<Rightarrow> (case chain_of s k' of Some rc \<Rightarrow> Chain_IsDebugMode rc | None \<Rightarrow> False))"

definition view_of :: "('n, 'w) sys \<Rightarrow> nat \<Rightarrow> ctx_view" where
  "view_of s c =
     (let ctx = ctx_at s c
      in \<lparr>cv_self = map_option (ref_id s) (dc_self ctx), cv_from = map_option (ref_id s) (dc_from ctx),
          cv_chain = map_option GetNodeId (chain_of s (dc_chain ctx)),
          cv_debug = (case dc_self ctx of Some ref \<Rightarrow> ref_debug s (dc_chain ctx) ref | None \<Rightarrow> False)\<rparr>)"

text \<open>The instance that a context runs, if it is a node of its chain.\<close>

definition instance_of :: "('n, 'w) sys \<Rightarrow> nat \<Rightarrow> 'n option" where
  "instance_of s c =
     (case (dc_self (ctx_at s c), chain_of s (dc_chain (ctx_at s c))) of
        (Some (NodeRef nid), Some rc) \<Rightarrow> map_option nc_Node (map_of (rc_nodes rc) nid)
      | _ \<Rightarrow> None)"

definition getNextNodes ::
  "nat \<Rightarrow> string \<Rightarrow> ('n, 'w) sys \<Rightarrow> (node_ref list \<times> bool) \<times> ('n, 'w) sys" where
  "getNextNodes c relationType s =
     (let ctx = ctx_at s c
      in case (Get (s_engines s) (dc_chain ctx), dc_self ctx) of
           (Some e, Some self) \<Rightarrow>
             (case re_root e of
                Some rc \<Rightarrow>
                  (let (res, rc) = GetNextNodes (pool_of (s_engines s)) (ref_id s self) relationType rc
                   in (res, s\<lparr>s_engines := Store (dc_chain ctx) (e\<lparr>re_root := Some rc\<rparr>) (s_engines s)\<rparr>))
              | None \<Rightarrow> (([], False), s))
         | _ \<Rightarrow> (([], False), s))"

section \<open>Creating contexts\<close>

definition NewRuleContext ::
  "('n, 'w) env \<Rightarrow> nat \<Rightarrow> 'w Config \<Rightarrow> string \<Rightarrow> node_ref option \<Rightarrow> node_ref option
     \<Rightarrow> ('w \<Rightarrow> bool \<times> 'w) option \<Rightarrow> end_fn option \<Rightarrow> 'w DefaultRuleContext" where
  "NewRuleContext E context config chain from self pool onEnd =
     (let (config', aroundAspects, beforeAspects, afterAspects) = GetNodeAspects (env_sort E) config;
          debug = (if cfg_OnDebug config then [DebugAspect] else [])
      in \<lparr>dc_context = context, dc_config = config', dc_chain = chain, dc_from = from, dc_self = self,
          dc_isFirst = (from = None), dc_pool = pool, dc_onEnd = onEnd, dc_waitingCount = 0,
          dc_parent = None, dc_onAllNodeCompleted = None, dc_onAllNodeCompletedDone = False,
          dc_skipTellNext = False, dc_aroundAspects = aroundAspects,
          dc_beforeAspects = map UserAspect beforeAspects @ debug,
          dc_afterAspects = map UserAspect afterAspects @ debug\<rparr>)"

definition NewNextNodeRuleContext :: "nat \<Rightarrow> node_ref \<Rightarrow> ('n, 'w) sys \<Rightarrow> 'w DefaultRuleContext" where
  "NewNextNodeRuleContext c nextNode s =
     (let ctx = ctx_at s c
      in \<lparr>dc_context = dc_context ctx, dc_config = dc_config ctx, dc_chain = dc_chain ctx,
          dc_from = dc_self ctx, dc_self = Some nextNode, dc_isFirst = False, dc_pool = dc_pool ctx,
          dc_onEnd = dc_onEnd ctx, dc_waitingCount = 0, dc_parent = Some c,
          dc_onAllNodeCompleted = None, dc_onAllNodeCompletedDone = False,
          dc_skipTellNext = dc_skipTellNext ctx, dc_aroundAspects = dc_aroundAspects ctx,
          dc_beforeAspects = dc_beforeAspects ctx, dc_afterAspects = dc_afterAspects ctx\<rparr>)"

section \<open>Submitting and counting\<close>

definition SubmitTack :: "nat \<Rightarrow> 'w action list \<Rightarrow> ('n, 'w) sys \<Rightarrow> ('n, 'w) sys" where
  "SubmitTack c task s =
     (case dc_pool (ctx_at s c) of
        Some submit \<Rightarrow>
          (let (ok, w) = submit (s_world s); s = s\<lparr>s_world := w\<rparr>
           in if ok then spawn task s else emit EvSubmitRefused s)
      | None \<Rightarrow> spawn task s)"

definition childReady :: "nat \<Rightarrow> ('n, 'w) sys \<Rightarrow> ('n, 'w) sys" where
  "childReady c s = upd_ctx c (\<lambda>x. x\<lparr>dc_waitingCount := wrap32 (dc_waitingCount x + 1)\<rparr>) s"

text \<open>The synchronous remainder of an operation is returned as the actions to do next.\<close>

definition childDone :: "nat \<Rightarrow> ('n, 'w) sys \<Rightarrow> 'w action list \<times> ('n, 'w) sys" where
  "childDone c s =
     (let n = wrap32 (dc_waitingCount (ctx_at s c) - 1);
          s' = upd_ctx c (\<lambda>x. x\<lparr>dc_waitingCount := n\<rparr>) s
      in if n \<le> 0
         then ((case dc_parent (ctx_at s c) of Some p \<Rightarrow> [IDone p] | None \<Rightarrow> []) @ [ICompleted c], s')
         else ([], s'))"

text \<open>The last lines of \<open>childDone\<close>: the flag is loaded, and stored by the next action.\<close>

definition completed :: "nat \<Rightarrow> ('n, 'w) sys \<Rightarrow> 'w action list \<times> ('n, 'w) sys" where
  "completed c s =
     (case dc_onAllNodeCompleted (ctx_at s c) of
        Some f \<Rightarrow>
          (if dc_onAllNodeCompletedDone (ctx_at s c) then ([], s) else ([ISetDone c f], s))
      | None \<Rightarrow> ([], s))"

definition set_done :: "nat \<Rightarrow> done_fn \<Rightarrow> ('n, 'w) sys \<Rightarrow> 'w action list \<times> ('n, 'w) sys" where
  "set_done c f s = ([IDoneFn f], upd_ctx c (\<lambda>x. x\<lparr>dc_onAllNodeCompletedDone := True\<rparr>) s)"

definition DoOnEnd ::
  "nat \<Rightarrow> RuleMsg \<Rightarrow> error option \<Rightarrow> string \<Rightarrow> ('n, 'w) sys \<Rightarrow> 'w action list \<times> ('n, 'w) sys" where
  "DoOnEnd c msg err relationType s =
     (let s = (if cfg_OnEnd (dc_config (ctx_at s c)) then SubmitTack c [IGlobalEnd msg err] s else s)
      in case dc_onEnd (ctx_at s c) of
           Some _ \<Rightarrow> ([], SubmitTack c [IEnd c msg err relationType] s)
         | None \<Rightarrow> ([IDone c], s))"

section \<open>Aspects\<close>

definition onDebug ::
  "('n, 'w) env \<Rightarrow> nat \<Rightarrow> string \<Rightarrow> RuleMsg \<Rightarrow> string \<Rightarrow> error option \<Rightarrow> ('n, 'w) sys \<Rightarrow> ('n, 'w) sys" where
  "onDebug E c flowType msg relationType err s =
     (if cv_debug (view_of s c) then
        (let (msgCopy, s) = copy_msg E msg s
         in SubmitTack c [IDebug c flowType msgCopy relationType err] s)
      else s)"

fun before_aop ::
  "('n, 'w) env \<Rightarrow> nat \<Rightarrow> string \<Rightarrow> 'w advice list \<Rightarrow> RuleMsg \<Rightarrow> ('n, 'w) sys \<Rightarrow> RuleMsg \<times> ('n, 'w) sys" where
  "before_aop E c relationType [] msg s = (msg, s)"
| "before_aop E c relationType (UserAspect aop # aops) msg s =
     (case a_Before aop of
        Some f \<Rightarrow>
          (if a_PointCut aop (view_of s c) msg relationType (s_world s) then
             (let (msg, w) = f (view_of s c) msg relationType (s_world s)
              in before_aop E c relationType aops msg (s\<lparr>s_world := w\<rparr>))
           else before_aop E c relationType aops msg s)
      | None \<Rightarrow> before_aop E c relationType aops msg s)"
| "before_aop E c relationType (DebugAspect # aops) msg s =
     before_aop E c relationType aops msg (onDebug E c In msg relationType None s)"

fun after_aop ::
  "('n, 'w) env \<Rightarrow> nat \<Rightarrow> error option \<Rightarrow> string \<Rightarrow> 'w advice list \<Rightarrow> RuleMsg \<Rightarrow> ('n, 'w) sys
     \<Rightarrow> RuleMsg \<times> ('n, 'w) sys" where
  "after_aop E c err relationType [] msg s = (msg, s)"
| "after_aop E c err relationType (UserAspect aop # aops) msg s =
     (case a_After aop of
        Some f \<Rightarrow>
          (if a_PointCut aop (view_of s c) msg relationType (s_world s) then
             (let (msg, w) = f (view_of s c) msg err relationType (s_world s)
              in after_aop E c err relationType aops msg (s\<lparr>s_world := w\<rparr>))
           else after_aop E c err relationType aops msg s)
      | None \<Rightarrow> after_aop E c err relationType aops msg s)"
| "after_aop E c err relationType (DebugAspect # aops) msg s =
     after_aop E c err relationType aops msg (onDebug E c Out msg relationType err s)"

definition executeAfterAop ::
  "('n, 'w) env \<Rightarrow> nat \<Rightarrow> RuleMsg \<Rightarrow> error option \<Rightarrow> string \<Rightarrow> ('n, 'w) sys \<Rightarrow> RuleMsg \<times> ('n, 'w) sys" where
  "executeAfterAop E c msg err relationType s =
     after_aop E c err relationType (dc_afterAspects (ctx_at s c)) msg s"

text \<open>\<open>executeAroundAop\<close>: the before advice, then the around advice one by one. The messages
  they return are handed from advice to advice; the message the node gets is the original.\<close>

definition executeAroundAop ::
  "('n, 'w) env \<Rightarrow> nat \<Rightarrow> RuleMsg \<Rightarrow> string \<Rightarrow> ('n, 'w) sys \<Rightarrow> 'w action list \<times> ('n, 'w) sys" where
  "executeAroundAop E c msg relationType s =
     (let (msg', s) = before_aop E c relationType (dc_beforeAspects (ctx_at s c)) msg s
      in ([IAround c msg msg' relationType (dc_aroundAspects (ctx_at s c)) True], s))"

fun around_aop ::
  "nat \<Rightarrow> RuleMsg \<Rightarrow> RuleMsg \<Rightarrow> string \<Rightarrow> 'w aspect list \<Rightarrow> bool \<Rightarrow> ('n, 'w) sys
     \<Rightarrow> 'w action list \<times> ('n, 'w) sys" where
  "around_aop c orig msg relationType [] tellNext s = (if tellNext then [IOnMsg c orig] else [], s)"
| "around_aop c orig msg relationType (aop # aops) tellNext s =
     (case a_Around aop of
        Some around \<Rightarrow>
          (if a_PointCut aop (view_of s c) msg relationType (s_world s) then
             (let ((msg, showTellNext, calls), w) = around (view_of s c) msg relationType (s_world s)
              in ([ICalls c calls None, IAround c orig msg relationType aops (tellNext \<and> showTellNext)],
                  s\<lparr>s_world := w\<rparr>))
           else ([IAround c orig msg relationType aops tellNext], s))
      | None \<Rightarrow> ([IAround c orig msg relationType aops tellNext], s))"

definition aspect_msg ::
  "('w aspect \<Rightarrow> ctx_view \<Rightarrow> RuleMsg \<Rightarrow> 'w \<Rightarrow> RuleMsg \<times> 'w) \<Rightarrow> string \<Rightarrow> 'w aspect list \<Rightarrow> ctx_view
     \<Rightarrow> RuleMsg \<Rightarrow> 'w \<Rightarrow> RuleMsg \<times> 'w" where
  "aspect_msg advice relationType aops view msg w =
     fold (\<lambda>aop (msg, w). if a_PointCut aop view msg relationType w then advice aop view msg w else (msg, w))
       aops (msg, w)"

definition onStart :: "('n, 'w) RuleEngine \<Rightarrow> ctx_view \<Rightarrow> RuleMsg \<Rightarrow> 'w \<Rightarrow> RuleMsg \<times> 'w" where
  "onStart e view msg w =
     aspect_msg (\<lambda>aop v m w. case a_Start aop of Some f \<Rightarrow> f v m w | None \<Rightarrow> (m, w)) []
       (re_startAspects e) view msg w"

definition onEnd ::
  "('n, 'w) RuleEngine \<Rightarrow> ctx_view \<Rightarrow> RuleMsg \<Rightarrow> error option \<Rightarrow> string \<Rightarrow> 'w \<Rightarrow> RuleMsg \<times> 'w" where
  "onEnd e view msg err relationType w =
     aspect_msg (\<lambda>aop v m w. case a_End aop of Some f \<Rightarrow> f v m err relationType w | None \<Rightarrow> (m, w)) relationType
       (re_endAspects e) view msg w"

definition onAllNodeCompleted :: "('n, 'w) RuleEngine \<Rightarrow> ctx_view \<Rightarrow> RuleMsg \<Rightarrow> 'w \<Rightarrow> RuleMsg \<times> 'w" where
  "onAllNodeCompleted e view msg w =
     aspect_msg (\<lambda>aop v m w. case a_Completed aop of Some f \<Rightarrow> f v m w | None \<Rightarrow> (m, w)) []
       (re_completedAspects e) view msg w"

section \<open>Telling\<close>

definition tellFirst ::
  "('n, 'w) env \<Rightarrow> nat \<Rightarrow> RuleMsg \<Rightarrow> error option \<Rightarrow> ('n, 'w) sys \<Rightarrow> ('n, 'w) sys" where
  "tellFirst E c msg err s =
     (let (msgCopy, s) = copy_msg E msg s in SubmitTack c [IFirst c msgCopy err] s)"

definition first_task ::
  "nat \<Rightarrow> RuleMsg \<Rightarrow> error option \<Rightarrow> ('n, 'w) sys \<Rightarrow> 'w action list \<times> ('n, 'w) sys" where
  "first_task c msg err s =
     (case dc_self (ctx_at s c) of
        Some self \<Rightarrow> ([ITellNext c msg self (Const [])], s)
      | None \<Rightarrow> DoOnEnd c msg err [] s)"

definition tell ::
  "('n, 'w) env \<Rightarrow> nat \<Rightarrow> RuleMsg \<Rightarrow> error option \<Rightarrow> string list option \<Rightarrow> ('n, 'w) sys
     \<Rightarrow> 'w action list \<times> ('n, 'w) sys" where
  "tell E c msg err relationTypes s =
     (if dc_isFirst (ctx_at s c) then ([], tellFirst E c msg err s)
      else case relationTypes of
        None \<Rightarrow> DoOnEnd c msg err [] s
      | Some rels \<Rightarrow> ([ITellRels c msg err rels (length (s_vars s))], s\<lparr>s_vars := s_vars s @ [[]]\<rparr>))"

text \<open>One target of the inner loop of \<open>tell\<close>.\<close>

definition dispatch1 ::
  "('n, 'w) env \<Rightarrow> nat \<Rightarrow> RuleMsg \<Rightarrow> nat \<Rightarrow> node_ref \<Rightarrow> ('n, 'w) sys \<Rightarrow> ('n, 'w) sys" where
  "dispatch1 E c msg var item s =
     (let (msgCopy, s) = copy_msg E msg (childReady c s)
      in SubmitTack c [ITellNext c msgCopy item (LoopVar var)] s)"

text \<open>One relation of the outer loop of \<open>tell\<close>, whose variable is at the address \<open>var\<close>.\<close>

fun tell_rels ::
  "('n, 'w) env \<Rightarrow> nat \<Rightarrow> RuleMsg \<Rightarrow> error option \<Rightarrow> string list \<Rightarrow> nat \<Rightarrow> ('n, 'w) sys
     \<Rightarrow> 'w action list \<times> ('n, 'w) sys" where
  "tell_rels E c msg err [] var s = ([], s)"
| "tell_rels E c msg err (relationType # rels) var s =
     (let s = s\<lparr>s_vars := (s_vars s)[var := relationType]\<rparr>;
          (msg, s) = executeAfterAop E c msg err relationType s;
          ((nodes, ok), s) = getNextNodes c relationType s
      in if ok \<and> \<not> dc_skipTellNext (ctx_at s c)
         then ([IDispatch c msg var nodes, ITellRels c msg err rels var], s)
         else (let (k, s) = DoOnEnd c msg err relationType s in (k @ [ITellRels c msg err rels var], s)))"

definition captured_val :: "('n, 'w) sys \<Rightarrow> captured \<Rightarrow> string" where
  "captured_val s x = (case x of Const v \<Rightarrow> v | LoopVar a \<Rightarrow> s_vars s ! a)"

text \<open>\<open>tellNext\<close>: its deferred recovery stays below the call of the node.\<close>

definition tellNext ::
  "('n, 'w) env \<Rightarrow> nat \<Rightarrow> RuleMsg \<Rightarrow> node_ref \<Rightarrow> string \<Rightarrow> ('n, 'w) sys \<Rightarrow> 'w action list \<times> ('n, 'w) sys" where
  "tellNext E c msg nextNode relationType s =
     (let n = length (s_heap s);
          s = s\<lparr>s_heap := s_heap s @ [NewNextNodeRuleContext c nextNode s]\<rparr>;
          (k, s) = executeAroundAop E n msg relationType s
      in (k @ [IRecover c msg relationType], s))"

definition tellNext_recover ::
  "('n, 'w) env \<Rightarrow> nat \<Rightarrow> RuleMsg \<Rightarrow> string \<Rightarrow> string \<Rightarrow> ('n, 'w) sys \<Rightarrow> 'w action list \<times> ('n, 'w) sys" where
  "tellNext_recover E c msg relationType e s =
     (let (msg, s) = executeAfterAop E c msg (Some e) relationType s in ([IDone c], s))"

section \<open>Entering an engine\<close>

text \<open>\<open>onMsgAndWait\<close> with the options \<open>WithOnEnd\<close> and \<open>WithOnAllNodeCompleted\<close>. A chain
  without a root context makes the type assertion panic.\<close>

definition onMsgAndWait ::
  "('n, 'w) env \<Rightarrow> string \<Rightarrow> RuleMsg \<Rightarrow> bool \<Rightarrow> end_fn option \<Rightarrow> done_fn option \<Rightarrow> ('n, 'w) sys
     \<Rightarrow> 'w action list \<times> ('n, 'w) sys" where
  "onMsgAndWait E key msg wait endFunc doneFunc s =
     (case Get (s_engines s) key of
        None \<Rightarrow> ([], s)
      | Some e \<Rightarrow>
          (case re_root e of
             None \<Rightarrow> ([], emit EvNotInitialized s)
           | Some rc \<Rightarrow>
               (case rc_root rc of
                  None \<Rightarrow> ([IPanic ''interface conversion: interface is nil''], s)
                | Some self \<Rightarrow>
                    (let r = length (s_heap s);
                         ctx = NewRuleContext E 0 (rc_rootConfig rc) key None (Some self)
                                 (cfg_Pool (rc_rootConfig rc)) endFunc;
                         s = s\<lparr>s_heap := s_heap s @ [ctx]\<rparr>;
                         (msg, w) = onStart e (view_of s r) msg (s_world s);
                         s = upd_ctx r (\<lambda>x. x\<lparr>dc_onEnd := Some (EngineEnd key r endFunc),
                                             dc_onAllNodeCompleted := Some (EngineDone key r msg wait doneFunc)\<rparr>)
                               (s\<lparr>s_world := w\<rparr>);
                         (k, s) = tell E r msg None None s
                     in (k @ (if wait then [IAwait r] else []), s)))))"

definition TellFlow ::
  "('n, 'w) env \<Rightarrow> nat \<Rightarrow> RuleMsg \<Rightarrow> string \<Rightarrow> nat option \<Rightarrow> ('n, 'w) sys \<Rightarrow> 'w action list \<times> ('n, 'w) sys" where
  "TellFlow E c msg chainId cb s =
     (case Get (s_engines s) chainId of
        Some e \<Rightarrow> onMsgAndWait E chainId msg False (map_option (NodeEnd c) cb) (map_option (NodeDone c) cb) s
      | None \<Rightarrow> tell E c msg (Some (''ruleChain id='' @ chainId @ '' not found'')) (Some [Failure]) s)"

definition ExecuteNode ::
  "('n, 'w) env \<Rightarrow> nat \<Rightarrow> string \<Rightarrow> RuleMsg \<Rightarrow> bool \<Rightarrow> nat \<Rightarrow> ('n, 'w) sys \<Rightarrow> 'w action list \<times> ('n, 'w) sys" where
  "ExecuteNode E c nodeId msg skipTellNext cb s =
     (let ctx = ctx_at s c;
          found = (case chain_of s (dc_chain ctx) of
                     Some rc \<Rightarrow> GetNodeById (pool_of (s_engines s)) (node_id nodeId) rc
                   | None \<Rightarrow> None)
      in case found of
           Some nodeCtx \<Rightarrow>
             (let r = length (s_heap s);
                  new = (NewRuleContext E (dc_context ctx) (dc_config ctx) (dc_chain ctx) None (Some nodeCtx)
                          (dc_pool ctx) None)\<lparr>dc_onEnd := Some (NodeEnd c cb), dc_skipTellNext := skipTellNext\<rparr>
              in tell E r msg None (Some [[]]) (s\<lparr>s_heap := s_heap s @ [new]\<rparr>))
         | None \<Rightarrow>
             ([IEndFn (NodeEnd c cb) c msg (Some (''node id not found nodeId='' @ nodeId)) Failure], s))"

text \<open>The setters of a context.\<close>

definition SetEndFunc :: "end_fn option \<Rightarrow> 'w DefaultRuleContext \<Rightarrow> 'w DefaultRuleContext" where
  "SetEndFunc onEndFunc ctx = ctx\<lparr>dc_onEnd := onEndFunc\<rparr>"

definition SetContext :: "nat \<Rightarrow> 'w DefaultRuleContext \<Rightarrow> 'w DefaultRuleContext" where
  "SetContext c ctx = ctx\<lparr>dc_context := c\<rparr>"

definition SetOnAllNodeCompleted :: "done_fn option \<Rightarrow> 'w DefaultRuleContext \<Rightarrow> 'w DefaultRuleContext" where
  "SetOnAllNodeCompleted f ctx = ctx\<lparr>dc_onAllNodeCompleted := f\<rparr>"

lemmas setter_defs = SetEndFunc_def SetContext_def SetOnAllNodeCompleted_def

definition do_call ::
  "('n, 'w) env \<Rightarrow> nat \<Rightarrow> ctx_call \<Rightarrow> ('n, 'w) sys \<Rightarrow> 'w action list \<times> ('n, 'w) sys" where
  "do_call E c call s =
     (case call of
        CTell msg err rels \<Rightarrow> tell E c msg err rels s
      | CTellSelf msg delayMs \<Rightarrow> ([], spawn [IOnMsg c msg] s)
      | CTellFlow msg chainId cb \<Rightarrow> TellFlow E c msg chainId cb s
      | CExecuteNode nodeId msg skip cb \<Rightarrow> ExecuteNode E c nodeId msg skip cb s
      | CDoOnEnd msg err rel \<Rightarrow> DoOnEnd c msg err rel s
      | CSetContext v \<Rightarrow> ([], upd_ctx c (SetContext v) s)
      | CSetEndFunc cb \<Rightarrow> ([], upd_ctx c (SetEndFunc (map_option (NodeEnd c) cb)) s)
      | CSetOnAllNodeCompleted cb \<Rightarrow> ([], upd_ctx c (SetOnAllNodeCompleted (map_option (NodeDone c) cb)) s))"

section \<open>Callbacks\<close>

text \<open>\<open>OnMsg\<close> of the node of a context; a rule chain used as a node forwards the message to
  the engine with its id.\<close>

definition node_OnMsg ::
  "('n, 'w) env \<Rightarrow> nat \<Rightarrow> RuleMsg \<Rightarrow> ('n, 'w) sys \<Rightarrow> 'w action list \<times> ('n, 'w) sys" where
  "node_OnMsg E c msg s =
     (let s = emit (EvOnMsg c msg) s
      in case instance_of s c of
           Some node \<Rightarrow>
             (let ((calls, pan), w) = n_OnMsg (env_ops E) node (view_of s c) msg (s_world s)
              in ([ICalls c calls pan], s\<lparr>s_world := w\<rparr>))
         | None \<Rightarrow>
             (case dc_self (ctx_at s c) of
                Some (ChainRef k) \<Rightarrow> ([ICalls c [CTellFlow msg (NodeId (ref_id s (ChainRef k))) None] None], s)
              | _ \<Rightarrow> ([IPanic ''nil node''], s)))"

definition end_fn_call ::
  "('n, 'w) env \<Rightarrow> end_fn \<Rightarrow> nat \<Rightarrow> RuleMsg \<Rightarrow> error option \<Rightarrow> string \<Rightarrow> ('n, 'w) sys
     \<Rightarrow> 'w action list \<times> ('n, 'w) sys" where
  "end_fn_call E f c msg err relationType s =
     (case f of
        UserEnd k \<Rightarrow> ([], emit (EvUserEnd k c msg err relationType) s)
      | NodeEnd c' k \<Rightarrow>
          (case instance_of s c' of
             Some node \<Rightarrow>
               (let (calls, w) = n_OnEnd (env_ops E) node k msg err relationType (s_world s)
                in ([ICalls c' calls None], s\<lparr>s_world := w\<rparr>))
           | None \<Rightarrow> ([], s))
      | EngineEnd key r custom \<Rightarrow>
          (let (msg, w) = (case Get (s_engines s) key of
                             Some e \<Rightarrow> onEnd e (view_of s r) msg err relationType (s_world s)
                           | None \<Rightarrow> (msg, s_world s));
               s = emit (EvEngineEnd key r c msg err relationType) (s\<lparr>s_world := w\<rparr>)
           in (case custom of Some g \<Rightarrow> [IEndFn g c msg err relationType] | None \<Rightarrow> [], s)))"

definition done_fn_call ::
  "('n, 'w) env \<Rightarrow> done_fn \<Rightarrow> ('n, 'w) sys \<Rightarrow> 'w action list \<times> ('n, 'w) sys" where
  "done_fn_call E f s =
     (case f of
        UserDone k \<Rightarrow> ([], emit (EvUserDone k) s)
      | NodeDone c' k \<Rightarrow>
          (case instance_of s c' of
             Some node \<Rightarrow>
               (let (calls, w) = n_OnDone (env_ops E) node k (s_world s)
                in ([ICalls c' calls None], s\<lparr>s_world := w\<rparr>))
           | None \<Rightarrow> ([], s))
      | EngineDone key r msg wait custom \<Rightarrow>
          (let (msg, w) = (case Get (s_engines s) key of
                             Some e \<Rightarrow> onAllNodeCompleted e (view_of s r) msg (s_world s)
                           | None \<Rightarrow> (msg, s_world s));
               s = emit (EvCompleted key r) (s\<lparr>s_world := w\<rparr>)
           in ((case custom of Some g \<Rightarrow> [IDoneFn g] | None \<Rightarrow> []) @ (if wait then [IClose r] else []), s)))"

section \<open>Steps\<close>

text \<open>A panic runs the deferred actions of the goroutine: \<open>close(c)\<close> of a completion callback
  and the recovery of the innermost \<open>tellNext\<close>. Without one the process dies.\<close>

fun unwind ::
  "('n, 'w) env \<Rightarrow> string \<Rightarrow> 'w action list \<Rightarrow> ('n, 'w) sys \<Rightarrow> 'w action list \<times> ('n, 'w) sys" where
  "unwind E e [] s = ([], s\<lparr>s_crashed := Some e\<rparr>)"
| "unwind E e (IRecover c msg relationType # rest) s =
     (let (k, s) = tellNext_recover E c msg relationType e s in (k @ rest, s))"
| "unwind E e (IClose r # rest) s = unwind E e rest (emit (EvClosed r) s)"
| "unwind E e (_ # rest) s = unwind E e rest s"

fun exec ::
  "('n, 'w) env \<Rightarrow> 'w action \<Rightarrow> ('n, 'w) sys \<Rightarrow> 'w action list \<times> ('n, 'w) sys" where
  "exec E (IStart key msg wait endFunc doneFunc) s = onMsgAndWait E key msg wait endFunc doneFunc s"
| "exec E (IAwait r) s = ([], s)"
| "exec E (IFirst c msg err) s = first_task c msg err s"
| "exec E (ITellNext c msg node rel) s = tellNext E c msg node (captured_val s rel) s"
| "exec E (IAround c orig msg relationType aops t) s = around_aop c orig msg relationType aops t s"
| "exec E (IOnMsg c msg) s = node_OnMsg E c msg s"
| "exec E (ICalls c calls pan) s =
     (case calls of
        [] \<Rightarrow> ([], s)
      | call # calls \<Rightarrow> (let (k, s) = do_call E c call s in (k @ [ICalls c calls pan], s)))"
| "exec E (IRecover c msg relationType) s = ([], s)"
| "exec E (ITellRels c msg err rels var) s = tell_rels E c msg err rels var s"
| "exec E (IDispatch c msg var nodes) s =
     (case nodes of
        [] \<Rightarrow> ([], s)
      | item # nodes \<Rightarrow> ([IDispatch c msg var nodes], dispatch1 E c msg var item s))"
| "exec E (IEnd c msg err relationType) s =
     (case dc_onEnd (ctx_at s c) of
        Some f \<Rightarrow> ([IEndFn f c msg err relationType, IDone c], s)
      | None \<Rightarrow> ([IPanic ''nil function''], s))"
| "exec E (IEndFn f c msg err relationType) s = end_fn_call E f c msg err relationType s"
| "exec E (IDone c) s = childDone c s"
| "exec E (ICompleted c) s = completed c s"
| "exec E (ISetDone c f) s = set_done c f s"
| "exec E (IDoneFn f) s = done_fn_call E f s"
| "exec E (IClose r) s =
     (if EvClosed r \<in> set (s_trace s) then ([IPanic ''close of closed channel''], s)
      else ([], emit (EvClosed r) s))"
| "exec E (IGlobalEnd msg err) s = ([], emit (EvGlobalEnd msg err) s)"
| "exec E (IDebug c flowType msg relationType err) s =
     (let v = view_of s c
      in ([], emit (EvDebug (case cv_chain v of Some i \<Rightarrow> NodeId i | None \<Rightarrow> []) flowType
                     (case cv_self v of Some i \<Rightarrow> NodeId i | None \<Rightarrow> []) msg relationType err) s))"
| "exec E (IPanic e) s = ([IPanic e], s)"

text \<open>One step of a goroutine: a panic, of a node after its calls or of the engine, unwinds;
  everything else runs the first action.\<close>

fun exec_go ::
  "('n, 'w) env \<Rightarrow> 'w action list \<Rightarrow> ('n, 'w) sys \<Rightarrow> 'w action list \<times> ('n, 'w) sys" where
  "exec_go E [] s = ([], s)"
| "exec_go E (i # rest) s =
     (case i of
        IPanic e \<Rightarrow> unwind E e rest s
      | ICalls c [] (Some e) \<Rightarrow> unwind E e rest s
      | _ \<Rightarrow> (let (k, s) = exec E i s in (k @ rest, s)))"

definition runnable :: "('n, 'w) sys \<Rightarrow> 'w action list \<Rightarrow> bool" where
  "runnable s g =
     (case g of [] \<Rightarrow> False | IAwait r # _ \<Rightarrow> EvClosed r \<in> set (s_trace s) | _ \<Rightarrow> True)"

definition step_at :: "('n, 'w) env \<Rightarrow> nat \<Rightarrow> ('n, 'w) sys \<Rightarrow> ('n, 'w) sys" where
  "step_at E i s =
     (let (g, s') = exec_go E (s_gos s ! i) s in s'\<lparr>s_gos := (s_gos s')[i := g]\<rparr>)"

inductive step :: "('n, 'w) env \<Rightarrow> ('n, 'w) sys \<Rightarrow> ('n, 'w) sys \<Rightarrow> bool" for E where
  step: "i < length (s_gos s) \<Longrightarrow> runnable s (s_gos s ! i) \<Longrightarrow> s_crashed s = None \<Longrightarrow>
           step E s (step_at E i s)"

text \<open>A run of a given schedule, for concrete executions: goroutines that cannot move are
  skipped.\<close>

fun run :: "('n, 'w) env \<Rightarrow> nat list \<Rightarrow> ('n, 'w) sys \<Rightarrow> ('n, 'w) sys" where
  "run E [] s = s"
| "run E (i # is) s =
     run E is (if i < length (s_gos s) \<and> runnable s (s_gos s ! i) \<and> s_crashed s = None
               then step_at E i s else s)"

text \<open>\<open>OnMsg\<close> and \<open>OnMsgAndWait\<close> of an engine of the pool: a goroutine of the caller.
  \<open>RuleGo.OnMsg\<close> passes the message to every engine of the pool.\<close>

definition OnMsg ::
  "string \<Rightarrow> RuleMsg \<Rightarrow> end_fn option \<Rightarrow> done_fn option \<Rightarrow> ('n, 'w) sys \<Rightarrow> ('n, 'w) sys" where
  "OnMsg key msg endFunc doneFunc s = spawn [IStart key msg False endFunc doneFunc] s"

definition OnMsgAndWait ::
  "string \<Rightarrow> RuleMsg \<Rightarrow> end_fn option \<Rightarrow> done_fn option \<Rightarrow> ('n, 'w) sys \<Rightarrow> ('n, 'w) sys" where
  "OnMsgAndWait key msg endFunc doneFunc s = spawn [IStart key msg True endFunc doneFunc] s"

definition RuleGo_OnMsg :: "RuleMsg \<Rightarrow> ('n, 'w) sys \<Rightarrow> ('n, 'w) sys" where
  "RuleGo_OnMsg msg s = spawn (map (\<lambda>(key, _). IStart key msg False None None) (s_engines s)) s"

definition init_sys :: "('n, 'w) RuleGo \<Rightarrow> 'w \<Rightarrow> ('n, 'w) sys" where
  "init_sys g w = \<lparr>s_engines = g, s_heap = [], s_vars = [], s_gos = [], s_trace = [], s_world = w, s_tick = 0, s_crashed = None\<rparr>"

end
