(* ===== verification/Completion.thy ===== *)
theory Completion
  imports Run
begin

text \<open>
  When a run is complete. The engine counts, per context, the children that are not done
  (\<open>childReady\<close>, \<open>childDone\<close>) and calls the completion callback when the count of the root
  drops to zero. This theory shows that the count is right, under every interleaving, on chains
  in which a relation of a node has at most one target and every node answers a message once,
  and how it goes wrong otherwise: with two targets the first can be done before the second is
  counted.
\<close>

section \<open>Tokens\<close>

text \<open>
  A token of a context is an action that will, in the end, make the context done: either it
  calls \<open>childDone\<close> itself or it replaces the token by as many tokens as it adds to the
  waiting count.
\<close>

fun token :: "nat \<Rightarrow> 'w action \<Rightarrow> nat" where
  "token c (IFirst c' _ _) = of_bool (c' = c)"
| "token c (ITellNext c' _ _ _) = of_bool (c' = c)"
| "token c (IAround c' _ _ _ _ t) = of_bool (c' = c \<and> t)"
| "token c (IOnMsg c' _) = of_bool (c' = c)"
| "token c (ICalls c' calls pan) = (if c' = c then length calls + (if pan = None then 0 else 1) else 0)"
| "token c (ITellRels c' _ _ rels _) = (if c' = c then length rels else 0)"
| "token c (IDispatch c' _ _ nodes) = (if c' = c then length nodes else 0)"
| "token c (IEnd c' _ _ _) = of_bool (c' = c)"
| "token c (IDone c') = of_bool (c' = c)"
| "token c _ = 0"

text \<open>The tokens with which the node of the context itself is still running.\<close>

fun running :: "nat \<Rightarrow> 'w action \<Rightarrow> bool" where
  "running c (IAround c' _ _ _ _ t) = (c' = c \<and> t)"
| "running c (IOnMsg c' _) = (c' = c)"
| "running c (ICalls c' calls pan) = (c' = c \<and> (calls \<noteq> [] \<or> pan \<noteq> None))"
| "running c (ITellRels c' _ _ rels _) = (c' = c \<and> rels \<noteq> [])"
| "running c (IDispatch c' _ _ nodes) = (c' = c \<and> nodes \<noteq> [])"
| "running c _ = False"

definition toks :: "nat \<Rightarrow> 'w action multiset \<Rightarrow> nat" where
  "toks c A = sum_mset (image_mset (token c) A)"

definition runs :: "nat \<Rightarrow> 'w action multiset \<Rightarrow> bool" where
  "runs c A = (\<exists>i \<in># A. running c i)"

lemma toks_simps [simp]:
  "toks c {#} = 0" "toks c (add_mset i A) = token c i + toks c A" "toks c (A + B) = toks c A + toks c B"
  by (simp_all add: toks_def)

lemma runs_simps [simp]:
  "\<not> runs c {#}" "runs c (add_mset i A) = (running c i \<or> runs c A)" "runs c (A + B) = (runs c A \<or> runs c B)"
  by (auto simp: runs_def)

lemma running_tok: "running c i \<Longrightarrow> 0 < token c i"
  by (cases i) auto

lemma runs_toks: "runs c A \<Longrightarrow> 0 < toks c A"
  by (induction A) (auto dest: running_tok)

section \<open>The counting invariant\<close>

text \<open>A heap is seen as the parents and waiting counts of its contexts. \<open>L\<close> is the set of
  contexts that are not done yet.\<close>

type_synonym cell = "nat option \<times> int"

definition kids :: "cell list \<Rightarrow> nat set \<Rightarrow> nat \<Rightarrow> nat" where
  "kids h L c = card {d \<in> L. fst (h ! d) = Some c}"

definition balanced :: "cell list \<Rightarrow> nat set \<Rightarrow> 'w action multiset \<Rightarrow> nat \<Rightarrow> bool" where
  "balanced h L A c =
     (0 \<le> snd (h ! c) \<and> snd (h ! c) < 2 ^ 31 \<and> int (toks c A + kids h L c) = max 1 (snd (h ! c)) \<and>
      (runs c A \<longrightarrow> snd (h ! c) = 0))"

definition core :: "cell list \<Rightarrow> nat set \<Rightarrow> 'w action multiset \<Rightarrow> bool" where
  "core h L A =
     (L \<subseteq> {..<length h} \<and>
      (\<forall>c \<in> L. case fst (h ! c) of Some p \<Rightarrow> p \<in> L \<and> p < c | None \<Rightarrow> c = 0) \<and>
      (\<forall>c \<in> L. balanced h L A c) \<and> (\<forall>c. c \<notin> L \<longrightarrow> toks c A = 0))"

lemma coreD:
  assumes "core h L A"
  shows "finite L" "c \<in> L \<Longrightarrow> c < length h" "c \<in> L \<Longrightarrow> balanced h L A c" "c \<notin> L \<Longrightarrow> toks c A = 0"
  using assms by (auto simp: core_def intro: finite_subset)

lemma core_live: "core h L (add_mset i A) \<Longrightarrow> 0 < token c i \<Longrightarrow> c \<in> L"
  using coreD(4) by fastforce

lemma core_parent: "core h L A \<Longrightarrow> d \<in> L \<Longrightarrow> fst (h ! d) = Some p \<Longrightarrow> p \<in> L \<and> p < d"
  by (fastforce simp: core_def)

lemma core_orphan: "core h L A \<Longrightarrow> d \<in> L \<Longrightarrow> fst (h ! d) = None \<Longrightarrow> d = 0"
  by (fastforce simp: core_def)

text \<open>Live contexts hang together: without the root there are none.\<close>

lemma core_root: "core h L A \<Longrightarrow> c \<in> L \<Longrightarrow> 0 \<in> L"
proof (induction c rule: less_induct)
  case (less c)
  then show ?case by (cases "fst (h ! c)") (force simp: core_def)+
qed

lemma core_empty: "core h L A \<Longrightarrow> 0 \<notin> L \<Longrightarrow> toks c A = 0"
  using core_root coreD(4) by metis

text \<open>An action is replaced by actions with the same tokens.\<close>

lemma core_swap:
  assumes "core h L (add_mset i A)" and "\<And>c. toks c K = token c i" and "\<And>c. runs c K \<Longrightarrow> running c i"
  shows "core h L (K + A)"
  using assms by (auto simp: core_def balanced_def)

lemma core_swap0:
  assumes "core h L A" and "\<And>c. toks c K = 0"
  shows "core h L (K + A)"
proof -
  have "\<not> runs c K" for c using assms(2) runs_toks by fastforce
  with assms show ?thesis by (auto simp: core_def balanced_def)
qed

text \<open>A node is entered: a context is created and the token of its parent becomes a child.\<close>

lemma core_enter:
  assumes core: "core h L (add_mset i A)" and i: "\<And>d. token d i = of_bool (d = c)"
    and K: "\<And>d. toks d K = of_bool (d = length h)"
  shows "core (h @ [(Some c, 0)]) (insert (length h) L) (K + A)"
proof -
  let ?n = "length h" and ?h = "h @ [(Some c, 0)]"
  from core i have c: "c \<in> L" by (intro core_live [OF core]) simp
  note lt = coreD(2) [OF core]
  have n: "?n \<notin> L" "toks ?n A = 0" using lt coreD(4) [OF core, of ?n] by auto
  have kids: "kids ?h (insert ?n L) d = kids h L d + of_bool (d = c)" for d
  proof -
    have "{e \<in> insert ?n L. fst (?h ! e) = Some d} = (if d = c then {?n} else {}) \<union> {e \<in> L. fst (h ! e) = Some d}"
      using lt by (auto simp: nth_append split: if_splits)
    then show ?thesis using n(1) coreD(1) [OF core] by (simp add: kids_def)
  qed
  have knil: "kids h L ?n = 0"
  proof -
    have "{d \<in> L. fst (h ! d) = Some ?n} = {}" using core_parent [OF core] n(1) by blast
    then show ?thesis by (simp only: kids_def card.empty)
  qed
  have rk: "runs d K \<Longrightarrow> d = ?n" for d using K [of d] runs_toks by fastforce
  have bal: "balanced ?h (insert ?n L) (K + A) d" if "d \<in> insert ?n L" for d
  proof (cases "d = ?n")
    case True
    then show ?thesis using n K knil lt [OF c] by (auto simp: balanced_def kids)
  next
    case False
    with that have d: "d \<in> L" by simp
    from coreD(3) [OF core d] False rk lt [OF d] i K show ?thesis
      by (auto simp: balanced_def kids nth_append)
  qed
  have par: "case fst (?h ! d) of Some p \<Rightarrow> p \<in> insert ?n L \<and> p < d | None \<Rightarrow> d = 0" if "d \<in> insert ?n L" for d
    using that core c lt by (auto simp: core_def nth_append split: option.splits if_splits)
  have "toks d (K + A) = 0" if "d \<notin> insert ?n L" for d
    using that coreD(4) [OF core, of d] K by auto
  with bal par lt show ?thesis by (auto simp: core_def less_Suc_eq)
qed

text \<open>A message is handed to \<open>k\<close> targets: the waiting count becomes \<open>k\<close>.\<close>

lemma core_dispatch:
  assumes core: "core h L (add_mset i A)" and i: "\<And>d. token d i = of_bool (d = c)" and r: "running c i"
    and K: "\<And>d. toks d K = of_bool (d = c) * k" "\<And>d. \<not> runs d K" and k: "0 < k" "int k < 2 ^ 31"
  shows "core (h[c := (fst (h ! c), int k)]) L (K + A) \<and> snd (h ! c) = 0"
proof -
  let ?h = "h[c := (fst (h ! c), int k)]"
  from core i have c: "c \<in> L" by (intro core_live [OF core]) simp
  note lt = coreD(2) [OF core] and bal = coreD(3) [OF core]
  from bal [OF c] r i have 0: "snd (h ! c) = 0" "toks c A = 0" "kids h L c = 0" by (auto simp: balanced_def)
  then have nr: "\<not> runs c A" using runs_toks by fastforce
  have p: "fst (?h ! d) = fst (h ! d)" for d
    using lt [OF c] by (cases "d = c") auto
  then have kids: "kids ?h L d = kids h L d" for d by (simp add: kids_def)
  have "balanced ?h L (K + A) d" if "d \<in> L" for d
    using bal [OF that] 0 nr i K k lt [OF c] by (cases "d = c") (auto simp: balanced_def kids)
  moreover have "toks d (K + A) = 0" if "d \<notin> L" for d
    using that c coreD(4) [OF core, of d] K by auto
  ultimately show ?thesis using core 0 by (simp add: core_def p)
qed

text \<open>A child is done, but not the last one.\<close>

lemma core_done_more:
  assumes core: "core h L (add_mset i A)" and i: "\<And>d. token d i = of_bool (d = c)" and w: "1 < snd (h ! c)"
  shows "core (h[c := (fst (h ! c), snd (h ! c) - 1)]) L A"
proof -
  let ?h = "h[c := (fst (h ! c), snd (h ! c) - 1)]"
  from core i have c: "c \<in> L" by (intro core_live [OF core]) simp
  note lt = coreD(2) [OF core] and bal = coreD(3) [OF core]
  have p: "fst (?h ! d) = fst (h ! d)" for d
    using lt [OF c] by (cases "d = c") auto
  then have kids: "kids ?h L d = kids h L d" for d by (simp add: kids_def)
  have "balanced ?h L A d" if "d \<in> L" for d
    using bal [OF that] i w lt [OF c] by (cases "d = c") (auto simp: balanced_def kids)
  moreover have "toks d A = 0" if "d \<notin> L" for d
    using that coreD(4) [OF core, of d] by auto
  ultimately show ?thesis using core by (simp add: core_def p)
qed

text \<open>The last token of a context is used up: the context is done and its parent, if any,
  gets a token instead of a child.\<close>

lemma core_done_last:
  assumes core: "core h L (add_mset i A)" and i: "\<And>d. token d i = of_bool (d = c)" and w: "snd (h ! c) \<le> 1"
    and K: "\<And>d. toks d K = of_bool (Some d = fst (h ! c))" "\<And>d. \<not> runs d K"
    and h: "length h' = length h" "\<And>d. d \<noteq> c \<Longrightarrow> h' ! d = h ! d"
  shows "core h' (L - {c}) (K + A)"
proof -
  from core i have c: "c \<in> L" by (intro core_live [OF core]) simp
  note lt = coreD(2) [OF core] and bal = coreD(3) [OF core] and par = core_parent [OF core]
  from bal [OF c] i w have 0: "toks c A = 0" "kids h L c = 0" by (auto simp: balanced_def)
  then have none: "fst (h ! d) \<noteq> Some c" if "d \<in> L" for d
    using that coreD(1) [OF core] by (auto simp: kids_def)
  have kids: "kids h' (L - {c}) d + of_bool (Some d = fst (h ! c)) = kids h L d" if "d \<noteq> c" for d
  proof -
    define S where "S = {e \<in> L. fst (h ! e) = Some d}"
    have 1: "{e \<in> L - {c}. fst (h' ! e) = Some d} = S - {c}" using h by (auto simp: S_def)
    have 2: "finite S" using coreD(1) [OF core] by (simp add: S_def)
    have 3: "c \<in> S \<longleftrightarrow> Some d = fst (h ! c)" using c by (auto simp: S_def)
    have "card (S - {c}) + of_bool (Some d = fst (h ! c)) = card S"
    proof (cases "c \<in> S")
      case True
      then show ?thesis using 3 card_Suc_Diff1 [OF 2 True] by simp
    next
      case False
      with 3 show ?thesis by simp
    qed
    then show ?thesis by (simp only: kids_def 1 S_def [symmetric])
  qed
  have "balanced h' (L - {c}) (K + A) d" if "d \<in> L - {c}" for d
  proof -
    from that have d: "d \<in> L" "d \<noteq> c" by auto
    from bal [OF d(1)] kids [OF d(2)] i K d h show ?thesis by (auto simp: balanced_def)
  qed
  moreover have "toks d (K + A) = 0" if "d \<notin> L - {c}" for d
  proof (cases "d = c")
    case True
    with 0 K par [OF c, of c] show ?thesis by auto
  next
    case False
    with that have "d \<notin> L" by auto
    with coreD(4) [OF core this] K par [OF c, of d] show ?thesis by auto
  qed
  moreover have "case fst (h' ! d) of Some p \<Rightarrow> p \<in> L - {c} \<and> p < d | None \<Rightarrow> d = 0" if "d \<in> L - {c}" for d
  proof (cases "fst (h ! d)")
    case None
    with that core_orphan [OF core] h show ?thesis by simp
  next
    case (Some p)
    with that par [of d p] none [of d] h show ?thesis by auto
  qed
  ultimately show ?thesis unfolding core_def using lt h by (intro conjI ballI allI impI) auto
qed

section \<open>Nodes that answer once\<close>

text \<open>An \<open>OnMsg\<close> answers once if it makes one call that ends its branch or hands the message
  on over one relation, or puts it off with \<open>TellSelf\<close>, or panics before any call.\<close>

fun linear_calls :: "ctx_call list \<Rightarrow> bool" where
  "linear_calls [CTell _ _ None] = True"
| "linear_calls [CTell _ _ (Some [_])] = True"
| "linear_calls [CTellSelf _ _] = True"
| "linear_calls [CDoOnEnd _ _ _] = True"
| "linear_calls _ = False"

definition linear_result :: "ctx_call list \<times> string option \<Rightarrow> bool" where
  "linear_result res = (case snd res of None \<Rightarrow> linear_calls (fst res) | Some _ \<Rightarrow> fst res = [])"

type_synonym ('n, 'w) nodes = "(RuleNodeId, ('n, 'w) RuleNodeCtx) gomap"

definition nodes_linear :: "('n, 'w) env \<Rightarrow> ('n, 'w) nodes \<Rightarrow> bool" where
  "nodes_linear E N =
     (\<forall>nid c v m w. map_of N nid = Some c \<longrightarrow> linear_result (fst (n_OnMsg (env_ops E) (nc_Node c) v m w)))"

text \<open>An around advice that leaves the message to the engine, a pool that takes every task.\<close>

definition leaves_to_engine :: "'w aspect \<Rightarrow> bool" where
  "leaves_to_engine a =
     (case a_Around a of None \<Rightarrow> True | Some f \<Rightarrow> \<forall>v m r w. \<exists>m' w'. f v m r w = ((m', True, []), w'))"

definition accepts :: "('w \<Rightarrow> bool \<times> 'w) option \<Rightarrow> bool" where
  "accepts P = (case P of None \<Rightarrow> True | Some f \<Rightarrow> \<forall>w. fst (f w))"

text \<open>A relation with at most one target, which is a node of the chain: no node has two
  connections of the same type, and none leads to a sub rule chain.\<close>

definition refs_ok :: "('n, 'w) nodes \<Rightarrow> node_ref list \<Rightarrow> bool" where
  "refs_ok N l = (length l \<le> 1 \<and> (\<forall>x \<in> set l. \<exists>nid. x = NodeRef nid \<and> map_of N nid \<noteq> None))"

definition routes_ok :: "(RuleNodeId, RuleNodeRelation list) gomap \<Rightarrow> bool" where
  "routes_ok R =
     (\<forall>nid rels. map_of R nid = Some rels \<longrightarrow>
        distinct (map RelationType rels) \<and> (\<forall>r \<in> set rels. NodeKind (OutId r) = NODE))"

text \<open>What is fixed during a run of one message.\<close>

record ('n, 'w) run_spec =
  rs_nodes :: "('n, 'w) nodes"
  rs_routes :: "(RuleNodeId, RuleNodeRelation list) gomap"
  rs_pool :: "('w \<Rightarrow> bool \<times> 'w) option"
  rs_key :: string
  rs_end :: "end_fn option"
  rs_done :: done_fn

definition chain_inv :: "('n, 'w) run_spec \<Rightarrow> ('n, 'w) sys \<Rightarrow> bool" where
  "chain_inv S s =
     (\<exists>e rc. Get (s_engines s) (rs_key S) = Some e \<and> re_root e = Some rc \<and>
        rc_nodes rc = rs_nodes S \<and> rc_nodeRoutes rc = rs_routes S \<and>
        (\<forall>k l. map_of (rc_relationCache rc) k = Some l \<longrightarrow> refs_ok (rs_nodes S) l))"

definition ctx_ok :: "('n, 'w) run_spec \<Rightarrow> nat \<Rightarrow> 'w DefaultRuleContext \<Rightarrow> bool" where
  "ctx_ok S c x =
     (dc_chain x = rs_key S \<and> dc_pool x = rs_pool S \<and> dc_onEnd x = Some (EngineEnd (rs_key S) 0 (rs_end S)) \<and>
      \<not> dc_skipTellNext x \<and> (\<forall>a \<in> set (dc_aroundAspects x). leaves_to_engine a) \<and> dc_isFirst x = (c = 0) \<and>
      (\<exists>nid. dc_self x = Some (NodeRef nid) \<and> map_of (rs_nodes S) nid \<noteq> None) \<and>
      dc_onAllNodeCompleted x = (if c = 0 then Some (rs_done S) else None))"

text \<open>The shapes of goroutines.\<close>

definition tail_ok :: "'w DefaultRuleContext list \<Rightarrow> nat \<Rightarrow> 'w action list \<Rightarrow> bool" where
  "tail_ok h c rest =
     (c < length h \<and>
      (rest = [] \<or> (\<exists>p m r. rest = [IRecover p m r] \<and> p < length h \<and> dc_parent (h ! c) = Some p)))"

definition user_end :: "end_fn option \<Rightarrow> bool" where
  "user_end f = (case f of None \<Rightarrow> True | Some (UserEnd _) \<Rightarrow> True | _ \<Rightarrow> False)"

definition user_done :: "done_fn option \<Rightarrow> bool" where
  "user_done f = (case f of None \<Rightarrow> True | Some (UserDone _) \<Rightarrow> True | _ \<Rightarrow> False)"

fun wf_act :: "('n, 'w) run_spec \<Rightarrow> 'w DefaultRuleContext list \<Rightarrow> 'w action \<Rightarrow> 'w action list \<Rightarrow> bool" where
  "wf_act S h (IStart _ _ _ _ _) rest = False"
| "wf_act S h (IAwait r) rest = (rest = [] \<and> r = 0 \<and> (\<exists>m df. rs_done S = EngineDone (rs_key S) 0 m True df))"
| "wf_act S h (IFirst c _ _) rest = (c = 0 \<and> rest = [])"
| "wf_act S h (ITellNext c _ ref _) rest =
     (c < length h \<and> rest = [] \<and> (\<exists>nid. ref = NodeRef nid \<and> map_of (rs_nodes S) nid \<noteq> None))"
| "wf_act S h (IAround c _ _ _ aops t) rest = (c \<noteq> 0 \<and> (\<forall>a \<in> set aops. leaves_to_engine a) \<and> t \<and> tail_ok h c rest)"
| "wf_act S h (IOnMsg c _) rest = (c \<noteq> 0 \<and> tail_ok h c rest)"
| "wf_act S h (ICalls c calls pan) rest =
     (c \<noteq> 0 \<and> c < length h \<and> (calls = [] \<and> pan = None \<or> linear_result (calls, pan)) \<and> (pan \<noteq> None \<longrightarrow> tail_ok h c rest))"
| "wf_act S h (IRecover _ _ _) rest = True"
| "wf_act S h (ITellRels c _ _ rels _) rest = (c \<noteq> 0 \<and> c < length h \<and> length rels \<le> 1)"
| "wf_act S h (IDispatch c _ _ nodes) rest = (c \<noteq> 0 \<and> c < length h \<and> refs_ok (rs_nodes S) nodes)"
| "wf_act S h (IEnd c _ _ _) rest = (c < length h \<and> rest = [])"
| "wf_act S h (IEndFn f c _ _ _) rest =
     (c < length h \<and> rest = [IDone c] \<and> (f = EngineEnd (rs_key S) 0 (rs_end S) \<or> (\<exists>k. f = UserEnd k)))"
| "wf_act S h (IDone c) rest = (c < length h)"
| "wf_act S h (ICompleted c) rest = (c < length h)"
| "wf_act S h (ISetDone c f) rest = (c = 0 \<and> f = rs_done S)"
| "wf_act S h (IDoneFn f) rest = (f = rs_done S \<or> (\<exists>k. f = UserDone k))"
| "wf_act S h (IClose r) rest = (r = 0)"
| "wf_act S h (IGlobalEnd _ _) rest = True"
| "wf_act S h (IDebug _ _ _ _ _) rest = True"
| "wf_act S h (IPanic _) rest = False"

fun wf_go :: "('n, 'w) run_spec \<Rightarrow> 'w DefaultRuleContext list \<Rightarrow> 'w action list \<Rightarrow> bool" where
  "wf_go S h [] = True"
| "wf_go S h (i # rest) = (wf_act S h i rest \<and> wf_go S h rest)"

text \<open>Completion happens once, when the root is done; the channel of a waiting caller is
  closed after it.\<close>

fun waits :: "done_fn \<Rightarrow> bool" where
  "waits (EngineDone _ _ _ w _) = w"
| "waits _ = False"

definition acct :: "('n, 'w) run_spec \<Rightarrow> nat set \<Rightarrow> 'w action multiset \<Rightarrow> event list \<Rightarrow> bool \<Rightarrow> bool" where
  "acct S L A tr done =
     (count A (ICompleted 0) + count A (ISetDone 0 (rs_done S)) = of_bool (0 \<notin> L \<and> \<not> done) \<and> (done \<longrightarrow> 0 \<notin> L) \<and>
      count A (IDoneFn (rs_done S)) + count_list tr (EvCompleted (rs_key S) 0) = of_bool done \<and>
      count A (IClose 0) + count_list tr (EvClosed 0) =
        (if waits (rs_done S) then count_list tr (EvCompleted (rs_key S) 0) else 0))"

fun work_event :: "event \<Rightarrow> bool" where
  "work_event (EvOnMsg _ _) = True"
| "work_event (EvEngineEnd _ _ _ _ _ _) = True"
| "work_event (EvUserEnd _ _ _ _ _) = True"
| "work_event _ = False"

definition quiet_after :: "event \<Rightarrow> event list \<Rightarrow> bool" where
  "quiet_after ev tr = (\<forall>pre post. tr = pre @ ev # post \<longrightarrow> (\<forall>x \<in> set post. \<not> work_event x))"

definition cells :: "'w DefaultRuleContext list \<Rightarrow> cell list" where
  "cells h = map (\<lambda>x. (dc_parent x, dc_waitingCount x)) h"

definition inv_at ::
  "('n, 'w) run_spec \<Rightarrow> ('n, 'w) sys \<Rightarrow> nat set \<Rightarrow> 'w action multiset \<Rightarrow> bool" where
  "inv_at S s L A =
     (0 < length (s_heap s) \<and> (\<forall>c < length (s_heap s). ctx_ok S c (s_heap s ! c)) \<and>
      core (cells (s_heap s)) L A \<and> acct S L A (s_trace s) (dc_onAllNodeCompletedDone (s_heap s ! 0)) \<and>
      chain_inv S s \<and> quiet_after (EvCompleted (rs_key S) 0) (s_trace s))"

definition spec_ok :: "('n, 'w) env \<Rightarrow> ('n, 'w) run_spec \<Rightarrow> bool" where
  "spec_ok E S =
     (nodes_linear E (rs_nodes S) \<and> routes_ok (rs_routes S) \<and> accepts (rs_pool S) \<and>
      user_end (rs_end S) \<and> (\<exists>m w df. rs_done S = EngineDone (rs_key S) 0 m w df \<and> user_done df))"

lemma quiet_after_snoc:
  "quiet_after ev tr \<Longrightarrow> (work_event x \<Longrightarrow> ev \<notin> set tr) \<Longrightarrow> quiet_after ev (tr @ [x])"
  unfolding quiet_after_def
  by (auto simp: append_eq_append_conv2 append_eq_Cons_conv Cons_eq_append_conv) (metis append.assoc append_Cons in_set_conv_decomp)+

lemma nth_cells [simp]: "c < length h \<Longrightarrow> cells h ! c = (dc_parent (h ! c), dc_waitingCount (h ! c))"
  by (simp add: cells_def)

lemma length_cells [simp]: "length (cells h) = length h"
  by (simp add: cells_def)

lemma cells_update:
  "c < length h \<Longrightarrow> cells (h[c := x]) = (cells h)[c := (dc_parent x, dc_waitingCount x)]"
  by (simp add: cells_def map_update)

section \<open>What the operations add to a state\<close>

definition ext :: "('n, 'w) sys \<Rightarrow> ('n, 'w) sys \<Rightarrow> 'w action list list \<Rightarrow> bool" where
  "ext s t news =
     (s_heap t = s_heap s \<and> s_engines t = s_engines s \<and> s_trace t = s_trace s \<and>
      s_gos t = s_gos s @ news \<and> s_crashed t = s_crashed s)"

fun silent :: "'w action list \<Rightarrow> bool" where
  "silent [IDebug _ _ _ _ _] = True"
| "silent [IGlobalEnd _ _] = True"
| "silent _ = False"

lemma ext_refl: "ext s s []"
  by (simp add: ext_def)

lemma ext_trans: "ext s t n \<Longrightarrow> ext t u m \<Longrightarrow> ext s u (n @ m)"
  by (simp add: ext_def)

lemma ext_world [simp]: "ext s (t\<lparr>s_world := w\<rparr>) n = ext s t n" "ext (s\<lparr>s_world := w\<rparr>) t n = ext s t n"
  by (simp_all add: ext_def)

lemma ext_tick [simp]: "ext s (t\<lparr>s_tick := w\<rparr>) n = ext s t n" "ext (s\<lparr>s_tick := w\<rparr>) t n = ext s t n"
  by (simp_all add: ext_def)

lemma ext_vars [simp]: "ext (s\<lparr>s_vars := w\<rparr>) t n = ext s t n"
  by (simp add: ext_def)

lemma SubmitTack_ext:
  "accepts (dc_pool (ctx_at s c)) \<Longrightarrow> ext s (SubmitTack c task s) [task]"
  by (auto simp: SubmitTack_def accepts_def ext_def spawn_def Let_def split: option.splits prod.splits)
     (metis fst_conv)+

lemma ctx_at_ext: "ext s t n \<Longrightarrow> ctx_at t c = ctx_at s c"
  by (simp add: ext_def ctx_at_def)

lemma copy_msg_ext: "copy_msg E m s = (m', t) \<Longrightarrow> ext s t []"
  by (auto simp: copy_msg_def ext_refl)

lemma onDebug_ext:
  assumes "accepts (dc_pool (ctx_at s c))"
  shows "\<exists>news. ext s (onDebug E c fl m r e s) news \<and> (\<forall>g \<in> set news. silent g)"
proof (cases "cv_debug (view_of s c)")
  case True
  obtain m' t where m: "copy_msg E m s = (m', t)" by force
  note x = copy_msg_ext [OF m]
  with assms have "accepts (dc_pool (ctx_at t c))" by (simp add: ctx_at_ext)
  from ext_trans [OF x SubmitTack_ext [OF this]] True m show ?thesis
    by (intro exI [of _ "[[IDebug c fl m' r e]]"]) (simp add: onDebug_def)
next
  case False
  then show ?thesis by (intro exI [of _ "[]"]) (simp add: onDebug_def ext_refl)
qed

lemma before_aop_ext:
  "accepts (dc_pool (ctx_at s c)) \<Longrightarrow> before_aop E c r aops m s = (m', t) \<Longrightarrow>
     \<exists>news. ext s t news \<and> (\<forall>g \<in> set news. silent g)"
proof (induction E c r aops m s rule: before_aop.induct)
  case (1 E c r m s)
  then show ?case using ext_refl by fastforce
next
  case (2 E c r aop aops m s)
  then show ?case
    by (auto split: option.splits if_splits prod.splits simp: ctx_at_def)
next
  case (3 E c r aops m s)
  from onDebug_ext [OF 3(2)] obtain n where
    n: "ext s (onDebug E c In m r None s) n" "\<forall>g \<in> set n. silent g" by blast
  with 3(2) have "accepts (dc_pool (ctx_at (onDebug E c In m r None s) c))" by (simp add: ctx_at_ext)
  from 3(1) [OF this] 3(3) obtain k where "ext (onDebug E c In m r None s) t k" "\<forall>g \<in> set k. silent g" by auto
  with n ext_trans show ?case by (intro exI [of _ "n @ k"]) auto
qed

lemma after_aop_ext:
  "accepts (dc_pool (ctx_at s c)) \<Longrightarrow> after_aop E c e r aops m s = (m', t) \<Longrightarrow>
     \<exists>news. ext s t news \<and> (\<forall>g \<in> set news. silent g)"
proof (induction E c e r aops m s rule: after_aop.induct)
  case (1 E c e r m s)
  then show ?case using ext_refl by fastforce
next
  case (2 E c e r aop aops m s)
  then show ?case
    by (auto split: option.splits if_splits prod.splits simp: ctx_at_def)
next
  case (3 E c e r aops m s)
  from onDebug_ext [OF 3(2)] obtain n where
    n: "ext s (onDebug E c Out m r e s) n" "\<forall>g \<in> set n. silent g" by blast
  with 3(2) have "accepts (dc_pool (ctx_at (onDebug E c Out m r e s) c))" by (simp add: ctx_at_ext)
  from 3(1) [OF this] 3(3) obtain k where "ext (onDebug E c Out m r e s) t k" "\<forall>g \<in> set k. silent g" by auto
  with n ext_trans show ?case by (intro exI [of _ "n @ k"]) auto
qed

lemma DoOnEnd_ext:
  assumes "accepts (dc_pool (ctx_at s c))" and "dc_onEnd (ctx_at s c) = Some f"
  obtains t news where "DoOnEnd c m e r s = ([], t)" "ext s t (news @ [[IEnd c m e r]])" "\<forall>g \<in> set news. silent g"
proof -
  define u where "u = (if cfg_OnEnd (dc_config (ctx_at s c)) then SubmitTack c [IGlobalEnd m e] s else s)"
  have "\<exists>n. ext s u n \<and> (\<forall>g \<in> set n. silent g)"
    using SubmitTack_ext [OF assms(1), of "[IGlobalEnd m e]"] ext_refl [of s]
    by (cases "cfg_OnEnd (dc_config (ctx_at s c))") (auto simp: u_def)
  then obtain n where n: "ext s u n" "\<forall>g \<in> set n. silent g" by blast
  then have "ctx_at u c = ctx_at s c" by (simp add: ctx_at_ext)
  with assms have "DoOnEnd c m e r s = ([], SubmitTack c [IEnd c m e r] u)" "accepts (dc_pool (ctx_at u c))"
    by (simp_all add: DoOnEnd_def u_def [symmetric])
  with that n ext_trans [OF n(1) SubmitTack_ext] show ?thesis by blast
qed

lemma dispatch1_effect:
  assumes "accepts (dc_pool (ctx_at s c))" and "c < length (s_heap s)"
  obtains m' where "ext (childReady c s) (dispatch1 E c m r x s) [[ITellNext c m' x (LoopVar r)]]"
proof -
  obtain m' t where m: "copy_msg E m (childReady c s) = (m', t)" by force
  note x = copy_msg_ext [OF m]
  with assms have "accepts (dc_pool (ctx_at t c))"
    by (simp add: ctx_at_ext [OF x]) (simp add: ctx_at_def childReady_def upd_ctx_def)
  with m that ext_trans [OF x SubmitTack_ext] show ?thesis by (fastforce simp: dispatch1_def)
qed

text \<open>Looking up the targets of a relation.\<close>

lemma map_filter_at_most_one:
  assumes "distinct (map f xs)" and "\<And>x. g x \<noteq> None \<Longrightarrow> f x = a"
  shows "length (List.map_filter g xs) \<le> 1"
  using assms
proof (induction xs)
  case (Cons x xs)
  show ?case
  proof (cases "g x")
    case (Some y)
    then have "f x = a" using Cons.prems(2) by simp
    then have "f z \<noteq> a" if "z \<in> set xs" for z using that Cons.prems(1) by (auto simp: image_iff)
    then have "g z = None" if "z \<in> set xs" for z using that Cons.prems(2) [of z] by (cases "g z") auto
    then have "List.map_filter g xs = []" by (auto simp: map_filter_def filter_empty_conv)
    then show ?thesis using Some by (simp add: map_filter_simps)
  qed (use Cons in \<open>simp add: map_filter_simps\<close>)
qed (simp add: map_filter_simps)

lemma refs_ok_route_next:
  assumes "routes_ok (rc_nodeRoutes rc)"
  shows "refs_ok (rc_nodes rc) (route_next pool nid rel rc)"
proof (cases "GetNodeRoutes nid rc")
  case None
  then show ?thesis by (simp add: route_next_def refs_ok_def map_filter_simps)
next
  case (Some rels)
  with assms have d: "distinct (map RelationType rels)" and k: "\<forall>r \<in> set rels. NodeKind (OutId r) = NODE"
    by (auto simp: GetNodeRoutes_def routes_ok_def)
  have "length (route_next pool nid rel rc) \<le> 1"
    unfolding route_next_def Some option.case
    by (rule map_filter_at_most_one [OF d, of _ rel]) (simp split: if_splits)
  moreover have "\<exists>nid. x = NodeRef nid \<and> map_of (rc_nodes rc) nid \<noteq> None"
    if "x \<in> set (route_next pool nid rel rc)" for x
    using that k Some
    by (auto simp: route_next_def map_filter_def GetNodeById_def split: if_splits option.splits)
  ultimately show ?thesis by (simp add: refs_ok_def)
qed

lemma getNextNodes_effect:
  assumes S: "routes_ok (rs_routes S)" and inv: "chain_inv S s" and c: "ctx_ok S c (ctx_at s c)"
  obtains nodes t where "getNextNodes c rel s = ((nodes, nodes \<noteq> []), t)" "refs_ok (rs_nodes S) nodes"
    "chain_inv S t" "s_heap t = s_heap s" "s_gos t = s_gos s" "s_trace t = s_trace s" "s_crashed t = s_crashed s"
proof -
  from inv obtain e rc where e: "Get (s_engines s) (rs_key S) = Some e" "re_root e = Some rc"
    "rc_nodes rc = rs_nodes S" "rc_nodeRoutes rc = rs_routes S"
    and cache: "\<And>k l. map_of (rc_relationCache rc) k = Some l \<Longrightarrow> refs_ok (rs_nodes S) l"
    unfolding chain_inv_def by blast
  from c obtain nid where nid: "dc_self (ctx_at s c) = Some (NodeRef nid)" "dc_chain (ctx_at s c) = rs_key S"
    by (auto simp: ctx_ok_def)
  let ?p = "pool_of (s_engines s)"
  obtain nodes rc' where g: "GetNextNodes ?p nid rel rc = ((nodes, nodes \<noteq> []), rc')"
    "refs_ok (rs_nodes S) nodes" "rc_nodes rc' = rs_nodes S" "rc_nodeRoutes rc' = rs_routes S"
    "\<And>k l. map_of (rc_relationCache rc') k = Some l \<Longrightarrow> refs_ok (rs_nodes S) l"
  proof (cases "map_of (rc_relationCache rc) (nid, rel)")
    case (Some l)
    with GetNextNodes_hit [OF Some, of ?p] cache e that show ?thesis by blast
  next
    case None
    have "refs_ok (rs_nodes S) (route_next ?p nid rel rc)"
      using refs_ok_route_next [of rc ?p nid rel] S e by simp
    with cache e show ?thesis
      by (intro that [OF GetNextNodes_miss [OF None, of ?p]]) (auto split: if_splits)
  qed
  let ?t = "s\<lparr>s_engines := Store (rs_key S) (e\<lparr>re_root := Some rc'\<rparr>) (s_engines s)\<rparr>"
  have r: "getNextNodes c rel s = ((nodes, nodes \<noteq> []), ?t)"
    using e nid g(1) by (simp add: getNextNodes_def ref_id_def Let_def)
  have "chain_inv S ?t"
    using g by (auto simp: chain_inv_def engine_pool.lookup_put)
  then show ?thesis by (intro that [OF r g(2)]) auto
qed

section \<open>The invariant is kept\<close>

fun special :: "('n, 'w) run_spec \<Rightarrow> 'w action \<Rightarrow> bool" where
  "special S (ICompleted c) = (c = 0)"
| "special S (ISetDone c f) = (c = 0 \<and> f = rs_done S)"
| "special S (IDoneFn f) = (f = rs_done S)"
| "special S (IClose r) = (r = 0)"
| "special S _ = False"

definition plain :: "('n, 'w) run_spec \<Rightarrow> 'w action multiset \<Rightarrow> bool" where
  "plain S K = (\<forall>x \<in># K. \<not> special S x)"

lemma plain_simps [simp]:
  "plain S {#}" "plain S (add_mset i K) = (\<not> special S i \<and> plain S K)" "plain S (K + M) = (plain S K \<and> plain S M)"
  by (auto simp: plain_def)

lemma plain_count:
  assumes "plain S K"
  shows "count K (ICompleted 0) = 0" "count K (ISetDone 0 (rs_done S)) = 0" "count K (IDoneFn (rs_done S)) = 0" "count K (IClose 0) = 0"
  using assms by (auto simp: plain_def count_eq_zero_iff)

lemma acct_plain: "plain S K \<Longrightarrow> acct S L (K + B) tr d = acct S L B tr d"
  by (simp add: acct_def plain_count)

lemma acct_add: "\<not> special S i \<Longrightarrow> acct S L (add_mset i B) tr d = acct S L B tr d"
  using acct_plain [of S "{#i#}" L B tr d] by simp

lemma silent_facts:
  assumes "\<forall>g \<in> set news. silent g"
  shows "toks c (mset (concat news)) = 0" "plain S (mset (concat news))" "g \<in> set news \<Longrightarrow> wf_go S h g"
proof -
  have 1: "silent g \<Longrightarrow> toks c (mset g) = 0 \<and> plain S (mset g) \<and> wf_go S h g" for g :: "'a action list"
    by (cases g rule: silent.cases) auto
  from assms show "toks c (mset (concat news)) = 0" "plain S (mset (concat news))"
    by (induction news) (auto dest: 1)
  from assms show "g \<in> set news \<Longrightarrow> wf_go S h g" using 1 by blast
qed

lemma toks0_runs: "toks c K = 0 \<Longrightarrow> \<not> runs c K"
  using runs_toks by fastforce

lemma chain_inv_ext: "ext s t news \<Longrightarrow> chain_inv S t = chain_inv S s"
  by (simp add: chain_inv_def ext_def)

lemma inv_at_ext: "ext s t news \<Longrightarrow> inv_at S t L A = inv_at S s L A"
  by (simp add: inv_at_def chain_inv_ext) (simp add: ext_def)

text \<open>The frame for actions that only replace themselves.\<close>

lemma inv_swap:
  assumes "inv_at S s L (add_mset i B)" and "\<And>c. toks c K = token c i" and "\<And>c. runs c K \<Longrightarrow> running c i"
    and "\<not> special S i" and "plain S K"
  shows "inv_at S s L (K + B)"
  using assms core_swap [of _ L i B K] by (auto simp: inv_at_def acct_plain acct_add)

lemma inv_drop:
  assumes "inv_at S s L (add_mset i B)" and "\<And>c. token c i = 0" and "\<not> special S i"
  shows "inv_at S s L B"
  using inv_swap [OF assms(1), of "{#}"] assms by simp

lemma inv_live:
  assumes "inv_at S s L (add_mset i B)" and "0 < token c i"
  shows "c \<in> L" "0 \<in> L" "c < length (s_heap s)"
  using assms core_live [of "cells (s_heap s)" L i B c] core_root [of "cells (s_heap s)" L "add_mset i B" c]
    coreD(2) [of "cells (s_heap s)" L "add_mset i B" c]
  by (auto simp: inv_at_def)

lemma acct_live: "acct S L A tr d \<Longrightarrow> 0 \<in> L \<Longrightarrow> \<not> d \<and> EvCompleted (rs_key S) 0 \<notin> set tr"
  by (auto simp: acct_def count_list_0_iff)

lemma inv_emit:
  assumes "inv_at S s L A" and "work_event ev \<Longrightarrow> 0 \<in> L"
    and "ev \<noteq> EvCompleted (rs_key S) 0" and "ev \<noteq> EvClosed 0"
  shows "inv_at S (emit ev s) L A"
proof -
  have "quiet_after (EvCompleted (rs_key S) 0) (s_trace s @ [ev])"
    using assms by (intro quiet_after_snoc) (auto simp: inv_at_def dest: acct_live)
  moreover have "acct S L A (s_trace s @ [ev]) d = acct S L A (s_trace s) d" for d
    using assms(3,4) by (simp add: acct_def)
  ultimately show ?thesis using assms(1) by (simp add: inv_at_def emit_def chain_inv_def)
qed

lemma inv_ctx: "inv_at S s L A \<Longrightarrow> c < length (s_heap s) \<Longrightarrow> ctx_ok S c (ctx_at s c)"
  by (simp add: inv_at_def ctx_at_def)

definition grows :: "('n, 'w) sys \<Rightarrow> ('n, 'w) sys \<Rightarrow> bool" where
  "grows s t =
     (length (s_heap s) \<le> length (s_heap t) \<and>
      (\<forall>c < length (s_heap s). dc_parent (s_heap t ! c) = dc_parent (s_heap s ! c)))"

lemma grows_refl [simp]: "grows s s"
  by (simp add: grows_def)

lemma grows_same: "s_heap t = s_heap s \<Longrightarrow> grows s t"
  by (simp add: grows_def)

lemma wf_act_grows: "wf_act S (s_heap s) i rest \<Longrightarrow> grows s t \<Longrightarrow> wf_act S (s_heap t) i rest"
  by (cases i) (auto simp: grows_def tail_ok_def)

lemma wf_go_grows: "wf_go S (s_heap s) g \<Longrightarrow> grows s t \<Longrightarrow> wf_go S (s_heap t) g"
  by (induction g) (auto intro: wf_act_grows)

text \<open>What a step of one goroutine \<open>g\<close> must establish, with \<open>B\<close> the actions of the others.\<close>

definition stepped ::
  "('n, 'w) run_spec \<Rightarrow> ('n, 'w) sys \<Rightarrow> ('n, 'w) sys \<Rightarrow> 'w action list \<Rightarrow> 'w action multiset \<Rightarrow> bool" where
  "stepped S s t g B =
     (\<exists>news L. s_gos t = s_gos s @ news \<and> grows s t \<and> s_crashed t = s_crashed s \<and>
        inv_at S t L (mset g + mset (concat news) + B) \<and>
        wf_go S (s_heap t) g \<and> (\<forall>n \<in> set news. wf_go S (s_heap t) n))"

lemma steppedI:
  assumes "inv_at S t L (mset g + mset (concat news) + B)" and "s_gos t = s_gos s @ news"
    and "grows s t" and "s_crashed t = s_crashed s" and "wf_go S (s_heap t) g" and "\<And>n. n \<in> set news \<Longrightarrow> wf_go S (s_heap t) n"
  shows "stepped S s t g B"
  using assms unfolding stepped_def by blast

lemma stepped_swap:
  assumes "inv_at S s L (add_mset i B)" and "ext s t news"
    and "\<And>c. toks c (mset k + mset (concat news)) = token c i"
    and "\<And>c. runs c (mset k + mset (concat news)) \<Longrightarrow> running c i"
    and "\<not> special S i" and "plain S (mset k + mset (concat news))"
    and "B = mset rest + B'" and "wf_go S (s_heap s) (k @ rest)" and "\<And>n. n \<in> set news \<Longrightarrow> wf_go S (s_heap s) n"
  shows "stepped S s t (k @ rest) B'"
proof (rule steppedI [where news = news and L = L])
  from inv_swap [OF assms(1,3-6)] assms(7)
  have "inv_at S s L (mset (k @ rest) + mset (concat news) + B')" by (simp add: ac_simps)
  with assms(2) show "inv_at S t L (mset (k @ rest) + mset (concat news) + B')" by (simp only: inv_at_ext)
qed (use assms in \<open>auto simp: ext_def grows_def\<close>)

lemma spec_okD:
  assumes "spec_ok E S"
  shows "nodes_linear E (rs_nodes S)" "routes_ok (rs_routes S)" "accepts (rs_pool S)"
    "user_end (rs_end S)" "\<exists>m w df. rs_done S = EngineDone (rs_key S) 0 m w df \<and> user_done df"
  using assms by (auto simp: spec_ok_def)

lemma ctx_okD:
  assumes "ctx_ok S c x"
  shows "dc_chain x = rs_key S" "dc_pool x = rs_pool S" "dc_onEnd x = Some (EngineEnd (rs_key S) 0 (rs_end S))"
    "\<not> dc_skipTellNext x" "a \<in> set (dc_aroundAspects x) \<Longrightarrow> leaves_to_engine a" "dc_isFirst x = (c = 0)"
    "\<exists>nid. dc_self x = Some (NodeRef nid) \<and> map_of (rs_nodes S) nid \<noteq> None"
    "dc_onAllNodeCompleted x = (if c = 0 then Some (rs_done S) else None)"
  using assms by (auto simp: ctx_ok_def)

lemma stepped_drop:
  assumes "inv_at S s L (add_mset i (mset rest + B))" and "\<And>c. token c i = 0" and "\<not> special S i"
    and "wf_go S (s_heap s) rest"
  shows "stepped S s s rest B"
  using assms stepped_swap [OF assms(1) ext_refl, of "[]" rest B] by simp

lemma stepped_emit:
  assumes "inv_at S s L (add_mset i (mset rest + B))" and "\<And>c. token c i = 0" and "\<not> special S i"
    and "wf_go S (s_heap s) rest" and "work_event ev \<Longrightarrow> 0 \<in> L"
    and "ev \<noteq> EvCompleted (rs_key S) 0" and "ev \<noteq> EvClosed 0"
  shows "stepped S s (emit ev s) rest B"
  by (rule steppedI [where news = "[]" and L = L])
     (use inv_emit [OF inv_drop [OF assms(1-3)] assms(5-7)] assms(4) in \<open>simp_all add: emit_def grows_def\<close>)

lemma step_IFirst:
  assumes "inv_at S s L (add_mset (IFirst c m e) (mset rest + B))" and "wf_go S (s_heap s) (IFirst c m e # rest)"
    and "exec_go E (IFirst c m e # rest) s = (g, t)"
  shows "stepped S s t g B"
proof -
  from assms(2) have c: "c = 0" "rest = []" by auto
  with assms(1) have "0 < length (s_heap s)" by (simp add: inv_at_def)
  with ctx_okD(7) [OF inv_ctx [OF assms(1)]] obtain nid where
    "dc_self (ctx_at s 0) = Some (NodeRef nid)" "map_of (rs_nodes S) nid \<noteq> None" by blast
  with assms(3) c \<open>0 < length (s_heap s)\<close> show ?thesis
    using stepped_swap [OF assms(1) ext_refl, of "[ITellNext 0 m (NodeRef nid) (Const [])]" rest B]
    by (auto simp: first_task_def)
qed

lemma step_ITellNext:
  assumes S: "spec_ok E S" and inv: "inv_at S s L (add_mset (ITellNext c m ref q) (mset rest + B))"
    and wf: "wf_go S (s_heap s) (ITellNext c m ref q # rest)"
    and ex: "exec_go E (ITellNext c m ref q # rest) s = (g, t)"
  shows "stepped S s t g B"
proof -
  let ?n = "length (s_heap s)" and ?x = "NewNextNodeRuleContext c ref s"
  define r where "r = captured_val s q"
  define s1 where "s1 = s\<lparr>s_heap := s_heap s @ [?x]\<rparr>"
  from wf have c: "c < ?n" "rest = []" and ref: "\<exists>nid. ref = NodeRef nid \<and> map_of (rs_nodes S) nid \<noteq> None" by auto
  note x = ctx_okD [OF inv_ctx [OF inv c(1)]]
  have n0: "?n \<noteq> 0" using c by auto
  have ok: "ctx_ok S ?n ?x" using x ref n0 by (auto simp: ctx_ok_def NewNextNodeRuleContext_def Let_def)
  have at: "ctx_at s1 ?n = ?x" by (simp add: s1_def ctx_at_def)
  obtain m' u where b: "before_aop E ?n r (dc_beforeAspects ?x) m s1 = (m', u)" by force
  have "accepts (dc_pool (ctx_at s1 ?n))" using spec_okD(3) [OF S] ctx_okD(2) [OF ok] at by simp
  from before_aop_ext [OF this b] obtain news where news: "ext s1 u news" "\<forall>g \<in> set news. silent g" by blast
  have "ctx_at u ?n = ?x" using ctx_at_ext [OF news(1)] at by simp
  with ex b c at have g: "g = [IAround ?n m m' r (dc_aroundAspects ?x) True, IRecover c m r]" and t: "t = u"
    by (auto simp: tellNext_def executeAroundAop_def Let_def s1_def [symmetric] r_def [symmetric])
  let ?K = "mset g + mset (concat news)"
  have "core (cells (s_heap s)) L (add_mset (ITellNext c m ref q) B)"
    using inv c by (simp add: inv_at_def)
  then have "core (cells (s_heap s) @ [(Some c, 0)]) (insert ?n L) (?K + B)"
    using core_enter [of "cells (s_heap s)" L "ITellNext c m ref q" B c ?K]
      silent_facts(1) [OF news(2)] by (simp add: g)
  then have core: "core (cells (s_heap s1)) (insert ?n L) (?K + B)"
    by (simp add: s1_def cells_def NewNextNodeRuleContext_def Let_def)
  have "acct S (insert ?n L) (?K + B) (s_trace s) (dc_onAllNodeCompletedDone (s_heap s ! 0))"
  proof -
    have "acct S L B (s_trace s) (dc_onAllNodeCompletedDone (s_heap s ! 0))"
      using inv c by (simp add: inv_at_def acct_add)
    then have "acct S (insert ?n L) B (s_trace s) (dc_onAllNodeCompletedDone (s_heap s ! 0))"
      using n0 by (simp add: acct_def)
    moreover have "plain S ?K" using silent_facts(2) [OF news(2)] by (simp add: g)
    ultimately show ?thesis by (simp only: acct_plain)
  qed
  moreover have "\<forall>d < length (s_heap s1). ctx_ok S d (s_heap s1 ! d)"
    using inv ok by (auto simp: s1_def inv_at_def less_Suc_eq nth_append)
  moreover have "0 < length (s_heap s1)" "s_trace s1 = s_trace s" "s_heap s1 ! 0 = s_heap s ! 0"
    using n0 by (simp_all add: s1_def nth_append)
  moreover have "chain_inv S s1" using inv by (simp add: inv_at_def chain_inv_def s1_def)
  ultimately have "inv_at S s1 (insert ?n L) (?K + B)" using core inv by (simp add: inv_at_def)
  then have "inv_at S t (insert ?n L) (?K + B)" by (simp only: t inv_at_ext [OF news(1)])
  moreover have h: "s_heap t = s_heap s @ [?x]" "s_gos t = s_gos s @ news" "s_crashed t = s_crashed s"
    using news(1) by (simp_all add: t ext_def s1_def)
  moreover have "wf_go S (s_heap t) g"
    using c n0 ctx_okD(5) [OF ok] by (auto simp: g h tail_ok_def nth_append NewNextNodeRuleContext_def Let_def)
  ultimately show ?thesis
    using silent_facts(3) [OF news(2)]
    by (intro steppedI [where news = news and L = "insert ?n L"]) (auto simp: grows_def nth_append)
qed

lemma step_IAround:
  assumes inv: "inv_at S s L (add_mset (IAround c m0 m r aops tt) (mset rest + B))"
    and wf: "wf_go S (s_heap s) (IAround c m0 m r aops tt # rest)"
    and ex: "exec_go E (IAround c m0 m r aops tt # rest) s = (g, t)"
  shows "stepped S s t g B"
proof (cases aops)
  case Nil
  with ex wf show ?thesis using stepped_swap [OF inv ext_refl, of "[IOnMsg c m0]" rest B] by auto
next
  case (Cons a as)
  show ?thesis
  proof (cases "case a_Around a of None \<Rightarrow> True | Some f \<Rightarrow> \<not> a_PointCut a (view_of s c) m r (s_world s)")
    case True
    with Cons ex have "g = [IAround c m0 m r as tt] @ rest" "t = s" by (auto split: option.splits)
    with wf Cons show ?thesis using stepped_swap [OF inv ext_refl, of "[IAround c m0 m r as tt]" rest B] by auto
  next
    case False
    then obtain f where f: "a_Around a = Some f" "a_PointCut a (view_of s c) m r (s_world s)"
      by (auto split: option.splits)
    with wf Cons obtain m' w' where "f (view_of s c) m r (s_world s) = ((m', True, []), w')"
      by (fastforce simp: leaves_to_engine_def)
    with ex Cons f have "g = [ICalls c [] None, IAround c m0 m' r as tt] @ rest" and t: "t = s\<lparr>s_world := w'\<rparr>"
      by auto
    moreover have "ext s t []" by (simp add: t ext_refl)
    moreover have "c < length (s_heap s)" using wf by (simp add: tail_ok_def)
    ultimately show ?thesis
      using wf Cons stepped_swap [OF inv, of t "[]" "[ICalls c [] None, IAround c m0 m' r as tt]" rest B] by auto
  qed
qed

lemma step_IOnMsg:
  assumes S: "spec_ok E S" and inv: "inv_at S s L (add_mset (IOnMsg c m) (mset rest + B))"
    and wf: "wf_go S (s_heap s) (IOnMsg c m # rest)"
    and ex: "exec_go E (IOnMsg c m # rest) s = (g, t)"
  shows "stepped S s t g B"
proof -
  let ?s = "emit (EvOnMsg c m) s"
  from wf have c: "c < length (s_heap s)" "c \<noteq> 0" "tail_ok (s_heap s) c rest" by (simp_all add: tail_ok_def)
  from ctx_okD(1,7) [OF inv_ctx [OF inv c(1)]] obtain nid x where
    x: "dc_self (ctx_at s c) = Some (NodeRef nid)" "map_of (rs_nodes S) nid = Some x" "dc_chain (ctx_at s c) = rs_key S"
    by auto
  from inv obtain e rc where e: "Get (s_engines s) (rs_key S) = Some e" "re_root e = Some rc" "rc_nodes rc = rs_nodes S"
    by (auto simp: inv_at_def chain_inv_def)
  from x e have i: "instance_of ?s c = Some (nc_Node x)"
    by (simp add: instance_of_def emit_def ctx_at_def chain_of_def)
  obtain calls pan w where o: "n_OnMsg (env_ops E) (nc_Node x) (view_of ?s c) m (s_world ?s) = ((calls, pan), w)"
    by (metis prod.collapse)
  with spec_okD(1) [OF S] x have lin: "linear_result (calls, pan)"
    unfolding nodes_linear_def by (metis fst_conv)
  from ex i o have g: "g = ICalls c calls pan # rest" and t: "t = ?s\<lparr>s_world := w\<rparr>"
    by (auto simp: node_OnMsg_def Let_def)
  have tk: "token d (ICalls c calls pan) = token d (IOnMsg c m)" for d
    using lin by (cases calls rule: linear_calls.cases) (auto simp: linear_result_def split: option.splits)
  have "inv_at S s L (add_mset (ICalls c calls pan) (mset rest + B))"
    using inv_swap [OF inv, of "{#ICalls c calls pan#}"] tk by simp
  from inv_emit [OF this, of "EvOnMsg c m"] inv_live [OF inv, of c]
  have "inv_at S ?s L (mset g + B)" by (simp add: g)
  moreover have "ext ?s t []" by (simp add: t ext_refl)
  ultimately have "inv_at S t L (mset g + mset (concat []) + B)" by (simp add: inv_at_ext)
  then show ?thesis
    by (rule steppedI) (use wf lin c in \<open>auto simp: t emit_def grows_def g\<close>)
qed

lemma step_ICalls:
  assumes S: "spec_ok E S" and inv: "inv_at S s L (add_mset (ICalls c calls pan) (mset rest + B))"
    and wf: "wf_go S (s_heap s) (ICalls c calls pan # rest)"
    and ex: "exec_go E (ICalls c calls pan # rest) s = (g, t)" and pan: "calls = [] \<longrightarrow> pan = None"
  shows "stepped S s t g B"
proof (cases calls)
  case Nil
  with pan ex wf inv show ?thesis by (auto intro: stepped_drop)
next
  case (Cons a as)
  with wf have l: "linear_calls calls" "pan = None" and c: "c < length (s_heap s)" "c \<noteq> 0" and r: "wf_go S (s_heap s) rest"
    by (auto simp: linear_result_def split: option.splits)
  note x = ctx_okD [OF inv_ctx [OF inv c(1)]]
  have acc: "accepts (dc_pool (ctx_at s c))" using x(2) spec_okD(3) [OF S] by simp
  have ending: ?thesis if "do_call E c a s = DoOnEnd c m e q s" "as = []" for m e q
  proof -
    obtain u news where d: "DoOnEnd c m e q s = ([], u)" "ext s u (news @ [[IEnd c m e q]])" "\<forall>g \<in> set news. silent g"
      using DoOnEnd_ext [OF acc x(3)] by metis
    with ex Cons that l have g: "g = [ICalls c [] None] @ rest" "t = u" by auto
    show ?thesis unfolding g
      by (rule stepped_swap [OF inv d(2)])
         (use d(3) silent_facts [OF d(3)] l Cons that c r toks0_runs in \<open>auto simp: toks0_runs\<close>)
  qed
  from l(1) show ?thesis
  proof (cases calls rule: linear_calls.cases)
    case (1 m e)
    with Cons have a: "a = CTell m e None" "as = []" by auto
    have "do_call E c a s = DoOnEnd c m e [] s" using c x(6) by (simp add: a do_call_def tell_def)
    with a ending show ?thesis by blast
  next
    case (2 m e q)
    with Cons have a: "a = CTell m e (Some [q])" "as = []" by auto
    with ex Cons c x(6) l have g: "g = [ITellRels c m e [q] (length (s_vars s)), ICalls c [] None] @ rest"
      "t = s\<lparr>s_vars := s_vars s @ [[]]\<rparr>"
      by (auto simp: do_call_def tell_def)
    have "ext s (s\<lparr>s_vars := s_vars s @ [[]]\<rparr>) []" by (simp add: ext_def)
    then show ?thesis unfolding g
      by (rule stepped_swap [OF inv]) (use l Cons a c r in auto)
  next
    case (3 m d)
    with Cons have a: "a = CTellSelf m d" "as = []" by auto
    with ex Cons l have g: "g = [ICalls c [] None] @ rest" "t = spawn [IOnMsg c m] s"
      by (auto simp: do_call_def)
    have "ext s (spawn [IOnMsg c m] s) [[IOnMsg c m]]" by (simp add: ext_def spawn_def)
    then show ?thesis unfolding g
      by (rule stepped_swap [OF inv]) (use l Cons a c r in \<open>auto simp: tail_ok_def\<close>)
  next
    case (4 m e q)
    with Cons have a: "a = CDoOnEnd m e q" "as = []" by auto
    then have "do_call E c a s = DoOnEnd c m e q s" by (simp add: do_call_def)
    with a ending show ?thesis by blast
  qed auto
qed

text \<open>A context is done; \<open>K\<close> gives its parent the token.\<close>

lemma inv_done_last:
  assumes inv: "inv_at S s L (add_mset i B)" and i: "\<And>d. token d i = of_bool (d = c)" "\<not> special S i"
    and w: "dc_waitingCount (s_heap s ! c) \<le> 1"
    and K: "\<And>d. toks d K = of_bool (Some d = dc_parent (s_heap s ! c))" "\<And>d. \<not> runs d K"
      "if c = 0 then count K (ICompleted 0) = 1 \<and> count K (ISetDone 0 (rs_done S)) = 0 \<and> count K (IDoneFn (rs_done S)) = 0 \<and> count K (IClose 0) = 0
       else plain S K"
    and t: "s_heap t = (s_heap s)[c := (s_heap s ! c)\<lparr>dc_waitingCount := n\<rparr>]" "s_engines t = s_engines s"
      "s_trace t = s_trace s"
  shows "inv_at S t (L - {c}) (K + B)"
proof -
  have c: "c < length (s_heap s)" "c \<in> L" "0 \<in> L" using inv_live [OF inv, of c] i by auto
  have "core (cells (s_heap s)) L (add_mset i B)" using inv by (simp add: inv_at_def)
  then have "core (cells (s_heap t)) (L - {c}) (K + B)"
    by (rule core_done_last) (use i w K c t in \<open>auto simp: cells_update\<close>)
  moreover have "acct S (L - {c}) (K + B) (s_trace t) (dc_onAllNodeCompletedDone (s_heap t ! 0))"
  proof -
    have a: "acct S L B (s_trace s) (dc_onAllNodeCompletedDone (s_heap s ! 0))"
      using inv i(2) by (simp add: inv_at_def acct_add)
    have f: "dc_onAllNodeCompletedDone (s_heap t ! 0) = dc_onAllNodeCompletedDone (s_heap s ! 0)"
      using c(1) t by (cases "c = 0") auto
    show ?thesis
    proof (cases "c = 0")
      case True
      then show ?thesis using a K(3) acct_live [OF a c(3)] c by (simp add: f t acct_def)
    next
      case False
      then show ?thesis using a K(3) c by (simp add: f t acct_plain) (simp add: acct_def)
    qed
  qed
  moreover have "ctx_ok S d (s_heap t ! d)" if "d < length (s_heap t)" for d
    using inv that t c by (cases "d = c") (auto simp: inv_at_def ctx_ok_def)
  ultimately show ?thesis using inv t by (auto simp: inv_at_def chain_inv_def)
qed

lemma step_panic:
  assumes S: "spec_ok E S" and inv: "inv_at S s L (add_mset (ICalls c [] (Some e)) (mset rest + B))"
    and wf: "wf_go S (s_heap s) (ICalls c [] (Some e) # rest)"
    and ex: "exec_go E (ICalls c [] (Some e) # rest) s = (g, t)"
  shows "stepped S s t g B \<or> s_crashed t \<noteq> None"
proof (cases rest)
  case Nil
  with ex show ?thesis by auto
next
  case (Cons q qs)
  with wf obtain p m r where q: "rest = [IRecover p m r]" "p < length (s_heap s)" "dc_parent (s_heap s ! c) = Some p"
    and c: "c < length (s_heap s)" "c \<noteq> 0"
    by (auto simp: tail_ok_def)
  obtain m' u where a: "executeAfterAop E p m (Some e) r s = (m', u)" by force
  from ex q a have g: "g = [IDone p]" "t = u" by (auto simp: tellNext_recover_def)
  have "accepts (dc_pool (ctx_at s p))"
    using ctx_okD(2) [OF inv_ctx [OF inv q(2)]] spec_okD(3) [OF S] by simp
  from after_aop_ext [OF this a [unfolded executeAfterAop_def]] obtain news where
    news: "ext s u news" "\<forall>g \<in> set news. silent g" by blast
  let ?i = "ICalls c [] (Some e) :: 'b action"
  have inv': "inv_at S s L (add_mset ?i B)"
    using inv_drop [of S s L "IRecover p m r" "add_mset ?i B"] inv q by (simp add: add_mset_commute)
  then have bal: "balanced (cells (s_heap s)) L (add_mset ?i B) c"
    using inv_live [OF inv', of c] by (auto simp: inv_at_def dest: coreD(3))
  then have w: "dc_waitingCount (s_heap s ! c) = 0" using c by (simp add: balanced_def)
  then have "(s_heap s ! c)\<lparr>dc_waitingCount := 0\<rparr> = s_heap s ! c" by (cases "s_heap s ! c") simp
  then have upd: "s_heap u = (s_heap s)[c := (s_heap s ! c)\<lparr>dc_waitingCount := 0\<rparr>]"
    using news(1) by (simp add: ext_def)
  have "inv_at S u (L - {c}) ((mset g + mset (concat news)) + B)"
    by (rule inv_done_last [OF inv', where n = 0])
       (use w q c news upd silent_facts [OF news(2)] toks0_runs in \<open>auto simp: g ext_def toks0_runs\<close>)
  then have "stepped S s t g B"
    by (intro steppedI [where news = news and L = "L - {c}"])
       (use news q silent_facts(3) [OF news(2)] in \<open>auto simp: g ext_def grows_def\<close>)
  then show ?thesis ..
qed

lemma step_IDone:
  assumes inv: "inv_at S s L (add_mset (IDone c) (mset rest + B))"
    and wf: "wf_go S (s_heap s) (IDone c # rest)" and ex: "exec_go E (IDone c # rest) s = (g, t)"
  shows "stepped S s t g B"
proof -
  let ?w = "dc_waitingCount (s_heap s ! c)"
  have c: "c < length (s_heap s)" "c \<in> L" "0 \<in> L" using inv_live [OF inv, of c] by auto
  have core: "core (cells (s_heap s)) L (add_mset (IDone c) (mset rest + B))" using inv by (simp add: inv_at_def)
  from coreD(3) [OF core c(2)] c have w: "0 \<le> ?w" "?w < 2 ^ 31" by (auto simp: balanced_def)
  then have n: "wrap32 (?w - 1) = ?w - 1" by (intro wrap32_id) auto
  define u where "u = upd_ctx c (\<lambda>x. x\<lparr>dc_waitingCount := ?w - 1\<rparr>) s"
  have u: "s_heap u = (s_heap s)[c := (s_heap s ! c)\<lparr>dc_waitingCount := ?w - 1\<rparr>]" "s_engines u = s_engines s"
    "s_trace u = s_trace s" "s_gos u = s_gos s" "s_crashed u = s_crashed s"
    by (simp_all add: u_def upd_ctx_def)
  have gr: "grows s u" using c by (auto simp: grows_def u nth_list_update)
  have wfr: "wf_go S (s_heap u) rest" using wf wf_go_grows [OF _ gr] by auto
  show ?thesis
  proof (cases "?w \<le> 1")
    case True
    let ?k = "(case dc_parent (s_heap s ! c) of Some p \<Rightarrow> [IDone p] | None \<Rightarrow> []) @ [ICompleted c]"
    have g: "g = ?k @ rest" "t = u"
      using ex True n by (auto simp: childDone_def Let_def ctx_at_def u_def)
    have "inv_at S u (L - {c}) (mset ?k + (mset rest + B))"
      by (rule inv_done_last [OF inv]) (use True u in \<open>auto split: option.splits\<close>)
    moreover have "wf_go S (s_heap u) ?k"
      using core_parent [OF core c(2)] c by (auto simp: u split: option.splits)
    ultimately show ?thesis unfolding g using gr wfr u
      by (intro steppedI [where news = "[]" and L = "L - {c}"]) (auto simp: ac_simps split: option.splits)
  next
    case False
    then have g: "g = rest" "t = u"
      using ex n by (auto simp: childDone_def Let_def ctx_at_def u_def)
    have "core (cells (s_heap u)) L (mset rest + B)"
      using core_done_more [OF core, of c] False c by (simp add: u cells_update)
    moreover have "ctx_ok S d (s_heap u ! d)" if "d < length (s_heap u)" for d
      using inv that u c by (cases "d = c") (auto simp: inv_at_def ctx_ok_def)
    moreover have "dc_onAllNodeCompletedDone (s_heap u ! 0) = dc_onAllNodeCompletedDone (s_heap s ! 0)"
      using c(1) u by (cases "c = 0") auto
    ultimately have "inv_at S u L (mset rest + B)"
      using inv u by (auto simp: inv_at_def chain_inv_def acct_add)
    then show ?thesis unfolding g using gr wfr u
      by (intro steppedI [where news = "[]" and L = L]) auto
  qed
qed

lemma step_ITellRels:
  assumes S: "spec_ok E S" and inv: "inv_at S s L (add_mset (ITellRels c m e rels va) (mset rest + B))"
    and wf: "wf_go S (s_heap s) (ITellRels c m e rels va # rest)"
    and ex: "exec_go E (ITellRels c m e rels va # rest) s = (g, t)"
  shows "stepped S s t g B"
proof (cases rels)
  case Nil
  with ex wf inv show ?thesis by (auto intro: stepped_drop)
next
  case (Cons r rs)
  with wf have rels: "rels = [r]" and c: "c < length (s_heap s)" "c \<noteq> 0" and wfr: "wf_go S (s_heap s) rest" by auto
  note x = ctx_okD [OF inv_ctx [OF inv c(1)]]
  have acc: "accepts (dc_pool (ctx_at s c))" using x(2) spec_okD(3) [OF S] by simp
  let ?s = "s\<lparr>s_vars := (s_vars s)[va := r]\<rparr>"
  obtain m' u where a: "executeAfterAop E c m e r ?s = (m', u)" by force
  have "accepts (dc_pool (ctx_at ?s c))" using acc by (simp add: ctx_at_def)
  from after_aop_ext [OF this a [unfolded executeAfterAop_def]] obtain news where
    news: "ext s u news" "\<forall>g \<in> set news. silent g" by auto
  have cu: "ctx_at u c = ctx_at s c" using ctx_at_ext [OF news(1)] .
  have "chain_inv S u" using inv chain_inv_ext [OF news(1)] by (simp add: inv_at_def)
  moreover have "ctx_ok S c (ctx_at u c)" using inv_ctx [OF inv c(1)] cu by simp
  ultimately obtain nodes v where v: "getNextNodes c r u = ((nodes, nodes \<noteq> []), v)" "refs_ok (rs_nodes S) nodes"
    "chain_inv S v" "s_heap v = s_heap u" "s_gos v = s_gos u" "s_trace v = s_trace u" "s_crashed v = s_crashed u"
    using getNextNodes_effect [OF spec_okD(2) [OF S]] by metis
  have hv: "s_heap v = s_heap s" "s_gos v = s_gos s @ news" "s_trace v = s_trace s" "s_crashed v = s_crashed s"
    using v news(1) by (simp_all add: ext_def)
  then have cv: "ctx_at v c = ctx_at s c" by (simp add: ctx_at_def)
  have accv: "accepts (dc_pool (ctx_at v c))" and endv: "dc_onEnd (ctx_at v c) = Some (EngineEnd (rs_key S) 0 (rs_end S))"
    using acc x(3) cv by simp_all
  let ?i = "ITellRels c m e rels va :: 'b action"
  have invv: "inv_at S v L (add_mset ?i (mset rest + B))" using inv hv v(3) by (simp add: inv_at_def)
  show ?thesis
  proof (cases "nodes = []")
    case True
    obtain y more where y: "DoOnEnd c m' e r v = ([], y)" "ext v y (more @ [[IEnd c m' e r]])" "\<forall>g \<in> set more. silent g"
      using DoOnEnd_ext [OF accv endv] by metis
    from ex rels a v True y have g: "g = [ITellRels c m' e [] va] @ rest" "t = y" by (auto simp: Let_def)
    let ?K = "mset [ITellRels c m' e [] va] + mset (concat (news @ more @ [[IEnd c m' e r]]))"
    have "inv_at S v L (?K + (mset rest + B))"
      by (rule inv_swap [OF invv])
         (use silent_facts [OF news(2)] silent_facts [OF y(3)] rels in \<open>auto simp: toks0_runs\<close>)
    then have "inv_at S y L (?K + (mset rest + B))" by (simp only: inv_at_ext [OF y(2)])
    then show ?thesis unfolding g
      using y(2) hv c wfr silent_facts(3) [OF news(2)] silent_facts(3) [OF y(3)]
      by (intro steppedI [where news = "news @ more @ [[IEnd c m' e r]]" and L = L])
         (auto simp: ac_simps ext_def grows_def)
  next
    case False
    from ex rels a v False cv x(4)
    have g: "g = [IDispatch c m' va nodes, ITellRels c m' e [] va] @ rest" "t = v" by (auto simp: Let_def)
    have n: "length nodes = 1" using False v(2) by (cases nodes) (auto simp: refs_ok_def)
    let ?K = "mset [IDispatch c m' va nodes, ITellRels c m' e [] va] + mset (concat news)"
    have "inv_at S v L (?K + (mset rest + B))"
      by (rule inv_swap [OF invv]) (use silent_facts [OF news(2)] rels n in \<open>auto simp: toks0_runs\<close>)
    then show ?thesis unfolding g
      using hv c v(2) wfr silent_facts(3) [OF news(2)]
      by (intro steppedI [where news = news and L = L]) (auto simp: ac_simps grows_def)
  qed
qed

text \<open>One target of a relation: the waiting count becomes one.\<close>

lemma step_IDispatch:
  assumes S: "spec_ok E S" and inv: "inv_at S s L (add_mset (IDispatch c m va nodes) (mset rest + B))"
    and wf: "wf_go S (s_heap s) (IDispatch c m va nodes # rest)"
    and ex: "exec_go E (IDispatch c m va nodes # rest) s = (g, t)"
  shows "stepped S s t g B"
proof (cases nodes)
  case Nil
  with ex wf inv show ?thesis by (auto intro: stepped_drop)
next
  case (Cons y ys)
  with wf have nodes: "nodes = [y]" and c: "c < length (s_heap s)" "c \<noteq> 0" and wfr: "wf_go S (s_heap s) rest"
    and y: "\<exists>nid. y = NodeRef nid \<and> map_of (rs_nodes S) nid \<noteq> None" by (auto simp: refs_ok_def)
  note x = ctx_okD [OF inv_ctx [OF inv c(1)]]
  have acc: "accepts (dc_pool (ctx_at s c))" using x(2) spec_okD(3) [OF S] by simp
  from ex nodes have g: "g = [IDispatch c m va []] @ rest" "t = dispatch1 E c m va y s" by auto
  obtain m' where d: "ext (childReady c s) t [[ITellNext c m' y (LoopVar va)]]"
    unfolding g(2) using dispatch1_effect [OF acc c(1)] by blast
  let ?i = "IDispatch c m va nodes :: 'b action" and ?K = "{#IDispatch c m va [], ITellNext c m' y (LoopVar va)#}"
  have core: "core (cells (s_heap s)) L (add_mset ?i (mset rest + B))" using inv by (simp add: inv_at_def)
  from core_dispatch [OF core, of c ?K 1] nodes c
  have core': "core ((cells (s_heap s))[c := (dc_parent (s_heap s ! c), 1)]) L (?K + (mset rest + B))"
    and w0: "dc_waitingCount (s_heap s ! c) = 0" by (simp_all add: of_bool_def)
  from d w0 have t: "s_heap t = (s_heap s)[c := (s_heap s ! c)\<lparr>dc_waitingCount := 1\<rparr>]" "s_engines t = s_engines s"
    "s_gos t = s_gos s @ [[ITellNext c m' y (LoopVar va)]]" "s_trace t = s_trace s" "s_crashed t = s_crashed s"
    by (simp_all add: ext_def childReady_def upd_ctx_def wrap32_id)
  have "core (cells (s_heap t)) L (?K + (mset rest + B))" using core' c by (simp add: t cells_update)
  moreover have "acct S L (?K + (mset rest + B)) (s_trace s) (dc_onAllNodeCompletedDone (s_heap s ! 0))"
  proof -
    have "plain S ?K" by simp
    then show ?thesis using inv by (simp only: inv_at_def acct_plain) (simp add: acct_add)
  qed
  moreover have "dc_onAllNodeCompletedDone (s_heap t ! 0) = dc_onAllNodeCompletedDone (s_heap s ! 0)"
    using c by (simp add: t)
  moreover have "ctx_ok S d (s_heap t ! d)" if "d < length (s_heap t)" for d
    using inv that c by (cases "d = c") (auto simp: t inv_at_def ctx_ok_def)
  moreover have "chain_inv S t" using inv t(2) by (simp add: inv_at_def chain_inv_def)
  ultimately have "inv_at S t L (?K + (mset rest + B))" using inv by (simp add: inv_at_def t(1,4))
  moreover have gr: "grows s t" using c by (auto simp: grows_def t nth_list_update)
  moreover have "wf_go S (s_heap t) ([IDispatch c m va []] @ rest)"
    using wf_go_grows [OF wfr gr] c t(1) by (simp add: refs_ok_def)
  ultimately show ?thesis unfolding g(1) using t c y
    by (intro steppedI [where news = "[[ITellNext c m' y (LoopVar va)]]" and L = L]) (simp_all add: ac_simps add_mset_commute)
qed

lemma step_IEnd:
  assumes inv: "inv_at S s L (add_mset (IEnd c m e r) (mset rest + B))"
    and wf: "wf_go S (s_heap s) (IEnd c m e r # rest)" and ex: "exec_go E (IEnd c m e r # rest) s = (g, t)"
  shows "stepped S s t g B"
proof -
  let ?f = "EngineEnd (rs_key S) 0 (rs_end S)"
  from wf have c: "c < length (s_heap s)" "rest = []" by auto
  with ex ctx_okD(3) [OF inv_ctx [OF inv c(1)]] have g: "g = [IEndFn ?f c m e r, IDone c] @ rest" "t = s" by auto
  show ?thesis unfolding g
    by (rule stepped_swap [OF inv ext_refl]) (use c in auto)
qed

lemma step_IEndFn:
  assumes S: "spec_ok E S" and inv: "inv_at S s L (add_mset (IEndFn f c m e r) (mset rest + B))"
    and wf: "wf_go S (s_heap s) (IEndFn f c m e r # rest)" and ex: "exec_go E (IEndFn f c m e r # rest) s = (g, t)"
  shows "stepped S s t g B"
proof -
  from wf have c: "c < length (s_heap s)" "rest = [IDone c]" by auto
  have L: "0 \<in> L" using inv inv_live [of S s L "IDone c" "add_mset (IEndFn f c m e r) B" c] c
    by (simp add: add_mset_commute)
  show ?thesis
  proof (cases "\<exists>k. f = UserEnd k")
    case True
    then obtain k where "f = UserEnd k" by blast
    with ex have "g = rest" "t = emit (EvUserEnd k c m e r) s" by (auto simp: end_fn_call_def)
    with L wf show ?thesis using stepped_emit [OF inv] by auto
  next
    case False
    with wf have f: "f = EngineEnd (rs_key S) 0 (rs_end S)" by auto
    define pre :: "RuleMsg \<Rightarrow> 'b action list" where
      "pre m' = (case rs_end S of Some g \<Rightarrow> [IEndFn g c m' e r] | None \<Rightarrow> [])" for m'
    from inv obtain en where "Get (s_engines s) (rs_key S) = Some en" by (auto simp: inv_at_def chain_inv_def)
    with ex f obtain m' w where g: "g = pre m' @ rest"
      and t: "t = emit (EvEngineEnd (rs_key S) 0 c m' e r) (s\<lparr>s_world := w\<rparr>)"
      by (auto simp: end_fn_call_def Let_def pre_def split: prod.splits option.splits)
    have "\<exists>k. rs_end S = Some (UserEnd k) \<or> rs_end S = None"
      using spec_okD(4) [OF S] by (auto simp: user_end_def split: option.splits end_fn.splits)
    then have p: "\<And>d. toks d (mset (pre m')) = 0" "plain S (mset (pre m'))" "wf_go S (s_heap s) (pre m' @ rest)"
      using c by (auto simp: pre_def)
    have "inv_at S s L (mset (pre m') + (mset rest + B))"
      by (rule inv_swap [OF inv]) (use p in \<open>auto simp: toks0_runs\<close>)
    then have "inv_at S s L (mset g + B)" by (simp add: g ac_simps)
    then have "inv_at S (s\<lparr>s_world := w\<rparr>) L (mset g + B)" by (simp add: inv_at_def chain_inv_def)
    from inv_emit [OF this, of "EvEngineEnd (rs_key S) 0 c m' e r"] L
    have "inv_at S t L (mset g + mset (concat []) + B)" by (simp add: t)
    then show ?thesis
      by (rule steppedI) (use p(3) in \<open>simp_all add: t emit_def grows_def g\<close>)
  qed
qed

lemma step_ICompleted:
  assumes inv: "inv_at S s L (add_mset (ICompleted c) (mset rest + B))"
    and wf: "wf_go S (s_heap s) (ICompleted c # rest)" and ex: "exec_go E (ICompleted c # rest) s = (g, t)"
  shows "stepped S s t g B"
proof (cases "c = 0")
  case False
  from wf have "dc_onAllNodeCompleted (ctx_at s c) = None"
    using ctx_okD(8) [OF inv_ctx [OF inv, of c]] False by simp
  with ex have "g = rest" "t = s" by (auto simp: completed_def)
  with wf False show ?thesis using stepped_drop [OF inv] by auto
next
  case True
  have a: "acct S L (add_mset (ICompleted 0) (mset rest + B)) (s_trace s) (dc_onAllNodeCompletedDone (s_heap s ! 0))"
    using inv True by (simp add: inv_at_def)
  then have d: "\<not> dc_onAllNodeCompletedDone (s_heap s ! 0)" "0 \<notin> L" by (auto simp: acct_def split: if_splits)
  have n: "0 < length (s_heap s)" using inv by (simp add: inv_at_def)
  from ex True d ctx_okD(8) [OF inv_ctx [OF inv n]] have g: "g = [ISetDone 0 (rs_done S)] @ rest" "t = s"
    by (auto simp: completed_def ctx_at_def)
  have "core (cells (s_heap s)) L ({#ISetDone 0 (rs_done S)#} + (mset rest + B))"
    using inv True by (intro core_swap) (auto simp: inv_at_def)
  moreover have "acct S L (add_mset (ISetDone 0 (rs_done S)) (mset rest + B)) (s_trace s) (dc_onAllNodeCompletedDone (s_heap s ! 0))"
    using a d by (auto simp: acct_def)
  ultimately have "inv_at S s L (mset g + mset (concat []) + B)"
    using inv by (auto simp: inv_at_def g)
  then show ?thesis unfolding g(2)
    by (rule steppedI) (use wf in \<open>auto simp: g\<close>)
qed

lemma step_ISetDone:
  assumes inv: "inv_at S s L (add_mset (ISetDone c f) (mset rest + B))"
    and wf: "wf_go S (s_heap s) (ISetDone c f # rest)" and ex: "exec_go E (ISetDone c f # rest) s = (g, t)"
  shows "stepped S s t g B"
proof -
  from wf have c: "c = 0" "f = rs_done S" by auto
  have a: "acct S L (add_mset (ISetDone 0 (rs_done S)) (mset rest + B)) (s_trace s) (dc_onAllNodeCompletedDone (s_heap s ! 0))"
    using inv c by (simp add: inv_at_def)
  then have d: "\<not> dc_onAllNodeCompletedDone (s_heap s ! 0)" "0 \<notin> L" by (auto simp: acct_def split: if_splits)
  let ?u = "upd_ctx 0 (\<lambda>x. x\<lparr>dc_onAllNodeCompletedDone := True\<rparr>) s"
  have n: "0 < length (s_heap s)" using inv by (simp add: inv_at_def)
  from ex c have g: "g = [IDoneFn (rs_done S)] @ rest" "t = ?u" by (auto simp: set_done_def)
  have "core (cells (s_heap s)) L ({#IDoneFn (rs_done S)#} + (mset rest + B))"
    using inv c by (intro core_swap) (auto simp: inv_at_def)
  moreover have "cells (s_heap ?u) = cells (s_heap s)"
    using n by (simp add: upd_ctx_def cells_update) (simp add: cells_def map_update [symmetric] list_update_same_conv)
  moreover have "acct S L (add_mset (IDoneFn (rs_done S)) (mset rest + B)) (s_trace s) True"
    using a d by (auto simp: acct_def)
  moreover have "ctx_ok S x (s_heap ?u ! x)" if "x < length (s_heap s)" for x
    using inv that by (cases "x = 0") (auto simp: inv_at_def ctx_ok_def upd_ctx_def)
  ultimately have "inv_at S ?u L (mset g + mset (concat []) + B)"
    using inv n by (auto simp: inv_at_def g upd_ctx_def chain_inv_def)
  then show ?thesis unfolding g(2)
    by (rule steppedI) (use wf n wf_go_grows [of S s rest ?u] in \<open>auto simp: upd_ctx_def grows_def g nth_list_update\<close>)
qed

lemma step_IDoneFn:
  assumes S: "spec_ok E S" and inv: "inv_at S s L (add_mset (IDoneFn f) (mset rest + B))"
    and wf: "wf_go S (s_heap s) (IDoneFn f # rest)" and ex: "exec_go E (IDoneFn f # rest) s = (g, t)"
  shows "stepped S s t g B"
proof (cases "f = rs_done S")
  case False
  with wf obtain k where f: "f = UserDone k" by auto
  with ex have "g = rest" "t = emit (EvUserDone k) s" by (auto simp: done_fn_call_def)
  with wf False f show ?thesis using stepped_emit [OF inv, of "EvUserDone k"] by auto
next
  case True
  from spec_okD(5) [OF S] obtain m wt df where d: "rs_done S = EngineDone (rs_key S) 0 m wt df" "user_done df" by blast
  define k :: "'b action list" where
    "k = (case df of Some g \<Rightarrow> [IDoneFn g] | None \<Rightarrow> []) @ (if wt then [IClose 0] else [])"
  from inv obtain en where "Get (s_engines s) (rs_key S) = Some en" by (auto simp: inv_at_def chain_inv_def)
  with ex True d obtain w where g: "g = k @ rest" and t: "t = emit (EvCompleted (rs_key S) 0) (s\<lparr>s_world := w\<rparr>)"
    by (auto simp: done_fn_call_def Let_def k_def split: prod.splits option.splits)
  from d(2) have kf: "\<And>c. toks c (mset k) = 0" "count (mset k) (ICompleted 0) = 0" "count (mset k) (ISetDone 0 (rs_done S)) = 0" "count (mset k) (IDoneFn (rs_done S)) = 0"
    "count (mset k) (IClose 0) = of_bool wt" "wf_go S h rest \<Longrightarrow> wf_go S h (k @ rest)" for h
    by (auto simp: k_def user_done_def d(1) split: option.splits done_fn.splits)
  have a: "acct S L (add_mset (IDoneFn (rs_done S)) (mset rest + B)) (s_trace s) (dc_onAllNodeCompletedDone (s_heap s ! 0))"
    using inv True by (simp add: inv_at_def)
  then have "acct S L (mset k + (mset rest + B)) (s_trace t) (dc_onAllNodeCompletedDone (s_heap t ! 0))"
    using kf d(1) by (auto simp: acct_def t emit_def of_bool_def split: if_splits)
  moreover have "core (cells (s_heap t)) L (mset k + (mset rest + B))"
    using inv kf(1) by (intro core_swap) (auto simp: inv_at_def t emit_def toks0_runs)
  moreover have "quiet_after (EvCompleted (rs_key S) 0) (s_trace t)"
    using inv by (auto simp: t emit_def inv_at_def intro: quiet_after_snoc)
  ultimately have "inv_at S t L (mset g + mset (concat []) + B)"
    using inv by (auto simp: inv_at_def g t emit_def chain_inv_def ac_simps)
  then show ?thesis
    by (rule steppedI) (use wf kf(6) in \<open>auto simp: t emit_def grows_def g\<close>)
qed

lemma step_IClose:
  assumes inv: "inv_at S s L (add_mset (IClose c) (mset rest + B))"
    and wf: "wf_go S (s_heap s) (IClose c # rest)" and ex: "exec_go E (IClose c # rest) s = (g, t)"
  shows "stepped S s t g B"
proof -
  from wf have c: "c = 0" by simp
  have a: "acct S L (add_mset (IClose 0) (mset rest + B)) (s_trace s) (dc_onAllNodeCompletedDone (s_heap s ! 0))"
    using inv c by (simp add: inv_at_def)
  then have "count_list (s_trace s) (EvClosed 0) = 0" by (auto simp: acct_def of_bool_def split: if_splits)
  with ex c have g: "g = rest" "t = emit (EvClosed 0) s" by (auto simp: count_list_0_iff)
  have "acct S L (mset rest + B) (s_trace t) (dc_onAllNodeCompletedDone (s_heap t ! 0))"
    using a by (auto simp: acct_def g emit_def)
  moreover have "core (cells (s_heap t)) L ({#} + (mset rest + B))"
    using inv c by (intro core_swap) (auto simp: inv_at_def g emit_def)
  moreover have "quiet_after (EvCompleted (rs_key S) 0) (s_trace t)"
    using inv by (auto simp: g emit_def inv_at_def intro: quiet_after_snoc)
  ultimately have "inv_at S t L (mset g + mset (concat []) + B)"
    using inv by (auto simp: inv_at_def g emit_def chain_inv_def)
  then show ?thesis
    by (rule steppedI) (use wf in \<open>auto simp: g emit_def grows_def\<close>)
qed

text \<open>One step of any goroutine.\<close>

lemma step_goroutine:
  assumes S: "spec_ok E S" and inv: "inv_at S s L (mset (i # rest) + B)"
    and wf: "wf_go S (s_heap s) (i # rest)" and ex: "exec_go E (i # rest) s = (g, t)"
  shows "stepped S s t g B \<or> s_crashed t \<noteq> None"
proof -
  from inv have inv: "inv_at S s L (add_mset i (mset rest + B))" by simp
  show ?thesis
  proof (cases i)
    case (ICalls c calls pan)
    with S inv wf ex show ?thesis
      by (cases "calls = [] \<and> pan \<noteq> None") (auto dest: step_panic step_ICalls)
  next
    case (IAwait r)
    with inv wf ex show ?thesis by (auto intro: stepped_drop)
  next
    case (IRecover c m r)
    with inv wf ex show ?thesis by (auto intro: stepped_drop)
  next
    case (IGlobalEnd m e)
    with inv wf ex show ?thesis by (auto intro!: stepped_emit)
  next
    case (IDebug c f m r e)
    with inv wf ex show ?thesis by (auto intro!: stepped_emit simp: Let_def)
  next
    case (IFirst c m e)
    with inv wf ex show ?thesis using step_IFirst by blast
  next
    case (ITellNext c m n r)
    with S inv wf ex show ?thesis using step_ITellNext by blast
  next
    case (IAround c m0 m r as b)
    with inv wf ex show ?thesis using step_IAround by blast
  next
    case (IOnMsg c m)
    with S inv wf ex show ?thesis using step_IOnMsg by blast
  next
    case (ITellRels c m e rels va)
    with S inv wf ex show ?thesis using step_ITellRels by blast
  next
    case (IDispatch c m va nodes)
    with S inv wf ex show ?thesis using step_IDispatch by blast
  next
    case (ISetDone c f)
    with inv wf ex show ?thesis using step_ISetDone by blast
  next
    case (IEnd c m e r)
    with inv wf ex show ?thesis using step_IEnd by blast
  next
    case (IEndFn f c m e r)
    with S inv wf ex show ?thesis using step_IEndFn by blast
  next
    case (IDone c)
    with inv wf ex show ?thesis using step_IDone by blast
  next
    case (ICompleted c)
    with inv wf ex show ?thesis using step_ICompleted by blast
  next
    case (IDoneFn f)
    with S inv wf ex show ?thesis using step_IDoneFn by blast
  next
    case (IClose r)
    with inv wf ex show ?thesis using step_IClose by blast
  qed (use wf in simp_all)
qed

definition inv :: "('n, 'w) run_spec \<Rightarrow> ('n, 'w) sys \<Rightarrow> bool" where
  "inv S s =
     (s_crashed s = None \<and> (\<exists>L. inv_at S s L (mset (concat (s_gos s)))) \<and> (\<forall>g \<in> set (s_gos s). wf_go S (s_heap s) g))"

lemma concat_update:
  assumes "i < length gs"
  shows "mset (concat (gs[i := g])) = mset g + mset (concat (gs[i := []]))"
proof -
  have "gs[i := x] = take i gs @ [x] @ drop (Suc i) gs" for x
    using assms by (simp add: upd_conv_take_nth_drop)
  then show ?thesis by (simp add: ac_simps)
qed

lemma inv_step:
  assumes S: "spec_ok E S" and inv: "inv S s" and st: "step E s s'"
  shows "inv S s' \<or> s_crashed s' \<noteq> None"
  using st
proof cases
  case (step i)
  let ?B = "mset (concat ((s_gos s)[i := []]))"
  obtain a rest where g: "s_gos s ! i = a # rest"
    using step(3) by (cases "s_gos s ! i") (auto simp: runnable_def)
  obtain g' t where ex: "exec_go E (a # rest) s = (g', t)" by force
  from inv obtain L where L: "inv_at S s L (mset (concat (s_gos s)))"
    and wf: "\<forall>g \<in> set (s_gos s). wf_go S (s_heap s) g" by (auto simp: inv_def)
  have s': "s' = t\<lparr>s_gos := (s_gos t)[i := g']\<rparr>" using step(1) g ex by (simp add: step_at_def)
  have "mset (concat (s_gos s)) = mset (a # rest) + ?B"
    using concat_update [OF step(2), of "s_gos s ! i"] by (simp only: list_update_id) (simp only: g)
  with L have "inv_at S s L (mset (a # rest) + ?B)" by simp
  from step_goroutine [OF S this _ ex] wf step(2) g have "stepped S s t g' ?B \<or> s_crashed t \<noteq> None"
    by (metis nth_mem)
  then show ?thesis
  proof
    assume "s_crashed t \<noteq> None"
    then show ?thesis by (simp add: s')
  next
    assume "stepped S s t g' ?B"
    then obtain news L' where n: "s_gos t = s_gos s @ news" "grows s t" "s_crashed t = s_crashed s"
      "inv_at S t L' (mset g' + mset (concat news) + ?B)" "wf_go S (s_heap t) g'"
      "\<forall>n \<in> set news. wf_go S (s_heap t) n" unfolding stepped_def by blast
    have "mset (concat ((s_gos t)[i := g'])) = mset g' + mset (concat news) + ?B"
      using step(2) n(1) concat_update [OF step(2), of g'] by (simp add: list_update_append1 ac_simps)
    with n(4) have "inv_at S s' L' (mset (concat (s_gos s')))" by (simp add: s' inv_at_def chain_inv_def)
    moreover have "wf_go S (s_heap s') x" if "x \<in> set (s_gos s')" for x
    proof -
      have "x = g' \<or> x \<in> set (s_gos s) \<or> x \<in> set news"
        using that n(1) set_update_subset_insert [of "s_gos t" i g'] by (auto simp: s')
      then show ?thesis using n(5,6) wf wf_go_grows [OF _ n(2)] by (auto simp: s')
    qed
    moreover have "s_crashed s' = None" using step(4) n(3) by (simp add: s')
    ultimately show ?thesis by (auto simp: inv_def)
  qed
qed

section \<open>Starting a run\<close>

text \<open>An engine whose chain consists of nodes that answer once.\<close>

definition linear_engine :: "('n, 'w) env \<Rightarrow> ('n, 'w) RuleEngine \<Rightarrow> bool" where
  "linear_engine E e =
     (\<exists>rc nid. re_root e = Some rc \<and> rc_root rc = Some (NodeRef nid) \<and> map_of (rc_nodes rc) nid \<noteq> None \<and>
        nodes_linear E (rc_nodes rc) \<and> routes_ok (rc_nodeRoutes rc) \<and>
        (\<forall>k l. map_of (rc_relationCache rc) k = Some l \<longrightarrow> refs_ok (rc_nodes rc) l) \<and>
        (\<forall>a \<in> set (fst (snd (GetNodeAspects (env_sort E) (rc_rootConfig rc)))). leaves_to_engine a) \<and>
        accepts (cfg_Pool (rc_rootConfig rc)))"

definition started ::
  "string \<Rightarrow> RuleMsg \<Rightarrow> bool \<Rightarrow> end_fn option \<Rightarrow> done_fn option \<Rightarrow> ('n, 'w) RuleGo \<Rightarrow> 'w \<Rightarrow> ('n, 'w) sys" where
  "started key msg wait endFunc doneFunc g w = spawn [IStart key msg wait endFunc doneFunc] (init_sys g w)"

lemma core_start: "core [(None, 0)] {0} (add_mset (IFirst 0 m e) {#})"
  by (auto simp: core_def balanced_def kids_def)

lemma start_inv:
  assumes lin: "linear_engine E e" and g: "Get g key = Some e"
    and cb: "user_end endFunc" "user_done doneFunc"
    and st: "step E (started key msg wait endFunc doneFunc g w) s"
  shows "\<exists>S m. spec_ok E S \<and> inv S s \<and> rs_key S = key \<and> waits (rs_done S) = wait \<and>
    s_engines s = g \<and> set (concat (s_gos s)) \<subseteq> {IAwait 0, IFirst 0 m None}"
proof -
  from lin obtain rc nid where rc: "re_root e = Some rc" "rc_root rc = Some (NodeRef nid)" "map_of (rc_nodes rc) nid \<noteq> None"
    "nodes_linear E (rc_nodes rc)" "routes_ok (rc_nodeRoutes rc)"
    "\<forall>k l. map_of (rc_relationCache rc) k = Some l \<longrightarrow> refs_ok (rc_nodes rc) l"
    "\<forall>a \<in> set (fst (snd (GetNodeAspects (env_sort E) (rc_rootConfig rc)))). leaves_to_engine a"
    "accepts (cfg_Pool (rc_rootConfig rc))" unfolding linear_engine_def by blast
  let ?s0 = "started key msg wait endFunc doneFunc g w"
  let ?ctx = "NewRuleContext E 0 (rc_rootConfig rc) key None (Some (NodeRef nid)) (cfg_Pool (rc_rootConfig rc)) endFunc"
  let ?s1 = "?s0\<lparr>s_heap := [?ctx]\<rparr>"
  obtain m w1 where m: "onStart e (view_of ?s1 0) msg w = (m, w1)" by force
  define x where "x = ?ctx\<lparr>dc_onEnd := Some (EngineEnd key 0 endFunc),
                            dc_onAllNodeCompleted := Some (EngineDone key 0 m wait doneFunc)\<rparr>"
  define s2 where "s2 = ?s0\<lparr>s_heap := [x], s_world := w1\<rparr>"
  obtain m2 s3 where m2: "copy_msg E m s2 = (m2, s3)" by force
  note x3 = copy_msg_ext [OF m2]
  have pool: "dc_pool x = cfg_Pool (rc_rootConfig rc)" "dc_isFirst x"
    by (simp_all add: x_def NewRuleContext_def Let_def split: prod.splits)
  let ?t = "SubmitTack 0 [IFirst 0 m2 None] s3" and ?k = "if wait then [IAwait 0] else [] :: 'b action list"
  have "accepts (dc_pool (ctx_at s3 0))" using rc(8) pool by (simp add: ctx_at_ext [OF x3]) (simp add: ctx_at_def s2_def)
  from ext_trans [OF x3 SubmitTack_ext [OF this]] have t: "ext s2 ?t [[IFirst 0 m2 None]]" by simp
  have "exec E (IStart key msg wait endFunc doneFunc) ?s0 = (?k, ?t)"
  proof -
    have s0: "s_heap ?s0 = []" "s_engines ?s0 = g" "s_world ?s0 = w"
      by (simp_all add: started_def spawn_def init_sys_def)
    have u: "upd_ctx 0 (\<lambda>x. x\<lparr>dc_onEnd := Some (EngineEnd key 0 endFunc),
        dc_onAllNodeCompleted := Some (EngineDone key 0 m wait doneFunc)\<rparr>) (?s1\<lparr>s_world := w1\<rparr>) = s2"
      by (simp add: upd_ctx_def s2_def x_def)
    have "tell E 0 m None None s2 = ([], ?t)"
      using m2 pool(2) by (simp add: tell_def tellFirst_def ctx_at_def s2_def)
    with g rc(1,2) m s0 u show ?thesis by (simp add: onMsgAndWait_def Let_def split del: if_split)
  qed
  moreover have g0: "s_gos ?s0 = [[IStart key msg wait endFunc doneFunc]]" by (simp add: started_def spawn_def init_sys_def)
  moreover from st have "s = step_at E 0 ?s0" by cases (simp add: g0)
  moreover have "s_gos ?t = [[IStart key msg wait endFunc doneFunc], [IFirst 0 m2 None]]"
    using t g0 by (simp add: ext_def s2_def)
  ultimately have s: "s = ?t\<lparr>s_gos := [?k, [IFirst 0 m2 None]]\<rparr>" by (simp add: step_at_def)
  define S where "S = \<lparr>rs_nodes = rc_nodes rc, rs_routes = rc_nodeRoutes rc, rs_pool = cfg_Pool (rc_rootConfig rc),
    rs_key = key, rs_end = endFunc, rs_done = EngineDone key 0 m wait doneFunc\<rparr>"
  have ok: "ctx_ok S 0 x"
    using rc by (auto simp: ctx_ok_def S_def x_def NewRuleContext_def Let_def split: prod.splits)
  have h: "s_heap s = [x]" "s_trace s = []" "s_engines s = g" "s_crashed s = None"
    using t by (simp_all add: s ext_def s2_def started_def spawn_def init_sys_def)
  have wc: "dc_parent x = None" "dc_waitingCount x = 0" "\<not> dc_onAllNodeCompletedDone x"
    by (simp_all add: x_def NewRuleContext_def Let_def split: prod.splits)
  have "core (cells [x]) {0} (mset (concat (s_gos s)))"
    using core_swap0 [OF core_start, of "mset ?k" m2 None] wc by (simp add: s cells_def)
  moreover have "acct S {0} (mset (concat (s_gos s))) [] False" by (simp add: s acct_def)
  moreover have "chain_inv S s" using g rc by (auto simp: chain_inv_def S_def h)
  ultimately have "inv_at S s {0} (mset (concat (s_gos s)))"
    using ok wc h by (simp add: inv_at_def quiet_after_def)
  moreover have "\<forall>y \<in> set (s_gos s). wf_go S (s_heap s) y" by (simp add: s S_def)
  ultimately have "inv S s" using h by (auto simp: inv_def)
  moreover have "spec_ok E S" using rc cb by (simp add: spec_ok_def S_def)
  moreover have "rs_key S = key" "waits (rs_done S) = wait" by (simp_all add: S_def)
  moreover have "set (concat (s_gos s)) \<subseteq> {IAwait 0, IFirst 0 m2 None}" by (auto simp: s)
  ultimately show ?thesis using h(3) by blast
qed

lemma reachable_inv:
  assumes "linear_engine E e" "Get g key = Some e" "user_end endFunc" "user_done doneFunc"
    and "(step E)\<^sup>*\<^sup>* (started key msg wait endFunc doneFunc g w) s"
  shows "s = started key msg wait endFunc doneFunc g w \<or> s_crashed s \<noteq> None \<or>
    (\<exists>S. spec_ok E S \<and> inv S s \<and> rs_key S = key \<and> waits (rs_done S) = wait)"
  using assms(5)
proof (induction rule: rtranclp_induct)
  case base
  then show ?case by simp
next
  case (step s s')
  then have "s_crashed s = None" by (auto elim: step.cases)
  with step start_inv [OF assms(1-4)] inv_step show ?case by metis
qed

lemma core_idle:
  assumes core: "core h L A" and idle: "\<And>c. toks c A = 0"
  shows "L = {}"
proof (rule ccontr)
  assume "L \<noteq> {}"
  then have M: "Max L \<in> L" "\<And>d. d \<in> L \<Longrightarrow> d \<le> Max L" using coreD(1) [OF core] by simp_all
  have "kids h L (Max L) = 0"
  proof -
    have "{d \<in> L. fst (h ! d) = Some (Max L)} = {}" using core_parent [OF core] M(2) by fastforce
    then show ?thesis by (simp only: kids_def card.empty)
  qed
  with coreD(3) [OF core M(1)] idle show False by (auto simp: balanced_def max_def split: if_splits)
qed

lemma inv_idle:
  assumes S: "spec_ok E S" and inv: "inv S s" and stuck: "\<forall>g \<in> set (s_gos s). \<not> runnable s g"
  shows "count_list (s_trace s) (EvCompleted (rs_key S) 0) = 1 \<and> (\<forall>g \<in> set (s_gos s). g = [])"
proof -
  let ?A = "mset (concat (s_gos s))"
  from inv obtain L where L: "inv_at S s L ?A" and wf: "\<forall>g \<in> set (s_gos s). wf_go S (s_heap s) g" by (auto simp: inv_def)
  have g: "g = [] \<or> g = [IAwait 0] \<and> EvClosed 0 \<notin> set (s_trace s) \<and> waits (rs_done S)" if "g \<in> set (s_gos s)" for g
  proof (cases g)
    case (Cons i rest)
    with that stuck wf show ?thesis by (cases i) (fastforce simp: runnable_def)+
  qed simp
  have "i = IAwait 0" if "i \<in># ?A" for i using that g by fastforce
  then have A: "token c i = 0 \<and> \<not> special S i" if "i \<in># ?A" for c i using that by fastforce
  have "toks c ?A = 0" for c unfolding toks_def using A by (simp add: sum_mset_0_iff)
  with core_idle L have "L = {}" by (metis inv_at_def)
  moreover have "plain S ?A" using A by (simp add: plain_def)
  ultimately have a: "count_list (s_trace s) (EvCompleted (rs_key S) 0) = 1"
    "waits (rs_done S) \<Longrightarrow> count_list (s_trace s) (EvClosed 0) = 1"
    using L plain_count [of S ?A] by (auto simp: inv_at_def acct_def split: if_splits)
  moreover have "g = []" if "g \<in> set (s_gos s)" for g
    using g [OF that] a(2) by (metis count_list_0_iff zero_neq_one)
  ultimately show ?thesis by blast
qed

lemma OnMsg_started:
  "OnMsg key msg endFunc doneFunc (init_sys g w) = started key msg False endFunc doneFunc g w"
  "OnMsgAndWait key msg endFunc doneFunc (init_sys g w) = started key msg True endFunc doneFunc g w"
  by (simp_all add: OnMsg_def OnMsgAndWait_def started_def)

lemma inv_counts:
  assumes "inv S s"
  shows "count_list (s_trace s) (EvCompleted (rs_key S) 0) \<le> 1" "quiet_after (EvCompleted (rs_key S) 0) (s_trace s)"
  using assms by (auto simp: inv_def inv_at_def acct_def of_bool_def split: if_splits)

lemma completes_once:
  assumes "linear_engine E e" and "Get g key = Some e"
    and "user_end endFunc" and "user_done doneFunc"
    and "(step E)\<^sup>*\<^sup>* (OnMsgAndWait key msg endFunc doneFunc (init_sys g w)) s" and "s_crashed s = None"
  shows "count_list (s_trace s) (EvCompleted key 0) \<le> 1 \<and>
    quiet_after (EvCompleted key 0) (s_trace s) \<and>
    ((\<forall>g \<in> set (s_gos s). \<not> runnable s g) \<longrightarrow>
       count_list (s_trace s) (EvCompleted key 0) = 1 \<and> (\<forall>g \<in> set (s_gos s). g = []))"
proof -
  from reachable_inv [OF assms(1-4) assms(5) [unfolded OnMsg_started]] assms(6)
  consider "s = started key msg True endFunc doneFunc g w" | S where "spec_ok E S" "inv S s" "rs_key S = key"
    by blast
  then show ?thesis
  proof cases
    case 1
    then show ?thesis by (simp add: started_def spawn_def init_sys_def quiet_after_def runnable_def)
  next
    case (2 S)
    with inv_counts [OF 2(2)] inv_idle [OF 2(1,2)] show ?thesis by simp
  qed
qed

text \<open>C1: a message given with \<open>OnMsgAndWait\<close> to an engine whose chain has no fan-out (no node has
  two connections of the same relation type), no connection to a sub rule chain, a pool that
  takes every task, around aspects that leave calling the node to the engine, and nodes that answer every message
  with exactly one call of the context, on one relation, or panic before any call; no other message is under way. Under
  every interleaving of the goroutines, in every state that is reached without a crash: the
  completion callback has run at most once; after it no node and no end callback runs any
  more; and when nothing can move any further the callback has run, no goroutine is left
  and the waiting caller has returned.\<close>

theorem OnMsgAndWait_completes_once:
  assumes "linear_engine E e" and "Get g key = Some e"
    and "user_end endFunc" and "user_done doneFunc"
    and "(step E)\<^sup>*\<^sup>* (OnMsgAndWait key msg endFunc doneFunc (init_sys g w)) s" and "s_crashed s = None"
  shows "count_list (s_trace s) (EvCompleted key 0) \<le> 1 \<and>
    quiet_after (EvCompleted key 0) (s_trace s) \<and>
    ((\<forall>g \<in> set (s_gos s). \<not> runnable s g) \<longrightarrow>
       count_list (s_trace s) (EvCompleted key 0) = 1 \<and> (\<forall>g \<in> set (s_gos s). g = []))"
  by (rule completes_once [OF assms])

lemma run_steps: "(step E)\<^sup>*\<^sup>* s (run E is s)"
proof (induction "is" arbitrary: s)
  case Nil
  then show ?case by simp
next
  case (Cons i "is")
  show ?case
  proof (cases "i < length (s_gos s) \<and> runnable s (s_gos s ! i) \<and> s_crashed s = None")
    case True
    then have "step E s (step_at E i s)" by (blast intro: step.intros)
    with Cons [of "step_at E i s"] True show ?thesis by (simp add: converse_rtranclp_into_rtranclp)
  next
    case False
    with Cons [of s] show ?thesis by auto
  qed
qed

section \<open>A concrete run\<close>

definition demo_plain :: RuleChain where
  "demo_plain = demo_chain\<lparr>rch_Metadata := (rch_Metadata demo_chain)\<lparr>rm_RuleChainConnections := []\<rparr>\<rparr>"

definition demo_rc :: "(Configuration, unit) RuleChainCtx" where
  "demo_rc = (case InitRuleChainCtx demo_ops demo_reg sort_Slice demo_pool (types_NewConfig []) demo_plain of
                Inr rc \<Rightarrow> rc)"

definition demo_env :: "(Configuration, unit) env" where
  "demo_env = \<lparr>env_ops = demo_ops, env_sort = sort_Slice, env_now = (\<lambda>_. 1), env_uuid = (\<lambda>_. ''u'')\<rparr>"

definition demo_run :: "(Configuration, unit) RuleEngine" where
  "demo_run = demo_engine\<lparr>re_root := Some demo_rc\<rparr>"

definition demo_msg :: RuleMsg where
  "demo_msg = \<lparr>Ts = 1, MsgId = ''m'', DataType = JSON, MsgType = ''T'', Data = ''{}'', MsgMetadata = Some []\<rparr>"

lemma demo_init2:
  "InitRuleChainCtx demo_ops demo_reg sort_Slice demo_pool (types_NewConfig []) demo_plain = Inr demo_rc"
  unfolding demo_rc_def
  by (simp add: InitRuleChainCtx_def Let_def demo_plain_def demo_defs InitRuleNodeCtx_def NewNode_def
      processGlobalPlaceholders_def types_NewConfig_def NewMetadata_def GetEngineAspects_def
      GetFirstNode_def GetNodeByIndex_def GetNodeById_def sort_Slice_def defaultNodeIdPrefix_def)

lemma Init_routes:
  "InitRuleChainCtx ops reg srt pool config d = Inr rc \<Longrightarrow>
     rc_nodeRoutes rc = fold add_route (map chain_conn_relation (rm_RuleChainConnections (rch_Metadata d)))
        (fold add_route (map conn_relation (rm_Connections (rch_Metadata d))) [])"
  by (erule InitRuleChainCtx_cases) auto

lemma demo_rc_simps:
  "rc_relationCache demo_rc = []" "rc_rootConfig demo_rc = types_NewConfig []"
  "rc_root demo_rc = Some (NodeRef (node_id ''s1''))" "map_of (rc_nodes demo_rc) (node_id ''s1'') \<noteq> None"
  by (simp_all add: demo_rc_def InitRuleChainCtx_def Let_def demo_plain_def demo_defs InitRuleNodeCtx_def NewNode_def
      processGlobalPlaceholders_def types_NewConfig_def NewMetadata_def GetEngineAspects_def
      GetFirstNode_def GetNodeByIndex_def GetNodeById_def sort_Slice_def defaultNodeIdPrefix_def)

lemma demo_routes:
  "rc_nodeRoutes demo_rc = [(node_id ''s1'', [\<lparr>InId = node_id ''s1'', OutId = node_id ''node1'', RelationType = ''Success''\<rparr>,
     \<lparr>InId = node_id ''s1'', OutId = node_id ''node1'', RelationType = ''True''\<rparr>])]"
proof -
  have "rc_nodeRoutes demo_rc = fold add_route (map conn_relation (rm_Connections (rch_Metadata demo_plain))) []"
    using Init_routes [OF demo_init2] by (simp add: demo_plain_def)
  then show ?thesis by (simp add: demo_plain_def demo_chain_def conn_relation_def add_route_def)
qed

lemma demo_linear: "linear_engine demo_env demo_run"
proof -
  have "routes_ok (rc_nodeRoutes demo_rc)" by (auto simp: routes_ok_def demo_routes split: if_splits)
  with demo_rc_simps show ?thesis
    by (auto simp: linear_engine_def demo_run_def nodes_linear_def demo_env_def demo_ops_def linear_result_def
        TellSuccess_def GetNodeAspects_def types_NewConfig_def sort_Slice_def accepts_def)
qed

definition demo_end :: "(Configuration, unit) sys" where
  "demo_end = run demo_env ([0] @ replicate 14 1 @ replicate 14 2 @ replicate 18 3 @ [0])
     (OnMsgAndWait ''rule01'' demo_msg None None (init_sys [(''rule01'', demo_run)] ()))"

lemma demo_end_eval: "s_crashed demo_end = None \<and> (\<forall>g \<in> set (s_gos demo_end). \<not> runnable demo_end g)"
  by code_simp

theorem OnMsgAndWait_completes_once_witness:
  "count_list (s_trace demo_end) (EvCompleted ''rule01'' 0) = 1 \<and> concat (s_gos demo_end) = []"
proof -
  have "(step demo_env)\<^sup>*\<^sup>* (OnMsgAndWait ''rule01'' demo_msg None None (init_sys [(''rule01'', demo_run)] ())) demo_end"
    unfolding demo_end_def by (rule run_steps)
  from OnMsgAndWait_completes_once [OF demo_linear _ _ _ this] demo_end_eval show ?thesis
    by (simp add: demo_env_def Get_def user_end_def user_done_def)
qed

section \<open>Where the count goes wrong\<close>

text \<open>Small chains in which the hypotheses above fail. A node of these chains answers
  with the relations listed in its configuration, or refuses.\<close>

definition tell_conf :: "string list \<Rightarrow> Configuration" where
  "tell_conf rels = [(''rels'', GStruct (map (\<lambda>r. (r, GNil)) rels))]"

definition tell_ops :: "(Configuration, unit) node_ops" where
  "tell_ops = demo_ops\<lparr>n_OnMsg := (\<lambda>conf _ msg w.
     (([TellNext msg (case map_of conf ''rels'' of Some (GStruct fs) \<Rightarrow> Some (map fst fs) | _ \<Rightarrow> None)], None), w))\<rparr>"

definition tell_chain ::
  "string \<Rightarrow> (string \<times> string list) list \<Rightarrow> (string \<times> string \<times> string) list \<Rightarrow> (string \<times> string \<times> string) list \<Rightarrow> RuleChain" where
  "tell_chain cid nodes conns subs =
     \<lparr>rch_RuleChain = \<lparr>rcb_ID = cid, rcb_AdditionalInfo = None, rcb_Name = cid,
        rcb_DebugMode = False, rcb_Root = True, rcb_Configuration = None\<rparr>,
      rch_Metadata = \<lparr>rm_FirstNodeIndex = 0, rm_Nodes = map (\<lambda>(i, rels). demo_node i (Some (tell_conf rels))) nodes,
        rm_Connections = map (\<lambda>(a, b, t). \<lparr>nco_FromId = a, nco_ToId = b, nco_Type = t\<rparr>) conns,
        rm_RuleChainConnections = map (\<lambda>(a, b, t). \<lparr>rcco_FromId = a, rcco_ToId = b, rcco_Type = t\<rparr>) subs\<rparr>\<rparr>"

definition tell_engine :: "(unit \<Rightarrow> bool \<times> unit) option \<Rightarrow> RuleChain \<Rightarrow> (string \<times> (Configuration, unit) RuleEngine)" where
  "tell_engine pool d =
     (rcb_ID (rch_RuleChain d),
      demo_engine\<lparr>re_Id := rcb_ID (rch_RuleChain d),
        re_root := (case InitRuleChainCtx tell_ops demo_reg sort_Slice demo_pool (types_NewConfig [WithPool pool]) d of
                      Inr rc \<Rightarrow> Some rc | Inl _ \<Rightarrow> None)\<rparr>)"

definition after_completion :: "(Configuration, unit) sys \<Rightarrow> event list" where
  "after_completion s = tl (dropWhile (\<lambda>ev. ev \<noteq> EvCompleted ''c'' 0) (s_trace s))"

text \<open>Nothing can move, and some goroutine is not finished.\<close>

definition hung :: "('n, 'w) sys \<Rightarrow> bool" where
  "hung s =
     (s_crashed s = None \<and> (\<forall>g \<in> set (s_gos s). \<not> runnable s g) \<and> (\<exists>g \<in> set (s_gos s). 0 < length g))"

definition tell_start :: "(string \<times> (Configuration, unit) RuleEngine) list \<Rightarrow> (Configuration, unit) sys" where
  "tell_start engines = OnMsgAndWait ''c'' demo_msg None None (init_sys engines ())"

definition tell_env :: "(Configuration, unit) env" where
  "tell_env = demo_env\<lparr>env_ops := tell_ops\<rparr>"

definition tell_run ::
  "(string \<times> (Configuration, unit) RuleEngine) list \<Rightarrow> nat list \<Rightarrow> (Configuration, unit) sys" where
  "tell_run engines sched = run tell_env sched (tell_start engines)"

text \<open>One relation with two targets, dispatched one by one: the first target is done before
  the second is counted.\<close>

definition fan_chain :: RuleChain where
  "fan_chain = tell_chain ''c'' [(''a'', [''Success'']), (''x'', [''Success'']), (''y'', [''Success''])]
     [(''a'', ''x'', ''Success''), (''a'', ''y'', ''Success'')] []"

definition fan_race :: "(Configuration, unit) sys" where
  "fan_race = tell_run [tell_engine None fan_chain]
     ([0] @ replicate 7 1 @ replicate 9 2 @ replicate 14 3 @ [0] @ replicate 6 1 @ replicate 9 4)"

definition two_chain :: RuleChain where
  "two_chain = tell_chain ''c'' [(''a'', [''A'', ''B''])] [] []"

definition two_rels :: "(Configuration, unit) sys" where
  "two_rels = tell_run [tell_engine None two_chain]
     ([0] @ replicate 14 1 @ replicate 14 2 @ replicate 14 3)"

definition sub_chain :: RuleChain where
  "sub_chain = tell_chain ''c'' [(''a'', [''Success''])] [] [(''a'', ''sub'', ''Success'')]"

definition sub_run :: "(Configuration, unit) sys" where
  "sub_run = tell_run [tell_engine None sub_chain, tell_engine None (tell_chain ''sub'' [(''b'', [''Success''])] [] [])]
     ([0] @ replicate 14 1 @ replicate 16 2 @ replicate 16 3 @ replicate 16 4 @ [0])"

definition refused_run :: "(Configuration, unit) sys" where
  "refused_run = tell_run [tell_engine (Some (\<lambda>w. (False, w))) two_chain] [0]"

lemma tell_run_reachable: "(step tell_env)\<^sup>*\<^sup>* (tell_start engines) (tell_run engines sched)"
  unfolding tell_run_def by (rule run_steps)

text \<open>The loop of \<open>tell\<close> counts and submits its targets one by one. There is an execution
  in which the first target of a relation is done before the second one is counted: the
  completion callback runs and the waiting caller returns, and only then the second node is
  called.\<close>

theorem dispatch_race_completes_early:
  "(step tell_env)\<^sup>*\<^sup>* (tell_start [tell_engine None fan_chain]) fan_race \<and>
   (\<exists>ev \<in> set (after_completion fan_race). work_event ev)"
proof
  show "(step tell_env)\<^sup>*\<^sup>* (tell_start [tell_engine None fan_chain]) fan_race"
    unfolding fan_race_def by (rule tell_run_reachable)
  show "\<exists>ev \<in> set (after_completion fan_race). work_event ev" by code_simp
qed

text \<open>A node that hands a message on over two relations without targets ends two
  branches but is counted once: the completion callback runs before the second end
  callback.\<close>

theorem two_relations_complete_early:
  "(step tell_env)\<^sup>*\<^sup>* (tell_start [tell_engine None two_chain]) two_rels \<and>
   (\<exists>ev \<in> set (after_completion two_rels). work_event ev)"
proof
  show "(step tell_env)\<^sup>*\<^sup>* (tell_start [tell_engine None two_chain]) two_rels"
    unfolding two_rels_def by (rule tell_run_reachable)
  show "\<exists>ev \<in> set (after_completion two_rels). work_event ev" by code_simp
qed

text \<open>An execution of a chain with a connection to a sub rule chain, which is started without callbacks; nothing
  makes the context of the connection done, and \<open>OnMsgAndWait\<close> of the outer chain does not
  return although the sub rule chain has completed.\<close>

theorem sub_chain_connection_hangs:
  "(step tell_env)\<^sup>*\<^sup>*
     (tell_start [tell_engine None sub_chain, tell_engine None (tell_chain ''sub'' [(''b'', [''Success''])] [] [])])
     sub_run \<and>
   hung sub_run \<and> EvCompleted ''sub'' 3 \<in> set (s_trace sub_run) \<and> EvCompleted ''c'' 0 \<notin> set (s_trace sub_run)"
proof (intro conjI)
  show "(step tell_env)\<^sup>*\<^sup>*
     (tell_start [tell_engine None sub_chain, tell_engine None (tell_chain ''sub'' [(''b'', [''Success''])] [] [])])
     sub_run"
    unfolding sub_run_def by (rule tell_run_reachable)
  show "hung sub_run" by code_simp
  show "EvCompleted ''sub'' 3 \<in> set (s_trace sub_run)" by code_simp
  show "EvCompleted ''c'' 0 \<notin> set (s_trace sub_run)" by code_simp
qed

text \<open>A task the pool refuses is only logged: the message is lost, the completion callback
  never runs and \<open>OnMsgAndWait\<close> does not return.\<close>

theorem refused_task_hangs:
  "(step tell_env)\<^sup>*\<^sup>* (tell_start [tell_engine (Some (\<lambda>w. (False, w))) two_chain]) refused_run \<and>
   hung refused_run \<and> s_trace refused_run = [EvSubmitRefused]"
proof (intro conjI)
  show "(step tell_env)\<^sup>*\<^sup>* (tell_start [tell_engine (Some (\<lambda>w. (False, w))) two_chain]) refused_run"
    unfolding refused_run_def by (rule tell_run_reachable)
  show "hung refused_run" by code_simp
  show "s_trace refused_run = [EvSubmitRefused]" by code_simp
qed

text \<open>A node that tells two relations with one target each, all nodes in debug mode.\<close>

definition var_chain :: RuleChain where
  "var_chain =
     (let d = tell_chain ''c'' [(''a'', [''A'', ''B'']), (''x'', [''Success'']), (''y'', [''Success''])]
                [(''a'', ''x'', ''A''), (''a'', ''y'', ''B'')] []
      in d\<lparr>rch_Metadata := (rch_Metadata d)\<lparr>rm_Nodes :=
           map (\<lambda>n. n\<lparr>rn_DebugMode := True\<rparr>) (rm_Nodes (rch_Metadata d))\<rparr>\<rparr>)"

definition var_engine :: "string \<times> (Configuration, unit) RuleEngine" where
  "var_engine =
     (''c'', demo_engine\<lparr>re_Id := ''c'',
        re_root := (case InitRuleChainCtx tell_ops demo_reg sort_Slice demo_pool (types_NewConfig [WithOnDebug True]) var_chain of
                      Inr rc \<Rightarrow> Some rc | Inl _ \<Rightarrow> None)\<rparr>)"

definition var_run :: "(Configuration, unit) sys" where
  "var_run = tell_run [var_engine] ([0] @ replicate 16 1 @ concat (replicate 10 [2, 3, 4, 5, 6, 7, 8]))"

text \<open>The tasks that \<open>tell\<close> submits share its loop variable. There is an execution in which
  the target of the relation \<open>A\<close>, reached over no other relation, is entered with the relation
  \<open>B\<close>: the debug callback reports the wrong relation, and aspects get it as well.\<close>

theorem relation_variable_shared:
  "(step tell_env)\<^sup>*\<^sup>* (tell_start [var_engine]) var_run \<and>
   EvDebug ''c'' In ''x'' demo_msg ''B'' None \<in> set (s_trace var_run)"
proof
  show "(step tell_env)\<^sup>*\<^sup>* (tell_start [var_engine]) var_run"
    unfolding var_run_def by (rule tell_run_reachable)
  show "EvDebug ''c'' In ''x'' demo_msg ''B'' None \<in> set (s_trace var_run)" by code_simp
qed

end
