(* ===== verification/Pool.thy ===== *)
theory Pool
  imports Prelude
begin

text \<open>
  The worker pool (\<open>pool/workerpool.go\<close>). A worker is the index of its \<open>workerChan\<close>; a task
  is a value of type \<open>'f\<close>, and a nil function (\<open>None\<close>) tells a worker to stop. Every section
  that holds the lock is one step, and so are sending on a channel, receiving from it and
  running a task; they interleave in any order. The time is an argument of the steps that
  read the clock. A \<open>workerChan\<close> taken back from the \<open>sync.Pool\<close> is like a new one: a worker
  only ends with an empty channel.
\<close>

section \<open>The interface of a pool\<close>

text \<open>What the engine needs of \<open>Pool\<close>: a task that is accepted is among the tasks the pool will
  still run, a task that is refused is not.\<close>

locale task_pool =
  fixes submit :: "'f \<Rightarrow> 's \<Rightarrow> bool \<times> 's"
    and todo :: "'s \<Rightarrow> 'f multiset"
  assumes submit_ok: "submit f s = (True, s') \<Longrightarrow> todo s' = add_mset f (todo s)"
    and submit_refused: "submit f s = (False, s') \<Longrightarrow> todo s' = todo s"
begin

fun submit_all :: "'f list \<Rightarrow> 's \<Rightarrow> 'f list \<times> 's" where
  "submit_all [] s = ([], s)"
| "submit_all (f # fs) s =
     (case submit f s of (ok, s') \<Rightarrow>
        (case submit_all fs s' of (acc, s'') \<Rightarrow> (if ok then f # acc else acc, s'')))"

lemma todo_submit_all:
  "submit_all fs s = (acc, s') \<Longrightarrow> todo s' = mset acc + todo s"
proof (induction fs arbitrary: s acc s')
  case Nil
  then show ?case by simp
next
  case (Cons f fs)
  obtain ok s1 where s1: "submit f s = (ok, s1)" by force
  obtain acc1 s2 where "submit_all fs s1 = (acc1, s2)" by force
  with Cons s1 submit_ok [of f s s1] submit_refused [of f s s1] show ?case by (cases ok) auto
qed

end

section \<open>State\<close>

datatype 'f wstate = WIdle | WRunning 'f | WExiting | WStopped

record 'f worker =
  w_lastUseTime :: int
  w_ch :: "'f option list"
  w_state :: "'f wstate"

text \<open>\<open>wp_sends\<close>: the sends on a channel that have been decided but not performed yet.
  \<open>wp_done\<close>: the tasks that have been run.\<close>

record 'f WorkerPool =
  wp_MaxWorkersCount :: int
  wp_MaxIdleWorkerDuration :: int
  wp_workersCount :: int
  wp_mustStop :: bool
  wp_ready :: "nat list"
  wp_stopCh :: bool
  wp_started :: bool
  wp_workers :: "'f worker list"
  wp_sends :: "(nat \<times> 'f option) list"
  wp_done :: "'f list"

definition new_WorkerPool :: "int \<Rightarrow> int \<Rightarrow> 'f WorkerPool" where
  "new_WorkerPool maxWorkers maxIdle =
     \<lparr>wp_MaxWorkersCount = maxWorkers, wp_MaxIdleWorkerDuration = maxIdle, wp_workersCount = 0,
      wp_mustStop = False, wp_ready = [], wp_stopCh = False, wp_started = False, wp_workers = [],
      wp_sends = [], wp_done = []\<rparr>"

definition upd_worker :: "nat \<Rightarrow> ('f worker \<Rightarrow> 'f worker) \<Rightarrow> 'f WorkerPool \<Rightarrow> 'f WorkerPool" where
  "upd_worker i g wp = wp\<lparr>wp_workers := (wp_workers wp)[i := g (wp_workers wp ! i)]\<rparr>"

section \<open>Operations\<close>

text \<open>\<open>Start\<close>: \<open>startOnce\<close> lets only the first call take effect, even after \<open>Stop\<close>. The goroutine
  it starts calls \<open>clean\<close> again and again, which is a step of its own below.\<close>

definition Start :: "'f WorkerPool \<Rightarrow> 'f WorkerPool" where
  "Start wp =
     (if wp_stopCh wp then wp
      else if wp_started wp then wp
      else wp\<lparr>wp_stopCh := True, wp_started := True\<rparr>)"

definition WorkerPool_Stop :: "'f WorkerPool \<Rightarrow> 'f WorkerPool" where
  "WorkerPool_Stop wp =
     (if \<not> wp_stopCh wp then wp
      else wp\<lparr>wp_stopCh := False, wp_sends := wp_sends wp @ map (\<lambda>ch. (ch, None)) (wp_ready wp),
              wp_ready := [], wp_mustStop := True\<rparr>)"

definition Release :: "'f WorkerPool \<Rightarrow> 'f WorkerPool" where
  "Release wp = WorkerPool_Stop wp"

definition getMaxIdleWorkerDuration :: "'f WorkerPool \<Rightarrow> int" where
  "getMaxIdleWorkerDuration wp =
     (if wp_MaxIdleWorkerDuration wp \<le> 0 then 10 * 1000000000 else wp_MaxIdleWorkerDuration wp)"

text \<open>The loop of \<open>clean\<close>: \<open>r\<close> is the answer when \<open>l\<close> has passed it.\<close>

function clean_search :: "int list \<Rightarrow> int \<Rightarrow> int \<Rightarrow> int \<Rightarrow> int" where
  "clean_search ts criticalTime l r =
     (if l \<le> r then
        (let mid = (l + r) div 2
         in if ts ! nat mid < criticalTime then clean_search ts criticalTime (mid + 1) r
            else clean_search ts criticalTime l (mid - 1))
      else r)"
  by pat_completeness auto
termination
  by (relation "measure (\<lambda>(ts, crit, l, r). nat (r - l + 1))") auto

declare clean_search.simps [simp del]

definition clean :: "int \<Rightarrow> 'f WorkerPool \<Rightarrow> 'f WorkerPool" where
  "clean now wp =
     (let criticalTime = now - getMaxIdleWorkerDuration wp;
          ready = wp_ready wp;
          n = int (length ready);
          i = clean_search (map (\<lambda>ch. w_lastUseTime (wp_workers wp ! ch)) ready) criticalTime 0 (n - 1)
      in if i = -1 then wp
         else wp\<lparr>wp_ready := drop (nat (i + 1)) ready,
                 wp_sends := wp_sends wp @ map (\<lambda>ch. (ch, None)) (take (nat (i + 1)) ready)\<rparr>)"

text \<open>\<open>getCh\<close>: the worker that became idle last, or a new one. \<open>Start\<close> sets the constructor of the
  \<open>sync.Pool\<close>: before it, the assertion \<open>vch.(*workerChan)\<close> panics, with the worker counted.\<close>

datatype got_ch = NoCh | Ch nat | ChPanics

definition getCh :: "'f WorkerPool \<Rightarrow> got_ch \<times> 'f WorkerPool" where
  "getCh wp =
     (if wp_ready wp = [] then
        (if wp_workersCount wp < wp_MaxWorkersCount wp then
           (if \<not> wp_started wp then (ChPanics, wp\<lparr>wp_workersCount := wp_workersCount wp + 1\<rparr>)
            else (Ch (length (wp_workers wp)),
                  wp\<lparr>wp_workersCount := wp_workersCount wp + 1,
                     wp_workers := wp_workers wp @ [\<lparr>w_lastUseTime = 0, w_ch = [], w_state = WIdle\<rparr>]\<rparr>))
         else (NoCh, wp))
      else (Ch (last (wp_ready wp)), wp\<lparr>wp_ready := butlast (wp_ready wp)\<rparr>))"

datatype submitted = Accepted | NoIdleWorkers | SubmitPanics

definition Submit :: "'f \<Rightarrow> 'f WorkerPool \<Rightarrow> submitted \<times> 'f WorkerPool" where
  "Submit fn wp =
     (case getCh wp of
        (NoCh, wp) \<Rightarrow> (NoIdleWorkers, wp)
      | (ChPanics, wp) \<Rightarrow> (SubmitPanics, wp)
      | (Ch ch, wp) \<Rightarrow> (Accepted, wp\<lparr>wp_sends := wp_sends wp @ [(ch, Some fn)]\<rparr>))"

definition release :: "int \<Rightarrow> nat \<Rightarrow> 'f WorkerPool \<Rightarrow> bool \<times> 'f WorkerPool" where
  "release now ch wp =
     (let wp = upd_worker ch (\<lambda>w. w\<lparr>w_lastUseTime := now\<rparr>) wp
      in if wp_mustStop wp then (False, wp) else (True, wp\<lparr>wp_ready := wp_ready wp @ [ch]\<rparr>))"

section \<open>Steps\<close>

text \<open>\<open>cap\<close> is \<open>workerChanCap\<close>. A send on an unbuffered channel needs a waiting receiver, one on a
  buffered channel a free place.\<close>

definition can_send :: "nat \<Rightarrow> 'f worker \<Rightarrow> bool" where
  "can_send cap w = (length (w_ch w) < cap \<or> cap = 0 \<and> w_state w = WIdle \<and> w_ch w = [])"

text \<open>\<open>workerFunc\<close>: receiving, running with the release of the worker, and leaving.\<close>

definition receive :: "nat \<Rightarrow> 'f WorkerPool \<Rightarrow> 'f WorkerPool" where
  "receive i wp =
     (case w_ch (wp_workers wp ! i) of
        [] \<Rightarrow> wp
      | fn # rest \<Rightarrow>
          upd_worker i (\<lambda>w. w\<lparr>w_ch := rest,
            w_state := (case fn of None \<Rightarrow> WExiting | Some f \<Rightarrow> WRunning f)\<rparr>) wp)"

definition run_task :: "int \<Rightarrow> nat \<Rightarrow> 'f WorkerPool \<Rightarrow> 'f WorkerPool" where
  "run_task now i wp =
     (case w_state (wp_workers wp ! i) of
        WRunning f \<Rightarrow>
          (case release now i (wp\<lparr>wp_done := wp_done wp @ [f]\<rparr>) of
             (True, wp) \<Rightarrow> upd_worker i (\<lambda>w. w\<lparr>w_state := WIdle\<rparr>) wp
           | (False, wp) \<Rightarrow> upd_worker i (\<lambda>w. w\<lparr>w_state := WExiting\<rparr>) wp)
      | _ \<Rightarrow> wp)"

definition leave :: "nat \<Rightarrow> 'f WorkerPool \<Rightarrow> 'f WorkerPool" where
  "leave i wp =
     (upd_worker i (\<lambda>w. w\<lparr>w_state := WStopped\<rparr>) wp)\<lparr>wp_workersCount := wp_workersCount wp - 1\<rparr>"

definition send :: "nat \<Rightarrow> 'f WorkerPool \<Rightarrow> 'f WorkerPool" where
  "send k wp =
     (case wp_sends wp ! k of
        (ch, fn) \<Rightarrow> (upd_worker ch (\<lambda>w. w\<lparr>w_ch := w_ch w @ [fn]\<rparr>) wp)
                     \<lparr>wp_sends := take k (wp_sends wp) @ drop (Suc k) (wp_sends wp)\<rparr>)"

text \<open>The steps of the pool itself.\<close>

inductive work_step :: "nat \<Rightarrow> 'f WorkerPool \<Rightarrow> 'f WorkerPool \<Rightarrow> bool" for cap where
  send: "k < length (wp_sends wp) \<Longrightarrow> can_send cap (wp_workers wp ! fst (wp_sends wp ! k)) \<Longrightarrow>
           work_step cap wp (send k wp)"
| receive: "i < length (wp_workers wp) \<Longrightarrow> w_state (wp_workers wp ! i) = WIdle \<Longrightarrow>
            w_ch (wp_workers wp ! i) \<noteq> [] \<Longrightarrow> work_step cap wp (receive i wp)"
| run: "i < length (wp_workers wp) \<Longrightarrow> w_state (wp_workers wp ! i) = WRunning f \<Longrightarrow>
          work_step cap wp (run_task now i wp)"
| leave: "i < length (wp_workers wp) \<Longrightarrow> w_state (wp_workers wp ! i) = WExiting \<Longrightarrow>
            work_step cap wp (leave i wp)"

inductive_cases work_stepE: "work_step cap wp wp'"

text \<open>The reachable states of a pool, with the tasks it has accepted: the callers start, stop,
  submit and the cleaner runs at any time.\<close>

inductive pool_reach :: "nat \<Rightarrow> int \<Rightarrow> int \<Rightarrow> 'f WorkerPool \<Rightarrow> 'f list \<Rightarrow> bool" for cap maxWorkers maxIdle where
  init: "pool_reach cap maxWorkers maxIdle (new_WorkerPool maxWorkers maxIdle) []"
| start: "pool_reach cap maxWorkers maxIdle wp acc \<Longrightarrow> pool_reach cap maxWorkers maxIdle (Start wp) acc"
| stop: "pool_reach cap maxWorkers maxIdle wp acc \<Longrightarrow> pool_reach cap maxWorkers maxIdle (WorkerPool_Stop wp) acc"
| clean: "pool_reach cap maxWorkers maxIdle wp acc \<Longrightarrow> pool_reach cap maxWorkers maxIdle (clean now wp) acc"
| submit: "pool_reach cap maxWorkers maxIdle wp acc \<Longrightarrow> Submit fn wp = (r, wp') \<Longrightarrow> r \<noteq> SubmitPanics \<Longrightarrow>
             pool_reach cap maxWorkers maxIdle wp' (if r = Accepted then acc @ [fn] else acc)"
| work: "pool_reach cap maxWorkers maxIdle wp acc \<Longrightarrow> work_step cap wp wp' \<Longrightarrow>
           pool_reach cap maxWorkers maxIdle wp' acc"

section \<open>The invariant of the workers\<close>

text \<open>A worker that waits is either ready, or something is on its way to it; a worker that
  does not wait is neither.\<close>

definition load :: "'f WorkerPool \<Rightarrow> nat \<Rightarrow> nat" where
  "load wp i =
     count_list (wp_ready wp) i + count_list (map fst (wp_sends wp)) i + length (w_ch (wp_workers wp ! i))"

definition alive :: "'f WorkerPool \<Rightarrow> nat" where
  "alive wp = sum_list (map (\<lambda>w. if w_state w = WStopped then 0 else 1) (wp_workers wp))"

definition pool_inv :: "'f WorkerPool \<Rightarrow> bool" where
  "pool_inv wp =
     ((\<forall>i < length (wp_workers wp). load wp i = (if w_state (wp_workers wp ! i) = WIdle then 1 else 0)) \<and>
      set (wp_ready wp) \<union> fst ` set (wp_sends wp) \<subseteq> {..<length (wp_workers wp)} \<and>
      wp_workersCount wp = int (alive wp) \<and> wp_workersCount wp \<le> max 0 (wp_MaxWorkersCount wp) \<and>
      (wp_mustStop wp \<longrightarrow> wp_ready wp = []))"

definition worker_tasks :: "'f worker \<Rightarrow> 'f list" where
  "worker_tasks w =
     List.map_filter (\<lambda>x. x) (w_ch w) @ (case w_state w of WRunning f \<Rightarrow> [f] | _ \<Rightarrow> [])"

definition todo :: "'f WorkerPool \<Rightarrow> 'f multiset" where
  "todo wp = mset (List.map_filter snd (wp_sends wp)) + mset (concat (map worker_tasks (wp_workers wp)))"

lemma mset_concat_map_update:
  "i < length xs \<Longrightarrow>
     mset (concat (map f (xs[i := x]))) + mset (f (xs ! i)) = mset (concat (map f xs)) + mset (f x)"
proof (induction xs arbitrary: i)
  case Nil
  then show ?case by simp
next
  case (Cons y ys)
  then show ?case by (cases i) (auto simp: ac_simps)
qed

lemma map_filter_append [simp]: "List.map_filter f (xs @ ys) = List.map_filter f xs @ List.map_filter f ys"
  by (simp add: map_filter_def)

lemma map_filter_nils [simp]: "List.map_filter snd (map (\<lambda>ch. (ch, None)) xs) = []"
  by (induction xs) (auto simp: map_filter_simps)

lemma map_fst_nils [simp]: "map (fst \<circ> (\<lambda>ch. (ch, None))) xs = xs"
  by (induction xs) auto

lemma load_upd: "i \<noteq> j \<Longrightarrow> load (upd_worker j g wp) i = load wp i"
  by (simp add: load_def upd_worker_def)

lemma alive_upd:
  "i < length (wp_workers wp) \<Longrightarrow>
     alive (upd_worker i g wp) + (if w_state (wp_workers wp ! i) = WStopped then 0 else 1) =
     alive wp + (if w_state (g (wp_workers wp ! i)) = WStopped then 0 else 1)"
  using sum_list_map_update [of i "wp_workers wp" "\<lambda>w. if w_state w = WStopped then 0 else 1" "g (wp_workers wp ! i)"]
  by (simp only: alive_def upd_worker_def) simp

lemma pool_inv_init: "pool_inv (new_WorkerPool maxWorkers maxIdle)"
  by (simp add: pool_inv_def new_WorkerPool_def alive_def)

lemma pool_inv_Start: "pool_inv wp \<Longrightarrow> pool_inv (Start wp)"
  by (simp add: Start_def pool_inv_def load_def alive_def)

text \<open>Idle workers are taken off the ready list and told to stop.\<close>

lemma pool_inv_retire:
  assumes inv: "pool_inv wp" and m: "mset ready + mset moved = mset (wp_ready wp)"
    and w: "wp_sends wp' = wp_sends wp @ map (\<lambda>ch. (ch, None)) moved" "wp_ready wp' = ready"
      "wp_workers wp' = wp_workers wp" "wp_workersCount wp' = wp_workersCount wp"
      "wp_MaxWorkersCount wp' = wp_MaxWorkersCount wp"
    and s: "wp_mustStop wp' \<longrightarrow> ready = []"
  shows "pool_inv wp'"
proof -
  have "count_list ready i + count_list moved i = count_list (wp_ready wp) i" for i
    using arg_cong [OF m, of "\<lambda>M. count M i"] by (simp add: count_mset)
  then have "load wp' i = load wp i" for i
    by (simp add: load_def w ac_simps)
  moreover have "set ready \<union> set moved = set (wp_ready wp)"
    using arg_cong [OF m, of set_mset] by simp
  ultimately show ?thesis using inv s
    by (auto simp: pool_inv_def w alive_def image_image)
qed

lemma pool_inv_Stop:
  assumes "pool_inv wp"
  shows "pool_inv (WorkerPool_Stop wp)"
proof (cases "wp_stopCh wp")
  case True
  show ?thesis
    by (rule pool_inv_retire [OF assms, where ready = "[]" and moved = "wp_ready wp"])
       (use True in \<open>simp_all add: WorkerPool_Stop_def\<close>)
next
  case False
  with assms show ?thesis by (simp add: WorkerPool_Stop_def)
qed

lemma mset_drop_take: "mset (drop k xs) + mset (take k xs) = mset xs"
  by (metis add.commute append_take_drop_id mset_append)

lemma pool_inv_clean:
  assumes "pool_inv wp"
  shows "pool_inv (clean now wp)"
proof -
  have m: "wp_mustStop wp \<longrightarrow> drop k (wp_ready wp) = []" for k using assms by (simp add: pool_inv_def)
  have "pool_inv (wp\<lparr>wp_ready := drop k (wp_ready wp),
          wp_sends := wp_sends wp @ map (\<lambda>ch. (ch, None)) (take k (wp_ready wp))\<rparr>)" for k
    by (rule pool_inv_retire [OF assms mset_drop_take [of k] ]) (simp_all add: m)
  with assms show ?thesis by (simp add: clean_def Let_def)
qed

lemma pool_inv_new_worker:
  assumes inv: "pool_inv wp" and r: "wp_ready wp = []" and c: "wp_workersCount wp < wp_MaxWorkersCount wp"
    and w: "wp' = wp\<lparr>wp_workersCount := wp_workersCount wp + 1,
                     wp_workers := wp_workers wp @ [\<lparr>w_lastUseTime = 0, w_ch = [], w_state = WIdle\<rparr>],
                     wp_sends := wp_sends wp @ [(length (wp_workers wp), Some fn)]\<rparr>"
  shows "pool_inv wp'"
proof -
  let ?n = "length (wp_workers wp)"
  have s: "fst ` set (wp_sends wp) \<subseteq> {..<?n}" using inv by (simp add: pool_inv_def)
  then have "?n \<notin> fst ` set (wp_sends wp)" by blast
  then have "count_list (map fst (wp_sends wp)) ?n = 0" by (simp add: count_list_0_iff)
  then have n: "load wp' ?n = 1" by (simp add: load_def w r)
  have o: "load wp' i = load wp i" if "i < ?n" for i using that by (simp add: load_def w r nth_append)
  have "load wp' i = (if w_state (wp_workers wp' ! i) = WIdle then 1 else 0)" if "i < Suc ?n" for i
    using that n o inv by (cases "i = ?n") (simp_all add: w pool_inv_def nth_append less_Suc_eq)
  moreover have "wp_workersCount wp' = int (alive wp')" using inv by (simp add: w alive_def pool_inv_def)
  moreover have "fst ` set (wp_sends wp') \<subseteq> {..<Suc ?n}" using s by (auto simp: w)
  ultimately show ?thesis using r c by (simp add: pool_inv_def w)
qed

lemma Submit_cases:
  assumes "Submit fn wp = (r, wp')"
  obtains (refused) "r = NoIdleWorkers" "wp' = wp" "wp_ready wp = []" "wp_MaxWorkersCount wp \<le> wp_workersCount wp"
  | (panics) "r = SubmitPanics" "\<not> wp_started wp" "wp' = wp\<lparr>wp_workersCount := wp_workersCount wp + 1\<rparr>"
      "wp_workersCount wp < wp_MaxWorkersCount wp" "wp_ready wp = []"
  | (worker) "r = Accepted" "wp_ready wp = []" "wp_workersCount wp < wp_MaxWorkersCount wp" "wp_started wp"
      "wp' = wp\<lparr>wp_workersCount := wp_workersCount wp + 1,
                wp_workers := wp_workers wp @ [\<lparr>w_lastUseTime = 0, w_ch = [], w_state = WIdle\<rparr>],
                wp_sends := wp_sends wp @ [(length (wp_workers wp), Some fn)]\<rparr>"
  | (ready) ready x where "r = Accepted" "wp_ready wp = ready @ [x]"
      "wp' = wp\<lparr>wp_ready := ready, wp_sends := wp_sends wp @ [(x, Some fn)]\<rparr>"
proof (cases "wp_ready wp = []")
  case True
  show ?thesis
  proof (cases "wp_workersCount wp < wp_MaxWorkersCount wp")
    case c: True
    show ?thesis using panics worker True c assms
      by (cases "wp_started wp") (simp_all add: Submit_def getCh_def)
  next
    case False
    then show ?thesis using refused True assms by (simp add: Submit_def getCh_def)
  qed
next
  case False
  then obtain rd x where "wp_ready wp = rd @ [x]" by (metis rev_exhaust)
  then show ?thesis using ready assms by (auto simp: Submit_def getCh_def)
qed

lemma pool_inv_Submit:
  assumes inv: "pool_inv wp" and s: "Submit fn wp = (r, wp')" and "r \<noteq> SubmitPanics"
  shows "pool_inv wp'"
  using s
proof (cases rule: Submit_cases)
  case (ready rd x)
  have "load wp' i = load wp i" for i by (simp add: load_def ready)
  with inv ready show ?thesis by (auto simp: pool_inv_def alive_def)
next
  case worker
  then show ?thesis using pool_inv_new_worker [OF inv, of wp' fn] by simp
qed (use assms in simp_all)

text \<open>A step that changes one worker.\<close>

lemma pool_inv_worker:
  assumes inv: "pool_inv wp" and i: "i < length (wp_workers wp)"
    and w: "wp_workers wp' = (wp_workers wp)[i := x]"
    and l: "load wp' i = (if w_state x = WIdle then 1 else 0)"
    and o: "\<And>j. j \<noteq> i \<Longrightarrow> load wp' j = load wp j"
    and r: "set (wp_ready wp') \<union> fst ` set (wp_sends wp') \<subseteq> insert i (set (wp_ready wp) \<union> fst ` set (wp_sends wp))"
    and c: "wp_workersCount wp' + (if w_state (wp_workers wp ! i) = WStopped then 0 else 1) =
            wp_workersCount wp + (if w_state x = WStopped then 0 else 1)" "wp_workersCount wp' \<le> wp_workersCount wp"
    and m: "wp_MaxWorkersCount wp' = wp_MaxWorkersCount wp" "wp_mustStop wp' \<longrightarrow> wp_ready wp' = []"
  shows "pool_inv wp'"
proof -
  have a: "alive wp' + (if w_state (wp_workers wp ! i) = WStopped then 0 else 1) =
        alive wp + (if w_state x = WStopped then 0 else 1)"
    using alive_upd [OF i, of "\<lambda>_. x"] w by (simp add: alive_def upd_worker_def)
  have "wp_workersCount wp' = int (alive wp')"
    using inv c(1) a by (auto simp: pool_inv_def split: if_splits)
  moreover have "load wp' j = (if w_state (wp_workers wp' ! j) = WIdle then 1 else 0)" if "j < length (wp_workers wp)" for j
    using that inv l o w i by (cases "j = i") (auto simp: pool_inv_def)
  moreover have "set (wp_ready wp') \<union> fst ` set (wp_sends wp') \<subseteq> {..<length (wp_workers wp)}"
  proof -
    have "insert i (set (wp_ready wp) \<union> fst ` set (wp_sends wp)) \<subseteq> {..<length (wp_workers wp)}"
      using inv i by (simp add: pool_inv_def)
    with r show ?thesis by (rule subset_trans)
  qed
  moreover have "wp_workersCount wp' \<le> max 0 (wp_MaxWorkersCount wp')"
    using inv c(2) m(1) by (simp add: pool_inv_def)
  ultimately show ?thesis using m(2) by (simp add: pool_inv_def w)
qed

lemma pool_inv_load:
  assumes "pool_inv wp" and "i < length (wp_workers wp)"
  shows "load wp i = (if w_state (wp_workers wp ! i) = WIdle then 1 else 0)"
  using assms by (simp add: pool_inv_def)

lemma sends_split:
  assumes "k < length (wp_sends wp)" and "wp_sends wp ! k = (c, fn)"
  obtains xs ys where "wp_sends wp = xs @ (c, fn) # ys"
    "take k (wp_sends wp) @ drop (Suc k) (wp_sends wp) = xs @ ys"
  using assms id_take_nth_drop [OF assms(1)] by metis

lemma send_effect:
  assumes "k < length (wp_sends wp)" and "wp_sends wp ! k = (c, fn)"
  obtains xs ys where "wp_sends wp = xs @ (c, fn) # ys"
    "send k wp = (upd_worker c (\<lambda>w. w\<lparr>w_ch := w_ch w @ [fn]\<rparr>) wp)\<lparr>wp_sends := xs @ ys\<rparr>"
proof -
  obtain xs ys where x: "wp_sends wp = xs @ (c, fn) # ys" "take k (wp_sends wp) @ drop (Suc k) (wp_sends wp) = xs @ ys"
    by (rule sends_split [OF assms])
  then show ?thesis using assms(2) by (intro that [OF x(1)]) (simp add: send_def)
qed

lemma pool_inv_work:
  assumes inv: "pool_inv wp" and st: "work_step cap wp wp'"
  shows "pool_inv wp'"
  using st
proof cases
  case (send k)
  obtain c fn where cf: "wp_sends wp ! k = (c, fn)" by force
  then obtain xs ys where x: "wp_sends wp = xs @ (c, fn) # ys"
    "send k wp = (upd_worker c (\<lambda>w. w\<lparr>w_ch := w_ch w @ [fn]\<rparr>) wp)\<lparr>wp_sends := xs @ ys\<rparr>"
    by (rule send_effect [OF send(2)])
  have c: "c < length (wp_workers wp)" using inv x by (auto simp: pool_inv_def)
  have "load wp c = 1" "w_state (wp_workers wp ! c) = WIdle"
    using pool_inv_load [OF inv c] x by (auto simp: load_def split: if_splits)
  with c x show ?thesis unfolding send(1)
    by (intro pool_inv_worker [OF inv c, where x = "(wp_workers wp ! c)\<lparr>w_ch := w_ch (wp_workers wp ! c) @ [fn]\<rparr>"])
       (use inv in \<open>auto simp: upd_worker_def load_def pool_inv_def\<close>)
next
  case (receive i)
  then obtain fn rest where r: "w_ch (wp_workers wp ! i) = fn # rest" by (cases "w_ch (wp_workers wp ! i)") auto
  let ?x = "(wp_workers wp ! i)\<lparr>w_ch := rest, w_state := (case fn of None \<Rightarrow> WExiting | Some f \<Rightarrow> WRunning f)\<rparr>"
  have "load wp i = 1" using pool_inv_load [OF inv receive(2)] receive(3) by simp
  with r receive(2,3) show ?thesis unfolding receive(1)
    by (intro pool_inv_worker [OF inv receive(2), where x = ?x])
       (use inv in \<open>auto simp: receive_def upd_worker_def load_def pool_inv_def split: option.splits\<close>)
next
  case (run i f now)
  have l: "load wp i = 0" using pool_inv_load [OF inv run(2)] run(3) by simp
  show ?thesis
  proof (cases "wp_mustStop wp")
    case True
    with l run show ?thesis unfolding run(1)
      by (intro pool_inv_worker [OF inv run(2), where x = "(wp_workers wp ! i)\<lparr>w_lastUseTime := now, w_state := WExiting\<rparr>"])
         (use inv in \<open>auto simp: run_task_def release_def upd_worker_def load_def pool_inv_def Let_def\<close>)
  next
    case False
    with l run show ?thesis unfolding run(1)
      by (intro pool_inv_worker [OF inv run(2), where x = "(wp_workers wp ! i)\<lparr>w_lastUseTime := now, w_state := WIdle\<rparr>"])
         (use inv in \<open>auto simp: run_task_def release_def upd_worker_def load_def pool_inv_def Let_def\<close>)
  qed
next
  case (leave i)
  have l: "load wp i = 0" using pool_inv_load [OF inv leave(2)] leave(3) by simp
  with leave show ?thesis unfolding leave(1)
    by (intro pool_inv_worker [OF inv leave(2), where x = "(wp_workers wp ! i)\<lparr>w_state := WStopped\<rparr>"])
       (use inv in \<open>auto simp: leave_def upd_worker_def load_def pool_inv_def\<close>)
qed

section \<open>What becomes of the accepted tasks\<close>

lemma todo_Start: "todo (Start wp) = todo wp"
  by (simp add: todo_def Start_def)

lemma todo_Stop: "todo (WorkerPool_Stop wp) = todo wp"
  by (simp add: todo_def WorkerPool_Stop_def)

lemma todo_clean: "todo (clean now wp) = todo wp"
  by (simp add: todo_def clean_def Let_def)

lemma todo_Submit:
  assumes "Submit fn wp = (r, wp')"
  shows "todo wp' = (if r = Accepted then add_mset fn (todo wp) else todo wp)"
  using assms by (cases rule: Submit_cases) (simp_all add: todo_def worker_tasks_def map_filter_simps)

interpretation worker_pool: task_pool "\<lambda>fn wp. map_prod (\<lambda>r. r = Accepted) (\<lambda>wp. wp) (Submit fn wp)" todo
  by unfold_locales (auto simp: map_prod_def todo_Submit split: prod.splits)

lemma done_frame [simp]:
  "wp_done (Start wp) = wp_done wp" "wp_done (WorkerPool_Stop wp) = wp_done wp"
  "wp_done (clean now wp) = wp_done wp" "wp_done (upd_worker i g wp) = wp_done wp"
  by (simp_all add: Start_def WorkerPool_Stop_def clean_def upd_worker_def Let_def)

lemma done_Submit: "Submit fn wp = (r, wp') \<Longrightarrow> wp_done wp' = wp_done wp"
  by (erule Submit_cases) simp_all

text \<open>One worker is replaced: its share of the tasks is replaced.\<close>

lemma todo_upd_worker:
  assumes "i < length (wp_workers wp)"
  shows "todo (upd_worker i g wp) + mset (worker_tasks (wp_workers wp ! i)) =
         todo wp + mset (worker_tasks (g (wp_workers wp ! i)))"
  using mset_concat_map_update [OF assms, of worker_tasks "g (wp_workers wp ! i)"]
  by (simp add: todo_def upd_worker_def)

lemma todo_sends: "todo (wp\<lparr>wp_sends := ss\<rparr>) + mset (List.map_filter snd (wp_sends wp)) = todo wp + mset (List.map_filter snd ss)"
  by (simp add: todo_def)

lemma todo_frame [simp]:
  "todo (wp\<lparr>wp_done := d\<rparr>) = todo wp" "todo (wp\<lparr>wp_ready := rd\<rparr>) = todo wp" "todo (wp\<lparr>wp_workersCount := c\<rparr>) = todo wp"
  by (simp_all add: todo_def)

lemma upd_worker_nth [simp]:
  "i < length (wp_workers wp) \<Longrightarrow> wp_workers (upd_worker i g wp) ! i = g (wp_workers wp ! i)"
  "length (wp_workers (upd_worker i g wp)) = length (wp_workers wp)"
  by (simp_all add: upd_worker_def)

lemma upd_worker_twice [simp]:
  "i < length (wp_workers wp) \<Longrightarrow> upd_worker i h (upd_worker i g wp) = upd_worker i (\<lambda>w. h (g w)) wp"
  by (simp add: upd_worker_def)

lemma run_task_effect:
  assumes i: "i < length (wp_workers wp)" and r: "w_state (wp_workers wp ! i) = WRunning f"
  shows "mset (wp_done (run_task now i wp)) = add_mset f (mset (wp_done wp))"
    and "add_mset f (todo (run_task now i wp)) = todo wp"
proof -
  have u: "todo (upd_worker i (\<lambda>w. w\<lparr>w_lastUseTime := now, w_state := s\<rparr>) (wp\<lparr>wp_done := d\<rparr>)) + {#f#} = todo wp"
    if "s = WIdle \<or> s = WExiting" for s d
    using todo_upd_worker [of i "wp\<lparr>wp_done := d\<rparr>" "\<lambda>w. w\<lparr>w_lastUseTime := now, w_state := s\<rparr>"] i r that
    by (auto simp: worker_tasks_def)
  have c: "upd_worker i g (wp\<lparr>wp_ready := rd\<rparr>) = (upd_worker i g wp)\<lparr>wp_ready := rd\<rparr>" for g rd and wp :: "'a WorkerPool"
    by (simp add: upd_worker_def)
  have "wp_mustStop (upd_worker i g (wp\<lparr>wp_done := d\<rparr>)) = wp_mustStop wp" for g d by (simp add: upd_worker_def)
  then show "mset (wp_done (run_task now i wp)) = add_mset f (mset (wp_done wp))"
    and "add_mset f (todo (run_task now i wp)) = todo wp"
    using u i by (auto simp: run_task_def r release_def Let_def c)
qed

lemma accounting_work:
  assumes inv: "pool_inv wp" and st: "work_step cap wp wp'"
  shows "mset (wp_done wp') + todo wp' = mset (wp_done wp) + todo wp"
  using st
proof cases
  case (send k)
  obtain c fn where cf: "wp_sends wp ! k = (c, fn)" by force
  then obtain xs ys where x: "wp_sends wp = xs @ (c, fn) # ys"
    "send k wp = (upd_worker c (\<lambda>w. w\<lparr>w_ch := w_ch w @ [fn]\<rparr>) wp)\<lparr>wp_sends := xs @ ys\<rparr>"
    by (rule send_effect [OF send(2)])
  have c: "c < length (wp_workers wp)" using inv x by (auto simp: pool_inv_def)
  let ?u = "upd_worker c (\<lambda>w. w\<lparr>w_ch := w_ch w @ [fn]\<rparr>) wp"
  have "todo ?u = todo wp + mset (List.map_filter (\<lambda>x. x) [fn])"
    using todo_upd_worker [OF c, of "\<lambda>w. w\<lparr>w_ch := w_ch w @ [fn]\<rparr>"] by (simp add: worker_tasks_def ac_simps)
  moreover have "wp_sends ?u = wp_sends wp" by (simp add: upd_worker_def)
  ultimately have "todo (send k wp) = todo wp"
    using todo_sends [of "xs @ ys" ?u] x by (cases fn) (simp_all add: map_filter_simps ac_simps)
  then show ?thesis using x(2) send(1) by simp
next
  case (receive i)
  then obtain fn rest where r: "w_ch (wp_workers wp ! i) = fn # rest" by (cases "w_ch (wp_workers wp ! i)") auto
  then have e: "receive i wp = upd_worker i (\<lambda>w. w\<lparr>w_ch := rest, w_state := (case fn of None \<Rightarrow> WExiting | Some f \<Rightarrow> WRunning f)\<rparr>) wp"
    by (simp add: receive_def)
  show ?thesis using todo_upd_worker [OF receive(2), of "\<lambda>w. w\<lparr>w_ch := rest, w_state := (case fn of None \<Rightarrow> WExiting | Some f \<Rightarrow> WRunning f)\<rparr>"] receive(1,3) r
    by (cases fn) (auto simp: e worker_tasks_def map_filter_simps)
next
  case (run i f now)
  with run_task_effect [OF run(2,3)] show ?thesis
    by (metis add_mset_add_single union_mset_add_mset_left union_mset_add_mset_right)
next
  case (leave i)
  then have "todo (leave i wp) = todo wp"
    using todo_upd_worker [OF leave(2), of "\<lambda>w. w\<lparr>w_state := WStopped\<rparr>"] by (simp add: leave_def worker_tasks_def)
  then show ?thesis using leave(1) by (simp add: leave_def)
qed

lemma MaxWorkersCount_frame [simp]:
  "wp_MaxWorkersCount (Start wp) = wp_MaxWorkersCount wp"
  "wp_MaxWorkersCount (WorkerPool_Stop wp) = wp_MaxWorkersCount wp"
  "wp_MaxWorkersCount (clean now wp) = wp_MaxWorkersCount wp"
  "wp_MaxWorkersCount (upd_worker i g wp) = wp_MaxWorkersCount wp"
  by (simp_all add: Start_def WorkerPool_Stop_def clean_def upd_worker_def Let_def)

lemma MaxWorkersCount_work: "work_step cap wp wp' \<Longrightarrow> wp_MaxWorkersCount wp' = wp_MaxWorkersCount wp"
  by (erule work_stepE)
     (auto simp: send_def receive_def run_task_def release_def leave_def Let_def split: prod.splits list.splits wstate.splits bool.splits)

lemma pool_reach_inv:
  "pool_reach cap maxWorkers maxIdle wp acc \<Longrightarrow>
     pool_inv wp \<and> mset acc = mset (wp_done wp) + todo wp \<and> wp_MaxWorkersCount wp = maxWorkers"
proof (induction rule: pool_reach.induct)
  case init
  show ?case by (simp add: pool_inv_init) (simp add: new_WorkerPool_def todo_def map_filter_simps)
next
  case (submit wp acc fn r wp')
  have "wp_MaxWorkersCount wp' = wp_MaxWorkersCount wp"
    using submit.hyps(2) by (cases rule: Submit_cases) simp_all
  with submit pool_inv_Submit [OF _ submit.hyps(2,3)] todo_Submit [OF submit.hyps(2)] done_Submit [OF submit.hyps(2)]
  show ?case by simp
next
  case (work wp acc wp')
  with pool_inv_work accounting_work MaxWorkersCount_work show ?case by metis
qed (simp_all add: pool_inv_Start pool_inv_Stop pool_inv_clean todo_Start todo_Stop todo_clean)

section \<open>Progress and termination\<close>

text \<open>A worker that has something to do, or something on its way, can move.\<close>

lemma idle_loaded_moves:
  assumes inv: "pool_inv wp" and i: "i < length (wp_workers wp)" and w: "w_state (wp_workers wp ! i) = WIdle"
    and r: "i \<notin> set (wp_ready wp)"
  shows "\<exists>wp'. work_step cap wp wp'"
proof (cases "w_ch (wp_workers wp ! i) = []")
  case True
  have "load wp i = 1" using pool_inv_load [OF inv i] w by simp
  with True r have "count_list (map fst (wp_sends wp)) i \<noteq> 0" by (simp add: load_def)
  then have "i \<in> set (map fst (wp_sends wp))" by (simp only: count_list_0_iff not_not)
  then obtain k where "k < length (wp_sends wp)" "fst (wp_sends wp ! k) = i" by (auto simp: in_set_conv_nth)
  with True w show ?thesis using work_step.send [of k wp cap] by (auto simp: can_send_def)
next
  case False
  with i w show ?thesis by (blast intro: work_step.receive)
qed

lemma quiet_worker:
  assumes inv: "pool_inv wp" and q: "\<nexists>wp'. work_step cap wp wp'" and i: "i < length (wp_workers wp)"
  shows "w_state (wp_workers wp ! i) = WStopped \<or> w_state (wp_workers wp ! i) = WIdle \<and> i \<in> set (wp_ready wp)"
  using idle_loaded_moves [OF inv i] q i work_step.run [OF i] work_step.leave [OF i]
  by (cases "w_state (wp_workers wp ! i)") blast+

lemma quiet_load:
  assumes inv: "pool_inv wp" and q: "\<nexists>wp'. work_step cap wp wp'" and i: "i < length (wp_workers wp)"
  shows "i \<notin> fst ` set (wp_sends wp) \<and> w_ch (wp_workers wp ! i) = []"
proof -
  from quiet_worker [OF assms] have "load wp i = count_list (wp_ready wp) i"
  proof
    assume "w_state (wp_workers wp ! i) = WStopped"
    then show ?thesis using pool_inv_load [OF inv i] by (simp add: load_def)
  next
    assume "w_state (wp_workers wp ! i) = WIdle \<and> i \<in> set (wp_ready wp)"
    moreover from this have "count_list (wp_ready wp) i \<noteq> 0" by (simp add: count_list_0_iff)
    ultimately show ?thesis using pool_inv_load [OF inv i] by (simp add: load_def)
  qed
  then show ?thesis by (simp add: load_def count_list_0_iff)
qed

lemma quiet_nothing_to_do:
  assumes inv: "pool_inv wp" and q: "\<nexists>wp'. work_step cap wp wp'"
  shows "wp_sends wp = []" and "todo wp = {#}" and "wp_mustStop wp \<Longrightarrow> wp_workersCount wp = 0"
proof -
  have "fst ` set (wp_sends wp) \<subseteq> {..<length (wp_workers wp)}" using inv by (simp add: pool_inv_def)
  with quiet_load [OF inv q] show s: "wp_sends wp = []" by (cases "wp_sends wp") auto
  have "worker_tasks w = []" if "w \<in> set (wp_workers wp)" for w
  proof -
    obtain i where i: "i < length (wp_workers wp)" "w = wp_workers wp ! i" using \<open>w \<in> _\<close> by (metis in_set_conv_nth)
    show ?thesis using quiet_load [OF inv q i(1)] quiet_worker [OF inv q i(1)] i(2)
      by (auto simp: worker_tasks_def map_filter_simps)
  qed
  then show "todo wp = {#}" by (simp add: todo_def s map_filter_simps)
  assume m: "wp_mustStop wp"
  have "w_state w = WStopped" if "w \<in> set (wp_workers wp)" for w
  proof -
    obtain i where i: "i < length (wp_workers wp)" "w = wp_workers wp ! i" using \<open>w \<in> _\<close> by (metis in_set_conv_nth)
    show ?thesis using quiet_worker [OF inv q i(1)] i(2) m inv by (auto simp: pool_inv_def)
  qed
  then have "alive wp = 0" by (simp add: alive_def)
  then show "wp_workersCount wp = 0" using inv by (simp add: pool_inv_def)
qed

text \<open>Every step brings the work of the pool nearer to its end.\<close>

definition worker_work :: "'f worker \<Rightarrow> nat" where
  "worker_work w = 3 * length (w_ch w) + (case w_state w of WRunning f \<Rightarrow> 2 | WExiting \<Rightarrow> 1 | _ \<Rightarrow> 0)"

definition work_left :: "'f WorkerPool \<Rightarrow> nat" where
  "work_left wp = 4 * length (wp_sends wp) + sum_list (map worker_work (wp_workers wp))"

lemma work_left_upd:
  "i < length (wp_workers wp) \<Longrightarrow>
     work_left (upd_worker i g wp) + worker_work (wp_workers wp ! i) = work_left wp + worker_work (g (wp_workers wp ! i))"
  using sum_list_map_update [of i "wp_workers wp" worker_work "g (wp_workers wp ! i)"]
  by (simp add: work_left_def upd_worker_def)

lemma work_left_frame [simp]:
  "work_left (wp\<lparr>wp_done := d\<rparr>) = work_left wp" "work_left (wp\<lparr>wp_ready := rd\<rparr>) = work_left wp" "work_left (wp\<lparr>wp_workersCount := c\<rparr>) = work_left wp"
  by (simp_all add: work_left_def)

lemma work_left_run:
  assumes i: "i < length (wp_workers wp)" and r: "w_state (wp_workers wp ! i) = WRunning f"
  shows "work_left (run_task now i wp) < work_left wp"
proof -
  have u: "work_left (upd_worker i (\<lambda>w. w\<lparr>w_lastUseTime := now, w_state := s\<rparr>) (wp\<lparr>wp_done := d\<rparr>)) < work_left wp"
    if "s = WIdle \<or> s = WExiting" for s d
    using work_left_upd [of i "wp\<lparr>wp_done := d\<rparr>" "\<lambda>w. w\<lparr>w_lastUseTime := now, w_state := s\<rparr>"] i r that
    by (auto simp: worker_work_def)
  have c: "upd_worker i g (wp\<lparr>wp_ready := rd\<rparr>) = (upd_worker i g wp)\<lparr>wp_ready := rd\<rparr>" for g rd and wp :: "'a WorkerPool"
    by (simp add: upd_worker_def)
  have "wp_mustStop (upd_worker i g (wp\<lparr>wp_done := d\<rparr>)) = wp_mustStop wp" for g d by (simp add: upd_worker_def)
  then show ?thesis using u i by (auto simp: run_task_def r release_def Let_def c)
qed

lemma work_left_decreases:
  assumes st: "work_step cap wp wp'" and inv: "pool_inv wp"
  shows "work_left wp' < work_left wp"
  using st
proof cases
  case (send k)
  obtain c fn where cf: "wp_sends wp ! k = (c, fn)" by force
  then obtain xs ys where x: "wp_sends wp = xs @ (c, fn) # ys"
    "send k wp = (upd_worker c (\<lambda>w. w\<lparr>w_ch := w_ch w @ [fn]\<rparr>) wp)\<lparr>wp_sends := xs @ ys\<rparr>"
    by (rule send_effect [OF send(2)])
  have c: "c < length (wp_workers wp)" using inv x by (auto simp: pool_inv_def)
  have "work_left (upd_worker c (\<lambda>w. w\<lparr>w_ch := w_ch w @ [fn]\<rparr>) wp) = work_left wp + 3"
    using work_left_upd [OF c, of "\<lambda>w. w\<lparr>w_ch := w_ch w @ [fn]\<rparr>"] by (simp add: worker_work_def)
  with x send(1) show ?thesis by (simp add: work_left_def upd_worker_def)
next
  case (receive i)
  then obtain fn rest where r: "w_ch (wp_workers wp ! i) = fn # rest" by (cases "w_ch (wp_workers wp ! i)") auto
  then show ?thesis using work_left_upd [OF receive(2), of "\<lambda>w. w\<lparr>w_ch := rest, w_state := (case fn of None \<Rightarrow> WExiting | Some f \<Rightarrow> WRunning f)\<rparr>"] receive(1,3)
    by (cases fn) (auto simp: receive_def worker_work_def)
next
  case (run i f now)
  then show ?thesis using work_left_run by metis
next
  case (leave i)
  then show ?thesis using work_left_upd [OF leave(2), of "\<lambda>w. w\<lparr>w_state := WStopped\<rparr>"]
    by (simp add: leave_def worker_work_def)
qed

lemma drains:
  assumes "pool_inv wp"
  shows "\<exists>wp'. (work_step cap)\<^sup>*\<^sup>* wp wp' \<and> pool_inv wp' \<and> (\<nexists>wp''. work_step cap wp' wp'')"
  using assms
proof (induction "work_left wp" arbitrary: wp rule: less_induct)
  case less
  show ?case
  proof (cases "\<exists>wp'. work_step cap wp wp'")
    case True
    then obtain wp1 where s: "work_step cap wp wp1" by blast
    with less pool_inv_work [OF less.prems s] work_left_decreases [OF s less.prems] show ?thesis
      by (metis converse_rtranclp_into_rtranclp)
  qed (use less.prems in blast)
qed


lemma pool_runs_accepted_tasks_facts:
  assumes "pool_reach cap maxWorkers maxIdle wp acc"
  shows "mset acc = mset (wp_done wp) + todo wp"
    and "0 \<le> wp_workersCount wp" and "wp_workersCount wp \<le> max 0 maxWorkers"
    and "work_step cap wp wp1 \<Longrightarrow> work_left wp1 < work_left wp"
    and "\<exists>wp'. (work_step cap)\<^sup>*\<^sup>* wp wp' \<and> (\<nexists>wp''. work_step cap wp' wp'')"
    and "\<nexists>wp'. work_step cap wp wp' \<Longrightarrow> mset (wp_done wp) = mset acc"
    and "\<nexists>wp'. work_step cap wp wp' \<Longrightarrow> wp_mustStop wp \<Longrightarrow> wp_workersCount wp = 0"
proof -
  from pool_reach_inv [OF assms] have inv: "pool_inv wp" and a: "mset acc = mset (wp_done wp) + todo wp"
    and m: "wp_MaxWorkersCount wp = maxWorkers" by auto
  show "mset acc = mset (wp_done wp) + todo wp" by (rule a)
  show "0 \<le> wp_workersCount wp" and "wp_workersCount wp \<le> max 0 maxWorkers" using inv m by (simp_all add: pool_inv_def)
  show "work_step cap wp wp1 \<Longrightarrow> work_left wp1 < work_left wp" using inv by (rule work_left_decreases [rotated])
  show "\<exists>wp'. (work_step cap)\<^sup>*\<^sup>* wp wp' \<and> (\<nexists>wp''. work_step cap wp' wp'')" using drains [OF inv] by blast
  show "\<nexists>wp'. work_step cap wp wp' \<Longrightarrow> mset (wp_done wp) = mset acc" using quiet_nothing_to_do(2) [OF inv] a by simp
  show "\<nexists>wp'. work_step cap wp wp' \<Longrightarrow> wp_mustStop wp \<Longrightarrow> wp_workersCount wp = 0" by (rule quiet_nothing_to_do(3) [OF inv])
qed

text \<open>C6: a pool runs every task it has accepted exactly once and never has more workers than
  \<open>MaxWorkersCount\<close>. At every moment the accepted tasks are those that have run and those still
  to be run. Left alone, its steps come to an end in every order, and where no step is possible
  every accepted task has run; if the pool was stopped, all its workers are gone.\<close>

theorem pool_runs_accepted_tasks:
  assumes "pool_reach cap maxWorkers maxIdle wp acc"
  shows "mset acc = mset (wp_done wp) + todo wp \<and>
    0 \<le> wp_workersCount wp \<and> wp_workersCount wp \<le> max 0 maxWorkers \<and>
    (\<forall>wp1. work_step cap wp wp1 \<longrightarrow> work_left wp1 < work_left wp) \<and>
    (\<exists>wp'. (work_step cap)\<^sup>*\<^sup>* wp wp' \<and> (\<nexists>wp''. work_step cap wp' wp'')) \<and>
    ((\<nexists>wp'. work_step cap wp wp') \<longrightarrow>
       mset (wp_done wp) = mset acc \<and> (wp_mustStop wp \<longrightarrow> wp_workersCount wp = 0))"
  using pool_runs_accepted_tasks_facts [OF assms] by blast

definition demo_pool :: "nat WorkerPool" where
  "demo_pool = WorkerPool_Stop (run_task 5 0 (receive 0 (send 0 (snd (Submit 7 (Start (new_WorkerPool 1 0)))))))"

definition demo_pool_end :: "nat WorkerPool" where
  "demo_pool_end = leave 0 (receive 0 (send 0 demo_pool))"

lemmas demo_simps =
  Start_def new_WorkerPool_def Submit_def getCh_def send_def receive_def run_task_def release_def
  upd_worker_def WorkerPool_Stop_def leave_def Let_def

lemma demo_pool_end_reach: "pool_reach 1 1 0 demo_pool_end [7]"
proof -
  let ?s = "Start (new_WorkerPool 1 0) :: nat WorkerPool"
  have "pool_reach 1 1 0 ?s []" by (intro pool_reach.start pool_reach.init)
  from pool_reach.submit [OF this, of 7 Accepted "snd (Submit 7 ?s)"]
  have "pool_reach 1 1 0 (snd (Submit 7 ?s)) [7]" by (simp add: demo_simps)
  from pool_reach.work [OF this work_step.send [of 0]] have "pool_reach 1 1 0 (send 0 (snd (Submit 7 ?s))) [7]"
    by (simp add: demo_simps can_send_def)
  from pool_reach.work [OF this work_step.receive [of 0]]
  have "pool_reach 1 1 0 (receive 0 (send 0 (snd (Submit 7 ?s)))) [7]" by (simp add: demo_simps)
  from pool_reach.work [OF this work_step.run [of 0 _ 7 _ 5]]
  have "pool_reach 1 1 0 (run_task 5 0 (receive 0 (send 0 (snd (Submit 7 ?s))))) [7]" by (simp add: demo_simps)
  from pool_reach.stop [OF this] have "pool_reach 1 1 0 demo_pool [7]" by (simp add: demo_pool_def)
  from pool_reach.work [OF this work_step.send [of 0]] have "pool_reach 1 1 0 (send 0 demo_pool) [7]"
    by (simp add: demo_pool_def demo_simps can_send_def)
  from pool_reach.work [OF this work_step.receive [of 0]] have "pool_reach 1 1 0 (receive 0 (send 0 demo_pool)) [7]"
    by (simp add: demo_pool_def demo_simps)
  from pool_reach.work [OF this work_step.leave [of 0]] show ?thesis
    by (simp add: demo_pool_end_def demo_pool_def demo_simps)
qed

lemma demo_pool_end_quiet: "\<nexists>wp'. work_step 1 demo_pool_end wp'"
  by (auto elim!: work_stepE simp: demo_pool_end_def demo_pool_def demo_simps)

theorem pool_runs_accepted_tasks_witness:
  "mset (wp_done demo_pool_end) = mset [7] \<and> wp_workersCount demo_pool_end = 0"
  using pool_runs_accepted_tasks [OF demo_pool_end_reach] demo_pool_end_quiet
  by (simp add: demo_pool_end_def demo_pool_def demo_simps)

text \<open>\<open>Submit\<close> refuses a task exactly when no worker is ready and \<open>MaxWorkersCount\<close> workers
  exist, and then nothing changes; it panics exactly when a worker has to be made and \<open>Start\<close> was
  never called; otherwise the task is accepted. Stopping the pool does not close it: a stopped
  pool with room for a worker still accepts.\<close>

theorem Submit_decision:
  "(fst (Submit fn wp) = NoIdleWorkers) = (wp_ready wp = [] \<and> wp_MaxWorkersCount wp \<le> wp_workersCount wp)"
  "(fst (Submit fn wp) = SubmitPanics) = (wp_ready wp = [] \<and> wp_workersCount wp < wp_MaxWorkersCount wp \<and> \<not> wp_started wp)"
  "fst (Submit fn wp) = NoIdleWorkers \<Longrightarrow> snd (Submit fn wp) = wp"
  "wp_started wp \<Longrightarrow> wp_workersCount wp < wp_MaxWorkersCount wp \<Longrightarrow> fst (Submit fn (WorkerPool_Stop wp)) = Accepted"
  by (auto simp: Submit_def getCh_def WorkerPool_Stop_def)

theorem Submit_decision_witness:
  "fst (Submit (1::nat) (WorkerPool_Stop (Start (new_WorkerPool 3 0)))) = Accepted \<and>
   snd (Submit (1::nat) (new_WorkerPool 0 0)) = new_WorkerPool 0 0"
  using Submit_decision(3) [of "1::nat" "new_WorkerPool 0 0"] Submit_decision(4) [of "Start (new_WorkerPool 3 0)" "1::nat"]
  by (simp add: demo_simps)

section \<open>The search of clean\<close>

lemma clean_search_bounds:
  assumes "sorted ts" and "0 \<le> l" and "r < int (length ts)" and "l \<le> r + 1"
    and "\<And>j. 0 \<le> j \<Longrightarrow> j < l \<Longrightarrow> ts ! nat j < c" and "\<And>j. r < j \<Longrightarrow> j < int (length ts) \<Longrightarrow> \<not> ts ! nat j < c"
  defines "i \<equiv> clean_search ts c l r"
  shows "-1 \<le> i \<and> i < int (length ts) \<and> (\<forall>j. 0 \<le> j \<and> j \<le> i \<longrightarrow> ts ! nat j < c) \<and>
         (\<forall>j. i < j \<and> j < int (length ts) \<longrightarrow> \<not> ts ! nat j < c)"
  using assms(1-6) unfolding i_def
proof (induction ts c l r rule: clean_search.induct)
  case (1 ts c l r)
  show ?case
  proof (cases "l \<le> r")
    case False
    then have "clean_search ts c l r = r" by (subst clean_search.simps) simp
    with 1(4-8) False show ?thesis by auto
  next
    case True
    let ?m = "(l + r) div 2"
    have m: "l \<le> ?m" "?m \<le> r" using True by auto
    have s: "ts ! nat j \<le> ts ! nat k" if "0 \<le> j" "j \<le> k" "k < int (length ts)" for j k
      using that sorted_nth_mono [OF 1(3)] by (simp add: nat_le_eq_zle)
    show ?thesis
    proof (cases "ts ! nat ?m < c")
      case lt: True
      have e: "clean_search ts c l r = clean_search ts c (?m + 1) r"
        by (subst clean_search.simps) (simp add: True lt)
      show ?thesis unfolding e
      proof (rule 1(1) [OF True refl lt 1(3) _ 1(5) _ _ 1(8)])
        show "0 \<le> ?m + 1" "?m + 1 \<le> r + 1" using m 1(4) by linarith+
        show "ts ! nat j < c" if "0 \<le> j" "j < ?m + 1" for j
          using s [of j ?m] that lt m(2) 1(5) by linarith
      qed
    next
      case ge: False
      have e: "clean_search ts c l r = clean_search ts c l (?m - 1)"
        by (subst clean_search.simps) (simp add: True ge)
      show ?thesis unfolding e
      proof (rule 1(2) [OF True refl ge 1(3) 1(4) _ _ 1(7)])
        show "?m - 1 < int (length ts)" "l \<le> ?m - 1 + 1" using m 1(5) by linarith+
        show "\<not> ts ! nat j < c" if "?m - 1 < j" "j < int (length ts)" for j
          using s [of ?m j] that ge m(1) 1(4) by linarith
      qed
    qed
  qed
qed

lemma filter_split_at:
  assumes "k \<le> length xs" and "\<And>j. j < k \<Longrightarrow> P (xs ! j)" and "\<And>j. k \<le> j \<Longrightarrow> j < length xs \<Longrightarrow> \<not> P (xs ! j)"
  shows "filter P xs = take k xs" and "filter (\<lambda>x. \<not> P x) xs = drop k xs"
proof -
  have t: "\<forall>x \<in> set (take k xs). P x" using assms(1,2) by (auto simp: in_set_conv_nth)
  have d: "\<forall>x \<in> set (drop k xs). \<not> P x" using assms(1,3) by (auto simp: in_set_conv_nth)
  have "filter Q xs = filter Q (take k xs) @ filter Q (drop k xs)" for Q
    by (metis append_take_drop_id filter_append)
  with t d show "filter P xs = take k xs" and "filter (\<lambda>x. \<not> P x) xs = drop k xs"
    by (simp_all add: filter_empty_conv)
qed

text \<open>C16: \<open>clean\<close> is equivalent to a linear pass over the ready list. When the ready workers are in
  the order of their last use, the binary search ends at the boundary: exactly the workers idle
  for longer than \<open>getMaxIdleWorkerDuration\<close> leave the list and are told to stop, in order, and
  nothing else of the pool changes.\<close>

theorem clean_retires_stale:
  fixes wp :: "'f WorkerPool"
  defines "stale now ch \<equiv> w_lastUseTime (wp_workers wp ! ch) < now - getMaxIdleWorkerDuration wp"
  assumes "sorted (map (\<lambda>ch. w_lastUseTime (wp_workers wp ! ch)) (wp_ready wp))"
  shows "clean now wp =
    wp\<lparr>wp_ready := filter (\<lambda>ch. \<not> stale now ch) (wp_ready wp),
       wp_sends := wp_sends wp @ map (\<lambda>ch. (ch, None)) (filter (stale now) (wp_ready wp))\<rparr>"
proof -
  let ?ts = "map (\<lambda>ch. w_lastUseTime (wp_workers wp ! ch)) (wp_ready wp)"
  let ?n = "int (length (wp_ready wp))"
  define i where "i = clean_search ?ts (now - getMaxIdleWorkerDuration wp) 0 (?n - 1)"
  have b: "-1 \<le> i \<and> i < int (length ?ts) \<and> (\<forall>j. 0 \<le> j \<and> j \<le> i \<longrightarrow> ?ts ! nat j < now - getMaxIdleWorkerDuration wp) \<and>
         (\<forall>j. i < j \<and> j < int (length ?ts) \<longrightarrow> \<not> ?ts ! nat j < now - getMaxIdleWorkerDuration wp)"
    unfolding i_def by (rule clean_search_bounds) (use assms(2) in auto)
  have lt: "stale now (wp_ready wp ! j)" if "j < nat (i + 1)" for j
    using b [THEN conjunct2, THEN conjunct2, THEN conjunct1, rule_format, of "int j"] that b by (simp add: stale_def)
  have ge: "\<not> stale now (wp_ready wp ! j)" if "nat (i + 1) \<le> j" "j < length (wp_ready wp)" for j
    using b [THEN conjunct2, THEN conjunct2, THEN conjunct2, rule_format, of "int j"] that b by (simp add: stale_def)
  have "filter (stale now) (wp_ready wp) = take (nat (i + 1)) (wp_ready wp)"
    "filter (\<lambda>ch. \<not> stale now ch) (wp_ready wp) = drop (nat (i + 1)) (wp_ready wp)"
    using b lt ge by (intro filter_split_at; force)+
  then show ?thesis using b by (simp add: clean_def Let_def flip: i_def)
qed

definition demo_ready :: "nat WorkerPool" where
  "demo_ready = (new_WorkerPool 4 3)\<lparr>wp_ready := [1, 0], wp_started := True, wp_workersCount := 2,
     wp_workers := [\<lparr>w_lastUseTime = 9, w_ch = [], w_state = WIdle\<rparr>, \<lparr>w_lastUseTime = 2, w_ch = [], w_state = WIdle\<rparr>]\<rparr>"

theorem clean_retires_stale_witness:
  "wp_ready (clean 10 demo_ready) = [0] \<and> wp_sends (clean 10 demo_ready) = [(1, None)]"
  by (subst (1 2) clean_retires_stale) (simp_all add: demo_ready_def new_WorkerPool_def getMaxIdleWorkerDuration_def)

end
