(* ===== verification/Fallback.thy ===== *)
theory Fallback
  imports Run
begin

text \<open>
  The skip fallback aspect (\<open>aspect/skip_fallback_aspect.go\<close>): it counts the failures of each
  node of each chain and, from \<open>ErrorCountLimit\<close> on, answers for the node with a failure until
  \<open>LimitDuration\<close> has passed since the last one. The world of a run holds the cache of the
  aspect and the clock (\<open>time.Now().UnixMilli()\<close>). The cache is a \<open>sync.Map\<close> of \<open>sync.Map\<close>s,
  modelled as a map of maps. An advice runs in one step; the double-checked insertion of
  \<open>After\<close> then takes the same way twice.
\<close>

section \<open>The aspect\<close>

definition FallbackErr :: error where
  "FallbackErr = ''skip fallback error''"

record NodeError =
  ne_errorCount :: int
  ne_lastErrorTime :: int

type_synonym chainNodeErrorCache = "(string, NodeError) gomap"

record fb_world =
  fb_chainNodeErrorCache :: "(string, chainNodeErrorCache) gomap"
  fb_now :: int

record SkipFallbackAspect =
  fb_ErrorCountLimit :: int
  fb_LimitDuration :: int
  fb_PointCutFunc :: "(ctx_view \<Rightarrow> RuleMsg \<Rightarrow> string \<Rightarrow> bool) option"

definition PointCut :: "SkipFallbackAspect \<Rightarrow> ctx_view \<Rightarrow> RuleMsg \<Rightarrow> string \<Rightarrow> bool" where
  "PointCut a view msg relationType =
     (case fb_PointCutFunc a of Some f \<Rightarrow> f view msg relationType | None \<Rightarrow> True)"

definition getChainError :: "string \<Rightarrow> fb_world \<Rightarrow> chainNodeErrorCache option" where
  "getChainError chainId w = map_of (fb_chainNodeErrorCache w) chainId"

definition getNodeError :: "chainNodeErrorCache \<Rightarrow> string \<Rightarrow> NodeError option" where
  "getNodeError chainCache nodeId = map_of chainCache nodeId"

text \<open>\<open>Duration.Milliseconds\<close> divides nanoseconds, towards zero.\<close>

definition Milliseconds :: "int \<Rightarrow> int" where
  "Milliseconds d = (if 0 \<le> d then d div 1000000 else - ((- d) div 1000000))"

definition view_chain :: "ctx_view \<Rightarrow> string" where
  "view_chain view = (case cv_chain view of Some i \<Rightarrow> NodeId i | None \<Rightarrow> [])"

definition view_self :: "ctx_view \<Rightarrow> string" where
  "view_self view = (case cv_self view of Some i \<Rightarrow> NodeId i | None \<Rightarrow> [])"

text \<open>Changes of the node errors of one chain, which the cache holds by reference.\<close>

definition upd_chain_errors ::
  "string \<Rightarrow> (chainNodeErrorCache \<Rightarrow> chainNodeErrorCache) \<Rightarrow> fb_world \<Rightarrow> fb_world" where
  "upd_chain_errors chainId f w =
     (case getChainError chainId w of
        Some chainError \<Rightarrow> w\<lparr>fb_chainNodeErrorCache := gm_put chainId (f chainError) (fb_chainNodeErrorCache w)\<rparr>
      | None \<Rightarrow> w)"

definition Around ::
  "SkipFallbackAspect \<Rightarrow> ctx_view \<Rightarrow> RuleMsg \<Rightarrow> string \<Rightarrow> fb_world \<Rightarrow> (RuleMsg \<times> bool \<times> ctx_call list) \<times> fb_world" where
  "Around a view msg relationType w =
     (case getChainError (view_chain view) w of
        Some chainError \<Rightarrow>
          (case getNodeError chainError (view_self view) of
             Some nodeError \<Rightarrow>
               (if fb_ErrorCountLimit a \<le> ne_errorCount nodeError then
                  (if wrap64 (ne_lastErrorTime nodeError + Milliseconds (fb_LimitDuration a)) < fb_now w
                   then ((msg, True, []), upd_chain_errors (view_chain view) (gm_del (view_self view)) w)
                   else ((msg, False, [TellFailure msg (Some FallbackErr)]), w))
                else ((msg, True, []), w))
           | None \<Rightarrow> ((msg, True, []), w))
      | None \<Rightarrow> ((msg, True, []), w))"

definition After ::
  "ctx_view \<Rightarrow> RuleMsg \<Rightarrow> error option \<Rightarrow> string \<Rightarrow> fb_world \<Rightarrow> RuleMsg \<times> fb_world" where
  "After view msg err relationType w =
     (if relationType = Failure then
        (let chainId = view_chain view; selfId = view_self view;
             w = (case getChainError chainId w of
                    Some _ \<Rightarrow> w
                  | None \<Rightarrow> w\<lparr>fb_chainNodeErrorCache := gm_put chainId [] (fb_chainNodeErrorCache w)\<rparr>);
             w = upd_chain_errors chainId
                   (\<lambda>chainError.
                      case getNodeError chainError selfId of
                        None \<Rightarrow> gm_put selfId \<lparr>ne_errorCount = 1, ne_lastErrorTime = fb_now w\<rparr> chainError
                      | Some nodeError \<Rightarrow>
                          gm_put selfId (nodeError\<lparr>ne_errorCount := wrap64 (ne_errorCount nodeError + 1),
                                                  ne_lastErrorTime := fb_now w\<rparr>) chainError) w
         in (msg, w))
      else (msg, w))"

definition OnReload :: "RuleNodeId \<Rightarrow> RuleNodeId \<Rightarrow> error option \<Rightarrow> fb_world \<Rightarrow> fb_world" where
  "OnReload parent nodeId err w =
     (if NodeKind nodeId = CHAIN
      then w\<lparr>fb_chainNodeErrorCache := gm_del (NodeId nodeId) (fb_chainNodeErrorCache w)\<rparr>
      else upd_chain_errors (NodeId parent) (gm_del (NodeId nodeId)) w)"

definition OnDestroy :: "RuleNodeId \<Rightarrow> fb_world \<Rightarrow> fb_world" where
  "OnDestroy nodeId w =
     (if NodeKind nodeId = CHAIN
      then w\<lparr>fb_chainNodeErrorCache := gm_del (NodeId nodeId) (fb_chainNodeErrorCache w)\<rparr>
      else w)"

definition fallback_aspect :: "SkipFallbackAspect \<Rightarrow> fb_world aspect" where
  "fallback_aspect a =
     \<lparr>a_Order = 10, a_PointCut = (\<lambda>view msg rel w. PointCut a view msg rel), a_Before = None,
      a_After = Some After, a_Around = Some (Around a), a_Start = None, a_End = None,
      a_Completed = None, a_OnCreated = None, a_OnReload = Some OnReload, a_OnDestroy = Some OnDestroy\<rparr>"

section \<open>The contract: one breaker per node\<close>

text \<open>The error record of a node of a chain, and the breaker it stands for.\<close>

definition node_error :: "fb_world \<Rightarrow> string \<times> string \<Rightarrow> NodeError option" where
  "node_error w k = (case getChainError (fst k) w of Some ce \<Rightarrow> getNodeError ce (snd k) | None \<Rightarrow> None)"

definition set_node_error :: "string \<times> string \<Rightarrow> NodeError \<Rightarrow> fb_world \<Rightarrow> fb_world" where
  "set_node_error k e w =
     (let ce = (case getChainError (fst k) w of Some ce \<Rightarrow> ce | None \<Rightarrow> [])
      in w\<lparr>fb_chainNodeErrorCache := gm_put (fst k) (gm_put (snd k) e ce) (fb_chainNodeErrorCache w)\<rparr>)"

definition del_node_error :: "string \<times> string \<Rightarrow> fb_world \<Rightarrow> fb_world" where
  "del_node_error k w = upd_chain_errors (fst k) (gm_del (snd k)) w"

lemmas fb_defs = node_error_def getChainError_def getNodeError_def upd_chain_errors_def

interpretation error_cache: keyed_store node_error set_node_error del_node_error
  by unfold_locales
     (auto simp: fb_defs set_node_error_def del_node_error_def Let_def split: option.splits)

datatype breaker = Closed | Failing int int

fun breaker_of :: "NodeError option \<Rightarrow> breaker" where
  "breaker_of None = Closed"
| "breaker_of (Some e) = Failing (ne_errorCount e) (ne_lastErrorTime e)"

fun breaker_fail :: "int \<Rightarrow> breaker \<Rightarrow> breaker" where
  "breaker_fail now Closed = Failing 1 now"
| "breaker_fail now (Failing n t) = Failing (wrap64 (n + 1)) now"

fun breaker_skips :: "SkipFallbackAspect \<Rightarrow> int \<Rightarrow> breaker \<Rightarrow> bool" where
  "breaker_skips a now Closed = False"
| "breaker_skips a now (Failing n t) =
     (fb_ErrorCountLimit a \<le> n \<and> now \<le> wrap64 (t + Milliseconds (fb_LimitDuration a)))"

fun breaker_ask :: "SkipFallbackAspect \<Rightarrow> int \<Rightarrow> breaker \<Rightarrow> breaker" where
  "breaker_ask a now Closed = Closed"
| "breaker_ask a now (Failing n t) =
     (if fb_ErrorCountLimit a \<le> n \<and> wrap64 (t + Milliseconds (fb_LimitDuration a)) < now then Closed
      else Failing n t)"

definition view_key :: "ctx_view \<Rightarrow> string \<times> string" where
  "view_key view = (view_chain view, view_self view)"

lemma After_node_error:
  "node_error (snd (After view msg err rel w)) k =
     (if rel = Failure \<and> k = view_key view
      then Some (case node_error w k of
                   None \<Rightarrow> \<lparr>ne_errorCount = 1, ne_lastErrorTime = fb_now w\<rparr>
                 | Some e \<Rightarrow> e\<lparr>ne_errorCount := wrap64 (ne_errorCount e + 1), ne_lastErrorTime := fb_now w\<rparr>)
      else node_error w k)"
  by (cases k) (auto simp: After_def fb_defs view_key_def Let_def split: option.splits)

lemma Around_node_error:
  "node_error (snd (Around a view msg rel w)) k =
     (if k = view_key view \<and> breaker_ask a (fb_now w) (breaker_of (node_error w k)) = Closed then None
      else node_error w k)"
  by (cases k) (auto simp: Around_def fb_defs view_key_def Let_def split: option.splits)

lemma Around_result:
  "fst (Around a view msg rel w) =
     (if breaker_skips a (fb_now w) (breaker_of (node_error w (view_key view)))
      then (msg, False, [TellFailure msg (Some FallbackErr)]) else (msg, True, []))"
  by (auto simp: Around_def fb_defs view_key_def Let_def split: option.splits)

lemma fb_now_frame [simp]:
  "fb_now (snd (After view msg err rel w)) = fb_now w" "fb_now (snd (Around a view msg rel w)) = fb_now w"
  by (auto simp: After_def Around_def upd_chain_errors_def Let_def split: option.splits)

definition breaker_at :: "fb_world \<Rightarrow> string \<times> string \<Rightarrow> breaker" where
  "breaker_at w k = breaker_of (node_error w k)"

lemma Around_breaker_result:
  "fst (Around a view msg rel w) =
     (if breaker_skips a (fb_now w) (breaker_at w (view_key view))
      then (msg, False, [TellFailure msg (Some FallbackErr)]) else (msg, True, []))"
  by (simp add: breaker_at_def Around_result)

lemma Around_breaker:
  "breaker_at (snd (Around a view msg rel w)) =
     (breaker_at w)(view_key view := breaker_ask a (fb_now w) (breaker_at w (view_key view)))"
  by (rule ext, cases "node_error w (view_key view)") (auto simp: breaker_at_def Around_node_error)

lemma After_breaker:
  "breaker_at (snd (After view msg err rel w)) =
     (if rel = Failure then (breaker_at w)(view_key view := breaker_fail (fb_now w) (breaker_at w (view_key view)))
      else breaker_at w)"
  by (rule ext) (auto simp: breaker_at_def After_node_error split: option.splits)

lemma fallback_refines_breakers_facts:
  "fst (Around a view msg rel w) =
     (if breaker_skips a (fb_now w) (breaker_at w (view_key view))
      then (msg, False, [TellFailure msg (Some FallbackErr)]) else (msg, True, []))"
  "breaker_at (snd (Around a view msg rel w)) =
     (breaker_at w)(view_key view := breaker_ask a (fb_now w) (breaker_at w (view_key view)))"
  "breaker_at (snd (After view msg err rel w)) =
     (if rel = Failure then (breaker_at w)(view_key view := breaker_fail (fb_now w) (breaker_at w (view_key view)))
      else breaker_at w)"
  "breaker_at (OnReload parent \<lparr>NodeId = n, NodeKind = NODE\<rparr> e w) = (breaker_at w)((NodeId parent, n) := Closed)"
  "breaker_at (OnReload parent \<lparr>NodeId = n, NodeKind = CHAIN\<rparr> e w) = (\<lambda>k. if fst k = n then Closed else breaker_at w k)"
  "breaker_at (OnDestroy \<lparr>NodeId = n, NodeKind = CHAIN\<rparr> w) = (\<lambda>k. if fst k = n then Closed else breaker_at w k)"
  "breaker_at (OnDestroy \<lparr>NodeId = n, NodeKind = NODE\<rparr> w) = breaker_at w"
proof -
  have "breaker_at (del_node_error k w) = (breaker_at w)(k := Closed)" for k
    by (rule ext) (simp add: breaker_at_def error_cache.lookup_remove)
  from this [of "(NodeId parent, n)"]
  show "breaker_at (OnReload parent \<lparr>NodeId = n, NodeKind = NODE\<rparr> e w) = (breaker_at w)((NodeId parent, n) := Closed)"
    by (simp add: OnReload_def del_node_error_def)
  show "breaker_at (OnReload parent \<lparr>NodeId = n, NodeKind = CHAIN\<rparr> e w) = (\<lambda>k. if fst k = n then Closed else breaker_at w k)"
    and "breaker_at (OnDestroy \<lparr>NodeId = n, NodeKind = CHAIN\<rparr> w) = (\<lambda>k. if fst k = n then Closed else breaker_at w k)"
    by (auto simp: breaker_at_def OnReload_def OnDestroy_def fb_defs fun_eq_iff)
qed (simp_all add: Around_breaker After_breaker, simp_all add: breaker_at_def Around_result OnDestroy_def)

text \<open>C14: the aspect implements one circuit breaker per node of a chain. \<open>Around\<close> lets the node
  run or answers for it with a failure exactly as the breaker of that node says, closing a breaker
  whose time is over; \<open>After\<close> records a failure in it and nothing else; both leave the breakers of
  all other nodes alone. Reloading a node resets its breaker, reloading or destroying a chain
  those of all its nodes, and no others.\<close>

theorem fallback_refines_breakers:
  "fst (Around a view msg rel w) =
     (if breaker_skips a (fb_now w) (breaker_at w (view_key view))
      then (msg, False, [TellFailure msg (Some FallbackErr)]) else (msg, True, [])) \<and>
   breaker_at (snd (Around a view msg rel w)) =
     (breaker_at w)(view_key view := breaker_ask a (fb_now w) (breaker_at w (view_key view))) \<and>
   breaker_at (snd (After view msg err rel w)) =
     (if rel = Failure then (breaker_at w)(view_key view := breaker_fail (fb_now w) (breaker_at w (view_key view)))
      else breaker_at w) \<and>
   breaker_at (OnReload parent \<lparr>NodeId = n, NodeKind = NODE\<rparr> e w) = (breaker_at w)((NodeId parent, n) := Closed) \<and>
   breaker_at (OnReload parent \<lparr>NodeId = n, NodeKind = CHAIN\<rparr> e w) = (\<lambda>k. if fst k = n then Closed else breaker_at w k) \<and>
   breaker_at (OnDestroy \<lparr>NodeId = n, NodeKind = CHAIN\<rparr> w) = (\<lambda>k. if fst k = n then Closed else breaker_at w k) \<and>
   breaker_at (OnDestroy \<lparr>NodeId = n, NodeKind = NODE\<rparr> w) = breaker_at w"
  by (intro conjI; rule fallback_refines_breakers_facts)

section \<open>The aspect in a run\<close>

text \<open>What a message that arrives at a node at the time \<open>now\<close> does to the aspect when its node is
  skipped: the failure that \<open>Around\<close> tells goes through \<open>tell\<close> like any other, whose after advice
  records it.\<close>

definition skip_round :: "SkipFallbackAspect \<Rightarrow> ctx_view \<Rightarrow> string \<Rightarrow> RuleMsg \<Rightarrow> int \<Rightarrow> fb_world \<Rightarrow> bool \<times> fb_world" where
  "skip_round a view rel msg now w =
     (case Around a view msg rel (w\<lparr>fb_now := now\<rparr>) of
        ((msg, ok, calls), w) \<Rightarrow> (ok, if ok then w else snd (After view msg (Some FallbackErr) Failure w)))"

fun skip_rounds :: "SkipFallbackAspect \<Rightarrow> ctx_view \<Rightarrow> string \<Rightarrow> RuleMsg \<Rightarrow> int list \<Rightarrow> fb_world \<Rightarrow> bool list \<times> fb_world" where
  "skip_rounds a view rel msg [] w = ([], w)"
| "skip_rounds a view rel msg (now # ts) w =
     (case skip_round a view rel msg now w of (ok, w) \<Rightarrow>
        (case skip_rounds a view rel msg ts w of (oks, w) \<Rightarrow> (ok # oks, w)))"

text \<open>Arrivals that are never more than \<open>ms\<close> apart.\<close>

fun steady :: "int \<Rightarrow> int \<Rightarrow> int list \<Rightarrow> bool" where
  "steady ms t [] = True"
| "steady ms t (u # us) = (0 \<le> u \<and> u \<le> t + ms \<and> steady ms u us)"

lemma breaker_at_now [simp]: "breaker_at (w\<lparr>fb_now := now\<rparr>) = breaker_at w"
  by (rule ext) (simp add: breaker_at_def fb_defs)

lemma skip_round_skips:
  assumes "breaker_at w (view_key view) = Failing n t" and "fb_ErrorCountLimit a \<le> n"
    and "now \<le> wrap64 (t + Milliseconds (fb_LimitDuration a))"
  shows "fst (skip_round a view rel msg now w) = False"
    and "breaker_at (snd (skip_round a view rel msg now w)) (view_key view) = Failing (wrap64 (n + 1)) now"
proof -
  let ?w = "w\<lparr>fb_now := now\<rparr>"
  have r: "fst (Around a view msg rel ?w) = (msg, False, [TellFailure msg (Some FallbackErr)])"
    using assms Around_breaker_result by simp
  obtain w' where w': "Around a view msg rel ?w = ((msg, False, [TellFailure msg (Some FallbackErr)]), w')"
    using r by (metis prod.collapse)
  have b: "breaker_at w' (view_key view) = Failing n t"
    using Around_breaker [of a view msg rel ?w] assms by (simp add: w')
  have "fb_now w' = now" using fb_now_frame(2) [of a view msg rel ?w] by (simp add: w')
  with b show "fst (skip_round a view rel msg now w) = False"
    and "breaker_at (snd (skip_round a view rel msg now w)) (view_key view) = Failing (wrap64 (n + 1)) now"
    by (simp_all add: skip_round_def w' After_breaker)
qed

lemma skip_rounds_steady:
  assumes "breaker_at w (view_key view) = Failing n t" and "fb_ErrorCountLimit a \<le> n" and "0 \<le> n"
    and "n + int (length ts) < 2 ^ 63" and "0 \<le> t" and "0 \<le> Milliseconds (fb_LimitDuration a)"
    and "steady (Milliseconds (fb_LimitDuration a)) t ts"
    and "\<forall>u \<in> set (t # ts). u + Milliseconds (fb_LimitDuration a) < 2 ^ 63"
  shows "fst (skip_rounds a view rel msg ts w) = replicate (length ts) False"
  using assms
proof (induction ts arbitrary: w n t)
  case Nil
  then show ?case by simp
next
  case (Cons u ts)
  let ?ms = "Milliseconds (fb_LimitDuration a)"
  obtain ok w' where r: "skip_round a view rel msg u w = (ok, w')" by force
  have "wrap64 (t + ?ms) = t + ?ms" using Cons.prems by (intro wrap64_id) auto
  then have "u \<le> wrap64 (t + ?ms)" using Cons.prems by simp
  from skip_round_skips [OF Cons.prems(1,2) this, where rel = rel and msg = msg]
  have ok: "ok = False" and b: "breaker_at w' (view_key view) = Failing (wrap64 (n + 1)) u" by (simp_all add: r)
  have "wrap64 (n + 1) = n + 1" using Cons.prems by (intro wrap64_id) auto
  with b have "breaker_at w' (view_key view) = Failing (n + 1) u" by simp
  from Cons.IH [OF this] Cons.prems have "fst (skip_rounds a view rel msg ts w') = replicate (length ts) False" by simp
  then show ?case by (simp add: r ok case_prod_beta)
qed

text \<open>The same in a run: the three actions that handle a skipped message.\<close>

definition exec_go3 :: "('n, 'w) env \<Rightarrow> 'w action list \<Rightarrow> ('n, 'w) sys \<Rightarrow> 'w action list \<times> ('n, 'w) sys" where
  "exec_go3 E g s =
     (case exec_go E g s of (g, s) \<Rightarrow> (case exec_go E g s of (g, s) \<Rightarrow> exec_go E g s))"


lemma world_frame [simp]:
  "s_world (emit ev s) = s_world s" "s_world (spawn g s) = s_world s" "s_world (upd_ctx c f s) = s_world s"
  "s_world (snd (copy_msg E msg s)) = s_world s" "s_world (childReady c s) = s_world s"
  by (simp_all add: emit_def spawn_def upd_ctx_def copy_msg_def childReady_def)

lemma pool_frame [simp]:
  "c < length (s_heap s) \<Longrightarrow> dc_pool (ctx_at (childReady c' s) c) = dc_pool (ctx_at s c)"
  "ctx_at (snd (copy_msg E msg s)) c = ctx_at s c" "ctx_at (spawn g s) c = ctx_at s c"
  "length (s_heap (childReady c' s)) = length (s_heap s)"
  "length (s_heap (snd (copy_msg E msg s))) = length (s_heap s)" "length (s_heap (spawn g s)) = length (s_heap s)"
  by (cases "c = c'"; simp add: ctx_at_def childReady_def upd_ctx_def)
     (simp_all add: ctx_at_def childReady_def upd_ctx_def copy_msg_def spawn_def)

lemma SubmitTack_nopool: "dc_pool (ctx_at s c) = None \<Longrightarrow> SubmitTack c task s = spawn task s"
  by (simp add: SubmitTack_def)

lemma DoOnEnd_world:
  "dc_pool (ctx_at s c) = None \<Longrightarrow> s_world (snd (DoOnEnd c msg err rel s)) = s_world s"
  by (simp add: DoOnEnd_def SubmitTack_nopool Let_def split: option.splits)

lemma getNextNodes_frame:
  "s_world (snd (getNextNodes c rel s)) = s_world s" "ctx_at (snd (getNextNodes c rel s)) c' = ctx_at s c'"
  "s_heap (snd (getNextNodes c rel s)) = s_heap s"
  by (auto simp: getNextNodes_def ctx_at_def Let_def split: option.splits prod.splits)

lemma chain_of_frame [simp]:
  "chain_of (s\<lparr>s_vars := vs\<rparr>) k = chain_of s k" "chain_of (s\<lparr>s_world := w\<rparr>) k = chain_of s k"
  by (simp_all add: chain_of_def)

lemma ctx_at_frame [simp]: "ctx_at (s\<lparr>s_vars := vs\<rparr>) c = ctx_at s c" "ctx_at (s\<lparr>s_world := w\<rparr>) c = ctx_at s c"
  by (simp_all add: ctx_at_def)

lemma ref_frame [simp]:
  "ref_id (s\<lparr>s_vars := vs\<rparr>) = ref_id s" "ref_id (s\<lparr>s_world := w\<rparr>) = ref_id s"
  "ref_debug (s\<lparr>s_vars := vs\<rparr>) = ref_debug s" "ref_debug (s\<lparr>s_world := w\<rparr>) = ref_debug s"
  by (auto simp: fun_eq_iff ref_id_def ref_debug_def split: node_ref.split option.splits)

lemma view_of_frame [simp]: "view_of (s\<lparr>s_vars := vs\<rparr>) c = view_of s c" "view_of (s\<lparr>s_world := w\<rparr>) c = view_of s c"
  by (simp_all only: view_of_def ref_frame chain_of_frame ctx_at_frame)

lemma fallback_tell_world:
  assumes "c < length (s_heap s)" and "dc_pool (ctx_at s c) = None"
    and "dc_afterAspects (ctx_at s c) = [UserAspect (fallback_aspect a)]" and "fb_PointCutFunc a = None"
  shows "s_world (snd (tell_rels E c msg err [Failure] var s)) = snd (After (view_of s c) msg err Failure (s_world s))"
proof -
  let ?s = "s\<lparr>s_vars := (s_vars s)[var := Failure]\<rparr>"
  obtain m w where m: "After (view_of s c) msg err Failure (s_world s) = (m, w)" by force
  have a: "executeAfterAop E c msg err Failure ?s = (m, ?s\<lparr>s_world := w\<rparr>)"
    using assms(3,4) m by (simp add: executeAfterAop_def fallback_aspect_def PointCut_def)
  obtain nodes ok s' where n: "getNextNodes c Failure (?s\<lparr>s_world := w\<rparr>) = ((nodes, ok), s')"
    by (metis prod.collapse)
  have s': "s_world s' = w" "ctx_at s' c = ctx_at s c" "s_heap s' = s_heap s"
    using getNextNodes_frame [of c Failure "?s\<lparr>s_world := w\<rparr>"] by (simp_all add: n)
  obtain k s'' where d: "DoOnEnd c m err Failure s' = (k, s'')" by force
  have "s_world s'' = w" using DoOnEnd_world [of s' c m err Failure] s' assms(2) by (simp add: d)
  then show ?thesis by (simp add: a n s' d m)
qed

lemma fallback_never_recovers_facts:
  "breaker_at w (view_key view) = Failing n t \<Longrightarrow> fb_ErrorCountLimit a \<le> n \<Longrightarrow> 0 \<le> n \<Longrightarrow>
   n + int (length ts) < 2 ^ 63 \<Longrightarrow> 0 \<le> t \<Longrightarrow> 0 \<le> Milliseconds (fb_LimitDuration a) \<Longrightarrow>
   steady (Milliseconds (fb_LimitDuration a)) t ts \<Longrightarrow>
   \<forall>u \<in> set (t # ts). u + Milliseconds (fb_LimitDuration a) < 2 ^ 63 \<Longrightarrow>
     fst (skip_rounds a view rel msg ts w) = replicate (length ts) False"
  "c < length (s_heap s) \<Longrightarrow> \<not> dc_isFirst (ctx_at s c) \<Longrightarrow> dc_pool (ctx_at s c) = None \<Longrightarrow>
   dc_afterAspects (ctx_at s c) = [UserAspect (fallback_aspect a)] \<Longrightarrow> fb_PointCutFunc a = None \<Longrightarrow>
   breaker_skips a (fb_now (s_world s)) (breaker_at (s_world s) (view_key (view_of s c))) \<Longrightarrow>
     s_world (snd (exec_go3 E (IAround c orig msg rel [fallback_aspect a] True # rest) s)) =
     snd (skip_round a (view_of s c) rel msg (fb_now (s_world s)) (s_world s))"
proof -
  assume c: "c < length (s_heap s)" "\<not> dc_isFirst (ctx_at s c)" "dc_pool (ctx_at s c) = None"
    and asp: "dc_afterAspects (ctx_at s c) = [UserAspect (fallback_aspect a)]" and pc: "fb_PointCutFunc a = None"
    and sk: "breaker_skips a (fb_now (s_world s)) (breaker_at (s_world s) (view_key (view_of s c)))"
  let ?v = "view_of s c" and ?w = "s_world s"
  have w0: "?w\<lparr>fb_now := fb_now ?w\<rparr> = ?w" by simp
  obtain w1 where w1: "Around a ?v msg rel ?w = ((msg, False, [TellFailure msg (Some FallbackErr)]), w1)"
    using Around_breaker_result [of a ?v msg rel ?w] sk by (metis (full_types) prod.collapse)
  show "s_world (snd (exec_go3 E (IAround c orig msg rel [fallback_aspect a] True # rest) s)) =
        snd (skip_round a ?v rel msg (fb_now ?w) ?w)"
  proof -
    let ?f = "TellFailure msg (Some FallbackErr)"
    let ?s2 = "s\<lparr>s_world := w1, s_vars := s_vars s @ [[]]\<rparr>"
    have "exec_go E (IAround c orig msg rel [fallback_aspect a] True # rest) s =
        (ICalls c [?f] None # IAround c orig msg rel [] False # rest, s\<lparr>s_world := w1\<rparr>)"
      using w1 pc by (simp add: fallback_aspect_def PointCut_def)
    moreover have "exec_go E (ICalls c [?f] None # g) (s\<lparr>s_world := w1\<rparr>) =
        (ITellRels c msg (Some FallbackErr) [Failure] (length (s_vars s)) # ICalls c [] None # g, ?s2)" for g
      using c(2) by (simp add: do_call_def TellFailure_def tell_def)
    moreover have "s_world (snd (exec_go E (ITellRels c msg (Some FallbackErr) [Failure] (length (s_vars s)) # g) ?s2)) =
        snd (After ?v msg (Some FallbackErr) Failure w1)" for g
      using fallback_tell_world [of c ?s2 a E msg "Some FallbackErr" "length (s_vars s)"] c asp pc
      by (simp add: case_prod_beta del: tell_rels.simps)
    ultimately show ?thesis by (simp add: exec_go3_def skip_round_def w1 w0)
  qed
qed (rule skip_rounds_steady)


text \<open>C15: a node whose breaker has opened does not run again as long as messages keep coming no
  more than \<open>LimitDuration\<close> apart: the failure that the aspect tells in place of the node is
  counted as a failure of the node and renews the time of its last error. The second part is the
  same for the actions of a run: the advice, the failure it tells and the after advice of that
  failure leave the world of one such round.\<close>

theorem fallback_never_recovers:
  "(breaker_at w (view_key view) = Failing n t \<and> fb_ErrorCountLimit a \<le> n \<and> 0 \<le> n \<and>
    n + int (length ts) < 2 ^ 63 \<and> 0 \<le> t \<and> 0 \<le> Milliseconds (fb_LimitDuration a) \<and>
    steady (Milliseconds (fb_LimitDuration a)) t ts \<and>
    (\<forall>u \<in> set (t # ts). u + Milliseconds (fb_LimitDuration a) < 2 ^ 63) \<longrightarrow>
      fst (skip_rounds a view rel msg ts w) = replicate (length ts) False) \<and>
   (c < length (s_heap s) \<and> \<not> dc_isFirst (ctx_at s c) \<and> dc_pool (ctx_at s c) = None \<and>
    dc_afterAspects (ctx_at s c) = [UserAspect (fallback_aspect a)] \<and> fb_PointCutFunc a = None \<and>
    breaker_skips a (fb_now (s_world s)) (breaker_at (s_world s) (view_key (view_of s c))) \<longrightarrow>
      s_world (snd (exec_go3 E (IAround c orig msg rel [fallback_aspect a] True # rest) s)) =
      snd (skip_round a (view_of s c) rel msg (fb_now (s_world s)) (s_world s)))"
  by (intro conjI impI; elim conjE) (erule (7) fallback_never_recovers_facts(1), erule (5) fallback_never_recovers_facts(2))

definition demo_fallback :: SkipFallbackAspect where
  "demo_fallback = \<lparr>fb_ErrorCountLimit = 2, fb_LimitDuration = 10000000000, fb_PointCutFunc = None\<rparr>"

definition demo_view :: ctx_view where
  "demo_view = \<lparr>cv_self = Some \<lparr>NodeId = ''n'', NodeKind = NODE\<rparr>, cv_from = None,
     cv_chain = Some \<lparr>NodeId = ''c'', NodeKind = CHAIN\<rparr>, cv_debug = False\<rparr>"

definition fb_demo_msg :: RuleMsg where
  "fb_demo_msg = \<lparr>Ts = 1, MsgId = ''m'', DataType = JSON, MsgType = ''T'', Data = [], MsgMetadata = Some []\<rparr>"

definition demo_open :: fb_world where
  "demo_open = snd (After demo_view fb_demo_msg None Failure
     (snd (After demo_view fb_demo_msg None Failure \<lparr>fb_chainNodeErrorCache = [], fb_now = 1000\<rparr>)))"

theorem fallback_never_recovers_witness:
  "fst (skip_rounds demo_fallback demo_view Success fb_demo_msg [9000, 18000, 27000, 36000] demo_open) =
     [False, False, False, False]"
proof -
  have b: "breaker_at demo_open (view_key demo_view) = Failing 2 1000" by code_simp
  have m: "Milliseconds (fb_LimitDuration demo_fallback) = 10000" and l: "fb_ErrorCountLimit demo_fallback = 2"
    by (simp_all add: demo_fallback_def Milliseconds_def)
  show ?thesis
    using b conjunct1 [OF fallback_never_recovers, of demo_open demo_view 2 1000 demo_fallback
        "[9000, 18000, 27000, 36000]" Success fb_demo_msg]
    by (simp add: m l eval_nat_numeral del: skip_rounds.simps)
qed

end
