(* ===== verification/JsEngine.thy ===== *)
theory JsEngine
  imports Config
begin

text \<open>
  The JavaScript engine of the scripted nodes (\<open>components/js/js_engine.go\<close>). The interpreter
  goja is a parameter: compiling a script, a new runtime, running a program in it, setting a
  variable, looking a function up and calling it. A script can write to the Go maps it is given,
  so a call also returns what its arguments hold afterwards. The runtime pool of an engine is a list;
  \<open>sync.Pool\<close> may hand out any of its runtimes or make a new one. The time-out of a call is a
  protocol over a channel with one place, modelled as a step relation below.
\<close>

section \<open>The interpreter\<close>

datatype 'a js_outcome = JsErr error | JsPanic string | JsOk 'a

record ('p, 'vm) goja =
  gj_Compile :: "string \<Rightarrow> string \<Rightarrow> error + 'p"
  gj_New :: 'vm
  gj_RunProgram :: "'p \<Rightarrow> 'vm \<Rightarrow> error option \<times> 'vm"
  gj_Set :: "string \<Rightarrow> go_val \<Rightarrow> 'vm \<Rightarrow> error option \<times> 'vm"
  gj_AssertFunction :: "'vm \<Rightarrow> string \<Rightarrow> bool"
  gj_Call :: "string \<Rightarrow> go_val list \<Rightarrow> 'vm \<Rightarrow> go_val js_outcome \<times> go_val list \<times> 'vm"

definition GlobalKey :: string where "GlobalKey = ''global''"

record ('p, 'w) GojaJsEngine =
  js_config :: "'w Config"
  js_jsScript :: 'p
  js_jsUdfProgramCache :: "(string, 'p) gomap"
  js_fromVars :: "(string, go_val) gomap"

section \<open>Compiling\<close>

text \<open>The JavaScript source of a user function: a string, or a script of type Js or without a
  type whose content is a string.\<close>

definition udf_source :: "udf \<Rightarrow> string option" where
  "udf_source v =
     (case v of
        UdfValue (GString s) \<Rightarrow> Some s
      | UdfScript ty (GString s) \<Rightarrow> (if ty = Js \<or> ty = [] then Some s else None)
      | _ \<Rightarrow> None)"

fun precompile :: "('p, 'vm) goja \<Rightarrow> (string \<times> udf) list \<Rightarrow> (string, 'p) gomap \<Rightarrow> error + (string, 'p) gomap" where
  "precompile J [] cache = Inr cache"
| "precompile J ((k, v) # udfs) cache =
     (case udf_source v of
        Some src \<Rightarrow>
          (case gj_Compile J k src of
             Inl err \<Rightarrow> Inl err
           | Inr p \<Rightarrow> precompile J udfs (gm_put k p cache))
      | None \<Rightarrow> precompile J udfs cache)"

definition udfs_of :: "'w Config \<Rightarrow> (string \<times> udf) list" where
  "udfs_of config = (case cfg_Udf config of Some m \<Rightarrow> m | None \<Rightarrow> [])"

definition PreCompileJs :: "('p, 'vm) goja \<Rightarrow> 'w Config \<Rightarrow> error + (string, 'p) gomap" where
  "PreCompileJs J config = precompile J (udfs_of config) []"

definition NewGojaJsEngine ::
  "('p, 'vm) goja \<Rightarrow> 'w Config \<Rightarrow> string \<Rightarrow> (string, go_val) gomap \<Rightarrow> error + ('p, 'w) GojaJsEngine" where
  "NewGojaJsEngine J config jsScript fromVars =
     (case gj_Compile J [] jsScript of
        Inl err \<Rightarrow> Inl err
      | Inr program \<Rightarrow>
          (case PreCompileJs J config of
             Inl err \<Rightarrow> Inl err
           | Inr cache \<Rightarrow>
               Inr \<lparr>js_config = config, js_jsScript = program, js_jsUdfProgramCache = cache,
                    js_fromVars = fromVars\<rparr>))"

section \<open>A new runtime\<close>

text \<open>The loop over the user functions: sources are run, values become variables. A source that
  fails is only logged. \<open>logs\<close> are the lines written to the logger.\<close>

fun load_udfs ::
  "('p, 'vm) goja \<Rightarrow> (string, 'p) gomap \<Rightarrow> (string \<times> udf) list \<Rightarrow> (string, go_val) gomap \<Rightarrow> 'vm \<Rightarrow> string list
     \<Rightarrow> (string, go_val) gomap \<times> 'vm \<times> string list" where
  "load_udfs J cache [] vars vm logs = (vars, vm, logs)"
| "load_udfs J cache ((k, v) # udfs) vars vm logs =
     (case udf_source v of
        Some src \<Rightarrow>
          (case map_of cache k of
             Some p \<Rightarrow>
               (case gj_RunProgram J p vm of
                  (None, vm) \<Rightarrow> load_udfs J cache udfs vars vm logs
                | (Some err, vm) \<Rightarrow>
                    load_udfs J cache udfs vars vm (logs @ [''parse js script='' @ k @ '' error,err:'' @ err]))
           | None \<Rightarrow> load_udfs J cache udfs vars vm logs)
      | None \<Rightarrow>
          (case v of
             UdfScript ty content \<Rightarrow>
               (if ty = Js \<or> ty = []
                then load_udfs J cache udfs (gm_put (replace_first (Js @ ScriptFuncSeparator) [] k) content vars) vm logs
                else load_udfs J cache udfs vars vm logs)
           | UdfValue x \<Rightarrow> load_udfs J cache udfs (gm_put k x vars) vm logs))"

fun set_vars ::
  "('p, 'vm) goja \<Rightarrow> (string \<times> go_val) list \<Rightarrow> 'vm \<Rightarrow> string list \<Rightarrow> 'vm js_outcome \<times> string list" where
  "set_vars J [] vm logs = (JsOk vm, logs)"
| "set_vars J ((k, v) # vars) vm logs =
     (case gj_Set J k v vm of
        (None, vm) \<Rightarrow> set_vars J vars vm logs
      | (Some err, vm) \<Rightarrow>
          (JsPanic (''set variable error,err:'' @ err), logs @ [''set variable error,err:'' @ err]))"

definition NewVm :: "('p, 'vm) goja \<Rightarrow> ('p, 'w) GojaJsEngine \<Rightarrow> 'vm js_outcome \<times> string list" where
  "NewVm J g =
     (let config = js_config g;
          vars = gm_copy_into (js_fromVars g) [];
          vars = (if md_entries (cfg_Properties config) \<noteq> []
                  then gm_put GlobalKey (GMapStr (md_entries (cfg_Properties config))) vars else vars);
          (vars, vm, logs) = load_udfs J (js_jsUdfProgramCache g) (udfs_of config) vars (gj_New J) []
      in case set_vars J vars vm logs of
           (JsOk vm, logs) \<Rightarrow>
             (case gj_RunProgram J (js_jsScript g) vm of
                (None, vm) \<Rightarrow> (JsOk vm, logs)
              | (Some err, vm) \<Rightarrow> (JsPanic (''js vm error,err:'' @ err), logs @ [''js vm error,err:'' @ err]))
         | (r, logs) \<Rightarrow> (r, logs))"

section \<open>Calling a function\<close>

text \<open>\<open>Execute\<close>: \<open>pick\<close> is the runtime that \<open>sync.Pool\<close> hands out, \<open>None\<close> a new one. A panic is
  recovered into an error; a runtime goes back to the pool only when its call has returned.\<close>

definition pool_get ::
  "('p, 'vm) goja \<Rightarrow> ('p, 'w) GojaJsEngine \<Rightarrow> nat option \<Rightarrow> 'vm list \<Rightarrow> 'vm js_outcome \<times> 'vm list" where
  "pool_get J g pick vmPool =
     (case pick of
        Some i \<Rightarrow>
          (if i < length vmPool then (JsOk (vmPool ! i), take i vmPool @ drop (Suc i) vmPool)
           else (fst (NewVm J g), vmPool))
      | None \<Rightarrow> (fst (NewVm J g), vmPool))"

definition Execute ::
  "('p, 'vm) goja \<Rightarrow> ('p, 'w) GojaJsEngine \<Rightarrow> nat option \<Rightarrow> string \<Rightarrow> go_val list \<Rightarrow> 'vm list
     \<Rightarrow> ((error + go_val) \<times> go_val list) \<times> 'vm list" where
  "Execute J g pick functionName argumentList vmPool =
     (case pool_get J g pick vmPool of
        (JsOk vm, vmPool) \<Rightarrow>
          (if \<not> gj_AssertFunction J vm functionName
           then ((Inl (functionName @ '' is not a function''), argumentList), vmPool)
           else
             (case gj_Call J functionName argumentList vm of
                (JsOk v, argumentList, vm) \<Rightarrow> ((Inr v, argumentList), vmPool @ [vm])
              | (JsErr err, argumentList, vm) \<Rightarrow> ((Inl err, argumentList), vmPool @ [vm])
              | (JsPanic caught, argumentList, vm) \<Rightarrow> ((Inl caught, argumentList), vmPool)))
      | (JsErr err, vmPool) \<Rightarrow> ((Inl err, argumentList), vmPool)
      | (JsPanic caught, vmPool) \<Rightarrow> ((Inl caught, argumentList), vmPool))"

section \<open>Properties of the engine\<close>

lemma precompile_err:
  "precompile J udfs cache = Inl err \<Longrightarrow>
     \<exists>k v src. (k, v) \<in> set udfs \<and> udf_source v = Some src \<and> gj_Compile J k src = Inl err"
proof (induction udfs arbitrary: cache)
  case Nil
  then show ?case by simp
next
  case (Cons p udfs)
  then show ?case by (cases p) (fastforce split: option.splits sum.splits)
qed

lemma precompile_frame:
  "precompile J udfs cache = Inr cache' \<Longrightarrow> k \<notin> fst ` set udfs \<Longrightarrow> map_of cache' k = map_of cache k"
proof (induction udfs arbitrary: cache)
  case Nil
  then show ?case by simp
next
  case (Cons p udfs)
  then show ?case by (cases p) (fastforce split: option.splits sum.splits)
qed

lemma precompile_ok:
  "precompile J udfs cache = Inr cache' \<Longrightarrow> distinct (map fst udfs) \<Longrightarrow> (k, v) \<in> set udfs \<Longrightarrow>
     udf_source v = Some src \<Longrightarrow> \<exists>p. gj_Compile J k src = Inr p \<and> map_of cache' k = Some p"
proof (induction udfs arbitrary: cache)
  case Nil
  then show ?case by simp
next
  case (Cons q udfs)
  obtain k' v' where q: "q = (k', v')" by force
  show ?case
  proof (cases "(k, v) \<in> set udfs")
    case True
    with Cons q show ?thesis by (auto split: option.splits sum.splits)
  next
    case False
    with Cons.prems q have "k' = k" "v' = v" by auto
    with Cons.prems q obtain p where "gj_Compile J k src = Inr p" "precompile J udfs (gm_put k p cache) = Inr cache'"
      by (auto split: sum.splits)
    with precompile_frame [of J udfs "gm_put k p cache" cache' k] Cons.prems q \<open>k' = k\<close> show ?thesis by simp
  qed
qed

text \<open>The programs of the user functions that have a source, in the order of the loop.\<close>

fun udf_programs :: "('p, 'vm) goja \<Rightarrow> (string \<times> udf) list \<Rightarrow> 'p list" where
  "udf_programs J [] = []"
| "udf_programs J ((k, v) # udfs) =
     (case udf_source v of
        Some src \<Rightarrow> (case gj_Compile J k src of Inr p \<Rightarrow> p # udf_programs J udfs | Inl _ \<Rightarrow> udf_programs J udfs)
      | None \<Rightarrow> udf_programs J udfs)"

lemma load_udfs_runs:
  assumes "\<And>k v src. (k, v) \<in> set udfs \<Longrightarrow> udf_source v = Some src \<Longrightarrow>
             (\<exists>p. gj_Compile J k src = Inr p \<and> map_of cache k = Some p)"
  shows "fst (snd (load_udfs J cache udfs vars vm logs)) = fold (\<lambda>p vm. snd (gj_RunProgram J p vm)) (udf_programs J udfs) vm"
  using assms
proof (induction udfs arbitrary: vars vm logs)
  case Nil
  then show ?case by simp
next
  case (Cons q udfs)
  obtain k v where q: "q = (k, v)" by force
  have ih: "fst (snd (load_udfs J cache udfs vars vm logs)) =
      fold (\<lambda>p vm. snd (gj_RunProgram J p vm)) (udf_programs J udfs) vm" for vars vm logs
    by (rule Cons.IH) (use Cons.prems q in auto)
  show ?case
  proof (cases "udf_source v")
    case None
    with ih show ?thesis by (simp add: q split: udf.splits)
  next
    case (Some src)
    then obtain p where p: "gj_Compile J k src = Inr p" "map_of cache k = Some p" using Cons.prems [of k v src] q by auto
    obtain e vm' where "gj_RunProgram J p vm = (e, vm')" by force
    with ih Some p show ?thesis by (cases e) (simp_all add: q)
  qed
qed

lemma NewGojaJsEngine_loads_udfs_facts:
  assumes "distinct (map fst (udfs_of config))"
  shows "is_err (NewGojaJsEngine J config jsScript fromVars) =
           (is_err (gj_Compile J [] jsScript) \<or>
            (\<exists>(k, v) \<in> set (udfs_of config). \<exists>src. udf_source v = Some src \<and> is_err (gj_Compile J k src)))"
    and "NewGojaJsEngine J config jsScript fromVars = Inr g \<Longrightarrow>
         fst (snd (load_udfs J (js_jsUdfProgramCache g) (udfs_of config) vars vm logs)) =
         fold (\<lambda>p vm. snd (gj_RunProgram J p vm)) (udf_programs J (udfs_of config)) vm"
proof -
  let ?u = "udfs_of config"
  have ok: "\<exists>p. gj_Compile J k src = Inr p \<and> map_of cache k = Some p"
    if "precompile J ?u [] = Inr cache" "(k, v) \<in> set ?u" "udf_source v = Some src" for cache k v src
    by (rule precompile_ok [OF that(1) assms that(2,3)])
  show "is_err (NewGojaJsEngine J config jsScript fromVars) =
           (is_err (gj_Compile J [] jsScript) \<or>
            (\<exists>(k, v) \<in> set ?u. \<exists>src. udf_source v = Some src \<and> is_err (gj_Compile J k src)))"
  proof (cases "precompile J ?u []")
    case (Inl err)
    with precompile_err [OF Inl] show ?thesis
      by (fastforce simp: NewGojaJsEngine_def PreCompileJs_def split: sum.splits)
  next
    case (Inr cache)
    with ok [OF Inr] show ?thesis
      by (fastforce simp: NewGojaJsEngine_def PreCompileJs_def split: sum.splits)
  qed
  assume g: "NewGojaJsEngine J config jsScript fromVars = Inr g"
  then have c: "precompile J ?u [] = Inr (js_jsUdfProgramCache g)"
    by (auto simp: NewGojaJsEngine_def PreCompileJs_def split: sum.splits)
  show "fst (snd (load_udfs J (js_jsUdfProgramCache g) ?u vars vm logs)) =
         fold (\<lambda>p vm. snd (gj_RunProgram J p vm)) (udf_programs J ?u) vm"
    by (rule load_udfs_runs) (rule ok [OF c])
qed


text \<open>an engine is created exactly when its script and every user function with a source
  compile, and then no source is skipped: a new runtime runs the programs of all of them, in order,
  before anything else.\<close>

theorem NewGojaJsEngine_loads_udfs:
  assumes "distinct (map fst (udfs_of config))"
  shows "is_err (NewGojaJsEngine J config jsScript fromVars) =
           (is_err (gj_Compile J [] jsScript) \<or>
            (\<exists>(k, v) \<in> set (udfs_of config). \<exists>src. udf_source v = Some src \<and> is_err (gj_Compile J k src))) \<and>
         (\<forall>g vars vm logs. NewGojaJsEngine J config jsScript fromVars = Inr g \<longrightarrow>
            fst (snd (load_udfs J (js_jsUdfProgramCache g) (udfs_of config) vars vm logs)) =
            fold (\<lambda>p vm. snd (gj_RunProgram J p vm)) (udf_programs J (udfs_of config)) vm)"
  by (intro conjI allI impI) (rule NewGojaJsEngine_loads_udfs_facts(1) [OF assms], erule NewGojaJsEngine_loads_udfs_facts(2) [OF assms])

text \<open>An interpreter whose runtime is the list of what it has been given to run or to hold: a
  script that starts with \<open>!\<close> does not compile.\<close>

definition toy_goja :: "(string, string list) goja" where
  "toy_goja =
     \<lparr>gj_Compile = (\<lambda>name src. if HasPrefix src ''!'' then Inl ''SyntaxError'' else Inr src), gj_New = [],
      gj_RunProgram = (\<lambda>p vm. (None, vm @ [p])), gj_Set = (\<lambda>k v vm. (None, vm @ [k])),
      gj_AssertFunction = (\<lambda>vm f. f \<in> set vm), gj_Call = (\<lambda>f args vm. (JsOk GNil, args, vm))\<rparr>"

definition toy_config :: "unit Config" where
  "toy_config = RegisterUdf ''f'' (UdfValue (GString ''var f'')) (RegisterUdf ''g'' (UdfScript Js (GString ''var g'')) (types_NewConfig []))"

theorem NewGojaJsEngine_loads_udfs_witness:
  "is_err (NewGojaJsEngine toy_goja toy_config ''!'' []) \<and>
   fst (snd (load_udfs toy_goja [(''Js#g'', ''var g''), (''f'', ''var f'')] (udfs_of toy_config) [] [] [])) = [''var g'', ''var f'']"
proof -
  have d: "distinct (map fst (udfs_of toy_config))" by code_simp
  have e: "NewGojaJsEngine toy_goja toy_config ''main'' [] =
      Inr \<lparr>js_config = toy_config, js_jsScript = ''main'', js_jsUdfProgramCache = [(''Js#g'', ''var g''), (''f'', ''var f'')], js_fromVars = []\<rparr>"
    by (simp add: NewGojaJsEngine_def PreCompileJs_def toy_goja_def toy_config_def udfs_of_def RegisterUdf_def types_NewConfig_def
        udf_source_def Js_def ScriptFuncSeparator_def)
  have p: "udf_programs toy_goja (udfs_of toy_config) = [''var g'', ''var f'']" by code_simp
  have f: "fold (\<lambda>p vm. snd (gj_RunProgram toy_goja p vm)) [''var g'', ''var f''] [] = [''var g'', ''var f'']" by code_simp
  show ?thesis
    using NewGojaJsEngine_loads_udfs [OF d, of toy_goja "''!''" "[]"]
      NewGojaJsEngine_loads_udfs [OF d, of toy_goja "''main''" "[]"] p f
    by (simp add: toy_goja_def e [unfolded toy_goja_def])
qed

lemma HasPrefix_set: "HasPrefix s p \<Longrightarrow> set p \<subseteq> set s"
  by (induction s p rule: HasPrefix.induct) auto

lemma replace_first_absent: "c \<in> set old \<Longrightarrow> c \<notin> set s \<Longrightarrow> replace_first old new s = s"
  by (induction s) (auto dest!: HasPrefix_set)

text \<open>a Go function registered as a \<open>Script\<close> without a type, which \<open>PreCompileJs\<close> and \<open>NewVm\<close>
  treat as JavaScript, is stored under \<open>#name\<close>, and \<open>NewVm\<close>, which strips only the prefix \<open>Js#\<close>,
  puts it into the runtime under that name: no variable \<open>name\<close> is set. With the type Js it is set
  under its own name.\<close>

theorem udf_without_type_unreachable:
  assumes "CHR ''#'' \<notin> set name" and "udf_source (UdfScript [] f) = None" and "cfg_Udf config = None"
  shows "fst (load_udfs J cache (udfs_of (RegisterUdf name (UdfScript [] f) config)) [] vm logs) = [(''#'' @ name, f)]"
    and "fst (load_udfs J cache (udfs_of (RegisterUdf name (UdfScript Js f) config)) [] vm logs) = [(name, f)]"
proof -
  have s: "udf_source (UdfScript Js f) = None" using assms(2) by (simp add: udf_source_def split: go_val.splits)
  have n: "replace_first ''Js#'' [] name = name" by (rule replace_first_absent) (use assms(1) in auto)
  show "fst (load_udfs J cache (udfs_of (RegisterUdf name (UdfScript [] f) config)) [] vm logs) = [(''#'' @ name, f)]"
    using assms n by (simp add: RegisterUdf_def udfs_of_def ScriptFuncSeparator_def Js_def)
  show "fst (load_udfs J cache (udfs_of (RegisterUdf name (UdfScript Js f) config)) [] vm logs) = [(name, f)]"
    using assms s by (simp add: RegisterUdf_def udfs_of_def ScriptFuncSeparator_def Js_def)
qed

theorem udf_without_type_unreachable_witness:
  "fst (load_udfs toy_goja [] (udfs_of (RegisterUdf ''add'' (UdfScript [] (GFunc 1)) (types_NewConfig [] :: unit Config))) [] [] []) =
     [(''#add'', GFunc 1)]"
  using udf_without_type_unreachable(1) [of "''add''" "GFunc 1" "types_NewConfig [] :: unit Config" toy_goja "[]" "[]" "[]"]
  by (simp add: udf_source_def types_NewConfig_def)

section \<open>The time-out of a call\<close>

text \<open>
  \<open>setTimeout\<close> makes a channel with one place that holds 0 and a timer that waits for a token;
  \<open>closeStateChan\<close> is called when the call of the script has ended. Receiving from a closed,
  empty channel gives 0; sending to a closed channel panics.
\<close>

datatype timer_pc = TArmed | TGotZero | TInterrupting | TOver
datatype caller_pc = CRunning | CGotZero | CClosing | CReturned

record timeout_state =
  to_chan :: "nat list"
  to_closed :: bool
  to_timer :: timer_pc
  to_caller :: caller_pc
  to_interrupts :: "caller_pc list"
  to_panic :: bool

definition setTimeout :: timeout_state where
  "setTimeout = \<lparr>to_chan = [0], to_closed = False, to_timer = TArmed, to_caller = CRunning, to_interrupts = [], to_panic = False\<rparr>"

inductive timeout_step :: "timeout_state \<Rightarrow> timeout_state \<Rightarrow> bool" where
  timer_receives: "to_timer s = TArmed \<Longrightarrow> to_chan s = x # xs \<Longrightarrow>
    timeout_step s (s\<lparr>to_chan := xs, to_timer := (if x = 0 then TGotZero else TOver)\<rparr>)"
| timer_receives_closed: "to_timer s = TArmed \<Longrightarrow> to_chan s = [] \<Longrightarrow> to_closed s \<Longrightarrow>
    timeout_step s (s\<lparr>to_timer := TGotZero\<rparr>)"
| timer_sends: "to_timer s = TGotZero \<Longrightarrow> to_chan s = [] \<Longrightarrow> \<not> to_closed s \<Longrightarrow>
    timeout_step s (s\<lparr>to_chan := [2], to_timer := TInterrupting\<rparr>)"
| timer_send_panics: "to_timer s = TGotZero \<Longrightarrow> to_closed s \<Longrightarrow> timeout_step s (s\<lparr>to_panic := True\<rparr>)"
| timer_interrupts: "to_timer s = TInterrupting \<Longrightarrow>
    timeout_step s (s\<lparr>to_timer := TOver, to_interrupts := to_interrupts s @ [to_caller s]\<rparr>)"
| caller_receives: "to_caller s = CRunning \<Longrightarrow> to_chan s = x # xs \<Longrightarrow>
    timeout_step s (s\<lparr>to_chan := xs, to_caller := (if x = 0 then CGotZero else CClosing)\<rparr>)"
| caller_sends: "to_caller s = CGotZero \<Longrightarrow> to_chan s = [] \<Longrightarrow>
    timeout_step s (s\<lparr>to_chan := [1], to_caller := CClosing\<rparr>)"
| caller_closes: "to_caller s = CClosing \<Longrightarrow> timeout_step s (s\<lparr>to_closed := True, to_caller := CReturned\<rparr>)"

inductive_cases timeout_stepE: "timeout_step s s'"

text \<open>The reachable states. \<open>to_interrupts\<close> is empty unless the timer got the token.\<close>

definition timeout_inv :: "timeout_state \<Rightarrow> bool" where
  "timeout_inv s =
     (\<not> to_panic s \<and> to_closed s = (to_caller s = CReturned) \<and>
      (case to_timer s of
         TArmed \<Rightarrow> to_interrupts s = [] \<and>
           (to_chan s, to_caller s) \<in> {([0], CRunning), ([], CGotZero), ([1], CClosing), ([1], CReturned)}
       | TGotZero \<Rightarrow> to_interrupts s = [] \<and> to_chan s = [] \<and> to_caller s = CRunning
       | TInterrupting \<Rightarrow> to_interrupts s = [] \<and>
           (to_chan s, to_caller s) \<in> {([2], CRunning), ([], CClosing), ([], CReturned)}
       | TOver \<Rightarrow>
           (to_interrupts s = [] \<and> (to_chan s, to_caller s) \<in> {([], CClosing), ([], CReturned)}) \<or>
           (length (to_interrupts s) = 1 \<and> (to_chan s, to_caller s) \<in> {([2], CRunning), ([], CClosing), ([], CReturned)})))"

lemma timeout_inv_step: "timeout_step s s' \<Longrightarrow> timeout_inv s \<Longrightarrow> timeout_inv s'"
  by (erule timeout_stepE; cases "to_timer s") (auto simp: timeout_inv_def)

lemma timeout_inv_reach: "timeout_step\<^sup>*\<^sup>* setTimeout s \<Longrightarrow> timeout_inv s"
proof (induction rule: rtranclp_induct)
  case base
  show ?case by (simp add: setTimeout_def timeout_inv_def)
next
  case (step y z)
  then show ?case by (blast intro: timeout_inv_step)
qed

definition timeout_rank :: "timeout_state \<Rightarrow> nat" where
  "timeout_rank s =
     (case to_timer s of TArmed \<Rightarrow> 3 | TGotZero \<Rightarrow> 2 | TInterrupting \<Rightarrow> 1 | TOver \<Rightarrow> 0) +
     (case to_caller s of CRunning \<Rightarrow> 3 | CGotZero \<Rightarrow> 2 | CClosing \<Rightarrow> 1 | CReturned \<Rightarrow> 0)"

lemma timeout_rank_step: "timeout_step s s' \<Longrightarrow> timeout_inv s \<Longrightarrow> timeout_rank s' < timeout_rank s"
  by (erule timeout_stepE; cases "to_timer s"; cases "to_caller s") (auto simp: timeout_inv_def timeout_rank_def)

lemma timeout_protocol_facts:
  assumes "timeout_step\<^sup>*\<^sup>* setTimeout s"
  shows "\<not> to_panic s" and "length (to_interrupts s) \<le> 1"
    and "timeout_step s s' \<Longrightarrow> timeout_rank s' < timeout_rank s"
    and "to_caller s \<noteq> CReturned \<Longrightarrow> \<exists>s'. timeout_step s s'"
    and "to_caller s = CGotZero \<Longrightarrow> timeout_step\<^sup>*\<^sup>* s s' \<Longrightarrow> to_interrupts s' = []"
proof -
  have inv: "timeout_inv s" by (rule timeout_inv_reach [OF assms])
  then show "\<not> to_panic s" "length (to_interrupts s) \<le> 1"
    by (auto simp: timeout_inv_def split: timer_pc.splits)
  show "timeout_step s s' \<Longrightarrow> timeout_rank s' < timeout_rank s" by (rule timeout_rank_step [OF _ inv])
  show "\<exists>s'. timeout_step s s'" if "to_caller s \<noteq> CReturned"
  proof (cases "to_caller s")
    case CRunning
    show ?thesis
    proof (cases "to_chan s")
      case Nil
      with CRunning inv have "to_timer s = TGotZero" "\<not> to_closed s"
        by (auto simp: timeout_inv_def split: timer_pc.splits)
      with Nil show ?thesis by (blast intro: timeout_step.timer_sends)
    qed (use CRunning in \<open>blast intro: timeout_step.caller_receives\<close>)
  next
    case CGotZero
    with inv have "to_chan s = []" by (auto simp: timeout_inv_def split: timer_pc.splits)
    with CGotZero show ?thesis by (blast intro: timeout_step.caller_sends)
  qed (use that in \<open>blast intro: timeout_step.caller_closes\<close>)+
  show "to_interrupts s' = []" if "to_caller s = CGotZero" "timeout_step\<^sup>*\<^sup>* s s'"
  proof -
    from that(2) have "timeout_inv s' \<and> to_interrupts s' = [] \<and> to_caller s' \<noteq> CRunning \<and>
        (to_timer s' = TArmed \<or> to_timer s' = TOver)"
    proof (induction rule: rtranclp_induct)
      case base
      show ?case using inv that(1) by (cases "to_timer s") (auto simp: timeout_inv_def)
    next
      case (step y z)
      then have z: "timeout_inv z" by (blast intro: timeout_inv_step)
      from step(2) step(3) have "to_interrupts z = [] \<and> to_caller z \<noteq> CRunning \<and> (to_timer z = TArmed \<or> to_timer z = TOver)"
        by (cases rule: timeout_step.cases) (auto simp: timeout_inv_def)
      with z show ?case by simp
    qed
    then show ?thesis by simp
  qed
qed

text \<open>C33: the time-out protocol is safe and cannot get stuck. In every reachable state nothing is
  sent to a closed channel and the runtime has been interrupted at most once; every step brings the
  protocol nearer to its end, and while the caller has not returned some step is possible. A call
  that took the token before the timer is never interrupted.\<close>

theorem timeout_protocol:
  assumes "timeout_step\<^sup>*\<^sup>* setTimeout s"
  shows "\<not> to_panic s \<and> length (to_interrupts s) \<le> 1 \<and>
    (\<forall>s'. timeout_step s s' \<longrightarrow> timeout_rank s' < timeout_rank s) \<and>
    (to_caller s \<noteq> CReturned \<longrightarrow> (\<exists>s'. timeout_step s s')) \<and>
    (to_caller s = CGotZero \<longrightarrow> (\<forall>s'. timeout_step\<^sup>*\<^sup>* s s' \<longrightarrow> to_interrupts s' = []))"
  using timeout_protocol_facts [OF assms] by blast

definition fast_call :: timeout_state where
  "fast_call = setTimeout\<lparr>to_chan := [], to_caller := CGotZero\<rparr>"

theorem timeout_protocol_witness: "to_interrupts (fast_call\<lparr>to_chan := [1], to_caller := CClosing\<rparr>) = []"
proof -
  have "timeout_step setTimeout fast_call"
    using timeout_step.caller_receives [of setTimeout 0 "[]"] by (simp add: fast_call_def setTimeout_def)
  then have r: "timeout_step\<^sup>*\<^sup>* setTimeout fast_call" by blast
  have t: "timeout_step fast_call (fast_call\<lparr>to_chan := [1], to_caller := CClosing\<rparr>)"
    using timeout_step.caller_sends [of fast_call] by (simp add: fast_call_def setTimeout_def)
  show ?thesis
    using timeout_protocol [OF r] r_into_rtranclp [where r = timeout_step, OF t] by (auto simp: fast_call_def)
qed

text \<open>the interrupt of a call can come after the call has returned, when \<open>Execute\<close> has put the
  runtime back into the pool: the timer announces the time-out in the channel before it interrupts
  the runtime, and the caller only waits for the announcement. The interrupt then hits the next
  call of that runtime.\<close>

theorem late_interrupt:
  "\<exists>s s'. timeout_step\<^sup>*\<^sup>* setTimeout s \<and> to_caller s = CReturned \<and> timeout_step s s' \<and> to_interrupts s' = [CReturned]"
proof -
  let ?s = "\<lambda>ch cl t c. \<lparr>to_chan = ch, to_closed = cl, to_timer = t, to_caller = c, to_interrupts = [], to_panic = False\<rparr>"
  have 1: "timeout_step setTimeout (?s [] False TGotZero CRunning)"
    using timeout_step.timer_receives [of setTimeout 0 "[]"] by (simp add: setTimeout_def)
  have 2: "timeout_step (?s [] False TGotZero CRunning) (?s [2] False TInterrupting CRunning)"
    using timeout_step.timer_sends [of "?s [] False TGotZero CRunning"] by simp
  have 3: "timeout_step (?s [2] False TInterrupting CRunning) (?s [] False TInterrupting CClosing)"
    using timeout_step.caller_receives [of "?s [2] False TInterrupting CRunning" 2 "[]"] by simp
  have 4: "timeout_step (?s [] False TInterrupting CClosing) (?s [] True TInterrupting CReturned)"
    using timeout_step.caller_closes [of "?s [] False TInterrupting CClosing"] by simp
  have r: "timeout_step\<^sup>*\<^sup>* setTimeout (?s [] True TInterrupting CReturned)"
    by (rule converse_rtranclp_into_rtranclp [where r = timeout_step, OF 1], rule converse_rtranclp_into_rtranclp [where r = timeout_step, OF 2],
        rule converse_rtranclp_into_rtranclp [where r = timeout_step, OF 3], rule r_into_rtranclp, rule 4)
  have i: "timeout_step (?s [] True TInterrupting CReturned)
      ((?s [] True TOver CReturned)\<lparr>to_interrupts := [CReturned]\<rparr>)"
    using timeout_step.timer_interrupts [of "?s [] True TInterrupting CReturned"] by simp
  show ?thesis
    by (rule exI [of _ "?s [] True TInterrupting CReturned"], rule exI [of _ "(?s [] True TOver CReturned)\<lparr>to_interrupts := [CReturned]\<rparr>"])
       (use r i in simp)
qed

end
