(* ===== verification/NodeBase.thy ===== *)
theory NodeBase
  imports Registry JsEngine
begin

text \<open>
  What the built-in components share: decoding a configuration (\<open>utils/maps.Map2Struct\<close>, whose
  reflection is a parameter), reading the payload of a message as JSON, calling a script with the
  payload, the metadata and the type of a message, the environment of an expression, and the
  expression language as a parameter. \<open>OnMsg\<close> of a node is the list of the calls it makes on its
  context and the value it panics with afterwards, if any.
\<close>

type_synonym 'c decoder = "Configuration \<Rightarrow> 'c \<Rightarrow> error option \<times> 'c"

type_synonym node_result = "ctx_call list \<times> string option"

definition nil_panic :: node_result where
  "nil_panic = ([], Some ''invalid memory address or nil pointer dereference'')"

section \<open>The payload\<close>

text \<open>\<open>json.Unmarshal\<close> into a \<open>map[string]interface{}\<close>: the value \<open>null\<close> makes the map nil, a value
  that is no object is an error.\<close>

definition unmarshal_map :: "go_env \<Rightarrow> string \<Rightarrow> error + (string, go_val) gomap option" where
  "unmarshal_map env data =
     (case ge_unmarshal env data of
        Inl err \<Rightarrow> Inl err
      | Inr (GMap m) \<Rightarrow> Inr (Some m)
      | Inr GNil \<Rightarrow> Inr None
      | Inr _ \<Rightarrow> Inl ''json: cannot unmarshal into Go value of type map[string]interface {}'')"

definition map_val :: "(string, go_val) gomap option \<Rightarrow> go_val" where
  "map_val m = GMap (case m of Some m \<Rightarrow> m | None \<Rightarrow> [])"

text \<open>The payload as any JSON value, as a JSON object, or as it is.\<close>

definition data_any :: "go_env \<Rightarrow> RuleMsg \<Rightarrow> go_val" where
  "data_any env msg =
     (if DataType msg = JSON
      then (case ge_unmarshal env (Data msg) of Inr v \<Rightarrow> v | Inl _ \<Rightarrow> GString (Data msg))
      else GString (Data msg))"

definition data_object :: "go_env \<Rightarrow> RuleMsg \<Rightarrow> go_val" where
  "data_object env msg =
     (if DataType msg = JSON
      then (case unmarshal_map env (Data msg) of Inr m \<Rightarrow> map_val m | Inl _ \<Rightarrow> GString (Data msg))
      else GString (Data msg))"

section \<open>Scripts\<close>

text \<open>A call of a script function with the metadata as its argument number \<open>k\<close>: the outcome, and the
  message with the metadata as the script left them.\<close>

definition arg_metadata :: "go_val \<Rightarrow> Metadata" where
  "arg_metadata v = (case v of GMapStr m \<Rightarrow> Some m | _ \<Rightarrow> None)"

definition call_script ::
  "('p, 'vm) goja \<Rightarrow> ('p, 'w) GojaJsEngine \<Rightarrow> nat option \<Rightarrow> string \<Rightarrow> go_val list \<Rightarrow> nat \<Rightarrow> RuleMsg \<Rightarrow> 'vm list
     \<Rightarrow> ((error + go_val) \<times> RuleMsg) \<times> 'vm list" where
  "call_script J g pick functionName args k msg vmPool =
     (case Execute J g pick functionName args vmPool of
        ((out, args'), vmPool) \<Rightarrow>
          ((out, if MsgMetadata msg = None then msg else msg\<lparr>MsgMetadata := arg_metadata (args' ! k)\<rparr>), vmPool))"

definition script_args :: "go_val \<Rightarrow> RuleMsg \<Rightarrow> go_val list" where
  "script_args data msg = [data, GMapStr (md_entries (MsgMetadata msg)), GString (MsgType msg)]"

text \<open>The result of a filter script: only the Boolean value true counts as true.\<close>

definition is_true :: "go_val \<Rightarrow> bool" where
  "is_true v = (v = GBool True)"

definition tell_bool :: "RuleMsg \<Rightarrow> bool \<Rightarrow> ctx_call list" where
  "tell_bool msg b = [TellNext msg (Some [if b then TrueRel else FalseRel])]"

lemma call_script_msg:
  assumes "call_script J g pick f args k msg vms = ((out, msg'), vms')"
  shows "Ts msg' = Ts msg" "MsgId msg' = MsgId msg" "DataType msg' = DataType msg"
    "MsgType msg' = MsgType msg" "Data msg' = Data msg"
  using assms by (auto simp: call_script_def split: prod.splits if_splits)

section \<open>Expressions\<close>

record 'q expr_lang =
  ex_Compile :: "string \<Rightarrow> bool \<Rightarrow> error + 'q"
  ex_Run :: "'q option \<Rightarrow> (string, go_val) gomap \<Rightarrow> error + go_val"

definition expr_env :: "go_val \<Rightarrow> RuleMsg \<Rightarrow> (string, go_val) gomap" where
  "expr_env data msg =
     gm_put DataTypeKey (GString (DataType msg))
       (gm_put MsgTypeKey (GString (MsgType msg))
         (gm_put MetadataKey (GMapStr (md_entries (MsgMetadata msg))) (gm_put MsgKey data [])))"

end
