(* ===== verification/GroupFilter.thy ===== *)
theory GroupFilter
  imports NodeBase
begin

text \<open>
  The group filter (\<open>components/filter/group_filter_node.go\<close>): it runs its nodes in parallel and
  decides from the relations they end with. The end callbacks of the nodes run concurrently; every
  atomic operation of a callback is one step. A callback is early if its relation decides at once:
  a relation that is not True when all have to match, True when one is enough.
\<close>

section \<open>The node\<close>

record GroupFilterNodeConfiguration =
  gf_AllMatches :: bool
  gf_NodeIds :: string
  gf_Timeout :: int

record GroupFilterNode =
  gf_Config :: GroupFilterNodeConfiguration
  gf_NodeIdList :: "string list"
  gf_Length :: int

definition GroupFilterNode_New :: GroupFilterNode where
  "GroupFilterNode_New =
     \<lparr>gf_Config = \<lparr>gf_AllMatches = False, gf_NodeIds = [], gf_Timeout = 0\<rparr>, gf_NodeIdList = [], gf_Length = 0\<rparr>"

definition GroupFilterNode_Init ::
  "GroupFilterNodeConfiguration decoder \<Rightarrow> Configuration \<Rightarrow> GroupFilterNode \<Rightarrow> error + GroupFilterNode" where
  "GroupFilterNode_Init decode configuration x =
     (case decode configuration (gf_Config x) of
        (err, c) \<Rightarrow>
          (let ids = gf_NodeIdList x @ filter (\<lambda>v. v \<noteq> []) (map (\<lambda>nodeId. Trim nodeId []) (Split (gf_NodeIds c) CHR '','')) ;
               x = x\<lparr>gf_Config := c, gf_NodeIdList := ids, gf_Length := wrap32 (int (length ids))\<rparr>
           in case err of Some e \<Rightarrow> Inl e | None \<Rightarrow> Inr x))"

section \<open>One message\<close>

text \<open>Where a callback is: before loading \<open>completed\<close>, before counting, at the first
  compare-and-swap, before loading \<open>endCount\<close>, at the second compare-and-swap, before sending its
  answer, or over, having counted itself or not.\<close>

datatype gf_pc = GfLoad | GfAdd | GfCas1 | GfLoadEnd | GfCas2 | GfSend bool | GfDone bool

datatype gf_main = GfWaiting | GfAnswer bool | GfTimeout

record gf_state =
  gs_endCount :: int
  gs_completed :: bool
  gs_c :: "bool list"
  gs_pcs :: "gf_pc list"
  gs_main :: gf_main

text \<open>\<open>OnMsg\<close> up to the \<open>select\<close>: the nodes are started, each with a callback.\<close>

definition GroupFilterNode_start :: "GroupFilterNode \<Rightarrow> RuleMsg \<Rightarrow> ctx_call list \<times> gf_state option" where
  "GroupFilterNode_start x msg =
     (if gf_Length x = 0 then ([TellFailure msg (Some ''nodeIds is empty'')], None)
      else (map (\<lambda>nodeId. CExecuteNode nodeId msg True 0) (gf_NodeIdList x),
            Some \<lparr>gs_endCount = 0, gs_completed = False, gs_c = [], gs_pcs = replicate (length (gf_NodeIdList x)) GfLoad,
                  gs_main = GfWaiting\<rparr>))"

text \<open>The calls after the \<open>select\<close>.\<close>

definition GroupFilterNode_finish :: "RuleMsg \<Rightarrow> error \<Rightarrow> gf_main \<Rightarrow> ctx_call list" where
  "GroupFilterNode_finish msg ctxErr m =
     (case m of
        GfWaiting \<Rightarrow> []
      | GfTimeout \<Rightarrow> [TellFailure msg (Some ctxErr)]
      | GfAnswer r \<Rightarrow> (if r then [TellNext msg (Some [TrueRel])] else [TellNext msg (Some [FalseRel])]))"

definition early :: "bool \<Rightarrow> string \<Rightarrow> bool" where
  "early allMatches rel = (if allMatches then rel \<noteq> TrueRel else rel = TrueRel)"

text \<open>One atomic operation of the callback with the relation \<open>rel\<close>, at its place \<open>pc\<close>. The counters are 32 bits wide in the code; a
  group has fewer nodes than that.\<close>

definition gf_callback :: "bool \<Rightarrow> int \<Rightarrow> string \<Rightarrow> gf_pc \<Rightarrow> gf_state \<Rightarrow> gf_pc \<times> gf_state" where
  "gf_callback allMatches n rel pc s =
     (case pc of
        GfLoad \<Rightarrow> (if gs_completed s then GfDone False else GfAdd, s)
      | GfAdd \<Rightarrow> (if early allMatches rel then GfCas1 else GfLoadEnd, s\<lparr>gs_endCount := gs_endCount s + 1\<rparr>)
      | GfCas1 \<Rightarrow> (if gs_completed s then (GfLoadEnd, s) else (GfSend (\<not> allMatches), s\<lparr>gs_completed := True\<rparr>))
      | GfLoadEnd \<Rightarrow> (if n \<le> gs_endCount s then GfCas2 else GfDone True, s)
      | GfCas2 \<Rightarrow> (if gs_completed s then (GfDone True, s) else (GfSend allMatches, s\<lparr>gs_completed := True\<rparr>))
      | GfSend b \<Rightarrow> (GfDone True, s\<lparr>gs_c := gs_c s @ [b]\<rparr>)
      | GfDone b \<Rightarrow> (GfDone b, s))"

definition gf_cb_step :: "bool \<Rightarrow> int \<Rightarrow> string list \<Rightarrow> nat \<Rightarrow> gf_state \<Rightarrow> gf_state" where
  "gf_cb_step allMatches n rels i s =
     (case gf_callback allMatches n (rels ! i) (gs_pcs s ! i) s of
        (pc, s) \<Rightarrow> s\<lparr>gs_pcs := (gs_pcs s)[i := pc]\<rparr>)"

text \<open>A send waits for a free place in the channel.\<close>

definition gf_can :: "gf_pc \<Rightarrow> gf_state \<Rightarrow> bool" where
  "gf_can pc s = (case pc of GfDone _ \<Rightarrow> False | GfSend _ \<Rightarrow> gs_c s = [] | _ \<Rightarrow> True)"

inductive gf_step :: "bool \<Rightarrow> int \<Rightarrow> string list \<Rightarrow> gf_state \<Rightarrow> gf_state \<Rightarrow> bool" for allMatches n rels where
  callback: "i < length (gs_pcs s) \<Longrightarrow> gf_can (gs_pcs s ! i) s \<Longrightarrow>
    gf_step allMatches n rels s (gf_cb_step allMatches n rels i s)"
| answer: "gs_main s = GfWaiting \<Longrightarrow> gs_c s = r # rest \<Longrightarrow>
    gf_step allMatches n rels s (s\<lparr>gs_main := GfAnswer r, gs_c := rest\<rparr>)"
| timeout: "gs_main s = GfWaiting \<Longrightarrow> gf_step allMatches n rels s (s\<lparr>gs_main := GfTimeout\<rparr>)"

inductive_cases gf_stepE: "gf_step allMatches n rels s s'"

section \<open>The invariant\<close>

definition gf_added :: "gf_pc \<Rightarrow> bool" where
  "gf_added pc = (case pc of GfLoad \<Rightarrow> False | GfAdd \<Rightarrow> False | GfDone b \<Rightarrow> b | _ \<Rightarrow> True)"

definition gf_deciding :: "gf_pc \<Rightarrow> bool" where
  "gf_deciding pc = (pc = GfCas1 \<or> pc = GfLoadEnd \<or> pc = GfCas2)"

definition gf_sending :: "gf_pc \<Rightarrow> bool" where
  "gf_sending pc = (case pc of GfSend _ \<Rightarrow> True | _ \<Rightarrow> False)"

definition gf_skipped :: "gf_pc \<Rightarrow> bool" where
  "gf_skipped pc = (pc = GfDone False)"

definition gf_sending_early :: "bool \<Rightarrow> gf_pc \<Rightarrow> bool" where
  "gf_sending_early allMatches pc = (pc = GfSend (\<not> allMatches))"

lemmas gf_pc_defs = gf_added_def gf_deciding_def gf_sending_def gf_skipped_def gf_sending_early_def

text \<open>Callbacks that have counted themselves are counted; a completed group has one answer, on its
  way or given, and one that is not completed has none and has turned no callback away; while the
  last callback has counted itself but nothing is decided, some callback still is to decide; an
  early answer comes from an early relation.\<close>

definition gf_inv :: "bool \<Rightarrow> string list \<Rightarrow> gf_state \<Rightarrow> bool" where
  "gf_inv allMatches rels s =
     (length (gs_pcs s) = length rels \<and>
      gs_endCount s = int (cnt gf_added (gs_pcs s)) \<and>
      length (gs_c s) + cnt gf_sending (gs_pcs s) + (if gs_main s \<in> range GfAnswer then 1 else 0) \<le> (if gs_completed s then 1 else 0) \<and>
      (gs_completed s \<and> gs_main s = GfWaiting \<longrightarrow> 0 < length (gs_c s) + cnt gf_sending (gs_pcs s)) \<and>
      (\<not> gs_completed s \<longrightarrow> cnt gf_skipped (gs_pcs s) = 0) \<and>
      (\<not> gs_completed s \<and> cnt gf_added (gs_pcs s) = length rels \<and> rels \<noteq> [] \<longrightarrow> 0 < cnt gf_deciding (gs_pcs s)) \<and>
      (\<forall>i < length rels. gs_pcs s ! i = GfCas1 \<longrightarrow> early allMatches (rels ! i)) \<and>
      ((\<forall>rel \<in> set rels. \<not> early allMatches rel) \<longrightarrow>
         cnt (gf_sending_early allMatches) (gs_pcs s) = 0 \<and> (\<not> allMatches) \<notin> set (gs_c s) \<and> gs_main s \<noteq> GfAnswer (\<not> allMatches)))"

lemma gf_inv_init:
  "gf_inv allMatches rels \<lparr>gs_endCount = 0, gs_completed = False, gs_c = [], gs_pcs = replicate (length rels) GfLoad, gs_main = GfWaiting\<rparr>"
  by (auto simp: gf_inv_def gf_pc_defs)

text \<open>What a callback changes at its place.\<close>

lemma gf_inv_update:
  assumes inv: "gf_inv allMatches rels s" and i: "i < length (gs_pcs s)" and pc: "gs_pcs s ! i = pc"
    and s': "gs_pcs s' = (gs_pcs s)[i := pc']" "gs_main s' = gs_main s"
      "gs_endCount s' + (if gf_added pc then 1 else 0) = gs_endCount s + (if gf_added pc' then 1 else 0)"
    and c: "length (gs_c s') + (if gf_sending pc' then 1 else 0) + (if gs_completed s then 1 else 0) =
            length (gs_c s) + (if gf_sending pc then 1 else 0) + (if gs_completed s' then 1 else 0)"
      "gs_completed s \<longrightarrow> gs_completed s'"
    and skip: "gf_skipped pc' \<longrightarrow> gs_completed s'"
    and dec: "\<not> gs_completed s' \<and> gf_deciding pc \<and> cnt gf_added (gs_pcs s) = length rels \<longrightarrow> gf_deciding pc'"
      "gf_added pc' \<and> \<not> gf_added pc \<longrightarrow> gf_deciding pc'" "gf_added pc \<longrightarrow> gf_added pc'"
    and ear: "pc' = GfCas1 \<longrightarrow> early allMatches (rels ! i)"
      "gf_sending_early allMatches pc' \<longrightarrow> early allMatches (rels ! i)"
      "(\<not> allMatches) \<in> set (gs_c s') \<longrightarrow> (\<not> allMatches) \<in> set (gs_c s) \<or> gf_sending_early allMatches pc"
  shows "gf_inv allMatches rels s'"
proof -
  have l: "length (gs_pcs s) = length rels" using inv by (simp add: gf_inv_def)
  note up = cnt_update [OF i, of _ pc', unfolded pc, folded s'(1)]
  have "gs_endCount s' = int (cnt gf_added (gs_pcs s'))"
    using inv s'(3) up [of gf_added] by (auto simp: gf_inv_def split: if_splits)
  moreover have "length (gs_c s') + cnt gf_sending (gs_pcs s') + (if gs_main s' \<in> range GfAnswer then 1 else 0) \<le> (if gs_completed s' then 1 else 0)"
  proof -
    have "length (gs_c s) + cnt gf_sending (gs_pcs s) + (if gs_main s' \<in> range GfAnswer then 1 else 0) \<le> (if gs_completed s then 1 else 0)"
      using inv s'(2) by (simp add: gf_inv_def)
    then show ?thesis using c(1) up [of gf_sending] by linarith
  qed
  moreover have "0 < length (gs_c s') + cnt gf_sending (gs_pcs s')" if "gs_completed s' \<and> gs_main s' = GfWaiting"
    using inv c up [of gf_sending] s'(2) that by (auto simp: gf_inv_def split: if_splits)
  moreover have "cnt gf_skipped (gs_pcs s') = 0" if "\<not> gs_completed s'"
    using inv c(2) up [of gf_skipped] skip that by (auto simp: gf_inv_def split: if_splits)
  moreover have "0 < cnt gf_deciding (gs_pcs s')"
    if "\<not> gs_completed s' \<and> cnt gf_added (gs_pcs s') = length rels \<and> rels \<noteq> []"
  proof (cases "gf_deciding pc'")
    case True
    then have "cnt gf_deciding (gs_pcs s') \<noteq> 0" using set_update_memI [OF i] by (auto simp: cnt_zero s'(1))
    then show ?thesis by simp
  next
    case False
    with dec up [of gf_added] that have "cnt gf_added (gs_pcs s) = length rels" by (auto split: if_splits)
    with False dec(1) that have "\<not> gf_deciding pc" by simp
    with False up [of gf_deciding] have "cnt gf_deciding (gs_pcs s') = cnt gf_deciding (gs_pcs s)" by simp
    with inv c(2) that \<open>cnt gf_added (gs_pcs s) = length rels\<close> show ?thesis by (auto simp: gf_inv_def)
  qed
  moreover have "\<forall>j < length rels. gs_pcs s' ! j = GfCas1 \<longrightarrow> early allMatches (rels ! j)"
  proof (intro allI impI)
    fix j assume j: "j < length rels" "gs_pcs s' ! j = GfCas1"
    show "early allMatches (rels ! j)"
    proof (cases "j = i")
      case True
      then show ?thesis using j ear(1) i by (simp add: s'(1))
    next
      case False
      then have "gs_pcs s ! j = GfCas1" using j by (simp add: s'(1))
      with inv j show ?thesis by (simp add: gf_inv_def)
    qed
  qed
  moreover have "cnt (gf_sending_early allMatches) (gs_pcs s') = 0 \<and> (\<not> allMatches) \<notin> set (gs_c s') \<and> gs_main s' \<noteq> GfAnswer (\<not> allMatches)"
    if none: "\<forall>rel \<in> set rels. \<not> early allMatches rel"
  proof -
    have n: "\<not> early allMatches (rels ! i)" using none i l by simp
    have z: "cnt (gf_sending_early allMatches) (gs_pcs s) = 0" "(\<not> allMatches) \<notin> set (gs_c s)" "gs_main s \<noteq> GfAnswer (\<not> allMatches)"
      using inv none by (auto simp: gf_inv_def)
    have "\<not> gf_sending_early allMatches pc" using z(1) nth_mem [OF i] pc by (auto simp: cnt_zero)
    with z n ear(2,3) up [of "gf_sending_early allMatches"] s'(2) show ?thesis by simp
  qed
  ultimately show ?thesis using l s'(1) unfolding gf_inv_def by simp
qed

lemma gf_inv_callback:
  assumes inv: "gf_inv allMatches rels s" and i: "i < length (gs_pcs s)" and can: "gf_can (gs_pcs s ! i) s"
  shows "gf_inv allMatches rels (gf_cb_step allMatches (int (length rels)) rels i s)"
proof -
  have l: "length (gs_pcs s) = length rels" and e: "gs_endCount s = int (cnt gf_added (gs_pcs s))"
    and cas: "gs_pcs s ! i = GfCas1 \<longrightarrow> early allMatches (rels ! i)"
    using inv i by (auto simp: gf_inv_def)
  show ?thesis
    by (rule gf_inv_update [OF inv i refl,
          where pc' = "fst (gf_callback allMatches (int (length rels)) (rels ! i) (gs_pcs s ! i) s)"])
       (use can e cas in \<open>auto simp: gf_cb_step_def gf_callback_def gf_pc_defs gf_can_def split: gf_pc.splits\<close>)
qed


lemma gf_inv_step:
  assumes "gf_step allMatches (int (length rels)) rels s s'" and "gf_inv allMatches rels s"
  shows "gf_inv allMatches rels s'"
  using assms(1)
proof cases
  case (callback i)
  then show ?thesis using gf_inv_callback [OF assms(2)] by simp
next
  case (answer r rest)
  with assms(2) show ?thesis by (auto simp: gf_inv_def split: if_splits)
next
  case timeout
  with assms(2) show ?thesis by (auto simp: gf_inv_def split: if_splits)
qed

section \<open>What a group answers\<close>

definition gf_init :: "string list \<Rightarrow> gf_state" where
  "gf_init rels = \<lparr>gs_endCount = 0, gs_completed = False, gs_c = [], gs_pcs = replicate (length rels) GfLoad, gs_main = GfWaiting\<rparr>"

lemma gf_inv_reach: "(gf_step allMatches (int (length rels)) rels)\<^sup>*\<^sup>* (gf_init rels) s \<Longrightarrow> gf_inv allMatches rels s"
proof (induction rule: rtranclp_induct)
  case base
  show ?case by (simp add: gf_init_def gf_inv_init)
next
  case (step y z)
  then show ?case by (blast intro: gf_inv_step)
qed

lemma gf_undecided_moves:
  assumes inv: "gf_inv allMatches rels s" and "rels \<noteq> []" and q: "\<forall>pc \<in> set (gs_pcs s). \<exists>b. pc = GfDone b" and w: "gs_main s = GfWaiting"
  shows "gs_c s \<noteq> []"
proof (cases "gs_completed s")
  case True
  have "cnt gf_sending (gs_pcs s) = 0" using q by (auto simp: cnt_zero gf_sending_def)
  with True w inv show ?thesis by (auto simp: gf_inv_def)
next
  case False
  with inv have "cnt gf_skipped (gs_pcs s) = 0" and l: "length (gs_pcs s) = length rels" by (auto simp: gf_inv_def)
  with q have "\<forall>pc \<in> set (gs_pcs s). gf_added pc" by (fastforce simp: cnt_zero gf_skipped_def gf_added_def)
  then have "cnt gf_added (gs_pcs s) = length rels" using l cnt_full by metis
  with inv False assms(2) have "0 < cnt gf_deciding (gs_pcs s)" by (auto simp: gf_inv_def)
  then have "\<exists>pc \<in> set (gs_pcs s). gf_deciding pc" using cnt_zero [of gf_deciding] by (metis less_irrefl)
  with q show ?thesis by (auto simp: gf_deciding_def)
qed

lemma group_filter_answers_facts:
  assumes "(gf_step allMatches (int (length rels)) rels)\<^sup>*\<^sup>* (gf_init rels) s"
  shows "length (gs_c s) + (if gs_main s \<in> range GfAnswer then 1 else 0) \<le> 1"
    and "rels \<noteq> [] \<Longrightarrow> \<forall>pc \<in> set (gs_pcs s). \<exists>b. pc = GfDone b \<Longrightarrow> gs_main s = GfWaiting \<Longrightarrow> gs_c s \<noteq> []"
    and "gs_main s = GfAnswer (\<not> allMatches) \<Longrightarrow> \<exists>rel \<in> set rels. early allMatches rel"
    and "\<forall>rel \<in> set rels. \<not> early allMatches rel \<Longrightarrow> gs_main s = GfAnswer r \<Longrightarrow> r = allMatches"
proof -
  have inv: "gf_inv allMatches rels s" by (rule gf_inv_reach [OF assms])
  then have "length (gs_c s) + cnt gf_sending (gs_pcs s) + (if gs_main s \<in> range GfAnswer then 1 else 0) \<le> (if gs_completed s then 1 else 0)"
    by (simp add: gf_inv_def)
  then show "length (gs_c s) + (if gs_main s \<in> range GfAnswer then 1 else 0) \<le> 1" by (simp split: if_splits)
  show "rels \<noteq> [] \<Longrightarrow> \<forall>pc \<in> set (gs_pcs s). \<exists>b. pc = GfDone b \<Longrightarrow> gs_main s = GfWaiting \<Longrightarrow> gs_c s \<noteq> []"
    by (rule gf_undecided_moves [OF inv])
  show "gs_main s = GfAnswer (\<not> allMatches) \<Longrightarrow> \<exists>rel \<in> set rels. early allMatches rel"
    using inv by (auto simp: gf_inv_def)
  show "\<forall>rel \<in> set rels. \<not> early allMatches rel \<Longrightarrow> gs_main s = GfAnswer r \<Longrightarrow> r = allMatches"
    using inv by (auto simp: gf_inv_def)
qed

text \<open>C30: under every interleaving of the callbacks of a group of nodes that each end once, the
  group filter gives at most one answer, and it does answer: when all callbacks are over and nobody
  has taken the answer yet, it is in the channel. The answer that decides at once (False when all
  have to match, True when one is enough) is only given when some node ended with a deciding
  relation; if no node did, the answer is the other one.\<close>

theorem group_filter_answers:
  assumes "(gf_step allMatches (int (length rels)) rels)\<^sup>*\<^sup>* (gf_init rels) s"
  shows "length (gs_c s) + (if gs_main s \<in> range GfAnswer then 1 else 0) \<le> 1 \<and>
    (rels \<noteq> [] \<and> (\<forall>pc \<in> set (gs_pcs s). \<exists>b. pc = GfDone b) \<and> gs_main s = GfWaiting \<longrightarrow> gs_c s \<noteq> []) \<and>
    (gs_main s = GfAnswer (\<not> allMatches) \<longrightarrow> (\<exists>rel \<in> set rels. early allMatches rel)) \<and>
    ((\<forall>rel \<in> set rels. \<not> early allMatches rel) \<longrightarrow> (\<forall>r. gs_main s = GfAnswer r \<longrightarrow> r = allMatches))"
  using group_filter_answers_facts [OF assms] by blast

text \<open>A schedule: the indices of the callbacks that move, then the answer.\<close>

fun gf_run :: "bool \<Rightarrow> string list \<Rightarrow> nat list \<Rightarrow> gf_state \<Rightarrow> gf_state" where
  "gf_run allMatches rels [] s = (case gs_c s of r # rest \<Rightarrow> s\<lparr>gs_main := GfAnswer r, gs_c := rest\<rparr> | [] \<Rightarrow> s)"
| "gf_run allMatches rels (i # is) s =
     gf_run allMatches rels is
       (if i < length (gs_pcs s) \<and> gf_can (gs_pcs s ! i) s then gf_cb_step allMatches (int (length rels)) rels i s else s)"

lemma gf_run_reach:
  "gs_main s = GfWaiting \<Longrightarrow> (gf_step allMatches (int (length rels)) rels)\<^sup>*\<^sup>* s (gf_run allMatches rels is s)"
proof (induction "is" arbitrary: s)
  case Nil
  show ?case
  proof (cases "gs_c s")
    case (Cons r rest)
    with Nil show ?thesis using gf_step.answer [of s r rest] by auto
  qed simp
next
  case (Cons i "is")
  have "gs_main (gf_cb_step allMatches (int (length rels)) rels i s) = GfWaiting"
    using Cons.prems by (auto simp: gf_cb_step_def gf_callback_def split: gf_pc.splits)
  with Cons.IH [of "gf_cb_step allMatches (int (length rels)) rels i s"] Cons.IH [of s] Cons.prems
    gf_step.callback [of i s allMatches "int (length rels)" rels] show ?case
    by (auto intro: converse_rtranclp_into_rtranclp)
qed

theorem group_filter_answers_witness:
  "gs_main (gf_run True [TrueRel] [0,0,0,0,0] (gf_init [TrueRel])) = GfAnswer True"
proof -
  let ?s = "gf_run True [TrueRel] [0,0,0,0,0] (gf_init [TrueRel])"
  have r: "(gf_step True (int (length [TrueRel])) [TrueRel])\<^sup>*\<^sup>* (gf_init [TrueRel]) ?s"
    by (rule gf_run_reach) (simp add: gf_init_def)
  obtain x where x: "gs_main ?s = GfAnswer x"
    by (rule that [of True]) code_simp
  have "\<forall>rel \<in> set [TrueRel]. \<not> early True rel" by (simp add: early_def)
  with group_filter_answers [OF r] x show ?thesis by blast
qed

text \<open>the answer can be wrong. There is an execution in which all nodes have to match, one of
  two nodes ends with False, and the group filter sends the message over True: the callback of the
  matching node counts itself before the other one decides and finds the count complete. In the
  same way a group in which one match is enough can answer False though a node ended with True.\<close>

theorem group_filter_race:
  "\<exists>s. (gf_step True 2 [TrueRel, FalseRel])\<^sup>*\<^sup>* (gf_init [TrueRel, FalseRel]) s \<and> gs_main s = GfAnswer True"
  "\<exists>s. (gf_step False 2 [FalseRel, TrueRel])\<^sup>*\<^sup>* (gf_init [FalseRel, TrueRel]) s \<and> gs_main s = GfAnswer False"
proof -
  have r: "(gf_step b (int (length rels)) rels)\<^sup>*\<^sup>* (gf_init rels) (gf_run b rels [0, 1, 0, 1, 0, 0, 0] (gf_init rels))" for b rels
    by (rule gf_run_reach) (simp add: gf_init_def)
  have t: "gs_main (gf_run True [TrueRel, FalseRel] [0, 1, 0, 1, 0, 0, 0] (gf_init [TrueRel, FalseRel])) = GfAnswer True"
    by code_simp
  have f: "gs_main (gf_run False [FalseRel, TrueRel] [0, 1, 0, 1, 0, 0, 0] (gf_init [FalseRel, TrueRel])) = GfAnswer False"
    by code_simp
  have n: "int (length [TrueRel, FalseRel]) = 2" "int (length [FalseRel, TrueRel]) = 2" by simp_all
  show "\<exists>s. (gf_step True 2 [TrueRel, FalseRel])\<^sup>*\<^sup>* (gf_init [TrueRel, FalseRel]) s \<and> gs_main s = GfAnswer True"
    by (rule exI, rule conjI, rule r [of True "[TrueRel, FalseRel]", unfolded n], rule t)
  show "\<exists>s. (gf_step False 2 [FalseRel, TrueRel])\<^sup>*\<^sup>* (gf_init [FalseRel, TrueRel]) s \<and> gs_main s = GfAnswer False"
    by (rule exI, rule conjI, rule r [of False "[FalseRel, TrueRel]", unfolded n], rule f)
qed

end
