(* ===== verification/ActionNodes.thy ===== *)
theory ActionNodes
  imports NodeBase
begin

text \<open>
  The action components (\<open>components/action\<close>) \<open>functions\<close>, \<open>log\<close>, \<open>iterator\<close> and \<open>delay\<close>, and the
  sub-chain component \<open>flow\<close> (\<open>components/flow/flow_node.go\<close>). A map is iterated in the order of its
  list. The group action has a theory of its own.
\<close>

section \<open>functions\<close>

record FunctionsNodeConfiguration =
  fc_FunctionName :: string

record FunctionsNode =
  fc_Config :: FunctionsNodeConfiguration
  fc_HasVars :: bool

definition FunctionsNode_New :: FunctionsNode where
  "FunctionsNode_New = \<lparr>fc_Config = \<lparr>fc_FunctionName = ''test''\<rparr>, fc_HasVars = False\<rparr>"

definition FunctionsNode_Init ::
  "FunctionsNodeConfiguration decoder \<Rightarrow> Configuration \<Rightarrow> FunctionsNode \<Rightarrow> error + FunctionsNode" where
  "FunctionsNode_Init decode configuration x =
     (case decode configuration (fc_Config x) of
        (err, c) \<Rightarrow>
          (let x = x\<lparr>fc_Config := c\<rparr>;
               x = (if Contains (fc_FunctionName c) ''${'' then x\<lparr>fc_HasVars := True\<rparr> else x)
           in case err of Some e \<Rightarrow> Inl e | None \<Rightarrow> Inr x))"

definition getFunctionName :: "FunctionsNode \<Rightarrow> RuleMsg \<Rightarrow> string" where
  "getFunctionName x msg =
     (if fc_HasVars x then SprintfDict (fc_FunctionName (fc_Config x)) (md_entries (MsgMetadata msg))
      else fc_FunctionName (fc_Config x))"

definition FunctionsNode_OnMsg ::
  "(RuleMsg \<Rightarrow> 'w \<Rightarrow> node_result \<times> 'w) FunctionsRegistry \<Rightarrow> FunctionsNode \<Rightarrow> RuleMsg \<Rightarrow> 'w \<Rightarrow> node_result \<times> 'w" where
  "FunctionsNode_OnMsg Functions x msg w =
     (let funcName = getFunctionName x msg
      in case fn_Get Functions funcName of
           Some f \<Rightarrow> f msg w
         | None \<Rightarrow> (([TellFailure msg (Some (''can not found the function='' @ funcName))], None), w))"

section \<open>log\<close>

definition JsLogReturnFormatErr :: error where
  "JsLogReturnFormatErr = ''return the value is not a string''"

record LogNodeConfiguration =
  lg_JsScript :: string

record ('p, 'w) LogNode =
  lg_Config :: LogNodeConfiguration
  lg_jsEngine :: "('p, 'w) GojaJsEngine option"
  lg_logger :: "logger_ref option"

definition LogNode_New :: "('p, 'w) LogNode" where
  "LogNode_New =
     \<lparr>lg_Config = \<lparr>lg_JsScript = ''return 'Incoming message:'' @ [CHR 0x5C] @ ''n' + JSON.stringify(msg) + '' @ [CHR 0x27, CHR 0x5C] @
        ''nIncoming metadata:'' @ [CHR 0x5C] @ ''n' + JSON.stringify(metadata);''\<rparr>,
      lg_jsEngine = None, lg_logger = None\<rparr>"

definition LogNode_Init ::
  "('p, 'vm) goja \<Rightarrow> LogNodeConfiguration decoder \<Rightarrow> 'w Config \<Rightarrow> Configuration \<Rightarrow> ('p, 'w) LogNode
     \<Rightarrow> error + ('p, 'w) LogNode" where
  "LogNode_Init J decode ruleConfig configuration x =
     (case decode configuration (lg_Config x) of
        (Some err, c) \<Rightarrow> Inl err
      | (None, c) \<Rightarrow>
          (case NewGojaJsEngine J ruleConfig (''function ToString(msg, metadata, msgType) { '' @ lg_JsScript c @ '' }'') [] of
             Inl err \<Rightarrow> Inl err
           | Inr g \<Rightarrow> Inr (x\<lparr>lg_Config := c, lg_jsEngine := Some g, lg_logger := cfg_Logger ruleConfig\<rparr>)))"

text \<open>The lines written to the logger are the last component of the result.\<close>

definition LogNode_OnMsg ::
  "go_env \<Rightarrow> ('p, 'vm) goja \<Rightarrow> ('p, 'w) LogNode \<Rightarrow> nat option \<Rightarrow> RuleMsg \<Rightarrow> 'vm list
     \<Rightarrow> (node_result \<times> 'vm list) \<times> string list" where
  "LogNode_OnMsg env J x pick msg vmPool =
     (case lg_jsEngine x of
        None \<Rightarrow> ((nil_panic, vmPool), [])
      | Some g \<Rightarrow>
          (case call_script J g pick ''ToString'' (script_args (data_any env msg) msg) 1 msg vmPool of
             ((Inl err, msg), vmPool) \<Rightarrow> ((([TellFailure msg (Some err)], None), vmPool), [])
           | ((Inr (GString formatData), msg), vmPool) \<Rightarrow> ((([TellSuccess msg], None), vmPool), [formatData])
           | ((Inr _, msg), vmPool) \<Rightarrow> ((([TellFailure msg (Some JsLogReturnFormatErr)], None), vmPool), [])))"

section \<open>iterator\<close>

record IteratorNodeConfiguration =
  it_FieldName :: string
  it_JsScript :: string

record ('p, 'w) IteratorNode =
  it_Config :: IteratorNodeConfiguration
  it_jsEngine :: "('p, 'w) GojaJsEngine option"

definition IteratorNode_New :: "('p, 'w) IteratorNode" where
  "IteratorNode_New = \<lparr>it_Config = \<lparr>it_FieldName = [], it_JsScript = []\<rparr>, it_jsEngine = None\<rparr>"

definition IteratorNode_Init ::
  "('p, 'vm) goja \<Rightarrow> IteratorNodeConfiguration decoder \<Rightarrow> 'w Config \<Rightarrow> Configuration \<Rightarrow> ('p, 'w) IteratorNode
     \<Rightarrow> error + ('p, 'w) IteratorNode" where
  "IteratorNode_Init J decode ruleConfig configuration x =
     (case decode configuration (it_Config x) of
        (err, c) \<Rightarrow>
          (let c = c\<lparr>it_JsScript := TrimSpace (it_JsScript c), it_FieldName := TrimSpace (it_FieldName c)\<rparr>;
               x = x\<lparr>it_Config := c\<rparr>
           in case err of
                Some e \<Rightarrow> Inl e
              | None \<Rightarrow>
                  (if it_JsScript c \<noteq> [] then
                     (case NewGojaJsEngine J ruleConfig (''function ItemFilter(item,index,metadata) { '' @ it_JsScript c @ '' }'') [] of
                        Inl err \<Rightarrow> Inl err
                      | Inr g \<Rightarrow> Inr (x\<lparr>it_jsEngine := Some g\<rparr>))
                   else Inr x)))"

text \<open>\<open>executeItem\<close>: its call, whether it returned an error, and the metadata, which the items
  share. \<open>pick\<close> is the runtime for the call.\<close>

definition executeItem ::
  "go_env \<Rightarrow> ('p, 'vm) goja \<Rightarrow> ('p, 'w) IteratorNode \<Rightarrow> nat option \<Rightarrow> RuleMsg \<Rightarrow> go_val \<Rightarrow> go_val \<Rightarrow> 'vm list
     \<Rightarrow> (ctx_call \<times> bool \<times> Metadata) \<times> 'vm list" where
  "executeItem env J x pick msg item index vmPool =
     (case it_jsEngine x of
        Some g \<Rightarrow>
          (case call_script J g pick ''ItemFilter'' [item, index, GMapStr (md_entries (MsgMetadata msg))] 2 msg vmPool of
             ((Inl err, msg), vmPool) \<Rightarrow> ((TellFailure msg (Some err), True, MsgMetadata msg), vmPool)
           | ((Inr out, msg), vmPool) \<Rightarrow>
               ((TellNext (msg\<lparr>Data := ToString env item\<rparr>) (Some [if is_true out then TrueRel else FalseRel]), False, MsgMetadata msg),
                vmPool))
      | None \<Rightarrow> ((TellNext (msg\<lparr>Data := ToString env item\<rparr>) (Some [TrueRel]), False, MsgMetadata msg), vmPool))"

fun iterate ::
  "go_env \<Rightarrow> ('p, 'vm) goja \<Rightarrow> ('p, 'w) IteratorNode \<Rightarrow> (nat \<Rightarrow> nat option) \<Rightarrow> RuleMsg \<Rightarrow> (go_val \<times> go_val) list \<Rightarrow> 'vm list
     \<Rightarrow> ctx_call list \<times> 'vm list" where
  "iterate env J x pick msg [] vmPool = ([TellSuccess msg], vmPool)"
| "iterate env J x pick msg ((index, item) # items) vmPool =
     (case executeItem env J x (pick (length items)) msg item index vmPool of
        ((call, err, md), vmPool) \<Rightarrow>
          (if err then ([call], vmPool)
           else (case iterate env J x pick (msg\<lparr>MsgMetadata := md\<rparr>) items vmPool of (calls, vmPool) \<Rightarrow> (call # calls, vmPool))))"

definition IteratorNode_OnMsg ::
  "go_env \<Rightarrow> ('p, 'vm) goja \<Rightarrow> ('p, 'w) IteratorNode \<Rightarrow> (nat \<Rightarrow> nat option) \<Rightarrow> RuleMsg \<Rightarrow> 'vm list \<Rightarrow> node_result \<times> 'vm list" where
  "IteratorNode_OnMsg env J x pick msg vmPool =
     (let field = it_FieldName (it_Config x);
          data = (if field \<noteq> [] then maps_Get (data_any env msg) field else data_any env msg);
          go = (\<lambda>items. case iterate env J x pick msg items vmPool of (calls, vmPool) \<Rightarrow> ((calls, None), vmPool))
      in if field \<noteq> [] \<and> data = GNil
         then (([TellFailure msg (Some (''field='' @ field @ '' not found''))], None), vmPool)
         else case data of
                GSlice arrayValue \<Rightarrow> go (zip (map (\<lambda>i. GInt (word_of_nat i)) [0..<length arrayValue]) arrayValue)
              | GMap mapValue \<Rightarrow> go (map (\<lambda>(k, v). (GString k, v)) mapValue)
              | _ \<Rightarrow> (([TellFailure msg (Some ''value is not array or {key:value} type'')], None), vmPool))"

section \<open>delay\<close>

definition DelayNodeMsgType :: string where
  "DelayNodeMsgType = ''DELAY_NODE_MSG_TYPE''"

record DelayNodeConfiguration =
  dl_PeriodInSeconds :: int
  dl_MaxPendingMsgs :: int
  dl_PeriodInSecondsPattern :: string
  dl_Overwrite :: bool

record DelayNode =
  dl_Config :: DelayNodeConfiguration
  dl_PendingMsgs :: "(string, RuleMsg) gomap"
  dl_LastPendingMsgId :: string

definition DelayNode_New :: DelayNode where
  "DelayNode_New =
     \<lparr>dl_Config = \<lparr>dl_PeriodInSeconds = 60, dl_MaxPendingMsgs = 1000, dl_PeriodInSecondsPattern = [], dl_Overwrite = False\<rparr>,
      dl_PendingMsgs = [], dl_LastPendingMsgId = []\<rparr>"

definition DelayNode_Init :: "DelayNodeConfiguration decoder \<Rightarrow> Configuration \<Rightarrow> DelayNode \<Rightarrow> error + DelayNode" where
  "DelayNode_Init decode configuration x =
     (case decode configuration (dl_Config x) of
        (err, c) \<Rightarrow>
          (let c = (if dl_MaxPendingMsgs c \<le> 0 then c\<lparr>dl_MaxPendingMsgs := 1000\<rparr> else c);
               x = x\<lparr>dl_PendingMsgs := [], dl_Config := c, dl_LastPendingMsgId := []\<rparr>
           in case err of Some e \<Rightarrow> Inl e | None \<Rightarrow> Inr x))"

text \<open>\<open>OnMsg\<close> for one message at a time; the theory \<open>Delay\<close> has its single operations, which the handlers of several
  messages interleave. The acknowledgement that the node sends to itself is a copy of the message under another type.
  \<open>now\<close> and \<open>uuid\<close> are what \<open>Copy\<close> may need.\<close>

definition DelayNode_OnMsg :: "int \<Rightarrow> string \<Rightarrow> RuleMsg \<Rightarrow> DelayNode \<Rightarrow> ctx_call list \<times> DelayNode" where
  "DelayNode_OnMsg now uuid msg x =
     (if MsgType msg = DelayNodeMsgType then
        (case map_of (dl_PendingMsgs x) (MsgId msg) of
           Some pendingMsg \<Rightarrow>
             (let x = (if dl_Overwrite (dl_Config x) then x\<lparr>dl_LastPendingMsgId := []\<rparr> else x)
              in ([TellSuccess pendingMsg], x\<lparr>dl_PendingMsgs := gm_del (MsgId msg) (dl_PendingMsgs x)\<rparr>))
         | None \<Rightarrow> ([TellFailure msg (Some ''msg not found'')], x))
      else if dl_LastPendingMsgId x \<noteq> [] then
        ([], x\<lparr>dl_PendingMsgs := gm_put (dl_LastPendingMsgId x) msg (dl_PendingMsgs x)\<rparr>)
      else if int (length (dl_PendingMsgs x)) < dl_MaxPendingMsgs (dl_Config x) then
        (case (if dl_PeriodInSecondsPattern (dl_Config x) \<noteq> []
               then Atoi (SprintfDict (dl_PeriodInSecondsPattern (dl_Config x)) (md_entries (MsgMetadata msg)))
               else Inr (dl_PeriodInSeconds (dl_Config x))) of
           Inl err \<Rightarrow> ([TellFailure msg (Some err)], x)
         | Inr periodInSeconds \<Rightarrow>
             (let x = (if dl_Overwrite (dl_Config x) then x\<lparr>dl_LastPendingMsgId := MsgId msg\<rparr> else x);
                  x = x\<lparr>dl_PendingMsgs := gm_put (MsgId msg) msg (dl_PendingMsgs x)\<rparr>;
                  ackMsg = (Copy now uuid msg)\<lparr>MsgType := DelayNodeMsgType\<rparr>
              in ([TellSelf ackMsg (wrap64 (periodInSeconds * 1000))], x)))
      else ([TellFailure msg (Some ''max limit of pending messages'')], x))"

section \<open>flow\<close>

record ChainNodeConfiguration =
  fl_TargetId :: string

record ChainNode =
  fl_Config :: ChainNodeConfiguration

definition ChainNode_New :: ChainNode where
  "ChainNode_New = \<lparr>fl_Config = \<lparr>fl_TargetId = []\<rparr>\<rparr>"

definition ChainNode_Init :: "ChainNodeConfiguration decoder \<Rightarrow> Configuration \<Rightarrow> ChainNode \<Rightarrow> error + ChainNode" where
  "ChainNode_Init decode configuration x =
     (case decode configuration (fl_Config x) of
        (Some err, c) \<Rightarrow> Inl err
      | (None, c) \<Rightarrow> Inr (x\<lparr>fl_Config := c\<rparr>))"

text \<open>The variables that the callbacks of one \<open>OnMsg\<close> share.\<close>

record flow_vars =
  fv_wrapperMsg :: RuleMsg
  fv_msgs :: "WrapperMsg list"

definition ChainNode_OnMsg :: "int \<Rightarrow> string \<Rightarrow> ChainNode \<Rightarrow> nat \<Rightarrow> RuleMsg \<Rightarrow> ctx_call list \<times> flow_vars" where
  "ChainNode_OnMsg now uuid x cb msg =
     ([CTellFlow msg (fl_TargetId (fl_Config x)) (Some cb)], \<lparr>fv_wrapperMsg = Copy now uuid msg, fv_msgs = []\<rparr>)"

text \<open>\<open>for k, v := range values { metadata.PutValue(k, v) }\<close>; storing into a nil map panics.\<close>

fun put_values :: "(string \<times> string) list \<Rightarrow> Metadata \<Rightarrow> error + Metadata" where
  "put_values [] md = Inr md"
| "put_values ((k, v) # kvs) md = (case PutValue md k v of Inl e \<Rightarrow> Inl e | Inr md \<Rightarrow> put_values kvs md)"

definition flow_onEnd :: "string \<Rightarrow> RuleMsg \<Rightarrow> error option \<Rightarrow> flow_vars \<Rightarrow> error + flow_vars" where
  "flow_onEnd selfId onEndMsg err fv =
     (case (case err of
              None \<Rightarrow> put_values (md_entries (MsgMetadata onEndMsg)) (MsgMetadata (fv_wrapperMsg fv))
            | Some _ \<Rightarrow> Inr (MsgMetadata (fv_wrapperMsg fv))) of
        Inl e \<Rightarrow> Inl e
      | Inr md \<Rightarrow>
          Inr (fv\<lparr>fv_wrapperMsg := (fv_wrapperMsg fv)\<lparr>MsgMetadata := md\<rparr>,
                  fv_msgs := fv_msgs fv @ [\<lparr>wm_Msg = onEndMsg, wm_Err = (case err of None \<Rightarrow> [] | Some e \<Rightarrow> e), wm_NodeId = selfId\<rparr>]\<rparr>))"

definition wrappers_val :: "WrapperMsg list \<Rightarrow> go_val" where
  "wrappers_val msgs = (if msgs = [] then GNilSlice else GSlice (map wrapper_val msgs))"

definition flow_onDone :: "go_env \<Rightarrow> flow_vars \<Rightarrow> ctx_call list" where
  "flow_onDone env fv =
     [TellSuccess ((fv_wrapperMsg fv)\<lparr>DataType := JSON, Data := ToString env (wrappers_val (fv_msgs fv))\<rparr>)]"


section \<open>Properties of the iterator\<close>

lemma executeItem_call:
  assumes "executeItem env J x pick msg item index vms = ((call, err, md), vms')"
  shows "(err \<longrightarrow> (\<exists>e. call = TellFailure (msg\<lparr>MsgMetadata := md\<rparr>) (Some e))) \<and>
         (\<not> err \<longrightarrow> (\<exists>r \<in> {TrueRel, FalseRel}. call = TellNext (msg\<lparr>MsgMetadata := md, Data := ToString env item\<rparr>) (Some [r])))"
proof (cases "it_jsEngine x")
  case None
  with assms show ?thesis by (auto simp: executeItem_def)
next
  case (Some g)
  obtain out m vs where c: "call_script J g pick ''ItemFilter'' [item, index, GMapStr (md_entries (MsgMetadata msg))] 2 msg vms = ((out, m), vs)"
    by (metis prod.collapse)
  have "m = msg\<lparr>MsgMetadata := MsgMetadata m\<rparr>" using call_script_msg [OF c] by simp
  then show ?thesis using assms Some c
    by (cases out) (auto simp: executeItem_def split: if_splits)
qed

text \<open>The calls of one message: one per item, in order, and one at the end.\<close>

definition item_call :: "go_env \<Rightarrow> RuleMsg \<Rightarrow> go_val \<Rightarrow> ctx_call \<Rightarrow> bool" where
  "item_call env msg item c =
     (\<exists>md. \<exists>r \<in> {TrueRel, FalseRel}. c = TellNext (msg\<lparr>MsgMetadata := md, Data := ToString env item\<rparr>) (Some [r]))"

lemma iterate_calls:
  "iterate env J x pick msg items vms = (calls, vms') \<Longrightarrow>
     \<exists>ns c md. calls = ns @ [c] \<and> list_all2 (item_call env msg) (take (length ns) (map snd items)) ns \<and>
        (c = TellSuccess (msg\<lparr>MsgMetadata := md\<rparr>) \<and> length ns = length items \<or>
         (\<exists>e. c = TellFailure (msg\<lparr>MsgMetadata := md\<rparr>) (Some e)) \<and> length ns < length items)"
proof (induction items arbitrary: msg vms calls vms')
  case Nil
  then have "calls = [] @ [TellSuccess (msg\<lparr>MsgMetadata := MsgMetadata msg\<rparr>)]" by simp
  then show ?case
    by (intro exI [of _ "[]"], intro exI [of _ "TellSuccess (msg\<lparr>MsgMetadata := MsgMetadata msg\<rparr>)"] exI [of _ "MsgMetadata msg"]) simp
next
  case (Cons p items)
  obtain index item where p: "p = (index, item)" by force
  obtain call err md vs where e: "executeItem env J x (pick (length items)) msg item index vms = ((call, err, md), vs)"
    by (metis prod.collapse)
  show ?case
  proof (cases err)
    case True
    with Cons.prems p e have "calls = [] @ [call]" by simp
    with executeItem_call [OF e] True show ?thesis by (intro exI [of _ "[]"]) fastforce
  next
    case False
    obtain cs where i: "iterate env J x pick (msg\<lparr>MsgMetadata := md\<rparr>) items vs = (cs, vms')" "calls = call # cs"
      using Cons.prems p e False by (auto split: prod.splits)
    from Cons.IH [OF i(1)] obtain ns c md' where n: "cs = ns @ [c]"
      "list_all2 (item_call env (msg\<lparr>MsgMetadata := md\<rparr>)) (take (length ns) (map snd items)) ns"
      "c = TellSuccess (msg\<lparr>MsgMetadata := md'\<rparr>) \<and> length ns = length items \<or>
       (\<exists>e. c = TellFailure (msg\<lparr>MsgMetadata := md'\<rparr>) (Some e)) \<and> length ns < length items"
      by auto
    have "item_call env (msg\<lparr>MsgMetadata := md\<rparr>) = item_call env msg" by (auto simp: fun_eq_iff item_call_def)
    moreover have "item_call env msg item call" using executeItem_call [OF e] False by (auto simp: item_call_def)
    ultimately show ?thesis using n i(2) p by (intro exI [of _ "call # ns"]) auto
  qed
qed

lemma iterator_one_call_per_item_facts:
  assumes "IteratorNode_OnMsg env J x pick msg vms = ((calls, pan), vms')"
  defines "data \<equiv> (if it_FieldName (it_Config x) \<noteq> [] then maps_Get (data_any env msg) (it_FieldName (it_Config x)) else data_any env msg)"
  shows "pan = None"
    and "data = GSlice vs \<or> data = GMap m \<and> vs = map snd m \<Longrightarrow>
         \<exists>ns c md. calls = ns @ [c] \<and> list_all2 (item_call env msg) (take (length ns) vs) ns \<and>
           (c = TellSuccess (msg\<lparr>MsgMetadata := md\<rparr>) \<and> length ns = length vs \<or>
            (\<exists>e. c = TellFailure (msg\<lparr>MsgMetadata := md\<rparr>) (Some e)) \<and> length ns < length vs)"
    and "\<nexists>vs. data = GSlice vs \<Longrightarrow> \<nexists>m. data = GMap m \<Longrightarrow> \<exists>e. calls = [TellFailure msg (Some e)]"
proof -
  have d: "IteratorNode_OnMsg env J x pick msg vms =
      (if it_FieldName (it_Config x) \<noteq> [] \<and> data = GNil
       then (([TellFailure msg (Some (''field='' @ it_FieldName (it_Config x) @ '' not found''))], None), vms)
       else case data of
          GSlice vs \<Rightarrow> (case iterate env J x pick msg (zip (map (\<lambda>i. GInt (word_of_nat i)) [0..<length vs]) vs) vms of (cs, vms) \<Rightarrow> ((cs, None), vms))
        | GMap m \<Rightarrow> (case iterate env J x pick msg (map (\<lambda>(k, v). (GString k, v)) m) vms of (cs, vms) \<Rightarrow> ((cs, None), vms))
        | _ \<Rightarrow> (([TellFailure msg (Some ''value is not array or {key:value} type'')], None), vms))"
    by (simp add: IteratorNode_OnMsg_def Let_def data_def)
  show "pan = None" using assms(1) by (auto simp: d split: if_splits go_val.splits prod.splits)
  show "\<exists>e. calls = [TellFailure msg (Some e)]" if "\<nexists>vs. data = GSlice vs" "\<nexists>m. data = GMap m"
    using assms(1) that by (auto simp: d split: if_splits go_val.splits)
  assume v: "data = GSlice vs \<or> data = GMap m \<and> vs = map snd m"
  then obtain items where i: "map snd items = vs" "iterate env J x pick msg items vms = (calls, vms')"
  proof
    assume "data = GSlice vs"
    then show ?thesis using assms(1)
      by (intro that [of "zip (map (\<lambda>i. GInt (word_of_nat i)) [0..<length vs]) vs"]) (auto simp: d split: prod.splits)
  next
    assume "data = GMap m \<and> vs = map snd m"
    then show ?thesis using assms(1)
      by (intro that [of "map (\<lambda>(k, v). (GString k, v)) m"]) (auto simp: d comp_def case_prod_beta split: prod.splits)
  qed
  have l: "length items = length vs" using i(1) by auto
  show "\<exists>ns c md. calls = ns @ [c] \<and> list_all2 (item_call env msg) (take (length ns) vs) ns \<and>
           (c = TellSuccess (msg\<lparr>MsgMetadata := md\<rparr>) \<and> length ns = length vs \<or>
            (\<exists>e. c = TellFailure (msg\<lparr>MsgMetadata := md\<rparr>) (Some e)) \<and> length ns < length vs)"
    by (rule iterate_calls [OF i(2), unfolded i(1) l])
qed

text \<open>the iterator sends the items of its array or map on one by one and in order, each over
  True or False and with the text of the item as payload, and then the message itself over Success;
  an item whose script fails stops it with one Failure and nothing after it. A message without the
  configured field, or with a value that is neither an array nor a map, is one Failure.\<close>

theorem iterator_one_call_per_item:
  assumes "IteratorNode_OnMsg env J x pick msg vms = ((calls, pan), vms')"
  defines "data \<equiv> (if it_FieldName (it_Config x) \<noteq> [] then maps_Get (data_any env msg) (it_FieldName (it_Config x)) else data_any env msg)"
  shows "pan = None \<and>
    (\<forall>vs m. data = GSlice vs \<or> data = GMap m \<and> vs = map snd m \<longrightarrow>
       (\<exists>ns c md. calls = ns @ [c] \<and> list_all2 (item_call env msg) (take (length ns) vs) ns \<and>
          (c = TellSuccess (msg\<lparr>MsgMetadata := md\<rparr>) \<and> length ns = length vs \<or>
           (\<exists>e. c = TellFailure (msg\<lparr>MsgMetadata := md\<rparr>) (Some e)) \<and> length ns < length vs))) \<and>
    ((\<nexists>vs. data = GSlice vs) \<and> (\<nexists>m. data = GMap m) \<longrightarrow> (\<exists>e. calls = [TellFailure msg (Some e)]))"
  unfolding data_def using iterator_one_call_per_item_facts [OF assms(1)] by blast

definition list_env :: go_env where
  "list_env = \<lparr>ge_encode = (\<lambda>_ _. ([], None)), ge_unmarshal = (\<lambda>_. Inr (GSlice [GString ''a'', GString ''b''])),
     ge_unmarshal_strmap = (\<lambda>_. None), ge_format_float = (\<lambda>_ _. [])\<rparr>"

definition list_msg :: RuleMsg where
  "list_msg = \<lparr>Ts = 1, MsgId = ''m'', DataType = JSON, MsgType = ''T'', Data = ''[..]'', MsgMetadata = Some []\<rparr>"

theorem iterator_one_call_per_item_witness:
  "\<exists>ns c md. fst (fst (IteratorNode_OnMsg list_env toy_goja (IteratorNode_New :: (string, unit) IteratorNode) (\<lambda>_. None) list_msg [])) = ns @ [c] \<and>
     (c = TellSuccess (list_msg\<lparr>MsgMetadata := md\<rparr>) \<and> length ns = 2 \<or>
      (\<exists>e. c = TellFailure (list_msg\<lparr>MsgMetadata := md\<rparr>) (Some e)) \<and> length ns < 2)"
proof -
  let ?x = "IteratorNode_New :: (string, unit) IteratorNode"
  obtain calls pan vms where o: "IteratorNode_OnMsg list_env toy_goja ?x (\<lambda>_. None) list_msg [] = ((calls, pan), vms)"
    by (metis prod.collapse)
  have d: "data_any list_env list_msg = GSlice [GString ''a'', GString ''b'']"
    by (simp add: data_any_def list_env_def list_msg_def)
  have f: "it_FieldName (it_Config ?x) = []" by (simp add: IteratorNode_New_def)
  have "\<exists>ns c md. calls = ns @ [c] \<and> list_all2 (item_call list_env list_msg) (take (length ns) [GString ''a'', GString ''b'']) ns \<and>
      (c = TellSuccess (list_msg\<lparr>MsgMetadata := md\<rparr>) \<and> length ns = length [GString ''a'', GString ''b''] \<or>
       (\<exists>e. c = TellFailure (list_msg\<lparr>MsgMetadata := md\<rparr>) (Some e)) \<and> length ns < length [GString ''a'', GString ''b''])"
    using conjunct1 [OF conjunct2 [OF iterator_one_call_per_item [OF o]], rule_format, of "[GString ''a'', GString ''b'']"] d f by simp
  then
  obtain ns c md where "calls = ns @ [c]" "c = TellSuccess (list_msg\<lparr>MsgMetadata := md\<rparr>) \<and> length ns = 2 \<or>
      (\<exists>e. c = TellFailure (list_msg\<lparr>MsgMetadata := md\<rparr>) (Some e)) \<and> length ns < 2"
    by (auto simp: numeral_2_eq_2)
  then show ?thesis unfolding o fst_conv by blast
qed

section \<open>Properties of the delay node\<close>

definition delay_inv :: "DelayNode \<Rightarrow> bool" where
  "delay_inv x =
     (0 < dl_MaxPendingMsgs (dl_Config x) \<and> distinct (map fst (dl_PendingMsgs x)) \<and>
      int (length (dl_PendingMsgs x)) \<le> dl_MaxPendingMsgs (dl_Config x) \<and>
      (if dl_Overwrite (dl_Config x)
       then map fst (dl_PendingMsgs x) = (if dl_LastPendingMsgId x = [] then [] else [dl_LastPendingMsgId x])
       else dl_LastPendingMsgId x = []))"

lemma length_gm_put: "length (gm_put k v m) \<le> Suc (length m)"
  by (induction m) auto

lemma fst_gm_put: "map fst (gm_put k v m) = (if k \<in> fst ` set m then map fst m else map fst m @ [k])"
  by (induction m) auto

lemma length_gm_put_mem: "k \<in> fst ` set m \<Longrightarrow> length (gm_put k v m) = length m"
  by (metis fst_gm_put length_map)

lemma gm_del_single: "map fst m = [k] \<Longrightarrow> gm_del k m = []"
  by (cases m) (auto simp: AList.delete_eq)

lemma delay_inv_Init:
  "DelayNode_Init decode configuration x0 = Inr x \<Longrightarrow> delay_inv x"
  by (auto simp: DelayNode_Init_def delay_inv_def Let_def split: prod.splits option.splits if_splits)

lemma DelayNode_OnMsg_cases:
  assumes "DelayNode_OnMsg now uuid msg x = (calls, x')"
  obtains (ack) p where "MsgType msg = DelayNodeMsgType" "map_of (dl_PendingMsgs x) (MsgId msg) = Some p"
      "calls = [TellSuccess p]"
      "x' = (if dl_Overwrite (dl_Config x) then x\<lparr>dl_LastPendingMsgId := []\<rparr> else x)\<lparr>dl_PendingMsgs := gm_del (MsgId msg) (dl_PendingMsgs x)\<rparr>"
    | (over) "MsgType msg \<noteq> DelayNodeMsgType" "dl_LastPendingMsgId x \<noteq> []" "calls = []"
      "x' = x\<lparr>dl_PendingMsgs := gm_put (dl_LastPendingMsgId x) msg (dl_PendingMsgs x)\<rparr>"
    | (add) n where "MsgType msg \<noteq> DelayNodeMsgType" "dl_LastPendingMsgId x = []" "int (length (dl_PendingMsgs x)) < dl_MaxPendingMsgs (dl_Config x)"
      "calls = [TellSelf ((Copy now uuid msg)\<lparr>MsgType := DelayNodeMsgType\<rparr>) n]"
      "x' = (if dl_Overwrite (dl_Config x) then x\<lparr>dl_LastPendingMsgId := MsgId msg\<rparr> else x)\<lparr>dl_PendingMsgs := gm_put (MsgId msg) msg (dl_PendingMsgs x)\<rparr>"
    | (refused) e where "calls = [TellFailure msg (Some e)]" "x' = x"
proof (cases "MsgType msg = DelayNodeMsgType")
  case True
  show ?thesis
  proof (cases "map_of (dl_PendingMsgs x) (MsgId msg)")
    case None
    with True assms show ?thesis by (intro refused [of "''msg not found''"]) (simp_all add: DelayNode_OnMsg_def)
  next
    case (Some p)
    with True assms show ?thesis by (intro ack [of p]) (auto simp: DelayNode_OnMsg_def Let_def)
  qed
next
  case t: False
  let ?p = "(if dl_PeriodInSecondsPattern (dl_Config x) \<noteq> []
     then Atoi (SprintfDict (dl_PeriodInSecondsPattern (dl_Config x)) (md_entries (MsgMetadata msg)))
     else Inr (dl_PeriodInSeconds (dl_Config x)))"
  show ?thesis
  proof (cases "dl_LastPendingMsgId x \<noteq> []")
    case True
    with t assms show ?thesis by (intro over) (simp_all add: DelayNode_OnMsg_def)
  next
    case l: False
    show ?thesis
    proof (cases "int (length (dl_PendingMsgs x)) < dl_MaxPendingMsgs (dl_Config x)")
      case True
      show ?thesis
      proof (cases ?p)
        case (Inl e)
        with True t l assms show ?thesis by (intro refused [of e]) (simp_all add: DelayNode_OnMsg_def)
      next
        case (Inr n)
        with True t l assms show ?thesis by (intro add [of "wrap64 (n * 1000)"]) (auto simp: DelayNode_OnMsg_def Let_def)
      qed
    next
      case False
      with t l assms show ?thesis by (intro refused [of "''max limit of pending messages''"]) (simp_all add: DelayNode_OnMsg_def)
    qed
  qed
qed

lemma delay_inv_OnMsg:
  assumes inv: "delay_inv x" and m: "MsgId msg \<noteq> []" and o: "DelayNode_OnMsg now uuid msg x = (calls, x')"
  shows "delay_inv x'"
proof -
  show ?thesis using o
  proof (cases rule: DelayNode_OnMsg_cases)
    case ack
    have i: "MsgId msg \<in> set (map fst (dl_PendingMsgs x))" using ack(2) by (force dest: map_of_SomeD)
    have l: "length (gm_del (MsgId msg) (dl_PendingMsgs x)) \<le> length (dl_PendingMsgs x)" by (simp add: length_delete_le)
    show ?thesis
    proof (cases "dl_Overwrite (dl_Config x)")
      case True
      with inv i have "map fst (dl_PendingMsgs x) = [MsgId msg]" by (auto simp: delay_inv_def split: if_splits)
      with True inv ack(4) show ?thesis by (simp add: delay_inv_def gm_del_single)
    next
      case False
      with inv ack(4) l show ?thesis by (auto simp: delay_inv_def distinct_delete)
    qed
  next
    case over
    with inv have "dl_LastPendingMsgId x \<in> fst ` set (dl_PendingMsgs x)"
      by (auto simp: delay_inv_def split: if_splits simp flip: set_map)
    with inv over show ?thesis by (auto simp: delay_inv_def fst_gm_put length_gm_put_mem)
  next
    case add
    have "int (length (gm_put (MsgId msg) msg (dl_PendingMsgs x))) \<le> dl_MaxPendingMsgs (dl_Config x)"
      using length_gm_put [of "MsgId msg" msg "dl_PendingMsgs x"] add(3) by linarith
    with inv add m show ?thesis by (auto simp: delay_inv_def fst_gm_put)
  qed (use inv in simp)
qed


text \<open>A sequence of messages at one node, and the acknowledgement of a message.\<close>

fun delay_run :: "int \<Rightarrow> string \<Rightarrow> RuleMsg list \<Rightarrow> DelayNode \<Rightarrow> ctx_call list list \<times> DelayNode" where
  "delay_run now uuid [] x = ([], x)"
| "delay_run now uuid (m # ms) x =
     (case DelayNode_OnMsg now uuid m x of (calls, x) \<Rightarrow>
        (case delay_run now uuid ms x of (rest, x) \<Rightarrow> (calls # rest, x)))"

definition ack_of :: "int \<Rightarrow> string \<Rightarrow> RuleMsg \<Rightarrow> RuleMsg" where
  "ack_of now uuid m = (Copy now uuid m)\<lparr>MsgType := DelayNodeMsgType\<rparr>"

lemma delay_run_append:
  "delay_run now uuid (ms @ ms') x =
     (case delay_run now uuid ms x of (cs, x) \<Rightarrow> (case delay_run now uuid ms' x of (cs', x) \<Rightarrow> (cs @ cs', x)))"
  by (induction ms arbitrary: x) (auto split: prod.splits)

lemma ack_of_simps: "MsgType (ack_of now uuid m) = DelayNodeMsgType" "MsgId m \<noteq> [] \<Longrightarrow> MsgId (ack_of now uuid m) = MsgId m"
  by (simp_all add: ack_of_def Copy_def newMsg_def)

definition queueing :: "DelayNode \<Rightarrow> bool" where
  "queueing x = (\<not> dl_Overwrite (dl_Config x) \<and> dl_PeriodInSecondsPattern (dl_Config x) = [] \<and> dl_LastPendingMsgId x = [])"

lemma delay_run_arrivals:
  assumes "queueing x" and "int (length (dl_PendingMsgs x) + length ms) \<le> dl_MaxPendingMsgs (dl_Config x)"
    and "distinct (map fst (dl_PendingMsgs x) @ map MsgId ms)" and "\<forall>m \<in> set ms. MsgType m \<noteq> DelayNodeMsgType"
  shows "delay_run now uuid ms x =
     (map (\<lambda>m. [TellSelf (ack_of now uuid m) (wrap64 (dl_PeriodInSeconds (dl_Config x) * 1000))]) ms,
      x\<lparr>dl_PendingMsgs := dl_PendingMsgs x @ map (\<lambda>m. (MsgId m, m)) ms\<rparr>)"
  using assms
proof (induction ms arbitrary: x)
  case Nil
  then show ?case by simp
next
  case (Cons m ms)
  have p: "gm_put (MsgId m) m (dl_PendingMsgs x) = dl_PendingMsgs x @ [(MsgId m, m)]"
    using Cons.prems(3) by (intro gm_put_new) auto
  then have o: "DelayNode_OnMsg now uuid m x =
      ([TellSelf (ack_of now uuid m) (wrap64 (dl_PeriodInSeconds (dl_Config x) * 1000))],
       x\<lparr>dl_PendingMsgs := dl_PendingMsgs x @ [(MsgId m, m)]\<rparr>)"
    using Cons.prems by (simp add: DelayNode_OnMsg_def queueing_def ack_of_def Let_def)
  from Cons.IH [of "x\<lparr>dl_PendingMsgs := dl_PendingMsgs x @ [(MsgId m, m)]\<rparr>"] Cons.prems o show ?case
    by (simp add: queueing_def)
qed

lemma delay_run_acks:
  assumes "queueing x" and "\<forall>p \<in> set ps. MsgId p \<noteq> [] \<and> map_of (dl_PendingMsgs x) (MsgId p) = Some p"
    and "distinct (map MsgId ps)"
  shows "delay_run now uuid (map (ack_of now uuid) ps) x =
     (map (\<lambda>p. [TellSuccess p]) ps, x\<lparr>dl_PendingMsgs := fold (\<lambda>p. gm_del (MsgId p)) ps (dl_PendingMsgs x)\<rparr>)"
  using assms
proof (induction ps arbitrary: x)
  case Nil
  then show ?case by simp
next
  case (Cons p ps)
  have o: "DelayNode_OnMsg now uuid (ack_of now uuid p) x =
      ([TellSuccess p], x\<lparr>dl_PendingMsgs := gm_del (MsgId p) (dl_PendingMsgs x)\<rparr>)"
    using Cons.prems by (simp add: DelayNode_OnMsg_def queueing_def ack_of_simps Let_def)
  have n: "MsgId q \<noteq> MsgId p" if "q \<in> set ps" for q using that Cons.prems(3) by (force simp: image_iff)
  have "delay_run now uuid (map (ack_of now uuid) ps) (x\<lparr>dl_PendingMsgs := gm_del (MsgId p) (dl_PendingMsgs x)\<rparr>) =
      (map (\<lambda>p. [TellSuccess p]) ps, x\<lparr>dl_PendingMsgs := fold (\<lambda>p. gm_del (MsgId p)) ps (gm_del (MsgId p) (dl_PendingMsgs x))\<rparr>)"
    using Cons.IH [of "x\<lparr>dl_PendingMsgs := gm_del (MsgId p) (dl_PendingMsgs x)\<rparr>"] Cons.prems n by (simp add: queueing_def)
  with o show ?case by simp
qed

lemma keys_fold_del:
  "fst ` set (fold (\<lambda>p. gm_del (MsgId p)) ps m) = fst ` set m - MsgId ` set ps"
proof (induction ps arbitrary: m)
  case (Cons p ps)
  have "fst ` set (gm_del (MsgId p) m) = fst ` set m - {MsgId p}" by (auto simp: AList.delete_eq)
  with Cons show ?case by auto
qed simp

text \<open>C32: a delay node that keeps all messages loses none. Messages with different identifiers, no
  more than \<open>MaxPendingMsgs\<close>, are each answered by a timer for themselves; when the timers have
  fired, in any order, each message has been sent on over Success exactly once, unchanged, and
  nothing is left pending.\<close>

theorem delay_delivers_once:
  assumes "DelayNode_Init decode configuration x0 = Inr x" and "queueing x"
    and "int (length ms) \<le> dl_MaxPendingMsgs (dl_Config x)" and "distinct (map MsgId ms)"
    and "\<forall>m \<in> set ms. MsgType m \<noteq> DelayNodeMsgType \<and> MsgId m \<noteq> []" and "mset ps = mset ms"
  shows "delay_run now uuid (ms @ map (ack_of now uuid) ps) x =
     (map (\<lambda>m. [TellSelf (ack_of now uuid m) (wrap64 (dl_PeriodInSeconds (dl_Config x) * 1000))]) ms @
      map (\<lambda>p. [TellSuccess p]) ps, x)"
proof -
  have e: "dl_PendingMsgs x = []"
    using assms(1) by (auto simp: DelayNode_Init_def Let_def split: prod.splits option.splits)
  let ?q = "map (\<lambda>m. (MsgId m, m)) ms"
  have sp: "set ps = set ms" using assms(6) by (rule mset_eq_setD)
  have dp: "distinct (map MsgId ps)" using assms(4,6) by (metis mset_eq_imp_distinct_iff mset_map)
  have lk: "map_of ?q (MsgId p) = Some p" if "p \<in> set ms" for p
    using that assms(4) by (intro map_of_is_SomeI) (auto simp: comp_def)
  have "fst ` set (fold (\<lambda>p. gm_del (MsgId p)) ps ?q) = {}" unfolding keys_fold_del by (auto simp: sp)
  then have f: "fold (\<lambda>p. gm_del (MsgId p)) ps ?q = []" by simp
  have r: "x\<lparr>dl_PendingMsgs := []\<rparr> = x" using e by simp
  have "delay_run now uuid (map (ack_of now uuid) ps) (x\<lparr>dl_PendingMsgs := ?q\<rparr>) = (map (\<lambda>p. [TellSuccess p]) ps, x)"
    using delay_run_acks [of "x\<lparr>dl_PendingMsgs := ?q\<rparr>" ps] assms(2,5) sp dp lk f r by (simp add: queueing_def)
  with delay_run_arrivals [OF assms(2), of ms now uuid] assms(3-5) e show ?thesis by (simp add: delay_run_append)
qed

definition demo_delay :: DelayNode where
  "demo_delay = \<lparr>dl_Config = \<lparr>dl_PeriodInSeconds = 60, dl_MaxPendingMsgs = 1000, dl_PeriodInSecondsPattern = [], dl_Overwrite = False\<rparr>,
     dl_PendingMsgs = [], dl_LastPendingMsgId = []\<rparr>"

definition delay_msg :: "string \<Rightarrow> string \<Rightarrow> RuleMsg" where
  "delay_msg i d = \<lparr>Ts = 1, MsgId = i, DataType = TEXT, MsgType = ''T'', Data = d, MsgMetadata = Some []\<rparr>"

theorem delay_delivers_once_witness:
  "fst (delay_run 1 ''u'' ([delay_msg ''1'' ''a'', delay_msg ''2'' ''b''] @ map (ack_of 1 ''u'') [delay_msg ''2'' ''b'', delay_msg ''1'' ''a'']) demo_delay) ! 2 =
     [TellSuccess (delay_msg ''2'' ''b'')]"
proof -
  have i: "DelayNode_Init (\<lambda>cf c. (None, c)) [] DelayNode_New = Inr demo_delay"
    by (simp add: DelayNode_Init_def DelayNode_New_def demo_delay_def)
  have "delay_run 1 ''u'' ([delay_msg ''1'' ''a'', delay_msg ''2'' ''b''] @ map (ack_of 1 ''u'') [delay_msg ''2'' ''b'', delay_msg ''1'' ''a'']) demo_delay =
    (map (\<lambda>m. [TellSelf (ack_of 1 ''u'' m) (wrap64 (dl_PeriodInSeconds (dl_Config demo_delay) * 1000))]) [delay_msg ''1'' ''a'', delay_msg ''2'' ''b''] @
      map (\<lambda>p. [TellSuccess p]) [delay_msg ''2'' ''b'', delay_msg ''1'' ''a''], demo_delay)"
    by (rule delay_delivers_once [OF i])
       (simp_all add: queueing_def demo_delay_def delay_msg_def DelayNodeMsgType_def)
  then show ?thesis by (simp only: fst_conv) simp
qed

text \<open>messages can get lost in a delay node. Of two messages with the same identifier, as two
  branches of one message have it, the second takes the place of the first: the first timer sends
  the second message on and the second timer fails with \<open>msg not found\<close>. In overwrite mode the
  overwritten message is never answered, and the overwriting one is answered by no call at all.\<close>

theorem delay_loses_messages:
  assumes "DelayNode_Init decode configuration x0 = Inr x" and "1 < dl_MaxPendingMsgs (dl_Config x)"
    and "dl_PeriodInSecondsPattern (dl_Config x) = []" and "MsgId m1 \<noteq> []"
    and "MsgType m1 \<noteq> DelayNodeMsgType" and "MsgType m2 \<noteq> DelayNodeMsgType"
  shows "\<not> dl_Overwrite (dl_Config x) \<Longrightarrow> MsgId m2 = MsgId m1 \<Longrightarrow>
           \<exists>t1 t2. fst (delay_run now uuid [m1, m2, ack_of now uuid m1, ack_of now uuid m2] x) =
             [[TellSelf (ack_of now uuid m1) t1], [TellSelf (ack_of now uuid m2) t2], [TellSuccess m2],
              [TellFailure (ack_of now uuid m2) (Some ''msg not found'')]]"
    and "dl_Overwrite (dl_Config x) \<Longrightarrow>
           \<exists>t1. fst (delay_run now uuid [m1, m2, ack_of now uuid m1] x) =
             [[TellSelf (ack_of now uuid m1) t1], [], [TellSuccess m2]]"
proof -
  have e: "dl_PendingMsgs x = []" "dl_LastPendingMsgId x = []"
    using assms(1) by (auto simp: DelayNode_Init_def Let_def split: prod.splits option.splits)
  show "\<exists>t1 t2. fst (delay_run now uuid [m1, m2, ack_of now uuid m1, ack_of now uuid m2] x) =
             [[TellSelf (ack_of now uuid m1) t1], [TellSelf (ack_of now uuid m2) t2], [TellSuccess m2],
              [TellFailure (ack_of now uuid m2) (Some ''msg not found'')]]"
    if "\<not> dl_Overwrite (dl_Config x)" "MsgId m2 = MsgId m1"
    using assms(2-) that e by (simp add: DelayNode_OnMsg_def Let_def ack_of_simps flip: ack_of_def) blast+
  show "\<exists>t1. fst (delay_run now uuid [m1, m2, ack_of now uuid m1] x) = [[TellSelf (ack_of now uuid m1) t1], [], [TellSuccess m2]]"
    if "dl_Overwrite (dl_Config x)"
    using assms(2-) that e by (simp add: DelayNode_OnMsg_def Let_def ack_of_simps flip: ack_of_def) blast
qed

theorem delay_loses_messages_witness:
  "\<exists>t1 t2. fst (delay_run 1 ''u'' [delay_msg ''1'' ''a'', delay_msg ''1'' ''b'', ack_of 1 ''u'' (delay_msg ''1'' ''a''), ack_of 1 ''u'' (delay_msg ''1'' ''b'')] demo_delay) =
     [[TellSelf (ack_of 1 ''u'' (delay_msg ''1'' ''a'')) t1], [TellSelf (ack_of 1 ''u'' (delay_msg ''1'' ''b'')) t2],
      [TellSuccess (delay_msg ''1'' ''b'')], [TellFailure (ack_of 1 ''u'' (delay_msg ''1'' ''b'')) (Some ''msg not found'')]]"
proof -
  have i: "DelayNode_Init (\<lambda>cf c. (None, c)) [] DelayNode_New = Inr demo_delay"
    by (simp add: DelayNode_Init_def DelayNode_New_def demo_delay_def)
  show ?thesis
    by (rule delay_loses_messages(1) [OF i]) (simp_all add: demo_delay_def delay_msg_def DelayNodeMsgType_def)
qed


lemma delay_pending_bounded_facts:
  assumes "DelayNode_Init decode configuration x0 = Inr x" and "\<forall>m \<in> set ms. MsgId m \<noteq> []"
    and "delay_run now uuid ms x = (calls, x')"
  shows "int (length (dl_PendingMsgs x')) \<le> dl_MaxPendingMsgs (dl_Config x')"
    and "distinct (map fst (dl_PendingMsgs x'))"
    and "dl_Overwrite (dl_Config x') \<Longrightarrow> length (dl_PendingMsgs x') \<le> 1"
proof -
  have "delay_inv y'" if "delay_inv y" "\<forall>m \<in> set ms. MsgId m \<noteq> []" "delay_run now uuid ms y = (cs, y')" for ms y cs y'
    using that
  proof (induction ms arbitrary: y cs)
    case (Cons m ms)
    then show ?case by (auto split: prod.splits dest: delay_inv_OnMsg)
  qed simp
  from this [OF delay_inv_Init [OF assms(1)] assms(2,3)] have inv: "delay_inv x'" .
  then show "int (length (dl_PendingMsgs x')) \<le> dl_MaxPendingMsgs (dl_Config x')" "distinct (map fst (dl_PendingMsgs x'))"
    by (simp_all add: delay_inv_def)
  show "length (dl_PendingMsgs x') \<le> 1" if "dl_Overwrite (dl_Config x')"
  proof -
    have "map fst (dl_PendingMsgs x') = (if dl_LastPendingMsgId x' = [] then [] else [dl_LastPendingMsgId x'])"
      using inv that by (simp add: delay_inv_def)
    from arg_cong [OF this, of length] show ?thesis by (simp split: if_splits)
  qed
qed

text \<open>messages that have ids and arrive one after the other: an initialised delay node holds at most \<open>MaxPendingMsgs\<close> messages,
  at most one in overwrite mode, each under one identifier.\<close>

theorem delay_pending_bounded:
  assumes "DelayNode_Init decode configuration x0 = Inr x" and "\<forall>m \<in> set ms. MsgId m \<noteq> []"
    and "delay_run now uuid ms x = (calls, x')"
  shows "int (length (dl_PendingMsgs x')) \<le> dl_MaxPendingMsgs (dl_Config x') \<and> distinct (map fst (dl_PendingMsgs x')) \<and>
    (dl_Overwrite (dl_Config x') \<longrightarrow> length (dl_PendingMsgs x') \<le> 1)"
  using delay_pending_bounded_facts [OF assms] by blast

theorem delay_pending_bounded_witness:
  "int (length (dl_PendingMsgs (snd (delay_run 1 ''u'' [delay_msg ''1'' ''a'', delay_msg ''2'' ''b''] demo_delay)))) \<le> 1000"
proof -
  have i: "DelayNode_Init (\<lambda>cf c. (None, c)) [] DelayNode_New = Inr demo_delay"
    by (simp add: DelayNode_Init_def DelayNode_New_def demo_delay_def)
  obtain calls x' where r: "delay_run 1 ''u'' [delay_msg ''1'' ''a'', delay_msg ''2'' ''b''] demo_delay = (calls, x')" by force
  have c: "dl_Config x' = dl_Config demo_delay"
    using r by (auto simp: DelayNode_OnMsg_def demo_delay_def delay_msg_def DelayNodeMsgType_def)
  have "int (length (dl_PendingMsgs x')) \<le> dl_MaxPendingMsgs (dl_Config x')"
    using delay_pending_bounded [OF i _ r] by (simp add: delay_msg_def)
  then show ?thesis unfolding r snd_conv c by (simp add: demo_delay_def)
qed

section \<open>Properties of the flow node\<close>

fun flow_ends :: "(string \<times> RuleMsg \<times> error option) list \<Rightarrow> flow_vars \<Rightarrow> error + flow_vars" where
  "flow_ends [] fv = Inr fv"
| "flow_ends ((selfId, m, err) # es) fv = (case flow_onEnd selfId m err fv of Inl e \<Rightarrow> Inl e | Inr fv \<Rightarrow> flow_ends es fv)"

definition end_wrapper :: "string \<times> RuleMsg \<times> error option \<Rightarrow> WrapperMsg" where
  "end_wrapper e = (case e of (selfId, m, err) \<Rightarrow> \<lparr>wm_Msg = m, wm_Err = (case err of None \<Rightarrow> [] | Some e \<Rightarrow> e), wm_NodeId = selfId\<rparr>)"

text \<open>The metadata after the ends: a later branch that ended without an error overwrites an earlier
  one; an empty key is ignored.\<close>

definition merge_end :: "string \<times> RuleMsg \<times> error option \<Rightarrow> (string \<Rightarrow> string option) \<Rightarrow> (string \<Rightarrow> string option)" where
  "merge_end e m = (case e of (_, msg, None) \<Rightarrow> m ++ (map_of (md_entries (MsgMetadata msg)))([] := None) | _ \<Rightarrow> m)"

lemma put_values_Some:
  "distinct (map fst kvs) \<Longrightarrow> \<exists>m'. put_values kvs (Some m) = Inr (Some m') \<and> map_of m' = map_of m ++ (map_of kvs)([] := None)"
proof (induction kvs arbitrary: m)
  case Nil
  then show ?case by simp
next
  case (Cons p kvs)
  obtain k v where p: "p = (k, v)" by force
  have d: "distinct (map fst kvs)" and k: "map_of kvs k = None" using Cons.prems by (auto simp: p map_of_eq_None_iff)
  show ?case
  proof (cases "k = []")
    case True
    have u: "(map_of (p # kvs))([] := None) = (map_of kvs)([] := None)" using True by (auto simp: p fun_eq_iff)
    have w: "put_values (p # kvs) (Some m) = put_values kvs (Some m)" using True by (simp add: p PutValue_def)
    show ?thesis unfolding u w by (rule Cons.IH [OF d])
  next
    case False
    from Cons.IH [OF d, of "gm_put k v m"] obtain m' where m': "put_values kvs (Some (gm_put k v m)) = Inr (Some m')"
      "map_of m' = map_of (gm_put k v m) ++ (map_of kvs)([] := None)" by blast
    have "map_of (gm_put k v m) ++ (map_of kvs)([] := None) = map_of m ++ ((map_of kvs)(k \<mapsto> v))([] := None)"
      using k False by (auto simp: fun_eq_iff map_add_def update_conv' split: option.splits)
    then have u: "map_of m ++ (map_of (p # kvs))([] := None) = map_of m'" unfolding m'(2) by (simp only: p map_of.simps fst_conv snd_conv)
    show ?thesis unfolding u using m'(1) False by (simp add: p PutValue_def)
  qed
qed

lemma flow_ends_collect:
  assumes "MsgMetadata (fv_wrapperMsg fv) = Some md" and "\<forall>(s, m, e) \<in> set es. wf_md (MsgMetadata m)"
  shows "\<exists>fv' md'. flow_ends es fv = Inr fv' \<and> fv_msgs fv' = fv_msgs fv @ map end_wrapper es \<and>
           fv_wrapperMsg fv' = (fv_wrapperMsg fv)\<lparr>MsgMetadata := Some md'\<rparr> \<and> map_of md' = fold merge_end es (map_of md)"
  using assms
proof (induction es arbitrary: fv md)
  case Nil
  then show ?case by (intro exI [of _ fv] exI [of _ md]) simp
next
  case (Cons e es)
  obtain s m err where e: "e = (s, m, err)" by (metis prod_cases3)
  have d: "distinct (map fst (md_entries (MsgMetadata m)))" using Cons.prems(2) by (simp add: e wf_md_def)
  obtain md1 where p: "(case err of None \<Rightarrow> put_values (md_entries (MsgMetadata m)) (Some md) | Some _ \<Rightarrow> Inr (Some md)) = Inr (Some md1)"
    "map_of md1 = merge_end e (map_of md)"
    using put_values_Some [OF d, of md] by (cases err) (auto simp: e merge_end_def)
  let ?fv = "fv\<lparr>fv_wrapperMsg := (fv_wrapperMsg fv)\<lparr>MsgMetadata := Some md1\<rparr>, fv_msgs := fv_msgs fv @ [end_wrapper e]\<rparr>"
  have "flow_onEnd s m err fv = Inr ?fv" unfolding flow_onEnd_def Cons.prems(1) p(1) by (simp add: e end_wrapper_def)
  moreover from Cons.IH [of ?fv md1] Cons.prems(2) obtain fv' md' where "flow_ends es ?fv = Inr fv'"
    "fv_msgs fv' = fv_msgs ?fv @ map end_wrapper es" "fv_wrapperMsg fv' = (fv_wrapperMsg ?fv)\<lparr>MsgMetadata := Some md'\<rparr>"
    "map_of md' = fold merge_end es (map_of md1)" by auto
  ultimately show ?case using p(2) by (intro exI [of _ fv'] exI [of _ md']) (simp add: e)
qed

text \<open>a flow node starts its target chain and, when the chain has completed, sends on over
  Success one message with the identity and type of its own: its payload is the JSON array of the
  end messages of all branches, in the order they ended and with their errors, and its metadata are
  the original ones updated by every branch that ended without an error. No end of a branch makes
  it panic.\<close>

theorem flow_collects_ends:
  assumes "wf_md (MsgMetadata msg)" and "\<forall>(s, m, e) \<in> set es. wf_md (MsgMetadata m)"
    and "ChainNode_OnMsg now uuid x cb msg = (calls, fv)"
  shows "\<exists>fv' md'. flow_ends es fv = Inr fv' \<and> map_of md' = fold merge_end es (map_of (md_entries (MsgMetadata msg))) \<and>
     flow_onDone env fv' =
       [TellSuccess ((Copy now uuid msg)\<lparr>MsgMetadata := Some md', DataType := JSON, Data := ToString env (wrappers_val (map end_wrapper es))\<rparr>)]"
proof -
  have fv: "fv = \<lparr>fv_wrapperMsg = Copy now uuid msg, fv_msgs = []\<rparr>" using assms(3) by (simp add: ChainNode_OnMsg_def)
  have md: "MsgMetadata (fv_wrapperMsg fv) = Some (md_entries (MsgMetadata msg))"
    using BuildMetadata_id [OF assms(1)] by (simp add: fv Copy_def newMsg_def Metadata_Copy_def)
  from flow_ends_collect [OF md assms(2)] obtain fv' md' where f: "flow_ends es fv = Inr fv'" "fv_msgs fv' = map end_wrapper es"
    "fv_wrapperMsg fv' = (Copy now uuid msg)\<lparr>MsgMetadata := Some md'\<rparr>" "map_of md' = fold merge_end es (map_of (md_entries (MsgMetadata msg)))"
    by (auto simp: fv)
  then show ?thesis by (intro exI [of _ fv'] exI [of _ md']) (simp add: flow_onDone_def f)
qed

theorem flow_collects_ends_witness:
  "\<exists>fv' md'. flow_ends [(''n'', delay_msg ''1'' ''a'', None)] (snd (ChainNode_OnMsg 1 ''u'' ChainNode_New 0 list_msg)) = Inr fv' \<and>
     map_of md' = Map.empty \<and>
     flow_onDone list_env fv' = [TellSuccess ((Copy 1 ''u'' list_msg)\<lparr>MsgMetadata := Some md', DataType := JSON,
        Data := ToString list_env (wrappers_val [end_wrapper (''n'', delay_msg ''1'' ''a'', None)])\<rparr>)]"
  using flow_collects_ends [of list_msg "[(''n'', delay_msg ''1'' ''a'', None)]" 1 "''u''" ChainNode_New 0 _ _ list_env]
  by (simp add: ChainNode_OnMsg_def wf_md_def list_msg_def delay_msg_def merge_end_def)

end
