(* ===== verification/GroupAction.thy ===== *)
theory GroupAction
  imports ActionNodes
begin

text \<open>
  The group action (\<open>components/action/group_action_node.go\<close>): it runs its nodes in parallel, waits
  until \<open>MatchNum\<close> of them have ended with the wanted relation or all have ended, and merges their
  results. As in the group filter, every atomic operation of an end callback is one step.
\<close>

section \<open>The node\<close>

record GroupActionNodeConfiguration =
  ga_MatchRelationType :: string
  ga_MatchNum :: int
  ga_NodeIds :: string
  ga_Timeout :: int

record GroupActionNode =
  ga_Config :: GroupActionNodeConfiguration
  ga_NodeIdList :: "string list"
  ga_Length :: int

definition GroupActionNode_New :: GroupActionNode where
  "GroupActionNode_New =
     \<lparr>ga_Config = \<lparr>ga_MatchRelationType = Success, ga_MatchNum = 0, ga_NodeIds = [], ga_Timeout = 0\<rparr>,
      ga_NodeIdList = [], ga_Length = 0\<rparr>"

definition GroupActionNode_Init ::
  "GroupActionNodeConfiguration decoder \<Rightarrow> Configuration \<Rightarrow> GroupActionNode \<Rightarrow> error + GroupActionNode" where
  "GroupActionNode_Init decode configuration x =
     (case decode configuration (ga_Config x) of
        (err, c) \<Rightarrow>
          (let ids = ga_NodeIdList x @ filter (\<lambda>v. v \<noteq> []) (map TrimSpace (Split (ga_NodeIds c) CHR '',''));
               rel = TrimSpace (ga_MatchRelationType c);
               rel = (if rel = [] then Success else rel);
               num = (if ga_MatchNum c \<le> 0 \<or> int (length ids) < ga_MatchNum c then int (length ids) else ga_MatchNum c);
               x = x\<lparr>ga_Config := c\<lparr>ga_MatchRelationType := rel, ga_MatchNum := num\<rparr>, ga_NodeIdList := ids,
                    ga_Length := wrap32 (int (length ids))\<rparr>
           in case err of Some e \<Rightarrow> Inl e | None \<Rightarrow> Inr x))"

definition filterEmpty :: "WrapperMsg list \<Rightarrow> WrapperMsg list" where
  "filterEmpty msgs = filter (\<lambda>m. wm_NodeId m \<noteq> []) msgs"

fun mergeMetadata :: "WrapperMsg list \<Rightarrow> RuleMsg \<Rightarrow> error + RuleMsg" where
  "mergeMetadata [] wrapperMsg = Inr wrapperMsg"
| "mergeMetadata (m # msgs) wrapperMsg =
     (if wm_NodeId m \<noteq> [] \<and> wm_Err m = [] then
        (case put_values (md_entries (MsgMetadata (wm_Msg m))) (MsgMetadata wrapperMsg) of
           Inl e \<Rightarrow> Inl e
         | Inr md \<Rightarrow> mergeMetadata msgs (wrapperMsg\<lparr>MsgMetadata := md\<rparr>))
      else mergeMetadata msgs wrapperMsg)"

section \<open>One message\<close>

datatype ga_pc = GaLoad | GaWrite | GaAdd | GaMatch | GaLoadMatched | GaLoadEnd | GaCas bool | GaSend bool | GaDone bool

datatype ga_main = GaWaiting | GaAnswer bool | GaTimeout

record ga_state =
  gx_endCount :: int
  gx_matched :: int
  gx_completed :: bool
  gx_c :: "bool list"
  gx_msgs :: "WrapperMsg list"
  gx_wrapperMsg :: RuleMsg
  gx_pcs :: "ga_pc list"
  gx_main :: ga_main

definition empty_wrapper :: WrapperMsg where
  "empty_wrapper =
     \<lparr>wm_Msg = \<lparr>Ts = 0, MsgId = [], DataType = [], MsgType = [], Data = [], MsgMetadata = None\<rparr>, wm_Err = [], wm_NodeId = []\<rparr>"

definition ga_init :: "RuleMsg \<Rightarrow> nat \<Rightarrow> ga_state" where
  "ga_init wrapperMsg n =
     \<lparr>gx_endCount = 0, gx_matched = 0, gx_completed = False, gx_c = [], gx_msgs = replicate n empty_wrapper,
      gx_wrapperMsg = wrapperMsg, gx_pcs = replicate n GaLoad, gx_main = GaWaiting\<rparr>"

definition GroupActionNode_start :: "int \<Rightarrow> string \<Rightarrow> GroupActionNode \<Rightarrow> RuleMsg \<Rightarrow> ctx_call list \<times> ga_state option" where
  "GroupActionNode_start now uuid x msg =
     (if ga_Length x = 0 then ([TellFailure msg (Some ''nodeIds is empty'')], None)
      else (map (\<lambda>(i, nodeId). CExecuteNode nodeId msg True i) (zip [0..<length (ga_NodeIdList x)] (ga_NodeIdList x)),
            Some (ga_init (Copy now uuid msg) (length (ga_NodeIdList x)))))"

definition GroupActionNode_finish :: "error \<Rightarrow> ga_state \<Rightarrow> ctx_call list" where
  "GroupActionNode_finish ctxErr s =
     (case gx_main s of
        GaWaiting \<Rightarrow> []
      | GaTimeout \<Rightarrow> [TellFailure (gx_wrapperMsg s) (Some ctxErr)]
      | GaAnswer r \<Rightarrow> (if r then [TellSuccess (gx_wrapperMsg s)] else [TellNext (gx_wrapperMsg s) (Some [Failure])]))"

text \<open>A callback: the result it was called with, and one atomic operation of it. Writing the result
  touches only the callback's own place in \<open>msgs\<close>.\<close>

record ga_end =
  ge_msg :: WrapperMsg
  ge_relation :: string

definition ga_callback :: "go_env \<Rightarrow> string \<Rightarrow> int \<Rightarrow> int \<Rightarrow> nat \<Rightarrow> ga_end \<Rightarrow> ga_pc \<Rightarrow> ga_state \<Rightarrow> ga_pc \<times> ga_state" where
  "ga_callback env rel num n i e pc s =
     (case pc of
        GaLoad \<Rightarrow> (if gx_completed s then GaDone False else GaWrite, s)
      | GaWrite \<Rightarrow> (GaAdd, s\<lparr>gx_msgs := (gx_msgs s)[i := ge_msg e]\<rparr>)
      | GaAdd \<Rightarrow> (if ge_relation e = rel then GaMatch else GaLoadMatched, s\<lparr>gx_endCount := gx_endCount s + 1\<rparr>)
      | GaMatch \<Rightarrow> (GaLoadMatched, s\<lparr>gx_matched := gx_matched s + 1\<rparr>)
      | GaLoadMatched \<Rightarrow> (if num \<le> gx_matched s then GaCas True else GaLoadEnd, s)
      | GaLoadEnd \<Rightarrow> (if n \<le> gx_endCount s then GaCas False else GaDone True, s)
      | GaCas b \<Rightarrow> (if gx_completed s then (GaDone True, s) else (GaSend b, s\<lparr>gx_completed := True\<rparr>))
      | GaSend b \<Rightarrow>
          (GaDone True,
           case mergeMetadata (gx_msgs s) ((gx_wrapperMsg s)\<lparr>Data := ToString env (wrappers_val (filterEmpty (gx_msgs s)))\<rparr>) of
             Inr m \<Rightarrow> s\<lparr>gx_wrapperMsg := m, gx_c := gx_c s @ [b]\<rparr>
           | Inl _ \<Rightarrow> s)
      | GaDone b \<Rightarrow> (GaDone b, s))"

definition ga_can :: "ga_pc \<Rightarrow> ga_state \<Rightarrow> bool" where
  "ga_can pc s = (case pc of GaDone _ \<Rightarrow> False | GaSend _ \<Rightarrow> gx_c s = [] | _ \<Rightarrow> True)"

definition ga_cb_step :: "go_env \<Rightarrow> string \<Rightarrow> int \<Rightarrow> ga_end list \<Rightarrow> nat \<Rightarrow> ga_state \<Rightarrow> ga_state" where
  "ga_cb_step env rel num es i s =
     (case ga_callback env rel num (int (length es)) i (es ! i) (gx_pcs s ! i) s of
        (pc, s) \<Rightarrow> s\<lparr>gx_pcs := (gx_pcs s)[i := pc]\<rparr>)"

inductive ga_step :: "go_env \<Rightarrow> string \<Rightarrow> int \<Rightarrow> ga_end list \<Rightarrow> ga_state \<Rightarrow> ga_state \<Rightarrow> bool" for env rel num es where
  callback: "i < length (gx_pcs s) \<Longrightarrow> ga_can (gx_pcs s ! i) s \<Longrightarrow> ga_step env rel num es s (ga_cb_step env rel num es i s)"
| answer: "gx_main s = GaWaiting \<Longrightarrow> gx_c s = r # rest \<Longrightarrow> ga_step env rel num es s (s\<lparr>gx_main := GaAnswer r, gx_c := rest\<rparr>)"
| timeout: "gx_main s = GaWaiting \<Longrightarrow> ga_step env rel num es s (s\<lparr>gx_main := GaTimeout\<rparr>)"

inductive_cases ga_stepE: "ga_step env rel num es s s'"

section \<open>The invariant\<close>

definition ga_added :: "ga_pc \<Rightarrow> bool" where
  "ga_added pc = (case pc of GaLoad \<Rightarrow> False | GaWrite \<Rightarrow> False | GaAdd \<Rightarrow> False | GaDone b \<Rightarrow> b | _ \<Rightarrow> True)"

definition ga_counted :: "string \<Rightarrow> ga_pc \<times> ga_end \<Rightarrow> bool" where
  "ga_counted rel p =
     (ge_relation (snd p) = rel \<and>
      (case fst p of GaLoad \<Rightarrow> False | GaWrite \<Rightarrow> False | GaAdd \<Rightarrow> False | GaMatch \<Rightarrow> False | GaDone b \<Rightarrow> b | _ \<Rightarrow> True))"

definition ga_deciding :: "ga_pc \<Rightarrow> bool" where
  "ga_deciding pc = (case pc of GaMatch \<Rightarrow> True | GaLoadMatched \<Rightarrow> True | GaLoadEnd \<Rightarrow> True | GaCas _ \<Rightarrow> True | _ \<Rightarrow> False)"

definition ga_sending :: "ga_pc \<Rightarrow> bool" where
  "ga_sending pc = (case pc of GaSend _ \<Rightarrow> True | _ \<Rightarrow> False)"

definition ga_skipped :: "ga_pc \<Rightarrow> bool" where
  "ga_skipped pc = (pc = GaDone False)"

definition ga_yes :: "ga_pc \<Rightarrow> bool" where
  "ga_yes pc = (pc = GaCas True \<or> pc = GaSend True)"

lemmas ga_pc_defs = ga_added_def ga_counted_def ga_deciding_def ga_sending_def ga_skipped_def ga_yes_def

definition ga_inv :: "string \<Rightarrow> int \<Rightarrow> ga_end list \<Rightarrow> ga_state \<Rightarrow> bool" where
  "ga_inv rel num es s =
     (length (gx_pcs s) = length es \<and>
      gx_endCount s = int (cnt ga_added (gx_pcs s)) \<and>
      gx_matched s = int (cnt (ga_counted rel) (zip (gx_pcs s) es)) \<and>
      length (gx_c s) + cnt ga_sending (gx_pcs s) + (if gx_main s \<in> range GaAnswer then 1 else 0) \<le> (if gx_completed s then 1 else 0) \<and>
      (gx_completed s \<and> gx_main s = GaWaiting \<longrightarrow> 0 < length (gx_c s) + cnt ga_sending (gx_pcs s)) \<and>
      (\<not> gx_completed s \<longrightarrow> cnt ga_skipped (gx_pcs s) = 0) \<and>
      (\<not> gx_completed s \<and> cnt ga_added (gx_pcs s) = length es \<and> es \<noteq> [] \<longrightarrow> 0 < cnt ga_deciding (gx_pcs s)) \<and>
      (gx_matched s < num \<longrightarrow> cnt ga_yes (gx_pcs s) = 0 \<and> True \<notin> set (gx_c s) \<and> gx_main s \<noteq> GaAnswer True) \<and>
      (\<forall>i < length es. gx_pcs s ! i = GaMatch \<longrightarrow> ge_relation (es ! i) = rel) \<and>
      MsgMetadata (gx_wrapperMsg s) \<noteq> None)"

lemma ga_inv_init:
  "MsgMetadata wrapperMsg \<noteq> None \<Longrightarrow> ga_inv rel num es (ga_init wrapperMsg (length es))"
proof -
  have "cnt (ga_counted rel) (zip (replicate (length es) GaLoad) es) = 0"
    by (auto simp: cnt_zero ga_counted_def dest: set_zip_leftD)
  then show "MsgMetadata wrapperMsg \<noteq> None \<Longrightarrow> ga_inv rel num es (ga_init wrapperMsg (length es))"
    by (auto simp: ga_inv_def ga_init_def ga_pc_defs)
qed


lemma ga_inv_update:
  assumes inv: "ga_inv rel num es s" and i: "i < length (gx_pcs s)" and pc: "gx_pcs s ! i = pc"
    and s': "gx_pcs s' = (gx_pcs s)[i := pc']" "gx_main s' = gx_main s" "MsgMetadata (gx_wrapperMsg s') \<noteq> None"
      "gx_endCount s' + (if ga_added pc then 1 else 0) = gx_endCount s + (if ga_added pc' then 1 else 0)"
      "gx_matched s' + (if ga_counted rel (pc, es ! i) then 1 else 0) = gx_matched s + (if ga_counted rel (pc', es ! i) then 1 else 0)"
      "gx_matched s \<le> gx_matched s'"
    and c: "length (gx_c s') + (if ga_sending pc' then 1 else 0) + (if gx_completed s then 1 else 0) =
            length (gx_c s) + (if ga_sending pc then 1 else 0) + (if gx_completed s' then 1 else 0)"
      "gx_completed s \<longrightarrow> gx_completed s'"
    and skip: "ga_skipped pc' \<longrightarrow> gx_completed s'"
    and dec: "\<not> gx_completed s' \<and> ga_deciding pc \<and> cnt ga_added (gx_pcs s) = length es \<longrightarrow> ga_deciding pc'"
      "ga_added pc' \<and> \<not> ga_added pc \<longrightarrow> ga_deciding pc'" "ga_added pc \<longrightarrow> ga_added pc'"
    and mat: "pc' = GaMatch \<longrightarrow> ge_relation (es ! i) = rel"
    and yes: "ga_yes pc' \<longrightarrow> ga_yes pc \<or> num \<le> gx_matched s'"
      "True \<in> set (gx_c s') \<longrightarrow> True \<in> set (gx_c s) \<or> ga_yes pc"
  shows "ga_inv rel num es s'"
proof -
  have l: "length (gx_pcs s) = length es" using inv by (simp add: ga_inv_def)
  note up = cnt_update [OF i, of _ pc', unfolded pc, folded s'(1)]
  have z: "zip (gx_pcs s') es = (zip (gx_pcs s) es)[i := (pc', es ! i)]"
    using update_zip [of "gx_pcs s" es i "(pc', es ! i)"] l i by (simp add: s'(1))
  have "cnt (ga_counted rel) (zip (gx_pcs s') es) + (if ga_counted rel (pc, es ! i) then 1 else 0) =
      cnt (ga_counted rel) (zip (gx_pcs s) es) + (if ga_counted rel (pc', es ! i) then 1 else 0)"
    using cnt_update [of i "zip (gx_pcs s) es" "ga_counted rel" "(pc', es ! i)"] i l pc by (simp add: z)
  then have "gx_matched s' = int (cnt (ga_counted rel) (zip (gx_pcs s') es))"
    using inv s'(5) by (auto simp: ga_inv_def split: if_splits)
  moreover have "gx_endCount s' = int (cnt ga_added (gx_pcs s'))"
    using inv s'(4) up [of ga_added] by (auto simp: ga_inv_def split: if_splits)
  moreover have "length (gx_c s') + cnt ga_sending (gx_pcs s') + (if gx_main s' \<in> range GaAnswer then 1 else 0) \<le> (if gx_completed s' then 1 else 0)"
  proof -
    have "length (gx_c s) + cnt ga_sending (gx_pcs s) + (if gx_main s' \<in> range GaAnswer then 1 else 0) \<le> (if gx_completed s then 1 else 0)"
      using inv s'(2) by (simp add: ga_inv_def)
    then show ?thesis using c(1) up [of ga_sending] by linarith
  qed
  moreover have "0 < length (gx_c s') + cnt ga_sending (gx_pcs s')" if "gx_completed s' \<and> gx_main s' = GaWaiting"
    using inv c up [of ga_sending] s'(2) that by (auto simp: ga_inv_def split: if_splits)
  moreover have "cnt ga_skipped (gx_pcs s') = 0" if "\<not> gx_completed s'"
    using inv c(2) up [of ga_skipped] skip that by (auto simp: ga_inv_def split: if_splits)
  moreover have "0 < cnt ga_deciding (gx_pcs s')"
    if "\<not> gx_completed s' \<and> cnt ga_added (gx_pcs s') = length es \<and> es \<noteq> []"
  proof (cases "ga_deciding pc'")
    case True
    then have "cnt ga_deciding (gx_pcs s') \<noteq> 0" using set_update_memI [OF i] by (auto simp: cnt_zero s'(1))
    then show ?thesis by simp
  next
    case False
    with dec up [of ga_added] that have a: "cnt ga_added (gx_pcs s) = length es" by (auto split: if_splits)
    with False dec(1) that have "\<not> ga_deciding pc" by simp
    with False up [of ga_deciding] have "cnt ga_deciding (gx_pcs s') = cnt ga_deciding (gx_pcs s)" by simp
    with inv c(2) that a show ?thesis by (auto simp: ga_inv_def)
  qed
  moreover have "cnt ga_yes (gx_pcs s') = 0 \<and> True \<notin> set (gx_c s') \<and> gx_main s' \<noteq> GaAnswer True" if less: "gx_matched s' < num"
  proof -
    have "gx_matched s < num" using less s'(6) by simp
    with inv have n: "cnt ga_yes (gx_pcs s) = 0" "True \<notin> set (gx_c s)" "gx_main s \<noteq> GaAnswer True" by (auto simp: ga_inv_def)
    have "\<not> ga_yes pc" using n(1) nth_mem [OF i] pc by (auto simp: cnt_zero)
    with n yes less up [of ga_yes] s'(2) show ?thesis by simp
  qed
  moreover have "ge_relation (es ! j) = rel" if j: "j < length es" "gx_pcs s' ! j = GaMatch" for j
  proof (cases "j = i")
    case True
    then show ?thesis using j mat i by (simp add: s'(1))
  next
    case False
    then have "gx_pcs s ! j = GaMatch" using j by (simp add: s'(1))
    with inv j show ?thesis by (simp add: ga_inv_def)
  qed
  ultimately show ?thesis using l s'(1,3) unfolding ga_inv_def by simp
qed

lemma put_values_ok: "\<exists>m'. put_values kvs (Some m) = Inr (Some m')"
  by (induction kvs arbitrary: m) (auto simp: PutValue_def)

lemma mergeMetadata_ok: "MsgMetadata w \<noteq> None \<Longrightarrow> \<exists>w'. mergeMetadata ms w = Inr w' \<and> MsgMetadata w' \<noteq> None"
proof (induction ms arbitrary: w)
  case (Cons m ms)
  then obtain d where d: "MsgMetadata w = Some d" by auto
  obtain d' where "put_values (md_entries (MsgMetadata (wm_Msg m))) (Some d) = Inr (Some d')" using put_values_ok by blast
  with Cons.IH [of "w\<lparr>MsgMetadata := Some d'\<rparr>"] Cons.IH [OF Cons.prems] d show ?case by auto
qed simp

lemma ga_inv_callback:
  assumes inv: "ga_inv rel num es s" and i: "i < length (gx_pcs s)" and can: "ga_can (gx_pcs s ! i) s"
  shows "ga_inv rel num es (ga_cb_step env rel num es i s)"
proof -
  have l: "length (gx_pcs s) = length es" and e: "gx_endCount s = int (cnt ga_added (gx_pcs s))"
    and w: "MsgMetadata (gx_wrapperMsg s) \<noteq> None" and r: "gx_pcs s ! i = GaMatch \<longrightarrow> ge_relation (es ! i) = rel"
    using inv i by (auto simp: ga_inv_def)
  obtain m where m: "mergeMetadata (gx_msgs s) ((gx_wrapperMsg s)\<lparr>Data := ToString env (wrappers_val (filterEmpty (gx_msgs s)))\<rparr>) = Inr m"
    "MsgMetadata m \<noteq> None"
    using mergeMetadata_ok [of "(gx_wrapperMsg s)\<lparr>Data := ToString env (wrappers_val (filterEmpty (gx_msgs s)))\<rparr>" "gx_msgs s"] w by auto
  note d = ga_cb_step_def ga_callback_def
  show ?thesis
  proof (cases "gx_pcs s ! i")
    case GaLoad
    show ?thesis
      by (rule ga_inv_update [OF inv i GaLoad, where pc' = "if gx_completed s then GaDone False else GaWrite"])
         (use GaLoad e w m r can in \<open>auto simp: d ga_pc_defs ga_can_def\<close>)
  next
    case GaWrite
    show ?thesis
      by (rule ga_inv_update [OF inv i GaWrite, where pc' = "GaAdd"])
         (use GaWrite e w m r can in \<open>auto simp: d ga_pc_defs ga_can_def\<close>)
  next
    case GaAdd
    show ?thesis
      by (rule ga_inv_update [OF inv i GaAdd, where pc' = "if ge_relation (es ! i) = rel then GaMatch else GaLoadMatched"])
         (use GaAdd e w m r can in \<open>auto simp: d ga_pc_defs ga_can_def\<close>)
  next
    case GaMatch
    show ?thesis
      by (rule ga_inv_update [OF inv i GaMatch, where pc' = "GaLoadMatched"])
         (use GaMatch e w m r can in \<open>auto simp: d ga_pc_defs ga_can_def\<close>)
  next
    case GaLoadMatched
    show ?thesis
      by (rule ga_inv_update [OF inv i GaLoadMatched, where pc' = "if num \<le> gx_matched s then GaCas True else GaLoadEnd"])
         (use GaLoadMatched e w m r can in \<open>auto simp: d ga_pc_defs ga_can_def\<close>)
  next
    case GaLoadEnd
    show ?thesis
      by (rule ga_inv_update [OF inv i GaLoadEnd, where pc' = "if int (length es) \<le> gx_endCount s then GaCas False else GaDone True"])
         (use GaLoadEnd e w m r can in \<open>auto simp: d ga_pc_defs ga_can_def\<close>)
  next
    case (GaCas b)
    show ?thesis
      by (rule ga_inv_update [OF inv i GaCas, where pc' = "if gx_completed s then GaDone True else GaSend b"])
         (use GaCas e w m r can in \<open>auto simp: d ga_pc_defs ga_can_def\<close>)
  next
    case (GaSend b)
    show ?thesis
      by (rule ga_inv_update [OF inv i GaSend, where pc' = "GaDone True"])
         (use GaSend e w m r can in \<open>auto simp: d ga_pc_defs ga_can_def\<close>)
  next
    case (GaDone b)
    with can show ?thesis by (simp add: ga_can_def)
  qed
qed

lemma ga_inv_step:
  assumes "ga_step env rel num es s s'" and "ga_inv rel num es s"
  shows "ga_inv rel num es s'"
  using assms(1)
proof cases
  case (callback i)
  then show ?thesis using ga_inv_callback [OF assms(2)] by simp
next
  case (answer r rest)
  with assms(2) show ?thesis by (auto simp: ga_inv_def split: if_splits)
next
  case timeout
  with assms(2) show ?thesis by (auto simp: ga_inv_def split: if_splits)
qed


section \<open>What a group answers\<close>

lemma ga_inv_reach:
  assumes "(ga_step env rel num es)\<^sup>*\<^sup>* (ga_init w (length es)) s" and "MsgMetadata w \<noteq> None"
  shows "ga_inv rel num es s"
  using assms(1)
proof (induction rule: rtranclp_induct)
  case base
  show ?case by (rule ga_inv_init [OF assms(2)])
next
  case (step y z)
  then show ?case by (blast intro: ga_inv_step)
qed

lemma ga_undecided_moves:
  assumes inv: "ga_inv rel num es s" and "es \<noteq> []" and q: "\<forall>pc \<in> set (gx_pcs s). \<exists>b. pc = GaDone b" and w: "gx_main s = GaWaiting"
  shows "gx_c s \<noteq> []"
proof (cases "gx_completed s")
  case True
  have "cnt ga_sending (gx_pcs s) = 0" using q by (auto simp: cnt_zero ga_sending_def)
  with True w inv show ?thesis by (auto simp: ga_inv_def)
next
  case False
  with inv have "cnt ga_skipped (gx_pcs s) = 0" and l: "length (gx_pcs s) = length es" by (auto simp: ga_inv_def)
  with q have "\<forall>pc \<in> set (gx_pcs s). ga_added pc" by (fastforce simp: cnt_zero ga_skipped_def ga_added_def)
  then have "cnt ga_added (gx_pcs s) = length es" using l cnt_full by metis
  with inv False assms(2) have "0 < cnt ga_deciding (gx_pcs s)" by (auto simp: ga_inv_def)
  then have "\<exists>pc \<in> set (gx_pcs s). ga_deciding pc" using cnt_zero [of ga_deciding] by (metis less_irrefl)
  with q show ?thesis by (auto simp: ga_deciding_def)
qed

lemma cnt_counted_le: "cnt (ga_counted rel) (zip pcs es) \<le> cnt (\<lambda>e. ge_relation e = rel) es"
proof (induction es arbitrary: pcs)
  case (Cons e es)
  show ?case
  proof (cases pcs)
    case (Cons pc pcs')
    then show ?thesis using Cons.IH [of pcs'] by (auto simp: cnt_def ga_counted_def)
  qed (simp add: cnt_def)
qed (simp add: cnt_def)

lemma group_action_answers_facts:
  assumes "(ga_step env rel num es)\<^sup>*\<^sup>* (ga_init w (length es)) s" and "MsgMetadata w \<noteq> None"
  shows "length (gx_c s) + (if gx_main s \<in> range GaAnswer then 1 else 0) \<le> 1"
    and "es \<noteq> [] \<Longrightarrow> \<forall>pc \<in> set (gx_pcs s). \<exists>b. pc = GaDone b \<Longrightarrow> gx_main s = GaWaiting \<Longrightarrow> gx_c s \<noteq> []"
    and "gx_main s = GaAnswer True \<Longrightarrow> num \<le> int (cnt (\<lambda>e. ge_relation e = rel) es)"
proof -
  have inv: "ga_inv rel num es s" by (rule ga_inv_reach [OF assms])
  then have "length (gx_c s) + cnt ga_sending (gx_pcs s) + (if gx_main s \<in> range GaAnswer then 1 else 0) \<le> (if gx_completed s then 1 else 0)"
    by (simp add: ga_inv_def)
  then show "length (gx_c s) + (if gx_main s \<in> range GaAnswer then 1 else 0) \<le> 1" by (simp split: if_splits)
  show "es \<noteq> [] \<Longrightarrow> \<forall>pc \<in> set (gx_pcs s). \<exists>b. pc = GaDone b \<Longrightarrow> gx_main s = GaWaiting \<Longrightarrow> gx_c s \<noteq> []"
    by (rule ga_undecided_moves [OF inv])
  assume "gx_main s = GaAnswer True"
  with inv have "num \<le> gx_matched s" "gx_matched s = int (cnt (ga_counted rel) (zip (gx_pcs s) es))" by (auto simp: ga_inv_def)
  with cnt_counted_le [of rel "gx_pcs s" es] show "num \<le> int (cnt (\<lambda>e. ge_relation e = rel) es)" by linarith
qed

text \<open>C31: under every interleaving of the callbacks of a group of nodes that each end once, the
  group action gives at most one answer, and it does answer: when all callbacks are over and nobody
  has taken the answer, it is in the channel. Success is only reported if at least \<open>MatchNum\<close> nodes
  ended with the wanted relation.\<close>

theorem group_action_answers:
  assumes "(ga_step env rel num es)\<^sup>*\<^sup>* (ga_init w (length es)) s" and "MsgMetadata w \<noteq> None"
  shows "length (gx_c s) + (if gx_main s \<in> range GaAnswer then 1 else 0) \<le> 1 \<and>
    (es \<noteq> [] \<and> (\<forall>pc \<in> set (gx_pcs s). \<exists>b. pc = GaDone b) \<and> gx_main s = GaWaiting \<longrightarrow> gx_c s \<noteq> []) \<and>
    (gx_main s = GaAnswer True \<longrightarrow> num \<le> int (cnt (\<lambda>e. ge_relation e = rel) es))"
  using group_action_answers_facts [OF assms] by blast

fun ga_run :: "go_env \<Rightarrow> string \<Rightarrow> int \<Rightarrow> ga_end list \<Rightarrow> nat list \<Rightarrow> ga_state \<Rightarrow> ga_state" where
  "ga_run env rel num es [] s = (case gx_c s of r # rest \<Rightarrow> s\<lparr>gx_main := GaAnswer r, gx_c := rest\<rparr> | [] \<Rightarrow> s)"
| "ga_run env rel num es (i # is) s =
     ga_run env rel num es is
       (if i < length (gx_pcs s) \<and> ga_can (gx_pcs s ! i) s then ga_cb_step env rel num es i s else s)"

lemma ga_run_reach: "gx_main s = GaWaiting \<Longrightarrow> (ga_step env rel num es)\<^sup>*\<^sup>* s (ga_run env rel num es is s)"
proof (induction "is" arbitrary: s)
  case Nil
  show ?case
  proof (cases "gx_c s")
    case (Cons r rest)
    with Nil show ?thesis using ga_step.answer [of s r rest] by auto
  qed simp
next
  case (Cons i "is")
  have "gx_main (ga_cb_step env rel num es i s) = GaWaiting"
    using Cons.prems by (auto simp: ga_cb_step_def ga_callback_def split: ga_pc.splits sum.splits)
  with Cons.IH [of "ga_cb_step env rel num es i s"] Cons.IH [of s] Cons.prems ga_step.callback [of i s env rel num es] show ?case
    by (auto intro: converse_rtranclp_into_rtranclp)
qed

definition demo_end :: "string \<Rightarrow> string \<Rightarrow> ga_end" where
  "demo_end n r = \<lparr>ge_msg = \<lparr>wm_Msg = delay_msg n [], wm_Err = [], wm_NodeId = n\<rparr>, ge_relation = r\<rparr>"

definition ok_run :: ga_state where
  "ok_run = ga_run list_env Success 1 [demo_end ''a'' Success] [0, 0, 0, 0, 0, 0, 0] (ga_init list_msg 1)"

theorem group_action_answers_witness: "gx_main ok_run = GaAnswer True \<and> (1::int) \<le> int (cnt (\<lambda>e. ge_relation e = Success) [demo_end ''a'' Success])"
proof -
  have a: "gx_main ok_run = GaAnswer True" by code_simp
  have "(ga_step list_env Success 1 [demo_end ''a'' Success])\<^sup>*\<^sup>* (ga_init list_msg (length [demo_end ''a'' Success])) ok_run"
    unfolding ok_run_def list.size by (simp only: One_nat_def [symmetric] add_0 add_0_right) (rule ga_run_reach, simp add: ga_init_def)
  from group_action_answers [OF this] a show ?thesis by (simp add: list_msg_def)
qed

text \<open>a failure of the group can be wrong. There is an execution in which one match is enough, one
  of two nodes ends with the wanted relation, and the group action reports Failure: the matching
  callback has counted its end but not yet its match when the other one looks at the counters.\<close>

theorem group_action_race:
  "\<exists>s. (ga_step list_env Success 1 [demo_end ''a'' Failure, demo_end ''b'' Success])\<^sup>*\<^sup>* (ga_init list_msg 2) s \<and> gx_main s = GaAnswer False"
proof -
  let ?s = "ga_run list_env Success 1 [demo_end ''a'' Failure, demo_end ''b'' Success] [0, 1, 0, 1, 0, 1, 0, 0, 0, 0] (ga_init list_msg 2)"
  have r: "(ga_step list_env Success 1 [demo_end ''a'' Failure, demo_end ''b'' Success])\<^sup>*\<^sup>* (ga_init list_msg 2) ?s"
    by (rule ga_run_reach) (simp add: ga_init_def)
  have a: "gx_main ?s = GaAnswer False" by code_simp
  show ?thesis by (rule exI [of _ ?s], rule conjI, rule r, rule a)
qed

end
