(* ===== verification/FilterNodes.thy ===== *)
theory FilterNodes
  imports NodeBase
begin

text \<open>
  The filter components (\<open>components/filter\<close>): \<open>jsFilter\<close>, \<open>jsSwitch\<close>, \<open>exprFilter\<close>, \<open>fieldFilter\<close> and
  \<open>msgTypeSwitch\<close>. The group filter has a theory of its own.
\<close>

section \<open>jsFilter\<close>

record JsFilterNodeConfiguration =
  jf_JsScript :: string

record ('p, 'w) JsFilterNode =
  jf_Config :: JsFilterNodeConfiguration
  jf_jsEngine :: "('p, 'w) GojaJsEngine option"

definition JsFilterNode_New :: "('p, 'w) JsFilterNode" where
  "JsFilterNode_New = \<lparr>jf_Config = \<lparr>jf_JsScript = ''return msg.temperature > 50;''\<rparr>, jf_jsEngine = None\<rparr>"

definition JsFilterNode_Init ::
  "('p, 'vm) goja \<Rightarrow> JsFilterNodeConfiguration decoder \<Rightarrow> 'w Config \<Rightarrow> Configuration \<Rightarrow> ('p, 'w) JsFilterNode
     \<Rightarrow> error + ('p, 'w) JsFilterNode" where
  "JsFilterNode_Init J decode ruleConfig configuration x =
     (case decode configuration (jf_Config x) of
        (Some err, c) \<Rightarrow> Inl err
      | (None, c) \<Rightarrow>
          (case NewGojaJsEngine J ruleConfig (''function Filter(msg, metadata, msgType) { '' @ jf_JsScript c @ '' }'') [] of
             Inl err \<Rightarrow> Inl err
           | Inr g \<Rightarrow> Inr (x\<lparr>jf_Config := c, jf_jsEngine := Some g\<rparr>)))"

definition JsFilterNode_OnMsg ::
  "go_env \<Rightarrow> ('p, 'vm) goja \<Rightarrow> ('p, 'w) JsFilterNode \<Rightarrow> nat option \<Rightarrow> RuleMsg \<Rightarrow> 'vm list \<Rightarrow> node_result \<times> 'vm list" where
  "JsFilterNode_OnMsg env J x pick msg vmPool =
     (case jf_jsEngine x of
        None \<Rightarrow> (nil_panic, vmPool)
      | Some g \<Rightarrow>
          (case call_script J g pick ''Filter'' (script_args (data_any env msg) msg) 1 msg vmPool of
             ((Inl err, msg), vmPool) \<Rightarrow> (([TellFailure msg (Some err)], None), vmPool)
           | ((Inr out, msg), vmPool) \<Rightarrow> ((tell_bool msg (is_true out), None), vmPool)))"

section \<open>jsSwitch\<close>

definition JsSwitchReturnFormatErr :: error where
  "JsSwitchReturnFormatErr = ''return the value is not an array''"

record JsSwitchNodeConfiguration =
  jw_JsScript :: string

record ('p, 'w) JsSwitchNode =
  jw_Config :: JsSwitchNodeConfiguration
  jw_jsEngine :: "('p, 'w) GojaJsEngine option"

definition JsSwitchNode_New :: "('p, 'w) JsSwitchNode" where
  "JsSwitchNode_New = \<lparr>jw_Config = \<lparr>jw_JsScript = ''return ['msgType1','msgType2'];''\<rparr>, jw_jsEngine = None\<rparr>"

definition JsSwitchNode_Init ::
  "('p, 'vm) goja \<Rightarrow> JsSwitchNodeConfiguration decoder \<Rightarrow> 'w Config \<Rightarrow> Configuration \<Rightarrow> ('p, 'w) JsSwitchNode
     \<Rightarrow> error + ('p, 'w) JsSwitchNode" where
  "JsSwitchNode_Init J decode ruleConfig configuration x =
     (case decode configuration (jw_Config x) of
        (Some err, c) \<Rightarrow> Inl err
      | (None, c) \<Rightarrow>
          (case NewGojaJsEngine J ruleConfig (''function Switch(msg, metadata, msgType) { '' @ jw_JsScript c @ '' }'') [] of
             Inl err \<Rightarrow> Inl err
           | Inr g \<Rightarrow> Inr (x\<lparr>jw_Config := c, jw_jsEngine := Some g\<rparr>)))"

definition JsSwitchNode_OnMsg ::
  "go_env \<Rightarrow> ('p, 'vm) goja \<Rightarrow> ('p, 'w) JsSwitchNode \<Rightarrow> nat option \<Rightarrow> RuleMsg \<Rightarrow> 'vm list \<Rightarrow> node_result \<times> 'vm list" where
  "JsSwitchNode_OnMsg env J x pick msg vmPool =
     (case jw_jsEngine x of
        None \<Rightarrow> (nil_panic, vmPool)
      | Some g \<Rightarrow>
          (case call_script J g pick ''Switch'' (script_args (data_object env msg) msg) 1 msg vmPool of
             ((Inl err, msg), vmPool) \<Rightarrow> (([TellFailure msg (Some err)], None), vmPool)
           | ((Inr out, msg), vmPool) \<Rightarrow>
               (case out of
                  GSlice formatData \<Rightarrow> ((map (\<lambda>r. TellNext msg (Some [ToString env r])) formatData, None), vmPool)
                | _ \<Rightarrow> (([TellFailure msg (Some JsSwitchReturnFormatErr)], None), vmPool))))"

section \<open>exprFilter\<close>

record ExprFilterNodeConfiguration =
  ef_Expr :: string

record 'q ExprFilterNode =
  ef_Config :: ExprFilterNodeConfiguration
  ef_program :: "'q option"

definition ExprFilterNode_New :: "'q ExprFilterNode" where
  "ExprFilterNode_New = \<lparr>ef_Config = \<lparr>ef_Expr = []\<rparr>, ef_program = None\<rparr>"

text \<open>The error of \<open>Compile\<close> is a variable of the inner statement; what is returned is the outer one.\<close>

definition ExprFilterNode_Init ::
  "'q expr_lang \<Rightarrow> ExprFilterNodeConfiguration decoder \<Rightarrow> Configuration \<Rightarrow> 'q ExprFilterNode \<Rightarrow> error + 'q ExprFilterNode" where
  "ExprFilterNode_Init X decode configuration x =
     (case decode configuration (ef_Config x) of
        (Some err, c) \<Rightarrow> Inl err
      | (None, c) \<Rightarrow>
          (let x = x\<lparr>ef_Config := c\<rparr>
           in case ex_Compile X (ef_Expr c) True of
                Inr program \<Rightarrow> Inr (x\<lparr>ef_program := Some program\<rparr>)
              | Inl err \<Rightarrow> Inr x))"

definition ExprFilterNode_OnMsg :: "go_env \<Rightarrow> 'q expr_lang \<Rightarrow> 'q ExprFilterNode \<Rightarrow> RuleMsg \<Rightarrow> node_result" where
  "ExprFilterNode_OnMsg env X x msg =
     (case ex_Run X (ef_program x) (expr_env (data_object env msg) msg) of
        Inl err \<Rightarrow> ([TellFailure msg (Some err)], None)
      | Inr out \<Rightarrow> (tell_bool msg (is_true out), None))"

section \<open>fieldFilter\<close>

record FieldFilterNodeConfiguration =
  ff_CheckAllKeys :: bool
  ff_DataNames :: string
  ff_MetadataNames :: string

record FieldFilterNode =
  ff_Config :: FieldFilterNodeConfiguration
  ff_DataNamesList :: "string list"
  ff_MetadataNamesList :: "string list"

definition FieldFilterNode_New :: FieldFilterNode where
  "FieldFilterNode_New =
     \<lparr>ff_Config = \<lparr>ff_CheckAllKeys = False, ff_DataNames = [], ff_MetadataNames = []\<rparr>,
      ff_DataNamesList = [], ff_MetadataNamesList = []\<rparr>"

definition FieldFilterNode_Init ::
  "FieldFilterNodeConfiguration decoder \<Rightarrow> Configuration \<Rightarrow> FieldFilterNode \<Rightarrow> error + FieldFilterNode" where
  "FieldFilterNode_Init decode configuration x =
     (case decode configuration (ff_Config x) of
        (Some err, c) \<Rightarrow> Inl err
      | (None, c) \<Rightarrow>
          Inr (x\<lparr>ff_Config := c, ff_DataNamesList := Split (ff_DataNames c) CHR '','',
                 ff_MetadataNamesList := Split (ff_MetadataNames c) CHR '',''\<rparr>))"

fun checkAllKeysMetadata :: "string list \<Rightarrow> Metadata \<Rightarrow> bool" where
  "checkAllKeysMetadata [] metadata = True"
| "checkAllKeysMetadata (item # items) metadata =
     (if \<not> Has metadata item then False else checkAllKeysMetadata items metadata)"

fun checkAllKeysData :: "string list \<Rightarrow> (string, go_val) gomap option \<Rightarrow> bool" where
  "checkAllKeysData [] data = True"
| "checkAllKeysData (item # items) data =
     (case data of
        None \<Rightarrow> False
      | Some m \<Rightarrow> (if map_of m item = None then False else checkAllKeysData items data))"

fun checkAtLeastOneMetadata :: "string list \<Rightarrow> Metadata \<Rightarrow> bool" where
  "checkAtLeastOneMetadata [] metadata = False"
| "checkAtLeastOneMetadata (item # items) metadata =
     (if Has metadata item then True else checkAtLeastOneMetadata items metadata)"

fun checkAtLeastOneData :: "string list \<Rightarrow> (string, go_val) gomap option \<Rightarrow> bool" where
  "checkAtLeastOneData [] data = False"
| "checkAtLeastOneData (item # items) data =
     (case data of
        None \<Rightarrow> False
      | Some m \<Rightarrow> (if map_of m item \<noteq> None then True else checkAtLeastOneData items data))"

definition FieldFilterNode_OnMsg :: "go_env \<Rightarrow> FieldFilterNode \<Rightarrow> RuleMsg \<Rightarrow> node_result" where
  "FieldFilterNode_OnMsg env x msg =
     (case (if DataType msg = JSON then unmarshal_map env (Data msg) else Inr (Some [])) of
        Inl err \<Rightarrow> ([TellFailure msg (Some err)], None)
      | Inr dataMap \<Rightarrow>
          (if ff_CheckAllKeys (ff_Config x)
           then (tell_bool msg (checkAllKeysMetadata (ff_MetadataNamesList x) (MsgMetadata msg) \<and>
                                checkAllKeysData (ff_DataNamesList x) dataMap), None)
           else (tell_bool msg (checkAtLeastOneMetadata (ff_MetadataNamesList x) (MsgMetadata msg) \<or>
                                checkAtLeastOneData (ff_DataNamesList x) dataMap), None)))"

section \<open>msgTypeSwitch\<close>

definition MsgTypeSwitchNode_OnMsg :: "RuleMsg \<Rightarrow> node_result" where
  "MsgTypeSwitchNode_OnMsg msg = ([TellNext msg (Some [MsgType msg])], None)"

section \<open>Properties\<close>

lemma check_iff [simp]:
  "checkAllKeysMetadata ks md = (\<forall>k \<in> set ks. Has md k)"
  "checkAtLeastOneMetadata ks md = (\<exists>k \<in> set ks. Has md k)"
  "checkAllKeysData ks data = (\<forall>k \<in> set ks. \<exists>m. data = Some m \<and> map_of m k \<noteq> None)"
  "checkAtLeastOneData ks data = (\<exists>k \<in> set ks. \<exists>m. data = Some m \<and> map_of m k \<noteq> None)"
  by (induction ks) (auto split: option.splits)

lemma FieldFilterNode_Init_lists:
  "FieldFilterNode_Init decode configuration x = Inr x' \<Longrightarrow>
     ff_DataNamesList x' = Split (ff_DataNames (ff_Config x')) CHR '','' \<and>
     ff_MetadataNamesList x' = Split (ff_MetadataNames (ff_Config x')) CHR '',''"
  by (auto simp: FieldFilterNode_Init_def split: prod.splits option.splits)

lemma FieldFilterNode_spec_facts:
  assumes "FieldFilterNode_Init decode configuration x0 = Inr x"
  defines "mks \<equiv> Split (ff_MetadataNames (ff_Config x)) CHR '',''" and "dks \<equiv> Split (ff_DataNames (ff_Config x)) CHR '',''"
  shows "DataType msg = JSON \<Longrightarrow> unmarshal_map env (Data msg) = Inl err \<Longrightarrow>
           FieldFilterNode_OnMsg env x msg = ([TellFailure msg (Some err)], None)"
    and "(if DataType msg = JSON then unmarshal_map env (Data msg) else Inr (Some [])) = Inr data \<Longrightarrow>
           FieldFilterNode_OnMsg env x msg =
             ([TellNext msg (Some [if (if ff_CheckAllKeys (ff_Config x)
                 then (\<forall>k \<in> set mks. Has (MsgMetadata msg) k) \<and> (\<forall>k \<in> set dks. \<exists>m. data = Some m \<and> k \<in> dom (map_of m))
                 else (\<exists>k \<in> set mks. Has (MsgMetadata msg) k) \<or> (\<exists>k \<in> set dks. \<exists>m. data = Some m \<and> k \<in> dom (map_of m)))
               then TrueRel else FalseRel])], None)"
  using FieldFilterNode_Init_lists [OF assms(1)]
  by (simp_all add: FieldFilterNode_OnMsg_def tell_bool_def mks_def dks_def domIff)

text \<open>an initialised field filter fails on a payload that is declared JSON but is no object, and
  otherwise sends the message on over exactly one of True and False: True if every configured key of
  the metadata and of the payload is present (\<open>CheckAllKeys\<close>), or if at least one is.\<close>

theorem FieldFilterNode_spec:
  assumes "FieldFilterNode_Init decode configuration x0 = Inr x"
  defines "mks \<equiv> Split (ff_MetadataNames (ff_Config x)) CHR '',''" and "dks \<equiv> Split (ff_DataNames (ff_Config x)) CHR '',''"
  shows "(\<forall>err. DataType msg = JSON \<and> unmarshal_map env (Data msg) = Inl err \<longrightarrow>
            FieldFilterNode_OnMsg env x msg = ([TellFailure msg (Some err)], None)) \<and>
         (\<forall>data. (if DataType msg = JSON then unmarshal_map env (Data msg) else Inr (Some [])) = Inr data \<longrightarrow>
            FieldFilterNode_OnMsg env x msg =
              ([TellNext msg (Some [if (if ff_CheckAllKeys (ff_Config x)
                 then (\<forall>k \<in> set mks. Has (MsgMetadata msg) k) \<and> (\<forall>k \<in> set dks. \<exists>m. data = Some m \<and> k \<in> dom (map_of m))
                 else (\<exists>k \<in> set mks. Has (MsgMetadata msg) k) \<or> (\<exists>k \<in> set dks. \<exists>m. data = Some m \<and> k \<in> dom (map_of m)))
               then TrueRel else FalseRel])], None))"
  unfolding mks_def dks_def using FieldFilterNode_spec_facts [OF assms(1)] by blast

definition plain_env :: go_env where
  "plain_env = \<lparr>ge_encode = (\<lambda>_ _. ([], None)), ge_unmarshal = (\<lambda>_. Inr GNil), ge_unmarshal_strmap = (\<lambda>_. None),
     ge_format_float = (\<lambda>_ _. [])\<rparr>"

definition meta_only_config :: FieldFilterNodeConfiguration where
  "meta_only_config = \<lparr>ff_CheckAllKeys = True, ff_DataNames = [], ff_MetadataNames = ''site''\<rparr>"

definition meta_only_node :: FieldFilterNode where
  "meta_only_node = \<lparr>ff_Config = meta_only_config, ff_DataNamesList = [[]], ff_MetadataNamesList = [''site'']\<rparr>"

lemma meta_only_Init: "FieldFilterNode_Init (\<lambda>cf c. (None, meta_only_config)) [] FieldFilterNode_New = Inr meta_only_node"
  by (simp add: FieldFilterNode_Init_def FieldFilterNode_New_def meta_only_config_def meta_only_node_def)

definition text_msg :: RuleMsg where
  "text_msg = \<lparr>Ts = 1, MsgId = ''m'', DataType = TEXT, MsgType = ''T'', Data = ''on'', MsgMetadata = Some [(''site'', ''a'')]\<rparr>"

theorem FieldFilterNode_spec_witness:
  "FieldFilterNode_OnMsg plain_env meta_only_node text_msg = ([TellNext text_msg (Some [FalseRel])], None)"
  using FieldFilterNode_spec [OF meta_only_Init, of text_msg plain_env]
  by (simp add: meta_only_node_def meta_only_config_def text_msg_def TEXT_def JSON_def)

text \<open>a field filter that requires all keys and names no key of the payload sends every message
  whose payload has no empty key over False, whatever its metadata: \<open>strings.Split\<close> of the empty
  string is a list with one empty name.\<close>

theorem field_filter_without_data_names:
  assumes "FieldFilterNode_Init decode configuration x0 = Inr x" and "ff_DataNames (ff_Config x) = []"
    and "ff_CheckAllKeys (ff_Config x)"
    and "(if DataType msg = JSON then unmarshal_map env (Data msg) else Inr (Some [])) = Inr data"
    and "\<forall>m. data = Some m \<longrightarrow> [] \<notin> dom (map_of m)"
  shows "FieldFilterNode_OnMsg env x msg = ([TellNext msg (Some [FalseRel])], None)"
  using FieldFilterNode_Init_lists [OF assms(1)] assms(2-5)
  by (auto simp: FieldFilterNode_OnMsg_def tell_bool_def)

theorem field_filter_without_data_names_witness:
  "Has (MsgMetadata text_msg) ''site'' \<and>
   FieldFilterNode_OnMsg plain_env meta_only_node text_msg = ([TellNext text_msg (Some [FalseRel])], None)"
  using field_filter_without_data_names [OF meta_only_Init, of text_msg plain_env "Some []"]
  by (simp add: meta_only_node_def meta_only_config_def text_msg_def TEXT_def JSON_def Has_def)

text \<open>initialising an expression filter succeeds for every expression that decodes, also for one
  that does not compile; every message then runs the nil program instead.\<close>

theorem ExprFilterNode_Init_hides_errors:
  assumes "decode configuration \<lparr>ef_Expr = []\<rparr> = (None, c)" and "ex_Compile X (ef_Expr c) True = Inl err"
  shows "\<exists>x. ExprFilterNode_Init X decode configuration ExprFilterNode_New = Inr x \<and>
             (\<forall>env msg. ExprFilterNode_OnMsg env X x msg =
                (case ex_Run X None (expr_env (data_object env msg) msg) of
                   Inl err \<Rightarrow> ([TellFailure msg (Some err)], None)
                 | Inr out \<Rightarrow> (tell_bool msg (is_true out), None)))"
  using assms by (auto simp: ExprFilterNode_Init_def ExprFilterNode_New_def ExprFilterNode_OnMsg_def)


theorem ExprFilterNode_Init_hides_errors_witness:
  "\<exists>x. ExprFilterNode_Init \<lparr>ex_Compile = (\<lambda>_ _. Inl ''syntax''), ex_Run = (\<lambda>_ _. Inl ''program is nil'')\<rparr>
         (\<lambda>_ c. (None, c)) [] (ExprFilterNode_New :: unit ExprFilterNode) = Inr x"
  using ExprFilterNode_Init_hides_errors [of "\<lambda>_ c. (None, c)" "[]" "\<lparr>ef_Expr = []\<rparr>"
      "\<lparr>ex_Compile = (\<lambda>_ _. Inl ''syntax''), ex_Run = (\<lambda>(_ :: unit option) _. Inl ''program is nil'')\<rparr>" "''syntax''"]
  by auto

end
