(* ===== verification/TransformNodes.thy ===== *)
theory TransformNodes
  imports NodeBase
begin

text \<open>
  The transform components (\<open>components/transform\<close>): \<open>jsTransform\<close> and \<open>exprTransform\<close>. The mapping of
  an expression transform is run in the order of its list.
\<close>

section \<open>jsTransform\<close>

definition JsTransformReturnFormatErr :: error where
  "JsTransformReturnFormatErr = ''return the value is not a map''"

record JsTransformNodeConfiguration =
  jt_JsScript :: string

record ('p, 'w) JsTransformNode =
  jt_Config :: JsTransformNodeConfiguration
  jt_jsEngine :: "('p, 'w) GojaJsEngine option"

definition JsTransformNode_New :: "('p, 'w) JsTransformNode" where
  "JsTransformNode_New =
     \<lparr>jt_Config = \<lparr>jt_JsScript = ''return {'msg':msg,'metadata':metadata,'msgType':msgType};''\<rparr>, jt_jsEngine = None\<rparr>"

definition JsTransformNode_Init ::
  "('p, 'vm) goja \<Rightarrow> JsTransformNodeConfiguration decoder \<Rightarrow> 'w Config \<Rightarrow> Configuration \<Rightarrow> ('p, 'w) JsTransformNode
     \<Rightarrow> error + ('p, 'w) JsTransformNode" where
  "JsTransformNode_Init J decode ruleConfig configuration x =
     (case decode configuration (jt_Config x) of
        (Some err, c) \<Rightarrow> Inl err
      | (None, c) \<Rightarrow>
          (case NewGojaJsEngine J ruleConfig (''function Transform(msg, metadata, msgType) { '' @ jt_JsScript c @ '' }'') [] of
             Inl err \<Rightarrow> Inl err
           | Inr g \<Rightarrow> Inr (x\<lparr>jt_Config := c, jt_jsEngine := Some g\<rparr>)))"

text \<open>The payload as the script sees it: JSON that does not parse becomes an empty object.\<close>

definition transform_data :: "go_env \<Rightarrow> RuleMsg \<Rightarrow> go_val" where
  "transform_data env msg =
     (if DataType msg = JSON
      then (case ge_unmarshal env (Data msg) of Inr v \<Rightarrow> v | Inl _ \<Rightarrow> GMap [])
      else GString (Data msg))"

text \<open>What the node does with the object that the script returned.\<close>

definition apply_format :: "go_env \<Rightarrow> (string, go_val) gomap \<Rightarrow> RuleMsg \<Rightarrow> ctx_call list" where
  "apply_format env formatData msg =
     (let msg = (case map_of formatData MsgTypeKey of Some t \<Rightarrow> msg\<lparr>MsgType := ToString env t\<rparr> | None \<Rightarrow> msg);
          msg = (case map_of formatData MetadataKey of
                   Some md \<Rightarrow> msg\<lparr>MsgMetadata := BuildMetadata (ToStringMapString env md)\<rparr> | None \<Rightarrow> msg)
      in case map_of formatData MsgKey of
           Some d \<Rightarrow>
             (case ToStringMaybeErr env d of
                (newValue, None) \<Rightarrow> [TellNext (msg\<lparr>Data := newValue\<rparr>) (Some [Success])]
              | (newValue, Some err) \<Rightarrow> [TellFailure msg (Some err)])
         | None \<Rightarrow> [TellNext msg (Some [Success])])"

definition JsTransformNode_OnMsg ::
  "go_env \<Rightarrow> ('p, 'vm) goja \<Rightarrow> ('p, 'w) JsTransformNode \<Rightarrow> nat option \<Rightarrow> RuleMsg \<Rightarrow> 'vm list \<Rightarrow> node_result \<times> 'vm list" where
  "JsTransformNode_OnMsg env J x pick msg vmPool =
     (case jt_jsEngine x of
        None \<Rightarrow> (nil_panic, vmPool)
      | Some g \<Rightarrow>
          (case call_script J g pick ''Transform'' (script_args (transform_data env msg) msg) 1 msg vmPool of
             ((Inl err, msg), vmPool) \<Rightarrow> (([TellFailure msg (Some err)], None), vmPool)
           | ((Inr (GMap formatData), msg), vmPool) \<Rightarrow> ((apply_format env formatData msg, None), vmPool)
           | ((Inr _, msg), vmPool) \<Rightarrow> (([TellFailure msg (Some JsTransformReturnFormatErr)], None), vmPool)))"

section \<open>exprTransform\<close>

record ExprTransformNodeConfiguration =
  et_Expr :: string
  et_Mapping :: "(string, string) gomap"

record 'q ExprTransformNode =
  et_Config :: ExprTransformNodeConfiguration
  et_program :: "'q option"
  et_programMapping :: "(string, 'q) gomap"

definition ExprTransformNode_New :: "'q ExprTransformNode" where
  "ExprTransformNode_New = \<lparr>et_Config = \<lparr>et_Expr = [], et_Mapping = []\<rparr>, et_program = None, et_programMapping = []\<rparr>"

fun compile_mapping :: "'q expr_lang \<Rightarrow> (string, string) gomap \<Rightarrow> (string, 'q) gomap \<Rightarrow> error + (string, 'q) gomap" where
  "compile_mapping X [] acc = Inr acc"
| "compile_mapping X ((k, v) # kvs) acc =
     (case ex_Compile X v False of Inl err \<Rightarrow> Inl err | Inr program \<Rightarrow> compile_mapping X kvs (gm_put k program acc))"

definition ExprTransformNode_Init ::
  "'q expr_lang \<Rightarrow> ExprTransformNodeConfiguration decoder \<Rightarrow> Configuration \<Rightarrow> 'q ExprTransformNode
     \<Rightarrow> error + 'q ExprTransformNode" where
  "ExprTransformNode_Init X decode configuration x =
     (case decode configuration (et_Config x) of
        (Some err, c) \<Rightarrow> Inl err
      | (None, c) \<Rightarrow>
          (let x = x\<lparr>et_Config := c\<rparr>; exprV = TrimSpace (et_Expr c)
           in if exprV \<noteq> [] then
                (case ex_Compile X exprV False of Inl err \<Rightarrow> Inl err | Inr program \<Rightarrow> Inr (x\<lparr>et_program := Some program\<rparr>))
              else
                (case compile_mapping X (et_Mapping c) [] of
                   Inl err \<Rightarrow> Inl err
                 | Inr m \<Rightarrow> Inr (x\<lparr>et_programMapping := m\<rparr>))))"

fun run_mapping :: "'q expr_lang \<Rightarrow> (string, go_val) gomap \<Rightarrow> (string, 'q) gomap \<Rightarrow> (string, go_val) gomap \<Rightarrow> error + (string, go_val) gomap" where
  "run_mapping X evn [] acc = Inr acc"
| "run_mapping X evn ((fieldName, program) # ps) acc =
     (case ex_Run X (Some program) evn of Inl err \<Rightarrow> Inl err | Inr out \<Rightarrow> run_mapping X evn ps (gm_put fieldName out acc))"

definition ExprTransformNode_OnMsg :: "go_env \<Rightarrow> 'q expr_lang \<Rightarrow> 'q ExprTransformNode \<Rightarrow> RuleMsg \<Rightarrow> node_result" where
  "ExprTransformNode_OnMsg env X x msg =
     (let evn = expr_env (data_any env msg) msg
      in case (case et_program x of
                 Some program \<Rightarrow> map_sum (\<lambda>e. e) (\<lambda>out. (out, msg)) (ex_Run X (Some program) evn)
               | None \<Rightarrow>
                   map_sum (\<lambda>e. e) (\<lambda>mapResult. (GMap mapResult, msg\<lparr>DataType := JSON\<rparr>)) (run_mapping X evn (et_programMapping x) [])) of
           Inl err \<Rightarrow> ([TellFailure msg (Some err)], None)
         | Inr (result, msg) \<Rightarrow>
             (case ToStringMaybeErr env result of
                (newValue, None) \<Rightarrow> ([TellSuccess (msg\<lparr>Data := newValue\<rparr>)], None)
              | (newValue, Some err) \<Rightarrow> ([TellFailure msg (Some err)], None)))"

section \<open>Properties\<close>

lemma apply_format_one: "\<exists>c. apply_format env formatData msg = [c]"
  by (auto simp: apply_format_def Let_def split: option.splits prod.splits)

lemma js_transform_one_call:
  "jt_jsEngine x = Some g \<Longrightarrow> \<exists>c. fst (JsTransformNode_OnMsg env J x pick msg vms) = ([c], None)"
  using apply_format_one by (fastforce simp: JsTransformNode_OnMsg_def split: prod.splits sum.splits go_val.splits)

text \<open>a JavaScript transform that returns its arguments unchanged, as the script of a new node
  does, passes a message on over Success with its identity, types and metadata, and, if the payload
  was no JSON or is printed back by the encoder as it was read, with its payload.\<close>

theorem js_transform_identity:
  assumes e: "jt_jsEngine x = Some g" and wf: "wf_md (MsgMetadata msg)" and md: "MsgMetadata msg \<noteq> None"
    and ex: "Execute J g pick ''Transform'' (script_args (transform_data env msg) msg) vms =
           ((Inr (GMap [(MsgKey, transform_data env msg), (MetadataKey, GMapStr (md_entries (MsgMetadata msg))), (MsgTypeKey, GString (MsgType msg))]),
             script_args (transform_data env msg) msg), vms')"
    and rt: "DataType msg = JSON \<Longrightarrow> ToStringMaybeErr env (transform_data env msg) = (Data msg, None)"
  shows "JsTransformNode_OnMsg env J x pick msg vms = (([TellNext msg (Some [Success])], None), vms')"
proof -
  obtain m where m: "MsgMetadata msg = Some m" using md by auto
  have u: "msg\<lparr>MsgMetadata := Some m\<rparr> = msg" using m by simp
  have b: "BuildMetadata (Some m) = Some m" using BuildMetadata_id [OF wf] by (simp add: m)
  have d: "ToStringMaybeErr env (transform_data env msg) = (Data msg, None)"
    using rt by (cases "DataType msg = JSON") (simp_all add: transform_data_def)
  have k: "MsgTypeKey \<noteq> MsgKey" "MsgTypeKey \<noteq> MetadataKey" "MetadataKey \<noteq> MsgKey"
    by (simp_all add: MsgTypeKey_def MsgKey_def MetadataKey_def)
  have c: "call_script J g pick ''Transform'' (script_args (transform_data env msg) msg) 1 msg vms =
      ((Inr (GMap [(MsgKey, transform_data env msg), (MetadataKey, GMapStr m), (MsgTypeKey, GString (MsgType msg))]), msg), vms')"
    using ex u by (simp add: call_script_def m script_args_def arg_metadata_def)
  have f: "apply_format env [(MsgKey, transform_data env msg), (MetadataKey, GMapStr m), (MsgTypeKey, GString (MsgType msg))] msg =
      [TellNext msg (Some [Success])]"
    by (simp add: apply_format_def k k [symmetric] ToString_def b d u Let_def)
  show ?thesis unfolding JsTransformNode_OnMsg_def e using c f by simp
qed

definition echo_goja :: "(unit, unit) goja" where
  "echo_goja =
     \<lparr>gj_Compile = (\<lambda>_ _. Inr ()), gj_New = (), gj_RunProgram = (\<lambda>_ vm. (None, vm)), gj_Set = (\<lambda>_ _ vm. (None, vm)),
      gj_AssertFunction = (\<lambda>_ _. True),
      gj_Call = (\<lambda>f args vm. (JsOk (GMap [(MsgKey, args ! 0), (MetadataKey, args ! 1), (MsgTypeKey, args ! 2)]), args, vm))\<rparr>"

definition echo_node :: "(unit, unit) JsTransformNode" where
  "echo_node = \<lparr>jt_Config = \<lparr>jt_JsScript = []\<rparr>,
     jt_jsEngine = Some \<lparr>js_config = types_NewConfig [], js_jsScript = (), js_jsUdfProgramCache = [], js_fromVars = []\<rparr>\<rparr>"

definition echo_msg :: RuleMsg where
  "echo_msg = \<lparr>Ts = 1, MsgId = ''m'', DataType = TEXT, MsgType = ''T'', Data = ''hello'', MsgMetadata = Some [(''k'', ''v'')]\<rparr>"

definition no_json :: go_env where
  "no_json = \<lparr>ge_encode = (\<lambda>_ _. ([], None)), ge_unmarshal = (\<lambda>_. Inl ''eof''), ge_unmarshal_strmap = (\<lambda>_. None), ge_format_float = (\<lambda>_ _. [])\<rparr>"

theorem js_transform_identity_witness:
  "JsTransformNode_OnMsg no_json echo_goja echo_node (Some 0) echo_msg [()] = (([TellNext echo_msg (Some [Success])], None), [()])"
proof (rule js_transform_identity)
  show "jt_jsEngine echo_node = Some \<lparr>js_config = types_NewConfig [], js_jsScript = (), js_jsUdfProgramCache = [], js_fromVars = []\<rparr>"
    by (simp add: echo_node_def)
qed (simp_all add: echo_msg_def wf_md_def Execute_def pool_get_def echo_goja_def script_args_def TEXT_def JSON_def numeral_2_eq_2)

text \<open>an expression transform with a mapping runs every program of the mapping on the message; if
  all succeed it sends on over Success a JSON object that holds exactly the mapped fields with the
  results of their programs, and if one fails the message goes to Failure unchanged.\<close>

theorem expr_transform_mapping:
  fixes msg :: RuleMsg and env :: go_env
  assumes "et_program x = None" and "distinct (map fst (et_programMapping x))"
  defines "evn \<equiv> expr_env (data_any env msg) msg"
  shows "\<forall>(k, p) \<in> set (et_programMapping x). \<exists>v. ex_Run X (Some p) evn = Inr v \<Longrightarrow>
         \<exists>m. (\<forall>k. map_of m k = (case map_of (et_programMapping x) k of
                 Some p \<Rightarrow> (case ex_Run X (Some p) evn of Inr v \<Rightarrow> Some v | Inl _ \<Rightarrow> None) | None \<Rightarrow> None)) \<and>
           (case ToStringMaybeErr env (GMap m) of
              (data, None) \<Rightarrow> ExprTransformNode_OnMsg env X x msg = ([TellSuccess (msg\<lparr>DataType := JSON, Data := data\<rparr>)], None)
            | (data, Some err) \<Rightarrow> ExprTransformNode_OnMsg env X x msg = ([TellFailure (msg\<lparr>DataType := JSON\<rparr>) (Some err)], None))"
    and "(k, p) \<in> set (et_programMapping x) \<Longrightarrow> ex_Run X (Some p) evn = Inl e \<Longrightarrow>
         \<exists>err. ExprTransformNode_OnMsg env X x msg = ([TellFailure msg (Some err)], None)"
proof -
  have ok: "\<exists>m. run_mapping X evn ps acc = Inr m \<and> (\<forall>k. map_of m k = (case map_of ps k of
       Some p \<Rightarrow> (case ex_Run X (Some p) evn of Inr v \<Rightarrow> Some v | Inl _ \<Rightarrow> None) | None \<Rightarrow> map_of acc k))"
    if "\<forall>(k, p) \<in> set ps. \<exists>v. ex_Run X (Some p) evn = Inr v" "distinct (map fst ps)" for ps acc
    using that
  proof (induction ps arbitrary: acc)
    case (Cons q ps)
    obtain k p v where q: "q = (k, p)" "ex_Run X (Some p) evn = Inr v" using Cons.prems(1) by (cases q) auto
    have n: "map_of ps k = None" using Cons.prems(2) q by (simp add: map_of_eq_None_iff)
    obtain m where m: "run_mapping X evn ps (gm_put k v acc) = Inr m" "\<forall>j. map_of m j = (case map_of ps j of
        Some p \<Rightarrow> (case ex_Run X (Some p) evn of Inr v \<Rightarrow> Some v | Inl _ \<Rightarrow> None) | None \<Rightarrow> map_of (gm_put k v acc) j)"
      using Cons.IH [of "gm_put k v acc"] Cons.prems by auto
    have "map_of m j = (case map_of (q # ps) j of
        Some p \<Rightarrow> (case ex_Run X (Some p) evn of Inr v \<Rightarrow> Some v | Inl _ \<Rightarrow> None) | None \<Rightarrow> map_of acc j)" for j
      using m(2) [rule_format, of j] q n by (cases "j = k") (simp_all split: option.splits)
    with m(1) q show ?case by simp
  qed simp
  have bad: "\<exists>err. run_mapping X evn ps acc = Inl err" if "(k, p) \<in> set ps" "ex_Run X (Some p) evn = Inl e" for ps acc
    using that
  proof (induction ps arbitrary: acc)
    case (Cons q ps)
    then show ?case by (cases q; cases "ex_Run X (Some (snd q)) evn") auto
  qed simp
  show "\<exists>m. (\<forall>k. map_of m k = (case map_of (et_programMapping x) k of
                 Some p \<Rightarrow> (case ex_Run X (Some p) evn of Inr v \<Rightarrow> Some v | Inl _ \<Rightarrow> None) | None \<Rightarrow> None)) \<and>
           (case ToStringMaybeErr env (GMap m) of
              (data, None) \<Rightarrow> ExprTransformNode_OnMsg env X x msg = ([TellSuccess (msg\<lparr>DataType := JSON, Data := data\<rparr>)], None)
            | (data, Some err) \<Rightarrow> ExprTransformNode_OnMsg env X x msg = ([TellFailure (msg\<lparr>DataType := JSON\<rparr>) (Some err)], None))"
    if "\<forall>(k, p) \<in> set (et_programMapping x). \<exists>v. ex_Run X (Some p) evn = Inr v"
  proof -
    have e: "map_of [] k = None" for k :: string by simp
    from ok [OF that assms(2), of "[]", unfolded e] obtain m where m: "run_mapping X evn (et_programMapping x) [] = Inr m"
      "\<forall>k. map_of m k = (case map_of (et_programMapping x) k of
         Some p \<Rightarrow> (case ex_Run X (Some p) evn of Inr v \<Rightarrow> Some v | Inl _ \<Rightarrow> None) | None \<Rightarrow> None)" by auto
    show ?thesis
      by (rule exI [of _ m], rule conjI [OF m(2)])
         (use m(1) assms(1) in \<open>auto simp: ExprTransformNode_OnMsg_def evn_def [symmetric] Let_def split: prod.splits option.splits\<close>)
  qed
  show "\<exists>err. ExprTransformNode_OnMsg env X x msg = ([TellFailure msg (Some err)], None)"
    if "(k, p) \<in> set (et_programMapping x)" "ex_Run X (Some p) evn = Inl e"
    using bad [OF that, of "[]"] assms(1) by (auto simp: ExprTransformNode_OnMsg_def evn_def Let_def)
qed


theorem expr_transform_mapping_witness:
  "\<exists>err. ExprTransformNode_OnMsg no_json \<lparr>ex_Compile = (\<lambda>_ _. Inr ()), ex_Run = (\<lambda>_ _. Inl ''no such field'')\<rparr>
     \<lparr>et_Config = \<lparr>et_Expr = [], et_Mapping = [(''a'', ''x.y'')]\<rparr>, et_program = None, et_programMapping = [(''a'', ())]\<rparr> echo_msg =
     ([TellFailure echo_msg (Some err)], None)"
  by (rule expr_transform_mapping(2) [of _ "''a''" "()"]) simp_all

end
