(* ===== verification/Termination.thy ===== *)
theory Termination
  imports Completion
begin

text \<open>
  Termination of the processing of a message (\<open>engine.go\<close>): on a chain whose connections have no cycle
  and whose nodes do not put messages off, every run of the goroutines ends. Every action of a run
  has a weight (the height of its node in the graph, the stage of the action, the length of what it
  still has to do), a step replaces an action by finitely many lighter ones, and the multiset
  order does the rest.
\<close>

section \<open>The graph of a chain\<close>

definition edges :: "(RuleNodeId, RuleNodeRelation list) gomap \<Rightarrow> (RuleNodeId \<times> RuleNodeId) set" where
  "edges R = {(n, OutId r) |n r rels. map_of R n = Some rels \<and> r \<in> set rels}"

lemma finite_edges: "finite (edges R)"
proof (rule finite_subset)
  show "edges R \<subseteq> (\<Union>(n, rels) \<in> set R. (\<lambda>r. (n, OutId r)) ` set rels)"
    by (force simp: edges_def dest: map_of_SomeD)
qed auto

definition height :: "(RuleNodeId \<times> RuleNodeId) set \<Rightarrow> RuleNodeId \<Rightarrow> nat" where
  "height G n = card {m. (n, m) \<in> G\<^sup>+}"

lemma height_less:
  assumes "finite G" "acyclic G" "(n, m) \<in> G"
  shows "height G m < height G n"
  unfolding height_def
proof (rule psubset_card_mono)
  have "{m. (n, m) \<in> G\<^sup>+} \<subseteq> snd ` (G\<^sup>+)" by force
  with assms(1) show "finite {m. (n, m) \<in> G\<^sup>+}" by (meson finite_imageI finite_subset finite_trancl)
  have "m \<in> {m. (n, m) \<in> G\<^sup>+}" "m \<notin> {k. (m, k) \<in> G\<^sup>+}"
    using assms(2,3) by (auto simp: acyclic_def)
  moreover have "{k. (m, k) \<in> G\<^sup>+} \<subseteq> {k. (n, k) \<in> G\<^sup>+}"
    using assms(3) by (auto intro: trancl_into_trancl2)
  ultimately show "{k. (m, k) \<in> G\<^sup>+} \<subset> {k. (n, k) \<in> G\<^sup>+}" by blast
qed

definition cache_within :: "('n, 'w) RuleChainCtx \<Rightarrow> bool" where
  "cache_within rc =
     (\<forall>k l n. map_of (rc_relationCache rc) k = Some l \<longrightarrow> NodeRef n \<in> set l \<longrightarrow> (fst k, n) \<in> edges (rc_nodeRoutes rc))"

definition within :: "('n, 'w) run_spec \<Rightarrow> ('n, 'w) sys \<Rightarrow> bool" where
  "within S s = (\<exists>e rc. Get (s_engines s) (rs_key S) = Some e \<and> re_root e = Some rc \<and>
     rc_nodeRoutes rc = rs_routes S \<and> cache_within rc)"

lemma GetNodeById_NodeRef: "GetNodeById pool nid rc = Some (NodeRef n) \<Longrightarrow> n = nid"
  by (auto simp: GetNodeById_def split: ComponentType.splits option.splits if_splits)

lemma route_next_edges:
  assumes "NodeRef n \<in> set (route_next pool nid rel rc)"
  shows "(nid, n) \<in> edges (rc_nodeRoutes rc)"
proof (cases "GetNodeRoutes nid rc")
  case None
  with assms show ?thesis by (simp add: route_next_def map_filter_simps)
next
  case (Some rels)
  then obtain r where "r \<in> set rels" "GetNodeById pool (OutId r) rc = Some (NodeRef n)"
    using assms by (auto simp: route_next_def map_filter_def split: if_splits)
  with Some GetNodeById_NodeRef show ?thesis by (fastforce simp: GetNodeRoutes_def edges_def)
qed

lemma GetNextNodes_within:
  assumes "cache_within rc" and "GetNextNodes pool nid rel rc = ((nodes, ok), rc')"
  shows "cache_within rc' \<and> rc_nodeRoutes rc' = rc_nodeRoutes rc \<and>
    (\<forall>n. NodeRef n \<in> set nodes \<longrightarrow> (nid, n) \<in> edges (rc_nodeRoutes rc))"
proof (cases "map_of (rc_relationCache rc) (nid, rel)")
  case (Some l)
  with GetNextNodes_hit [OF Some, of pool] assms show ?thesis by (fastforce simp: cache_within_def)
next
  case None
  with GetNextNodes_miss [OF None, of pool] assms route_next_edges [of _ pool nid rel rc] show ?thesis
    by (auto simp: cache_within_def split: if_splits)
qed

lemma getNextNodes_within:
  assumes "within S s" and "dc_self (ctx_at s c) = Some (NodeRef nid)" "dc_chain (ctx_at s c) = rs_key S"
    and "getNextNodes c rel s = ((nodes, ok), t)"
  shows "within S t \<and> (\<forall>n. NodeRef n \<in> set nodes \<longrightarrow> (nid, n) \<in> edges (rs_routes S))"
proof -
  from assms(1) obtain e rc where e: "Get (s_engines s) (rs_key S) = Some e" "re_root e = Some rc"
    "rc_nodeRoutes rc = rs_routes S" "cache_within rc" by (auto simp: within_def)
  obtain ns b rc' where g: "GetNextNodes (pool_of (s_engines s)) nid rel rc = ((ns, b), rc')" by (metis prod.collapse)
  have "nodes = ns" "t = s\<lparr>s_engines := Store (rs_key S) (e\<lparr>re_root := Some rc'\<rparr>) (s_engines s)\<rparr>"
    using assms(2-4) e g by (simp_all add: getNextNodes_def ref_id_def Let_def)
  with GetNextNodes_within [OF e(4) g] e(3) show ?thesis by (auto simp: within_def engine_pool.lookup_put)
qed

section \<open>Weights\<close>

type_synonym weight3 = "nat \<times> nat \<times> nat"

definition lighter :: "(weight3 \<times> weight3) set" where
  "lighter = less_than <*lex*> less_than <*lex*> less_than"

lemma wf_lighter: "wf lighter"
  by (simp add: lighter_def wf_lex_prod)

lemma lighter_iff [simp]:
  "((a, b, c), (a', b', c')) \<in> lighter \<longleftrightarrow> a < a' \<or> a = a' \<and> (b < b' \<or> b = b' \<and> c < c')"
  by (auto simp: lighter_def)

definition level :: "(RuleNodeId \<Rightarrow> nat) \<Rightarrow> 'w DefaultRuleContext list \<Rightarrow> nat \<Rightarrow> nat" where
  "level rk h c = (case dc_self (h ! c) of Some (NodeRef n) \<Rightarrow> Suc (rk n) | _ \<Rightarrow> 0)"

definition ref_level :: "(RuleNodeId \<Rightarrow> nat) \<Rightarrow> node_ref \<Rightarrow> nat" where
  "ref_level rk ref = (case ref of NodeRef n \<Rightarrow> Suc (rk n) | _ \<Rightarrow> 0)"

lemma ref_level_NodeRef [simp]: "ref_level rk (NodeRef n) = Suc (rk n)"
  by (simp add: ref_level_def)

fun weight :: "(RuleNodeId \<Rightarrow> nat) \<Rightarrow> 'w DefaultRuleContext list \<Rightarrow> 'w action \<Rightarrow> weight3" where
  "weight rk h (IFirst c _ _) = (level rk h c, 10, 0)"
| "weight rk h (ITellNext _ _ ref _) = (ref_level rk ref, 9, 0)"
| "weight rk h (IDispatch _ _ _ nodes) = (foldr max (map (ref_level rk) nodes) 0, 10, length nodes)"
| "weight rk h (IAround c _ _ _ aops _) = (level rk h c, 8, length aops)"
| "weight rk h (IOnMsg c _) = (level rk h c, 7, 0)"
| "weight rk h (ICalls c calls _) = (level rk h c, 6, length calls)"
| "weight rk h (ITellRels c _ _ rels _) = (level rk h c, 5, length rels)"
| "weight rk h (IEnd _ _ _ _) = (0, 4, 0)"
| "weight rk h (IEndFn f _ _ _ _) = (0, 3, size f)"
| "weight rk h (IRecover _ _ _) = (0, 3, 0)"
| "weight rk h (IDone c) = (0, 2, c)"
| "weight rk h (ICompleted _) = (0, 1, 1)"
| "weight rk h (ISetDone _ _) = (0, 1, 0)"
| "weight rk h (IDoneFn f) = (0, 0, Suc (size f))"
| "weight rk h _ = (0, 0, 0)"

definition keeps :: "('n, 'w) sys \<Rightarrow> ('n, 'w) sys \<Rightarrow> bool" where
  "keeps s t = (length (s_heap s) \<le> length (s_heap t) \<and> (\<forall>c < length (s_heap s). dc_self (s_heap t ! c) = dc_self (s_heap s ! c)))"

lemma keeps_same: "s_heap t = s_heap s \<Longrightarrow> keeps s t"
  by (simp add: keeps_def)

lemma weight_keeps:
  "wf_act S (s_heap s) i rest \<Longrightarrow> 0 < length (s_heap s) \<Longrightarrow> keeps s t \<Longrightarrow> weight rk (s_heap t) i = weight rk (s_heap s) i"
  by (cases i) (auto simp: level_def keeps_def tail_ok_def)

lemma weights_keep:
  "wf_go S (s_heap s) g \<Longrightarrow> 0 < length (s_heap s) \<Longrightarrow> keeps s t \<Longrightarrow>
     image_mset (weight rk (s_heap t)) (mset g) = image_mset (weight rk (s_heap s)) (mset g)"
  by (induction g) (auto simp: weight_keeps)

text \<open>No node puts a message off with \<open>TellSelf\<close>.\<close>

fun defers :: "ctx_call \<Rightarrow> bool" where
  "defers (CTellSelf _ _) = True"
| "defers _ = False"

definition nodes_prompt :: "('n, 'w) env \<Rightarrow> ('n, 'w) nodes \<Rightarrow> bool" where
  "nodes_prompt E N =
     (\<forall>nid c v m w. map_of N nid = Some c \<longrightarrow> (\<forall>call \<in> set (fst (fst (n_OnMsg (env_ops E) (nc_Node c) v m w))). \<not> defers call))"

fun prompt :: "'w action \<Rightarrow> bool" where
  "prompt (ICalls _ calls _) = (\<forall>call \<in> set calls. \<not> defers call)"
| "prompt _ = True"

text \<open>What may panic runs below the recovery of \<open>tellNext\<close>.\<close>

fun risky :: "'w action \<Rightarrow> bool" where
  "risky (IAround _ _ _ _ _ _) = True"
| "risky (IOnMsg _ _) = True"
| "risky (ICalls _ _ (Some _)) = True"
| "risky _ = False"

fun guarded :: "'w action list \<Rightarrow> bool" where
  "guarded [] = True"
| "guarded (i # rest) = ((risky i \<longrightarrow> rest \<noteq> []) \<and> guarded rest)"

text \<open>A step replaces an action, and on a panic what follows it, by lighter actions.\<close>

definition lowered ::
  "(RuleNodeId \<Rightarrow> nat) \<Rightarrow> ('n, 'w) run_spec \<Rightarrow> ('n, 'w) sys \<Rightarrow> ('n, 'w) sys \<Rightarrow> 'w action \<Rightarrow> 'w action list \<Rightarrow> 'w action list \<Rightarrow> bool" where
  "lowered rk S s t i rest g =
     (\<exists>news k rest'. s_gos t = s_gos s @ news \<and> s_crashed t = s_crashed s \<and> keeps s t \<and> within S t \<and> g = k @ rest' \<and> (rest' = rest \<or> rest' = []) \<and>
        (guarded (i # rest) \<longrightarrow> guarded g) \<and> (\<forall>q \<in> set news. guarded q) \<and>
        (\<forall>x \<in> set k \<union> set (concat news). prompt x \<and> (weight rk (s_heap t) x, weight rk (s_heap s) i) \<in> lighter))"

lemma loweredI:
  assumes "s_gos t = s_gos s @ news" "s_crashed t = s_crashed s" "keeps s t" "within S t" "g = k @ rest"
    and "guarded (i # rest) \<Longrightarrow> guarded g" and "\<And>q. q \<in> set news \<Longrightarrow> guarded q"
    and "\<And>x. x \<in> set k \<Longrightarrow> prompt x \<and> (weight rk (s_heap t) x, weight rk (s_heap s) i) \<in> lighter"
    and "\<And>x. x \<in> set (concat news) \<Longrightarrow> prompt x \<and> (weight rk (s_heap t) x, weight rk (s_heap s) i) \<in> lighter"
  shows "lowered rk S s t i rest g"
  unfolding lowered_def using assms by blast

lemma within_cong: "s_engines t = s_engines s \<Longrightarrow> within S t = within S s"
  by (simp add: within_def)

lemma lowered_ext:
  assumes "ext s t news" "within S s" "g = k @ rest"
    and "guarded (i # rest) \<Longrightarrow> guarded (k @ rest)" and "\<And>q. q \<in> set news \<Longrightarrow> guarded q"
    and "\<And>x. x \<in> set k \<Longrightarrow> prompt x \<and> (weight rk (s_heap s) x, weight rk (s_heap s) i) \<in> lighter"
    and "\<And>x. x \<in> set (concat news) \<Longrightarrow> prompt x \<and> (weight rk (s_heap s) x, weight rk (s_heap s) i) \<in> lighter"
  shows "lowered rk S s t i rest g"
  by (rule loweredI [where news = news and k = k])
     (use assms within_cong [of t s S] in \<open>auto simp: ext_def keeps_same\<close>)

lemma lowered_same:
  assumes "s_gos t = s_gos s" "s_crashed t = s_crashed s" "s_heap t = s_heap s" "s_engines t = s_engines s" "within S s" "g = k @ rest"
    and "guarded (i # rest) \<Longrightarrow> guarded (k @ rest)"
    and "\<And>x. x \<in> set k \<Longrightarrow> prompt x \<and> (weight rk (s_heap s) x, weight rk (s_heap s) i) \<in> lighter"
  shows "lowered rk S s t i rest g"
  by (rule loweredI [where news = "[]" and k = k])
     (use assms within_cong [of t s S] in \<open>auto simp: keeps_same\<close>)

lemma silent_light:
  assumes "x \<in> set xs" and "xs \<in> set news" and "\<forall>g \<in> set news. silent g"
  shows "prompt x" and "0 < a \<or> 0 < b \<Longrightarrow> (weight rk h x, a, b, c) \<in> lighter"
proof -
  have "silent xs" using assms by blast
  then have "prompt x \<and> weight rk h x = (0, 0, 0)" using assms(1) by (cases xs rule: silent.cases) auto
  then show "prompt x" "0 < a \<or> 0 < b \<Longrightarrow> (weight rk h x, a, b, c) \<in> lighter" by auto
qed

lemma guarded_plain: "(\<And>x. x \<in> set k \<Longrightarrow> \<not> risky x) \<Longrightarrow> guarded (k @ rest) = guarded rest"
  by (induction k) auto

lemma silent_guarded: "\<forall>g \<in> set news. silent g \<Longrightarrow> q \<in> set news \<Longrightarrow> guarded q"
  by (drule (1) bspec) (cases q rule: silent.cases, auto)

lemma level_ok: "ctx_ok S c (h ! c) \<Longrightarrow> \<exists>nid. dc_self (h ! c) = Some (NodeRef nid) \<and> level rk h c = Suc (rk nid)"
  by (auto simp: ctx_ok_def level_def)

section \<open>Every action\<close>

lemma low_IFirst:
  assumes "inv_at S s L (add_mset (IFirst c m e) B)" "wf_go S (s_heap s) (IFirst c m e # rest)" "within S s"
    and "exec_go E (IFirst c m e # rest) s = (g, t)"
  shows "lowered rk S s t (IFirst c m e) rest g"
proof -
  from assms(1,2) have "c < length (s_heap s)" by (simp add: inv_at_def)
  with level_ok [OF inv_ctx [OF assms(1), unfolded ctx_at_def], of c rk] obtain nid where
    n: "dc_self (s_heap s ! c) = Some (NodeRef nid)" "level rk (s_heap s) c = Suc (rk nid)" by blast
  with assms(4) have "g = [ITellNext c m (NodeRef nid) (Const [])] @ rest" "t = s" by (auto simp: first_task_def ctx_at_def)
  with n assms(3) show ?thesis by (intro lowered_same [where k = "[ITellNext c m (NodeRef nid) (Const [])]"]) auto
qed

lemma low_ITellNext:
  assumes S: "spec_ok E S" and inv: "inv_at S s L (add_mset (ITellNext c m ref q) B)"
    and wf: "wf_go S (s_heap s) (ITellNext c m ref q # rest)" and w: "within S s"
    and ex: "exec_go E (ITellNext c m ref q # rest) s = (g, t)"
  shows "lowered rk S s t (ITellNext c m ref q) rest g"
proof -
  let ?n = "length (s_heap s)" and ?x = "NewNextNodeRuleContext c ref s"
  define r where "r = captured_val s q"
  define s1 where "s1 = s\<lparr>s_heap := s_heap s @ [?x]\<rparr>"
  from wf obtain nid where c: "c < ?n" "ref = NodeRef nid" by auto
  have at: "ctx_at s1 ?n = ?x" by (simp add: s1_def ctx_at_def)
  have self: "dc_self ?x = Some ref" "dc_pool ?x = dc_pool (ctx_at s c)"
    by (simp_all add: NewNextNodeRuleContext_def Let_def)
  obtain m' u where b: "before_aop E ?n r (dc_beforeAspects ?x) m s1 = (m', u)" by force
  have "accepts (dc_pool (ctx_at s1 ?n))" using spec_okD(3) [OF S] ctx_okD(2) [OF inv_ctx [OF inv c(1)]] at self by simp
  from before_aop_ext [OF this b] obtain news where news: "ext s1 u news" "\<forall>g \<in> set news. silent g" by blast
  have "ctx_at u ?n = ?x" using ctx_at_ext [OF news(1)] at by simp
  with ex b at have g: "g = [IAround ?n m m' r (dc_aroundAspects ?x) True, IRecover c m r] @ rest" and t: "t = u"
    by (auto simp: tellNext_def executeAroundAop_def Let_def s1_def [symmetric] r_def [symmetric])
  have h: "s_heap t = s_heap s @ [?x]" "s_gos t = s_gos s @ news" "s_engines t = s_engines s" "s_crashed t = s_crashed s"
    using news(1) by (simp_all add: t ext_def s1_def)
  show ?thesis
  proof (rule loweredI [OF h(2,4) _ _ g])
    show "guarded g" if "guarded (ITellNext c m ref q # rest)" using that by (simp add: g)
    show "guarded q" if "q \<in> set news" for q using silent_guarded [OF news(2) that] .
    show "keeps s t" by (auto simp: keeps_def h nth_append)
    show "within S t" using w within_cong [OF h(3)] by simp
    show "prompt x \<and> (weight rk (s_heap t) x, weight rk (s_heap s) (ITellNext c m ref q)) \<in> lighter"
      if "x \<in> set [IAround ?n m m' r (dc_aroundAspects ?x) True, IRecover c m r]" for x
      using that c self by (auto simp: h level_def nth_append)
    show "prompt x \<and> (weight rk (s_heap t) x, weight rk (s_heap s) (ITellNext c m ref q)) \<in> lighter"
      if "x \<in> set (concat news)" for x
      using that c news(2) by (auto intro: silent_light)
  qed
qed

lemma low_IAround:
  assumes wf: "wf_go S (s_heap s) (IAround c m0 m r aops tt # rest)" and w: "within S s"
    and ex: "exec_go E (IAround c m0 m r aops tt # rest) s = (g, t)"
  shows "lowered rk S s t (IAround c m0 m r aops tt) rest g"
proof (cases aops)
  case Nil
  with ex wf w show ?thesis by (intro lowered_same [where k = "[IOnMsg c m0]"]) auto
next
  case (Cons a as)
  show ?thesis
  proof (cases "case a_Around a of None \<Rightarrow> True | Some f \<Rightarrow> \<not> a_PointCut a (view_of s c) m r (s_world s)")
    case True
    with Cons ex w show ?thesis by (intro lowered_same [where k = "[IAround c m0 m r as tt]"]) (auto split: option.splits)
  next
    case False
    then obtain f where f: "a_Around a = Some f" "a_PointCut a (view_of s c) m r (s_world s)"
      by (auto split: option.splits)
    with wf Cons obtain m' w' where "f (view_of s c) m r (s_world s) = ((m', True, []), w')"
      by (fastforce simp: leaves_to_engine_def)
    with ex Cons f w show ?thesis
      by (intro lowered_same [where k = "[ICalls c [] None, IAround c m0 m' r as tt]"]) auto
  qed
qed

lemma low_IOnMsg:
  assumes p: "nodes_prompt E (rs_nodes S)" and inv: "inv_at S s L (add_mset (IOnMsg c m) B)"
    and wf: "wf_go S (s_heap s) (IOnMsg c m # rest)" and w: "within S s"
    and ex: "exec_go E (IOnMsg c m # rest) s = (g, t)"
  shows "lowered rk S s t (IOnMsg c m) rest g"
proof -
  let ?s = "emit (EvOnMsg c m) s"
  from wf have c: "c < length (s_heap s)" by (simp add: tail_ok_def)
  from ctx_okD(1,7) [OF inv_ctx [OF inv c]] obtain nid x where
    x: "dc_self (ctx_at s c) = Some (NodeRef nid)" "map_of (rs_nodes S) nid = Some x" "dc_chain (ctx_at s c) = rs_key S"
    by auto
  from inv obtain e rc where e: "Get (s_engines s) (rs_key S) = Some e" "re_root e = Some rc" "rc_nodes rc = rs_nodes S"
    by (auto simp: inv_at_def chain_inv_def)
  from x e have i: "instance_of ?s c = Some (nc_Node x)"
    by (simp add: instance_of_def emit_def ctx_at_def chain_of_def)
  obtain calls pan w' where o: "n_OnMsg (env_ops E) (nc_Node x) (view_of ?s c) m (s_world ?s) = ((calls, pan), w')"
    by (metis prod.collapse)
  with p x(2) have "\<forall>call \<in> set calls. \<not> defers call" unfolding nodes_prompt_def by (metis fst_conv)
  moreover from ex i o have "g = [ICalls c calls pan] @ rest" "t = ?s\<lparr>s_world := w'\<rparr>"
    by (auto simp: node_OnMsg_def Let_def)
  ultimately show ?thesis using w by (intro lowered_same [where k = "[ICalls c calls pan]"]) (auto simp: emit_def)
qed

lemma low_ICalls:
  assumes S: "spec_ok E S" and inv: "inv_at S s L (add_mset (ICalls c calls pan) B)"
    and wf: "wf_go S (s_heap s) (ICalls c calls pan # rest)" and w: "within S s" and p: "prompt (ICalls c calls pan)"
    and ex: "exec_go E (ICalls c calls pan # rest) s = (g, t)" and pan: "calls = [] \<longrightarrow> pan = None"
  shows "lowered rk S s t (ICalls c calls pan) rest g"
proof (cases calls)
  case Nil
  with pan ex w show ?thesis by (intro lowered_same [where k = "[]"]) auto
next
  case (Cons a as)
  with wf have l: "linear_calls calls" "pan = None" and c: "c < length (s_heap s)" "c \<noteq> 0"
    by (auto simp: linear_result_def split: option.splits)
  note x = ctx_okD [OF inv_ctx [OF inv c(1)]]
  from level_ok [OF inv_ctx [OF inv c(1), unfolded ctx_at_def], of rk] have lev: "0 < level rk (s_heap s) c" by auto
  have acc: "accepts (dc_pool (ctx_at s c))" using x(2) spec_okD(3) [OF S] by simp
  have ending: ?thesis if "do_call E c a s = DoOnEnd c m e q s" "as = []" for m e q
  proof -
    obtain u news where d: "DoOnEnd c m e q s = ([], u)" "ext s u (news @ [[IEnd c m e q]])" "\<forall>g \<in> set news. silent g"
      using DoOnEnd_ext [OF acc x(3)] by metis
    with ex Cons that l have g: "g = [ICalls c [] None] @ rest" "t = u" by auto
    show ?thesis unfolding g(2)
      by (rule lowered_ext [OF d(2) w g(1)]) (use d(3) lev Cons in \<open>auto intro: silent_light silent_guarded\<close>)
  qed
  from l(1) show ?thesis
  proof (cases calls rule: linear_calls.cases)
    case (1 m e)
    with Cons have a: "a = CTell m e None" "as = []" by auto
    have "do_call E c a s = DoOnEnd c m e [] s" using c x(6) by (simp add: a do_call_def tell_def)
    with a ending show ?thesis by blast
  next
    case (2 m e q)
    with Cons have a: "a = CTell m e (Some [q])" "as = []" by auto
    with ex Cons c x(6) l have g: "g = [ITellRels c m e [q] (length (s_vars s)), ICalls c [] None] @ rest"
      "t = s\<lparr>s_vars := s_vars s @ [[]]\<rparr>"
      by (auto simp: do_call_def tell_def)
    show ?thesis by (rule lowered_same [OF _ _ _ _ w g(1)]) (use g(2) Cons in auto)
  next
    case (4 m e q)
    with Cons have a: "a = CDoOnEnd m e q" "as = []" by auto
    then have "do_call E c a s = DoOnEnd c m e q s" by (simp add: do_call_def)
    with a ending show ?thesis by blast
  qed (use p in auto)
qed

lemma low_panic:
  assumes S: "spec_ok E S" and inv: "inv_at S s L (add_mset (ICalls c [] (Some e)) B)"
    and wf: "wf_go S (s_heap s) (ICalls c [] (Some e) # rest)" and w: "within S s"
    and ex: "exec_go E (ICalls c [] (Some e) # rest) s = (g, t)"
    and "rest \<noteq> []"
  shows "lowered rk S s t (ICalls c [] (Some e)) rest g"
proof -
  from wf \<open>rest \<noteq> []\<close> obtain p m r where q: "rest = [IRecover p m r]" "p < length (s_heap s)" and c: "c < length (s_heap s)"
    by (auto simp: tail_ok_def)
  obtain m' u where a: "executeAfterAop E p m (Some e) r s = (m', u)" by force
  from ex q a have g: "g = [IDone p]" "t = u" by (auto simp: tellNext_recover_def)
  have "accepts (dc_pool (ctx_at s p))"
    using ctx_okD(2) [OF inv_ctx [OF inv q(2)]] spec_okD(3) [OF S] by simp
  from after_aop_ext [OF this a [unfolded executeAfterAop_def]] obtain news where
    news: "ext s u news" "\<forall>g \<in> set news. silent g" by blast
  from level_ok [OF inv_ctx [OF inv c, unfolded ctx_at_def], of rk] have lev: "0 < level rk (s_heap s) c" by auto
  have "s_heap u = s_heap s" "s_gos u = s_gos s @ news" "within S u" "s_crashed u = s_crashed s"
    using news(1) w within_cong [of u s S] by (simp_all add: ext_def)
  then show ?thesis
    unfolding lowered_def using g lev news(2)
    by (intro exI [of _ news] exI [of _ "[IDone p]"] exI [of _ "[]"]) (auto simp: keeps_same intro: silent_light silent_guarded)
qed

lemma low_ITellRels:
  assumes S: "spec_ok E S" and rk: "\<And>a b. (a, b) \<in> edges (rs_routes S) \<Longrightarrow> rk b < rk a"
    and inv: "inv_at S s L (add_mset (ITellRels c m e rels va) B)"
    and wf: "wf_go S (s_heap s) (ITellRels c m e rels va # rest)" and w: "within S s"
    and ex: "exec_go E (ITellRels c m e rels va # rest) s = (g, t)"
  shows "lowered rk S s t (ITellRels c m e rels va) rest g"
proof (cases rels)
  case Nil
  with ex w show ?thesis by (intro lowered_same [where k = "[]"]) auto
next
  case (Cons r rs)
  with wf have rels: "rels = [r]" and c: "c < length (s_heap s)" "c \<noteq> 0" by auto
  note x = ctx_okD [OF inv_ctx [OF inv c(1)]]
  have acc: "accepts (dc_pool (ctx_at s c))" using x(2) spec_okD(3) [OF S] by simp
  from level_ok [OF inv_ctx [OF inv c(1), unfolded ctx_at_def], of rk] obtain nid where
    nid: "dc_self (ctx_at s c) = Some (NodeRef nid)" "level rk (s_heap s) c = Suc (rk nid)" by (auto simp: ctx_at_def)
  let ?s = "s\<lparr>s_vars := (s_vars s)[va := r]\<rparr>"
  obtain m' u where a: "executeAfterAop E c m e r ?s = (m', u)" by force
  have "accepts (dc_pool (ctx_at ?s c))" using acc by (simp add: ctx_at_def)
  from after_aop_ext [OF this a [unfolded executeAfterAop_def]] obtain news where
    news: "ext s u news" "\<forall>g \<in> set news. silent g" by auto
  have cu: "ctx_at u c = ctx_at s c" using ctx_at_ext [OF news(1)] .
  have "chain_inv S u" using inv chain_inv_ext [OF news(1)] by (simp add: inv_at_def)
  moreover have "ctx_ok S c (ctx_at u c)" using inv_ctx [OF inv c(1)] cu by simp
  ultimately obtain nodes v where v: "getNextNodes c r u = ((nodes, nodes \<noteq> []), v)" "refs_ok (rs_nodes S) nodes"
    "s_heap v = s_heap u" "s_gos v = s_gos u" "s_crashed v = s_crashed u"
    using getNextNodes_effect [OF spec_okD(2) [OF S]] by metis
  have "within S u" using w news(1) within_cong [of u s S] by (simp add: ext_def)
  from getNextNodes_within [OF this _ _ v(1)] nid(1) x(1) cu
  have wv: "within S v" and nxt: "\<And>n. NodeRef n \<in> set nodes \<Longrightarrow> rk n < rk nid" using rk by auto
  have hv: "s_heap v = s_heap s" "s_gos v = s_gos s @ news" "s_crashed v = s_crashed s" using v news(1) by (simp_all add: ext_def)
  then have cv: "ctx_at v c = ctx_at s c" by (simp add: ctx_at_def)
  have accv: "accepts (dc_pool (ctx_at v c))" and endv: "dc_onEnd (ctx_at v c) = Some (EngineEnd (rs_key S) 0 (rs_end S))"
    using acc x(3) cv by simp_all
  show ?thesis
  proof (cases "nodes = []")
    case True
    obtain y more where y: "DoOnEnd c m' e r v = ([], y)" "ext v y (more @ [[IEnd c m' e r]])" "\<forall>g \<in> set more. silent g"
      using DoOnEnd_ext [OF accv endv] by metis
    from ex rels a v True y have g: "g = [ITellRels c m' e [] va] @ rest" "t = y" by (auto simp: Let_def)
    show ?thesis
      by (rule loweredI [OF _ _ _ _ g(1), where news = "news @ more @ [[IEnd c m' e r]]"])
         (use y(2) hv wv g nid rels news(2) y(3) within_cong [of y v S]
          in \<open>auto simp: ext_def keeps_same intro: silent_light silent_guarded\<close>)
  next
    case False
    from ex rels a v False cv x(4)
    have g: "g = [IDispatch c m' va nodes, ITellRels c m' e [] va] @ rest" "t = v" by (auto simp: Let_def)
    from False v(2) obtain n where n: "nodes = [NodeRef n]" by (cases nodes) (auto simp: refs_ok_def)
    with nxt have "rk n < rk nid" by simp
    then show ?thesis
      by (intro loweredI [OF _ _ _ _ g(1), where news = news])
         (use hv wv g nid rels news(2) n in \<open>auto simp: keeps_same intro: silent_light silent_guarded\<close>)
  qed
qed

lemma low_IDispatch:
  assumes S: "spec_ok E S" and inv: "inv_at S s L (add_mset (IDispatch c m va nodes) B)"
    and wf: "wf_go S (s_heap s) (IDispatch c m va nodes # rest)" and w: "within S s"
    and ex: "exec_go E (IDispatch c m va nodes # rest) s = (g, t)"
  shows "lowered rk S s t (IDispatch c m va nodes) rest g"
proof (cases nodes)
  case Nil
  with ex w show ?thesis by (intro lowered_same [where k = "[]"]) auto
next
  case (Cons y ys)
  with wf have n: "nodes = [y]" and c: "c < length (s_heap s)" by (auto simp: refs_ok_def)
  have "accepts (dc_pool (ctx_at s c))" using ctx_okD(2) [OF inv_ctx [OF inv c]] spec_okD(3) [OF S] by simp
  moreover from ex n have g: "g = [IDispatch c m va []] @ rest" "t = dispatch1 E c m va y s" by auto
  ultimately obtain m' where "ext (childReady c s) t [[ITellNext c m' y (LoopVar va)]]"
    using dispatch1_effect c by blast
  then have t: "s_heap t = s_heap (childReady c s)" "s_engines t = s_engines s" "s_crashed t = s_crashed s"
    "s_gos t = s_gos s @ [[ITellNext c m' y (LoopVar va)]]"
    by (simp_all add: ext_def childReady_def upd_ctx_def)
  have "keeps s t" using c by (auto simp: keeps_def t childReady_def upd_ctx_def nth_list_update)
  with t w n within_cong [of t s S] show ?thesis
    by (intro loweredI [OF t(4,3) _ _ g(1)]) (auto simp: g(1))
qed

lemma low_IEndFn:
  assumes S: "spec_ok E S" and inv: "inv_at S s L (add_mset (IEndFn f c m e r) B)"
    and wf: "wf_go S (s_heap s) (IEndFn f c m e r # rest)" and w: "within S s"
    and ex: "exec_go E (IEndFn f c m e r # rest) s = (g, t)"
  shows "lowered rk S s t (IEndFn f c m e r) rest g"
proof (cases "\<exists>k. f = UserEnd k")
  case True
  with ex w show ?thesis by (intro lowered_same [where k = "[]"]) (auto simp: end_fn_call_def emit_def)
next
  case False
  with wf have f: "f = EngineEnd (rs_key S) 0 (rs_end S)" by auto
  from inv obtain en where "Get (s_engines s) (rs_key S) = Some en" by (auto simp: inv_at_def chain_inv_def)
  with ex f obtain m' w' where g: "g = (case rs_end S of Some h \<Rightarrow> [IEndFn h c m' e r] | None \<Rightarrow> []) @ rest"
    and t: "t = emit (EvEngineEnd (rs_key S) 0 c m' e r) (s\<lparr>s_world := w'\<rparr>)"
    by (auto simp: end_fn_call_def Let_def split: prod.splits option.splits)
  have "size h < size f" if "rs_end S = Some h" for h using that by (simp add: f)
  then show ?thesis by (intro lowered_same [OF _ _ _ _ w g]) (auto simp: t emit_def split: option.splits)
qed

lemma low_IDone:
  assumes inv: "inv_at S s L (add_mset (IDone c) B)" and w: "within S s"
    and ex: "exec_go E (IDone c # rest) s = (g, t)"
  shows "lowered rk S s t (IDone c) rest g"
proof -
  have c: "c < length (s_heap s)" "c \<in> L" using inv_live [OF inv, of c] by auto
  have core: "core (cells (s_heap s)) L (add_mset (IDone c) B)" using inv by (simp add: inv_at_def)
  define k :: "'b action list" where
    "k = (if wrap32 (dc_waitingCount (ctx_at s c) - 1) \<le> 0
          then (case dc_parent (ctx_at s c) of Some p \<Rightarrow> [IDone p] | None \<Rightarrow> []) @ [ICompleted c] else [])"
  have g: "g = k @ rest" "t = upd_ctx c (\<lambda>x. x\<lparr>dc_waitingCount := wrap32 (dc_waitingCount (ctx_at s c) - 1)\<rparr>) s"
    using ex by (auto simp: childDone_def Let_def k_def split: if_splits)
  show ?thesis
    by (rule loweredI [OF _ _ _ _ g(1), where news = "[]"])
       (use c core_parent [OF core c(2)] w within_cong [of t s S]
        in \<open>auto simp: g k_def upd_ctx_def keeps_def nth_list_update ctx_at_def split: option.splits if_splits\<close>)
qed

lemma low_ICompleted:
  assumes w: "within S s" and ex: "exec_go E (ICompleted c # rest) s = (g, t)"
  shows "lowered rk S s t (ICompleted c) rest g"
proof -
  define k :: "'b action list" where "k = (case dc_onAllNodeCompleted (ctx_at s c) of
      Some f \<Rightarrow> if dc_onAllNodeCompletedDone (ctx_at s c) then [] else [ISetDone c f] | None \<Rightarrow> [])"
  have "g = k @ rest" "t = s" using ex by (auto simp: completed_def k_def split: option.splits if_splits)
  with w show ?thesis by (intro lowered_same [where k = k]) (auto simp: k_def split: option.splits if_splits)
qed

lemma low_ISetDone:
  assumes w: "within S s" and ex: "exec_go E (ISetDone c f # rest) s = (g, t)" and n: "c < length (s_heap s)"
  shows "lowered rk S s t (ISetDone c f) rest g"
proof -
  have g: "g = [IDoneFn f] @ rest" "t = upd_ctx c (\<lambda>x. x\<lparr>dc_onAllNodeCompletedDone := True\<rparr>) s"
    using ex by (auto simp: set_done_def)
  show ?thesis
    by (rule loweredI [OF _ _ _ _ g(1), where news = "[]"])
       (use n w within_cong [of t s S] in \<open>auto simp: g upd_ctx_def keeps_def nth_list_update\<close>)
qed

lemma low_IDoneFn:
  assumes S: "spec_ok E S" and wf: "wf_go S (s_heap s) (IDoneFn f # rest)" and w: "within S s"
    and ex: "exec_go E (IDoneFn f # rest) s = (g, t)"
  shows "lowered rk S s t (IDoneFn f) rest g"
proof (cases "\<exists>k. f = UserDone k")
  case True
  with ex w show ?thesis by (intro lowered_same [where k = "[]"]) (auto simp: done_fn_call_def emit_def)
next
  case False
  with wf spec_okD(5) [OF S] obtain m wt df where f: "f = EngineDone (rs_key S) 0 m wt df" by auto
  define k :: "'b action list" where
    "k = (case df of Some g \<Rightarrow> [IDoneFn g] | None \<Rightarrow> []) @ (if wt then [IClose 0] else [])"
  have g: "g = k @ rest" "s_gos t = s_gos s" "s_crashed t = s_crashed s" "s_heap t = s_heap s" "s_engines t = s_engines s"
    using ex by (auto simp: f done_fn_call_def Let_def k_def emit_def split: prod.splits option.splits)
  show ?thesis by (rule lowered_same [OF g(2-5) w g(1)]) (auto simp: k_def f split: option.splits if_splits)
qed

lemma low_goroutine:
  assumes S: "spec_ok E S" and p: "nodes_prompt E (rs_nodes S)" and rk: "\<And>a b. (a, b) \<in> edges (rs_routes S) \<Longrightarrow> rk b < rk a"
    and inv: "inv_at S s L (add_mset i B)" and wf: "wf_go S (s_heap s) (i # rest)" and w: "within S s"
    and i: "prompt i" "guarded (i # rest)" and ex: "exec_go E (i # rest) s = (g, t)"
  shows "lowered rk S s t i rest g"
proof (cases i)
  case (IFirst c m e)
  with inv wf w ex show ?thesis using low_IFirst by blast
next
  case (ITellNext c m n r)
  with S inv wf w ex show ?thesis using low_ITellNext by blast
next
  case (IAround c m0 m r as b)
  with wf w ex show ?thesis using low_IAround by blast
next
  case (IOnMsg c m)
  with p inv wf w ex show ?thesis using low_IOnMsg by blast
next
  case (ICalls c calls pan)
  show ?thesis
  proof (cases "calls = [] \<and> pan \<noteq> None")
    case True
    then obtain e where "i = ICalls c [] (Some e)" using ICalls by auto
    moreover from this i(2) have "rest \<noteq> []" by simp
    ultimately show ?thesis using low_panic [OF S _ _ w, of L c e B rest g t rk] inv wf ex by simp
  next
    case False
    then have "calls = [] \<longrightarrow> pan = None" by blast
    from low_ICalls [OF S _ _ w _ _ this] ICalls inv wf ex i show ?thesis by blast
  qed
next
  case (ITellRels c m e rels va)
  with S rk inv wf w ex show ?thesis using low_ITellRels by blast
next
  case (IEnd c m e r)
  with wf inv have c: "c < length (s_heap s)" by simp
  with IEnd inv_ctx [OF inv c] ex have "g = [IEndFn (EngineEnd (rs_key S) 0 (rs_end S)) c m e r, IDone c] @ rest" "t = s"
    by (auto dest: ctx_okD(3))
  with w IEnd show ?thesis
    by (intro lowered_same [where k = "[IEndFn (EngineEnd (rs_key S) 0 (rs_end S)) c m e r, IDone c]"]) auto
next
  case (IEndFn f c m e r)
  with S inv wf w ex show ?thesis using low_IEndFn by blast
next
  case (IDone c)
  with inv w ex show ?thesis using low_IDone by blast
next
  case (ICompleted c)
  with w ex show ?thesis using low_ICompleted by blast
next
  case (ISetDone c f)
  with inv wf have "c < length (s_heap s)" by (simp add: inv_at_def)
  with w ex ISetDone show ?thesis using low_ISetDone by blast
next
  case (IDispatch c m va nodes)
  with S inv wf w ex show ?thesis using low_IDispatch by blast
next
  case (IDoneFn f)
  with S wf w ex show ?thesis using low_IDoneFn by blast
next
  case (IClose r)
  show ?thesis
  proof (cases "EvClosed r \<in> set (s_trace s)")
    case True
    have "acct S L (add_mset (IClose 0) B) (s_trace s) (dc_onAllNodeCompletedDone (s_heap s ! 0))" "r = 0"
      using inv wf IClose by (simp_all add: inv_at_def)
    then have "count_list (s_trace s) (EvClosed 0) = 0" by (auto simp: acct_def of_bool_def split: if_splits)
    with True \<open>r = 0\<close> show ?thesis by (simp add: count_list_0_iff)
  next
    case False
    with IClose w ex show ?thesis by (intro lowered_same [where k = "[]"]) (auto simp: emit_def)
  qed
next
  case (IAwait r)
  with w ex show ?thesis by (intro lowered_same [where k = "[]"]) auto
next
  case (IRecover c m r)
  with w ex show ?thesis by (intro lowered_same [where k = "[]"]) auto
next
  case (IGlobalEnd m e)
  with w ex show ?thesis by (intro lowered_same [where k = "[]"]) (auto simp: emit_def)
next
  case (IDebug c f m r e)
  with w ex show ?thesis by (intro lowered_same [where k = "[]"]) (auto simp: emit_def Let_def)
qed (use wf in simp_all)

section \<open>No endless run\<close>

definition burden :: "(RuleNodeId \<Rightarrow> nat) \<Rightarrow> ('n, 'w) sys \<Rightarrow> weight3 multiset" where
  "burden rk s = image_mset (weight rk (s_heap s)) (mset (concat (s_gos s)))"

definition tinv :: "('n, 'w) run_spec \<Rightarrow> ('n, 'w) sys \<Rightarrow> bool" where
  "tinv S s = (inv S s \<and> within S s \<and> (\<forall>g \<in> set (s_gos s). guarded g \<and> (\<forall>x \<in> set g. prompt x)))"

lemma weights_keep_all:
  assumes "\<forall>g \<in> set gs. wf_go S (s_heap s) g" "0 < length (s_heap s)" "keeps s t"
  shows "image_mset (weight rk (s_heap t)) (mset (concat gs)) = image_mset (weight rk (s_heap s)) (mset (concat gs))"
  using assms by (induction gs) (simp_all add: weights_keep [of S s _ t])

lemma burden_step:
  assumes S: "spec_ok E S" "nodes_prompt E (rs_nodes S)" "\<And>a b. (a, b) \<in> edges (rs_routes S) \<Longrightarrow> rk b < rk a"
    and inv: "tinv S s" and st: "step E s s'"
  shows "tinv S s' \<and> (burden rk s', burden rk s) \<in> mult lighter"
  using st
proof cases
  case (step i)
  let ?gs = "(s_gos s)[i := []]"
  let ?B = "mset (concat ?gs)"
  obtain a rest where g: "s_gos s ! i = a # rest"
    using step(3) by (cases "s_gos s ! i") (auto simp: runnable_def)
  obtain g' t where ex: "exec_go E (a # rest) s = (g', t)" by force
  from inv obtain L where L: "inv_at S s L (mset (concat (s_gos s)))"
    and wf: "\<forall>g \<in> set (s_gos s). wf_go S (s_heap s) g" and w: "within S s"
    and pr: "\<forall>g \<in> set (s_gos s). \<forall>x \<in> set g. prompt x" and gu: "\<forall>g \<in> set (s_gos s). guarded g"
    by (auto simp: tinv_def inv_def)
  have s': "s' = t\<lparr>s_gos := (s_gos t)[i := g']\<rparr>" using step(1) g ex by (simp add: step_at_def)
  have mem: "a # rest \<in> set (s_gos s)" using step(2) g by (metis nth_mem)
  have old: "mset (concat (s_gos s)) = mset (a # rest) + ?B"
    using concat_update [OF step(2), of "s_gos s ! i"] by (simp only: list_update_id) (simp only: g)
  have "inv_at S s L (add_mset a (mset rest + ?B))" using L by (simp add: old)
  from low_goroutine [OF S this _ w _ _ ex] wf pr gu mem have "lowered rk S s t a rest g'" by fastforce
  then obtain news k rest' where l: "s_gos t = s_gos s @ news" "keeps s t" "within S t" "g' = k @ rest'"
    "rest' = rest \<or> rest' = []" and gn: "guarded (a # rest) \<longrightarrow> guarded g'" "\<forall>q \<in> set news. guarded q"
    and cr: "s_crashed t = s_crashed s" and l6:
    "\<forall>x \<in> set k \<union> set (concat news). prompt x \<and> (weight rk (s_heap t) x, weight rk (s_heap s) a) \<in> lighter"
    unfolding lowered_def by blast
  note l = l l6
  have ok: "s_crashed s' = None" using cr step(4) by (simp add: s')
  have new: "mset (concat (s_gos s')) = mset k + mset rest' + mset (concat news) + ?B"
    using step(2) l(1,4) concat_update [OF step(2), of g'] by (simp add: s' list_update_append1 ac_simps)
  have h: "s_heap s' = s_heap t" "s_engines s' = s_engines t" by (simp_all add: s')
  have "tinv S s'"
  proof -
    have "inv S s'" using inv_step [OF S(1) _ st] inv ok by (auto simp: tinv_def)
    moreover have "within S s'" using l(3) within_cong [OF h(2)] by simp
    moreover have "prompt x" if "x \<in># mset (concat (s_gos s'))" for x
    proof -
      have "\<forall>x \<in># mset (concat (s_gos s)). prompt x" using pr by auto
      then have "\<forall>x \<in># mset (a # rest) + ?B. prompt x" unfolding old .
      then have b: "x \<in># ?B \<Longrightarrow> prompt x" and r: "x \<in> set rest' \<Longrightarrow> prompt x" using l(5) by auto
      from that have "x \<in> set k \<union> set (concat news) \<or> x \<in> set rest' \<or> x \<in># ?B" unfolding new by auto
      with l(6) b r show ?thesis by blast
    qed
    moreover have "guarded q" if "q \<in> set (s_gos s')" for q
    proof -
      have "q = g' \<or> q \<in> set (s_gos s) \<or> q \<in> set news"
        using that l(1) set_update_subset_insert [of "s_gos t" i g'] by (auto simp: s')
      with gn gu mem show ?thesis by blast
    qed
    ultimately show ?thesis by (auto simp: tinv_def)
  qed
  moreover have "(burden rk s', burden rk s) \<in> mult lighter"
  proof -
    let ?f = "weight rk (s_heap s)" and ?f' = "weight rk (s_heap t)"
    have n: "0 < length (s_heap s)" using L by (simp add: inv_at_def)
    have gs: "\<forall>g \<in> set ?gs. wf_go S (s_heap s) g"
      using wf set_update_subset_insert [of "s_gos s" i "[]"] by fastforce
    have rst: "wf_go S (s_heap s) rest'" using wf mem l(5) by fastforce
    have "burden rk s' = (image_mset ?f ?B + image_mset ?f (mset rest')) + image_mset ?f' (mset k + mset (concat news))"
      unfolding burden_def new h using weights_keep_all [OF gs n l(2)] weights_keep [OF rst n l(2)] by (simp add: ac_simps)
    moreover have "burden rk s = (image_mset ?f ?B + image_mset ?f (mset rest')) +
        (add_mset (?f a) (if rest' = rest then {#} else image_mset ?f (mset rest)))"
      unfolding burden_def old using l(5) by (auto simp: ac_simps)
    moreover have "\<forall>x \<in># image_mset ?f' (mset k + mset (concat news)). (x, ?f a) \<in> lighter" using l(6) by auto
    ultimately show ?thesis by (simp only:) (rule one_step_implies_mult, simp, fastforce)
  qed
  ultimately show ?thesis ..
qed

text \<open>An engine whose chain has no cycle, whose relation cache agrees with its connections, and whose
  nodes never put a message off.\<close>

definition acyclic_engine :: "('n, 'w) env \<Rightarrow> ('n, 'w) RuleEngine \<Rightarrow> bool" where
  "acyclic_engine E e =
     (\<exists>rc. re_root e = Some rc \<and> acyclic (edges (rc_nodeRoutes rc)) \<and> cache_within rc \<and> nodes_prompt E (rc_nodes rc))"

lemma start_tinv:
  assumes "linear_engine E e" "acyclic_engine E e" "Get g key = Some e" "user_end endFunc" "user_done doneFunc"
    and "step E (started key msg wait endFunc doneFunc g w) s"
  obtains S where "spec_ok E S" "tinv S s" "nodes_prompt E (rs_nodes S)" "acyclic (edges (rs_routes S))"
proof -
  from start_inv [OF assms(1,3-6)] obtain S m where S: "spec_ok E S" "inv S s" "rs_key S = key" "s_engines s = g"
    "set (concat (s_gos s)) \<subseteq> {IAwait 0, IFirst 0 m None}" by blast
  from assms(2) obtain rc where rc: "re_root e = Some rc" "acyclic (edges (rc_nodeRoutes rc))" "cache_within rc"
    "nodes_prompt E (rc_nodes rc)" by (auto simp: acyclic_engine_def)
  from S(2) have "chain_inv S s" by (auto simp: inv_def inv_at_def)
  with S(3,4) assms(3) rc(1) have n: "rc_nodes rc = rs_nodes S" "rc_nodeRoutes rc = rs_routes S" by (auto simp: chain_inv_def)
  have "within S s" using S(3,4) assms(3) rc n by (simp add: within_def)
  moreover have "prompt x \<and> \<not> risky x" if "x \<in> set q" "q \<in> set (s_gos s)" for x q
  proof -
    from that S(5) have "x = IAwait 0 \<or> x = IFirst 0 m None" by auto
    then show ?thesis by auto
  qed
  then have "\<forall>q \<in> set (s_gos s). guarded q \<and> (\<forall>x \<in> set q. prompt x)"
    using guarded_plain [of _ "[]"] by (metis append_Nil2 guarded.simps(1))
  ultimately have "tinv S s" using S(2) by (simp add: tinv_def)
  with that S(1) rc n show ?thesis by simp
qed

lemma no_endless_run:
  assumes "linear_engine E e" "acyclic_engine E e" "Get g key = Some e" "user_end endFunc" "user_done doneFunc"
  shows "\<nexists>f. f 0 = started key msg wait endFunc doneFunc g w \<and> (\<forall>i. step E (f i) (f (Suc i)))"
proof
  assume "\<exists>f. f 0 = started key msg wait endFunc doneFunc g w \<and> (\<forall>i. step E (f i) (f (Suc i)))"
  then obtain f where f: "f 0 = started key msg wait endFunc doneFunc g w" "\<And>i. step E (f i) (f (Suc i))" by blast
  have "step E (started key msg wait endFunc doneFunc g w) (f 1)" using f(2) [of 0] f(1) by simp
  from start_tinv [OF assms this] obtain S where S: "spec_ok E S" "tinv S (f 1)" "nodes_prompt E (rs_nodes S)"
    "acyclic (edges (rs_routes S))" by blast
  let ?rk = "height (edges (rs_routes S))"
  have rk: "(a, b) \<in> edges (rs_routes S) \<Longrightarrow> ?rk b < ?rk a" for a b by (rule height_less [OF finite_edges S(4)])
  have st: "tinv S (f (Suc i)) \<and> (burden ?rk (f (Suc i)), burden ?rk (f i)) \<in> mult lighter" if "tinv S (f i)" for i
    by (rule burden_step [OF S(1,3) rk that f(2)])
  have t: "tinv S (f (Suc i))" for i
  proof (induction i)
    case 0
    then show ?case using S(2) by simp
  next
    case (Suc i)
    from st [OF this] show ?case by blast
  qed
  define b where "b i = burden ?rk (f (Suc i))" for i
  have "(b (Suc i), b i) \<in> mult lighter" for i
    using st [OF t [of i]] by (simp add: b_def)
  moreover have "wf (mult lighter)" by (rule wf_mult [OF wf_lighter])
  ultimately show False using wf_iff_no_infinite_down_chain by blast
qed

lemma no_crash:
  assumes "linear_engine E e" "acyclic_engine E e" "Get g key = Some e" "user_end endFunc" "user_done doneFunc"
    and "(step E)\<^sup>*\<^sup>* (started key msg wait endFunc doneFunc g w) s"
  shows "s_crashed s = None"
proof -
  have "s = started key msg wait endFunc doneFunc g w \<or>
      (\<exists>S. spec_ok E S \<and> tinv S s \<and> nodes_prompt E (rs_nodes S) \<and> acyclic (edges (rs_routes S)))"
    using assms(6)
  proof (induction rule: rtranclp_induct)
    case (step s s')
    from step.IH show ?case
    proof
      assume "s = started key msg wait endFunc doneFunc g w"
      with start_tinv [OF assms(1-5)] step(2) show ?thesis by metis
    next
      assume "\<exists>S. spec_ok E S \<and> tinv S s \<and> nodes_prompt E (rs_nodes S) \<and> acyclic (edges (rs_routes S))"
      then obtain S where S: "spec_ok E S" "tinv S s" "nodes_prompt E (rs_nodes S)" "acyclic (edges (rs_routes S))" by blast
      have "\<And>a b. (a, b) \<in> edges (rs_routes S) \<Longrightarrow> height (edges (rs_routes S)) b < height (edges (rs_routes S)) a"
        by (rule height_less [OF finite_edges S(4)])
      then have "tinv S s'" using burden_step [OF S(1,3) _ S(2) step(2)] by blast
      with S show ?thesis by blast
    qed
  qed simp
  then show ?thesis by (auto simp: tinv_def inv_def started_def spawn_def init_sys_def)
qed

lemma total_run:
  assumes "linear_engine E e" and "acyclic_engine E e" and "Get g key = Some e"
    and "user_end endFunc" and "user_done doneFunc"
  shows "(\<nexists>f. f 0 = OnMsgAndWait key msg endFunc doneFunc (init_sys g w) \<and> (\<forall>i. step E (f i) (f (Suc i)))) \<and>
    (\<forall>s. (step E)\<^sup>*\<^sup>* (OnMsgAndWait key msg endFunc doneFunc (init_sys g w)) s \<longrightarrow>
       s_crashed s = None \<and>
       ((\<nexists>s'. step E s s') \<longrightarrow> count_list (s_trace s) (EvCompleted key 0) = 1 \<and> (\<forall>g \<in> set (s_gos s). g = [])))"
proof (intro conjI allI impI)
  show "\<nexists>f. f 0 = OnMsgAndWait key msg endFunc doneFunc (init_sys g w) \<and> (\<forall>i. step E (f i) (f (Suc i)))"
    unfolding OnMsg_started by (rule no_endless_run [OF assms])
  fix s
  assume r: "(step E)\<^sup>*\<^sup>* (OnMsgAndWait key msg endFunc doneFunc (init_sys g w)) s"
  show c: "s_crashed s = None" by (rule no_crash [OF assms r [unfolded OnMsg_started]])
  assume stuck: "\<nexists>s'. step E s s'"
  have "\<forall>g \<in> set (s_gos s). \<not> runnable s g"
  proof
    fix g
    assume "g \<in> set (s_gos s)"
    then obtain i where "i < length (s_gos s)" "s_gos s ! i = g" by (metis in_set_conv_nth)
    with stuck c step.intros [of i s E] show "\<not> runnable s g" by blast
  qed
  with completes_once [OF assms(1,3-5) r c]
  show "count_list (s_trace s) (EvCompleted key 0) = 1" "\<forall>g \<in> set (s_gos s). g = []" by blast+
qed

text \<open>C2: a message given to an engine with \<open>OnMsgAndWait\<close>, on a chain without cycles, without fan-out
  (no node has two connections of the same relation type) and without connections to sub rule
  chains, with a pool that takes every task, around aspects that leave calling the node to the engine, and nodes
  that answer every message with exactly one
  call of the context, on one relation, or panic before it, and do not put messages off, and with no other message under way: there is no endless run, however the goroutines are
  scheduled, and no run crashes, whatever panics the nodes raise. Every run therefore comes to a
  state where nothing can move, and there the completion callback has run exactly once, no
  goroutine is left and the caller has returned.\<close>

theorem OnMsgAndWait_terminates:
  assumes "linear_engine E e" and "acyclic_engine E e" and "Get g key = Some e"
    and "user_end endFunc" and "user_done doneFunc"
  shows "(\<nexists>f. f 0 = OnMsgAndWait key msg endFunc doneFunc (init_sys g w) \<and> (\<forall>i. step E (f i) (f (Suc i)))) \<and>
    (\<forall>s. (step E)\<^sup>*\<^sup>* (OnMsgAndWait key msg endFunc doneFunc (init_sys g w)) s \<longrightarrow>
       s_crashed s = None \<and>
       ((\<nexists>s'. step E s s') \<longrightarrow> count_list (s_trace s) (EvCompleted key 0) = 1 \<and> (\<forall>g \<in> set (s_gos s). g = [])))"
  by (rule total_run [OF assms])

lemma demo_acyclic: "acyclic_engine demo_env demo_run"
proof -
  have "edges (rc_nodeRoutes demo_rc) \<subseteq> {(node_id ''s1'', node_id ''node1'')}"
    by (auto simp: edges_def demo_routes split: if_splits)
  moreover have "acyclic {(node_id ''s1'', node_id ''node1'')}" by (simp add: acyclic_insert) (simp add: acyclic_def)
  ultimately have "acyclic (edges (rc_nodeRoutes demo_rc))" by (rule acyclic_subset [rotated])
  moreover have "cache_within demo_rc" by (simp add: cache_within_def demo_rc_simps)
  moreover have "nodes_prompt demo_env (rc_nodes demo_rc)"
    by (auto simp: nodes_prompt_def demo_env_def demo_ops_def TellSuccess_def)
  ultimately show ?thesis by (simp add: acyclic_engine_def demo_run_def)
qed

theorem OnMsgAndWait_terminates_witness:
  "\<nexists>f. f 0 = OnMsgAndWait ''rule01'' demo_msg None None (init_sys [(''rule01'', demo_run)] ()) \<and>
      (\<forall>i. step demo_env (f i) (f (Suc i)))"
  using OnMsgAndWait_terminates [OF demo_linear demo_acyclic, of "[(''rule01'', demo_run)]" "''rule01''" None None demo_msg "()"]
  by (simp add: demo_env_def Get_def user_end_def user_done_def)

end
