(* ===== verification/Builtin.thy ===== *)
theory Builtin
  imports FilterNodes TransformNodes ActionNodes Termination
begin

text \<open>
  The built-in components inside the engine: the nodes of a chain are instances of the script,
  expression and field components, and the methods of the chain's nodes are those of the
  components. A component with a script owns a pool of runtimes, which the world keeps under the
  number of the instance; the world also decides which pooled runtime a call gets.
\<close>

record 'vm script_world =
  sw_vms :: "nat \<Rightarrow> 'vm list"
  sw_pick :: "nat \<Rightarrow> nat option"
  sw_calls :: nat
  sw_log :: "string list"

datatype ('p, 'q, 'w) builtin =
    JsFilter nat "('p, 'w) JsFilterNode"
  | JsSwitch nat "('p, 'w) JsSwitchNode"
  | ExprFilter "'q ExprFilterNode"
  | FieldFilter FieldFilterNode
  | MsgTypeSwitch
  | Log nat "('p, 'w) LogNode"
  | JsTransform nat "('p, 'w) JsTransformNode"
  | ExprTransform "'q ExprTransformNode"

definition with_vms ::
  "nat \<Rightarrow> (nat option \<Rightarrow> 'vm list \<Rightarrow> 'a \<times> 'vm list) \<Rightarrow> 'vm script_world \<Rightarrow> 'a \<times> 'vm script_world" where
  "with_vms k f w =
     (case f (sw_pick w (sw_calls w)) (sw_vms w k) of
        (res, vms) \<Rightarrow> (res, w\<lparr>sw_vms := (sw_vms w)(k := vms), sw_calls := Suc (sw_calls w)\<rparr>))"

text \<open>\<open>OnMsg\<close> of each component.\<close>

fun builtin_OnMsg ::
  "go_env \<Rightarrow> ('p, 'vm) goja \<Rightarrow> 'q expr_lang \<Rightarrow> ('p, 'q, 'w) builtin \<Rightarrow> RuleMsg \<Rightarrow> 'vm script_world
     \<Rightarrow> node_result \<times> 'vm script_world" where
  "builtin_OnMsg env J X (JsFilter k x) msg w = with_vms k (\<lambda>pick. JsFilterNode_OnMsg env J x pick msg) w"
| "builtin_OnMsg env J X (JsSwitch k x) msg w = with_vms k (\<lambda>pick. JsSwitchNode_OnMsg env J x pick msg) w"
| "builtin_OnMsg env J X (ExprFilter x) msg w = (ExprFilterNode_OnMsg env X x msg, w)"
| "builtin_OnMsg env J X (FieldFilter x) msg w = (FieldFilterNode_OnMsg env x msg, w)"
| "builtin_OnMsg env J X MsgTypeSwitch msg w = (MsgTypeSwitchNode_OnMsg msg, w)"
| "builtin_OnMsg env J X (Log k x) msg w =
     (case with_vms k (\<lambda>pick vms. case LogNode_OnMsg env J x pick msg vms of ((res, vms), ls) \<Rightarrow> ((res, ls), vms)) w of
        ((res, ls), w) \<Rightarrow> (res, w\<lparr>sw_log := sw_log w @ ls\<rparr>))"
| "builtin_OnMsg env J X (JsTransform k x) msg w = with_vms k (\<lambda>pick. JsTransformNode_OnMsg env J x pick msg) w"
| "builtin_OnMsg env J X (ExprTransform x) msg w = (ExprTransformNode_OnMsg env X x msg, w)"

fun is_switch :: "('p, 'q, 'w) builtin \<Rightarrow> bool" where
  "is_switch (JsSwitch _ _) = True"
| "is_switch _ = False"

text \<open>A component answers with one call over one relation, or panics before any call.\<close>

definition answers :: "node_result \<Rightarrow> bool" where
  "answers res = (case res of (calls, None) \<Rightarrow> (\<exists>msg err r. calls = [CTell msg err (Some [r])]) | (calls, Some _) \<Rightarrow> calls = [])"

lemma answers_simps [simp]:
  "answers nil_panic" "answers ([TellFailure msg err], None)" "answers ([TellSuccess msg], None)"
  "answers ([TellNext msg (Some [r])], None)" "answers (tell_bool msg b, None)"
  by (simp_all add: answers_def nil_panic_def TellFailure_def TellSuccess_def TellNext_def tell_bool_def)

lemma apply_format_answers [simp]: "answers (apply_format env fd msg, None)"
  by (simp add: apply_format_def Let_def split: option.splits prod.splits)

lemma node_answers:
  "answers (fst (JsFilterNode_OnMsg env J x pick msg vms))"
  "answers (ExprFilterNode_OnMsg env X xe msg)"
  "answers (FieldFilterNode_OnMsg env xf msg)"
  "answers (MsgTypeSwitchNode_OnMsg msg)"
  "answers (fst (fst (LogNode_OnMsg env J xl pick msg vms)))"
  "answers (fst (JsTransformNode_OnMsg env J xt pick msg vms))"
  "answers (ExprTransformNode_OnMsg env X xr msg)"
  by (simp_all add: JsFilterNode_OnMsg_def ExprFilterNode_OnMsg_def FieldFilterNode_OnMsg_def MsgTypeSwitchNode_OnMsg_def
      LogNode_OnMsg_def JsTransformNode_OnMsg_def ExprTransformNode_OnMsg_def Let_def
      split: option.splits sum.splits prod.splits go_val.splits)

lemma with_vms_fst: "fst (with_vms k f w) = fst (f (sw_pick w (sw_calls w)) (sw_vms w k))"
  by (simp add: with_vms_def split: prod.splits)

lemma builtin_answers: "\<not> is_switch x \<Longrightarrow> answers (fst (builtin_OnMsg env J X x msg w))"
proof (cases x)
  case (Log k y)
  obtain res vms ls where l: "LogNode_OnMsg env J y (sw_pick w (sw_calls w)) msg (sw_vms w k) = ((res, vms), ls)"
    by (metis prod.collapse)
  with node_answers(5) [of env J y "sw_pick w (sw_calls w)" msg "sw_vms w k"] Log show ?thesis
    by (simp add: with_vms_def)
qed (simp_all add: with_vms_fst node_answers)

lemma answers_linear: "answers res \<Longrightarrow> linear_result res"
  by (auto simp: answers_def linear_result_def split: prod.splits option.splits)

lemma answers_prompt: "answers res \<Longrightarrow> call \<in> set (fst res) \<Longrightarrow> \<not> defers call"
  by (auto simp: answers_def split: prod.splits option.splits)

text \<open>The methods of the nodes of a chain of built-in components.\<close>

definition builtin_env ::
  "go_env \<Rightarrow> ('p, 'vm) goja \<Rightarrow> 'q expr_lang \<Rightarrow> (('p, 'q, 'vm script_world) builtin, 'vm script_world) env \<Rightarrow> bool" where
  "builtin_env env J X E = (\<forall>x v msg w. n_OnMsg (env_ops E) x v msg w = builtin_OnMsg env J X x msg w)"

lemma builtin_nodes:
  assumes "builtin_env env J X E" and "\<forall>nid c. map_of N nid = Some c \<longrightarrow> \<not> is_switch (nc_Node c)"
  shows "nodes_linear E N" "nodes_prompt E N"
proof -
  have a: "answers (fst (n_OnMsg (env_ops E) (nc_Node c) v m w))" if "map_of N nid = Some c" for nid c v m w
  proof -
    from assms(2) that have "\<not> is_switch (nc_Node c)" by blast
    then show ?thesis using assms(1) builtin_answers unfolding builtin_env_def by metis
  qed
  from a show "nodes_linear E N" by (simp add: nodes_linear_def answers_linear)
  from a show "nodes_prompt E N" unfolding nodes_prompt_def using answers_prompt by blast
qed

text \<open>A chain of built-in components as \<open>InitRuleChainCtx\<close> leaves it: its root is one of its nodes, its
  connections lead to nodes, at most one for each relation type of a node, and have no cycle, its cache is empty, it has no around advice, and
  its configuration has no worker pool.\<close>

definition builtin_engine :: "('n, 'w) env \<Rightarrow> ('n, 'w) RuleEngine \<Rightarrow> ('n \<Rightarrow> bool) \<Rightarrow> bool" where
  "builtin_engine E e P =
     (\<exists>rc nid. re_root e = Some rc \<and> rc_root rc = Some (NodeRef nid) \<and> map_of (rc_nodes rc) nid \<noteq> None \<and>
        (\<forall>nid c. map_of (rc_nodes rc) nid = Some c \<longrightarrow> P (nc_Node c)) \<and>
        routes_ok (rc_nodeRoutes rc) \<and> acyclic (edges (rc_nodeRoutes rc)) \<and> rc_relationCache rc = [] \<and>
        fst (snd (GetNodeAspects (env_sort E) (rc_rootConfig rc))) = [] \<and> cfg_Pool (rc_rootConfig rc) = None)"

lemma simple_engine_total:
  assumes "builtin_engine E e P" "Get g key = Some e" "user_end endFunc" "user_done doneFunc"
    and nodes: "\<And>N. \<forall>nid c. map_of N nid = Some c \<longrightarrow> P (nc_Node c) \<Longrightarrow> nodes_linear E N \<and> nodes_prompt E N"
  shows "(\<nexists>f. f 0 = OnMsgAndWait key msg endFunc doneFunc (init_sys g w) \<and> (\<forall>i. step E (f i) (f (Suc i)))) \<and>
    (\<forall>s. (step E)\<^sup>*\<^sup>* (OnMsgAndWait key msg endFunc doneFunc (init_sys g w)) s \<longrightarrow>
       s_crashed s = None \<and>
       ((\<nexists>s'. step E s s') \<longrightarrow> count_list (s_trace s) (EvCompleted key 0) = 1 \<and> (\<forall>g \<in> set (s_gos s). g = [])))"
proof -
  from assms(1) obtain rc nid where rc: "re_root e = Some rc" "rc_root rc = Some (NodeRef nid)" "map_of (rc_nodes rc) nid \<noteq> None"
    "\<forall>nid c. map_of (rc_nodes rc) nid = Some c \<longrightarrow> P (nc_Node c)" "routes_ok (rc_nodeRoutes rc)"
    "acyclic (edges (rc_nodeRoutes rc))" "rc_relationCache rc = []"
    "fst (snd (GetNodeAspects (env_sort E) (rc_rootConfig rc))) = []" "cfg_Pool (rc_rootConfig rc) = None"
    unfolding builtin_engine_def by blast
  note N = nodes [OF rc(4)]
  have lin: "linear_engine E e" unfolding linear_engine_def using rc N by (auto simp: accepts_def)
  have acy: "acyclic_engine E e" unfolding acyclic_engine_def using rc N by (auto simp: cache_within_def)
  show ?thesis by (rule total_run [OF lin acy assms(2-4)])
qed


section \<open>Concrete chains\<close>

text \<open>The chain of the examples before with built-in components as its nodes.\<close>

type_synonym demo_builtin = "(string, string, string list script_world) builtin"

definition true_lang :: "string expr_lang" where
  "true_lang = \<lparr>ex_Compile = (\<lambda>s _. Inr s),
     ex_Run = (\<lambda>p _. case p of None \<Rightarrow> Inl ''nil program'' | Some s \<Rightarrow> Inr (GBool (s = ''true'')))\<rparr>"

definition builtin_ops ::
  "(string, string list) goja \<Rightarrow> (demo_builtin, string list script_world) node_ops" where
  "builtin_ops J = \<lparr>n_Init = (\<lambda>x _ _. Inr x), n_OnMsg = (\<lambda>x _. builtin_OnMsg plain_env J true_lang x), n_Destroy = (\<lambda>_ w. w),
     n_OnEnd = (\<lambda>_ _ _ _ _ w. ([], w)), n_OnDone = (\<lambda>_ _ w. ([], w))\<rparr>"

definition builtin_demo_env :: "(string, string list) goja \<Rightarrow> (demo_builtin, string list script_world) env" where
  "builtin_demo_env J = \<lparr>env_ops = builtin_ops J, env_sort = sort_Slice, env_now = (\<lambda>_. 1), env_uuid = (\<lambda>_. ''u'')\<rparr>"

definition builtin_rc :: "demo_builtin \<Rightarrow> (demo_builtin, string list script_world) RuleChainCtx" where
  "builtin_rc x = (case InitRuleChainCtx (builtin_ops toy_goja) \<lparr>reg_components = Some [(''log'', \<lparr>cmp_Type = ''log'', cmp_New = x\<rparr>)], reg_plugins = None\<rparr>
       sort_Slice demo_pool (types_NewConfig []) demo_plain of Inr rc \<Rightarrow> rc)"

definition builtin_demo_engine :: "demo_builtin \<Rightarrow> (demo_builtin, string list script_world) RuleEngine" where
  "builtin_demo_engine x = \<lparr>re_Id = ''rule01'', re_Config = types_NewConfig [], re_RuleChainPool = DefaultRuleGo,
     re_root = Some (builtin_rc x), re_startAspects = [], re_endAspects = [], re_completedAspects = []\<rparr>"

lemmas init_defs = InitRuleChainCtx_def Let_def demo_plain_def demo_defs InitRuleNodeCtx_def NewNode_def
  processGlobalPlaceholders_def types_NewConfig_def NewMetadata_def GetEngineAspects_def
  GetFirstNode_def GetNodeByIndex_def GetNodeById_def sort_Slice_def defaultNodeIdPrefix_def builtin_ops_def

lemma builtin_rc_simps:
  "rc_relationCache (builtin_rc x) = []" "rc_rootConfig (builtin_rc x) = types_NewConfig []"
  "rc_root (builtin_rc x) = Some (NodeRef (node_id ''s1''))" "map_of (rc_nodes (builtin_rc x)) (node_id ''s1'') \<noteq> None"
  "map_of (rc_nodes (builtin_rc x)) nid = Some c \<Longrightarrow> nc_Node c = x"
  by (auto simp: builtin_rc_def init_defs split: if_splits)

lemma builtin_rc_routes: "rc_nodeRoutes (builtin_rc x) = rc_nodeRoutes demo_rc"
proof -
  have "InitRuleChainCtx (builtin_ops toy_goja) \<lparr>reg_components = Some [(''log'', \<lparr>cmp_Type = ''log'', cmp_New = x\<rparr>)], reg_plugins = None\<rparr>
      sort_Slice demo_pool (types_NewConfig []) demo_plain = Inr (builtin_rc x)"
    unfolding builtin_rc_def by (simp add: init_defs)
  from Init_routes [OF this] Init_routes [OF demo_init2] show ?thesis by simp
qed

lemma builtin_demo:
  assumes "P x"
  shows "builtin_engine (builtin_demo_env J) (builtin_demo_engine x) P"
proof -
  have "routes_ok (rc_nodeRoutes demo_rc)" "acyclic (edges (rc_nodeRoutes demo_rc))"
    using demo_linear demo_acyclic by (auto simp: linear_engine_def acyclic_engine_def demo_run_def)
  with assms show ?thesis
    unfolding builtin_engine_def builtin_demo_engine_def
    by (intro exI [of _ "builtin_rc x"] exI [of _ "node_id ''s1''"])
       (auto simp: builtin_rc_simps(1-4) builtin_rc_routes dest: builtin_rc_simps(5)
        simp: GetNodeAspects_def types_NewConfig_def builtin_demo_env_def sort_Slice_def)
qed

definition start_world :: "string list script_world" where
  "start_world = \<lparr>sw_vms = (\<lambda>_. []), sw_pick = (\<lambda>_. None), sw_calls = 0, sw_log = []\<rparr>"


text \<open>A script switch whose script returns an empty array.\<close>

definition empty_goja :: "(string, string list) goja" where
  "empty_goja = toy_goja\<lparr>gj_AssertFunction := (\<lambda>_ _. True), gj_Call := (\<lambda>_ args vm. (JsOk (GSlice []), args, vm))\<rparr>"

definition empty_switch :: demo_builtin where
  "empty_switch = JsSwitch 0 (JsSwitchNode_New\<lparr>jw_jsEngine :=
     Some \<lparr>js_config = types_NewConfig [], js_jsScript = [], js_jsUdfProgramCache = [], js_fromVars = []\<rparr>\<rparr>)"

definition empty_end :: "(demo_builtin, string list script_world) sys" where
  "empty_end = run (builtin_demo_env empty_goja) ([0] @ replicate 10 1)
     (OnMsgAndWait ''rule01'' demo_msg None None (init_sys [(''rule01'', builtin_demo_engine empty_switch)] start_world))"

text \<open>a script switch that returns an empty array makes no call at all: its branch never ends,
  the completion callback never runs and \<open>OnMsgAndWait\<close> does not return.\<close>

theorem empty_switch_hangs:
  "hung empty_end \<and> EvCompleted ''rule01'' 0 \<notin> set (s_trace empty_end)"
  by code_simp

end
