(* ===== verification/Endpoint.thy ===== *)
theory Endpoint
  imports Run
begin

text \<open>
  The endpoint module (\<open>endpoint/endpoint.go\<close>): routers that take a message from an input source
  through interceptors and processors to a rule chain or a component. A router owns its \<open>From\<close>, a
  \<open>From\<close> its \<open>To\<close>; the back pointers of the code are arguments here. A processor is a function on
  the exchange: the router it is also given is a constant of the application that it may read
  but does not rebuild. What a \<open>To\<close> starts is returned as a value and handed to the engine of \<open>Run\<close>.
\<close>

section \<open>Messages and processors\<close>

text \<open>The part of the \<open>Message\<close> interface the module itself uses. \<open>GetMsg\<close> may create the message.\<close>

record 'm message_ops =
  mo_GetMsg :: "'m \<Rightarrow> RuleMsg option \<times> 'm"
  mo_SetMsg :: "RuleMsg \<Rightarrow> 'm \<Rightarrow> 'm"
  mo_SetError :: "error \<Rightarrow> 'm \<Rightarrow> 'm"

record 'm Exchange =
  ex_In :: 'm
  ex_Out :: 'm

type_synonym 'm Process = "'m Exchange \<Rightarrow> bool \<times> 'm Exchange"

text \<open>The loop that calls processors until one returns false.\<close>

fun run_processes :: "'m Process list \<Rightarrow> 'm Exchange \<Rightarrow> bool \<times> 'm Exchange" where
  "run_processes [] ex = (True, ex)"
| "run_processes (process # ps) ex =
     (case process ex of (ok, ex) \<Rightarrow> if \<not> ok then (False, ex) else run_processes ps ex)"

section \<open>Executors\<close>

definition pathKey :: string where "pathKey = ''_path''"

text \<open>The two executors of the module, and executors that the application registers, whose methods
  are given by \<open>exec_ops\<close>.\<close>

datatype ('n, 'w) executor =
    ChainExecutor
  | ComponentExecutor "'n option" "'w Config option"
  | OtherExecutor nat

record 'w exec_ops =
  eo_IsPathSupportVar :: "nat \<Rightarrow> bool"
  eo_Init :: "nat \<Rightarrow> 'w Config \<Rightarrow> Configuration \<Rightarrow> error option"

fun executor_New :: "('n, 'w) executor \<Rightarrow> ('n, 'w) executor" where
  "executor_New ChainExecutor = ChainExecutor"
| "executor_New (ComponentExecutor _ _) = ComponentExecutor None None"
| "executor_New (OtherExecutor k) = OtherExecutor k"

fun IsPathSupportVar :: "'w exec_ops \<Rightarrow> ('n, 'w) executor \<Rightarrow> bool" where
  "IsPathSupportVar X ChainExecutor = True"
| "IsPathSupportVar X (ComponentExecutor _ _) = False"
| "IsPathSupportVar X (OtherExecutor k) = eo_IsPathSupportVar X k"

definition ComponentExecutor_Init ::
  "go_env \<Rightarrow> ('n, 'w) node_ops \<Rightarrow> 'n RuleComponentRegistry \<Rightarrow> 'w Config \<Rightarrow> Configuration option \<Rightarrow> error + ('n, 'w) executor" where
  "ComponentExecutor_Init env ops reg config configuration =
     (case configuration of
        None \<Rightarrow> Inl ''nodeType can't empty''
      | Some c \<Rightarrow>
          (let nodeType = (case map_of c pathKey of Some v \<Rightarrow> ToString env v | None \<Rightarrow> [])
           in case NewNode nodeType reg of
                Inl err \<Rightarrow> Inl err
              | Inr node \<Rightarrow>
                  (case n_Init ops node config c of
                     Inl err \<Rightarrow> Inl err
                   | Inr node \<Rightarrow> Inr (ComponentExecutor (Some node) (Some config)))))"

fun executor_Init ::
  "go_env \<Rightarrow> ('n, 'w) node_ops \<Rightarrow> 'n RuleComponentRegistry \<Rightarrow> 'w exec_ops \<Rightarrow> 'w Config \<Rightarrow> Configuration \<Rightarrow> ('n, 'w) executor
     \<Rightarrow> error + ('n, 'w) executor" where
  "executor_Init env ops reg X config c ChainExecutor = Inr ChainExecutor"
| "executor_Init env ops reg X config c (ComponentExecutor _ _) = ComponentExecutor_Init env ops reg config (Some c)"
| "executor_Init env ops reg X config c (OtherExecutor k) =
     (case eo_Init X k config c of Some err \<Rightarrow> Inl err | None \<Rightarrow> Inr (OtherExecutor k))"

type_synonym ('n, 'w) ExecutorFactory = "(string, ('n, 'w) executor) gomap option"

definition ExecutorFactory_Register :: "string \<Rightarrow> ('n, 'w) executor \<Rightarrow> ('n, 'w) ExecutorFactory \<Rightarrow> ('n, 'w) ExecutorFactory" where
  "ExecutorFactory_Register name executor r = Some (gm_put name executor (gm_of r))"

definition ExecutorFactory_New :: "('n, 'w) ExecutorFactory \<Rightarrow> string \<Rightarrow> ('n, 'w) executor option" where
  "ExecutorFactory_New r name = map_option executor_New (map_of (gm_of r) name)"

definition DefaultExecutorFactory :: "('n, 'w) ExecutorFactory" where
  "DefaultExecutorFactory =
     ExecutorFactory_Register ''component'' (ComponentExecutor None None)
       (ExecutorFactory_Register ''chain'' ChainExecutor None)"

section \<open>Routers\<close>

record ('n, 'w, 'm) To =
  to_HasVars :: bool
  to_Config :: Configuration
  to_To :: string
  to_ToPath :: string
  to_processList :: "'m Process list"
  to_executor :: "('n, 'w) executor option"
  to_wait :: bool

record ('n, 'w, 'm) From =
  fr_Config :: Configuration
  fr_From :: string
  fr_processList :: "'m Process list"
  fr_to :: "('n, 'w, 'm) To option"

record ('n, 'w, 'm) Router =
  rt_from :: "('n, 'w, 'm) From option"
  rt_RuleGo :: nat
  rt_Config :: "'w Config"
  rt_disable :: bool

type_synonym ('n, 'w, 'm) RouterOption = "('n, 'w, 'm) Router \<Rightarrow> ('n, 'w, 'm) Router"

text \<open>A pool is named by a number, 0 for \<open>rulego.DefaultRuleGo\<close>.\<close>

definition WithRuleGo :: "nat \<Rightarrow> ('n, 'w, 'm) RouterOption" where
  "WithRuleGo ruleGo re = re\<lparr>rt_RuleGo := ruleGo\<rparr>"

definition WithRuleConfig :: "'w Config \<Rightarrow> ('n, 'w, 'm) RouterOption" where
  "WithRuleConfig config re = re\<lparr>rt_Config := config\<rparr>"

definition NewRouter :: "('n, 'w, 'm) RouterOption list \<Rightarrow> ('n, 'w, 'm) Router" where
  "NewRouter opts =
     fold (\<lambda>opt r. opt r) opts \<lparr>rt_from = None, rt_RuleGo = 0, rt_Config = NewConfig [], rt_disable = False\<rparr>"

definition FromToString :: "('n, 'w, 'm) Router \<Rightarrow> string" where
  "FromToString r = (case rt_from r of None \<Rightarrow> [] | Some f \<Rightarrow> fr_From f)"

definition merge_configs :: "Configuration list \<Rightarrow> Configuration" where
  "merge_configs configs = fold gm_copy_into configs []"

definition Router_From :: "string \<Rightarrow> Configuration list \<Rightarrow> ('n, 'w, 'm) Router \<Rightarrow> ('n, 'w, 'm) Router" where
  "Router_From from configs r =
     r\<lparr>rt_from := Some \<lparr>fr_Config = merge_configs configs, fr_From = from, fr_processList = [], fr_to = None\<rparr>\<rparr>"

definition Disable :: "bool \<Rightarrow> ('n, 'w, 'm) Router \<Rightarrow> ('n, 'w, 'm) Router" where
  "Disable disable r = (if disable then r\<lparr>rt_disable := True\<rparr> else r\<lparr>rt_disable := False\<rparr>)"

definition IsDisable :: "('n, 'w, 'm) Router \<Rightarrow> bool" where
  "IsDisable r = rt_disable r"

definition From_Transform :: "'m Process \<Rightarrow> ('n, 'w, 'm) From \<Rightarrow> ('n, 'w, 'm) From" where
  "From_Transform transform f = f\<lparr>fr_processList := fr_processList f @ [transform]\<rparr>"

definition From_Process :: "'m Process \<Rightarrow> ('n, 'w, 'm) From \<Rightarrow> ('n, 'w, 'm) From" where
  "From_Process process f = f\<lparr>fr_processList := fr_processList f @ [process]\<rparr>"

definition ExecuteProcess :: "('n, 'w, 'm) From \<Rightarrow> 'm Exchange \<Rightarrow> bool \<times> 'm Exchange" where
  "ExecuteProcess f ex = run_processes (fr_processList f) ex"

text \<open>\<open>From.To\<close>: the panics of the code are errors here. \<open>to[len(executorType)+1:]\<close> is out of range
  when the path has no colon.\<close>

definition From_To ::
  "go_env \<Rightarrow> ('n, 'w) node_ops \<Rightarrow> 'n RuleComponentRegistry \<Rightarrow> 'w exec_ops \<Rightarrow> ('n, 'w) ExecutorFactory \<Rightarrow> 'w Config
     \<Rightarrow> string \<Rightarrow> Configuration list \<Rightarrow> ('n, 'w, 'm) From \<Rightarrow> error + ('n, 'w, 'm) From" where
  "From_To env ops reg X factory config to configs f =
     (let toConfig = merge_configs configs;
          hasVars = (Contains to ''${'' \<and> Contains to ''}'');
          executorType = Split to CHR '':'' ! 0;
          mk = (\<lambda>path c executor.
                  \<lparr>to_HasVars = hasVars, to_Config = c, to_To = to, to_ToPath = path, to_processList = [],
                   to_executor = Some executor, to_wait = False\<rparr>)
      in case ExecutorFactory_New factory executorType of
           Some executor \<Rightarrow>
             (if hasVars \<and> \<not> IsPathSupportVar X executor
              then Inl (''executor='' @ executorType @ '', path not support variables'')
              else if length to < length executorType + 1 then Inl ''slice bounds out of range''
              else
                (let toPath = TrimSpace (drop (length executorType + 1) to);
                     c = gm_put pathKey (GString toPath) toConfig
                 in case executor_Init env ops reg X config c executor of
                      Inl err \<Rightarrow> Inl err
                    | Inr executor \<Rightarrow> Inr (f\<lparr>fr_to := Some (mk toPath c executor)\<rparr>)))
         | None \<Rightarrow> Inr (f\<lparr>fr_to := Some (mk to toConfig ChainExecutor)\<rparr>))"

definition ToComponent :: "'w Config \<Rightarrow> string \<Rightarrow> 'n \<Rightarrow> ('n, 'w, 'm) From \<Rightarrow> ('n, 'w, 'm) From" where
  "ToComponent config nodeType node f =
     f\<lparr>fr_to := Some \<lparr>to_HasVars = False, to_Config = [], to_To = nodeType, to_ToPath = nodeType, to_processList = [],
                      to_executor = Some (ComponentExecutor (Some node) (Some config)), to_wait = False\<rparr>\<rparr>"

definition ToStringByDict :: "('n, 'w, 'm) To \<Rightarrow> (string, string) gomap \<Rightarrow> string" where
  "ToStringByDict t dict = (if to_HasVars t then SprintfDict (to_ToPath t) dict else to_ToPath t)"

definition To_Transform :: "'m Process \<Rightarrow> ('n, 'w, 'm) To \<Rightarrow> ('n, 'w, 'm) To" where
  "To_Transform transform t = t\<lparr>to_processList := to_processList t @ [transform]\<rparr>"

definition To_Process :: "'m Process \<Rightarrow> ('n, 'w, 'm) To \<Rightarrow> ('n, 'w, 'm) To" where
  "To_Process process t = t\<lparr>to_processList := to_processList t @ [process]\<rparr>"

definition Wait :: "('n, 'w, 'm) To \<Rightarrow> ('n, 'w, 'm) To" where
  "Wait t = t\<lparr>to_wait := True\<rparr>"

section \<open>Serving a message\<close>

text \<open>What the \<open>To\<close> side starts: a chain of a pool or a component, with or without waiting.\<close>

datatype ('n, 'w) launch =
    StartChain nat string RuleMsg bool
  | StartComponent 'n "'w Config" RuleMsg bool
  | StartOther nat

text \<open>The end callback of both executors.\<close>

definition end_callback :: "'m message_ops \<Rightarrow> ('n, 'w, 'm) To \<Rightarrow> RuleMsg \<Rightarrow> error option \<Rightarrow> 'm Exchange \<Rightarrow> 'm Exchange" where
  "end_callback mo toFlow msg err ex =
     snd (run_processes (to_processList toFlow)
       (case err of
          Some e \<Rightarrow> ex\<lparr>ex_Out := mo_SetError mo e (ex_Out ex)\<rparr>
        | None \<Rightarrow> ex\<lparr>ex_Out := mo_SetMsg mo msg (ex_Out ex)\<rparr>))"

text \<open>The loop for a chain that is not found: the error is set before every processor.\<close>

fun not_found :: "'m message_ops \<Rightarrow> error \<Rightarrow> 'm Process list \<Rightarrow> 'm Exchange \<Rightarrow> 'm Exchange" where
  "not_found mo e [] ex = ex"
| "not_found mo e (process # ps) ex =
     (case process (ex\<lparr>ex_Out := mo_SetError mo e (ex_Out ex)\<rparr>) of
        (ok, ex) \<Rightarrow> if \<not> ok then ex else not_found mo e ps ex)"

definition ChainExecutor_Execute ::
  "'m message_ops \<Rightarrow> (nat \<Rightarrow> ('n, 'w) RuleGo) \<Rightarrow> ('n, 'w, 'm) Router \<Rightarrow> 'm Exchange \<Rightarrow> 'm Exchange \<times> ('n, 'w) launch option" where
  "ChainExecutor_Execute mo pools router ex =
     (case rt_from router of
        None \<Rightarrow> (ex, None)
      | Some fromFlow \<Rightarrow>
          (case mo_GetMsg mo (ex_In ex) of
             (inMsg, i) \<Rightarrow>
               (let ex = ex\<lparr>ex_In := i\<rparr>
                in case (fr_to fromFlow, inMsg) of
                     (Some toFlow, Some msg) \<Rightarrow>
                       (let toChainId = ToStringByDict toFlow (md_entries (MsgMetadata msg))
                        in case Get (pools (rt_RuleGo router)) toChainId of
                             Some _ \<Rightarrow> (ex, Some (StartChain (rt_RuleGo router) toChainId msg (to_wait toFlow)))
                           | None \<Rightarrow>
                               (not_found mo (''chainId='' @ toChainId @ '' not found error'') (to_processList toFlow) ex, None))
                   | _ \<Rightarrow> (ex, None))))"

definition ComponentExecutor_Execute ::
  "'m message_ops \<Rightarrow> 'n option \<Rightarrow> 'w Config option \<Rightarrow> ('n, 'w, 'm) Router \<Rightarrow> 'm Exchange
     \<Rightarrow> 'm Exchange \<times> ('n, 'w) launch option" where
  "ComponentExecutor_Execute mo component config router ex =
     (case (component, config, rt_from router) of
        (Some node, Some config, Some fromFlow) \<Rightarrow>
          (case mo_GetMsg mo (ex_In ex) of
             (inMsg, i) \<Rightarrow>
               (let ex = ex\<lparr>ex_In := i\<rparr>
                in case (fr_to fromFlow, inMsg) of
                     (Some toFlow, Some msg) \<Rightarrow> (ex, Some (StartComponent node config msg (to_wait toFlow)))
                   | _ \<Rightarrow> (ex, None)))
      | _ \<Rightarrow> (ex, None))"

definition To_Execute ::
  "'m message_ops \<Rightarrow> (nat \<Rightarrow> ('n, 'w) RuleGo) \<Rightarrow> ('n, 'w, 'm) To \<Rightarrow> ('n, 'w, 'm) Router \<Rightarrow> 'm Exchange
     \<Rightarrow> 'm Exchange \<times> ('n, 'w) launch option" where
  "To_Execute mo pools t router ex =
     (case to_executor t of
        None \<Rightarrow> (ex, None)
      | Some ChainExecutor \<Rightarrow> ChainExecutor_Execute mo pools router ex
      | Some (ComponentExecutor node config) \<Rightarrow> ComponentExecutor_Execute mo node config router ex
      | Some (OtherExecutor k) \<Rightarrow> (ex, Some (StartOther k)))"

record 'm BaseEndpoint =
  be_interceptors :: "'m Process list"

definition AddInterceptors :: "'m Process list \<Rightarrow> 'm BaseEndpoint \<Rightarrow> 'm BaseEndpoint" where
  "AddInterceptors interceptors e = e\<lparr>be_interceptors := be_interceptors e @ interceptors\<rparr>"

definition DoProcess ::
  "'m message_ops \<Rightarrow> (nat \<Rightarrow> ('n, 'w) RuleGo) \<Rightarrow> 'm BaseEndpoint \<Rightarrow> ('n, 'w, 'm) Router \<Rightarrow> 'm Exchange
     \<Rightarrow> 'm Exchange \<times> ('n, 'w) launch option" where
  "DoProcess mo pools e router ex =
     (case run_processes (be_interceptors e) ex of
        (False, ex) \<Rightarrow> (ex, None)
      | (True, ex) \<Rightarrow>
          (case rt_from router of
             None \<Rightarrow> (ex, None)
           | Some fromFlow \<Rightarrow>
               (case ExecuteProcess fromFlow ex of
                  (False, ex) \<Rightarrow> (ex, None)
                | (True, ex) \<Rightarrow>
                    (case fr_to fromFlow of
                       Some t \<Rightarrow> To_Execute mo pools t router ex
                     | None \<Rightarrow> (ex, None)))))"


text \<open>Handing a chain that was started to the engine of its pool: callback number \<open>k\<close> is the end
  callback above.\<close>

definition start_chain :: "string \<Rightarrow> RuleMsg \<Rightarrow> bool \<Rightarrow> nat \<Rightarrow> ('n, 'w) sys \<Rightarrow> ('n, 'w) sys" where
  "start_chain key msg wait k s =
     (if wait then OnMsgAndWait key msg (Some (UserEnd k)) None s else OnMsg key msg (Some (UserEnd k)) None s)"

section \<open>Properties\<close>

lemma run_processes_append:
  "run_processes (ps @ qs) ex = (case run_processes ps ex of (ok, ex) \<Rightarrow> if ok then run_processes qs ex else (False, ex))"
  by (induction ps arbitrary: ex) (auto split: prod.splits)

lemma run_processes_false:
  "run_processes ps ex = (False, ex') \<Longrightarrow>
     \<exists>i exi. i < length ps \<and> run_processes (take i ps) ex = (True, exi) \<and> (ps ! i) exi = (False, ex')"
proof (induction ps arbitrary: ex)
  case (Cons p ps)
  obtain ok ex1 where p: "p ex = (ok, ex1)" by force
  show ?case
  proof (cases ok)
    case True
    with Cons.prems p have "run_processes ps ex1 = (False, ex')" by simp
    from Cons.IH [OF this] obtain i exi where "i < length ps" "run_processes (take i ps) ex1 = (True, exi)" "(ps ! i) exi = (False, ex')"
      by blast
    with True p show ?thesis by (intro exI [of _ "Suc i"] exI [of _ exi]) simp
  next
    case False
    with Cons.prems p show ?thesis by (intro exI [of _ 0] exI [of _ ex]) simp
  qed
qed simp

lemma DoProcess_through:
  assumes "rt_from router = Some f"
    and "run_processes (be_interceptors e @ fr_processList f) ex = (ok, ex')"
  shows "DoProcess mo pools e router ex =
    (if ok then (case fr_to f of Some t \<Rightarrow> To_Execute mo pools t router ex' | None \<Rightarrow> (ex', None)) else (ex', None))"
  using assms by (auto simp: DoProcess_def ExecuteProcess_def run_processes_append split: prod.splits if_splits bool.splits)

text \<open>an endpoint is one pipeline. A message goes through the interceptors of the endpoint and the
  processors of the \<open>From\<close> in their order, each on the exchange the one before left; the \<open>To\<close> is
  executed exactly when all of them return true, and the first that returns false is the last one
  called.\<close>

theorem endpoint_pipeline:
  fixes e :: "'m BaseEndpoint" and router :: "('n, 'w, 'm) Router" and f :: "('n, 'w, 'm) From"
  assumes "rt_from router = Some f"
  defines "ps \<equiv> be_interceptors e @ fr_processList f"
  shows "(\<forall>ex'. run_processes ps ex = (True, ex') \<longrightarrow>
            DoProcess mo pools e router ex =
              (case fr_to f of Some t \<Rightarrow> To_Execute mo pools t router ex' | None \<Rightarrow> (ex', None))) \<and>
         (\<forall>ex'. run_processes ps ex = (False, ex') \<longrightarrow>
            DoProcess mo pools e router ex = (ex', None) \<and>
            (\<exists>i exi. i < length ps \<and> run_processes (take i ps) ex = (True, exi) \<and> (ps ! i) exi = (False, ex')))"
proof (intro conjI allI impI)
  fix ex'
  assume ok: "run_processes ps ex = (True, ex')"
  show "DoProcess mo pools e router ex = (case fr_to f of Some t \<Rightarrow> To_Execute mo pools t router ex' | None \<Rightarrow> (ex', None))"
    using DoProcess_through [OF assms(1) ok [unfolded ps_def]] by simp
next
  fix ex'
  assume stop: "run_processes ps ex = (False, ex')"
  show "DoProcess mo pools e router ex = (ex', None)"
    using DoProcess_through [OF assms(1) stop [unfolded ps_def]] by simp
  show "\<exists>i exi. i < length ps \<and> run_processes (take i ps) ex = (True, exi) \<and> (ps ! i) exi = (False, ex')"
    by (rule run_processes_false [OF stop])
qed

definition flag_ops :: "nat message_ops" where
  "flag_ops = \<lparr>mo_GetMsg = (\<lambda>m. (if m = 0 then None
       else Some \<lparr>Ts = 1, MsgId = ''m'', DataType = JSON, MsgType = ''T'', Data = ''{}'', MsgMetadata = Some [(''user'', ''u1'')]\<rparr>, m)),
     mo_SetMsg = (\<lambda>_ m. m), mo_SetError = (\<lambda>_ m. 99)\<rparr>"

definition flag_from :: "(unit, unit, nat) To option \<Rightarrow> (unit, unit, nat) Router" where
  "flag_from t = \<lparr>rt_from = Some \<lparr>fr_Config = [], fr_From = ''/a'', fr_processList = [\<lambda>ex. (True, ex\<lparr>ex_In := 7\<rparr>)], fr_to = t\<rparr>,
     rt_RuleGo = 0, rt_Config = types_NewConfig [], rt_disable = False\<rparr>"

definition refuse :: "nat BaseEndpoint" where
  "refuse = \<lparr>be_interceptors = [\<lambda>ex. (False, ex\<lparr>ex_Out := 1\<rparr>)]\<rparr>"

theorem endpoint_pipeline_witness:
  "DoProcess flag_ops (\<lambda>_. []) refuse (flag_from None) \<lparr>ex_In = 0, ex_Out = 0\<rparr> = (\<lparr>ex_In = 0, ex_Out = 1\<rparr>, None)"
proof -
  let ?f = "the (rt_from (flag_from None))"
  have "rt_from (flag_from None) = Some ?f" by (simp add: flag_from_def)
  from endpoint_pipeline [OF this, of refuse "\<lparr>ex_In = 0, ex_Out = 0\<rparr>" flag_ops "\<lambda>_. []"] show ?thesis
    by (simp add: refuse_def)
qed

lemma Split_first: "c \<notin> set p \<Longrightarrow> Split (p @ c # s) c ! 0 = p"
proof (induction p)
  case (Cons x p)
  then show ?case by (cases "Split (p @ c # s) c") auto
qed simp

lemma Split_none: "c \<notin> set s \<Longrightarrow> Split s c = [s]"
  by (induction s) auto

lemma default_factory:
  "ExecutorFactory_New DefaultExecutorFactory ''chain'' = Some ChainExecutor"
  "ExecutorFactory_New DefaultExecutorFactory ''component'' = Some (ComponentExecutor None None)"
  "t \<noteq> ''chain'' \<Longrightarrow> t \<noteq> ''component'' \<Longrightarrow> ExecutorFactory_New DefaultExecutorFactory t = None"
  by (simp_all add: ExecutorFactory_New_def DefaultExecutorFactory_def ExecutorFactory_Register_def)

definition has_vars :: "string \<Rightarrow> bool" where
  "has_vars p = (Contains p ''${'' \<and> Contains p ''}'')"

lemma has_vars_prefix: "has_vars (''chain:'' @ p) = has_vars p" "has_vars (''component:'' @ p) = has_vars p"
  by (simp_all add: has_vars_def)

lemma To_types:
  "Split (''chain:'' @ p) CHR '':'' ! 0 = ''chain''" "Split (''component:'' @ p) CHR '':'' ! 0 = ''component''"
  using Split_first [of "CHR '':''" "''chain''" p] Split_first [of "CHR '':''" "''component''" p] by simp_all

lemma From_To_chain:
  "\<exists>t. From_To env ops reg X DefaultExecutorFactory config (''chain:'' @ p) configs f = Inr (f\<lparr>fr_to := Some t\<rparr>) \<and>
       to_executor t = Some ChainExecutor \<and> to_ToPath t = TrimSpace p \<and> to_HasVars t = has_vars p"
  using To_types(1) [of p] has_vars_prefix(1) [of p]
  by (simp add: From_To_def Let_def default_factory has_vars_def del: append.simps) (rule exI, intro conjI, rule refl, simp_all)

lemma From_To_component_vars:
  "has_vars p \<Longrightarrow> is_err (From_To env ops reg X DefaultExecutorFactory config (''component:'' @ p) configs f)"
  using To_types(2) [of p] has_vars_prefix(2) [of p]
  by (simp add: From_To_def Let_def default_factory has_vars_def del: append.simps)

lemma From_To_component_unknown:
  assumes "\<not> has_vars p" "NewNode (TrimSpace p) reg = Inl err"
  shows "From_To env ops reg X DefaultExecutorFactory config (''component:'' @ p) configs f = Inl err"
proof -
  have d: "drop (length ''component'' + 1) (''component:'' @ p) = p" by simp
  have v: "(Contains (''component:'' @ p) ''${'' \<and> Contains (''component:'' @ p) ''}'') = False"
    using assms(1) has_vars_prefix(2) [of p] unfolding has_vars_def by blast
  show ?thesis using assms(2)
    by (simp only: From_To_def Let_def default_factory d To_types(2) v)
       (auto simp: ComponentExecutor_Init_def pathKey_def ToString_def)
qed

lemma From_To_other:
  assumes "Split to CHR '':'' ! 0 \<notin> {''chain'', ''component''}"
  shows "\<exists>t. From_To env ops reg X DefaultExecutorFactory config to configs f = Inr (f\<lparr>fr_to := Some t\<rparr>) \<and>
    to_executor t = Some ChainExecutor \<and> to_ToPath t = to"
  using assms by (simp add: From_To_def Let_def default_factory) (rule exI, intro conjI, rule refl, simp_all)

text \<open>where \<open>From.To\<close> leads with the built-in executors. \<open>chain:p\<close> is the chain with the trimmed
  path \<open>p\<close>, which may contain variables; \<open>component:p\<close> panics if \<open>p\<close> contains variables or names no
  registered component; a path of any other type is the id of a chain as a whole, untrimmed; the
  bare words \<open>chain\<close> and \<open>component\<close> panic.\<close>

theorem From_To_targets:
  fixes env :: go_env and ops :: "('n, 'w) node_ops" and reg :: "'n RuleComponentRegistry" and X :: "'w exec_ops"
    and config :: "'w Config" and configs :: "Configuration list" and f :: "('n, 'w, 'm) From"
  defines "target \<equiv> \<lambda>to. From_To env ops reg X DefaultExecutorFactory config to configs f"
  shows "(\<exists>t. target (''chain:'' @ p) = Inr (f\<lparr>fr_to := Some t\<rparr>) \<and> to_executor t = Some ChainExecutor \<and>
            to_ToPath t = TrimSpace p \<and> to_HasVars t = has_vars p) \<and>
         (has_vars p \<longrightarrow> is_err (target (''component:'' @ p))) \<and>
         (\<forall>err. \<not> has_vars p \<and> NewNode (TrimSpace p) reg = Inl err \<longrightarrow> target (''component:'' @ p) = Inl err) \<and>
         (Split p CHR '':'' ! 0 \<notin> {''chain'', ''component''} \<longrightarrow>
            (\<exists>t. target p = Inr (f\<lparr>fr_to := Some t\<rparr>) \<and> to_executor t = Some ChainExecutor \<and> to_ToPath t = p)) \<and>
         is_err (target ''chain'') \<and> is_err (target ''component'')"
proof -
  have "is_err (target ''chain'') \<and> is_err (target ''component'')"
    by (simp add: target_def From_To_def Let_def default_factory Split_none)
  then show ?thesis
    using From_To_chain [of env ops reg X config p configs f] From_To_component_vars [of p env ops reg X config configs f]
      From_To_component_unknown [of p reg _ env ops X config configs f] From_To_other [of p env ops reg X config configs f]
    unfolding target_def by (intro conjI impI allI) (assumption | elim conjE | simp only:)+
qed

definition flag_env :: go_env where
  "flag_env = \<lparr>ge_encode = (\<lambda>_ _. ([], None)), ge_unmarshal = (\<lambda>_. Inl ''eof''), ge_unmarshal_strmap = (\<lambda>_. None),
     ge_format_float = (\<lambda>_ _. [])\<rparr>"

theorem From_To_targets_witness:
  "is_err (From_To flag_env demo_ops demo_reg \<lparr>eo_IsPathSupportVar = (\<lambda>_. True), eo_Init = (\<lambda>_ _ _. None)\<rparr> DefaultExecutorFactory
     (types_NewConfig []) ''component:${x}'' [] \<lparr>fr_Config = [], fr_From = ''/a'', fr_processList = [], fr_to = None\<rparr>)"
proof -
  have "has_vars ''${x}''" by (simp add: has_vars_def)
  moreover have "''component:${x}'' = ''component:'' @ ''${x}''" by simp
  ultimately show ?thesis using From_To_targets [of flag_env demo_ops demo_reg _ "types_NewConfig []" "''${x}''"] by metis
qed

text \<open>a message that passes the processors of a router towards a chain starts exactly the chain
  whose id is the path of the \<open>To\<close> with the metadata of the message filled in, with that message. If
  the pool has no such chain nothing starts: a \<open>To\<close> processor that stops at the error is the last one
  called; without any \<open>To\<close> processor the exchange is as before and the error is lost.\<close>

theorem router_reaches_chain:
  fixes e :: "'m BaseEndpoint" and router :: "('n, 'w, 'm) Router" and pools :: "nat \<Rightarrow> ('n, 'w) RuleGo"
  assumes "rt_from router = Some f" "fr_to f = Some t" "to_executor t = Some ChainExecutor"
    and "run_processes (be_interceptors e @ fr_processList f) ex = (True, ex1)"
    and "mo_GetMsg mo (ex_In ex1) = (Some msg, i)"
  defines "chain \<equiv> ToStringByDict t (md_entries (MsgMetadata msg))"
    and "ex2 \<equiv> ex1\<lparr>ex_In := i\<rparr>"
  shows "DoProcess mo pools e router ex =
    (if Get (pools (rt_RuleGo router)) chain \<noteq> None then (ex2, Some (StartChain (rt_RuleGo router) chain msg (to_wait t)))
     else (not_found mo (''chainId='' @ chain @ '' not found error'') (to_processList t) ex2, None)) \<and>
    (to_processList t = [] \<longrightarrow> not_found mo (''chainId='' @ chain @ '' not found error'') (to_processList t) ex2 = ex2)"
proof -
  have "DoProcess mo pools e router ex = ChainExecutor_Execute mo pools router ex1"
    using DoProcess_through [OF assms(1,4)] assms(2,3) by (simp add: To_Execute_def)
  then show ?thesis using assms(1,2,5) by (auto simp: ChainExecutor_Execute_def Let_def chain_def ex2_def)
qed

definition flag_to :: "(unit, unit, nat) To" where
  "flag_to = \<lparr>to_HasVars = True, to_Config = [], to_To = ''chain:c-${user}'', to_ToPath = ''c-${user}'', to_processList = [],
     to_executor = Some ChainExecutor, to_wait = False\<rparr>"

theorem router_reaches_chain_witness:
  "DoProcess flag_ops (\<lambda>_. []) \<lparr>be_interceptors = []\<rparr> (flag_from (Some flag_to)) \<lparr>ex_In = 0, ex_Out = 0\<rparr> =
     (\<lparr>ex_In = 7, ex_Out = 0\<rparr>, None)"
proof -
  let ?f = "the (rt_from (flag_from (Some flag_to)))" and ?e = "\<lparr>be_interceptors = []\<rparr> :: nat BaseEndpoint"
  have "rt_from (flag_from (Some flag_to)) = Some ?f" "fr_to ?f = Some flag_to" "to_executor flag_to = Some ChainExecutor"
    "run_processes (be_interceptors ?e @ fr_processList ?f) \<lparr>ex_In = 0, ex_Out = 0\<rparr> = (True, \<lparr>ex_In = 7, ex_Out = 0\<rparr>)"
    by (simp_all add: flag_from_def flag_to_def)
  moreover have "mo_GetMsg flag_ops (ex_In \<lparr>ex_In = 7, ex_Out = 0 :: nat\<rparr>) = (Some (the (fst (mo_GetMsg flag_ops 7))), 7)"
    by (simp add: flag_ops_def)
  ultimately show ?thesis
    using router_reaches_chain [of "flag_from (Some flag_to)" ?f flag_to ?e _ "\<lparr>ex_In = 7, ex_Out = 0\<rparr>" flag_ops _ 7 "\<lambda>_. []"]
    by (simp add: Get_def flag_to_def)
qed

end
