(* ===== verification/Routes.thy ===== *)
theory Routes
  imports Endpoint
begin

text \<open>
  What the endpoints have in common: the contract of their routing tables as an interface, and the
  parts of \<open>net/http\<close> that the HTTP and WebSocket endpoints use.
\<close>

section \<open>The contract of a routing table\<close>

text \<open>A table serves a set of keys. Adding a route serves its key, removing it stops serving it, and
  neither touches the other keys. \<open>fits\<close> says which additions the contract covers, \<open>ok\<close> is the
  invariant of the table.\<close>

locale route_set =
  fixes add :: "'k \<Rightarrow> 'r \<Rightarrow> 's \<Rightarrow> 's" and del :: "'k \<Rightarrow> 's \<Rightarrow> 's" and served :: "'s \<Rightarrow> 'k set"
    and valid :: "'k \<Rightarrow> bool" and fits :: "'k \<Rightarrow> 'r \<Rightarrow> 's \<Rightarrow> bool" and ok :: "'s \<Rightarrow> bool"
  assumes served_add: "ok s \<Longrightarrow> valid k \<Longrightarrow> fits k r s \<Longrightarrow> served (add k r s) = insert k (served s)"
    and served_del: "ok s \<Longrightarrow> valid k \<Longrightarrow> served (del k s) = served s - {k}"
    and ok_add: "ok s \<Longrightarrow> valid k \<Longrightarrow> fits k r s \<Longrightarrow> ok (add k r s)"
    and ok_del: "ok s \<Longrightarrow> valid k \<Longrightarrow> ok (del k s)"

datatype ('k, 'r) route_op = AddRoute 'k 'r | DelRoute 'k

fun run_ops :: "('k \<Rightarrow> 'r \<Rightarrow> 's \<Rightarrow> 's) \<Rightarrow> ('k \<Rightarrow> 's \<Rightarrow> 's) \<Rightarrow> ('k, 'r) route_op list \<Rightarrow> 's \<Rightarrow> 's" where
  "run_ops add del [] s = s"
| "run_ops add del (AddRoute k r # ops) s = run_ops add del ops (add k r s)"
| "run_ops add del (DelRoute k # ops) s = run_ops add del ops (del k s)"

fun spec_ops :: "('k, 'r) route_op list \<Rightarrow> 'k set \<Rightarrow> 'k set" where
  "spec_ops [] K = K"
| "spec_ops (AddRoute k r # ops) K = spec_ops ops (insert k K)"
| "spec_ops (DelRoute k # ops) K = spec_ops ops (K - {k})"

fun ops_fit ::
  "('k \<Rightarrow> 'r \<Rightarrow> 's \<Rightarrow> 's) \<Rightarrow> ('k \<Rightarrow> 's \<Rightarrow> 's) \<Rightarrow> ('k \<Rightarrow> bool) \<Rightarrow> ('k \<Rightarrow> 'r \<Rightarrow> 's \<Rightarrow> bool)
     \<Rightarrow> ('k, 'r) route_op list \<Rightarrow> 's \<Rightarrow> bool" where
  "ops_fit add del valid fits [] s = True"
| "ops_fit add del valid fits (AddRoute k r # ops) s =
     (valid k \<and> fits k r s \<and> ops_fit add del valid fits ops (add k r s))"
| "ops_fit add del valid fits (DelRoute k # ops) s = (valid k \<and> ops_fit add del valid fits ops (del k s))"

context route_set
begin

lemma served_run:
  "ok s \<Longrightarrow> ops_fit add del valid fits ops s \<Longrightarrow>
     served (run_ops add del ops s) = spec_ops ops (served s) \<and> ok (run_ops add del ops s)"
proof (induction ops arbitrary: s)
  case (Cons p ops)
  then show ?case by (cases p) (auto simp: served_add served_del ok_add ok_del)
qed simp

lemma served_last:
  assumes "ok s" "ops_fit add del valid fits (ops @ [AddRoute k r]) s"
  shows "k \<in> served (run_ops add del (ops @ [AddRoute k r]) s)"
proof -
  have "spec_ops (ops @ [AddRoute k r]) K = insert k (spec_ops ops K)" for K
    by (induction ops K rule: spec_ops.induct) auto
  with served_run [OF assms] show ?thesis by simp
qed

end

section \<open>HTTP\<close>

text \<open>A request: \<open>hr_PostForm\<close> has the values of the body that is still to be read if its method and content
  type make it a form, \<open>hr_Form\<close> is nil until the form is parsed.\<close>

record HttpRequest =
  hr_Method :: string
  hr_URL :: string
  hr_Path :: string
  hr_Header :: "(string, string) gomap"
  hr_Body :: string
  hr_Query :: "(string, string list) gomap"
  hr_PostForm :: "(string \<times> string) list option"
  hr_Form :: "(string \<times> string) list option"

text \<open>\<open>http.ResponseWriter\<close>: the first status code is the one that is sent, a write sends 200 if there
  is none yet.\<close>

record http_writer =
  hw_header :: "(string, string) gomap"
  hw_status :: "nat option"
  hw_body :: string

definition WriteHeader :: "nat \<Rightarrow> http_writer \<Rightarrow> http_writer" where
  "WriteHeader statusCode w = (if hw_status w = None then w\<lparr>hw_status := Some statusCode\<rparr> else w)"

definition Write :: "string \<Rightarrow> http_writer \<Rightarrow> http_writer" where
  "Write body w = (WriteHeader 200 w)\<lparr>hw_body := hw_body w @ body\<rparr>"

definition NotFound :: "http_writer \<Rightarrow> http_writer" where
  "NotFound w =
     (let w = w\<lparr>hw_header := gm_put ''X-Content-Type-Options'' ''nosniff''
                (gm_put ''Content-Type'' ''text/plain; charset=utf-8'' (hw_header w))\<rparr>
      in Write (''404 page not found'' @ [CHR 0x0A]) (WriteHeader 404 w))"

text \<open>Reading the body of a request uses it up. \<open>FormValue\<close> parses the form when it is called first, the values
  of a body that is a form before those of the query, and reads such a body.\<close>

definition ReadBody :: "HttpRequest \<Rightarrow> string \<times> HttpRequest" where
  "ReadBody r = (hr_Body r, r\<lparr>hr_Body := [], hr_PostForm := map_option (\<lambda>_. []) (hr_PostForm r)\<rparr>)"

definition ParseForm :: "HttpRequest \<Rightarrow> (string \<times> string) list \<times> HttpRequest" where
  "ParseForm r =
     (case hr_Form r of
        Some form \<Rightarrow> (form, r)
      | None \<Rightarrow>
          (let query = concat (map (\<lambda>(k, vs). map (Pair k) vs) (hr_Query r));
               (form, r) = (case hr_PostForm r of Some vs \<Rightarrow> (vs @ query, snd (ReadBody r)) | None \<Rightarrow> (query, r))
           in (form, r\<lparr>hr_Form := Some form\<rparr>)))"

definition FormValue :: "HttpRequest \<Rightarrow> string \<Rightarrow> string \<times> HttpRequest" where
  "FormValue r key = (case ParseForm r of (form, r) \<Rightarrow> (case map_of form key of Some v \<Rightarrow> v | None \<Rightarrow> [], r))"

text \<open>\<open>strings.ToUpper\<close> on ASCII text.\<close>

definition ToUpper :: "string \<Rightarrow> string" where
  "ToUpper s = map (\<lambda>c. if CHR ''a'' \<le> c \<and> c \<le> CHR ''z'' then char_of (of_char c - 32 :: nat) else c) s"

definition ToLower :: "string \<Rightarrow> string" where
  "ToLower s = map (\<lambda>c. if CHR ''A'' \<le> c \<and> c \<le> CHR ''Z'' then char_of (of_char c + 32 :: nat) else c) s"

text \<open>The canonical spelling of a header name: a capital at the start and after every hyphen; a name with
  a character that is not allowed in one is left as it is.\<close>

definition header_char :: "char \<Rightarrow> bool" where
  "header_char c =
     (CHR ''a'' \<le> c \<and> c \<le> CHR ''z'' \<or> CHR ''A'' \<le> c \<and> c \<le> CHR ''Z'' \<or> CHR ''0'' \<le> c \<and> c \<le> CHR ''9'' \<or>
      c \<in> set (''!#$%&*+-.^_|~'' @ [CHR 0x27, CHR 0x60]))"

fun canonical_from :: "bool \<Rightarrow> string \<Rightarrow> string" where
  "canonical_from upper [] = []"
| "canonical_from upper (c # s) = (if upper then ToUpper [c] else ToLower [c]) @ canonical_from (c = CHR ''-'') s"

definition CanonicalMIMEHeaderKey :: "string \<Rightarrow> string" where
  "CanonicalMIMEHeaderKey s = (if list_all header_char s then canonical_from True s else s)"

definition Header_Get :: "(string, string) gomap \<Rightarrow> string \<Rightarrow> string" where
  "Header_Get h key = (case map_of h (CanonicalMIMEHeaderKey key) of Some v \<Rightarrow> v | None \<Rightarrow> [])"

definition Header_Set :: "string \<Rightarrow> string \<Rightarrow> (string, string) gomap \<Rightarrow> (string, string) gomap" where
  "Header_Set key value h = gm_put (CanonicalMIMEHeaderKey key) value h"

text \<open>The HTTP request multiplexer, a package of its own: registering a handler may panic; a handler is
  named by the address of its router. The law says what its documentation says of static paths.\<close>

record 'mux mux_ops =
  mx_New :: 'mux
  mx_Handle :: "string \<Rightarrow> string \<Rightarrow> nat \<Rightarrow> 'mux \<Rightarrow> error + 'mux"
  mx_Lookup :: "string \<Rightarrow> string \<Rightarrow> 'mux \<Rightarrow> (nat \<times> (string \<times> string) list) option"

definition static_path :: "string \<Rightarrow> bool" where
  "static_path p = (CHR '':'' \<notin> set p \<and> CHR ''*'' \<notin> set p)"

definition mux_law :: "'mux mux_ops \<Rightarrow> bool" where
  "mux_law M =
     ((\<forall>m p. mx_Lookup M m p (mx_New M) = None) \<and>
      (\<forall>m p h x x'. static_path p \<and> mx_Handle M m p h x = Inr x' \<longrightarrow> mx_Lookup M m p x' = Some (h, [])) \<and>
      (\<forall>m p h x x' m' p'. static_path p \<and> static_path p' \<and> mx_Handle M m p h x = Inr x' \<and> (m', p') \<noteq> (m, p) \<longrightarrow>
         mx_Lookup M m' p' x' = mx_Lookup M m' p' x))"

lemma mux_law_Handle:
  assumes "mux_law M" "static_path p" "mx_Handle M m p h x = Inr x'" "static_path p'"
  shows "mx_Lookup M m' p' x' = (if (m', p') = (m, p) then Some (h, []) else mx_Lookup M m' p' x)"
proof (cases "(m', p') = (m, p)")
  case True
  with assms show ?thesis unfolding mux_law_def by (metis prod.inject)
next
  case False
  with assms show ?thesis unfolding mux_law_def by metis
qed

definition assoc_mux :: "((string \<times> string) \<times> nat) list mux_ops" where
  "assoc_mux = \<lparr>mx_New = [],
     mx_Handle = (\<lambda>m p h x. if map_of x (m, p) \<noteq> None then Inl ''handlers are already registered'' else Inr (((m, p), h) # x)),
     mx_Lookup = (\<lambda>m p x. map_option (\<lambda>h. (h, [])) (map_of x (m, p)))\<rparr>"

lemma assoc_mux_law: "mux_law assoc_mux"
  by (auto simp: mux_law_def assoc_mux_def)

section \<open>Filling in the metadata\<close>

text \<open>The loop over the query of the URL, in the order the map is ranged over; \<open>value[0]\<close> of an empty
  list panics.\<close>

fun put_query :: "go_env \<Rightarrow> (string, string list) gomap \<Rightarrow> Metadata \<Rightarrow> error + Metadata" where
  "put_query env [] md = Inr md"
| "put_query env ((key, value) # q) md =
     (case (if 1 < length value then PutValue md key (ToString env (GSlice (map GString value)))
            else case value of [] \<Rightarrow> Inl ''index out of range'' | v # _ \<Rightarrow> PutValue md key v) of
        Inl e \<Rightarrow> Inl e
      | Inr md \<Rightarrow> put_query env q md)"

fun put_params :: "(string \<times> string) list \<Rightarrow> Metadata \<Rightarrow> error + Metadata" where
  "put_params [] md = Inr md"
| "put_params ((key, value) # ps) md = (case PutValue md key value of Inl e \<Rightarrow> Inl e | Inr md \<Rightarrow> put_params ps md)"

definition query_value :: "go_env \<Rightarrow> string list \<Rightarrow> string" where
  "query_value env value = (if 1 < length value then ToString env (GSlice (map GString value)) else hd value)"

lemma put_params_Some: "put_params ps (Some m) = Inr (Some (fold (\<lambda>(k, v) m. if k = [] then m else gm_put k v m) ps m))"
  by (induction ps arbitrary: m) (auto simp: PutValue_def)

lemma put_query_Some:
  "\<forall>(k, v) \<in> set q. v \<noteq> [] \<Longrightarrow>
   put_query env q (Some m) = Inr (Some (fold (\<lambda>(k, v) m. if k = [] then m else gm_put k (query_value env v) m) q m))"
proof (induction q arbitrary: m)
  case (Cons p q)
  obtain k v where p: "p = (k, v)" by force
  with Cons.prems have v: "v \<noteq> []" by auto
  have "(if 1 < length v then PutValue (Some m) k (ToString env (GSlice (map GString v)))
            else case v of [] \<Rightarrow> Inl ''index out of range'' | x # _ \<Rightarrow> PutValue (Some m) k x) =
      Inr (Some (if k = [] then m else gm_put k (query_value env v) m))"
    using v by (cases v) (auto simp: PutValue_def query_value_def)
  with Cons p show ?case by simp
qed simp

end
