(* ===== verification/RestEndpoint.thy ===== *)
theory RestEndpoint
  imports Routes
begin

text \<open>
  The HTTP endpoint (\<open>endpoint/rest/rest.go\<close>): its messages, its routing table and the handling of a
  request. The table holds pointers to routers, and a router is disabled in place, so routers live
  in a heap here and the table holds addresses.
\<close>

definition ContentTypeKey :: string where "ContentTypeKey = ''Content-Type''"
definition JsonContextType :: string where "JsonContextType = ''application/json''"

section \<open>Messages\<close>

record rest_RequestMessage =
  rq_request :: "HttpRequest option"
  rq_body :: "string option"
  rq_Params :: "(string \<times> string) list"
  rq_msg :: "RuleMsg option"
  rq_err :: "error option"

definition rest_Body :: "rest_RequestMessage \<Rightarrow> string option \<times> rest_RequestMessage" where
  "rest_Body r =
     (case (rq_body r, rq_request r) of
        (None, Some q) \<Rightarrow>
          (let (entry, q) = ReadBody q in (Some entry, r\<lparr>rq_request := Some q, rq_body := Some entry\<rparr>))
      | _ \<Rightarrow> (rq_body r, r))"

definition rest_Headers :: "rest_RequestMessage \<Rightarrow> (string, string) gomap" where
  "rest_Headers r = (case rq_request r of None \<Rightarrow> [] | Some q \<Rightarrow> hr_Header q)"

definition rest_From :: "rest_RequestMessage \<Rightarrow> string" where
  "rest_From r = (case rq_request r of None \<Rightarrow> [] | Some q \<Rightarrow> hr_URL q)"

definition rest_GetParam :: "rest_RequestMessage \<Rightarrow> string \<Rightarrow> string \<times> rest_RequestMessage" where
  "rest_GetParam r key =
     (case rq_request r of None \<Rightarrow> ([], r) | Some q \<Rightarrow> (case FormValue q key of (v, q) \<Rightarrow> (v, r\<lparr>rq_request := Some q\<rparr>)))"

definition rest_SetMsg :: "RuleMsg \<Rightarrow> rest_RequestMessage \<Rightarrow> rest_RequestMessage" where
  "rest_SetMsg msg r = r\<lparr>rq_msg := Some msg\<rparr>"

definition rest_GetMsg :: "int \<Rightarrow> string \<Rightarrow> rest_RequestMessage \<Rightarrow> RuleMsg \<times> rest_RequestMessage" where
  "rest_GetMsg now uuid r =
     (case rq_msg r of
        Some msg \<Rightarrow> (msg, r)
      | None \<Rightarrow>
          (let dataType = (if Header_Get (rest_Headers r) ContentTypeKey = JsonContextType then JSON else TEXT);
               (body, r) = rest_Body r;
               msg = NewMsg now uuid uuid 0 (rest_From r) dataType NewMetadata (case body of Some b \<Rightarrow> b | None \<Rightarrow> [])
           in (msg, r\<lparr>rq_msg := Some msg\<rparr>)))"

definition rest_SetBody :: "string option \<Rightarrow> rest_RequestMessage \<Rightarrow> rest_RequestMessage" where
  "rest_SetBody body r = r\<lparr>rq_body := body\<rparr>"

definition rest_SetError :: "error \<Rightarrow> rest_RequestMessage \<Rightarrow> rest_RequestMessage" where
  "rest_SetError err r = r\<lparr>rq_err := Some err\<rparr>"

record rest_ResponseMessage =
  rp_request :: "HttpRequest option"
  rp_response :: "http_writer option"
  rp_body :: "string option"
  rp_msg :: "RuleMsg option"
  rp_err :: "error option"

definition rest_out_From :: "rest_ResponseMessage \<Rightarrow> string" where
  "rest_out_From r = (case rp_request r of None \<Rightarrow> [] | Some q \<Rightarrow> hr_URL q)"

definition rest_out_GetParam :: "rest_ResponseMessage \<Rightarrow> string \<Rightarrow> string \<times> rest_ResponseMessage" where
  "rest_out_GetParam r key =
     (case rp_request r of None \<Rightarrow> ([], r) | Some q \<Rightarrow> (case FormValue q key of (v, q) \<Rightarrow> (v, r\<lparr>rp_request := Some q\<rparr>)))"

definition rest_out_SetMsg :: "RuleMsg \<Rightarrow> rest_ResponseMessage \<Rightarrow> rest_ResponseMessage" where
  "rest_out_SetMsg msg r = r\<lparr>rp_msg := Some msg\<rparr>"

definition rest_out_SetStatusCode :: "nat \<Rightarrow> rest_ResponseMessage \<Rightarrow> rest_ResponseMessage" where
  "rest_out_SetStatusCode statusCode r =
     (case rp_response r of Some w \<Rightarrow> r\<lparr>rp_response := Some (WriteHeader statusCode w)\<rparr> | None \<Rightarrow> r)"

definition rest_out_SetBody :: "string \<Rightarrow> rest_ResponseMessage \<Rightarrow> rest_ResponseMessage" where
  "rest_out_SetBody body r =
     (let r = r\<lparr>rp_body := Some body\<rparr>
      in case rp_response r of Some w \<Rightarrow> r\<lparr>rp_response := Some (Write body w)\<rparr> | None \<Rightarrow> r)"

definition rest_out_SetError :: "error \<Rightarrow> rest_ResponseMessage \<Rightarrow> rest_ResponseMessage" where
  "rest_out_SetError err r = r\<lparr>rp_err := Some err\<rparr>"

datatype rest_message = RestIn rest_RequestMessage | RestOut rest_ResponseMessage

definition rest_ops :: "int \<Rightarrow> string \<Rightarrow> rest_message message_ops" where
  "rest_ops now uuid =
     \<lparr>mo_GetMsg = (\<lambda>m. case m of
          RestIn r \<Rightarrow> (case rest_GetMsg now uuid r of (msg, r) \<Rightarrow> (Some msg, RestIn r))
        | RestOut r \<Rightarrow> (rp_msg r, RestOut r)),
      mo_SetMsg = (\<lambda>msg m. case m of RestIn r \<Rightarrow> RestIn (rest_SetMsg msg r) | RestOut r \<Rightarrow> RestOut (rest_out_SetMsg msg r)),
      mo_SetError = (\<lambda>e m. case m of RestIn r \<Rightarrow> RestIn (rest_SetError e r) | RestOut r \<Rightarrow> RestOut (rest_out_SetError e r))\<rparr>"

section \<open>The endpoint\<close>

record rest_Config =
  rcf_Server :: string
  rcf_CertFile :: string
  rcf_CertKeyFile :: string

type_synonym ('n, 'w, 'm) router_heap = "nat \<Rightarrow> ('n, 'w, 'm) Router"

record ('w, 'm, 'mux) Rest =
  rst_base :: "'m BaseEndpoint"
  rst_Config :: rest_Config
  rst_RuleConfig :: "'w Config option"
  rst_RouterStorage :: "(string, nat) gomap option"
  rst_router :: "'mux option"
  rst_server :: "(string \<times> bool) option"

definition rest_New :: "('w, 'm, 'mux) Rest" where
  "rest_New = \<lparr>rst_base = \<lparr>be_interceptors = []\<rparr>, rst_Config = \<lparr>rcf_Server = [], rcf_CertFile = [], rcf_CertKeyFile = []\<rparr>,
     rst_RuleConfig = None, rst_RouterStorage = None, rst_router = None, rst_server = None\<rparr>"

definition rest_Init ::
  "(Configuration \<Rightarrow> rest_Config \<Rightarrow> error option \<times> rest_Config) \<Rightarrow> 'w Config \<Rightarrow> Configuration \<Rightarrow> ('w, 'm, 'mux) Rest
     \<Rightarrow> error option \<times> ('w, 'm, 'mux) Rest" where
  "rest_Init decode ruleConfig configuration x =
     (case decode configuration (rst_Config x) of
        (err, c) \<Rightarrow> (err, x\<lparr>rst_Config := c, rst_RuleConfig := Some ruleConfig\<rparr>))"

definition rest_Id :: "('w, 'm, 'mux) Rest \<Rightarrow> string" where
  "rest_Id x = rcf_Server (rst_Config x)"

definition rest_routerKey :: "string \<Rightarrow> string \<Rightarrow> string" where
  "rest_routerKey method from = method @ '' '' @ from"

text \<open>The loop of \<open>addRouter\<close> over its routers. The panic of the multiplexer leaves the router stored.\<close>

fun rest_add_routers ::
  "'mux mux_ops \<Rightarrow> string \<Rightarrow> nat list \<Rightarrow> ('n, 'w, 'm) router_heap \<times> ('w, 'm, 'mux) Rest
     \<Rightarrow> error option \<times> ('n, 'w, 'm) router_heap \<times> ('w, 'm, 'mux) Rest" where
  "rest_add_routers M method [] (h, x) = (None, h, x)"
| "rest_add_routers M method (item # items) (h, x) =
     (let key = rest_routerKey method (FromToString (h item))
      in case map_of (gm_of (rst_RouterStorage x)) key of
           Some old \<Rightarrow> rest_add_routers M method items (h(old := Disable False (h old)), x)
         | None \<Rightarrow>
             (let x = x\<lparr>rst_RouterStorage := Some (gm_put key item (gm_of (rst_RouterStorage x)))\<rparr>
              in case mx_Handle M method (FromToString (h item)) item (case rst_router x of Some mux \<Rightarrow> mux | None \<Rightarrow> mx_New M) of
                   Inl e \<Rightarrow> (Some e, h, x)
                 | Inr mux \<Rightarrow> rest_add_routers M method items (h, x\<lparr>rst_router := Some mux\<rparr>)))"

definition rest_addRouter ::
  "'mux mux_ops \<Rightarrow> string \<Rightarrow> nat list \<Rightarrow> ('n, 'w, 'm) router_heap \<times> ('w, 'm, 'mux) Rest
     \<Rightarrow> error option \<times> ('n, 'w, 'm) router_heap \<times> ('w, 'm, 'mux) Rest" where
  "rest_addRouter M method routers s =
     (let method = ToUpper method;
          x = snd s;
          x = x\<lparr>rst_router := Some (case rst_router x of Some mux \<Rightarrow> mux | None \<Rightarrow> mx_New M)\<rparr>;
          x = x\<lparr>rst_RouterStorage := Some (gm_of (rst_RouterStorage x))\<rparr>
      in rest_add_routers M method routers (fst s, x))"

definition rest_GET where "rest_GET M routers s = rest_addRouter M ''GET'' routers s"
definition rest_HEAD where "rest_HEAD M routers s = rest_addRouter M ''HEAD'' routers s"
definition rest_OPTIONS where "rest_OPTIONS M routers s = rest_addRouter M ''OPTIONS'' routers s"
definition rest_POST where "rest_POST M routers s = rest_addRouter M ''POST'' routers s"
definition rest_PUT where "rest_PUT M routers s = rest_addRouter M ''PUT'' routers s"
definition rest_PATCH where "rest_PATCH M routers s = rest_addRouter M ''PATCH'' routers s"
definition rest_DELETE where "rest_DELETE M routers s = rest_addRouter M ''DELETE'' routers s"

text \<open>The loop over the methods, each given by its \<open>str.ToString\<close>; a router without a \<open>From\<close> makes the last line panic.\<close>

fun rest_add_methods ::
  "'mux mux_ops \<Rightarrow> string list \<Rightarrow> nat \<Rightarrow> ('n, 'w, 'm) router_heap \<times> ('w, 'm, 'mux) Rest
     \<Rightarrow> error option \<times> ('n, 'w, 'm) router_heap \<times> ('w, 'm, 'mux) Rest" where
  "rest_add_methods M [] router s = (None, s)"
| "rest_add_methods M (item # items) router s =
     (case rest_addRouter M item [router] s of
        (Some e, s) \<Rightarrow> (Some e, s)
      | (None, s) \<Rightarrow> rest_add_methods M items router s)"

definition rest_AddRouter ::
  "'mux mux_ops \<Rightarrow> nat option \<Rightarrow> string list \<Rightarrow> ('n, 'w, 'm) router_heap \<times> ('w, 'm, 'mux) Rest
     \<Rightarrow> (error + string) \<times> ('n, 'w, 'm) router_heap \<times> ('w, 'm, 'mux) Rest" where
  "rest_AddRouter M router params s =
     (if params = [] then (Inl ''need to specify HTTP method'', s)
      else case router of
        None \<Rightarrow> (Inl ''router can not nil'', s)
      | Some a \<Rightarrow>
          (case rest_add_methods M params a s of
             (Some e, s) \<Rightarrow> (Inl e, s)
           | (None, s) \<Rightarrow>
               (case rt_from (fst s a) of
                  None \<Rightarrow> (Inl ''invalid memory address or nil pointer dereference'', s)
                | Some f \<Rightarrow> (Inr (fr_From f), s))))"

fun rest_remove_methods ::
  "string list \<Rightarrow> string \<Rightarrow> ('n, 'w, 'm) router_heap \<times> ('w, 'm, 'mux) Rest \<Rightarrow> ('n, 'w, 'm) router_heap \<times> ('w, 'm, 'mux) Rest" where
  "rest_remove_methods [] routerId s = s"
| "rest_remove_methods (item # items) routerId (h, x) =
     rest_remove_methods items routerId
       (case map_of (gm_of (rst_RouterStorage x)) (rest_routerKey item routerId) of
          Some router \<Rightarrow> (h(router := Disable True (h router)), x)
        | None \<Rightarrow> (h, x))"

definition rest_RemoveRouter ::
  "string \<Rightarrow> string list \<Rightarrow> ('n, 'w, 'm) router_heap \<times> ('w, 'm, 'mux) Rest
     \<Rightarrow> error option \<times> ('n, 'w, 'm) router_heap \<times> ('w, 'm, 'mux) Rest" where
  "rest_RemoveRouter routerId params s =
     (if params = [] then (Some ''need to specify HTTP method'', s) else (None, rest_remove_methods params routerId s))"

text \<open>\<open>Start\<close> makes a server, with TLS if both files are configured. Its handler is the pointer to the multiplexer
  of that moment: the flag says that it is not nil. \<open>listen\<close> is what the server returns with.\<close>

definition rest_Start :: "(bool \<Rightarrow> error option) \<Rightarrow> ('w, 'm, 'mux) Rest \<Rightarrow> error option \<times> ('w, 'm, 'mux) Rest" where
  "rest_Start listen x =
     (let x = x\<lparr>rst_server := Some (rcf_Server (rst_Config x), rst_router x \<noteq> None)\<rparr>
      in (listen (rcf_CertKeyFile (rst_Config x) \<noteq> [] \<and> rcf_CertFile (rst_Config x) \<noteq> []), x))"

definition rest_Close :: "error option \<Rightarrow> ('w, 'm, 'mux) Rest \<Rightarrow> error option" where
  "rest_Close shutdown x = (case rst_server x of Some _ \<Rightarrow> shutdown | None \<Rightarrow> None)"

text \<open>Handling a request: the panics of the metadata loops are recovered and nothing is processed. Both
  messages hold the same request, whose body \<open>GetMsg\<close> reads.\<close>

definition rest_handler ::
  "go_env \<Rightarrow> int \<Rightarrow> string \<Rightarrow> (nat \<Rightarrow> ('n, 'w) RuleGo) \<Rightarrow> ('w, rest_message, 'mux) Rest \<Rightarrow> ('n, 'w, rest_message) Router
     \<Rightarrow> http_writer \<Rightarrow> HttpRequest \<Rightarrow> (string \<times> string) list \<Rightarrow> rest_message Exchange \<times> ('n, 'w) launch option" where
  "rest_handler env now uuid pools x router w r params =
     (let inp = \<lparr>rq_request = Some r, rq_body = None, rq_Params = params, rq_msg = None, rq_err = None\<rparr>;
          out = \<lparr>rp_request = Some r, rp_response = Some w, rp_body = None, rp_msg = None, rp_err = None\<rparr>
      in if IsDisable router then (\<lparr>ex_In = RestIn inp, ex_Out = RestOut (out\<lparr>rp_response := Some (NotFound w)\<rparr>)\<rparr>, None)
         else
           (case rest_GetMsg now uuid inp of
              (msg, inp) \<Rightarrow>
                let out = out\<lparr>rp_request := rq_request inp\<rparr> in
                (case put_params params (MsgMetadata msg) of
                   Inl e \<Rightarrow> (\<lparr>ex_In = RestIn inp, ex_Out = RestOut out\<rparr>, None)
                 | Inr md \<Rightarrow>
                     (case put_query env (hr_Query r) md of
                        Inl e \<Rightarrow> (\<lparr>ex_In = RestIn inp, ex_Out = RestOut out\<rparr>, None)
                      | Inr md \<Rightarrow>
                          DoProcess (rest_ops now uuid) pools (rst_base x) router
                            \<lparr>ex_In = RestIn (inp\<lparr>rq_msg := Some (msg\<lparr>MsgMetadata := md\<rparr>)\<rparr>), ex_Out = RestOut out\<rparr>))))"

text \<open>A request as the multiplexer dispatches it, when it is the handler of a server.\<close>

definition rest_serve ::
  "go_env \<Rightarrow> int \<Rightarrow> string \<Rightarrow> (nat \<Rightarrow> ('n, 'w) RuleGo) \<Rightarrow> 'mux mux_ops \<Rightarrow> ('n, 'w, rest_message) router_heap \<times> ('w, rest_message, 'mux) Rest
     \<Rightarrow> http_writer \<Rightarrow> HttpRequest \<Rightarrow> (rest_message Exchange \<times> ('n, 'w) launch option) option" where
  "rest_serve env now uuid pools M s w r =
     (case mx_Lookup M (hr_Method r) (hr_Path r) (case rst_router (snd s) of Some mux \<Rightarrow> mux | None \<Rightarrow> mx_New M) of
        None \<Rightarrow> None
      | Some (a, params) \<Rightarrow> Some (rest_handler env now uuid pools (snd s) (fst s a) w r params))"

section \<open>The routing table\<close>

lemma routerKey_inj:
  "CHR '' '' \<notin> set m \<Longrightarrow> CHR '' '' \<notin> set m' \<Longrightarrow> rest_routerKey m p = rest_routerKey m' p' \<Longrightarrow> m = m' \<and> p = p'"
proof (induction m arbitrary: m')
  case Nil
  then show ?case by (cases m') (auto simp: rest_routerKey_def)
next
  case (Cons c m)
  then show ?case by (cases m') (auto simp: rest_routerKey_def)
qed

text \<open>The view of the contract: a key is an upper-case method and a static path; adding and removing
  one route.\<close>

definition rest_valid :: "string \<times> string \<Rightarrow> bool" where
  "rest_valid k = (ToUpper (fst k) = fst k \<and> CHR '' '' \<notin> set (fst k) \<and> static_path (snd k))"

definition rest_stored :: "('n, 'w, 'm) router_heap \<times> ('w, 'm, 'mux) Rest \<Rightarrow> string \<times> string \<Rightarrow> nat option" where
  "rest_stored s k = map_of (gm_of (rst_RouterStorage (snd s))) (rest_routerKey (fst k) (snd k))"

definition rest_mux :: "'mux mux_ops \<Rightarrow> ('n, 'w, 'm) router_heap \<times> ('w, 'm, 'mux) Rest \<Rightarrow> 'mux" where
  "rest_mux M s = (case rst_router (snd s) of Some mux \<Rightarrow> mux | None \<Rightarrow> mx_New M)"

definition rest_served :: "('n, 'w, 'm) router_heap \<times> ('w, 'm, 'mux) Rest \<Rightarrow> (string \<times> string) set" where
  "rest_served s = {k. rest_valid k \<and> (\<exists>a. rest_stored s k = Some a \<and> \<not> IsDisable (fst s a))}"

definition rest_ok :: "'mux mux_ops \<Rightarrow> ('n, 'w, 'm) router_heap \<times> ('w, 'm, 'mux) Rest \<Rightarrow> bool" where
  "rest_ok M s =
     (mux_law M \<and>
      (\<forall>k k' a. rest_valid k \<and> rest_valid k' \<and> rest_stored s k = Some a \<and> rest_stored s k' = Some a \<longrightarrow> k = k') \<and>
      (\<forall>k a. rest_valid k \<and> rest_stored s k = Some a \<longrightarrow> FromToString (fst s a) = snd k) \<and>
      (\<forall>k. rest_valid k \<longrightarrow> mx_Lookup M (fst k) (snd k) (rest_mux M s) = map_option (\<lambda>a. (a, [])) (rest_stored s k)))"

text \<open>An addition fits if the router is enabled, comes from the path of the key, is not stored under
  another key, and the multiplexer takes a new path.\<close>

definition rest_fits :: "'mux mux_ops \<Rightarrow> string \<times> string \<Rightarrow> nat \<Rightarrow> ('n, 'w, 'm) router_heap \<times> ('w, 'm, 'mux) Rest \<Rightarrow> bool" where
  "rest_fits M k a s =
     (FromToString (fst s a) = snd k \<and>
      (rest_stored s k = None \<longrightarrow>
         \<not> IsDisable (fst s a) \<and> (\<forall>k'. rest_valid k' \<longrightarrow> rest_stored s k' \<noteq> Some a) \<and>
         \<not> is_err (mx_Handle M (fst k) (snd k) a (rest_mux M s))))"

definition rest_add1 ::
  "'mux mux_ops \<Rightarrow> string \<times> string \<Rightarrow> nat \<Rightarrow> ('n, 'w, 'm) router_heap \<times> ('w, 'm, 'mux) Rest \<Rightarrow> ('n, 'w, 'm) router_heap \<times> ('w, 'm, 'mux) Rest" where
  "rest_add1 M k a s = snd (rest_AddRouter M (Some a) [fst k] s)"

definition rest_del1 ::
  "string \<times> string \<Rightarrow> ('n, 'w, 'm) router_heap \<times> ('w, 'm, 'mux) Rest \<Rightarrow> ('n, 'w, 'm) router_heap \<times> ('w, 'm, 'mux) Rest" where
  "rest_del1 k s = snd (rest_RemoveRouter (snd k) [fst k] s)"

lemma rest_AddRouter_one: "snd (rest_AddRouter M (Some a) [m] s) = snd (rest_addRouter M m [a] s)"
  by (auto simp: rest_AddRouter_def split: prod.splits option.splits)

lemma rest_add1_old:
  assumes "rest_valid k" "FromToString (fst s a) = snd k" "rest_stored s k = Some old"
  shows "fst (rest_add1 M k a s) = (fst s)(old := Disable False (fst s old))"
    "rest_stored (rest_add1 M k a s) = rest_stored s" "rest_mux M (rest_add1 M k a s) = rest_mux M s"
  using assms by (auto simp: rest_add1_def rest_AddRouter_one rest_addRouter_def rest_valid_def rest_stored_def rest_mux_def Let_def fun_eq_iff
      split: option.splits)

lemma rest_add1_new:
  assumes v: "rest_valid k" "FromToString (fst s a) = snd k" "rest_stored s k = None"
    and m: "mx_Handle M (fst k) (snd k) a (rest_mux M s) = Inr mux"
  shows "fst (rest_add1 M k a s) = fst s" "rest_mux M (rest_add1 M k a s) = mux"
    "rest_valid k' \<Longrightarrow> rest_stored (rest_add1 M k a s) k' = (if k' = k then Some a else rest_stored s k')"
proof -
  let ?key = "rest_routerKey (fst k) (snd k)"
  have r: "rest_add1 M k a s = (fst s, (snd s)\<lparr>rst_router := Some mux,
      rst_RouterStorage := Some (gm_put ?key a (gm_of (rst_RouterStorage (snd s))))\<rparr>)"
    using assms by (cases s) (auto simp: rest_add1_def rest_AddRouter_one rest_addRouter_def rest_valid_def rest_stored_def rest_mux_def Let_def
        split: option.splits)
  show "fst (rest_add1 M k a s) = fst s" "rest_mux M (rest_add1 M k a s) = mux" by (simp_all add: r rest_mux_def)
  show "rest_stored (rest_add1 M k a s) k' = (if k' = k then Some a else rest_stored s k')" if "rest_valid k'"
    using that v(1) routerKey_inj [of "fst k" "fst k'" "snd k" "snd k'"]
    by (auto simp: r rest_stored_def rest_valid_def prod_eq_iff)
qed

lemma rest_del1_eq:
  "rest_stored (rest_del1 k s) = rest_stored s" "rest_mux M (rest_del1 k s) = rest_mux M s"
  "fst (rest_del1 k s) = (case rest_stored s k of Some a \<Rightarrow> (fst s)(a := Disable True (fst s a)) | None \<Rightarrow> fst s)"
  by (cases s; auto simp: rest_del1_def rest_RemoveRouter_def rest_stored_def rest_mux_def fun_eq_iff split: option.splits)+

lemma Disable_simps [simp]: "IsDisable (Disable b r) = b" "FromToString (Disable b r) = FromToString r"
  by (simp_all add: IsDisable_def Disable_def FromToString_def)


lemma rest_served_iff:
  "k \<in> rest_served s \<longleftrightarrow> rest_valid k \<and> rest_stored s k \<noteq> None \<and> \<not> IsDisable (fst s (the (rest_stored s k)))"
  by (auto simp: rest_served_def)

lemma rest_ok_inj:
  "rest_ok M s \<Longrightarrow> rest_valid k \<Longrightarrow> rest_valid k' \<Longrightarrow> rest_stored s k = Some a \<Longrightarrow> k' \<noteq> k \<Longrightarrow>
     rest_stored s k' \<noteq> Some a"
  unfolding rest_ok_def by blast

lemma rest_ok_lookup:
  "rest_ok M s \<Longrightarrow> rest_valid k \<Longrightarrow>
     mx_Lookup M (fst k) (snd k) (rest_mux M s) = map_option (\<lambda>a. (a, [])) (rest_stored s k)"
  unfolding rest_ok_def by blast

lemma rest_ok_from: "rest_ok M s \<Longrightarrow> rest_valid k \<Longrightarrow> rest_stored s k = Some a \<Longrightarrow> FromToString (fst s a) = snd k"
  unfolding rest_ok_def by blast

text \<open>Disabling and enabling a router keeps the invariant.\<close>

lemma rest_ok_Disable:
  assumes "rest_ok M s" "rest_stored t = rest_stored s" "rest_mux M t = rest_mux M s"
    and "\<And>a. FromToString (fst t a) = FromToString (fst s a)"
  shows "rest_ok M t"
  using assms(1) unfolding rest_ok_def assms(2-4) .

lemma rest_add_cases:
  assumes "rest_fits M k a s" "rest_valid k"
  obtains (old) old where "rest_stored s k = Some old" "FromToString (fst s a) = snd k"
  | (new) mux where "rest_stored s k = None" "FromToString (fst s a) = snd k" "mx_Handle M (fst k) (snd k) a (rest_mux M s) = Inr mux"
      "\<not> IsDisable (fst s a)" "\<And>k'. rest_valid k' \<Longrightarrow> rest_stored s k' \<noteq> Some a"
proof (cases "rest_stored s k")
  case None
  with assms obtain mux where "mx_Handle M (fst k) (snd k) a (rest_mux M s) = Inr mux"
    by (cases "mx_Handle M (fst k) (snd k) a (rest_mux M s)") (auto simp: rest_fits_def)
  with None assms show thesis by (intro new) (auto simp: rest_fits_def)
next
  case (Some x)
  with assms show thesis by (intro old) (auto simp: rest_fits_def)
qed

lemma rest_served_add:
  assumes ok: "rest_ok M s" and v: "rest_valid k" and f: "rest_fits M k a s"
  shows "rest_served (rest_add1 M k a s) = insert k (rest_served s)"
  using f v
proof (cases rule: rest_add_cases)
  case (old old)
  note r = rest_add1_old [OF v old(2) old(1), of M]
  show ?thesis
  proof (rule set_eqI)
    fix k'
    show "k' \<in> rest_served (rest_add1 M k a s) \<longleftrightarrow> k' \<in> insert k (rest_served s)"
      using old(1) v rest_ok_inj [OF ok v _ old(1), of k']
      by (cases "k' = k"; cases "rest_valid k'"; cases "rest_stored s k'") (simp_all add: rest_served_iff r)
  qed
next
  case (new mux)
  note r = rest_add1_new [OF v new(2) new(1) new(3)]
  show ?thesis
  proof (rule set_eqI)
    fix k'
    show "k' \<in> rest_served (rest_add1 M k a s) \<longleftrightarrow> k' \<in> insert k (rest_served s)"
      using new(4) v by (cases "k' = k"; cases "rest_valid k'") (simp_all add: rest_served_iff r)
  qed
qed

lemma rest_served_del:
  assumes ok: "rest_ok M s" and v: "rest_valid k"
  shows "rest_served (rest_del1 k s) = rest_served s - {k}"
proof (cases "rest_stored s k")
  case None
  then show ?thesis by (auto simp: rest_served_iff rest_del1_eq)
next
  case (Some a)
  show ?thesis
  proof (rule set_eqI)
    fix k'
    show "k' \<in> rest_served (rest_del1 k s) \<longleftrightarrow> k' \<in> rest_served s - {k}"
      using Some rest_ok_inj [OF ok v _ Some, of k']
      by (cases "k' = k"; cases "rest_valid k'"; cases "rest_stored s k'") (simp_all add: rest_served_iff rest_del1_eq)
  qed
qed

lemma rest_ok_add:
  assumes ok: "rest_ok M s" and v: "rest_valid k" and f: "rest_fits M k a s"
  shows "rest_ok M (rest_add1 M k a s)"
  using f v
proof (cases rule: rest_add_cases)
  case (old old)
  show ?thesis
    by (rule rest_ok_Disable [OF ok]) (simp_all add: rest_add1_old [OF v old(2) old(1)])
next
  case (new mux)
  note r = rest_add1_new [OF v new(2) new(1) new(3)]
  have law: "mux_law M" using ok by (simp add: rest_ok_def)
  have look: "mx_Lookup M (fst k') (snd k') mux = map_option (\<lambda>a. (a, [])) (if k' = k then Some a else rest_stored s k')"
    if "rest_valid k'" for k'
    using mux_law_Handle [OF law _ new(3), of "snd k'" "fst k'"] v that rest_ok_lookup [OF ok that]
    by (simp add: rest_valid_def prod_eq_iff)
  have inj: "k1 = k2" if "rest_valid k1" "rest_valid k2" "rest_stored (rest_add1 M k a s) k1 = Some b" "rest_stored (rest_add1 M k a s) k2 = Some b" for k1 k2 b
  proof (rule ccontr)
    assume ne: "k1 \<noteq> k2"
    have n: "rest_stored s k' \<noteq> Some a" if "rest_valid k'" "k' \<noteq> k" for k' using new(5) that by blast
    from that(3,4) have st: "(if k1 = k then Some a else rest_stored s k1) = Some b" "(if k2 = k then Some a else rest_stored s k2) = Some b"
      by (simp_all only: r(3) [OF that(1)] r(3) [OF that(2)])
    show False
      using st n [OF that(1)] n [OF that(2)] ne rest_ok_inj [OF ok that(1,2), of b] by (simp split: if_splits)
  qed
  show ?thesis unfolding rest_ok_def
  proof (intro conjI allI impI)
    show "mux_law M" by (rule law)
    show "k1 = k2" if "rest_valid k1 \<and> rest_valid k2 \<and> rest_stored (rest_add1 M k a s) k1 = Some b \<and>
        rest_stored (rest_add1 M k a s) k2 = Some b" for k1 k2 b
      using inj that by blast
    show "FromToString (fst (rest_add1 M k a s) b) = snd k'" if "rest_valid k' \<and> rest_stored (rest_add1 M k a s) k' = Some b" for k' b
      using that new(2) rest_ok_from [OF ok, of k' b] r(1) r(3) [of k'] by (auto split: if_splits)
    show "mx_Lookup M (fst k') (snd k') (rest_mux M (rest_add1 M k a s)) =
        map_option (\<lambda>a. (a, [])) (rest_stored (rest_add1 M k a s) k')" if "rest_valid k'" for k'
      unfolding r(2) r(3) [OF that] by (rule look [OF that])
  qed
qed

lemma rest_ok_del: "rest_ok M s \<Longrightarrow> rest_ok M (rest_del1 k s)"
  by (rule rest_ok_Disable) (auto simp: rest_del1_eq split: option.splits)

interpretation rest_routes: route_set "rest_add1 M" rest_del1 rest_served rest_valid "rest_fits M" "rest_ok M" for M
  by unfold_locales (simp_all add: rest_served_add rest_served_del rest_ok_add rest_ok_del)


section \<open>Properties\<close>

definition rest_fresh :: "('w, 'm, 'mux) Rest \<Rightarrow> bool" where
  "rest_fresh x = (rst_RouterStorage x = None \<and> rst_router x = None)"

lemma rest_fresh_ok: "mux_law M \<Longrightarrow> rest_fresh x \<Longrightarrow> rest_ok M (h, x) \<and> rest_served (h, x) = {}"
  by (auto simp: rest_fresh_def rest_ok_def rest_served_def rest_stored_def rest_mux_def mux_law_def)

text \<open>The router that a key keeps: the first that was ever added for it.\<close>

fun first_added :: "'k \<Rightarrow> ('k, 'r) route_op list \<Rightarrow> 'r option" where
  "first_added k [] = None"
| "first_added k (AddRoute k' r # ops) = (if k' = k then Some r else first_added k ops)"
| "first_added k (DelRoute k' # ops) = first_added k ops"

lemma rest_stored_run:
  assumes "ops_fit (rest_add1 M) rest_del1 rest_valid (rest_fits M) ops s" "rest_valid k"
  shows "rest_stored (run_ops (rest_add1 M) rest_del1 ops s) k =
    (case rest_stored s k of Some a \<Rightarrow> Some a | None \<Rightarrow> first_added k ops)"
  using assms(1)
proof (induction ops arbitrary: s)
  case Nil
  then show ?case by (simp split: option.split)
next
  case (Cons p ops)
  show ?case
  proof (cases p)
    case (AddRoute k' a)
    with Cons.prems have f: "rest_fits M k' a s" "rest_valid k'"
      "ops_fit (rest_add1 M) rest_del1 rest_valid (rest_fits M) ops (rest_add1 M k' a s)" by simp_all
    from f(1,2) show ?thesis
    proof (cases rule: rest_add_cases)
      case (old old)
      with Cons.IH [OF f(3)] rest_add1_old [OF f(2) old(2,1), of M] show ?thesis
        by (auto simp: AddRoute split: option.split)
    next
      case (new mux)
      with Cons.IH [OF f(3)] rest_add1_new(3) [OF f(2) new(2,1,3) assms(2)] show ?thesis
        by (auto simp: AddRoute split: option.split)
    qed
  next
    case (DelRoute k')
    with Cons show ?thesis by (simp add: rest_del1_eq cong: option.case_cong)
  qed
qed

lemma Disable_twice [simp]: "Disable b (Disable b' r) = Disable b r" "IsDisable r = b \<Longrightarrow> Disable b r = r"
  by (auto simp: Disable_def IsDisable_def)

text \<open>Routers are only enabled and disabled.\<close>

lemma Disable_ex: "\<exists>b. r = Disable b r"
  using Disable_twice(2) [OF refl, of r] by metis

lemma rest_routers_run:
  assumes "ops_fit (rest_add1 M) rest_del1 rest_valid (rest_fits M) ops s"
  shows "\<exists>b. fst (run_ops (rest_add1 M) rest_del1 ops s) a = Disable b (fst s a)"
  using assms
proof (induction ops arbitrary: s)
  case Nil
  then show ?case using Disable_ex by simp
next
  case (Cons p ops)
  define s1 where "s1 = (case p of AddRoute k r \<Rightarrow> rest_add1 M k r s | DelRoute k \<Rightarrow> rest_del1 k s)"
  have 1: "\<exists>b. fst s1 a = Disable b (fst s a)"
  proof (cases p)
    case (AddRoute k r)
    with Cons.prems have f: "rest_fits M k r s" "rest_valid k" by simp_all
    then show ?thesis
    proof (cases rule: rest_add_cases)
      case (old old)
      from rest_add1_old(1) [OF f(2) old(2,1), of M] Disable_ex [of "fst s a"] show ?thesis
        by (cases "a = old") (auto simp: AddRoute s1_def)
    next
      case (new mux)
      from rest_add1_new(1) [OF f(2) new(2,1,3)] Disable_ex [of "fst s a"] show ?thesis
        by (simp add: AddRoute s1_def)
    qed
  next
    case (DelRoute k)
    then show ?thesis using Disable_ex [of "fst s a"]
      by (cases "rest_stored s k"; cases "rest_stored s k = Some a") (auto simp: s1_def rest_del1_eq)
  qed
  have "ops_fit (rest_add1 M) rest_del1 rest_valid (rest_fits M) ops s1" using Cons.prems by (cases p) (simp_all add: s1_def)
  from Cons.IH [OF this] 1 obtain b b' where "fst (run_ops (rest_add1 M) rest_del1 ops s1) a = Disable b (Disable b' (fst s a))" by auto
  moreover have "run_ops (rest_add1 M) rest_del1 (p # ops) s = run_ops (rest_add1 M) rest_del1 ops s1"
    by (cases p) (simp_all add: s1_def)
  ultimately show ?case by auto
qed

text \<open>C8: the HTTP endpoint serves what was added and not removed. Take any sequence of additions and
  removals of single routes on a fresh endpoint, with methods in capital letters and without spaces,
  static paths, and for every new key an enabled router from that path that no other key has and that the
  multiplexer takes. A request is handled, if the last operation on its method and path was an addition,
  by the router that was the first ever added for them, enabled again and otherwise as it was, whatever
  router later additions brought; if it was not, no chain is started, because no route matches or
  because the answer is 404.\<close>

theorem rest_dispatches:
  assumes "mux_law M" "rest_fresh x" "ops_fit (rest_add1 M) rest_del1 rest_valid (rest_fits M) ops (h, x)"
    and "rest_valid (hr_Method r, hr_Path r)"
  defines "s \<equiv> run_ops (rest_add1 M) rest_del1 ops (h, x)"
  shows "((hr_Method r, hr_Path r) \<in> spec_ops ops {} \<longrightarrow>
            (\<exists>a. first_added (hr_Method r, hr_Path r) ops = Some a \<and>
                 rest_serve env now uuid pools M s w r =
                   Some (rest_handler env now uuid pools (snd s) (Disable False (h a)) w r []) \<and>
                 FromToString (h a) = hr_Path r)) \<and>
         ((hr_Method r, hr_Path r) \<notin> spec_ops ops {} \<longrightarrow>
            (case rest_serve env now uuid pools M s w r of
               None \<Rightarrow> True
             | Some (ex, l) \<Rightarrow> l = None \<and> (\<exists>out. ex_Out ex = RestOut out \<and> rp_response out = Some (NotFound w))))"
proof -
  let ?k = "(hr_Method r, hr_Path r)"
  note ok0 = rest_fresh_ok [OF assms(1,2), of h]
  from rest_routes.served_run [OF conjunct1 [OF ok0] assms(3)] ok0
  have run: "rest_served s = spec_ops ops {}" "rest_ok M s" by (simp_all add: s_def)
  have look: "mx_Lookup M (hr_Method r) (hr_Path r) (rest_mux M s) = map_option (\<lambda>a. (a, [])) (rest_stored s ?k)"
    using rest_ok_lookup [OF run(2) assms(4)] by simp
  show ?thesis
  proof (cases "rest_stored s ?k")
    case None
    then have "?k \<notin> spec_ops ops {}" using run(1) by (simp add: rest_served_iff flip: run(1))
    with None look show ?thesis by (simp add: rest_serve_def rest_mux_def)
  next
    case (Some a)
    have served: "?k \<in> spec_ops ops {} \<longleftrightarrow> \<not> IsDisable (fst s a)"
      using assms(4) Some by (simp add: rest_served_iff flip: run(1))
    have h: "rest_serve env now uuid pools M s w r = Some (rest_handler env now uuid pools (snd s) (fst s a) w r [])"
      using look Some by (simp add: rest_serve_def rest_mux_def)
    obtain b where b: "fst s a = Disable b (h a)" using rest_routers_run [OF assms(3), of a] by (auto simp: s_def)
    have f: "first_added ?k ops = Some a"
      using rest_stored_run [OF assms(3,4)] Some assms(2) by (simp add: s_def rest_stored_def rest_fresh_def)
    have p: "FromToString (h a) = hr_Path r" using rest_ok_from [OF run(2) assms(4) Some] by (simp add: b)
    show ?thesis
    proof (cases b)
      case True
      with served h b show ?thesis by (auto simp: rest_handler_def Let_def)
    next
      case False
      with served h b f p show ?thesis by auto
    qed
  qed
qed

definition demo_rest :: "nat \<Rightarrow> (unit, unit, rest_message) Router" where
  "demo_rest a = \<lparr>rt_from = Some \<lparr>fr_Config = [], fr_From = (if a = 0 then ''/a'' else ''/b''), fr_processList = [], fr_to = None\<rparr>,
     rt_RuleGo = 0, rt_Config = types_NewConfig [], rt_disable = False\<rparr>"

definition demo_request :: "string \<Rightarrow> HttpRequest" where
  "demo_request p = \<lparr>hr_Method = ''GET'', hr_URL = p, hr_Path = p, hr_Header = [(''Content-Type'', ''application/json'')],
     hr_Body = ''{}'', hr_Query = [(''q'', [''1''])], hr_PostForm = None, hr_Form = None\<rparr>"

definition no_writer :: http_writer where
  "no_writer = \<lparr>hw_header = [], hw_status = None, hw_body = []\<rparr>"

definition demo_rest_ops :: "(string \<times> string, nat) route_op list" where
  "demo_rest_ops = [AddRoute (''GET'', ''/a'') 0, AddRoute (''GET'', ''/b'') 1, DelRoute (''GET'', ''/a''), DelRoute (''GET'', ''/b''),
     AddRoute (''GET'', ''/b'') 2]"

lemma demo_rest_fit:
  "ops_fit (rest_add1 assoc_mux) rest_del1 rest_valid (rest_fits assoc_mux) demo_rest_ops (demo_rest, rest_New)"
  by (auto simp: demo_rest_ops_def demo_rest_def rest_valid_def rest_fits_def rest_stored_def rest_mux_def rest_New_def assoc_mux_def
      rest_add1_def rest_del1_def rest_AddRouter_def rest_RemoveRouter_def rest_addRouter_def rest_routerKey_def Let_def FromToString_def
      IsDisable_def Disable_def ToUpper_def static_path_def split: if_splits)

theorem rest_dispatches_witness:
  "\<exists>s. s = run_ops (rest_add1 assoc_mux) rest_del1 demo_rest_ops (demo_rest, rest_New) \<and>
     rest_serve flag_env 1 ''u'' (\<lambda>_. []) assoc_mux s no_writer (demo_request ''/b'') =
       Some (rest_handler flag_env 1 ''u'' (\<lambda>_. []) (snd s) (Disable False (demo_rest 1)) no_writer (demo_request ''/b'') [])"
proof -
  have v: "rest_valid (hr_Method (demo_request ''/b''), hr_Path (demo_request ''/b''))"
    by (simp add: demo_request_def rest_valid_def ToUpper_def static_path_def)
  have f: "rest_fresh rest_New" by (simp add: rest_fresh_def rest_New_def)
  have k: "(hr_Method (demo_request ''/b''), hr_Path (demo_request ''/b'')) \<in> spec_ops demo_rest_ops {}"
    "first_added (hr_Method (demo_request ''/b''), hr_Path (demo_request ''/b'')) demo_rest_ops = Some 1"
    by (simp_all add: demo_rest_ops_def demo_request_def)
  show ?thesis
    using conjunct1 [OF rest_dispatches [OF assoc_mux_law f demo_rest_fit v, of flag_env 1 "''u''" "\<lambda>_. []" no_writer]] k
    by (auto simp: demo_request_def)
qed

text \<open>The message made from a request.\<close>

definition request_metadata :: "go_env \<Rightarrow> HttpRequest \<Rightarrow> (string \<times> string) list \<Rightarrow> (string, string) gomap" where
  "request_metadata env r params =
     fold (\<lambda>(k, v) m. if k = [] then m else gm_put k (query_value env v) m) (hr_Query r)
       (fold (\<lambda>(k, v) m. if k = [] then m else gm_put k v m) params [])"

definition request_msg :: "go_env \<Rightarrow> int \<Rightarrow> string \<Rightarrow> HttpRequest \<Rightarrow> (string \<times> string) list \<Rightarrow> RuleMsg" where
  "request_msg env now uuid r params =
     NewMsg now uuid uuid 0 (hr_URL r) (if map_of (hr_Header r) ''Content-Type'' = Some ''application/json'' then JSON else TEXT)
       (Some (request_metadata env r params)) (hr_Body r)"

lemma rest_content_type:
  "Header_Get h ContentTypeKey = JsonContextType \<longleftrightarrow> map_of h ''Content-Type'' = Some ''application/json''"
proof -
  have "CanonicalMIMEHeaderKey ContentTypeKey = ''Content-Type''" by code_simp
  then show ?thesis by (auto simp: Header_Get_def JsonContextType_def split: option.splits)
qed

lemma fold_puts:
  "k \<noteq> [] \<Longrightarrow> map_of (fold (\<lambda>(k, v) m. if k = [] then m else gm_put k (f v) m) ps m) k =
     (case map_of (rev ps) k of Some v \<Rightarrow> Some (f v) | None \<Rightarrow> map_of m k)"
  by (induction ps arbitrary: m) (auto split: option.splits simp: map_add_def)


text \<open>What a request becomes. An enabled router processes one message: its type is the URL, its data
  the body of the request, its data type JSON for exactly the content type \<open>application/json\<close> and text
  otherwise (also for \<open>application/json; charset=utf-8\<close>), and its metadata has every path parameter and
  every query parameter with a name; the query wins over a path parameter of the same name, and a
  repeated query parameter is stored as the JSON text of all its values.\<close>

theorem rest_request_msg:
  assumes "\<not> IsDisable router" and q: "\<forall>(k, v) \<in> set (hr_Query r). v \<noteq> []"
  shows "rest_handler env now uuid pools x router w r params =
      DoProcess (rest_ops now uuid) pools (rst_base x) router
        \<lparr>ex_In = RestIn \<lparr>rq_request = Some (snd (ReadBody r)), rq_body = Some (hr_Body r), rq_Params = params,
                        rq_msg = Some (request_msg env now uuid r params), rq_err = None\<rparr>,
         ex_Out = RestOut \<lparr>rp_request = Some (snd (ReadBody r)), rp_response = Some w, rp_body = None, rp_msg = None, rp_err = None\<rparr>\<rparr> \<and>
    (\<forall>k. k \<noteq> [] \<longrightarrow> map_of (request_metadata env r params) k =
       (case map_of (rev (hr_Query r)) k of Some v \<Rightarrow> Some (query_value env v) | None \<Rightarrow> map_of (rev params) k))"
    (is "?h \<and> ?m")
proof
  show ?h
    using assms(1)
    by (simp add: rest_handler_def Let_def rest_GetMsg_def rest_Headers_def rest_Body_def ReadBody_def rest_From_def request_msg_def request_metadata_def
        NewMsg_def newMsg_def NewMetadata_def put_params_Some put_query_Some [OF q] rest_content_type)
  show ?m
    using fold_puts [where f = "\<lambda>v. v" and ps = params and m = "[]"]
    by (simp add: request_metadata_def fold_puts split: option.splits)
qed

definition param_request :: HttpRequest where
  "param_request = \<lparr>hr_Method = ''GET'', hr_URL = ''/u/7?id=8&n=x'', hr_Path = ''/u/7'', hr_Header = [(''Content-Type'', ''application/json; charset=utf-8'')],
     hr_Body = ''{}'', hr_Query = [(''id'', [''8'']), (''n'', [''x''])], hr_PostForm = None, hr_Form = None\<rparr>"

theorem rest_request_msg_witness:
  "ex_In (fst (rest_handler flag_env 1 ''u'' (\<lambda>_. []) rest_New (demo_rest 0) no_writer param_request [(''id'', ''7'')])) =
     RestIn \<lparr>rq_request = Some (param_request\<lparr>hr_Body := []\<rparr>), rq_body = Some ''{}'', rq_Params = [(''id'', ''7'')],
       rq_msg = Some \<lparr>Ts = 1, MsgId = ''u'', DataType = TEXT, MsgType = ''/u/7?id=8&n=x'', Data = ''{}'',
                      MsgMetadata = Some [(''id'', ''8''), (''n'', ''x'')]\<rparr>, rq_err = None\<rparr>"
proof -
  have e: "\<not> IsDisable (demo_rest 0)" by (simp add: demo_rest_def IsDisable_def)
  have q: "\<forall>(k, v) \<in> set (hr_Query param_request). v \<noteq> []" by (simp add: param_request_def)
  show ?thesis
    unfolding conjunct1 [OF rest_request_msg [OF e q]]
    by (simp add: DoProcess_def demo_rest_def rest_New_def ExecuteProcess_def request_msg_def request_metadata_def NewMsg_def newMsg_def
        param_request_def ReadBody_def Header_Get_def query_value_def TEXT_def)
qed

text \<open>C40: the parameters of a form do not reach the processors. The handler has made the message of the
  request before the first processor runs, and that has read the body: \<open>GetParam\<close>, which the interface
  describes as \<open>http.Request.FormValue\<close>, never finds a value that was sent in the body, only the first one
  of the query.\<close>

theorem form_values_are_lost:
  assumes "rq_request r = Some q" "rq_body r = None" "rq_msg r = None" "hr_Form q = None"
    and "rest_GetMsg now uuid r = (msg, r')"
  shows "fst (rest_GetParam r' key) =
    (case map_of (concat (map (\<lambda>(k, vs). map (Pair k) vs) (hr_Query q))) key of Some v \<Rightarrow> v | None \<Rightarrow> [])"
proof -
  have "rq_request r' = Some (snd (ReadBody q))"
    using assms by (auto simp: rest_GetMsg_def rest_Body_def ReadBody_def Let_def)
  moreover have "ParseForm (snd (ReadBody q)) =
      (concat (map (\<lambda>(k, vs). map (Pair k) vs) (hr_Query q)), snd (ParseForm (snd (ReadBody q))))"
    using assms(4) by (simp add: ParseForm_def ReadBody_def Let_def split: option.split)
  moreover from this have "fst (ParseForm (snd (ReadBody q))) = concat (map (\<lambda>(k, vs). map (Pair k) vs) (hr_Query q))"
    by (metis fst_conv)
  ultimately show ?thesis by (simp add: rest_GetParam_def FormValue_def case_prod_beta)
qed

definition form_request :: HttpRequest where
  "form_request = \<lparr>hr_Method = ''POST'', hr_URL = ''/u?n=x'', hr_Path = ''/u'', hr_Header = [(''Content-Type'', ''application/x-www-form-urlencoded'')],
     hr_Body = ''id=7'', hr_Query = [(''n'', [''x''])], hr_PostForm = Some [(''id'', ''7'')], hr_Form = None\<rparr>"

definition form_message :: rest_RequestMessage where
  "form_message = \<lparr>rq_request = Some form_request, rq_body = None, rq_Params = [], rq_msg = None, rq_err = None\<rparr>"

theorem form_values_are_lost_witness:
  "fst (rest_GetParam (snd (rest_GetMsg 1 ''u'' form_message)) ''id'') = [] \<and> fst (rest_GetParam form_message ''id'') = ''7''"
proof
  show "fst (rest_GetParam (snd (rest_GetMsg 1 ''u'' form_message)) ''id'') = []"
    using form_values_are_lost [of form_message form_request 1 "''u''" "fst (rest_GetMsg 1 ''u'' form_message)"
        "snd (rest_GetMsg 1 ''u'' form_message)" "''id''"]
    by (simp add: form_message_def form_request_def)
  show "fst (rest_GetParam form_message ''id'') = ''7''" by code_simp
qed

lemma rest_AddRouter_two:
  assumes "mux_law M" "rest_fresh x" "\<not> IsDisable (h a)" "rt_from (h a) = Some f" "static_path (fr_From f)"
    and "rest_AddRouter M (Some a) [''GET'', ''POST''] (h, x) = (Inr rid, s)"
  shows "rid = fr_From f \<and> fst s = h \<and> rest_stored s (''GET'', rid) = Some a \<and> rest_stored s (''POST'', rid) = Some a \<and>
    mx_Lookup M ''GET'' rid (rest_mux M s) = Some (a, []) \<and> mx_Lookup M ''POST'' rid (rest_mux M s) = Some (a, [])"
proof -
  let ?p = "fr_From f"
  have path: "FromToString (h a) = ?p" using assms(4) by (simp add: FromToString_def)
  have up: "ToUpper ''GET'' = ''GET''" "ToUpper ''POST'' = ''POST''" by (simp_all add: ToUpper_def)
  have ne: "rest_routerKey ''POST'' ?p \<noteq> rest_routerKey ''GET'' ?p" by (simp add: rest_routerKey_def)
  obtain x1 where x1: "mx_Handle M ''GET'' ?p a (mx_New M) = Inr x1"
    using assms(2,6) up path by (cases "mx_Handle M ''GET'' ?p a (mx_New M)")
      (auto simp: rest_AddRouter_def rest_addRouter_def rest_fresh_def Let_def)
  obtain x2 where x2: "mx_Handle M ''POST'' ?p a x1 = Inr x2"
    using assms(2,6) up path x1 ne by (cases "mx_Handle M ''POST'' ?p a x1")
      (auto simp: rest_AddRouter_def rest_addRouter_def rest_fresh_def Let_def)
  have s: "rid = ?p" "s = (h, x\<lparr>rst_router := Some x2,
      rst_RouterStorage := Some (gm_put (rest_routerKey ''POST'' ?p) a (gm_put (rest_routerKey ''GET'' ?p) a []))\<rparr>)"
    using assms(2,4,6) up path x1 x2 ne by (auto simp: rest_AddRouter_def rest_addRouter_def rest_fresh_def Let_def)
  have "mx_Lookup M ''GET'' ?p x2 = Some (a, [])" "mx_Lookup M ''POST'' ?p x2 = Some (a, [])"
    using mux_law_Handle [OF assms(1,5) x2 assms(5)] mux_law_Handle [OF assms(1,5) x1 assms(5)] by auto
  with s ne show ?thesis by (simp add: rest_stored_def rest_mux_def)
qed

text \<open>a router that is added for two methods is one switch. After \<open>AddRouter(router, "GET", "POST")\<close>,
  removing the route of GET also turns the requests of POST into 404 answers, because the storage holds
  the same router twice and removing disables the router.\<close>

theorem rest_shared_router:
  assumes "mux_law M" "rest_fresh x" "\<not> IsDisable (h a)" "rt_from (h a) = Some f" "static_path (fr_From f)"
    and add: "rest_AddRouter M (Some a) [''GET'', ''POST''] (h, x) = (Inr rid, s)"
    and del: "rest_RemoveRouter rid [''GET''] s = (None, s')"
    and r: "hr_Method r = ''POST''" "hr_Path r = rid"
  shows "rest_serve env now uuid pools M s w r = Some (rest_handler env now uuid pools (snd s) (h a) w r []) \<and>
         (\<exists>ex out. rest_serve env now uuid pools M s' w r = Some (ex, None) \<and> ex_Out ex = RestOut out \<and>
            rp_response out = Some (NotFound w))"
proof -
  note two = rest_AddRouter_two [OF assms(1-6)]
  have s': "s' = (h(a := Disable True (h a)), snd s)"
    using del two by (cases s) (auto simp: rest_RemoveRouter_def rest_stored_def)
  show ?thesis
    using two r by (auto simp: s' rest_serve_def rest_mux_def rest_handler_def Let_def)
qed


theorem rest_shared_router_witness:
  "\<exists>s s' ex out. rest_AddRouter assoc_mux (Some 0) [''GET'', ''POST''] (demo_rest, rest_New) = (Inr ''/a'', s) \<and>
     rest_RemoveRouter ''/a'' [''GET''] s = (None, s') \<and>
     rest_serve flag_env 1 ''u'' (\<lambda>_. []) assoc_mux s' no_writer (demo_request ''/a''\<lparr>hr_Method := ''POST''\<rparr>) = Some (ex, None) \<and>
     ex_Out ex = RestOut out \<and> rp_response out = Some (NotFound no_writer)"
proof -
  let ?r = "demo_request ''/a''\<lparr>hr_Method := ''POST''\<rparr>" and ?f = "the (rt_from (demo_rest 0))"
  let ?add = "rest_AddRouter assoc_mux (Some 0) [''GET'', ''POST''] (demo_rest, rest_New)"
  let ?s = "snd ?add" let ?s' = "snd (rest_RemoveRouter ''/a'' [''GET''] ?s)"
  have f: "rest_fresh rest_New" by (simp add: rest_fresh_def rest_New_def)
  have d: "\<not> IsDisable (demo_rest 0)" "rt_from (demo_rest 0) = Some ?f" "static_path (fr_From ?f)"
    by (simp_all add: demo_rest_def IsDisable_def static_path_def)
  have a: "?add = (Inr ''/a'', ?s)"
    by (simp add: demo_rest_def rest_New_def assoc_mux_def rest_AddRouter_def rest_addRouter_def rest_routerKey_def Let_def FromToString_def
        ToUpper_def)
  have r: "rest_RemoveRouter ''/a'' [''GET''] ?s = (None, ?s')" by (simp add: rest_RemoveRouter_def)
  have q: "hr_Method ?r = ''POST''" "hr_Path ?r = ''/a''" by (simp_all add: demo_request_def)
  from conjunct2 [OF rest_shared_router [OF assoc_mux_law f d a r q, of flag_env 1 "''u''" "\<lambda>_. []" no_writer]]
  obtain ex out where x: "rest_serve flag_env 1 ''u'' (\<lambda>_. []) assoc_mux ?s' no_writer ?r = Some (ex, None)" "ex_Out ex = RestOut out"
    "rp_response out = Some (NotFound no_writer)" by blast
  show ?thesis by (rule exI [of _ ?s], rule exI [of _ ?s'], rule exI [of _ ex], rule exI [of _ out]) (intro conjI a r x)
qed

text \<open>A server that is started before the first route has a nil handler for ever: adding a route makes a
  multiplexer that no server has.\<close>

lemma rest_add_routers_server:
  "rest_add_routers M method routers (h, x) = (err, h', x') \<Longrightarrow> rst_server x' = rst_server x"
  by (induction routers arbitrary: h x) (auto simp: Let_def split: option.splits sum.splits)

lemma rest_add_routers_router:
  "rest_add_routers M method routers (h, x) = (err, h', x') \<Longrightarrow> rst_router x \<noteq> None \<Longrightarrow> rst_router x' \<noteq> None"
  by (induction routers arbitrary: h x) (auto simp: Let_def split: option.splits sum.splits)

lemma rest_start_too_early:
  assumes "rst_router x = None" "rest_Start listen x = (e, y)" "rest_addRouter M method routers (h, y) = (None, h', z)"
  shows "rst_router z \<noteq> None \<and> rst_server z = Some (rcf_Server (rst_Config x), False)"
proof
  have y: "rst_server y = Some (rcf_Server (rst_Config x), False)" using assms(1,2) by (auto simp: rest_Start_def Let_def)
  show "rst_server z = Some (rcf_Server (rst_Config x), False)"
    using assms(3) rest_add_routers_server y by (fastforce simp: rest_addRouter_def Let_def)
  from assms(3) rest_add_routers_router show "rst_router z \<noteq> None" by (fastforce simp: rest_addRouter_def Let_def)
qed

text \<open>The method of a route that is removed is not put into capitals as that of a route that is added.\<close>

lemma rest_remove_lower_case:
  assumes "rest_fresh x" "rest_AddRouter M (Some a) [''get''] (h, x) = (Inr p, s)"
  shows "rest_stored s (''GET'', p) = Some a \<and> rest_RemoveRouter p [''get''] s = (None, s)"
proof -
  have up: "ToUpper ''get'' = ''GET''" by code_simp
  have key: "rest_routerKey ''get'' p \<noteq> rest_routerKey ''GET'' p'" for p' by (simp add: rest_routerKey_def)
  obtain f x' where f: "rt_from (h a) = Some f" "p = fr_From f" and s: "s = (h, x')"
    "rst_RouterStorage x' = Some [(rest_routerKey ''GET'' p, a)]"
    using assms up
    by (auto simp: rest_AddRouter_def rest_addRouter_def rest_fresh_def FromToString_def Let_def
        split: prod.splits option.splits sum.splits)
  with key show ?thesis by (simp add: rest_stored_def rest_RemoveRouter_def)
qed

end
