(* ===== verification/WsEndpoint.thy ===== *)
theory WsEndpoint
  imports RestEndpoint
begin

text \<open>
  The WebSocket endpoint (\<open>endpoint/websocket/websocket.go\<close>). It keeps its routers as the HTTP endpoint does,
  in a record with the same fields; its connection upgrader has its zero value and is a parameter. A
  connection is the sequence of what \<open>ReadMessage\<close> returns, with the moments at which another goroutine
  disables or enables the router.
\<close>

section \<open>Messages\<close>

definition TextMessage :: int where "TextMessage = 1"
definition BinaryMessage :: int where "BinaryMessage = 2"

record ws_RequestMessage =
  wq_messageType :: int
  wq_request :: "HttpRequest option"
  wq_body :: string
  wq_Params :: "(string \<times> string) list"
  wq_msg :: "RuleMsg option"
  wq_err :: "error option"

definition ws_Headers :: "ws_RequestMessage \<Rightarrow> (string, string) gomap" where
  "ws_Headers r = (case wq_request r of None \<Rightarrow> [] | Some q \<Rightarrow> hr_Header q)"

definition ws_From :: "ws_RequestMessage \<Rightarrow> string" where
  "ws_From r = (case wq_request r of None \<Rightarrow> [] | Some q \<Rightarrow> hr_URL q)"

definition ws_GetParam :: "ws_RequestMessage \<Rightarrow> string \<Rightarrow> string \<times> ws_RequestMessage" where
  "ws_GetParam r key =
     (case wq_request r of None \<Rightarrow> ([], r) | Some q \<Rightarrow> (case FormValue q key of (v, q) \<Rightarrow> (v, r\<lparr>wq_request := Some q\<rparr>)))"

definition ws_SetMsg :: "RuleMsg \<Rightarrow> ws_RequestMessage \<Rightarrow> ws_RequestMessage" where
  "ws_SetMsg msg r = r\<lparr>wq_msg := Some msg\<rparr>"

definition ws_GetMsg :: "int \<Rightarrow> string \<Rightarrow> ws_RequestMessage \<Rightarrow> RuleMsg \<times> ws_RequestMessage" where
  "ws_GetMsg now uuid r =
     (case wq_msg r of
        Some msg \<Rightarrow> (msg, r)
      | None \<Rightarrow>
          (let dataType = (if wq_messageType r = BinaryMessage then BINARY else JSON);
               msg = NewMsg now uuid uuid 0 (ws_From r) dataType NewMetadata (wq_body r)
           in (msg, r\<lparr>wq_msg := Some msg\<rparr>)))"

definition ws_SetBody :: "string \<Rightarrow> ws_RequestMessage \<Rightarrow> ws_RequestMessage" where
  "ws_SetBody body r = r\<lparr>wq_body := body\<rparr>"

definition ws_SetError :: "error \<Rightarrow> ws_RequestMessage \<Rightarrow> ws_RequestMessage" where
  "ws_SetError err r = r\<lparr>wq_err := Some err\<rparr>"

record ws_ResponseMessage =
  wp_headers :: "(string, string) gomap"
  wp_messageType :: int
  wp_request :: "HttpRequest option"
  wp_conn :: "(int \<times> string) list option"
  wp_body :: string
  wp_msg :: "RuleMsg option"
  wp_err :: "error option"

definition ws_out_From :: "ws_ResponseMessage \<Rightarrow> string" where
  "ws_out_From r = (case wp_request r of None \<Rightarrow> [] | Some q \<Rightarrow> hr_URL q)"

definition ws_out_GetParam :: "ws_ResponseMessage \<Rightarrow> string \<Rightarrow> string \<times> ws_ResponseMessage" where
  "ws_out_GetParam r key =
     (case wp_request r of None \<Rightarrow> ([], r) | Some q \<Rightarrow> (case FormValue q key of (v, q) \<Rightarrow> (v, r\<lparr>wp_request := Some q\<rparr>)))"

definition ws_out_SetMsg :: "RuleMsg \<Rightarrow> ws_ResponseMessage \<Rightarrow> ws_ResponseMessage" where
  "ws_out_SetMsg msg r = r\<lparr>wp_msg := Some msg\<rparr>"

text \<open>The answer is sent with the type of the message it answers; an error of the write is logged.\<close>

definition ws_out_SetBody :: "string \<Rightarrow> ws_ResponseMessage \<Rightarrow> ws_ResponseMessage" where
  "ws_out_SetBody body r =
     (let r = r\<lparr>wp_body := body\<rparr>
      in case wp_conn r of Some sent \<Rightarrow> r\<lparr>wp_conn := Some (sent @ [(wp_messageType r, body)])\<rparr> | None \<Rightarrow> r)"

definition ws_out_SetError :: "error \<Rightarrow> ws_ResponseMessage \<Rightarrow> ws_ResponseMessage" where
  "ws_out_SetError err r = r\<lparr>wp_err := Some err\<rparr>"

datatype ws_message = WsIn ws_RequestMessage | WsOut ws_ResponseMessage

definition ws_ops :: "int \<Rightarrow> string \<Rightarrow> ws_message message_ops" where
  "ws_ops now uuid =
     \<lparr>mo_GetMsg = (\<lambda>m. case m of
          WsIn r \<Rightarrow> (case ws_GetMsg now uuid r of (msg, r) \<Rightarrow> (Some msg, WsIn r))
        | WsOut r \<Rightarrow> (wp_msg r, WsOut r)),
      mo_SetMsg = (\<lambda>msg m. case m of WsIn r \<Rightarrow> WsIn (ws_SetMsg msg r) | WsOut r \<Rightarrow> WsOut (ws_out_SetMsg msg r)),
      mo_SetError = (\<lambda>e m. case m of WsIn r \<Rightarrow> WsIn (ws_SetError e r) | WsOut r \<Rightarrow> WsOut (ws_out_SetError e r))\<rparr>"

section \<open>The endpoint\<close>

type_synonym ('w, 'm, 'mux) Websocket = "('w, 'm, 'mux) Rest"

definition ws_Init ::
  "(Configuration \<Rightarrow> rest_Config \<Rightarrow> error option \<times> rest_Config) \<Rightarrow> 'w Config \<Rightarrow> Configuration \<Rightarrow> ('w, 'm, 'mux) Websocket
     \<Rightarrow> error option \<times> ('w, 'm, 'mux) Websocket" where
  "ws_Init decode ruleConfig configuration x =
     (case decode configuration (rst_Config x) of
        (err, c) \<Rightarrow> (err, x\<lparr>rst_Config := c, rst_RuleConfig := Some ruleConfig\<rparr>))"

definition ws_Close :: "error option \<Rightarrow> ('w, 'm, 'mux) Websocket \<Rightarrow> error option" where
  "ws_Close shutdown x = (case rst_server x of Some _ \<Rightarrow> shutdown | None \<Rightarrow> None)"

definition ws_Id :: "('w, 'm, 'mux) Websocket \<Rightarrow> string" where
  "ws_Id x = rcf_Server (rst_Config x)"

definition ws_routerKey :: "string \<Rightarrow> string \<Rightarrow> string" where
  "ws_routerKey method from = method @ '' '' @ from"

fun ws_add_routers ::
  "'mux mux_ops \<Rightarrow> nat list \<Rightarrow> ('n, 'w, 'm) router_heap \<times> ('w, 'm, 'mux) Websocket
     \<Rightarrow> error option \<times> ('n, 'w, 'm) router_heap \<times> ('w, 'm, 'mux) Websocket" where
  "ws_add_routers M [] (h, x) = (None, h, x)"
| "ws_add_routers M (item # items) (h, x) =
     (let key = ws_routerKey ''GET'' (FromToString (h item))
      in case map_of (gm_of (rst_RouterStorage x)) key of
           Some old \<Rightarrow> ws_add_routers M items (h(old := Disable False (h old)), x)
         | None \<Rightarrow>
             (let x = x\<lparr>rst_RouterStorage := Some (gm_put key item (gm_of (rst_RouterStorage x)))\<rparr>
              in case mx_Handle M ''GET'' (FromToString (h item)) item (case rst_router x of Some mux \<Rightarrow> mux | None \<Rightarrow> mx_New M) of
                   Inl e \<Rightarrow> (Some e, h, x)
                 | Inr mux \<Rightarrow> ws_add_routers M items (h, x\<lparr>rst_router := Some mux\<rparr>)))"

definition ws_addRouter ::
  "'mux mux_ops \<Rightarrow> nat list \<Rightarrow> ('n, 'w, 'm) router_heap \<times> ('w, 'm, 'mux) Websocket
     \<Rightarrow> error option \<times> ('n, 'w, 'm) router_heap \<times> ('w, 'm, 'mux) Websocket" where
  "ws_addRouter M routers s =
     (let x = snd s;
          x = x\<lparr>rst_router := Some (case rst_router x of Some mux \<Rightarrow> mux | None \<Rightarrow> mx_New M)\<rparr>;
          x = x\<lparr>rst_RouterStorage := Some (gm_of (rst_RouterStorage x))\<rparr>
      in ws_add_routers M routers (fst s, x))"

definition ws_AddRouter ::
  "'mux mux_ops \<Rightarrow> nat option \<Rightarrow> ('n, 'w, 'm) router_heap \<times> ('w, 'm, 'mux) Websocket
     \<Rightarrow> (error + string) \<times> ('n, 'w, 'm) router_heap \<times> ('w, 'm, 'mux) Websocket" where
  "ws_AddRouter M router s =
     (case router of
        None \<Rightarrow> (Inl ''router can not nil'', s)
      | Some a \<Rightarrow>
          (case ws_addRouter M [a] s of
             (Some e, s) \<Rightarrow> (Inl e, s)
           | (None, s) \<Rightarrow>
               (case rt_from (fst s a) of
                  None \<Rightarrow> (Inl ''invalid memory address or nil pointer dereference'', s)
                | Some f \<Rightarrow> (Inr (fr_From f), s))))"

definition ws_RemoveRouter ::
  "string \<Rightarrow> ('n, 'w, 'm) router_heap \<times> ('w, 'm, 'mux) Websocket
     \<Rightarrow> error option \<times> ('n, 'w, 'm) router_heap \<times> ('w, 'm, 'mux) Websocket" where
  "ws_RemoveRouter routerId s =
     (None,
      case map_of (gm_of (rst_RouterStorage (snd s))) (ws_routerKey ''GET'' routerId) of
        Some router \<Rightarrow> ((fst s)(router := Disable True (fst s router)), snd s)
      | None \<Rightarrow> s)"

definition ws_Start :: "(bool \<Rightarrow> error option) \<Rightarrow> ('w, 'm, 'mux) Websocket \<Rightarrow> error option \<times> ('w, 'm, 'mux) Websocket" where
  "ws_Start listen x =
     (let x = x\<lparr>rst_server := Some (rcf_Server (rst_Config x), rst_router x \<noteq> None)\<rparr>
      in (listen (rcf_CertKeyFile (rst_Config x) \<noteq> [] \<and> rcf_CertFile (rst_Config x) \<noteq> []), x))"

section \<open>A connection\<close>

text \<open>The exchange for one message; the panics of the metadata loops are errors.\<close>

definition ws_exchange ::
  "go_env \<Rightarrow> int \<Rightarrow> string \<Rightarrow> HttpRequest \<Rightarrow> (string \<times> string) list \<Rightarrow> int \<Rightarrow> string \<Rightarrow> (int \<times> string) list \<Rightarrow> error + ws_message Exchange" where
  "ws_exchange env now uuid r params mt message sent =
     (let inp = \<lparr>wq_messageType = mt, wq_request = Some r, wq_body = message, wq_Params = params, wq_msg = None, wq_err = None\<rparr>;
          out = \<lparr>wp_headers = [], wp_messageType = mt, wp_request = Some r, wp_conn = Some sent, wp_body = [], wp_msg = None, wp_err = None\<rparr>
      in case ws_GetMsg now uuid inp of
           (msg, inp) \<Rightarrow>
             (case put_params params (MsgMetadata msg) of
                Inl e \<Rightarrow> Inl e
              | Inr md \<Rightarrow>
                  (case PutValue md ''messageType'' (Itoa mt) of
                     Inl e \<Rightarrow> Inl e
                   | Inr md \<Rightarrow>
                       (case put_query env (hr_Query r) md of
                          Inl e \<Rightarrow> Inl e
                        | Inr md \<Rightarrow> Inr \<lparr>ex_In = WsIn (inp\<lparr>wq_msg := Some (msg\<lparr>MsgMetadata := md\<rparr>)\<rparr>), ex_Out = WsOut out\<rparr>))))"

datatype ws_event = WsMessage int string | WsReadError error | WsSwitch bool

text \<open>The state of a connection: what was sent to the client, what was started, whether it is still open.\<close>

record ('n, 'w) ws_conn =
  wc_sent :: "(int \<times> string) list"
  wc_launched :: "('n, 'w) launch list"
  wc_open :: bool

definition ws_process ::
  "go_env \<Rightarrow> int \<Rightarrow> string \<Rightarrow> (nat \<Rightarrow> ('n, 'w) RuleGo) \<Rightarrow> ws_message BaseEndpoint \<Rightarrow> ('n, 'w, ws_message) Router
     \<Rightarrow> HttpRequest \<Rightarrow> (string \<times> string) list \<Rightarrow> int \<Rightarrow> string \<Rightarrow> ('n, 'w) ws_conn \<Rightarrow> ('n, 'w) ws_conn" where
  "ws_process env now uuid pools base router r params mt message c =
     (case ws_exchange env now uuid r params mt message (wc_sent c) of
        Inl e \<Rightarrow> c\<lparr>wc_open := False\<rparr>
      | Inr ex \<Rightarrow>
          (case DoProcess (ws_ops now uuid) pools base router ex of
             (ex, l) \<Rightarrow>
               c\<lparr>wc_sent := (case ex_Out ex of WsOut out \<Rightarrow> (case wp_conn out of Some sent \<Rightarrow> sent | None \<Rightarrow> wc_sent c) | WsIn _ \<Rightarrow> wc_sent c),
                 wc_launched := wc_launched c @ (case l of Some l \<Rightarrow> [l] | None \<Rightarrow> [])\<rparr>))"

text \<open>The loop of the handler. \<open>http.NotFound\<close> writes nothing, because the connection was taken over from the server
  by the upgrade.\<close>

fun ws_loop ::
  "(('n, 'w, ws_message) Router \<Rightarrow> int \<Rightarrow> string \<Rightarrow> ('n, 'w) ws_conn \<Rightarrow> ('n, 'w) ws_conn) \<Rightarrow> ('n, 'w, ws_message) Router
     \<Rightarrow> ws_event list \<Rightarrow> ('n, 'w) ws_conn \<Rightarrow> ('n, 'w) ws_conn" where
  "ws_loop f router [] c = c"
| "ws_loop f router (WsSwitch b # evs) c = ws_loop f (Disable b router) evs c"
| "ws_loop f router (WsReadError e # evs) c = c\<lparr>wc_open := False\<rparr>"
| "ws_loop f router (WsMessage mt message # evs) c =
     (if IsDisable router then c\<lparr>wc_open := False\<rparr>
      else if mt \<noteq> BinaryMessage \<and> mt \<noteq> TextMessage then ws_loop f router evs c
      else let c = f router mt message c in if wc_open c then ws_loop f router evs c else c)"

definition ws_handler ::
  "go_env \<Rightarrow> int \<Rightarrow> string \<Rightarrow> (nat \<Rightarrow> ('n, 'w) RuleGo) \<Rightarrow> ('w, ws_message, 'mux) Websocket \<Rightarrow> ('n, 'w, ws_message) Router
     \<Rightarrow> HttpRequest \<Rightarrow> (string \<times> string) list \<Rightarrow> error option \<Rightarrow> ws_event list \<Rightarrow> ('n, 'w) ws_conn" where
  "ws_handler env now uuid pools x router r params upgrade evs =
     (let c = \<lparr>wc_sent = [], wc_launched = [], wc_open = True\<rparr>
      in case upgrade of
           Some err \<Rightarrow> c\<lparr>wc_open := False\<rparr>
         | None \<Rightarrow> ws_loop (\<lambda>router mt message c. ws_process env now uuid pools (rst_base x) router r params mt message c) router evs c)"

section \<open>Properties\<close>

lemma ws_add_routers_eq: "ws_add_routers M routers s = rest_add_routers M ''GET'' routers s"
proof (induction routers arbitrary: s)
  case Nil
  then show ?case by (cases s) simp
next
  case (Cons a routers)
  then show ?case
    by (cases s) (auto simp: ws_routerKey_def rest_routerKey_def Let_def split: option.splits sum.splits)
qed

text \<open>the WebSocket endpoint keeps its routes exactly as the HTTP endpoint keeps the routes of GET:
  adding and removing a router have the same effect on the storage, the multiplexer and the routers, and the
  same result. What holds of the routing table of the one holds of the other.\<close>

theorem websocket_routes_like_rest:
  "ws_AddRouter M (Some a) s = rest_AddRouter M (Some a) [''GET''] s \<and>
   ws_RemoveRouter p s = rest_RemoveRouter p [''GET''] s"
proof -
  have "ToUpper ''GET'' = ''GET''" by (simp add: ToUpper_def)
  then have "ws_addRouter M [a] s = rest_addRouter M ''GET'' [a] s"
    by (simp add: ws_addRouter_def rest_addRouter_def ws_add_routers_eq Let_def del: rest_add_routers.simps)
  then show ?thesis
    by (cases s) (auto simp: ws_AddRouter_def rest_AddRouter_def ws_RemoveRouter_def rest_RemoveRouter_def ws_routerKey_def rest_routerKey_def
        split: prod.splits option.splits)
qed

lemma ws_exchange_ok:
  assumes "\<forall>(k, v) \<in> set (hr_Query r). v \<noteq> []"
  shows "\<exists>ex. ws_exchange env now uuid r params mt message sent = Inr ex"
  by (simp add: ws_exchange_def ws_GetMsg_def Let_def NewMsg_def newMsg_def NewMetadata_def put_params_Some PutValue_def put_query_Some [OF assms])

lemma ws_process_open:
  assumes "\<forall>(k, v) \<in> set (hr_Query r). v \<noteq> []"
  shows "wc_open (ws_process env now uuid pools base router r params mt message c) = wc_open c"
  using ws_exchange_ok [OF assms, of env now uuid params mt message "wc_sent c"]
  by (auto simp: ws_process_def split: prod.splits)

lemma ws_loop_messages:
  assumes "\<not> IsDisable router" "\<And>mt m c. wc_open (f router mt m c) = wc_open c" "wc_open c"
  shows "ws_loop f router (map (\<lambda>(mt, m). WsMessage mt m) ms @ evs) c =
    ws_loop f router evs (fold (\<lambda>(mt, m) c. f router mt m c) (filter (\<lambda>(mt, m). mt = 1 \<or> mt = 2) ms) c)"
  using assms(3)
proof (induction ms arbitrary: c)
  case (Cons p ms)
  obtain mt m where p: "p = (mt, m)" by force
  show ?case
    using Cons.IH [of c] Cons.IH [of "f router mt m c"] Cons.prems assms(1,2)
    by (auto simp: p Let_def BinaryMessage_def TextMessage_def)
qed simp

text \<open>a WebSocket connection. The text and binary messages of a client are processed one after the other
  in the order they were sent, messages of other types are skipped, and once the router has been removed the next
  message, whatever it is, closes the connection without being processed; nothing after it is read.\<close>

theorem ws_session:
  assumes "\<not> IsDisable router" and q: "\<forall>(k, v) \<in> set (hr_Query r). v \<noteq> []"
  shows "ws_handler env now uuid pools x router r params None
      (map (\<lambda>(mt, m). WsMessage mt m) ms @ WsSwitch True # WsMessage mt message # evs) =
    (fold (\<lambda>(mt, m) c. ws_process env now uuid pools (rst_base x) router r params mt m c)
       (filter (\<lambda>(mt, m). mt = 1 \<or> mt = 2) ms) \<lparr>wc_sent = [], wc_launched = [], wc_open = True\<rparr>)\<lparr>wc_open := False\<rparr>"
  unfolding ws_handler_def
  by (simp add: ws_loop_messages [OF assms(1)] ws_process_open [OF q])

definition ws_echo :: "(unit, unit, ws_message) Router" where
  "ws_echo = \<lparr>rt_from = Some \<lparr>fr_Config = [], fr_From = ''/ws'',
     fr_processList = [\<lambda>ex. (True, case ex_Out ex of WsOut out \<Rightarrow> ex\<lparr>ex_Out := WsOut (ws_out_SetBody (case ex_In ex of WsIn i \<Rightarrow> wq_body i | _ \<Rightarrow> []) out)\<rparr> | _ \<Rightarrow> ex)],
     fr_to = None\<rparr>, rt_RuleGo = 0, rt_Config = types_NewConfig [], rt_disable = False\<rparr>"

lemma ws_echo_process:
  "ws_process flag_env 1 ''u'' (\<lambda>_. []) (rst_base rest_New) ws_echo (demo_request ''/ws'') [] mt m \<lparr>wc_sent = s, wc_launched = l, wc_open = b\<rparr> =
     \<lparr>wc_sent = s @ [(mt, m)], wc_launched = l, wc_open = b\<rparr>"
  by (simp add: ws_process_def ws_exchange_def ws_GetMsg_def Let_def NewMsg_def newMsg_def NewMetadata_def PutValue_def demo_request_def
      DoProcess_def rest_New_def ws_echo_def ExecuteProcess_def ws_out_SetBody_def)

theorem ws_session_witness:
  "ws_handler flag_env 1 ''u'' (\<lambda>_. []) rest_New ws_echo (demo_request ''/ws'') [] None
     [WsMessage 1 ''a'', WsMessage 9 ''x'', WsMessage 2 ''b'', WsSwitch True, WsMessage 1 ''c'', WsMessage 1 ''d''] =
   \<lparr>wc_sent = [(1, ''a''), (2, ''b'')], wc_launched = [], wc_open = False\<rparr>"
proof -
  have e: "\<not> IsDisable ws_echo" by (simp add: ws_echo_def IsDisable_def)
  have q: "\<forall>(k, v) \<in> set (hr_Query (demo_request ''/ws'')). v \<noteq> []" by (simp add: demo_request_def)
  from ws_session [OF e q, of flag_env 1 "''u''" "\<lambda>_. []" rest_New "[]" "[(1, ''a''), (9, ''x''), (2, ''b'')]" 1 "''c''" "[WsMessage 1 ''d'']"]
  show ?thesis by (simp add: ws_echo_process)
qed

end
