(* ===== verification/NetEndpoint.thy ===== *)
theory NetEndpoint
  imports Routes
begin

text \<open>
  The network endpoint (\<open>endpoint/net/net.go\<close>): lines read from a connection, matched against the regular
  expressions of the routers. The connection is the sequence of what its reads give, byte by byte, and
  the line reader of \<open>bufio\<close> is modelled with its buffer of 4096 bytes. Regular expressions are
  those of the \<open>regexp\<close> package, given by their two operations.
\<close>

section \<open>Messages\<close>

definition RemoteAddrKey :: string where "RemoteAddrKey = ''remoteAddr''"
definition PingData :: string where "PingData = ''ping''"

record net_conn =
  nc_RemoteAddr :: string
  nc_written :: "string list"

record net_RequestMessage =
  nq_headers :: "(string, string) gomap"
  nq_conn :: "net_conn option"
  nq_body :: string
  nq_msg :: "RuleMsg option"
  nq_err :: "error option"

definition net_Headers :: "net_RequestMessage \<Rightarrow> (string, string) gomap \<times> net_RequestMessage" where
  "net_Headers r =
     (let r = (case nq_conn r of Some c \<Rightarrow> r\<lparr>nq_headers := Header_Set RemoteAddrKey (nc_RemoteAddr c) (nq_headers r)\<rparr> | None \<Rightarrow> r)
      in (nq_headers r, r))"

definition net_From :: "net_RequestMessage \<Rightarrow> string" where
  "net_From r = (case nq_conn r of None \<Rightarrow> [] | Some c \<Rightarrow> nc_RemoteAddr c)"

definition net_GetMsg :: "int \<Rightarrow> string \<Rightarrow> net_RequestMessage \<Rightarrow> RuleMsg \<times> net_RequestMessage" where
  "net_GetMsg now uuid r =
     (case nq_msg r of
        Some msg \<Rightarrow> (msg, r)
      | None \<Rightarrow>
          (let msg = NewMsg now uuid uuid 0 (net_From r) TEXT NewMetadata (nq_body r)
           in (msg, r\<lparr>nq_msg := Some msg\<rparr>)))"

definition net_SetMsg :: "RuleMsg \<Rightarrow> net_RequestMessage \<Rightarrow> net_RequestMessage" where
  "net_SetMsg msg r = r\<lparr>nq_msg := Some msg\<rparr>"

definition net_SetBody :: "string \<Rightarrow> net_RequestMessage \<Rightarrow> net_RequestMessage" where
  "net_SetBody body r = r\<lparr>nq_body := body\<rparr>"

definition net_SetError :: "error \<Rightarrow> net_RequestMessage \<Rightarrow> net_RequestMessage" where
  "net_SetError err r = r\<lparr>nq_err := Some err\<rparr>"

record net_ResponseMessage =
  np_headers :: "(string, string) gomap"
  np_conn :: "net_conn option"
  np_body :: string
  np_msg :: "RuleMsg option"
  np_err :: "error option"

definition net_out_Headers :: "net_ResponseMessage \<Rightarrow> (string, string) gomap \<times> net_ResponseMessage" where
  "net_out_Headers r =
     (let r = (case np_conn r of Some c \<Rightarrow> r\<lparr>np_headers := Header_Set RemoteAddrKey (nc_RemoteAddr c) (np_headers r)\<rparr> | None \<Rightarrow> r)
      in (np_headers r, r))"

definition net_out_From :: "net_ResponseMessage \<Rightarrow> string" where
  "net_out_From r = (case np_conn r of None \<Rightarrow> [] | Some c \<Rightarrow> nc_RemoteAddr c)"

definition net_out_SetMsg :: "RuleMsg \<Rightarrow> net_ResponseMessage \<Rightarrow> net_ResponseMessage" where
  "net_out_SetMsg msg r = r\<lparr>np_msg := Some msg\<rparr>"

text \<open>The answer is written to the connection as it is; an error of the write is logged.\<close>

definition net_out_SetBody :: "string \<Rightarrow> net_ResponseMessage \<Rightarrow> net_ResponseMessage" where
  "net_out_SetBody body r =
     (let r = r\<lparr>np_body := body\<rparr>
      in case np_conn r of None \<Rightarrow> r | Some c \<Rightarrow> r\<lparr>np_conn := Some (c\<lparr>nc_written := nc_written c @ [body]\<rparr>)\<rparr>)"

definition net_out_SetError :: "error \<Rightarrow> net_ResponseMessage \<Rightarrow> net_ResponseMessage" where
  "net_out_SetError err r = r\<lparr>np_err := Some err\<rparr>"

datatype net_message = NetIn net_RequestMessage | NetOut net_ResponseMessage

definition net_ops :: "int \<Rightarrow> string \<Rightarrow> net_message message_ops" where
  "net_ops now uuid =
     \<lparr>mo_GetMsg = (\<lambda>m. case m of
          NetIn r \<Rightarrow> (case net_GetMsg now uuid r of (msg, r) \<Rightarrow> (Some msg, NetIn r))
        | NetOut r \<Rightarrow> (np_msg r, NetOut r)),
      mo_SetMsg = (\<lambda>msg m. case m of NetIn r \<Rightarrow> NetIn (net_SetMsg msg r) | NetOut r \<Rightarrow> NetOut (net_out_SetMsg msg r)),
      mo_SetError = (\<lambda>e m. case m of NetIn r \<Rightarrow> NetIn (net_SetError e r) | NetOut r \<Rightarrow> NetOut (net_out_SetError e r))\<rparr>"

section \<open>The endpoint and its routers\<close>

record net_Config =
  ncf_Protocol :: string
  ncf_Server :: string
  ncf_ReadTimeout :: int

record 're regexp_ops =
  re_Compile :: "string \<Rightarrow> error + 're"
  re_Match :: "'re \<Rightarrow> string \<Rightarrow> bool"

record ('n, 'w, 'm, 're) RegexpRouter =
  rr_router :: "('n, 'w, 'm) Router"
  rr_regexp :: "'re option"

record ('n, 'w, 'm, 're) net_Endpoint =
  ne_base :: "'m BaseEndpoint"
  ne_Config :: net_Config
  ne_RuleConfig :: "'w Config option"
  ne_listener :: bool
  ne_routers :: "(string, ('n, 'w, 'm, 're) RegexpRouter) gomap option"

definition net_New :: "('n, 'w, 'm, 're) net_Endpoint" where
  "net_New = \<lparr>ne_base = \<lparr>be_interceptors = []\<rparr>, ne_Config = \<lparr>ncf_Protocol = ''tcp'', ncf_Server = [], ncf_ReadTimeout = 60\<rparr>,
     ne_RuleConfig = None, ne_listener = False, ne_routers = None\<rparr>"

definition net_Init ::
  "(Configuration \<Rightarrow> net_Config \<Rightarrow> error option \<times> net_Config) \<Rightarrow> 'w Config \<Rightarrow> Configuration \<Rightarrow> ('n, 'w, 'm, 're) net_Endpoint
     \<Rightarrow> error option \<times> ('n, 'w, 'm, 're) net_Endpoint" where
  "net_Init decode ruleConfig configuration ep =
     (case decode configuration (ne_Config ep) of
        (err, c) \<Rightarrow>
          (let c = (if ncf_Protocol c = [] then c\<lparr>ncf_Protocol := ''tcp''\<rparr> else c)
           in (err, ep\<lparr>ne_Config := c, ne_RuleConfig := Some ruleConfig\<rparr>)))"

definition net_Close :: "error option \<Rightarrow> ('n, 'w, 'm, 're) net_Endpoint \<Rightarrow> error option \<times> ('n, 'w, 'm, 're) net_Endpoint" where
  "net_Close close ep = (if ne_listener ep then (close, ep\<lparr>ne_listener := False\<rparr>) else (None, ep))"

definition net_Id :: "('n, 'w, 'm, 're) net_Endpoint \<Rightarrow> string" where
  "net_Id ep = ncf_Server (ne_Config ep)"

text \<open>An empty expression matches everything. The result has the id of the route and the error, if any; a router
  without a \<open>From\<close> panics.\<close>

definition net_AddRouter ::
  "'re regexp_ops \<Rightarrow> ('n, 'w, 'm) Router option \<Rightarrow> ('n, 'w, 'm, 're) net_Endpoint
     \<Rightarrow> (string \<times> error option) \<times> ('n, 'w, 'm, 're) net_Endpoint" where
  "net_AddRouter R router ep =
     (case router of
        None \<Rightarrow> (([], Some ''router can not nil''), ep)
      | Some r \<Rightarrow>
          (case rt_from r of
             None \<Rightarrow> (([], Some ''invalid memory address or nil pointer dereference''), ep)
           | Some f \<Rightarrow>
               (let expr = fr_From f
                in case (if expr \<noteq> [] then map_sum (\<lambda>e. e) Some (re_Compile R expr) else Inr None) of
                     Inl err \<Rightarrow> (([], Some err), ep)
                   | Inr regexpV \<Rightarrow>
                       (let ep = ep\<lparr>ne_routers := Some (gm_of (ne_routers ep))\<rparr>
                        in case map_of (gm_of (ne_routers ep)) expr of
                             Some _ \<Rightarrow> ((expr, Some (''duplicate router '' @ expr)), ep)
                           | None \<Rightarrow>
                               ((expr, None), ep\<lparr>ne_routers := Some (gm_put expr \<lparr>rr_router = r, rr_regexp = regexpV\<rparr> (gm_of (ne_routers ep)))\<rparr>)))))"

definition net_RemoveRouter :: "string \<Rightarrow> ('n, 'w, 'm, 're) net_Endpoint \<Rightarrow> error option \<times> ('n, 'w, 'm, 're) net_Endpoint" where
  "net_RemoveRouter routerId ep =
     (None, case ne_routers ep of Some m \<Rightarrow> ep\<lparr>ne_routers := Some (gm_del routerId m)\<rparr> | None \<Rightarrow> ep)"

section \<open>Accepting connections\<close>

text \<open>What happens to the accepting loop: a connection, an error of \<open>Accept\<close>, \<open>Close\<close> while \<open>Accept\<close> is blocked, and
  \<open>Close\<close> between two calls of \<open>Accept\<close>, which leaves the listener nil.\<close>

datatype 'c accept_event = Accepted 'c | AcceptFails error | ClosedInAccept | ClosedBetween

datatype 'c accept_result = Listening "'c list" | Stopped error "'c list" | Crashed error "'c list"

definition StopErr :: error where "StopErr = ''endpoint stop''"

fun net_accept :: "'c accept_event list \<Rightarrow> 'c list \<Rightarrow> ('n, 'w, 'm, 're) net_Endpoint \<Rightarrow> 'c accept_result \<times> ('n, 'w, 'm, 're) net_Endpoint" where
  "net_accept evs cs ep =
     (if \<not> ne_listener ep then (Crashed ''invalid memory address or nil pointer dereference'' cs, ep)
      else case evs of
        [] \<Rightarrow> (Listening cs, ep)
      | Accepted c # evs \<Rightarrow> net_accept evs (cs @ [c]) ep
      | AcceptFails err # evs \<Rightarrow> net_accept evs cs ep
      | ClosedInAccept # evs \<Rightarrow> (Stopped StopErr cs, snd (net_Close None ep))
      | ClosedBetween # evs \<Rightarrow> net_accept evs cs (snd (net_Close None ep)))"

definition net_Start ::
  "error option \<Rightarrow> 'c accept_event list \<Rightarrow> ('n, 'w, 'm, 're) net_Endpoint \<Rightarrow> 'c accept_result \<times> ('n, 'w, 'm, 're) net_Endpoint" where
  "net_Start listen evs ep =
     (case listen of
        Some err \<Rightarrow> (Stopped err [], ep\<lparr>ne_listener := False\<rparr>)
      | None \<Rightarrow> net_accept evs [] (ep\<lparr>ne_listener := True\<rparr>))"

declare net_accept.simps [simp del]

section \<open>Reading lines\<close>

text \<open>What a read gives: a byte or an error. A deadline error is a \<open>net.OpError\<close> on a socket and the bare error
  on other connections. \<open>NoDeadline\<close> marks a point where \<open>SetReadDeadline\<close> would fail. At the end of
  the sequence every read gives \<open>io.EOF\<close>.\<close>

datatype read_error = OpDeadline | PlainDeadline | ReadFails error

datatype read_item = Byte char | Fault read_error | NoDeadline

datatype slice_error = BufferFull | SliceError read_error

definition buffer_size :: nat where "buffer_size = 4096"

fun read_slice :: "string \<Rightarrow> read_item list \<Rightarrow> string \<times> slice_error option \<times> read_item list" where
  "read_slice buf items =
     (if buffer_size \<le> length buf then (buf, Some BufferFull, items)
      else case items of
        [] \<Rightarrow> (buf, Some (SliceError (ReadFails ''EOF'')), [])
      | NoDeadline # items \<Rightarrow> read_slice buf items
      | Fault e # items \<Rightarrow> (buf, Some (SliceError e), items)
      | Byte c # items \<Rightarrow> if c = CHR 0x0A then (buf @ [c], None, items) else read_slice (buf @ [c]) items)"

declare read_slice.simps [simp del]

definition ReadLine :: "read_item list \<Rightarrow> string \<times> read_error option \<times> read_item list" where
  "ReadLine items =
     (case read_slice [] items of
        (line, Some BufferFull, rest) \<Rightarrow>
          (if line \<noteq> [] \<and> last line = CHR 0x0D then (butlast line, None, Byte CHR 0x0D # rest) else (line, None, rest))
      | (line, Some (SliceError e), rest) \<Rightarrow> if line = [] then ([], Some e, rest) else (line, None, rest)
      | (line, None, rest) \<Rightarrow>
          (let line = butlast line in (if line \<noteq> [] \<and> last line = CHR 0x0D then butlast line else line, None, rest)))"

lemma read_slice_length:
  "read_slice buf items = (line, err, rest) \<Longrightarrow> length rest + length line \<le> length items + length buf"
proof (induction buf items rule: read_slice.induct)
  case (1 buf items)
  show ?case
    using "1.prems"
    by (subst (asm) read_slice.simps)
      (auto split: if_splits list.splits read_item.splits dest: "1.IH")
qed

lemma read_slice_full: "read_slice buf items = (line, Some BufferFull, rest) \<Longrightarrow> buffer_size \<le> length line"
proof (induction buf items rule: read_slice.induct)
  case (1 buf items)
  show ?case
    using "1.prems"
    by (subst (asm) read_slice.simps)
      (auto split: if_splits list.splits read_item.splits dest: "1.IH")
qed

lemma read_slice_ends:
  "read_slice buf items = (line, None, rest) \<Longrightarrow> line \<noteq> []"
proof (induction buf items rule: read_slice.induct)
  case (1 buf items)
  show ?case
    using "1.prems"
    by (subst (asm) read_slice.simps)
      (auto split: if_splits list.splits read_item.splits dest: "1.IH")
qed

lemma read_slice_fault:
  "read_slice buf items = (line, Some (SliceError e), rest) \<Longrightarrow> length rest < length items \<or> e = ReadFails ''EOF''"
proof (induction items arbitrary: buf)
  case Nil
  then show ?case by (subst (asm) read_slice.simps) (auto split: if_splits)
next
  case (Cons x items)
  show ?case
    using Cons.prems by (subst (asm) read_slice.simps) (force split: if_splits read_item.splits dest: Cons.IH)
qed

lemma ReadLine_progress:
  assumes "ReadLine items = (line, err, rest)" "\<And>e. err \<noteq> Some (ReadFails e)"
  shows "length rest < length items"
proof -
  obtain l e r where rs: "read_slice [] items = (l, e, r)" by (metis prod_cases3)
  note len = read_slice_length [OF rs]
  show ?thesis
  proof (cases e)
    case None
    with read_slice_ends [of "[]" items] rs have "0 < length l" by blast
    then have "length r < length items" using len by (simp del: length_greater_0_conv)
    with None rs assms(1) show ?thesis by (simp add: ReadLine_def Let_def split: if_splits)
  next
    case (Some x)
    show ?thesis
    proof (cases x)
      case BufferFull
      with Some rs have "4096 \<le> length l" using read_slice_full by (force simp: buffer_size_def)
      with BufferFull Some rs len assms(1) show ?thesis by (auto simp: ReadLine_def split: if_splits)
    next
      case (SliceError y)
      have "length r < length items" if "l \<noteq> []" using that len by (cases l) auto
      with SliceError Some rs read_slice_fault [of "[]" items l y r] assms show ?thesis
        by (auto simp: ReadLine_def split: if_splits)
    qed
  qed
qed

text \<open>The loop of the handler; \<open>f\<close> is what is done with a line.\<close>

function net_loop :: "int \<Rightarrow> (string \<Rightarrow> 's \<Rightarrow> 's) \<Rightarrow> read_item list \<Rightarrow> 's \<Rightarrow> 's" where
  "net_loop ReadTimeout f items s =
     (if 0 < ReadTimeout \<and> items \<noteq> [] \<and> hd items = NoDeadline then s
      else case ReadLine items of
        (data, Some (ReadFails e), rest) \<Rightarrow> s
      | (data, Some OpDeadline, rest) \<Rightarrow> net_loop ReadTimeout f rest s
      | (data, Some PlainDeadline, rest) \<Rightarrow> net_loop ReadTimeout f rest (if data = PingData then s else f data s)
      | (data, None, rest) \<Rightarrow> net_loop ReadTimeout f rest (if data = PingData then s else f data s))"
  by pat_completeness auto
termination
  by (relation "measure (\<lambda>(_, _, items, _). length items)") (auto dest!: sym [of _ "ReadLine _"] ReadLine_progress)

declare net_loop.simps [simp del]

section \<open>Handling a line\<close>

text \<open>The routers share the exchange of the line, and are ranged over in the order of the map.\<close>

fun net_dispatch ::
  "'re regexp_ops \<Rightarrow> int \<Rightarrow> string \<Rightarrow> (nat \<Rightarrow> ('n, 'w) RuleGo) \<Rightarrow> net_message BaseEndpoint \<Rightarrow> string
     \<Rightarrow> (string \<times> ('n, 'w, net_message, 're) RegexpRouter) list \<Rightarrow> net_message Exchange \<times> ('n, 'w) launch list
     \<Rightarrow> net_message Exchange \<times> ('n, 'w) launch list" where
  "net_dispatch R now uuid pools base data [] (ex, ls) = (ex, ls)"
| "net_dispatch R now uuid pools base data ((_, v) # rs) (ex, ls) =
     net_dispatch R now uuid pools base data rs
       (if (case rr_regexp v of None \<Rightarrow> True | Some re \<Rightarrow> re_Match R re data) then
          (case DoProcess (net_ops now uuid) pools base (rr_router v) ex of
             (ex, l) \<Rightarrow> (ex, ls @ (case l of Some l \<Rightarrow> [l] | None \<Rightarrow> [])))
        else (ex, ls))"

definition net_exchange :: "int \<Rightarrow> string \<Rightarrow> net_conn \<Rightarrow> string \<Rightarrow> error + net_message Exchange" where
  "net_exchange now uuid conn data =
     (let inp = \<lparr>nq_headers = [], nq_conn = Some conn, nq_body = data, nq_msg = None, nq_err = None\<rparr>;
          out = \<lparr>np_headers = [], np_conn = Some conn, np_body = [], np_msg = None, np_err = None\<rparr>
      in case net_GetMsg now uuid inp of
           (msg, inp) \<Rightarrow>
             (case PutValue (MsgMetadata msg) RemoteAddrKey (nc_RemoteAddr conn) of
                Inl e \<Rightarrow> Inl e
              | Inr md \<Rightarrow> Inr \<lparr>ex_In = NetIn (inp\<lparr>nq_msg := Some (msg\<lparr>MsgMetadata := md\<rparr>)\<rparr>), ex_Out = NetOut out\<rparr>))"

text \<open>The connection after a line has what the processors of the routers wrote. The exchange can always be made, because
  the metadata of a new message are not nil.\<close>

definition net_line ::
  "'re regexp_ops \<Rightarrow> int \<Rightarrow> string \<Rightarrow> (nat \<Rightarrow> ('n, 'w) RuleGo) \<Rightarrow> ('n, 'w, net_message, 're) net_Endpoint \<Rightarrow> string
     \<Rightarrow> net_conn \<times> ('n, 'w) launch list \<Rightarrow> net_conn \<times> ('n, 'w) launch list" where
  "net_line R now uuid pools ep data s =
     (case net_exchange now uuid (fst s) data of
        Inl e \<Rightarrow> s
      | Inr ex \<Rightarrow>
          (case net_dispatch R now uuid pools (ne_base ep) data (gm_of (ne_routers ep)) (ex, snd s) of
             (ex, ls) \<Rightarrow> (case ex_Out ex of NetOut out \<Rightarrow> (case np_conn out of Some c \<Rightarrow> c | None \<Rightarrow> fst s) | NetIn _ \<Rightarrow> fst s, ls)))"

definition net_handler ::
  "'re regexp_ops \<Rightarrow> int \<Rightarrow> string \<Rightarrow> (nat \<Rightarrow> ('n, 'w) RuleGo) \<Rightarrow> ('n, 'w, net_message, 're) net_Endpoint \<Rightarrow> net_conn
     \<Rightarrow> read_item list \<Rightarrow> net_conn \<times> ('n, 'w) launch list" where
  "net_handler R now uuid pools ep conn items =
     net_loop (ncf_ReadTimeout (ne_Config ep)) (net_line R now uuid pools ep) items (conn, [])"

section \<open>Framing\<close>

definition net_lines :: "int \<Rightarrow> read_item list \<Rightarrow> string list" where
  "net_lines t items = net_loop t (\<lambda>l ls. ls @ [l]) items []"

lemma net_loop_fold: "net_loop t f items s = fold f (net_lines t items) s"
proof -
  have "net_loop t f items (fold f ls s) = fold f (net_loop t (\<lambda>l ls. ls @ [l]) items ls) s" for ls
  proof (induction t "\<lambda>l ls. ls @ [l :: string]" items ls rule: net_loop.induct)
    case (1 t items ls)
    show ?case
      using "1"
      by (subst (1 2) net_loop.simps)
        (auto split: prod.splits option.splits read_error.splits)
  qed
  from this [of "[]"] show ?thesis by (simp add: net_lines_def)
qed


lemma fold_snoc: "fold (\<lambda>l ls. ls @ [l]) xs ys = ys @ xs"
  by (induction xs arbitrary: ys) auto

lemma net_lines_step:
  assumes "ReadLine items = (data, None, rest)" "items \<noteq> []" "hd items \<noteq> NoDeadline"
  shows "net_lines t items = (if data = PingData then [] else [data]) @ net_lines t rest"
proof -
  have "net_lines t items = net_loop t (\<lambda>l ls. ls @ [l]) rest (if data = PingData then [] else [data])"
    using assms unfolding net_lines_def by (subst net_loop.simps) simp
  then show ?thesis by (simp add: net_loop_fold fold_snoc)
qed

lemma net_lines_Nil [simp]: "net_lines t [] = []"
  unfolding net_lines_def by (subst net_loop.simps, subst ReadLine_def, subst read_slice.simps) (simp add: buffer_size_def)

lemma net_lines_fault: "net_lines t (Fault (ReadFails e) # rest) = []" "net_lines t (Fault OpDeadline # rest) = net_lines t rest"
  unfolding net_lines_def
  by (subst net_loop.simps, subst ReadLine_def, subst read_slice.simps, simp add: buffer_size_def)+

lemma read_slice_bytes:
  "CHR 0x0A \<notin> set l \<Longrightarrow> length buf + length l \<le> buffer_size \<Longrightarrow> read_slice buf (map Byte l @ rest) = read_slice (buf @ l) rest"
proof (induction l arbitrary: buf)
  case (Cons c l)
  from Cons.prems have "read_slice buf (map Byte (c # l) @ rest) = read_slice (buf @ [c]) (map Byte l @ rest)"
    by (subst read_slice.simps) auto
  with Cons.IH [of "buf @ [c]"] Cons.prems show ?case by simp
qed simp

lemma ReadLine_newline:
  assumes "CHR 0x0A \<notin> set l" "length l < buffer_size"
  shows "ReadLine (map Byte (l @ [CHR 0x0A]) @ rest) = (if l \<noteq> [] \<and> last l = CHR 0x0D then butlast l else l, None, rest)"
proof -
  have "read_slice [] (map Byte (l @ [CHR 0x0A]) @ rest) = (l @ [CHR 0x0A], None, rest)"
    using assms read_slice_bytes [of l "[]" "Byte CHR 0x0A # rest"] by (simp, subst read_slice.simps) simp
  then show ?thesis by (simp add: ReadLine_def)
qed

text \<open>A line as a client sends it: ended by a line feed, with or without a carriage return before it.\<close>

definition good_line :: "string \<times> string \<Rightarrow> bool" where
  "good_line lt =
     (CHR 0x0A \<notin> set (fst lt) \<and> length (fst lt) + length (snd lt) \<le> 4096 \<and>
      (snd lt = [CHR 0x0D, CHR 0x0A] \<or> snd lt = [CHR 0x0A] \<and> (fst lt = [] \<or> last (fst lt) \<noteq> CHR 0x0D)))"

lemma net_lines_good:
  assumes "good_line (l, e)"
  shows "net_lines t (map Byte (l @ e) @ rest) = (if l = PingData then [] else [l]) @ net_lines t rest"
proof (rule net_lines_step)
  show "map Byte (l @ e) @ rest \<noteq> []" "hd (map Byte (l @ e) @ rest) \<noteq> NoDeadline"
    using assms by (auto simp: good_line_def hd_append hd_map)
  show "ReadLine (map Byte (l @ e) @ rest) = (l, None, rest)"
  proof (cases "e = [CHR 0x0A]")
    case True
    with assms ReadLine_newline [of l rest] show ?thesis by (auto simp: good_line_def buffer_size_def)
  next
    case False
    with assms ReadLine_newline [of "l @ [CHR 0x0D]" rest] show ?thesis by (auto simp: good_line_def buffer_size_def)
  qed
qed

lemma net_lines_all:
  assumes "list_all good_line ls"
  shows "net_lines t (map Byte (concat (map (\<lambda>(l, e). l @ e) ls))) = filter (\<lambda>l. l \<noteq> ''ping'') (map fst ls)"
  using assms
proof (induction ls)
  case (Cons lt ls)
  obtain l e where lt: "lt = (l, e)" by force
  with Cons show ?case
    using net_lines_good [of l e t "map Byte (concat (map (\<lambda>(l, e). l @ e) ls))"] by (auto simp: PingData_def)
qed simp

text \<open>the lines of a client arrive as they were sent. Lines that end with a line feed or a carriage
  return and a line feed and fit into the 4096 bytes of the reader, terminator included, are delivered one message each,
  in order and without the terminator; only the lines that say \<open>ping\<close> are dropped. This holds however
  the bytes are cut into reads.\<close>

theorem net_framing:
  assumes "list_all good_line ls"
  shows "net_handler R now uuid pools ep conn (map Byte (concat (map (\<lambda>(l, e). l @ e) ls))) =
    fold (net_line R now uuid pools ep) (filter (\<lambda>l. l \<noteq> ''ping'') (map fst ls)) (conn, [])"
  unfolding net_handler_def net_loop_fold net_lines_all [OF assms] ..

definition quiet_regexp :: "unit regexp_ops" where
  "quiet_regexp = \<lparr>re_Compile = (\<lambda>_. Inr ()), re_Match = (\<lambda>_ _. True)\<rparr>"

definition echo_net :: "(unit, unit, net_message, unit) net_Endpoint" where
  "echo_net = net_New\<lparr>ne_routers := Some [([], \<lparr>rr_router = \<lparr>rt_from = Some \<lparr>fr_Config = [], fr_From = [],
     fr_processList = [\<lambda>ex. (True, case ex_Out ex of NetOut out \<Rightarrow> ex\<lparr>ex_Out := NetOut (net_out_SetBody (case ex_In ex of NetIn i \<Rightarrow> nq_body i | _ \<Rightarrow> []) out)\<rparr> | _ \<Rightarrow> ex)],
     fr_to = None\<rparr>, rt_RuleGo = 0, rt_Config = types_NewConfig [], rt_disable = False\<rparr>, rr_regexp = None\<rparr>)]\<rparr>"

lemma echo_line:
  "net_line quiet_regexp 1 ''u'' (\<lambda>_. []) echo_net l (\<lparr>nc_RemoteAddr = ''c'', nc_written = w\<rparr>, ls) =
     (\<lparr>nc_RemoteAddr = ''c'', nc_written = w @ [l]\<rparr>, ls)"
  by (simp add: net_line_def net_exchange_def net_GetMsg_def NewMsg_def newMsg_def NewMetadata_def PutValue_def RemoteAddrKey_def
      echo_net_def net_New_def DoProcess_def ExecuteProcess_def net_out_SetBody_def Let_def)

theorem net_framing_witness:
  "net_handler quiet_regexp 1 ''u'' (\<lambda>_. []) echo_net \<lparr>nc_RemoteAddr = ''c'', nc_written = []\<rparr>
     (map Byte (''aa'' @ [CHR 0x0A] @ ''ping'' @ [CHR 0x0D, CHR 0x0A] @ [CHR 0x0A] @ ''b'' @ [CHR 0x0D, CHR 0x0A])) =
   (\<lparr>nc_RemoteAddr = ''c'', nc_written = [''aa'', [], ''b'']\<rparr>, [])"
proof -
  have "list_all good_line [(''aa'', [CHR 0x0A]), (''ping'', [CHR 0x0D, CHR 0x0A]), ([], [CHR 0x0A]), (''b'', [CHR 0x0D, CHR 0x0A])]"
    by (simp add: good_line_def)
  from net_framing [OF this, of quiet_regexp 1 "''u''" "\<lambda>_. []" echo_net "\<lparr>nc_RemoteAddr = ''c'', nc_written = []\<rparr>"] show ?thesis
    by (simp add: echo_line)
qed

text \<open>the endpoint cuts a line where it should not. A line that is longer than the buffer is delivered
  in pieces of 4096 bytes, because the flag that says that a piece is not the whole line is ignored,
  and a line that is still incomplete when the read deadline passes is delivered as two messages.\<close>

theorem net_cuts_lines:
  assumes "CHR 0x0A \<notin> set l" "CHR 0x0D \<notin> set l" "l \<noteq> ''ping''"
  shows "(length l = 4096 \<longrightarrow> net_lines t (map Byte l @ rest) = l # net_lines t rest) \<and>
    (l \<noteq> [] \<and> length l < 4096 \<longrightarrow> net_lines t (map Byte l @ Fault OpDeadline # rest) = l # net_lines t rest)"
proof (intro conjI impI)
  assume n: "length l = 4096"
  then have "l \<noteq> []" by auto
  have "read_slice [] (map Byte l @ rest) = (l, Some BufferFull, rest)"
    using assms n read_slice_bytes [of l "[]" rest] by (simp add: buffer_size_def, subst read_slice.simps) (simp add: buffer_size_def)
  moreover have "last l \<noteq> CHR 0x0D" using assms(2) last_in_set [OF \<open>l \<noteq> []\<close>] by metis
  ultimately have "ReadLine (map Byte l @ rest) = (l, None, rest)" by (auto simp: ReadLine_def)
  from net_lines_step [OF this, of t] assms(3) \<open>l \<noteq> []\<close> show "net_lines t (map Byte l @ rest) = l # net_lines t rest"
    by (auto simp: hd_append hd_map PingData_def)
next
  assume n: "l \<noteq> [] \<and> length l < 4096"
  have "read_slice [] (map Byte l @ Fault OpDeadline # rest) = (l, Some (SliceError OpDeadline), rest)"
    using assms n read_slice_bytes [of l "[]" "Fault OpDeadline # rest"] by (simp add: buffer_size_def, subst read_slice.simps) (simp add: buffer_size_def)
  with n have "ReadLine (map Byte l @ Fault OpDeadline # rest) = (l, None, rest)" by (auto simp: ReadLine_def)
  from net_lines_step [OF this, of t] assms(3) n show "net_lines t (map Byte l @ Fault OpDeadline # rest) = l # net_lines t rest"
    by (auto simp: hd_append hd_map PingData_def)
qed

theorem net_cuts_lines_witness:
  "net_lines 60 (map Byte ''tempera'' @ Fault OpDeadline # map Byte (''ture=5'' @ [CHR 0x0A])) = [''tempera'', ''ture=5''] \<and>
   net_lines 60 (map Byte (replicate 4096 CHR ''x'') @ map Byte (''y'' @ [CHR 0x0A])) = [replicate 4096 CHR ''x'', ''y'']"
proof
  have y: "net_lines 60 (map Byte (''y'' @ [CHR 0x0A])) = [''y'']" "net_lines 60 (map Byte (''ture=5'' @ [CHR 0x0A])) = [''ture=5'']"
    using net_lines_good [of "''y''" "[CHR 0x0A]" 60 "[]"] net_lines_good [of "''ture=5''" "[CHR 0x0A]" 60 "[]"]
    by (simp_all add: good_line_def PingData_def)
  show "net_lines 60 (map Byte ''tempera'' @ Fault OpDeadline # map Byte (''ture=5'' @ [CHR 0x0A])) = [''tempera'', ''ture=5'']"
    using net_cuts_lines [of "''tempera''" 60 "map Byte (''ture=5'' @ [CHR 0x0A])"] y by simp
  have "replicate 4096 CHR ''x'' \<noteq> ''ping''"
    by (rule notI, drule arg_cong [of _ _ length]) simp
  then show "net_lines 60 (map Byte (replicate 4096 CHR ''x'') @ map Byte (''y'' @ [CHR 0x0A])) = [replicate 4096 CHR ''x'', ''y'']"
    using net_cuts_lines [of "replicate 4096 CHR ''x''" 60 "map Byte (''y'' @ [CHR 0x0A])"] y by simp
qed

section \<open>The routing table\<close>

text \<open>The view of the contract: a key is an expression that compiles.\<close>

definition net_valid :: "'re regexp_ops \<Rightarrow> string \<Rightarrow> bool" where
  "net_valid R k = (k = [] \<or> \<not> is_err (re_Compile R k))"

definition net_fits :: "string \<Rightarrow> ('n, 'w, 'm) Router \<Rightarrow> ('n, 'w, 'm, 're) net_Endpoint \<Rightarrow> bool" where
  "net_fits k r ep = (rt_from r \<noteq> None \<and> FromToString r = k)"

definition net_add1 :: "'re regexp_ops \<Rightarrow> string \<Rightarrow> ('n, 'w, 'm) Router \<Rightarrow> ('n, 'w, 'm, 're) net_Endpoint \<Rightarrow> ('n, 'w, 'm, 're) net_Endpoint" where
  "net_add1 R k r ep = snd (net_AddRouter R (Some r) ep)"

definition net_del1 :: "string \<Rightarrow> ('n, 'w, 'm, 're) net_Endpoint \<Rightarrow> ('n, 'w, 'm, 're) net_Endpoint" where
  "net_del1 k ep = snd (net_RemoveRouter k ep)"

definition net_served :: "('n, 'w, 'm, 're) net_Endpoint \<Rightarrow> string set" where
  "net_served ep = fst ` set (gm_of (ne_routers ep))"

definition net_regexp :: "'re regexp_ops \<Rightarrow> string \<Rightarrow> 're option" where
  "net_regexp R k = (if k = [] then None else case re_Compile R k of Inr re \<Rightarrow> Some re | Inl _ \<Rightarrow> None)"

definition net_ok :: "'re regexp_ops \<Rightarrow> ('n, 'w, 'm, 're) net_Endpoint \<Rightarrow> bool" where
  "net_ok R ep =
     (distinct (map fst (gm_of (ne_routers ep))) \<and>
      (\<forall>(k, v) \<in> set (gm_of (ne_routers ep)). FromToString (rr_router v) = k \<and> rr_regexp v = net_regexp R k \<and> net_valid R k))"

lemma net_add1_eq:
  assumes "net_valid R k" "net_fits k r ep"
  shows "gm_of (ne_routers (net_add1 R k r ep)) =
    (if k \<in> net_served ep then gm_of (ne_routers ep)
     else gm_put k \<lparr>rr_router = r, rr_regexp = net_regexp R k\<rparr> (gm_of (ne_routers ep)))"
proof -
  have "map_of (gm_of (ne_routers ep)) k = None \<longleftrightarrow> k \<notin> net_served ep" by (simp add: map_of_eq_None_iff net_served_def)
  then show ?thesis
    using assms
    by (cases "re_Compile R k")
      (auto simp: net_add1_def net_AddRouter_def net_fits_def net_valid_def FromToString_def net_regexp_def Let_def split: option.splits)
qed

lemma net_del1_eq: "gm_of (ne_routers (net_del1 k ep)) = gm_del k (gm_of (ne_routers ep))"
  by (auto simp: net_del1_def net_RemoveRouter_def split: option.splits)

lemma set_gm_put: "(k', v') \<in> set (gm_put k v m) \<Longrightarrow> (k', v') = (k, v) \<or> (k', v') \<in> set m"
  by (induction m) (auto split: if_splits)

lemma net_ok_add: "net_ok R ep \<Longrightarrow> net_valid R k \<Longrightarrow> net_fits k r ep \<Longrightarrow> net_ok R (net_add1 R k r ep)"
  by (auto simp: net_ok_def net_add1_eq net_fits_def dest!: set_gm_put)

lemma net_ok_del: "net_ok R ep \<Longrightarrow> net_ok R (net_del1 k ep)"
  by (auto simp: net_ok_def net_del1_eq AList.delete_eq distinct_map_filter)

lemma fst_image_put: "fst ` set (gm_put k v m) = insert k (fst ` set m)"
  by (induction m) auto

lemma net_served_add:
  "net_valid R k \<Longrightarrow> net_fits k r s \<Longrightarrow> net_served (net_add1 R k r s) = insert k (net_served s)"
  by (simp add: net_served_def [of "net_add1 R k r s"] net_add1_eq fst_image_put) (auto simp: net_served_def)

lemma net_served_del: "net_served (net_del1 k s) = net_served s - {k}"
  by (auto simp: net_served_def net_del1_eq AList.delete_eq image_iff)

interpretation net_routes: route_set "net_add1 R" net_del1 net_served "net_valid R" net_fits "net_ok R" for R
  by unfold_locales (simp_all add: net_ok_add net_ok_del net_served_add net_served_del)

section \<open>Properties\<close>

definition net_match :: "'re regexp_ops \<Rightarrow> string \<Rightarrow> string \<Rightarrow> bool" where
  "net_match R data k = (k = [] \<or> (\<exists>re. re_Compile R k = Inr re \<and> re_Match R re data))"

lemma net_dispatch_fold:
  "net_dispatch R now uuid pools base data rs s =
     fold (\<lambda>r (ex, ls). case DoProcess (net_ops now uuid) pools base r ex of
             (ex, l) \<Rightarrow> (ex, ls @ (case l of Some l \<Rightarrow> [l] | None \<Rightarrow> [])))
       (map (\<lambda>(k, v). rr_router v) (filter (\<lambda>(k, v). case rr_regexp v of None \<Rightarrow> True | Some re \<Rightarrow> re_Match R re data) rs)) s"
  by (induction R now uuid pools base data rs s rule: net_dispatch.induct) auto


definition word_regexp :: "string regexp_ops" where
  "word_regexp = \<lparr>re_Compile = (\<lambda>s. if s = ''('' then Inl ''missing closing )'' else Inr s), re_Match = (\<lambda>re data. Contains data re)\<rparr>"

definition word_router :: "string \<Rightarrow> (unit, unit, net_message) Router" where
  "word_router p = \<lparr>rt_from = Some \<lparr>fr_Config = [], fr_From = p, fr_processList = [], fr_to = None\<rparr>,
     rt_RuleGo = 0, rt_Config = types_NewConfig [], rt_disable = False\<rparr>"

definition word_ops :: "(string, (unit, unit, net_message) Router) route_op list" where
  "word_ops = [AddRoute [] (word_router []), AddRoute ''at'' (word_router ''at''), AddRoute ''b'' (word_router ''b''),
     AddRoute ''c'' (word_router ''c''), DelRoute ''c'']"

definition word_net :: "(unit, unit, net_message, string) net_Endpoint" where
  "word_net = run_ops (net_add1 word_regexp) net_del1 word_ops net_New"


fun accepted :: "'c accept_event list \<Rightarrow> 'c list" where
  "accepted [] = []"
| "accepted (Accepted c # evs) = c # accepted evs"
| "accepted (_ # evs) = accepted evs"

definition is_close :: "'c accept_event \<Rightarrow> bool" where
  "is_close e = (case e of ClosedInAccept \<Rightarrow> True | ClosedBetween \<Rightarrow> True | _ \<Rightarrow> False)"

lemma net_accept_prefix:
  "ne_listener ep \<Longrightarrow> list_all (\<lambda>e. \<not> is_close e) evs \<Longrightarrow> net_accept (evs @ evs') cs ep = net_accept evs' (cs @ accepted evs) ep"
proof (induction evs arbitrary: cs)
  case (Cons e evs)
  then show ?case by (cases e; subst net_accept.simps) (simp_all add: is_close_def)
qed simp

text \<open>how the endpoint stops. Every connection that was accepted gets its handler, errors of \<open>Accept\<close> do not
  stop the loop, and \<open>Close\<close> while \<open>Accept\<close> is blocked ends \<open>Start\<close> with the stop error. \<open>Close\<close> at any
  other moment sets the listener to nil under the loop, and the next call of \<open>Accept\<close> panics.\<close>

theorem net_stop:
  assumes "list_all (\<lambda>e. \<not> is_close e) evs"
  shows "fst (net_Start None (evs @ ClosedInAccept # evs') ep) = Stopped StopErr (accepted evs) \<and>
    fst (net_Start None (evs @ ClosedBetween # evs') ep) = Crashed ''invalid memory address or nil pointer dereference'' (accepted evs)"
proof -
  have l: "ne_listener (ep\<lparr>ne_listener := True\<rparr>)" by simp
  have step: "fst (net_accept (ClosedInAccept # evs') cs e) = Stopped StopErr cs"
    "fst (net_accept (ClosedBetween # evs') cs e) = Crashed ''invalid memory address or nil pointer dereference'' cs"
    if "ne_listener e" for cs and e :: "('b, 'c, 'd, 'e) net_Endpoint"
    using that by (subst net_accept.simps; simp add: net_Close_def; subst net_accept.simps; simp)+
  show ?thesis unfolding net_Start_def
    by (simp add: net_accept_prefix [OF l assms] step)
qed

theorem net_stop_witness:
  "fst (net_Start None [Accepted (1 :: nat), AcceptFails ''too many open files'', Accepted 2, ClosedInAccept]
     (net_New :: (unit, unit, net_message, string) net_Endpoint)) = Stopped StopErr [1, 2]"
  using net_stop [of "[Accepted (1 :: nat), AcceptFails ''too many open files'', Accepted 2]" "[]" "net_New :: (unit, unit, net_message, string) net_Endpoint"]
  by (simp add: is_close_def)

end
