(* ===== verification/NetClient.thy ===== *)
theory NetClient
  imports NetEndpoint NodeBase
begin

text \<open>
  The component \<open>net\<close> (\<open>components/external/net_node.go\<close>): a client that writes every message as a line, sends a heartbeat and
  connects again. What dialling and writing answer is given with every event; a connection is the
  bytes written to it. The last section connects the component to the network endpoint.
\<close>

section \<open>The node\<close>

record NetNodeConfiguration =
  nd_Protocol :: string
  nd_Server :: string
  nd_ConnectTimeout :: int
  nd_HeartbeatInterval :: "64 word"

text \<open>A channel with a buffer of one: nil, open with a token or without, closed.\<close>

datatype stop_chan = NilChan | OpenChan bool | ClosedChan

record net_out =
  no_bytes :: string
  no_closed :: bool

record NetNode =
  nd_Config :: NetNodeConfiguration
  nd_conn :: "net_out option"
  nd_heartbeatTimer :: "bool option"
  nd_heartbeatDuration :: "64 word"
  nd_stop :: stop_chan
  nd_disconnected :: bool

definition NetNode_New :: NetNode where
  "NetNode_New =
     \<lparr>nd_Config = \<lparr>nd_Protocol = ''tcp'', nd_Server = [], nd_ConnectTimeout = 60, nd_HeartbeatInterval = 60\<rparr>, nd_conn = None,
      nd_heartbeatTimer = None, nd_heartbeatDuration = 0, nd_stop = NilChan, nd_disconnected = False\<rparr>"

definition isDisconnected :: "NetNode \<Rightarrow> bool" where
  "isDisconnected x = nd_disconnected x"

definition setDisconnected :: "bool \<Rightarrow> NetNode \<Rightarrow> NetNode" where
  "setDisconnected disconnected x = (if disconnected then x\<lparr>nd_disconnected := True\<rparr> else x\<lparr>nd_disconnected := False\<rparr>)"

definition close_conn :: "NetNode \<Rightarrow> NetNode" where
  "close_conn x = x\<lparr>nd_conn := map_option (\<lambda>c. c\<lparr>no_closed := True\<rparr>) (nd_conn x)\<rparr>"

definition onConnect :: "error option \<Rightarrow> NetNode \<Rightarrow> error option \<times> NetNode" where
  "onConnect dial x =
     (let x = close_conn x
      in case dial of
           Some err \<Rightarrow> (Some err, x)
         | None \<Rightarrow>
             (None, (setDisconnected False (x\<lparr>nd_conn := Some \<lparr>no_bytes = [], no_closed = False\<rparr>\<rparr>))\<lparr>nd_heartbeatTimer := Some True\<rparr>))"

text \<open>Writing: all bytes or an error.\<close>

definition write_conn :: "error option \<Rightarrow> string \<Rightarrow> NetNode \<Rightarrow> NetNode" where
  "write_conn err data x =
     (if err = None then x\<lparr>nd_conn := map_option (\<lambda>c. c\<lparr>no_bytes := no_bytes c @ data\<rparr>) (nd_conn x)\<rparr> else x)"

definition onPing :: "error option \<Rightarrow> NetNode \<Rightarrow> error + NetNode" where
  "onPing err x =
     (if isDisconnected x then Inr x
      else case nd_conn x of
        None \<Rightarrow> Inl ''invalid memory address or nil pointer dereference''
      | Some _ \<Rightarrow>
          (let x = write_conn err (''ping'' @ [CHR 0x0A]) x
           in case err of
                Some _ \<Rightarrow> Inr (setDisconnected True x)
              | None \<Rightarrow>
                  (case nd_heartbeatTimer x of
                     None \<Rightarrow> Inl ''invalid memory address or nil pointer dereference''
                   | Some _ \<Rightarrow> Inr (x\<lparr>nd_heartbeatTimer := Some True\<rparr>))))"

definition onWrite :: "error option \<Rightarrow> RuleMsg \<Rightarrow> string \<Rightarrow> NetNode \<Rightarrow> ctx_call list \<times> NetNode" where
  "onWrite err msg data x =
     (case nd_conn x of
        None \<Rightarrow> ([TellFailure msg (Some ''net not init error'')], x)
      | Some _ \<Rightarrow>
          (case err of
             Some e \<Rightarrow> ([TellFailure msg (Some e)], x)
           | None \<Rightarrow>
               (let x = write_conn None data x;
                    x = (if nd_heartbeatTimer x \<noteq> None then x\<lparr>nd_heartbeatTimer := Some True\<rparr> else x)
                in ([TellSuccess msg], x))))"

definition onDisconnect :: "NetNode \<Rightarrow> error + NetNode" where
  "onDisconnect x =
     (let x = close_conn x
      in case nd_heartbeatTimer x of
           None \<Rightarrow> Inl ''invalid memory address or nil pointer dereference''
         | Some _ \<Rightarrow>
             (let x = setDisconnected True (x\<lparr>nd_heartbeatTimer := Some False\<rparr>)
              in if nd_conn x = None then Inl ''invalid memory address or nil pointer dereference'' else Inr x))"

text \<open>\<open>Init\<close>; if it succeeds, the goroutine of \<open>start\<close> runs.\<close>

definition NetNode_Init :: "NetNodeConfiguration decoder \<Rightarrow> Configuration \<Rightarrow> error option \<Rightarrow> NetNode \<Rightarrow> error option \<times> NetNode" where
  "NetNode_Init decode configuration dial x =
     (let x = x\<lparr>nd_stop := OpenChan False\<rparr>
      in case decode configuration (nd_Config x) of
           (Some err, c) \<Rightarrow> (Some err, x\<lparr>nd_Config := c\<rparr>)
         | (None, c) \<Rightarrow>
             (let c = (if nd_Protocol c = [] then c\<lparr>nd_Protocol := ''tcp''\<rparr> else c);
                  c = (if nd_ConnectTimeout c \<le> 0 then c\<lparr>nd_ConnectTimeout := 60\<rparr> else c);
                  c = (if sint (nd_HeartbeatInterval c) \<le> 0 then c\<lparr>nd_HeartbeatInterval := 60\<rparr> else c)
              in onConnect dial (x\<lparr>nd_Config := c, nd_heartbeatDuration := nd_HeartbeatInterval c * 1000000000\<rparr>)))"

definition NetNode_OnMsg :: "error option \<Rightarrow> RuleMsg \<Rightarrow> NetNode \<Rightarrow> ctx_call list \<times> NetNode" where
  "NetNode_OnMsg err msg x = onWrite err msg (Data msg @ [CHR 0x0A]) x"

text \<open>\<open>Destroy\<close> sends to the stop channel and closes it: a send blocks for ever on a nil channel and panics on a closed one.
  \<open>None\<close> is a call that does not return.\<close>

definition NetNode_Destroy :: "NetNode \<Rightarrow> (error + NetNode) option" where
  "NetNode_Destroy x =
     (case nd_stop x of
        NilChan \<Rightarrow> None
      | ClosedChan \<Rightarrow> Some (Inl ''send on closed channel'')
      | OpenChan True \<Rightarrow> None
      | OpenChan False \<Rightarrow> Some (Inr (x\<lparr>nd_stop := ClosedChan\<rparr>)))"

section \<open>The node as a state machine\<close>

text \<open>The events of a node that was initialised: a message, the heartbeat timer, a round of the loop of \<open>start\<close>, and \<open>Destroy\<close>.
  The flag says that the loop runs; it ends when it finds the stop channel ready.\<close>

datatype net_event = NetMsg RuleMsg "error option" | NetTimer "error option" | NetTick "error option" | NetDestroy

fun net_step :: "net_event \<Rightarrow> NetNode \<times> bool \<Rightarrow> error + (ctx_call list \<times> NetNode \<times> bool)" where
  "net_step (NetMsg msg err) (x, running) = (case NetNode_OnMsg err msg x of (cs, x) \<Rightarrow> Inr (cs, x, running))"
| "net_step (NetTimer err) (x, running) =
     (if nd_heartbeatTimer x = Some True then map_sum (\<lambda>e. e) (\<lambda>x. ([], x, running)) (onPing err (x\<lparr>nd_heartbeatTimer := Some False\<rparr>))
      else Inr ([], x, running))"
| "net_step (NetTick dial) (x, running) =
     (if \<not> running then Inr ([], x, running)
      else if nd_stop x = ClosedChan then map_sum (\<lambda>e. e) (\<lambda>x. ([], x, False)) (onDisconnect x)
      else if isDisconnected x then Inr ([], snd (onConnect dial x), running)
      else Inr ([], x, running))"
| "net_step NetDestroy (x, running) =
     (case NetNode_Destroy x of None \<Rightarrow> Inl ''blocked'' | Some (Inl e) \<Rightarrow> Inl e | Some (Inr x) \<Rightarrow> Inr ([], x, running))"

inductive net_reach :: "NetNode \<times> bool \<Rightarrow> ctx_call list \<Rightarrow> NetNode \<times> bool \<Rightarrow> bool" where
  net_start: "net_reach s [] s"
| net_move: "net_reach s cs t \<Longrightarrow> net_step ev t = Inr (cs', u) \<Longrightarrow> net_reach s (cs @ cs') u"

definition net_inv :: "NetNode \<Rightarrow> bool" where
  "net_inv x = (nd_conn x \<noteq> None \<and> nd_heartbeatTimer x \<noteq> None)"

lemmas net_node_defs = onConnect_def onPing_def onWrite_def onDisconnect_def NetNode_OnMsg_def NetNode_Destroy_def
  close_conn_def write_conn_def setDisconnected_def isDisconnected_def

lemma net_step_inv:
  "net_inv (fst s) \<Longrightarrow> net_step ev s = Inr (cs, t) \<Longrightarrow> net_inv (fst t)"
  by (cases s; cases ev)
    (auto simp: net_inv_def net_node_defs Let_def map_sum_def split: option.splits if_splits stop_chan.splits bool.splits sum.splits)

lemma net_step_ok:
  "net_inv (fst s) \<Longrightarrow> ev \<noteq> NetDestroy \<Longrightarrow> \<not> is_err (net_step ev s)"
  by (cases s; cases ev)
    (auto simp: net_inv_def net_node_defs Let_def split: option.splits if_splits prod.splits)

lemma net_reach_inv: "net_reach s cs t \<Longrightarrow> net_inv (fst s) \<Longrightarrow> net_inv (fst t)"
  by (induction rule: net_reach.induct) (auto dest: net_step_inv)

text \<open>C26: a network node that was initialised keeps working. Whatever messages, heartbeats, failed writes, failed
  reconnects and rounds of its loop follow, no step dereferences a connection or a timer that is nil, and a message never
  leaves with the error that the node is not initialised: it leaves once, on Success exactly if it was written.\<close>

theorem net_node_safe:
  assumes "NetNode_Init decode configuration None x = (None, y)" "net_reach (y, True) cs t"
  shows "(\<forall>ev. ev \<noteq> NetDestroy \<longrightarrow> \<not> is_err (net_step ev t)) \<and>
    (\<forall>msg err. \<exists>u. net_step (NetMsg msg err) t =
        Inr ([case err of Some e \<Rightarrow> TellFailure msg (Some e) | None \<Rightarrow> TellSuccess msg], u))"
proof -
  have "net_inv y" using assms(1)
    by (auto simp: NetNode_Init_def Let_def onConnect_def net_inv_def setDisconnected_def split: prod.splits option.splits)
  with net_reach_inv [OF assms(2)] have inv: "net_inv (fst t)" by simp
  then have "\<exists>u. net_step (NetMsg msg err) t = Inr ([case err of Some e \<Rightarrow> TellFailure msg (Some e) | None \<Rightarrow> TellSuccess msg], u)" for msg err
    by (cases t) (auto simp: net_inv_def net_node_defs Let_def split: option.splits)
  with net_step_ok [OF inv] show ?thesis by blast
qed


definition same_config :: "NetNodeConfiguration decoder" where
  "same_config configuration c = (None, c)"

definition net_msg :: "string \<Rightarrow> RuleMsg" where
  "net_msg d = \<lparr>Ts = 1, MsgId = ''m'', DataType = TEXT, MsgType = ''T'', Data = d, MsgMetadata = Some []\<rparr>"

theorem net_node_safe_witness:
  "\<exists>u. net_step (NetMsg (net_msg ''a'') None) (snd (NetNode_Init same_config [] None NetNode_New), True) = Inr ([TellSuccess (net_msg ''a'')], u)"
proof -
  have i: "NetNode_Init same_config [] None NetNode_New = (None, snd (NetNode_Init same_config [] None NetNode_New))"
    by (simp add: NetNode_Init_def same_config_def onConnect_def Let_def split: prod.splits)
  from conjunct2 [OF net_node_safe [OF i net_start], rule_format, of "net_msg ''a''" None] show ?thesis by simp
qed

section \<open>From the node to the endpoint\<close>

text \<open>A run of a node whose connection holds.\<close>

fun net_run :: "net_event list \<Rightarrow> NetNode \<times> bool \<Rightarrow> error + (ctx_call list \<times> NetNode \<times> bool)" where
  "net_run [] s = Inr ([], s)"
| "net_run (ev # evs) s =
     (case net_step ev s of
        Inl e \<Rightarrow> Inl e
      | Inr (cs, s) \<Rightarrow> (case net_run evs s of Inl e \<Rightarrow> Inl e | Inr (cs', s) \<Rightarrow> Inr (cs @ cs', s)))"

fun steady :: "net_event \<Rightarrow> bool" where
  "steady (NetMsg msg err) = (err = None)"
| "steady (NetTimer err) = (err = None)"
| "steady (NetTick dial) = True"
| "steady NetDestroy = False"

fun sent_data :: "net_event list \<Rightarrow> string list" where
  "sent_data [] = []"
| "sent_data (NetMsg msg err # evs) = Data msg # sent_data evs"
| "sent_data (_ # evs) = sent_data evs"

definition line_data :: "string \<Rightarrow> bool" where
  "line_data d = (CHR 0x0A \<notin> set d \<and> (d = [] \<or> last d \<noteq> CHR 0x0D) \<and> length d < 4096 \<and> d \<noteq> ''ping'')"

definition joined :: "NetNode \<Rightarrow> bool" where
  "joined x = (nd_conn x \<noteq> None \<and> nd_heartbeatTimer x \<noteq> None \<and> \<not> nd_disconnected x \<and> nd_stop x \<noteq> ClosedChan)"

text \<open>What a step writes.\<close>

lemma steady_step:
  assumes "joined x" "steady ev"
  shows "\<exists>cs y ls. net_step ev (x, r) = Inr (cs, y, r) \<and> joined y \<and>
    no_bytes (the (nd_conn y)) = no_bytes (the (nd_conn x)) @ concat (map (\<lambda>l. l @ [CHR 0x0A]) ls) \<and>
    set ls \<subseteq> insert ''ping'' (set (sent_data [ev])) \<and> (list_all line_data (sent_data [ev]) \<longrightarrow> filter (\<lambda>l. l \<noteq> ''ping'') ls = sent_data [ev])"
proof (cases ev)
  case (NetMsg msg err)
  with assms show ?thesis
    by (intro exI [of _ "[TellSuccess msg]"] exI [of _ "snd (NetNode_OnMsg None msg x)"] exI [of _ "[Data msg]"])
      (auto simp: joined_def net_node_defs Let_def line_data_def)
next
  case (NetTimer err)
  show ?thesis
  proof (cases "nd_heartbeatTimer x = Some True")
    case True
    with NetTimer assms show ?thesis
      by (intro exI [of _ "[]"] exI [of _ "(write_conn None (''ping'' @ [CHR 0x0A]) x)\<lparr>nd_heartbeatTimer := Some True\<rparr>"] exI [of _ "[''ping'']"])
        (auto simp: joined_def net_node_defs Let_def)
  next
    case False
    with NetTimer assms show ?thesis by (intro exI [of _ "[]"] exI [of _ x] exI [of _ "[]"]) simp
  qed
next
  case (NetTick dial)
  with assms show ?thesis
    by (intro exI [of _ "[]"] exI [of _ x] exI [of _ "[]"]) (simp add: joined_def isDisconnected_def)
next
  case NetDestroy
  with assms show ?thesis by simp
qed

lemma sent_data_Cons: "sent_data (ev # evs) = sent_data [ev] @ sent_data evs"
  by (cases ev) auto

lemma steady_run:
  assumes "joined x" "list_all steady evs" "list_all line_data (sent_data evs)"
  shows "\<exists>cs y ls. net_run evs (x, r) = Inr (cs, y, r) \<and>
    no_bytes (the (nd_conn y)) = no_bytes (the (nd_conn x)) @ concat (map (\<lambda>l. l @ [CHR 0x0A]) ls) \<and>
    set ls \<subseteq> insert ''ping'' (set (sent_data evs)) \<and> filter (\<lambda>l. l \<noteq> ''ping'') ls = sent_data evs"
  using assms
proof (induction evs arbitrary: x)
  case Nil
  then show ?case by (intro exI [of _ "[]"] exI [of _ x]) simp
next
  case (Cons ev evs)
  have d: "list_all line_data (sent_data [ev])" "list_all line_data (sent_data evs)" "steady ev" "list_all steady evs"
    using Cons.prems(2,3) sent_data_Cons [of ev evs] by simp_all
  from steady_step [OF Cons.prems(1) d(3), of r] d(1) obtain cs y ls where
    1: "net_step ev (x, r) = Inr (cs, y, r)" "joined y" "no_bytes (the (nd_conn y)) = no_bytes (the (nd_conn x)) @ concat (map (\<lambda>l. l @ [CHR 0x0A]) ls)"
      "set ls \<subseteq> insert ''ping'' (set (sent_data [ev]))" "filter (\<lambda>l. l \<noteq> ''ping'') ls = sent_data [ev]" by blast
  from Cons.IH [OF 1(2) d(4,2)] obtain cs' z ls' where
    2: "net_run evs (y, r) = Inr (cs', z, r)" "no_bytes (the (nd_conn z)) = no_bytes (the (nd_conn y)) @ concat (map (\<lambda>l. l @ [CHR 0x0A]) ls')"
      "set ls' \<subseteq> insert ''ping'' (set (sent_data evs))" "filter (\<lambda>l. l \<noteq> ''ping'') ls' = sent_data evs" by blast
  show ?case
    by (rule exI [of _ "cs @ cs'"], rule exI [of _ z], rule exI [of _ "ls @ ls'"])
      (use 1 2 in \<open>auto simp: sent_data_Cons [of ev evs]\<close>)
qed

text \<open>C7: the network component and the network endpoint understand each other. If a node connects and the
  connection holds, then whatever heartbeats are sent between the messages, the endpoint at the other
  end handles exactly the data of the messages, in order and one line each, provided that no message has a line feed, ends
  with a carriage return, is longer than 4095 bytes or is the word \<open>ping\<close>, which the endpoint takes for a heartbeat.\<close>

theorem net_node_to_endpoint:
  assumes "NetNode_Init decode configuration None x = (None, y)" "list_all steady evs" "list_all line_data (sent_data evs)"
  shows "\<exists>cs z. net_run evs (y, True) = Inr (cs, z, True) \<and>
    net_handler R now uuid pools ep conn (map Byte (no_bytes (the (nd_conn z)))) =
      fold (net_line R now uuid pools ep) (sent_data evs) (conn, [])"
proof -
  have y: "joined y" "no_bytes (the (nd_conn y)) = []"
    using assms(1) by (auto simp: NetNode_Init_def Let_def onConnect_def joined_def setDisconnected_def close_conn_def split: prod.splits option.splits)
  from steady_run [OF y(1) assms(2,3), of True] y(2) obtain cs z ls where
    z: "net_run evs (y, True) = Inr (cs, z, True)" "no_bytes (the (nd_conn z)) = concat (map (\<lambda>l. l @ [CHR 0x0A]) ls)"
      "set ls \<subseteq> insert ''ping'' (set (sent_data evs))" "filter (\<lambda>l. l \<noteq> ''ping'') ls = sent_data evs" by auto
  have ping: "good_line (''ping'', [CHR 0x0A])" by (simp add: good_line_def)
  have good: "list_all good_line (map (\<lambda>l. (l, [CHR 0x0A])) ls)"
    unfolding list_all_iff
  proof
    fix le
    assume "le \<in> set (map (\<lambda>l. (l, [CHR 0x0A])) ls)"
    then obtain l where l: "l \<in> set ls" "le = (l, [CHR 0x0A])" by auto
    show "good_line le"
    proof (cases "l = ''ping''")
      case True
      with l(2) ping show ?thesis by simp
    next
      case False
      with l(1) z(3) have "l \<in> set (sent_data evs)" by auto
      with assms(3) have "line_data l" by (simp add: list_all_iff)
      with l(2) show ?thesis by (auto simp: line_data_def good_line_def)
    qed
  qed
  have "concat (map (\<lambda>(l, e). l @ e) (map (\<lambda>l. (l, [CHR 0x0A])) ls)) = concat (map (\<lambda>l. l @ [CHR 0x0A]) ls)" by (simp add: comp_def)
  with net_lines_all [OF good] z(2,4) have "net_lines t (map Byte (no_bytes (the (nd_conn z)))) = sent_data evs" for t
    by (simp add: comp_def)
  with z(1) show ?thesis by (auto simp: net_handler_def net_loop_fold)
qed

theorem net_node_to_endpoint_witness:
  "\<exists>cs z. net_run [NetMsg (net_msg ''a'') None, NetTimer None, NetMsg (net_msg ''b'') None]
      (snd (NetNode_Init same_config [] None NetNode_New), True) = Inr (cs, z, True) \<and>
    net_handler quiet_regexp 1 ''u'' (\<lambda>_. []) echo_net \<lparr>nc_RemoteAddr = ''c'', nc_written = []\<rparr> (map Byte (no_bytes (the (nd_conn z)))) =
      (\<lparr>nc_RemoteAddr = ''c'', nc_written = [''a'', ''b'']\<rparr>, [])"
proof -
  have i: "NetNode_Init same_config [] None NetNode_New = (None, snd (NetNode_Init same_config [] None NetNode_New))"
    by (simp add: NetNode_Init_def same_config_def onConnect_def Let_def split: prod.splits)
  have s: "list_all steady [NetMsg (net_msg ''a'') None, NetTimer None, NetMsg (net_msg ''b'') None]" by simp
  have d: "list_all line_data (sent_data [NetMsg (net_msg ''a'') None, NetTimer None, NetMsg (net_msg ''b'') None])"
    by (simp add: line_data_def net_msg_def)
  from net_node_to_endpoint [OF i s d, of quiet_regexp 1 "''u''" "\<lambda>_. []" echo_net "\<lparr>nc_RemoteAddr = ''c'', nc_written = []\<rparr>"]
  show ?thesis by (simp add: echo_line net_msg_def)
qed

end
