(* ===== verification/ScheduleEndpoint.thy ===== *)
theory ScheduleEndpoint
  imports Routes
begin

text \<open>
  The schedule endpoint (\<open>endpoint/schedule/schedule.go\<close>): routers that are run by a cron table. The cron package is a
  parameter; its jobs are the routers that were added.
\<close>

section \<open>Messages\<close>

record sch_RequestMessage =
  sq_headers :: "(string, string) gomap"
  sq_body :: string
  sq_msg :: "RuleMsg option"
  sq_err :: "error option"

definition sch_From :: "sch_RequestMessage \<Rightarrow> string" where
  "sch_From r = []"

definition sch_SetMsg :: "RuleMsg \<Rightarrow> sch_RequestMessage \<Rightarrow> sch_RequestMessage" where
  "sch_SetMsg msg r = r\<lparr>sq_msg := Some msg\<rparr>"

definition sch_GetMsg :: "int \<Rightarrow> string \<Rightarrow> sch_RequestMessage \<Rightarrow> RuleMsg \<times> sch_RequestMessage" where
  "sch_GetMsg now uuid r =
     (case sq_msg r of
        Some msg \<Rightarrow> (msg, r)
      | None \<Rightarrow>
          (let msg = NewMsg now uuid uuid 0 (sch_From r) JSON NewMetadata (sq_body r)
           in (msg, r\<lparr>sq_msg := Some msg\<rparr>)))"

definition sch_SetBody :: "string \<Rightarrow> sch_RequestMessage \<Rightarrow> sch_RequestMessage" where
  "sch_SetBody body r = r\<lparr>sq_body := body\<rparr>"

definition sch_SetError :: "error \<Rightarrow> sch_RequestMessage \<Rightarrow> sch_RequestMessage" where
  "sch_SetError err r = r\<lparr>sq_err := Some err\<rparr>"

record sch_ResponseMessage =
  sp_headers :: "(string, string) gomap"
  sp_body :: string
  sp_msg :: "RuleMsg option"
  sp_err :: "error option"

definition sch_out_SetMsg :: "RuleMsg \<Rightarrow> sch_ResponseMessage \<Rightarrow> sch_ResponseMessage" where
  "sch_out_SetMsg msg r = r\<lparr>sp_msg := Some msg\<rparr>"

definition sch_out_SetBody :: "string \<Rightarrow> sch_ResponseMessage \<Rightarrow> sch_ResponseMessage" where
  "sch_out_SetBody body r = r\<lparr>sp_body := body\<rparr>"

definition sch_out_SetError :: "error \<Rightarrow> sch_ResponseMessage \<Rightarrow> sch_ResponseMessage" where
  "sch_out_SetError err r = r\<lparr>sp_err := Some err\<rparr>"

datatype sch_message = SchIn sch_RequestMessage | SchOut sch_ResponseMessage

definition sch_ops :: "int \<Rightarrow> string \<Rightarrow> sch_message message_ops" where
  "sch_ops now uuid =
     \<lparr>mo_GetMsg = (\<lambda>m. case m of
          SchIn r \<Rightarrow> (case sch_GetMsg now uuid r of (msg, r) \<Rightarrow> (Some msg, SchIn r))
        | SchOut r \<Rightarrow> (sp_msg r, SchOut r)),
      mo_SetMsg = (\<lambda>msg m. case m of SchIn r \<Rightarrow> SchIn (sch_SetMsg msg r) | SchOut r \<Rightarrow> SchOut (sch_out_SetMsg msg r)),
      mo_SetError = (\<lambda>e m. case m of SchIn r \<Rightarrow> SchIn (sch_SetError e r) | SchOut r \<Rightarrow> SchOut (sch_out_SetError e r))\<rparr>"

section \<open>The endpoint\<close>

text \<open>The cron table: \<open>AddFunc\<close> parses the expression and returns the id of the new entry, \<open>Entries\<close> is the
  table as a list.\<close>

record ('c, 'j) cron_ops =
  cr_New :: 'c
  cr_AddFunc :: "string \<Rightarrow> 'j \<Rightarrow> 'c \<Rightarrow> (int \<times> error option) \<times> 'c"
  cr_Remove :: "int \<Rightarrow> 'c \<Rightarrow> 'c"
  cr_Start :: "'c \<Rightarrow> 'c"
  cr_Stop :: "'c \<Rightarrow> 'c"
  cr_Entries :: "'c \<Rightarrow> (int \<times> 'j) list"

definition cron_law :: "('c, 'j) cron_ops \<Rightarrow> bool" where
  "cron_law C =
     ((\<forall>spec job c i c'. cr_AddFunc C spec job c = ((i, None), c') \<longrightarrow>
         0 < i \<and> i < 2 ^ 63 \<and> i \<notin> fst ` set (cr_Entries C c) \<and> set (cr_Entries C c') = insert (i, job) (set (cr_Entries C c))) \<and>
      (\<forall>i c. set (cr_Entries C (cr_Remove C i c)) = {(j, job) \<in> set (cr_Entries C c). j \<noteq> i}))"

record ('w, 'm, 'c) Schedule =
  sc_id :: string
  sc_base :: "'m BaseEndpoint"
  sc_RuleConfig :: "'w Config option"
  sc_cron :: "'c option"

definition schedule_New :: "('c, 'j) cron_ops \<Rightarrow> string \<Rightarrow> ('w, 'm, 'c) Schedule" where
  "schedule_New C uuid = \<lparr>sc_id = uuid, sc_base = \<lparr>be_interceptors = []\<rparr>, sc_RuleConfig = None, sc_cron = Some (cr_New C)\<rparr>"

definition schedule_NewConfig :: "('c, 'j) cron_ops \<Rightarrow> string \<Rightarrow> 'w Config \<Rightarrow> ('w, 'm, 'c) Schedule" where
  "schedule_NewConfig C uuid ruleConfig =
     \<lparr>sc_id = uuid, sc_base = \<lparr>be_interceptors = []\<rparr>, sc_RuleConfig = Some ruleConfig, sc_cron = Some (cr_New C)\<rparr>"

definition schedule_Init :: "'w Config \<Rightarrow> Configuration \<Rightarrow> ('w, 'm, 'c) Schedule \<Rightarrow> error option \<times> ('w, 'm, 'c) Schedule" where
  "schedule_Init ruleConfig configuration s = (None, s\<lparr>sc_RuleConfig := Some ruleConfig\<rparr>)"

definition schedule_Close :: "('c, 'j) cron_ops \<Rightarrow> ('w, 'm, 'c) Schedule \<Rightarrow> error option \<times> ('w, 'm, 'c) Schedule" where
  "schedule_Close C s = (None, s\<lparr>sc_cron := map_option (cr_Stop C) (sc_cron s)\<rparr>)"

definition schedule_AddRouter ::
  "('c, ('n, 'w, 'm) Router) cron_ops \<Rightarrow> ('n, 'w, 'm) Router option \<Rightarrow> ('w, 'm, 'c) Schedule
     \<Rightarrow> (string \<times> error option) \<times> ('w, 'm, 'c) Schedule" where
  "schedule_AddRouter C router s =
     (case router of
        None \<Rightarrow> (([], Some ''router can not nil''), s)
      | Some r \<Rightarrow>
          (case rt_from r of
             None \<Rightarrow> (([], Some ''from can not nil''), s)
           | Some f \<Rightarrow>
               (case cr_AddFunc C (fr_From f) r (case sc_cron s of Some c \<Rightarrow> c | None \<Rightarrow> cr_New C) of
                  ((i, err), c) \<Rightarrow> ((Itoa i, err), s\<lparr>sc_cron := Some c\<rparr>))))"

definition schedule_RemoveRouter :: "('c, 'j) cron_ops \<Rightarrow> string \<Rightarrow> ('w, 'm, 'c) Schedule \<Rightarrow> error option \<times> ('w, 'm, 'c) Schedule" where
  "schedule_RemoveRouter C routeId s =
     (case Atoi routeId of
        Inl _ \<Rightarrow> (Some (routeId @ '' it is an illegal routing id''), s)
      | Inr entryID \<Rightarrow> (None, s\<lparr>sc_cron := map_option (cr_Remove C entryID) (sc_cron s)\<rparr>))"

definition schedule_Start :: "('c, 'j) cron_ops \<Rightarrow> ('w, 'm, 'c) Schedule \<Rightarrow> error option \<times> ('w, 'm, 'c) Schedule" where
  "schedule_Start C s =
     (case sc_cron s of
        None \<Rightarrow> (Some ''cron has not been initialized yet'', s)
      | Some c \<Rightarrow> (None, s\<lparr>sc_cron := Some (cr_Start C c)\<rparr>))"

definition schedule_handler ::
  "int \<Rightarrow> string \<Rightarrow> (nat \<Rightarrow> ('n, 'w) RuleGo) \<Rightarrow> ('w, sch_message, 'c) Schedule \<Rightarrow> ('n, 'w, sch_message) Router
     \<Rightarrow> sch_message Exchange \<times> ('n, 'w) launch option" where
  "schedule_handler now uuid pools s router =
     DoProcess (sch_ops now uuid) pools (sc_base s) router
       \<lparr>ex_In = SchIn \<lparr>sq_headers = [], sq_body = [], sq_msg = None, sq_err = None\<rparr>,
        ex_Out = SchOut \<lparr>sp_headers = [], sp_body = [], sp_msg = None, sp_err = None\<rparr>\<rparr>"

section \<open>Properties\<close>

definition schedule_entries :: "('c, 'j) cron_ops \<Rightarrow> ('w, 'm, 'c) Schedule \<Rightarrow> (int \<times> 'j) set" where
  "schedule_entries C s = (case sc_cron s of Some c \<Rightarrow> set (cr_Entries C c) | None \<Rightarrow> set (cr_Entries C (cr_New C)))"

text \<open>the id that adding a router returns removes it. Adding a router that the cron table accepts puts
  exactly that router on the table, under a new entry; removing the route with the id that was returned
  succeeds and leaves exactly the entries of before.\<close>

theorem schedule_roundtrip:
  assumes "cron_law C" "schedule_AddRouter C (Some r) s = ((rid, None), s')"
  shows "(\<exists>i. rid = Itoa i \<and> i \<notin> fst ` schedule_entries C s \<and> schedule_entries C s' = insert (i, r) (schedule_entries C s)) \<and>
    fst (schedule_RemoveRouter C rid s') = None \<and>
    schedule_entries C (snd (schedule_RemoveRouter C rid s')) = schedule_entries C s"
proof -
  let ?c = "case sc_cron s of Some c \<Rightarrow> c | None \<Rightarrow> cr_New C"
  obtain f i c' where f: "rt_from r = Some f" and a: "cr_AddFunc C (fr_From f) r ?c = ((i, None), c')"
    and rid: "rid = Itoa i" and s': "s' = s\<lparr>sc_cron := Some c'\<rparr>"
    using assms(2) by (auto simp: schedule_AddRouter_def split: option.splits prod.splits)
  have law: "0 < i \<and> i < 2 ^ 63 \<and> i \<notin> fst ` set (cr_Entries C ?c) \<and> set (cr_Entries C c') = insert (i, r) (set (cr_Entries C ?c))"
    using assms(1) a unfolding cron_law_def by blast
  have rem: "set (cr_Entries C (cr_Remove C i c')) = {(j, job) \<in> set (cr_Entries C c'). j \<noteq> i}"
    using assms(1) unfolding cron_law_def by blast
  have e: "schedule_entries C s = set (cr_Entries C ?c)" by (simp add: schedule_entries_def split: option.splits)
  have rr: "schedule_RemoveRouter C rid s' = (None, s'\<lparr>sc_cron := Some (cr_Remove C i c')\<rparr>)"
    using law by (simp add: schedule_RemoveRouter_def rid s' Atoi_Itoa)
  have "{(j, job) \<in> set (cr_Entries C c'). j \<noteq> i} = set (cr_Entries C ?c)" using law by (auto simp: image_iff)
  moreover have "schedule_entries C s' = set (cr_Entries C c')" by (simp add: schedule_entries_def s')
  moreover have "schedule_entries C (s'\<lparr>sc_cron := Some (cr_Remove C i c')\<rparr>) = set (cr_Entries C (cr_Remove C i c'))"
    by (simp add: schedule_entries_def)
  ultimately show ?thesis using law rem rr rid unfolding e by auto
qed

text \<open>A cron table as a list with a counter.\<close>

definition list_cron :: "(int \<times> (int \<times> 'j) list, 'j) cron_ops" where
  "list_cron = \<lparr>cr_New = (1, []),
     cr_AddFunc = (\<lambda>spec job c. if spec = [] \<or> 2 ^ 63 \<le> fst c \<or> fst c \<le> 0 \<or> fst c \<in> fst ` set (snd c) then ((0, Some ''empty spec string''), c)
       else ((fst c, None), (fst c + 1, (fst c, job) # snd c))),
     cr_Remove = (\<lambda>i c. (fst c, filter (\<lambda>(j, job). j \<noteq> i) (snd c))), cr_Start = (\<lambda>c. c), cr_Stop = (\<lambda>c. c), cr_Entries = snd\<rparr>"

lemma list_cron_law: "cron_law list_cron"
  by (auto simp: cron_law_def list_cron_def split: if_splits)

definition cron_router :: "(unit, unit, sch_message) Router" where
  "cron_router = \<lparr>rt_from = Some \<lparr>fr_Config = [], fr_From = ''*/1 * * * * *'', fr_processList = [], fr_to = None\<rparr>,
     rt_RuleGo = 0, rt_Config = types_NewConfig [], rt_disable = False\<rparr>"

theorem schedule_roundtrip_witness:
  "fst (schedule_AddRouter list_cron (Some cron_router) (schedule_New list_cron ''u'')) = (''1'', None) \<and>
   schedule_entries list_cron (snd (schedule_RemoveRouter list_cron ''1''
     (snd (schedule_AddRouter list_cron (Some cron_router) (schedule_New list_cron ''u''))))) = {}"
proof -
  let ?s = "schedule_New list_cron ''u'' :: (unit, sch_message, int \<times> (int \<times> (unit, unit, sch_message) Router) list) Schedule"
  have one: "Itoa 1 = ''1''" by code_simp
  have a: "schedule_AddRouter list_cron (Some cron_router) ?s = ((''1'', None), snd (schedule_AddRouter list_cron (Some cron_router) ?s))"
    by (simp add: schedule_AddRouter_def schedule_New_def list_cron_def cron_router_def one)
  have "schedule_entries list_cron ?s = {}" by (simp add: schedule_entries_def schedule_New_def list_cron_def)
  with schedule_roundtrip [OF list_cron_law a] arg_cong [OF a, of fst] show ?thesis by simp
qed

end
