(* ===== verification/MqttClient.thy ===== *)
theory MqttClient
  imports Routes
begin

text \<open>
  The MQTT client that the endpoint and the component share (\<open>components/mqtt/client.go\<close>). The protocol library is a
  parameter: a state \<open>'p\<close> and the results its tokens have after they were waited for. A subscription
  carries a handler \<open>'h\<close>. The loops that retry are partial functions: not returning is \<open>None\<close>.
\<close>

section \<open>Configuration\<close>

record 'h Handler =
  ha_Topic :: string
  ha_Qos :: "8 word"
  ha_Handle :: 'h

record mqtt_Config =
  mc_Server :: string
  mc_Username :: string
  mc_Password :: string
  mc_MaxReconnectInterval :: "64 word"
  mc_QOS :: "8 word"
  mc_CleanSession :: bool
  mc_ClientID :: string
  mc_CAFile :: string
  mc_CertFile :: string
  mc_CertKeyFile :: string

record 'kp tls_Config =
  tls_RootCAs :: "string option"
  tls_Certificates :: "'kp list"

record 'kp tls_files =
  tf_ReadFile :: "string \<Rightarrow> error + string"
  tf_LoadX509KeyPair :: "string \<Rightarrow> string \<Rightarrow> error + 'kp"

definition newTLSConfig :: "'kp tls_files \<Rightarrow> string \<Rightarrow> string \<Rightarrow> string \<Rightarrow> error + 'kp tls_Config option" where
  "newTLSConfig F CAFile certFile certKeyFile =
     (if CAFile = [] \<and> certFile = [] \<and> certKeyFile = [] then Inr None
      else
        (case (if CAFile \<noteq> [] then map_sum (\<lambda>e. e) Some (tf_ReadFile F CAFile) else Inr None) of
           Inl err \<Rightarrow> Inl err
         | Inr caCert \<Rightarrow>
             (if certFile \<noteq> [] \<and> certKeyFile \<noteq> [] then
                (case tf_LoadX509KeyPair F certFile certKeyFile of
                   Inl err \<Rightarrow> Inl err
                 | Inr kp \<Rightarrow> Inr (Some \<lparr>tls_RootCAs = caCert, tls_Certificates = [kp]\<rparr>))
              else Inr (Some \<lparr>tls_RootCAs = caCert, tls_Certificates = []\<rparr>))))"

record 'kp client_options =
  co_Server :: string
  co_Username :: string
  co_Password :: string
  co_CleanSession :: bool
  co_ClientID :: string
  co_MaxReconnectInterval :: "64 word"
  co_TLS :: "'kp tls_Config option"

definition sixty_seconds :: "64 word" where "sixty_seconds = 60000000000"

text \<open>The options \<open>NewClient\<close> builds; \<open>rnd\<close> is the random part of a client id. An error of the TLS
  configuration is logged.\<close>

definition mqtt_options :: "'kp tls_files \<Rightarrow> string \<Rightarrow> mqtt_Config \<Rightarrow> 'kp client_options" where
  "mqtt_options F rnd conf =
     \<lparr>co_Server = mc_Server conf, co_Username = mc_Username conf, co_Password = mc_Password conf, co_CleanSession = mc_CleanSession conf,
      co_ClientID = (if mc_ClientID conf = [] then ''rulego/'' @ rnd else mc_ClientID conf),
      co_MaxReconnectInterval = (if sint (mc_MaxReconnectInterval conf) \<le> 0 then sixty_seconds else mc_MaxReconnectInterval conf),
      co_TLS = (case newTLSConfig F (mc_CAFile conf) (mc_CertFile conf) (mc_CertKeyFile conf) of Inl err \<Rightarrow> None | Inr tlsconfig \<Rightarrow> tlsconfig)\<rparr>"

section \<open>The client\<close>

record ('p, 'h, 'kp) paho_ops =
  ph_NewClient :: "'kp client_options \<Rightarrow> 'p"
  ph_Connect :: "'p \<Rightarrow> error option \<times> 'p"
  ph_Subscribe :: "string \<Rightarrow> 8 word \<Rightarrow> 'h \<Rightarrow> 'p \<Rightarrow> (error option \<times> (string, nat) gomap) \<times> 'p"
  ph_Unsubscribe :: "string \<Rightarrow> 'p \<Rightarrow> error option \<times> 'p"
  ph_Publish :: "string \<Rightarrow> 8 word \<Rightarrow> bool \<Rightarrow> string \<Rightarrow> 'p \<Rightarrow> error option \<times> 'p"
  ph_Route :: "'p \<Rightarrow> string \<Rightarrow> 'h option"

record ('p, 'h) mqtt_Client =
  cl_client :: 'p
  cl_msgHandlerMap :: "(string, 'h Handler) gomap"

text \<open>The loop of \<open>NewClient\<close>: \<open>ctxDone n\<close> says that the context is done when attempt number \<open>n\<close> has failed.\<close>

partial_function (option) connect_loop :: "('p, 'h, 'kp) paho_ops \<Rightarrow> (nat \<Rightarrow> error option) \<Rightarrow> nat \<Rightarrow> 'p \<Rightarrow> (error + 'p) option" where
  "connect_loop P ctxDone n p =
     (case ph_Connect P p of
        (None, p') \<Rightarrow> Some (Inr p')
      | (Some err, p') \<Rightarrow> (case ctxDone n of Some e \<Rightarrow> Some (Inl e) | None \<Rightarrow> connect_loop P ctxDone (Suc n) p'))"

definition mqtt_NewClient ::
  "('p, 'h, 'kp) paho_ops \<Rightarrow> 'kp tls_files \<Rightarrow> string \<Rightarrow> (nat \<Rightarrow> error option) \<Rightarrow> mqtt_Config \<Rightarrow> (error + ('p, 'h) mqtt_Client) option" where
  "mqtt_NewClient P F rnd ctxDone conf =
     map_option (map_sum (\<lambda>e. e) (\<lambda>p. \<lparr>cl_client = p, cl_msgHandlerMap = []\<rparr>))
       (connect_loop P ctxDone 0 (ph_NewClient P (mqtt_options F rnd conf)))"

definition is128Err :: "(string, nat) gomap \<Rightarrow> string \<Rightarrow> bool" where
  "is128Err result topic = (map_of result topic = Some 128)"

partial_function (option) subscribeHandler :: "('p, 'h, 'kp) paho_ops \<Rightarrow> 'h Handler \<Rightarrow> 'p \<Rightarrow> 'p option" where
  "subscribeHandler P handler p =
     (case ph_Subscribe P (ha_Topic handler) (ha_Qos handler) (ha_Handle handler) p of
        ((err, result), p') \<Rightarrow>
          if err \<noteq> None \<or> is128Err result (ha_Topic handler) then subscribeHandler P handler p' else Some p')"

definition RegisterHandler :: "('p, 'h, 'kp) paho_ops \<Rightarrow> 'h Handler \<Rightarrow> ('p, 'h) mqtt_Client \<Rightarrow> ('p, 'h) mqtt_Client option" where
  "RegisterHandler P handler b =
     (let b = b\<lparr>cl_msgHandlerMap := gm_put (ha_Topic handler) handler (cl_msgHandlerMap b)\<rparr>
      in map_option (\<lambda>p. b\<lparr>cl_client := p\<rparr>) (subscribeHandler P handler (cl_client b)))"

definition UnregisterHandler :: "('p, 'h, 'kp) paho_ops \<Rightarrow> string \<Rightarrow> ('p, 'h) mqtt_Client \<Rightarrow> error option \<times> ('p, 'h) mqtt_Client" where
  "UnregisterHandler P topic b =
     (case ph_Unsubscribe P topic (cl_client b) of
        (Some err, p) \<Rightarrow> (Some err, b\<lparr>cl_client := p\<rparr>)
      | (None, p) \<Rightarrow> (None, b\<lparr>cl_client := p, cl_msgHandlerMap := gm_del topic (cl_msgHandlerMap b)\<rparr>))"

definition GetHandlerByUpTopic :: "('p, 'h) mqtt_Client \<Rightarrow> string \<Rightarrow> 'h Handler option" where
  "GetHandlerByUpTopic b topic = map_of (cl_msgHandlerMap b) topic"

definition mqtt_Client_Close :: "('p, 'h, 'kp) paho_ops \<Rightarrow> ('p, 'h) mqtt_Client \<Rightarrow> error option \<times> ('p, 'h) mqtt_Client" where
  "mqtt_Client_Close P b =
     (None, b\<lparr>cl_client := fold (\<lambda>(_, v) p. snd (ph_Unsubscribe P (ha_Topic v) p)) (cl_msgHandlerMap b) (cl_client b)\<rparr>)"

definition mqtt_Publish :: "('p, 'h, 'kp) paho_ops \<Rightarrow> string \<Rightarrow> 8 word \<Rightarrow> string \<Rightarrow> ('p, 'h) mqtt_Client \<Rightarrow> error option \<times> ('p, 'h) mqtt_Client" where
  "mqtt_Publish P topic qos data b =
     (case ph_Publish P topic qos False data (cl_client b) of (err, p) \<Rightarrow> (err, b\<lparr>cl_client := p\<rparr>))"

text \<open>\<open>onConnected\<close> subscribes every handler again.\<close>

fun subscribe_all :: "('p, 'h, 'kp) paho_ops \<Rightarrow> 'h Handler list \<Rightarrow> 'p \<Rightarrow> 'p option" where
  "subscribe_all P [] p = Some p"
| "subscribe_all P (handler # hs) p = (case subscribeHandler P handler p of None \<Rightarrow> None | Some p \<Rightarrow> subscribe_all P hs p)"

definition onConnected :: "('p, 'h, 'kp) paho_ops \<Rightarrow> ('p, 'h) mqtt_Client \<Rightarrow> ('p, 'h) mqtt_Client option" where
  "onConnected P b = map_option (\<lambda>p. b\<lparr>cl_client := p\<rparr>) (subscribe_all P (map snd (cl_msgHandlerMap b)) (cl_client b))"

section \<open>Connecting\<close>

lemma connect_loop_returns:
  assumes "ctxDone (n + k) \<noteq> None"
  shows "\<exists>r. connect_loop P ctxDone n p = Some r"
  using assms
proof (induction k arbitrary: n p)
  case 0
  then show ?case by (subst connect_loop.simps) (auto split: prod.splits option.splits)
next
  case (Suc k)
  obtain err p' where c: "ph_Connect P p = (err, p')" by force
  from Suc.IH [of "Suc n" p'] Suc.prems obtain r where "connect_loop P ctxDone (Suc n) p' = Some r" by auto
  with c show ?case by (subst connect_loop.simps) (auto split: option.splits)
qed

text \<open>The state after a number of failed attempts.\<close>

fun failed_connects :: "('p, 'h, 'kp) paho_ops \<Rightarrow> nat \<Rightarrow> 'p \<Rightarrow> 'p option" where
  "failed_connects P 0 p = Some p"
| "failed_connects P (Suc n) p = (case ph_Connect P p of (None, _) \<Rightarrow> None | (Some err, p') \<Rightarrow> failed_connects P n p')"

lemma connect_loop_skips:
  assumes "failed_connects P k p = Some q" "\<forall>i<k. ctxDone (n + i) = None"
  shows "connect_loop P ctxDone n p = connect_loop P ctxDone (n + k) q"
  using assms
proof (induction k arbitrary: n p)
  case (Suc k)
  obtain err p' where c: "ph_Connect P p = (Some err, p')" and f: "failed_connects P k p' = Some q"
    using Suc.prems(1) by (auto split: prod.splits option.splits)
  have "\<forall>i<k. ctxDone (Suc n + i) = None" using Suc.prems(2) by (metis Suc_less_eq add_Suc add_Suc_right)
  moreover have "ctxDone n = None" using Suc.prems(2) by (metis add_0_right zero_less_Suc)
  ultimately show ?case using Suc.IH [OF f, of "Suc n"] c by (subst connect_loop.simps) simp
qed simp

text \<open>C25: connecting ends. If the context is done at some point, \<open>NewClient\<close> returns, whatever the broker
  does: with the client after the first attempt that succeeds while the context is not done, and with the error
  of the context if it is done when an attempt fails.\<close>

theorem mqtt_connect_terminates:
  assumes "ctxDone N \<noteq> None"
  shows "(\<exists>r. mqtt_NewClient P F rnd ctxDone conf = Some r) \<and>
    (\<forall>k p p'. failed_connects P k (ph_NewClient P (mqtt_options F rnd conf)) = Some p \<and> (\<forall>i<k. ctxDone i = None) \<longrightarrow>
        (ph_Connect P p = (None, p') \<longrightarrow>
           mqtt_NewClient P F rnd ctxDone conf = Some (Inr \<lparr>cl_client = p', cl_msgHandlerMap = []\<rparr>)) \<and>
        (\<forall>err e. ph_Connect P p = (Some err, p') \<and> ctxDone k = Some e \<longrightarrow> mqtt_NewClient P F rnd ctxDone conf = Some (Inl e)))"
proof (intro conjI allI impI)
  show "\<exists>r. mqtt_NewClient P F rnd ctxDone conf = Some r"
    using connect_loop_returns [of ctxDone 0 N P] assms by (force simp: mqtt_NewClient_def)
next
  fix k p p'
  assume f: "failed_connects P k (ph_NewClient P (mqtt_options F rnd conf)) = Some p \<and> (\<forall>i<k. ctxDone i = None)"
    and c: "ph_Connect P p = (None, p')"
  from connect_loop_skips [of P k _ p ctxDone 0] f c show "mqtt_NewClient P F rnd ctxDone conf = Some (Inr \<lparr>cl_client = p', cl_msgHandlerMap = []\<rparr>)"
    by (simp add: mqtt_NewClient_def connect_loop.simps [of P ctxDone k p])
next
  fix k p p' err e
  assume f: "failed_connects P k (ph_NewClient P (mqtt_options F rnd conf)) = Some p \<and> (\<forall>i<k. ctxDone i = None)"
    and c: "ph_Connect P p = (Some err, p') \<and> ctxDone k = Some e"
  from connect_loop_skips [of P k _ p ctxDone 0] f c show "mqtt_NewClient P F rnd ctxDone conf = Some (Inl e)"
    by (simp add: mqtt_NewClient_def connect_loop.simps [of P ctxDone k p])
qed

section \<open>Subscribing\<close>

text \<open>What the library documents: a subscription that is granted has its handler, one that is taken back has none, and
  the others are not touched.\<close>

definition paho_law :: "('p, 'h, 'kp) paho_ops \<Rightarrow> bool" where
  "paho_law P =
     ((\<forall>t q h p res p'. ph_Subscribe P t q h p = ((None, res), p') \<and> \<not> is128Err res t \<longrightarrow> ph_Route P p' = (ph_Route P p)(t \<mapsto> h)) \<and>
      (\<forall>t p p'. ph_Unsubscribe P t p = (None, p') \<longrightarrow> ph_Route P p' = (ph_Route P p)(t := None)) \<and>
      (\<forall>o'. ph_Route P (ph_NewClient P o') = Map.empty) \<and>
      (\<forall>p p'. ph_Connect P p = (None, p') \<longrightarrow> ph_Route P p' = ph_Route P p))"

text \<open>A broker that grants the requests for the topics \<open>good\<close> with the quality of service \<open>q\<close> while the connection of
  the client is up (\<open>up\<close>), and a connection that stays up. The client refuses a request without a connection, for
  an empty or ill-formed topic or with a quality above 2.\<close>

definition paho_grants :: "('p, 'h, 'kp) paho_ops \<Rightarrow> ('p \<Rightarrow> bool) \<Rightarrow> (string \<Rightarrow> bool) \<Rightarrow> 8 word \<Rightarrow> bool" where
  "paho_grants P up good q =
     ((\<forall>t h p. up p \<and> good t \<longrightarrow> (\<exists>res p'. ph_Subscribe P t q h p = ((None, res), p') \<and> \<not> is128Err res t \<and> up p')) \<and>
      (\<forall>t p. up p \<and> good t \<longrightarrow> (\<exists>p'. ph_Unsubscribe P t p = (None, p') \<and> up p')))"

lemma paho_law_Subscribe:
  "paho_law P \<Longrightarrow> ph_Subscribe P t q h p = ((None, res), p') \<Longrightarrow> \<not> is128Err res t \<Longrightarrow> ph_Route P p' = (ph_Route P p)(t \<mapsto> h)"
  unfolding paho_law_def by blast

lemma subscribeHandler_granted:
  assumes "paho_law P" "paho_grants P up good (ha_Qos handler)" "up p" "good (ha_Topic handler)"
  obtains p' where "subscribeHandler P handler p = Some p'" "ph_Route P p' = (ph_Route P p)(ha_Topic handler \<mapsto> ha_Handle handler)" "up p'"
proof -
  obtain res p' where s: "ph_Subscribe P (ha_Topic handler) (ha_Qos handler) (ha_Handle handler) p = ((None, res), p')"
    "\<not> is128Err res (ha_Topic handler)" "up p'"
    using assms(2-4) unfolding paho_grants_def by metis
  then have "subscribeHandler P handler p = Some p'" by (subst subscribeHandler.simps) simp
  with paho_law_Subscribe [OF assms(1) s(1,2)] s(3) that show ?thesis by blast
qed

lemma RegisterHandler_granted:
  assumes "paho_law P" "paho_grants P up good (ha_Qos handler)" "up (cl_client b)" "good (ha_Topic handler)"
  obtains b' where "RegisterHandler P handler b = Some b'"
    "cl_msgHandlerMap b' = gm_put (ha_Topic handler) handler (cl_msgHandlerMap b)"
    "ph_Route P (cl_client b') = (ph_Route P (cl_client b))(ha_Topic handler \<mapsto> ha_Handle handler)" "up (cl_client b')"
proof -
  obtain p' where "subscribeHandler P handler (cl_client b) = Some p'"
    "ph_Route P p' = (ph_Route P (cl_client b))(ha_Topic handler \<mapsto> ha_Handle handler)" "up p'"
    by (rule subscribeHandler_granted [OF assms])
  then show ?thesis by (intro that [of "b\<lparr>cl_msgHandlerMap := gm_put (ha_Topic handler) handler (cl_msgHandlerMap b), cl_client := p'\<rparr>"])
    (simp_all add: RegisterHandler_def)
qed

lemma UnregisterHandler_granted:
  assumes "paho_law P" "paho_grants P up good q" "up (cl_client b)" "good topic"
  shows "fst (UnregisterHandler P topic b) = None \<and> up (cl_client (snd (UnregisterHandler P topic b))) \<and>
    ph_Route P (cl_client (snd (UnregisterHandler P topic b))) = (ph_Route P (cl_client b))(topic := None)"
proof -
  obtain p' where u: "ph_Unsubscribe P topic (cl_client b) = (None, p')" "up p'" using assms(2-4) unfolding paho_grants_def by blast
  with assms(1) have "ph_Route P p' = (ph_Route P (cl_client b))(topic := None)" unfolding paho_law_def by blast
  with u show ?thesis by (simp add: UnregisterHandler_def)
qed

text \<open>The attempts to subscribe of a handler: the broker refuses the first ones.\<close>

fun refused :: "('p, 'h, 'kp) paho_ops \<Rightarrow> 'h Handler \<Rightarrow> nat \<Rightarrow> 'p \<Rightarrow> 'p option" where
  "refused P handler 0 p = Some p"
| "refused P handler (Suc n) p =
     (case ph_Subscribe P (ha_Topic handler) (ha_Qos handler) (ha_Handle handler) p of
        ((err, res), p') \<Rightarrow> if err \<noteq> None \<or> is128Err res (ha_Topic handler) then refused P handler n p' else None)"

lemma subscribeHandler_refused:
  "refused P handler n p = Some q \<Longrightarrow> subscribeHandler P handler p = subscribeHandler P handler q"
proof (induction n arbitrary: p)
  case (Suc n)
  obtain err res p' where s: "ph_Subscribe P (ha_Topic handler) (ha_Qos handler) (ha_Handle handler) p = ((err, res), p')"
    by (metis prod.exhaust)
  with Suc.prems have r: "err \<noteq> None \<or> is128Err res (ha_Topic handler)" "refused P handler n p' = Some q"
    by (auto split: if_splits)
  with s have "subscribeHandler P handler p = subscribeHandler P handler p'" by (subst subscribeHandler.simps) auto
  with Suc.IH [OF r(2)] show ?case by simp
qed simp

lemma subscribeHandler_returns:
  assumes "subscribeHandler P handler p = Some r"
  shows "\<exists>n. refused P handler n p = None"
proof -
  have "case ((P, handler), p) of ((P, handler), p) \<Rightarrow> \<exists>n. refused P handler n p = None"
  proof (rule subscribeHandler.raw_induct [OF _ assms, where Pa = "\<lambda>x _. case x of ((P, handler), p) \<Rightarrow> \<exists>n. refused P handler n p = None"])
    fix f P handler p r
    assume IH: "\<And>P handler p r. f P handler p = Some r \<Longrightarrow> case ((P, handler), p) of ((P, handler), p) \<Rightarrow> \<exists>n. refused P handler n p = None"
      and b: "(case ph_Subscribe P (ha_Topic handler) (ha_Qos handler) (ha_Handle handler) p of
          ((err, result), p') \<Rightarrow>
            if err \<noteq> None \<or> is128Err result (ha_Topic handler) then f P handler p' else Some p') = Some r"
    obtain err res p' where s: "ph_Subscribe P (ha_Topic handler) (ha_Qos handler) (ha_Handle handler) p = ((err, res), p')"
      by (metis prod.exhaust)
    show "case ((P, handler), p) of ((P, handler), p) \<Rightarrow> \<exists>n. refused P handler n p = None"
    proof (cases "err \<noteq> None \<or> is128Err res (ha_Topic handler)")
      case True
      with b s have "f P handler p' = Some r" by (simp split: if_splits)
      from IH [OF this] obtain n where "refused P handler n p' = None" by auto
      with True s have "refused P handler (Suc n) p = None" by auto
        then show ?thesis by (auto simp del: refused.simps)
    next
      case False
      with s have "refused P handler (Suc 0) p = None" by auto
        then show ?thesis by (auto simp del: refused.simps)
    qed
  qed
  then show ?thesis by simp
qed

text \<open>C38: subscribing retries until the broker grants the topic. If the broker refuses the first \<open>n\<close> attempts,
  with an error or with the return code 128, and grants the next one, \<open>RegisterHandler\<close> returns and the
  topic has the handler. If it refuses every attempt, \<open>RegisterHandler\<close> never returns: neither \<open>Start\<close>
  nor \<open>AddRouter\<close> gets an answer, and the lock of the client is held for ever.\<close>

theorem subscribe_retries:
  assumes "paho_law P"
  shows "(\<forall>n q res p'. refused P handler n (cl_client b) = Some q \<and>
            ph_Subscribe P (ha_Topic handler) (ha_Qos handler) (ha_Handle handler) q = ((None, res), p') \<and> \<not> is128Err res (ha_Topic handler) \<longrightarrow>
            (\<exists>b'. RegisterHandler P handler b = Some b' \<and> ph_Route P (cl_client b') (ha_Topic handler) = Some (ha_Handle handler) \<and>
                  GetHandlerByUpTopic b' (ha_Topic handler) = Some handler)) \<and>
         ((\<forall>n. refused P handler n (cl_client b) \<noteq> None) \<longrightarrow> RegisterHandler P handler b = None)"
proof (intro conjI allI impI)
  fix n q res p'
  assume a: "refused P handler n (cl_client b) = Some q \<and>
    ph_Subscribe P (ha_Topic handler) (ha_Qos handler) (ha_Handle handler) q = ((None, res), p') \<and> \<not> is128Err res (ha_Topic handler)"
  then have "subscribeHandler P handler (cl_client b) = Some p'"
    using subscribeHandler_refused [of P handler n "cl_client b" q] by (simp add: subscribeHandler.simps [of P handler q])
  with a paho_law_Subscribe [OF assms] show "\<exists>b'. RegisterHandler P handler b = Some b' \<and>
      ph_Route P (cl_client b') (ha_Topic handler) = Some (ha_Handle handler) \<and> GetHandlerByUpTopic b' (ha_Topic handler) = Some handler"
    by (auto simp: RegisterHandler_def GetHandlerByUpTopic_def)
next
  assume "\<forall>n. refused P handler n (cl_client b) \<noteq> None"
  with subscribeHandler_returns [of P handler "cl_client b"] have "subscribeHandler P handler (cl_client b) = None"
    by (cases "subscribeHandler P handler (cl_client b)") auto
  then show "RegisterHandler P handler b = None" by (simp add: RegisterHandler_def)
qed

text \<open>A broker as a table of subscriptions that refuses the next \<open>n\<close> requests to subscribe.\<close>

definition table_paho :: "(nat \<times> (string \<rightharpoonup> 'h), 'h, unit) paho_ops" where
  "table_paho = \<lparr>ph_NewClient = (\<lambda>_. (0, Map.empty)), ph_Connect = (\<lambda>p. (None, p)),
     ph_Subscribe = (\<lambda>t q h (n, m). case n of 0 \<Rightarrow> ((None, [(t, 0)]), (0, m(t \<mapsto> h))) | Suc n \<Rightarrow> ((None, [(t, 128)]), (n, m))),
     ph_Unsubscribe = (\<lambda>t (n, m). (None, (n, m(t := None)))), ph_Publish = (\<lambda>t q r d p. (None, p)), ph_Route = snd\<rparr>"

lemma table_paho_law: "paho_law table_paho"
  by (auto simp: paho_law_def table_paho_def is128Err_def split: nat.splits)

theorem subscribe_retries_witness:
  "\<exists>b'. RegisterHandler table_paho \<lparr>ha_Topic = ''t'', ha_Qos = 1, ha_Handle = (7 :: nat)\<rparr>
      \<lparr>cl_client = (2, Map.empty), cl_msgHandlerMap = []\<rparr> = Some b' \<and> ph_Route table_paho (cl_client b') ''t'' = Some 7"
proof -
  let ?h = "\<lparr>ha_Topic = ''t'', ha_Qos = 1, ha_Handle = (7 :: nat)\<rparr>" and ?b = "\<lparr>cl_client = (2 :: nat, Map.empty), cl_msgHandlerMap = []\<rparr>"
  have "refused table_paho ?h 2 (cl_client ?b) = Some (0, Map.empty)"
    by (simp add: numeral_2_eq_2 table_paho_def is128Err_def)
  moreover have "ph_Subscribe table_paho (ha_Topic ?h) (ha_Qos ?h) (ha_Handle ?h) (0, Map.empty) = ((None, [(''t'', 0)]), (0, [''t'' \<mapsto> 7]))"
    by (simp add: table_paho_def)
  moreover have "\<not> is128Err [(''t'', 0)] (ha_Topic ?h)" by (simp add: is128Err_def)
  ultimately have "\<exists>b'. RegisterHandler table_paho ?h ?b = Some b' \<and> ph_Route table_paho (cl_client b') (ha_Topic ?h) = Some (ha_Handle ?h) \<and>
      GetHandlerByUpTopic b' (ha_Topic ?h) = Some ?h"
    using conjunct1 [OF subscribe_retries [OF table_paho_law, of ?h ?b]] by blast
  then show ?thesis by auto
qed

definition no_files :: "unit tls_files" where
  "no_files = \<lparr>tf_ReadFile = (\<lambda>_. Inl ''no such file''), tf_LoadX509KeyPair = (\<lambda>_ _. Inl ''no such file'')\<rparr>"

definition demo_mqtt :: mqtt_Config where
  "demo_mqtt = \<lparr>mc_Server = ''127.0.0.1:1883'', mc_Username = [], mc_Password = [], mc_MaxReconnectInterval = 0, mc_QOS = 1,
     mc_CleanSession = True, mc_ClientID = ''c'', mc_CAFile = ''ca.pem'', mc_CertFile = [], mc_CertKeyFile = []\<rparr>"

definition dead_paho :: "(nat \<times> (string \<rightharpoonup> nat), nat, unit) paho_ops" where
  "dead_paho = table_paho\<lparr>ph_Connect := (\<lambda>p. (Some ''connection refused'', p))\<rparr>"

theorem mqtt_connect_terminates_witness:
  "mqtt_NewClient dead_paho no_files ''x'' (\<lambda>n. if 2 \<le> n then Some ''context deadline exceeded'' else None) demo_mqtt =
     Some (Inl ''context deadline exceeded'')"
proof -
  let ?done = "\<lambda>n :: nat. if 2 \<le> n then Some ''context deadline exceeded'' else None"
  let ?p = "ph_NewClient dead_paho (mqtt_options no_files ''x'' demo_mqtt)"
  have "failed_connects dead_paho 2 ?p = Some ?p" by (simp add: numeral_2_eq_2 dead_paho_def)
  moreover have "\<forall>i<2. ?done i = None" by simp
  moreover have "ph_Connect dead_paho ?p = (Some ''connection refused'', ?p)" "?done 2 = Some ''context deadline exceeded''"
    by (simp_all add: dead_paho_def)
  moreover have "?done 2 \<noteq> None" by simp
  ultimately show ?thesis
    using conjunct2 [OF mqtt_connect_terminates [of ?done 2 dead_paho no_files "''x''" demo_mqtt]] by blast
qed

text \<open>certificates that cannot be loaded turn TLS off. If TLS is configured and one of its files cannot be
  read, the error is only logged, and the client connects with the options of a plain connection.\<close>

theorem mqtt_tls_error_ignored:
  assumes "newTLSConfig F (mc_CAFile conf) (mc_CertFile conf) (mc_CertKeyFile conf) = Inl err"
    and "ph_Connect P (ph_NewClient P (mqtt_options F rnd (conf\<lparr>mc_CAFile := [], mc_CertFile := [], mc_CertKeyFile := []\<rparr>))) = (None, p)"
  shows "co_TLS (mqtt_options F rnd conf) = None \<and>
    mqtt_NewClient P F rnd ctxDone conf = Some (Inr \<lparr>cl_client = p, cl_msgHandlerMap = []\<rparr>)"
proof -
  have "mqtt_options F rnd conf = mqtt_options F rnd (conf\<lparr>mc_CAFile := [], mc_CertFile := [], mc_CertKeyFile := []\<rparr>)"
    using assms(1) by (simp add: mqtt_options_def newTLSConfig_def [of F "[]"])
  with assms show ?thesis
    by (simp add: mqtt_NewClient_def connect_loop.simps [of P ctxDone 0]) (simp add: mqtt_options_def newTLSConfig_def [of F "[]"])
qed

theorem mqtt_tls_error_ignored_witness:
  "mqtt_NewClient table_paho no_files ''x'' (\<lambda>_. None) demo_mqtt = Some (Inr \<lparr>cl_client = (0, Map.empty :: string \<rightharpoonup> nat), cl_msgHandlerMap = []\<rparr>)"
  using mqtt_tls_error_ignored [of no_files demo_mqtt "''no such file''" table_paho "''x''" "(0, Map.empty :: string \<rightharpoonup> nat)" "\<lambda>_. None"]
  by (simp add: demo_mqtt_def no_files_def newTLSConfig_def table_paho_def)

end
