(* ===== verification/MqttEndpoint.thy ===== *)
theory MqttEndpoint
  imports MqttClient
begin

text \<open>
  The MQTT endpoint (\<open>endpoint/mqtt/mqtt.go\<close>): routers as subscriptions of the client. The handler of a
  subscription is its router. An answer is what was published.
\<close>

section \<open>Messages\<close>

record paho_Message =
  pm_Topic :: string
  pm_Payload :: string

record mqtt_RequestMessage =
  mq_headers :: "(string, string) gomap"
  mq_request :: "paho_Message option"
  mq_body :: "string option"
  mq_msg :: "RuleMsg option"
  mq_err :: "error option"

definition mqtt_Body :: "mqtt_RequestMessage \<Rightarrow> string option \<times> mqtt_RequestMessage" where
  "mqtt_Body r =
     (case (mq_body r, mq_request r) of
        (None, Some m) \<Rightarrow> (Some (pm_Payload m), r\<lparr>mq_body := Some (pm_Payload m)\<rparr>)
      | _ \<Rightarrow> (mq_body r, r))"

definition mqtt_Headers :: "mqtt_RequestMessage \<Rightarrow> (string, string) gomap \<times> mqtt_RequestMessage" where
  "mqtt_Headers r =
     (let r = (case mq_request r of Some m \<Rightarrow> r\<lparr>mq_headers := Header_Set ''topic'' (pm_Topic m) (mq_headers r)\<rparr> | None \<Rightarrow> r)
      in (mq_headers r, r))"

definition mqtt_From :: "mqtt_RequestMessage \<Rightarrow> string" where
  "mqtt_From r = (case mq_request r of None \<Rightarrow> [] | Some m \<Rightarrow> pm_Topic m)"

definition mqtt_SetMsg :: "RuleMsg \<Rightarrow> mqtt_RequestMessage \<Rightarrow> mqtt_RequestMessage" where
  "mqtt_SetMsg msg r = r\<lparr>mq_msg := Some msg\<rparr>"

text \<open>The new metadata are never nil, so that \<open>PutValue\<close> does not panic.\<close>

definition mqtt_GetMsg :: "int \<Rightarrow> string \<Rightarrow> mqtt_RequestMessage \<Rightarrow> RuleMsg \<times> mqtt_RequestMessage" where
  "mqtt_GetMsg now uuid r =
     (case mq_msg r of
        Some msg \<Rightarrow> (msg, r)
      | None \<Rightarrow>
          (let (body, r) = mqtt_Body r;
               msg = NewMsg now uuid uuid 0 (mqtt_From r) JSON NewMetadata (case body of Some b \<Rightarrow> b | None \<Rightarrow> []);
               msg = (case PutValue (MsgMetadata msg) ''topic'' (mqtt_From r) of Inr md \<Rightarrow> msg\<lparr>MsgMetadata := md\<rparr> | Inl _ \<Rightarrow> msg)
           in (msg, r\<lparr>mq_msg := Some msg\<rparr>)))"

definition mqtt_SetBody :: "string option \<Rightarrow> mqtt_RequestMessage \<Rightarrow> mqtt_RequestMessage" where
  "mqtt_SetBody body r = r\<lparr>mq_body := body\<rparr>"

definition mqtt_SetError :: "error \<Rightarrow> mqtt_RequestMessage \<Rightarrow> mqtt_RequestMessage" where
  "mqtt_SetError err r = r\<lparr>mq_err := Some err\<rparr>"

record mqtt_ResponseMessage =
  mp_headers :: "(string, string) gomap"
  mp_request :: "paho_Message option"
  mp_response :: "(string \<times> 8 word \<times> string) list"
  mp_body :: string
  mp_msg :: "RuleMsg option"
  mp_err :: "error option"

definition mqtt_out_From :: "mqtt_ResponseMessage \<Rightarrow> string" where
  "mqtt_out_From r = (case mp_request r of None \<Rightarrow> [] | Some m \<Rightarrow> pm_Topic m)"

definition mqtt_out_SetMsg :: "RuleMsg \<Rightarrow> mqtt_ResponseMessage \<Rightarrow> mqtt_ResponseMessage" where
  "mqtt_out_SetMsg msg r = r\<lparr>mp_msg := Some msg\<rparr>"

text \<open>The integer that \<open>strconv.Atoi\<close> returns together with an error: 0 for a bad syntax, the nearest one for a
  value out of range.\<close>

definition Atoi_value :: "string \<Rightarrow> int" where
  "Atoi_value s =
     (case Atoi s of
        Inr i \<Rightarrow> i
      | Inl e \<Rightarrow> if e = ''value out of range'' then (if hd s = CHR ''-'' then - (2 ^ 63) else 2 ^ 63 - 1) else 0)"

definition mqtt_out_SetBody :: "string \<Rightarrow> mqtt_ResponseMessage \<Rightarrow> mqtt_ResponseMessage" where
  "mqtt_out_SetBody body r =
     (let r = r\<lparr>mp_body := body\<rparr>;
          topic = Header_Get (mp_headers r) ''topic''
      in if topic \<noteq> [] then
           (let qosStr = Header_Get (mp_headers r) ''qos'';
                qos = (if qosStr \<noteq> [] then word_of_int (Atoi_value qosStr) else 0)
            in r\<lparr>mp_response := mp_response r @ [(topic, qos, body)]\<rparr>)
         else r)"

definition mqtt_out_SetError :: "error \<Rightarrow> mqtt_ResponseMessage \<Rightarrow> mqtt_ResponseMessage" where
  "mqtt_out_SetError err r = r\<lparr>mp_err := Some err\<rparr>"

datatype mqtt_message = MqttIn mqtt_RequestMessage | MqttOut mqtt_ResponseMessage

definition mqtt_ops :: "int \<Rightarrow> string \<Rightarrow> mqtt_message message_ops" where
  "mqtt_ops now uuid =
     \<lparr>mo_GetMsg = (\<lambda>m. case m of
          MqttIn r \<Rightarrow> (case mqtt_GetMsg now uuid r of (msg, r) \<Rightarrow> (Some msg, MqttIn r))
        | MqttOut r \<Rightarrow> (mp_msg r, MqttOut r)),
      mo_SetMsg = (\<lambda>msg m. case m of MqttIn r \<Rightarrow> MqttIn (mqtt_SetMsg msg r) | MqttOut r \<Rightarrow> MqttOut (mqtt_out_SetMsg msg r)),
      mo_SetError = (\<lambda>e m. case m of MqttIn r \<Rightarrow> MqttIn (mqtt_SetError e r) | MqttOut r \<Rightarrow> MqttOut (mqtt_out_SetError e r))\<rparr>"

section \<open>The endpoint\<close>

record ('n, 'w, 'm, 'p) Mqtt =
  me_base :: "'m BaseEndpoint"
  me_RuleConfig :: "'w Config option"
  me_Config :: mqtt_Config
  me_client :: "('p, ('n, 'w, 'm) Router) mqtt_Client option"
  me_RouterStorage :: "(string, ('n, 'w, 'm) Router) gomap option"

definition mqtt_New :: "('n, 'w, 'm, 'p) Mqtt" where
  "mqtt_New = \<lparr>me_base = \<lparr>be_interceptors = []\<rparr>, me_RuleConfig = None,
     me_Config = \<lparr>mc_Server = [], mc_Username = [], mc_Password = [], mc_MaxReconnectInterval = 0, mc_QOS = 0, mc_CleanSession = False,
       mc_ClientID = [], mc_CAFile = [], mc_CertFile = [], mc_CertKeyFile = []\<rparr>,
     me_client = None, me_RouterStorage = None\<rparr>"

definition mqtt_Init ::
  "(Configuration \<Rightarrow> mqtt_Config \<Rightarrow> error option \<times> mqtt_Config) \<Rightarrow> 'w Config \<Rightarrow> Configuration \<Rightarrow> ('n, 'w, 'm, 'p) Mqtt
     \<Rightarrow> error option \<times> ('n, 'w, 'm, 'p) Mqtt" where
  "mqtt_Init decode ruleConfig configuration m =
     (case decode configuration (me_Config m) of (err, c) \<Rightarrow> (err, m\<lparr>me_Config := c, me_RuleConfig := Some ruleConfig\<rparr>))"

definition mqtt_Close :: "('p, ('n, 'w, 'm) Router, 'kp) paho_ops \<Rightarrow> ('n, 'w, 'm, 'p) Mqtt \<Rightarrow> error option \<times> ('n, 'w, 'm, 'p) Mqtt" where
  "mqtt_Close P m =
     (case me_client m of
        Some b \<Rightarrow> (case mqtt_Client_Close P b of (err, b) \<Rightarrow> (err, m\<lparr>me_client := Some b\<rparr>))
      | None \<Rightarrow> (None, m))"

definition mqtt_Id :: "('n, 'w, 'm, 'p) Mqtt \<Rightarrow> string" where
  "mqtt_Id m = mc_Server (me_Config m)"

definition saveRouter :: "('n, 'w, 'm) Router list \<Rightarrow> ('n, 'w, 'm, 'p) Mqtt \<Rightarrow> ('n, 'w, 'm, 'p) Mqtt" where
  "saveRouter routers m =
     m\<lparr>me_RouterStorage := Some (fold (\<lambda>item s. gm_put (FromToString item) item s) routers (gm_of (me_RouterStorage m)))\<rparr>"

definition deleteRouter :: "string \<Rightarrow> ('n, 'w, 'm, 'p) Mqtt \<Rightarrow> ('n, 'w, 'm, 'p) Mqtt" where
  "deleteRouter from m =
     (case me_RouterStorage m of Some s \<Rightarrow> m\<lparr>me_RouterStorage := Some (gm_del from s)\<rparr> | None \<Rightarrow> m)"

definition mqtt_Handler :: "('n, 'w, 'm, 'p) Mqtt \<Rightarrow> ('n, 'w, 'm) From \<Rightarrow> ('n, 'w, 'm) Router \<Rightarrow> ('n, 'w, 'm) Router Handler" where
  "mqtt_Handler m form router = \<lparr>ha_Topic = fr_From form, ha_Qos = mc_QOS (me_Config m), ha_Handle = router\<rparr>"

text \<open>\<open>None\<close> is a call that does not return.\<close>

definition mqtt_AddRouter ::
  "('p, ('n, 'w, 'm) Router, 'kp) paho_ops \<Rightarrow> ('n, 'w, 'm) Router option \<Rightarrow> ('n, 'w, 'm, 'p) Mqtt
     \<Rightarrow> ((error + string) \<times> ('n, 'w, 'm, 'p) Mqtt) option" where
  "mqtt_AddRouter P router m =
     (case router of
        None \<Rightarrow> Some (Inl ''router can not nil'', m)
      | Some r \<Rightarrow>
          (let m = saveRouter [r] m
           in case rt_from r of
                None \<Rightarrow> Some (Inl ''invalid memory address or nil pointer dereference'', m)
              | Some form \<Rightarrow>
                  (case me_client m of
                     None \<Rightarrow> Some (Inr (fr_From form), m)
                   | Some b \<Rightarrow>
                       (case RegisterHandler P (mqtt_Handler m form r) b of
                          None \<Rightarrow> None
                        | Some b \<Rightarrow> Some (Inr (fr_From form), m\<lparr>me_client := Some b\<rparr>)))))"

text \<open>Without a client, the call of its method panics.\<close>

definition mqtt_RemoveRouter ::
  "('p, ('n, 'w, 'm) Router, 'kp) paho_ops \<Rightarrow> string \<Rightarrow> ('n, 'w, 'm, 'p) Mqtt \<Rightarrow> error option \<times> ('n, 'w, 'm, 'p) Mqtt" where
  "mqtt_RemoveRouter P routerId m =
     (let m = deleteRouter routerId m
      in case me_client m of
           None \<Rightarrow> (Some ''invalid memory address or nil pointer dereference'', m)
         | Some b \<Rightarrow> (case UnregisterHandler P routerId b of (err, b) \<Rightarrow> (err, m\<lparr>me_client := Some b\<rparr>)))"

fun register_all ::
  "('p, ('n, 'w, 'm) Router, 'kp) paho_ops \<Rightarrow> ('n, 'w, 'm, 'p) Mqtt \<Rightarrow> (string \<times> ('n, 'w, 'm) Router) list
     \<Rightarrow> ('p, ('n, 'w, 'm) Router) mqtt_Client \<Rightarrow> ('p, ('n, 'w, 'm) Router) mqtt_Client option" where
  "register_all P m [] b = Some b"
| "register_all P m ((_, router) # rs) b =
     (case rt_from router of
        None \<Rightarrow> register_all P m rs b
      | Some form \<Rightarrow>
          (case RegisterHandler P (mqtt_Handler m form router) b of
             None \<Rightarrow> None
           | Some b \<Rightarrow> register_all P m rs b))"

definition mqtt_Start ::
  "('p, ('n, 'w, 'm) Router, 'kp) paho_ops \<Rightarrow> 'kp tls_files \<Rightarrow> string \<Rightarrow> (nat \<Rightarrow> error option) \<Rightarrow> ('n, 'w, 'm, 'p) Mqtt
     \<Rightarrow> (error option \<times> ('n, 'w, 'm, 'p) Mqtt) option" where
  "mqtt_Start P F rnd ctxDone m =
     (case me_client m of
        Some _ \<Rightarrow> Some (None, m)
      | None \<Rightarrow>
          (case mqtt_NewClient P F rnd ctxDone (me_Config m) of
             None \<Rightarrow> None
           | Some (Inl err) \<Rightarrow> Some (Some err, m)
           | Some (Inr client) \<Rightarrow>
               (case register_all P m (gm_of (me_RouterStorage m)) client of
                  None \<Rightarrow> None
                | Some client \<Rightarrow> Some (None, m\<lparr>me_client := Some client\<rparr>))))"

definition mqtt_handler ::
  "int \<Rightarrow> string \<Rightarrow> (nat \<Rightarrow> ('n, 'w) RuleGo) \<Rightarrow> ('n, 'w, mqtt_message, 'p) Mqtt \<Rightarrow> ('n, 'w, mqtt_message) Router \<Rightarrow> paho_Message
     \<Rightarrow> mqtt_message Exchange \<times> ('n, 'w) launch option" where
  "mqtt_handler now uuid pools m router data =
     DoProcess (mqtt_ops now uuid) pools (me_base m) router
       \<lparr>ex_In = MqttIn \<lparr>mq_headers = [], mq_request = Some data, mq_body = None, mq_msg = None, mq_err = None\<rparr>,
        ex_Out = MqttOut \<lparr>mp_headers = [], mp_request = Some data, mp_response = [], mp_body = [], mp_msg = None, mp_err = None\<rparr>\<rparr>"

section \<open>The routing table\<close>

text \<open>The view of the contract for a broker that grants the requests: an endpoint that has been started serves the
  topics that have a subscription.\<close>

definition mqtt_routes :: "('p, ('n, 'w, 'm) Router, 'kp) paho_ops \<Rightarrow> ('n, 'w, 'm, 'p) Mqtt \<Rightarrow> string \<rightharpoonup> ('n, 'w, 'm) Router" where
  "mqtt_routes P m = (case me_client m of None \<Rightarrow> Map.empty | Some b \<Rightarrow> ph_Route P (cl_client b))"

definition mqtt_ok ::
  "('p, ('n, 'w, 'm) Router, 'kp) paho_ops \<Rightarrow> ('p \<Rightarrow> bool) \<Rightarrow> (string \<Rightarrow> bool) \<Rightarrow> ('n, 'w, 'm, 'p) Mqtt \<Rightarrow> bool" where
  "mqtt_ok P up good m = (paho_law P \<and> paho_grants P up good (mc_QOS (me_Config m)) \<and>
     (\<exists>b. me_client m = Some b \<and> up (cl_client b)) \<and>
     mqtt_routes P m = map_of (gm_of (me_RouterStorage m)))"

definition mqtt_fits :: "string \<Rightarrow> ('n, 'w, 'm) Router \<Rightarrow> ('n, 'w, 'm, 'p) Mqtt \<Rightarrow> bool" where
  "mqtt_fits k r m = (rt_from r \<noteq> None \<and> FromToString r = k)"

definition mqtt_add1 :: "('p, ('n, 'w, 'm) Router, 'kp) paho_ops \<Rightarrow> string \<Rightarrow> ('n, 'w, 'm) Router \<Rightarrow> ('n, 'w, 'm, 'p) Mqtt \<Rightarrow> ('n, 'w, 'm, 'p) Mqtt" where
  "mqtt_add1 P k r m = (case mqtt_AddRouter P (Some r) m of Some (_, m) \<Rightarrow> m | None \<Rightarrow> m)"

definition mqtt_del1 :: "('p, ('n, 'w, 'm) Router, 'kp) paho_ops \<Rightarrow> string \<Rightarrow> ('n, 'w, 'm, 'p) Mqtt \<Rightarrow> ('n, 'w, 'm, 'p) Mqtt" where
  "mqtt_del1 P k m = snd (mqtt_RemoveRouter P k m)"

lemma saveRouter_eq: "gm_of (me_RouterStorage (saveRouter [r] m)) = gm_put (FromToString r) r (gm_of (me_RouterStorage m))"
  "me_client (saveRouter [r] m) = me_client m" "me_Config (saveRouter [r] m) = me_Config m"
  by (simp_all add: saveRouter_def)

lemma deleteRouter_eq: "gm_of (me_RouterStorage (deleteRouter k m)) = gm_del k (gm_of (me_RouterStorage m))"
  "me_client (deleteRouter k m) = me_client m" "me_Config (deleteRouter k m) = me_Config m"
  by (auto simp: deleteRouter_def split: option.splits)

lemma mqtt_add1_eq:
  assumes "mqtt_ok P up good m" "good k" "mqtt_fits k r m"
  shows "mqtt_ok P up good (mqtt_add1 P k r m) \<and> mqtt_routes P (mqtt_add1 P k r m) = (mqtt_routes P m)(k \<mapsto> r)"
proof -
  obtain b f where b: "me_client m = Some b" "up (cl_client b)" and f: "rt_from r = Some f" "fr_From f = k"
    using assms by (auto simp: mqtt_ok_def mqtt_fits_def FromToString_def)
  let ?m = "saveRouter [r] m" and ?h = "mqtt_Handler (saveRouter [r] m) f r"
  have law: "paho_law P" "paho_grants P up good (ha_Qos ?h)" and h: "good (ha_Topic ?h)"
    using assms(1,2) f by (auto simp: mqtt_ok_def mqtt_Handler_def saveRouter_eq)
  obtain b' where r: "RegisterHandler P ?h b = Some b'"
    "ph_Route P (cl_client b') = (ph_Route P (cl_client b))(ha_Topic ?h \<mapsto> ha_Handle ?h)" "up (cl_client b')"
    using RegisterHandler_granted [OF law b(2) h] by metis
  have eq: "mqtt_add1 P k r m = ?m\<lparr>me_client := Some b'\<rparr>"
    using b f r(1) by (simp add: mqtt_add1_def mqtt_AddRouter_def saveRouter_eq Let_def)
  have "mqtt_routes P (mqtt_add1 P k r m) = (mqtt_routes P m)(k \<mapsto> r)"
    using r(2) f b by (simp add: eq mqtt_routes_def mqtt_Handler_def)
  moreover have "map_of (gm_of (me_RouterStorage (mqtt_add1 P k r m))) = (map_of (gm_of (me_RouterStorage m)))(k \<mapsto> r)"
    using assms(3) by (auto simp: eq saveRouter_eq mqtt_fits_def fun_eq_iff)
  ultimately show ?thesis using assms(1) r(3) by (simp add: mqtt_ok_def eq saveRouter_eq)
qed

lemma mqtt_del1_eq:
  assumes "mqtt_ok P up good m" "good k"
  shows "mqtt_ok P up good (mqtt_del1 P k m) \<and> mqtt_routes P (mqtt_del1 P k m) = (mqtt_routes P m)(k := None)"
proof -
  have law: "paho_law P" "paho_grants P up good (mc_QOS (me_Config m))" using assms(1) by (auto simp: mqtt_ok_def)
  obtain b where b: "me_client m = Some b" "up (cl_client b)" using assms by (auto simp: mqtt_ok_def)
  let ?u = "UnregisterHandler P k b"
  note u = UnregisterHandler_granted [OF law b(2) assms(2)]
  have eq: "mqtt_del1 P k m = (deleteRouter k m)\<lparr>me_client := Some (snd ?u)\<rparr>"
    using b by (cases ?u) (simp add: mqtt_del1_def mqtt_RemoveRouter_def deleteRouter_eq Let_def)
  have "mqtt_routes P (mqtt_del1 P k m) = (mqtt_routes P m)(k := None)"
    using u b by (simp add: eq mqtt_routes_def)
  moreover have "map_of (gm_of (me_RouterStorage (mqtt_del1 P k m))) = (map_of (gm_of (me_RouterStorage m)))(k := None)"
    by (auto simp: eq deleteRouter_eq fun_eq_iff)
  ultimately show ?thesis using assms(1) u by (simp add: mqtt_ok_def eq deleteRouter_eq)
qed

interpretation mqtt_table: route_set "mqtt_add1 P" "mqtt_del1 P" "\<lambda>m. dom (mqtt_routes P m)" good mqtt_fits "mqtt_ok P up good" for P up good
  by unfold_locales (auto simp: mqtt_add1_eq mqtt_del1_eq split: if_splits)

text \<open>The router of every topic: the last one added since it was removed.\<close>

fun table_ops :: "('k, 'r) route_op list \<Rightarrow> ('k \<rightharpoonup> 'r) \<Rightarrow> 'k \<rightharpoonup> 'r" where
  "table_ops [] T = T"
| "table_ops (AddRoute k r # ops) T = table_ops ops (T(k \<mapsto> r))"
| "table_ops (DelRoute k # ops) T = table_ops ops (T(k := None))"

lemma mqtt_routes_run:
  "mqtt_ok P up good m \<Longrightarrow> ops_fit (mqtt_add1 P) (mqtt_del1 P) good mqtt_fits ops m \<Longrightarrow>
     mqtt_routes P (run_ops (mqtt_add1 P) (mqtt_del1 P) ops m) = table_ops ops (mqtt_routes P m)"
proof (induction ops arbitrary: m)
  case (Cons p ops)
  show ?case
  proof (cases p)
    case (AddRoute k r)
    with Cons.prems have f: "good k" "mqtt_fits k r m" "ops_fit (mqtt_add1 P) (mqtt_del1 P) good mqtt_fits ops (mqtt_add1 P k r m)"
      by simp_all
    note s = mqtt_add1_eq [OF Cons.prems(1) f(1,2)]
    from Cons.IH [OF conjunct1 [OF s] f(3)] show ?thesis
      unfolding AddRoute run_ops.simps table_ops.simps conjunct2 [OF s] .
  next
    case (DelRoute k)
    with Cons.prems have f: "good k" "ops_fit (mqtt_add1 P) (mqtt_del1 P) good mqtt_fits ops (mqtt_del1 P k m)" by simp_all
    note s = mqtt_del1_eq [OF Cons.prems(1) f(1)]
    from Cons.IH [OF conjunct1 [OF s] f(2)] show ?thesis
      unfolding DelRoute run_ops.simps table_ops.simps conjunct2 [OF s] .
  qed
qed simp

section \<open>Properties\<close>

definition stored_ok :: "(string \<times> ('n, 'w, 'm) Router) list \<Rightarrow> bool" where
  "stored_ok rs = (distinct (map fst rs) \<and> list_all (\<lambda>(k, r). rt_from r \<noteq> None \<and> FromToString r = k) rs)"

lemma register_all_granted:
  assumes "paho_law P" "paho_grants P up good (mc_QOS (me_Config m))"
    and "stored_ok rs" "\<forall>k \<in> fst ` set rs. good k" "up (cl_client b)"
  shows "\<exists>b'. register_all P m rs b = Some b' \<and> up (cl_client b') \<and> ph_Route P (cl_client b') = ph_Route P (cl_client b) ++ map_of rs"
  using assms(3-5)
proof (induction rs arbitrary: b)
  case (Cons kr rs)
  obtain k r where kr: "kr = (k, r)" by force
  with Cons.prems obtain f where f: "rt_from r = Some f" "fr_From f = k" by (auto simp: stored_ok_def FromToString_def)
  let ?h = "mqtt_Handler m f r"
  have h: "paho_grants P up good (ha_Qos ?h)" "good (ha_Topic ?h)"
    using assms(2) Cons.prems(2) f kr by (simp_all add: mqtt_Handler_def)
  obtain b1 where b1: "RegisterHandler P ?h b = Some b1" "up (cl_client b1)"
    "ph_Route P (cl_client b1) = (ph_Route P (cl_client b))(ha_Topic ?h \<mapsto> ha_Handle ?h)"
    using RegisterHandler_granted [OF assms(1) h(1) Cons.prems(3) h(2)] by metis
  from Cons.IH [OF _ _ b1(2)] Cons.prems obtain b' where b': "register_all P m rs b1 = Some b'" "up (cl_client b')"
    "ph_Route P (cl_client b') = ph_Route P (cl_client b1) ++ map_of rs"
    by (auto simp: stored_ok_def)
  have "map_of rs k = None" using Cons.prems kr by (auto simp: stored_ok_def map_of_eq_None_iff)
  with b' b1 f kr show ?case by (auto simp: mqtt_Handler_def fun_eq_iff map_add_def split: option.splits)
qed simp

text \<open>Adding routers to an endpoint that has not been started only stores them.\<close>

lemma mqtt_add1_stopped:
  assumes "me_client m = None" "rt_from r \<noteq> None"
  shows "mqtt_add1 P (FromToString r) r m = saveRouter [r] m"
  using assms by (auto simp: mqtt_add1_def mqtt_AddRouter_def saveRouter_eq Let_def)

lemma saveRouter_stored_ok:
  "stored_ok (gm_of (me_RouterStorage m)) \<Longrightarrow> rt_from r \<noteq> None \<Longrightarrow> stored_ok (gm_of (me_RouterStorage (saveRouter [r] m)))"
proof -
  have "list_all Q (gm_put k v ps)" if "list_all Q ps" "Q (k, v)" for Q :: "string \<times> ('a, 'b, 'c) Router \<Rightarrow> bool" and k v ps
    using that by (induction ps) auto
  then show "stored_ok (gm_of (me_RouterStorage m)) \<Longrightarrow> rt_from r \<noteq> None \<Longrightarrow> stored_ok (gm_of (me_RouterStorage (saveRouter [r] m)))"
    by (simp add: stored_ok_def saveRouter_eq)
qed

definition add_stopped :: "('p, ('n, 'w, 'm) Router, 'kp) paho_ops \<Rightarrow> ('n, 'w, 'm) Router list \<Rightarrow> ('n, 'w, 'm, 'p) Mqtt \<Rightarrow> ('n, 'w, 'm, 'p) Mqtt" where
  "add_stopped P rs m = fold (\<lambda>r m. mqtt_add1 P (FromToString r) r m) rs m"

lemma add_stopped_eq:
  assumes "me_client m = None" "stored_ok (gm_of (me_RouterStorage m))" "list_all (\<lambda>r. rt_from r \<noteq> None) rs"
  shows "me_client (add_stopped P rs m) = None \<and> me_Config (add_stopped P rs m) = me_Config m \<and>
    stored_ok (gm_of (me_RouterStorage (add_stopped P rs m))) \<and>
    map_of (gm_of (me_RouterStorage (add_stopped P rs m))) =
      map_of (gm_of (me_RouterStorage m)) ++ map_of (rev (map (\<lambda>r. (FromToString r, r)) rs))"
  using assms
proof (induction rs arbitrary: m)
  case (Cons r rs)
  let ?m = "saveRouter [r] m"
  from Cons.prems have r: "rt_from r \<noteq> None" "list_all (\<lambda>r. rt_from r \<noteq> None) rs" by auto
  have step: "add_stopped P (r # rs) m = add_stopped P rs ?m"
    using mqtt_add1_stopped [OF Cons.prems(1) r(1), of P] by (simp add: add_stopped_def)
  have "me_client ?m = None" "stored_ok (gm_of (me_RouterStorage ?m))" "me_Config ?m = me_Config m"
    using Cons.prems r saveRouter_stored_ok by (auto simp: saveRouter_eq)
  with Cons.IH [OF this(1,2) r(2)] step show ?case
    by (auto simp: saveRouter_eq fun_eq_iff map_add_def split: option.splits)
qed (simp add: add_stopped_def)

text \<open>C9: the MQTT endpoint is subscribed to what its table says. Let the connection be made, stay up, and let the
  broker grant the requests for the topics of the routers with the configured quality of service (topics that the
  client accepts, so none is empty). Routers
  may be added before the start or after it: \<open>Start\<close> returns with every router stored so far subscribed, for every topic the
  last one added, and after any sequence of additions and removals of routers the topics with a
  subscription are those that were added and not removed since, each with the router added last.\<close>

theorem mqtt_subscriptions:
  assumes P: "paho_law P" "paho_grants P up good (mc_QOS (me_Config m))"
    and m: "me_client m = None" "me_RouterStorage m = None"
    and rs: "list_all (\<lambda>r. rt_from r \<noteq> None) rs" "list_all (\<lambda>r. good (FromToString r)) rs"
    and c: "ph_Connect P (ph_NewClient P (mqtt_options F rnd (me_Config m))) = (None, p)" "up p"
  shows "\<exists>m'. mqtt_Start P F rnd ctxDone (add_stopped P rs m) = Some (None, m') \<and>
    mqtt_routes P m' = map_of (rev (map (\<lambda>r. (FromToString r, r)) rs)) \<and>
    (\<forall>ops. ops_fit (mqtt_add1 P) (mqtt_del1 P) good mqtt_fits ops m' \<longrightarrow>
       mqtt_routes P (run_ops (mqtt_add1 P) (mqtt_del1 P) ops m') = table_ops ops (mqtt_routes P m') \<and>
       dom (mqtt_routes P (run_ops (mqtt_add1 P) (mqtt_del1 P) ops m')) = spec_ops ops (FromToString ` set rs))"
proof -
  let ?m = "add_stopped P rs m" and ?T = "map_of (rev (map (\<lambda>r. (FromToString r, r)) rs))"
  let ?b = "\<lparr>cl_client = p, cl_msgHandlerMap = []\<rparr>"
  have "stored_ok (gm_of (me_RouterStorage m))" using m(2) by (simp add: stored_ok_def)
  from add_stopped_eq [OF m(1) this rs(1), of P] m(2)
  have a: "me_client ?m = None" "me_Config ?m = me_Config m" "stored_ok (gm_of (me_RouterStorage ?m))"
    "map_of (gm_of (me_RouterStorage ?m)) = ?T" by simp_all
  have d: "dom ?T = FromToString ` set rs" by (auto simp: dom_map_of_conv_image_fst image_iff)
  have g: "\<forall>k \<in> fst ` set (gm_of (me_RouterStorage ?m)). good k"
    using d rs(2) unfolding a(4) [symmetric] dom_map_of_conv_image_fst by (simp add: list_all_iff)
  have client: "mqtt_NewClient P F rnd ctxDone (me_Config ?m) = Some (Inr ?b)"
    using c a(2) by (simp add: mqtt_NewClient_def connect_loop.simps [of P ctxDone 0])
  have empty: "ph_Route P p = Map.empty" using P(1) c unfolding paho_law_def by metis
  obtain b' where b': "register_all P ?m (gm_of (me_RouterStorage ?m)) ?b = Some b'" "up (cl_client b')"
    "ph_Route P (cl_client b') = ?T"
    using register_all_granted [OF P(1) P(2) [folded a(2)] a(3) g, where b = ?b] c(2) empty a(4) by auto
  let ?m' = "?m\<lparr>me_client := Some b'\<rparr>"
  have start: "mqtt_Start P F rnd ctxDone ?m = Some (None, ?m')" using a(1) client b'(1) by (simp add: mqtt_Start_def)
  have routes: "mqtt_routes P ?m' = ?T" using b'(3) by (simp add: mqtt_routes_def)
  have ok: "mqtt_ok P up good ?m'" using P routes a(2,4) b'(2) by (simp add: mqtt_ok_def)
  from start routes d mqtt_table.served_run [OF ok] mqtt_routes_run [OF ok] show ?thesis by (intro exI [of _ ?m']) auto
qed

definition topic_router :: "string \<Rightarrow> (unit, unit, mqtt_message) Router" where
  "topic_router t = \<lparr>rt_from = Some \<lparr>fr_Config = [], fr_From = t, fr_processList = [], fr_to = None\<rparr>,
     rt_RuleGo = 0, rt_Config = types_NewConfig [], rt_disable = False\<rparr>"

text \<open>A client that refuses what the library refuses, on a broker that grants the rest.\<close>

definition strict_paho :: "(bool \<times> (string \<rightharpoonup> 'h), 'h, unit) paho_ops" where
  "strict_paho = \<lparr>ph_NewClient = (\<lambda>_. (False, Map.empty)), ph_Connect = (\<lambda>(_, m). (None, (True, m))),
     ph_Subscribe = (\<lambda>t q h (up, m).
       if \<not> up then ((Some ''not currently connected and ResumeSubs not set'', []), (up, m))
       else if t = [] then ((Some ''empty topic'', []), (up, m))
       else if 2 < q then ((Some ''invalid QoS'', []), (up, m)) else ((None, [(t, 0)]), (up, m(t \<mapsto> h)))),
     ph_Unsubscribe = (\<lambda>t (up, m). if \<not> up then (Some ''not currently connected'', (up, m)) else (None, (up, m(t := None)))),
     ph_Publish = (\<lambda>t q r d p. (None, p)), ph_Route = snd\<rparr>"

lemma strict_paho_law: "paho_law strict_paho" "paho_grants strict_paho fst (\<lambda>t. t \<noteq> []) 0"
  by (auto simp: paho_law_def paho_grants_def strict_paho_def is128Err_def split: if_splits)

theorem mqtt_subscriptions_witness:
  "\<exists>m'. mqtt_Start strict_paho no_files ''x'' (\<lambda>_. None) (add_stopped strict_paho [topic_router ''a'', topic_router ''b''] mqtt_New) = Some (None, m') \<and>
     dom (mqtt_routes strict_paho (run_ops (mqtt_add1 strict_paho) (mqtt_del1 strict_paho) [DelRoute ''a'', AddRoute ''c'' (topic_router ''c'')] m')) =
       {''b'', ''c''}"
proof -
  have r: "list_all (\<lambda>r. rt_from r \<noteq> None) [topic_router ''a'', topic_router ''b'']"
    "list_all (\<lambda>r. FromToString r \<noteq> []) [topic_router ''a'', topic_router ''b'']" by (simp_all add: topic_router_def FromToString_def)
  have f: "ops_fit (mqtt_add1 strict_paho) (mqtt_del1 strict_paho) (\<lambda>t. t \<noteq> []) mqtt_fits [DelRoute ''a'', AddRoute ''c'' (topic_router ''c'')] m" for m
    by (simp add: mqtt_fits_def topic_router_def FromToString_def)
  have c: "ph_Connect strict_paho (ph_NewClient strict_paho o') = (None, (True, Map.empty))" for o' by (simp add: strict_paho_def)
  have d: "spec_ops [DelRoute ''a'', AddRoute ''c'' (topic_router ''c'')] (FromToString ` set [topic_router ''a'', topic_router ''b'']) = {''b'', ''c''}"
    by (auto simp: topic_router_def FromToString_def)
  have n: "me_client mqtt_New = None" "me_RouterStorage mqtt_New = None" by (simp_all add: mqtt_New_def)
  have q: "paho_grants strict_paho fst (\<lambda>t. t \<noteq> []) (mc_QOS (me_Config mqtt_New))" using strict_paho_law(2) by (simp add: mqtt_New_def)
  from mqtt_subscriptions [OF strict_paho_law(1) q n r c, simplified fst_conv, OF TrueI, of no_files "''x''" "\<lambda>_. None"] obtain m' where
    s: "mqtt_Start strict_paho no_files ''x'' (\<lambda>_. None) (add_stopped strict_paho [topic_router ''a'', topic_router ''b''] mqtt_New) = Some (None, m')"
    and m': "dom (mqtt_routes strict_paho (run_ops (mqtt_add1 strict_paho) (mqtt_del1 strict_paho) [DelRoute ''a'', AddRoute ''c'' (topic_router ''c'')] m')) =
      spec_ops [DelRoute ''a'', AddRoute ''c'' (topic_router ''c'')] (FromToString ` set [topic_router ''a'', topic_router ''b''])"
    using f by blast
  from s m' [unfolded d] show ?thesis by (intro exI [of _ m'] conjI)
qed

lemma mqtt_remove_before_start:
  "me_client m = None \<Longrightarrow> fst (mqtt_RemoveRouter P routerId m) = Some ''invalid memory address or nil pointer dereference''"
  by (simp add: mqtt_RemoveRouter_def deleteRouter_eq Let_def)

text \<open>the quality of service of an answer is cut to a byte. If the header of the answer names a topic and
  the number \<open>i\<close> as quality of service, the answer is published once, on that topic, with quality \<open>i mod 256\<close>: only
  the numbers 0 to 255 are kept, a negative number or one above 255 becomes another level of service
  without an error.\<close>

theorem mqtt_answer_qos:
  assumes "map_of (mp_headers r) ''Topic'' = Some topic" "topic \<noteq> []" "map_of (mp_headers r) ''Qos'' = Some (Itoa i)"
    and "- (2 ^ 63) \<le> i" "i < 2 ^ 63"
  shows "\<exists>qos. mp_response (mqtt_out_SetBody body r) = mp_response r @ [(topic, qos, body)] \<and> uint qos = i mod 256"
proof -
  have k: "CanonicalMIMEHeaderKey ''topic'' = ''Topic''" "CanonicalMIMEHeaderKey ''qos'' = ''Qos''" by code_simp+
  have "Itoa i \<noteq> []" by (auto simp: Itoa_def dec_of_nat.simps [of "nat i"])
  moreover have "Atoi_value (Itoa i) = i" using assms(4,5) by (simp add: Atoi_value_def Atoi_Itoa)
  ultimately have "mp_response (mqtt_out_SetBody body r) = mp_response r @ [(topic, word_of_int i, body)]"
    using assms(1-3) by (simp add: mqtt_out_SetBody_def Header_Get_def k Let_def)
  then show ?thesis by (intro exI [of _ "word_of_int i"]) (simp add: uint_word_of_int)
qed

definition demo_answer :: mqtt_ResponseMessage where
  "demo_answer = \<lparr>mp_headers = [(''Topic'', ''t''), (''Qos'', Itoa 257)], mp_request = None, mp_response = [], mp_body = [], mp_msg = None, mp_err = None\<rparr>"

theorem mqtt_answer_qos_witness:
  "\<exists>qos. mp_response (mqtt_out_SetBody ''x'' demo_answer) = [(''t'', qos, ''x'')] \<and> uint qos = 1"
  using mqtt_answer_qos [of demo_answer "''t''" 257 "''x''"] by (simp add: demo_answer_def)

end
