(* ===== verification/RestApiCall.thy ===== *)
theory RestApiCall
  imports Routes NodeBase
begin

text \<open>
  The component \<open>restApiCall\<close> (\<open>components/external/rest_api_call_node.go\<close>). The HTTP client of the standard library is
  a parameter that answers a request with an error or a response; a response has the bytes of its body that can be
  read and the error the reading ends with, if any.
\<close>

section \<open>Configuration\<close>

record RestApiCallNodeConfiguration =
  ra_RestEndpointUrlPattern :: string
  ra_RequestMethod :: string
  ra_WithoutRequestBody :: bool
  ra_Headers :: "(string, string) gomap"
  ra_ReadTimeoutMs :: "64 word"
  ra_MaxParallelRequestsCount :: int
  ra_EnableProxy :: bool
  ra_UseSystemProxyProperties :: bool
  ra_ProxyScheme :: string
  ra_ProxyHost :: string
  ra_ProxyPort :: int
  ra_ProxyUser :: string
  ra_ProxyPassword :: string

text \<open>The proxy of a transport: the one of the environment is the default of the standard library; a
  fixed one may be nil, which is no proxy.\<close>

datatype 'u proxy = ProxyFromEnvironment | ProxyURL "('u \<times> (string \<times> string) option) option"

record 'u HttpClient =
  htc_MaxConnsPerHost :: int
  htc_Proxy :: "'u proxy"
  htc_Timeout :: "64 word"

text \<open>\<open>NewHttpClient\<close>: setting the user of a nil URL panics.\<close>

definition NewHttpClient :: "(string \<Rightarrow> 'u option) \<Rightarrow> RestApiCallNodeConfiguration \<Rightarrow> error + 'u HttpClient" where
  "NewHttpClient parse config =
     (let mk = (\<lambda>p. \<lparr>htc_MaxConnsPerHost = ra_MaxParallelRequestsCount config, htc_Proxy = p, htc_Timeout = ra_ReadTimeoutMs config * 1000000\<rparr>)
      in if ra_EnableProxy config \<and> \<not> ra_UseSystemProxyProperties config then
           (let proxyUrl = ra_ProxyScheme config @ ''://'' @ ra_ProxyHost config @ '':'' @ Itoa (ra_ProxyPort config)
            in case parse proxyUrl of
                 None \<Rightarrow>
                   (if ra_ProxyUser config \<noteq> [] \<and> ra_ProxyPassword config \<noteq> []
                    then Inl ''invalid memory address or nil pointer dereference'' else Inr (mk (ProxyURL None)))
               | Some u \<Rightarrow>
                   Inr (mk (ProxyURL (Some (u, if ra_ProxyUser config \<noteq> [] \<and> ra_ProxyPassword config \<noteq> []
                                               then Some (ra_ProxyUser config, ra_ProxyPassword config) else None)))))
         else Inr (mk ProxyFromEnvironment))"

record 'u RestApiCallNode =
  ra_Config :: RestApiCallNodeConfiguration
  ra_httpClient :: "'u HttpClient option"
  ra_isStream :: bool

definition RestApiCallNode_New :: "'u RestApiCallNode" where
  "RestApiCallNode_New =
     \<lparr>ra_Config = \<lparr>ra_RestEndpointUrlPattern = [], ra_RequestMethod = ''POST'', ra_WithoutRequestBody = False,
        ra_Headers = [(''Content-Type'', ''application/json'')], ra_ReadTimeoutMs = 0, ra_MaxParallelRequestsCount = 200, ra_EnableProxy = False,
        ra_UseSystemProxyProperties = False, ra_ProxyScheme = [], ra_ProxyHost = [], ra_ProxyPort = 0, ra_ProxyUser = [], ra_ProxyPassword = []\<rparr>,
      ra_httpClient = None, ra_isStream = False\<rparr>"

definition header_of :: "(string, string) gomap \<Rightarrow> string \<Rightarrow> string" where
  "header_of h key = (case map_of h key of Some v \<Rightarrow> v | None \<Rightarrow> [])"

definition RestApiCallNode_Init ::
  "(string \<Rightarrow> 'u option) \<Rightarrow> RestApiCallNodeConfiguration decoder \<Rightarrow> Configuration \<Rightarrow> 'u RestApiCallNode \<Rightarrow> error + 'u RestApiCallNode" where
  "RestApiCallNode_Init parse decode configuration x =
     (case decode configuration (ra_Config x) of
        (Some err, c) \<Rightarrow> Inl err
      | (None, c) \<Rightarrow>
          (let c = c\<lparr>ra_RequestMethod := ToUpper (ra_RequestMethod c)\<rparr>
           in case NewHttpClient parse c of
                Inl e \<Rightarrow> Inl e
              | Inr client \<Rightarrow>
                  (let x = x\<lparr>ra_Config := c, ra_httpClient := Some client\<rparr>
                   in Inr (if HasPrefix (header_of (ra_Headers c) ''Accept'') ''text/event-stream'' \<or>
                              HasPrefix (header_of (ra_Headers c) ''Content-Type'') ''text/event-stream''
                           then x\<lparr>ra_isStream := True\<rparr> else x))))"

section \<open>The event stream\<close>

text \<open>The lines of a \<open>bufio.Scanner\<close>: a line feed ends a line, a carriage return before it is dropped, the last line
  needs no end. A line that fills the buffer of 65536 bytes stops the scanner. \<open>readErr\<close> is the error of the
  reader at the end of its bytes.\<close>

definition maxTokenSize :: nat where "maxTokenSize = 65536"

definition drop_cr :: "string \<Rightarrow> string" where
  "drop_cr l = (if l \<noteq> [] \<and> last l = CHR 0x0D then butlast l else l)"

function scan_lines :: "string \<Rightarrow> error option \<Rightarrow> string list \<times> error option" where
  "scan_lines s readErr =
     (if s = [] then ([], readErr)
      else
        (let line = takeWhile (\<lambda>c. c \<noteq> CHR 0x0A) s; rest = dropWhile (\<lambda>c. c \<noteq> CHR 0x0A) s
         in if maxTokenSize \<le> length line then ([], Some ''bufio.Scanner: token too long'')
            else case rest of
              [] \<Rightarrow> ([drop_cr line], readErr)
            | _ # rest' \<Rightarrow> (case scan_lines rest' readErr of (ls, e) \<Rightarrow> (drop_cr line # ls, e))))"
  by pat_completeness auto
termination
proof (relation "measure (\<lambda>(s, _). length s)")
  fix s :: string and readErr x xa and x21 :: char and x22
  assume "s \<noteq> []" "xa = dropWhile (\<lambda>c. c \<noteq> CHR 0x0A) s" "xa = x21 # x22"
  then have "length (x21 # x22) \<le> length s" using length_dropWhile_le [of "\<lambda>c. c \<noteq> CHR 0x0A" s] by metis
  then have "length x22 < length s" by simp
  then show "((x22, readErr), (s, readErr)) \<in> measure (\<lambda>(s, _). length s)" by simp
qed simp

declare scan_lines.simps [simp del]

text \<open>\<open>strings.SplitN(line, ":", 2)\<close> in two parts, if there is a colon.\<close>

definition split2 :: "string \<Rightarrow> (string \<times> string) option" where
  "split2 line =
     (case dropWhile (\<lambda>c. c \<noteq> CHR '':'') line of
        [] \<Rightarrow> None
      | _ # data \<Rightarrow> Some (takeWhile (\<lambda>c. c \<noteq> CHR '':'') line, data))"

text \<open>What a line does: nothing for an empty line, a comment and a line without a colon, else it tells the event.
  The message keeps the type and the data of the last event.\<close>

fun stream_lines :: "string list \<Rightarrow> RuleMsg \<Rightarrow> ctx_call list \<times> RuleMsg \<times> string option" where
  "stream_lines [] msg = ([], msg, None)"
| "stream_lines (line # ls) msg =
     (if line = [] \<or> HasPrefix line '':'' then stream_lines ls msg
      else case split2 line of
        None \<Rightarrow> stream_lines ls msg
      | Some (t, d) \<Rightarrow>
          (case PutValue (MsgMetadata msg) ''eventType'' (TrimSpace t) of
             Inl e \<Rightarrow> ([], msg, Some e)
           | Inr md \<Rightarrow>
               (let msg = msg\<lparr>MsgMetadata := md, Data := TrimSpace d\<rparr>
                in case stream_lines ls msg of (cs, m, p) \<Rightarrow> (TellSuccess msg # cs, m, p))))"

definition readFromStream :: "string \<Rightarrow> error option \<Rightarrow> RuleMsg \<Rightarrow> node_result" where
  "readFromStream body readErr msg =
     (case scan_lines body readErr of
        (ls, err) \<Rightarrow>
          (case stream_lines ls msg of
             (cs, msg', Some panic) \<Rightarrow> (cs, Some panic)
           | (cs, msg', None) \<Rightarrow> (cs @ (case err of Some e \<Rightarrow> [TellFailure msg' (Some e)] | None \<Rightarrow> []), None)))"

section \<open>OnMsg\<close>

record client_request =
  cq_Method :: string
  cq_URL :: string
  cq_Header :: "(string, string) gomap"
  cq_Body :: "string option"

record http_response =
  rs_Status :: string
  rs_StatusCode :: int
  rs_Body :: string
  rs_BodyErr :: "error option"

record ('u, 'w) http_lib =
  hl_NewRequest :: "string \<Rightarrow> string \<Rightarrow> error option"
  hl_Do :: "'u HttpClient \<Rightarrow> client_request \<Rightarrow> 'w \<Rightarrow> (error + http_response) \<times> 'w"

definition put_status :: "http_response \<Rightarrow> Metadata \<Rightarrow> error + Metadata" where
  "put_status response md =
     (case PutValue md ''status'' (rs_Status response) of
        Inl e \<Rightarrow> Inl e
      | Inr md \<Rightarrow> PutValue md ''statusCode'' (Itoa (rs_StatusCode response)))"

definition tell_error_body :: "http_response \<Rightarrow> RuleMsg \<Rightarrow> node_result" where
  "tell_error_body response msg =
     (case PutValue (MsgMetadata msg) ''errorBody'' (rs_Body response) of
        Inl e \<Rightarrow> ([], Some e)
      | Inr md \<Rightarrow> ([TellNext (msg\<lparr>MsgMetadata := md\<rparr>) (Some [Failure])], None))"

definition api_request :: "'u RestApiCallNode \<Rightarrow> RuleMsg \<Rightarrow> client_request" where
  "api_request x msg =
     (let metaData = md_entries (MsgMetadata msg); c = ra_Config x
      in \<lparr>cq_Method = ra_RequestMethod c, cq_URL = SprintfDict (ra_RestEndpointUrlPattern c) metaData,
          cq_Header = fold (\<lambda>(key, value) h. Header_Set (SprintfDict key metaData) (SprintfDict value metaData) h) (ra_Headers c) [],
          cq_Body = (if ra_WithoutRequestBody c then None else Some (Data msg))\<rparr>)"

definition RestApiCallNode_OnMsg :: "('u, 'w) http_lib \<Rightarrow> 'u RestApiCallNode \<Rightarrow> RuleMsg \<Rightarrow> 'w \<Rightarrow> node_result \<times> 'w" where
  "RestApiCallNode_OnMsg H x msg w =
     (let req = api_request x msg
      in case hl_NewRequest H (cq_Method req) (cq_URL req) of
           Some err \<Rightarrow> (([TellFailure msg (Some err)], None), w)
         | None \<Rightarrow>
             (case ra_httpClient x of
                None \<Rightarrow> (nil_panic, w)
              | Some client \<Rightarrow>
                  (case hl_Do H client req w of
                     (Inl err, w) \<Rightarrow> (([TellFailure msg (Some err)], None), w)
                   | (Inr response, w) \<Rightarrow>
                       ((if ra_isStream x then
                           (case put_status response (MsgMetadata msg) of
                              Inl e \<Rightarrow> ([], Some e)
                            | Inr md \<Rightarrow>
                                (let msg = msg\<lparr>MsgMetadata := md\<rparr>
                                 in if rs_StatusCode response = 200 then readFromStream (rs_Body response) (rs_BodyErr response) msg
                                    else tell_error_body response msg))
                         else case rs_BodyErr response of
                           Some err \<Rightarrow> ([TellFailure msg (Some err)], None)
                         | None \<Rightarrow>
                             (case put_status response (MsgMetadata msg) of
                                Inl e \<Rightarrow> ([], Some e)
                              | Inr md \<Rightarrow>
                                  (let msg = msg\<lparr>MsgMetadata := md\<rparr>
                                   in if rs_StatusCode response = 200 then ([TellSuccess (msg\<lparr>Data := rs_Body response\<rparr>)], None)
                                      else tell_error_body response msg))), w))))"

section \<open>Properties\<close>

text \<open>The metadata of a message after a response.\<close>

definition status_metadata :: "http_response \<Rightarrow> (string, string) gomap \<Rightarrow> (string, string) gomap" where
  "status_metadata response md = gm_put ''statusCode'' (Itoa (rs_StatusCode response)) (gm_put ''status'' (rs_Status response) md)"

lemma put_status_Some: "put_status response (Some md) = Inr (Some (status_metadata response md))"
  by (simp add: put_status_def PutValue_def status_metadata_def)

text \<open>the outcome of a call of a node that does not stream. A message with metadata leaves the component exactly once: with the
  body of the response as data on Success if the request was made, the response could be read and its
  status code is 200, and on Failure with the unchanged data otherwise. Every response that was read leaves its
  status in the metadata, and its body as the error body if it goes to Failure; in particular the other codes of
  success, like 201 and 204, go to Failure.\<close>

theorem rest_call_outcome:
  assumes md: "MsgMetadata msg = Some md" and client: "ra_httpClient x = Some client" and "\<not> ra_isStream x"
  shows "fst (RestApiCallNode_OnMsg H x msg w) =
    (let req = api_request x msg in
     case hl_NewRequest H (cq_Method req) (cq_URL req) of
       Some err \<Rightarrow> ([TellFailure msg (Some err)], None)
     | None \<Rightarrow>
         (case fst (hl_Do H client req w) of
            Inl err \<Rightarrow> ([TellFailure msg (Some err)], None)
          | Inr r \<Rightarrow>
              (case rs_BodyErr r of
                 Some err \<Rightarrow> ([TellFailure msg (Some err)], None)
               | None \<Rightarrow>
                   if rs_StatusCode r = 200
                   then ([TellSuccess (msg\<lparr>MsgMetadata := Some (status_metadata r md), Data := rs_Body r\<rparr>)], None)
                   else ([TellNext (msg\<lparr>MsgMetadata := Some (gm_put ''errorBody'' (rs_Body r) (status_metadata r md))\<rparr>) (Some [Failure])], None))))"
  using assms
  by (simp add: RestApiCallNode_OnMsg_def Let_def put_status_Some tell_error_body_def PutValue_def split: option.splits prod.splits sum.splits)

definition created_lib :: "(unit, unit) http_lib" where
  "created_lib = \<lparr>hl_NewRequest = (\<lambda>_ _. None),
     hl_Do = (\<lambda>_ req w. (Inr \<lparr>rs_Status = ''201 Created'', rs_StatusCode = 201, rs_Body = ''{}'', rs_BodyErr = None\<rparr>, w))\<rparr>"

definition plain_client :: "unit HttpClient" where
  "plain_client = \<lparr>htc_MaxConnsPerHost = 200, htc_Proxy = ProxyFromEnvironment, htc_Timeout = 0\<rparr>"

definition api_msg :: RuleMsg where
  "api_msg = \<lparr>Ts = 1, MsgId = ''m'', DataType = JSON, MsgType = ''T'', Data = ''x'', MsgMetadata = Some []\<rparr>"

theorem rest_call_outcome_witness:
  "fst (RestApiCallNode_OnMsg created_lib (RestApiCallNode_New\<lparr>ra_httpClient := Some plain_client\<rparr>) api_msg ()) =
     ([TellNext (api_msg\<lparr>MsgMetadata := Some [(''status'', ''201 Created''), (''statusCode'', ''201''), (''errorBody'', ''{}'')]\<rparr>) (Some [Failure])], None)"
proof -
  have i: "Itoa 201 = ''201''" by code_simp
  show ?thesis
    using rest_call_outcome [of api_msg "[]" "RestApiCallNode_New\<lparr>ra_httpClient := Some plain_client\<rparr>" plain_client created_lib "()"]
    by (simp add: api_msg_def RestApiCallNode_New_def created_lib_def status_metadata_def i Let_def)
qed

text \<open>An event as a server sends it.\<close>

definition good_event :: "string \<times> string \<Rightarrow> bool" where
  "good_event td =
     (fst td \<noteq> [] \<and> CHR '':'' \<notin> set (fst td) \<and> CHR 0x0A \<notin> set (fst td @ snd td) \<and> CHR 0x0D \<notin> set (snd td) \<and>
      TrimSpace (fst td) = fst td \<and> TrimSpace (snd td) = snd td \<and> length (fst td) + length (snd td) + 2 < 65536)"

definition event_text :: "string \<times> string \<Rightarrow> string" where
  "event_text td = fst td @ '': '' @ snd td @ [CHR 0x0A, CHR 0x0A]"

lemma scan_lines_line:
  assumes "CHR 0x0A \<notin> set l" "length l < 65536"
  shows "scan_lines (l @ CHR 0x0A # s) e = (case scan_lines s e of (ls, e) \<Rightarrow> (drop_cr l # ls, e))"
proof -
  have "takeWhile (\<lambda>c. c \<noteq> CHR 0x0A) (l @ CHR 0x0A # s) = l" "dropWhile (\<lambda>c. c \<noteq> CHR 0x0A) (l @ CHR 0x0A # s) = CHR 0x0A # s"
    using assms(1) by (induction l) auto
  then show ?thesis using assms(2) by (subst scan_lines.simps) (simp add: maxTokenSize_def Let_def)
qed

lemma TrimSpace_blank: "TrimSpace (CHR '' '' # s) = TrimSpace s"
proof -
  have "CHR '' '' \<in> set space_chars" by code_simp
  then show ?thesis by (simp add: TrimSpace_def Trim_def)
qed

lemma split2_colon: "CHR '':'' \<notin> set t \<Longrightarrow> split2 (t @ CHR '':'' # d) = Some (t, d)"
proof -
  assume "CHR '':'' \<notin> set t"
  then have "takeWhile (\<lambda>c. c \<noteq> CHR '':'') (t @ CHR '':'' # d) = t" "dropWhile (\<lambda>c. c \<noteq> CHR '':'') (t @ CHR '':'' # d) = CHR '':'' # d"
    by (induction t) auto
  then show ?thesis by (simp add: split2_def)
qed

lemma scan_events:
  assumes "list_all good_event evs"
  shows "scan_lines (concat (map event_text evs)) e = (concat (map (\<lambda>(t, d). [t @ '': '' @ d, []]) evs), e)"
  using assms
proof (induction evs)
  case Nil
  then show ?case by (simp add: scan_lines.simps)
next
  case (Cons td evs)
  obtain t d where td: "td = (t, d)" by force
  with Cons.prems have g: "good_event (t, d)" by simp
  let ?l = "t @ '': '' @ d" and ?s = "concat (map event_text evs)"
  have l: "CHR 0x0A \<notin> set ?l" "length ?l < 65536" using g by (auto simp: good_event_def)
  have "last d \<noteq> CHR 0x0D" if "d \<noteq> []" using g last_in_set [OF that] unfolding good_event_def by (metis snd_conv)
  then have "last ?l \<noteq> CHR 0x0D" by (cases "d = []") auto
  then have cr: "drop_cr ?l = ?l" by (auto simp: drop_cr_def)
  have "scan_lines (event_text (t, d) @ ?s) e = scan_lines (?l @ CHR 0x0A # [] @ CHR 0x0A # ?s) e" by (simp add: event_text_def)
  also have "\<dots> = (case scan_lines ?s e of (ls, e) \<Rightarrow> (?l # [] # ls, e))"
    using scan_lines_line [OF l(1,2)] scan_lines_line [of "[]"] cr by (simp add: drop_cr_def [of "[]"] split: prod.splits)
  finally show ?case using Cons td by simp
qed

lemma gm_put_twice: "gm_put k v (gm_put k v' m) = gm_put k v m"
  by (induction m) auto

text \<open>C27: an event stream is told event by event. If the server answers 200 with a stream of events, each a
  line with a name and data of less than 65536 bytes and an empty line, the component tells one message on Success for every event, in order, with the
  name of the event in the metadata and its data as data; it tells a failure at the end exactly if the reading ended
  with an error.\<close>

theorem event_stream_roundtrip:
  assumes "list_all good_event evs" "MsgMetadata msg = Some md"
  shows "readFromStream (concat (map event_text evs)) e msg =
    (map (\<lambda>(t, d). TellSuccess (msg\<lparr>MsgMetadata := Some (gm_put ''eventType'' t md), Data := d\<rparr>)) evs @
       (case e of
          None \<Rightarrow> []
        | Some err \<Rightarrow>
            [TellFailure (if evs = [] then msg
               else msg\<lparr>MsgMetadata := Some (gm_put ''eventType'' (fst (last evs)) md), Data := snd (last evs)\<rparr>) (Some err)]), None)"
proof -
  have stream: "stream_lines (concat (map (\<lambda>(t, d). [t @ '': '' @ d, []]) evs)) m =
     (map (\<lambda>(t, d). TellSuccess (m\<lparr>MsgMetadata := Some (gm_put ''eventType'' t md), Data := d\<rparr>)) evs,
      if evs = [] then m else m\<lparr>MsgMetadata := Some (gm_put ''eventType'' (fst (last evs)) md), Data := snd (last evs)\<rparr>, None)"
    if "MsgMetadata m = Some md'" "\<And>t. gm_put ''eventType'' t md' = gm_put ''eventType'' t md" for m md'
    using assms(1) that
  proof (induction evs arbitrary: m md')
    case (Cons td evs)
    obtain t d where td: "td = (t, d)" by force
    with Cons.prems have g: "good_event (t, d)" by simp
    let ?m = "m\<lparr>MsgMetadata := Some (gm_put ''eventType'' t md), Data := d\<rparr>"
    have line: "t @ '': '' @ d \<noteq> []" "\<not> HasPrefix (t @ '': '' @ d) '':''" "TrimSpace t = t" "TrimSpace (CHR '' '' # d) = d"
      using g TrimSpace_blank [of d] by (cases t; auto simp: good_event_def)+
    have "split2 (t @ '': '' @ d) = Some (t, CHR '' '' # d)" using g split2_colon [of t "CHR '' '' # d"] by (simp add: good_event_def)
    with line have step: "stream_lines ((t @ '': '' @ d) # [] # ls) m =
        (case stream_lines ls ?m of (cs, m, p) \<Rightarrow> (TellSuccess ?m # cs, m, p))" for ls
      using Cons.prems(2,3) by (simp add: PutValue_def Let_def)
    have IH: "stream_lines (concat (map (\<lambda>(t, d). [t @ '': '' @ d, []]) evs)) ?m =
       (map (\<lambda>(t, d). TellSuccess (?m\<lparr>MsgMetadata := Some (gm_put ''eventType'' t md), Data := d\<rparr>)) evs,
        if evs = [] then ?m else ?m\<lparr>MsgMetadata := Some (gm_put ''eventType'' (fst (last evs)) md), Data := snd (last evs)\<rparr>, None)"
      by (rule Cons.IH [where md' = "gm_put ''eventType'' t md"]) (use Cons.prems(1) gm_put_twice in auto)
    show ?case using step IH td by simp
  qed simp
  show ?thesis
    using stream [OF assms(2)] by (simp add: readFromStream_def scan_events [OF assms(1)] split: option.splits)
qed

theorem event_stream_roundtrip_witness:
  "readFromStream (''data: 1'' @ [CHR 0x0A, CHR 0x0A] @ ''end: 2'' @ [CHR 0x0A, CHR 0x0A]) None api_msg =
     ([TellSuccess (api_msg\<lparr>MsgMetadata := Some [(''eventType'', ''data'')], Data := ''1''\<rparr>),
       TellSuccess (api_msg\<lparr>MsgMetadata := Some [(''eventType'', ''end'')], Data := ''2''\<rparr>)], None)"
proof -
  have "TrimSpace ''data'' = ''data''" "TrimSpace ''end'' = ''end''" "TrimSpace ''1'' = ''1''" "TrimSpace ''2'' = ''2''" by code_simp+
  then have "list_all good_event [(''data'', ''1''), (''end'', ''2'')]" by (simp add: good_event_def)
  from event_stream_roundtrip [OF this, of api_msg "[]" None] show ?thesis by (simp add: api_msg_def event_text_def)
qed

end
