(* ===== verification/DbClient.thy ===== *)
theory DbClient
  imports Routes NodeBase
begin

text \<open>
  The component \<open>dbClient\<close> (\<open>components/external/db_client_node.go\<close>). The database driver is a parameter: what a statement
  returns, row by row. The cells that rows are scanned into are a store, because the result of a query
  keeps pointers to them.
\<close>

section \<open>Configuration\<close>

record DbClientNodeConfiguration =
  db_Sql :: string
  db_Params :: "go_val list"
  db_GetOne :: bool
  db_PoolSize :: int
  db_DriverName :: string
  db_Dsn :: string

record 'db DbClientNode =
  db_Config :: DbClientNodeConfiguration
  db_db :: "'db option"
  db_opType :: string
  db_paramsHasVar :: bool

record query_rows =
  qr_Columns :: "error + string list"
  qr_Scan :: "(error + go_val list) list"
  qr_Err :: "error option"

record sql_result =
  sr_RowsAffected :: "error + int"
  sr_LastInsertId :: int

text \<open>The pool of connections of a database handle has its two bounds; \<open>Query\<close> and \<open>Exec\<close> may change the world.\<close>

record ('db, 'w) sql_lib =
  sl_Open :: "string \<Rightarrow> string \<Rightarrow> error + 'db"
  sl_SetPool :: "int \<Rightarrow> int \<Rightarrow> 'db \<Rightarrow> 'db"
  sl_Ping :: "'db \<Rightarrow> error option"
  sl_Query :: "'db \<Rightarrow> string \<Rightarrow> go_val list \<Rightarrow> 'w \<Rightarrow> (error + query_rows) \<times> 'w"
  sl_Exec :: "'db \<Rightarrow> string \<Rightarrow> go_val list \<Rightarrow> 'w \<Rightarrow> (error + sql_result) \<times> 'w"

definition DbClientNode_New :: "'db DbClientNode" where
  "DbClientNode_New =
     \<lparr>db_Config = \<lparr>db_Sql = ''select * from test'', db_Params = [], db_GetOne = False, db_PoolSize = 0, db_DriverName = ''mysql'',
        db_Dsn = ''root:root@tcp(127.0.0.1:3306)/test''\<rparr>,
      db_db = None, db_opType = [], db_paramsHasVar = False\<rparr>"

text \<open>\<open>strings.Fields\<close>.\<close>

fun fields_acc :: "string \<Rightarrow> string \<Rightarrow> string list" where
  "fields_acc w [] = (if w = [] then [] else [w])"
| "fields_acc w (c # s) = (if c \<in> set space_chars then (if w = [] then [] else [w]) @ fields_acc [] s else fields_acc (w @ [c]) s)"

definition Fields :: "string \<Rightarrow> string list" where
  "Fields s = fields_acc [] s"

definition sql_ops :: "string list" where
  "sql_ops = [''SELECT'', ''UPDATE'', ''INSERT'', ''DELETE'']"

definition has_var_param :: "go_val \<Rightarrow> bool" where
  "has_var_param item = (case item of GString v \<Rightarrow> CheckHasVar v | _ \<Rightarrow> False)"

text \<open>Go's division of an \<open>int\<close> truncates towards zero. A statement of blanks only makes \<open>words[0]\<close> panic.\<close>

definition go_div2 :: "int \<Rightarrow> int" where
  "go_div2 n = (if n < 0 then - ((- n) div 2) else n div 2)"

definition DbClientNode_Init ::
  "('db, 'w) sql_lib \<Rightarrow> DbClientNodeConfiguration decoder \<Rightarrow> Configuration \<Rightarrow> 'db DbClientNode \<Rightarrow> error option \<times> 'db DbClientNode" where
  "DbClientNode_Init S decode configuration x =
     (case decode configuration (db_Config x) of
        (Some err, c) \<Rightarrow> (Some err, x\<lparr>db_Config := c\<rparr>)
      | (None, c) \<Rightarrow>
          (let c = (if db_DriverName c = [] then c\<lparr>db_DriverName := ''mysql''\<rparr> else c)
           in if db_Sql c = [] then (Some ''sql can not empty'', x\<lparr>db_Config := c\<rparr>)
              else case sl_Open S (db_DriverName c) (db_Dsn c) of
                Inl err \<Rightarrow> (Some err, x\<lparr>db_Config := c, db_db := None\<rparr>)
              | Inr db \<Rightarrow>
                  (let db = sl_SetPool S (db_PoolSize c) (go_div2 (db_PoolSize c)) db;
                       err = sl_Ping S db;
                       x = x\<lparr>db_Config := c, db_db := Some db\<rparr>
                   in case Fields (db_Sql c) of
                        [] \<Rightarrow> (Some ''index out of range'', x)
                      | w # _ \<Rightarrow>
                          (let opType = ToUpper w;
                               err = (if opType \<in> set sql_ops then err else Some (''unsupported sql statement: '' @ db_Sql c));
                               x = x\<lparr>db_opType := opType, db_paramsHasVar := (db_paramsHasVar x \<or> list_ex has_var_param (db_Params c)),
                                     db_Config := c\<lparr>db_Sql := ConvertDollarPlaceholder (db_Sql c) (db_DriverName c)\<rparr>\<rparr>
                           in (err, x)))))"

section \<open>Queries\<close>

text \<open>A value of the result: a copy of a byte slice as text, or a pointer to the cell of a column.\<close>

datatype db_value = Copied string | Pointer nat

definition row_columns :: "string list \<Rightarrow> (string, nat) gomap" where
  "row_columns columns = fold (\<lambda>(i, c) row. gm_put c i row) (enumerate 0 columns) []"

definition copy_row :: "(string, nat) gomap \<Rightarrow> go_val list \<Rightarrow> (string \<times> db_value) list" where
  "copy_row row cells = map (\<lambda>(k, i). (k, case cells ! i of GBytes b \<Rightarrow> Copied b | _ \<Rightarrow> Pointer i)) row"

fun scan_rows ::
  "(string, nat) gomap \<Rightarrow> (error + go_val list) list \<Rightarrow> go_val list \<Rightarrow> (string \<times> db_value) list list
     \<Rightarrow> error + (string \<times> db_value) list list \<times> go_val list" where
  "scan_rows row [] cells result = Inr (result, cells)"
| "scan_rows row (Inl err # rs) cells result = Inl err"
| "scan_rows row (Inr values # rs) cells result = scan_rows row rs values (result @ [copy_row row values])"

text \<open>Reading a row through its pointers.\<close>

definition deref_row :: "go_val list \<Rightarrow> (string \<times> db_value) list \<Rightarrow> go_val" where
  "deref_row cells m = GMap (map (\<lambda>(k, v). (k, case v of Copied b \<Rightarrow> GString b | Pointer i \<Rightarrow> cells ! i)) m)"

definition db_query :: "query_rows \<Rightarrow> bool \<Rightarrow> error + go_val" where
  "db_query rows getOne =
     (case qr_Columns rows of
        Inl err \<Rightarrow> Inl err
      | Inr columns \<Rightarrow>
          (case scan_rows (row_columns columns) (qr_Scan rows) (replicate (length columns) GNil) [] of
             Inl err \<Rightarrow> Inl err
           | Inr (result, cells) \<Rightarrow>
               (case qr_Err rows of
                  Some err \<Rightarrow> Inl err
                | None \<Rightarrow>
                    if getOne then (case result of m # _ \<Rightarrow> Inr (deref_row cells m) | [] \<Rightarrow> Inr GNil)
                    else Inr (GSlice (map (deref_row cells) result)))))"

section \<open>OnMsg\<close>

definition db_params :: "'db DbClientNode \<Rightarrow> RuleMsg \<Rightarrow> go_val list" where
  "db_params x msg =
     (if db_paramsHasVar x
      then map (\<lambda>item. case item of GString v \<Rightarrow> GString (SprintfDict v (md_entries (MsgMetadata msg))) | _ \<Rightarrow> item) (db_Params (db_Config x))
      else db_Params (db_Config x))"

definition db_update :: "('db, 'w) sql_lib \<Rightarrow> 'db \<Rightarrow> string \<Rightarrow> go_val list \<Rightarrow> 'w \<Rightarrow> (error + int) \<times> 'w" where
  "db_update S db sqlStr params w =
     (case sl_Exec S db sqlStr params w of
        (Inl err, w) \<Rightarrow> (Inl err, w)
      | (Inr result, w) \<Rightarrow> (sr_RowsAffected result, w))"

definition db_insert :: "('db, 'w) sql_lib \<Rightarrow> 'db \<Rightarrow> string \<Rightarrow> go_val list \<Rightarrow> 'w \<Rightarrow> (error + int \<times> int) \<times> 'w" where
  "db_insert S db sqlStr params w =
     (case sl_Exec S db sqlStr params w of
        (Inl err, w) \<Rightarrow> (Inl err, w)
      | (Inr result, w) \<Rightarrow>
          (case sr_RowsAffected result of
             Inl err \<Rightarrow> (Inl err, w)
           | Inr rowsAffected \<Rightarrow> (Inr (rowsAffected, sr_LastInsertId result), w)))"

definition db_delete :: "('db, 'w) sql_lib \<Rightarrow> 'db \<Rightarrow> string \<Rightarrow> go_val list \<Rightarrow> 'w \<Rightarrow> (error + int) \<times> 'w" where
  "db_delete S db sqlStr params w =
     (case sl_Exec S db sqlStr params w of
        (Inl err, w) \<Rightarrow> (Inl err, w)
      | (Inr result, w) \<Rightarrow> (sr_RowsAffected result, w))"

definition tell_rows :: "RuleMsg \<Rightarrow> (string \<times> int) list \<Rightarrow> node_result" where
  "tell_rows msg kvs =
     (case put_params (map (\<lambda>(k, n). (k, Itoa n)) kvs) (MsgMetadata msg) of
        Inl e \<Rightarrow> ([], Some e)
      | Inr md \<Rightarrow> ([TellSuccess (msg\<lparr>MsgMetadata := md\<rparr>)], None))"

definition DbClientNode_OnMsg :: "go_env \<Rightarrow> ('db, 'w) sql_lib \<Rightarrow> 'db DbClientNode \<Rightarrow> RuleMsg \<Rightarrow> 'w \<Rightarrow> node_result \<times> 'w" where
  "DbClientNode_OnMsg env S x msg w =
     (let sqlStr = SprintfDict (db_Sql (db_Config x)) (md_entries (MsgMetadata msg));
          params = db_params x msg;
          fail = (\<lambda>err. ([TellFailure msg (Some err)], None))
      in if db_opType x \<notin> set sql_ops then (fail (''unsupported sql statement: '' @ sqlStr), w)
         else case db_db x of
           None \<Rightarrow> (nil_panic, w)
         | Some db \<Rightarrow>
             if db_opType x = ''SELECT'' then
               (case sl_Query S db sqlStr params w of
                  (Inl err, w) \<Rightarrow> (fail err, w)
                | (Inr rows, w) \<Rightarrow>
                    ((case db_query rows (db_GetOne (db_Config x)) of
                        Inl err \<Rightarrow> fail err
                      | Inr data \<Rightarrow> ([TellSuccess (msg\<lparr>Data := ToString env data\<rparr>)], None)), w))
             else if db_opType x = ''INSERT'' then
               (case db_insert S db sqlStr params w of
                  (Inl err, w) \<Rightarrow> (fail err, w)
                | (Inr (rowsAffected, lastInsertId), w) \<Rightarrow>
                    (tell_rows msg [(''rowsAffected'', rowsAffected), (''lastInsertId'', lastInsertId)], w))
             else
               (case (if db_opType x = ''UPDATE'' then db_update S db sqlStr params w else db_delete S db sqlStr params w) of
                  (Inl err, w) \<Rightarrow> (fail err, w)
                | (Inr rowsAffected, w) \<Rightarrow> (tell_rows msg [(''rowsAffected'', rowsAffected)], w)))"

section \<open>Properties\<close>

lemma scan_rows_ok:
  "scan_rows row (map Inr rws) cells result =
     Inr (result @ map (copy_row row) rws, if rws = [] then cells else last rws)"
  by (induction rws arbitrary: cells result) auto

lemma row_columns_distinct: "distinct cs \<Longrightarrow> row_columns cs = zip cs [0..<length cs]"
proof -
  have "fold (\<lambda>(i, c) row. gm_put c i row) (enumerate n cs) row = row @ zip cs [n..<n + length cs]"
    if "distinct cs" "set cs \<inter> fst ` set row = {}" for n row
    using that
  proof (induction cs arbitrary: n row)
    case (Cons c cs)
    then have "fold (\<lambda>(i, c) row. gm_put c i row) (enumerate n (c # cs)) row =
        (row @ [(c, n)]) @ zip cs [Suc n..<Suc n + length cs]"
      by (simp add: gm_put_new)
    moreover have "[n..<n + length (c # cs)] = n # [Suc n..<Suc n + length cs]"
      using upt_conv_Cons [of n "n + length (c # cs)"] by (simp del: upt_Suc)
    ultimately show ?case by (simp only: zip_Cons_Cons append.assoc append.simps)
  qed simp
  from this [of "[]" 0] show "distinct cs \<Longrightarrow> row_columns cs = zip cs [0..<length cs]" by (simp add: row_columns_def)
qed

text \<open>What a row of a result reads as, when \<open>final\<close> are the values of the last row.\<close>

definition cell_text :: "go_val \<Rightarrow> go_val \<Rightarrow> go_val" where
  "cell_text v f = (case v of GBytes b \<Rightarrow> GString b | _ \<Rightarrow> f)"

definition aliased_row :: "string list \<Rightarrow> go_val list \<Rightarrow> go_val list \<Rightarrow> go_val" where
  "aliased_row cs final values = GMap (zip cs (map2 cell_text values final))"

lemma cell_text_deref:
  "(case (case v of GBytes b \<Rightarrow> Copied b | _ \<Rightarrow> Pointer i) of Copied b \<Rightarrow> GString b | Pointer i \<Rightarrow> cells ! i) = cell_text v (cells ! i)"
  by (cases v) (simp_all add: cell_text_def)

lemma deref_copy_row:
  assumes "distinct cs" "length values = length cs" "length final = length cs"
  shows "deref_row final (copy_row (row_columns cs) values) = aliased_row cs final values"
  unfolding deref_row_def copy_row_def row_columns_distinct [OF assms(1)] aliased_row_def
  by (rule arg_cong [of _ _ GMap], rule nth_equalityI) (use assms(2,3) in \<open>simp_all add: cell_text_deref\<close>)

text \<open>the rows of a query share their cells. A query returns one object for every row, but in each of them only
  the columns whose value came as bytes have the value of their row: every other column, a number for
  instance, has the value of the last row in all of them.\<close>

theorem db_rows_alias:
  assumes "qr_Columns rows = Inr cs" "distinct cs" "qr_Scan rows = map Inr rws" "rws \<noteq> []" "qr_Err rows = None"
    and "list_all (\<lambda>v. length v = length cs) rws"
  shows "db_query rows False = Inr (GSlice (map (aliased_row cs (last rws)) rws))"
proof -
  have l: "length (last rws) = length cs" using assms(4,6) last_in_set [OF assms(4)] by (auto simp: list_all_iff)
  have "map (deref_row (last rws) \<circ> copy_row (row_columns cs)) rws = map (aliased_row cs (last rws)) rws"
    using assms(2,6) l by (auto simp: list_all_iff deref_copy_row)
  then show ?thesis using assms by (simp add: db_query_def scan_rows_ok)
qed

theorem db_rows_alias_witness:
  "db_query \<lparr>qr_Columns = Inr [''name'', ''age''], qr_Scan = [Inr [GBytes ''a'', GInt64 1], Inr [GBytes ''b'', GInt64 2]], qr_Err = None\<rparr> False =
     Inr (GSlice [GMap [(''name'', GString ''a''), (''age'', GInt64 2)], GMap [(''name'', GString ''b''), (''age'', GInt64 2)]])"
  using db_rows_alias [of "\<lparr>qr_Columns = Inr [''name'', ''age''], qr_Scan = [Inr [GBytes ''a'', GInt64 1], Inr [GBytes ''b'', GInt64 2]], qr_Err = None\<rparr>"
      "[''name'', ''age'']" "[[GBytes ''a'', GInt64 1], [GBytes ''b'', GInt64 2]]"]
  by (simp add: aliased_row_def cell_text_def)

text \<open>A statement of blanks passes the test for an empty one and makes \<open>Init\<close> panic.\<close>

lemma Fields_blank: "set s \<subseteq> set space_chars \<Longrightarrow> Fields s = []"
proof -
  assume "set s \<subseteq> set space_chars"
  then have "fields_acc [] s = []" by (induction s) auto
  then show ?thesis by (simp add: Fields_def)
qed

lemma db_blank_statement:
  assumes "decode configuration (db_Config x) = (None, c)" "db_Sql c \<noteq> []" "set (db_Sql c) \<subseteq> set space_chars"
    and "db_DriverName c \<noteq> []" "sl_Open S (db_DriverName c) (db_Dsn c) = Inr db"
  shows "fst (DbClientNode_Init S decode configuration x) = Some ''index out of range''"
  using assms by (simp add: DbClientNode_Init_def Let_def Fields_blank)

end
