(* ===== verification/ExternalNodes.thy ===== *)
theory ExternalNodes
  imports MqttClient NodeBase
begin

text \<open>
  The components \<open>sendEmail\<close>, \<open>ssh\<close> and \<open>mqttClient\<close> (\<open>components/external\<close>). The libraries for SMTP and SSH are
  parameters.
\<close>

section \<open>sendEmail\<close>

record Email =
  em_From :: string
  em_To :: string
  em_Cc :: string
  em_Bcc :: string
  em_Subject :: string
  em_Body :: string

definition crlf :: string where "crlf = [CHR 0x0D, CHR 0x0A]"

definition createEmailMsg :: "Email \<Rightarrow> (string, string) gomap \<Rightarrow> string \<times> string list" where
  "createEmailMsg e metadata =
     (let subject = SprintfDict (em_Subject e) metadata;
          body = SprintfDict (em_Body e) metadata;
          sendTo = Split (em_To e) CHR '','';
          sendTo = (if em_Cc e \<noteq> [] then sendTo @ Split (em_Cc e) CHR '','' else sendTo);
          sendTo = (if em_Bcc e \<noteq> [] then sendTo @ Split (em_Bcc e) CHR '','' else sendTo);
          msg = ''To: '' @ em_To e @ crlf @ ''From: '' @ em_From e @ crlf @ ''Subject: '' @ subject @ crlf @
                ''Cc: '' @ em_Cc e @ crlf @ ''Bcc: '' @ em_Bcc e @ crlf @ ''Content-Type: text/html; charset=UTF-8'' @ crlf @ crlf @ body
      in (msg, sendTo))"

text \<open>The commands of an SMTP session. The library runs one and answers with an error or none; \<open>SendMail\<close> is its own
  function for a whole mail.\<close>

datatype smtp_command = Dial string | Greet | Auth | MailFrom string | Rcpt string | DataStart | DataWrite string | DataClose | Quit

record 'w smtp_lib =
  sm_SendMail :: "string \<Rightarrow> string \<Rightarrow> string list \<Rightarrow> string \<Rightarrow> 'w \<Rightarrow> error option \<times> 'w"
  sm_Run :: "smtp_command \<Rightarrow> 'w \<Rightarrow> error option \<times> 'w"

definition SendEmail :: "'w smtp_lib \<Rightarrow> string \<Rightarrow> Email \<Rightarrow> (string, string) gomap \<Rightarrow> 'w \<Rightarrow> error option \<times> 'w" where
  "SendEmail L addr e metadata w =
     (case createEmailMsg e metadata of (msg, sendTo) \<Rightarrow> sm_SendMail L addr (em_From e) sendTo msg w)"

text \<open>A sequence of commands with an early return at the first error.\<close>

fun smtp_session :: "'w smtp_lib \<Rightarrow> smtp_command list \<Rightarrow> 'w \<Rightarrow> error option \<times> 'w" where
  "smtp_session L [] w = (None, w)"
| "smtp_session L (c # cs) w = (case sm_Run L c w of (Some err, w) \<Rightarrow> (Some err, w) | (None, w) \<Rightarrow> smtp_session L cs w)"

definition mail_commands :: "string \<Rightarrow> string \<Rightarrow> string list \<Rightarrow> string \<Rightarrow> smtp_command list" where
  "mail_commands addr sender sendTo msg =
     [Dial addr, Greet, Auth, MailFrom sender] @ map Rcpt sendTo @ [DataStart, DataWrite msg, DataClose, Quit]"

definition SendEmailWithTls :: "'w smtp_lib \<Rightarrow> string \<Rightarrow> Email \<Rightarrow> (string, string) gomap \<Rightarrow> 'w \<Rightarrow> error option \<times> 'w" where
  "SendEmailWithTls L addr e metadata w =
     (case createEmailMsg e metadata of (msg, sendTo) \<Rightarrow> smtp_session L (mail_commands addr (em_From e) sendTo msg) w)"

record SendEmailConfiguration =
  se_SmtpHost :: string
  se_SmtpPort :: int
  se_Username :: string
  se_Password :: string
  se_EnableTls :: bool
  se_Email :: Email
  se_ConnectTimeout :: "64 word"

record SendEmailNode =
  se_Config :: SendEmailConfiguration
  se_ConnectTimeoutDuration :: "64 word"
  se_smtpAddr :: string
  se_smtpAuth :: "(string \<times> string \<times> string) option"

definition SendEmailNode_New :: SendEmailNode where
  "SendEmailNode_New =
     \<lparr>se_Config = \<lparr>se_SmtpHost = [], se_SmtpPort = 0, se_Username = [], se_Password = [], se_EnableTls = False,
        se_Email = \<lparr>em_From = [], em_To = [], em_Cc = [], em_Bcc = [], em_Subject = [], em_Body = []\<rparr>, se_ConnectTimeout = 10\<rparr>,
      se_ConnectTimeoutDuration = 0, se_smtpAddr = [], se_smtpAuth = None\<rparr>"

definition SendEmailNode_Init :: "SendEmailConfiguration decoder \<Rightarrow> Configuration \<Rightarrow> SendEmailNode \<Rightarrow> error + SendEmailNode" where
  "SendEmailNode_Init decode configuration x =
     (case decode configuration (se_Config x) of
        (Some err, c) \<Rightarrow> Inl err
      | (None, c) \<Rightarrow>
          if em_To (se_Email c) = [] then Inl ''to address can not empty''
          else
            (let c' = (if sint (se_ConnectTimeout c) \<le> 0 then c\<lparr>se_ConnectTimeout := 10\<rparr> else c)
             in Inr \<lparr>se_Config = c', se_ConnectTimeoutDuration = se_ConnectTimeout c' * 1000000000,
                     se_smtpAddr = se_SmtpHost c @ '':'' @ Itoa (se_SmtpPort c),
                     se_smtpAuth = Some (se_Username c, se_Password c, se_SmtpHost c)\<rparr>))"

definition SendEmailNode_OnMsg :: "'w smtp_lib \<Rightarrow> SendEmailNode \<Rightarrow> RuleMsg \<Rightarrow> 'w \<Rightarrow> node_result \<times> 'w" where
  "SendEmailNode_OnMsg L x msg w =
     (let metaData = md_entries (MsgMetadata msg); e = se_Email (se_Config x)
      in case (if se_EnableTls (se_Config x) then SendEmailWithTls L (se_smtpAddr x) e metaData w
               else SendEmail L (se_smtpAddr x) e metaData w) of
           (Some err, w) \<Rightarrow> (([TellFailure msg (Some err)], None), w)
         | (None, w) \<Rightarrow> (([TellSuccess msg], None), w))"

section \<open>ssh\<close>

record SshConfiguration =
  sh_Host :: string
  sh_Port :: int
  sh_Username :: string
  sh_Password :: string
  sh_Cmd :: string

record 'c SshNode =
  sh_Config :: SshConfiguration
  sh_client :: "'c option"

record ('c, 'w) ssh_lib =
  sh_Dial :: "string \<Rightarrow> string \<Rightarrow> string \<Rightarrow> 'w \<Rightarrow> (error + 'c) \<times> 'w"
  sh_NewSession :: "'c \<Rightarrow> 'w \<Rightarrow> error option \<times> 'w"
  sh_CombinedOutput :: "'c \<Rightarrow> string \<Rightarrow> 'w \<Rightarrow> (string \<times> error option) \<times> 'w"

definition SshNode_New :: "'c SshNode" where
  "SshNode_New = \<lparr>sh_Config = \<lparr>sh_Host = ''127.0.0.1'', sh_Port = 22, sh_Username = ''root'', sh_Password = ''password'', sh_Cmd = []\<rparr>, sh_client = None\<rparr>"

definition SshNode_Init ::
  "('c, 'w) ssh_lib \<Rightarrow> SshConfiguration decoder \<Rightarrow> Configuration \<Rightarrow> 'c SshNode \<Rightarrow> 'w \<Rightarrow> (error + 'c SshNode) \<times> 'w" where
  "SshNode_Init L decode configuration x w =
     (case decode configuration (sh_Config x) of
        (Some err, c) \<Rightarrow> (Inl err, w)
      | (None, c) \<Rightarrow>
          if sh_Host c \<noteq> [] \<and> sh_Port c \<noteq> 0 \<and> sh_Username c \<noteq> [] \<and> sh_Password c \<noteq> [] then
            (case sh_Dial L (sh_Host c @ '':'' @ Itoa (sh_Port c)) (sh_Username c) (sh_Password c) w of
               (Inl err, w) \<Rightarrow> (Inl err, w)
             | (Inr client, w) \<Rightarrow> (Inr \<lparr>sh_Config = c, sh_client = Some client\<rparr>, w))
          else (Inl ''ssh config can not empty'', w))"

definition SshNode_OnMsg :: "('c, 'w) ssh_lib \<Rightarrow> 'c SshNode \<Rightarrow> RuleMsg \<Rightarrow> 'w \<Rightarrow> node_result \<times> 'w" where
  "SshNode_OnMsg L x msg w =
     (case sh_client x of
        None \<Rightarrow> (([TellFailure msg (Some ''ssh client not initialized'')], None), w)
      | Some client \<Rightarrow>
          if sh_Cmd (sh_Config x) = [] then (([TellFailure msg (Some ''cmd can not empty'')], None), w)
          else
            (let cmd = SprintfDict (sh_Cmd (sh_Config x)) (md_entries (MsgMetadata msg))
             in case sh_NewSession L client w of
                  (Some err, w) \<Rightarrow> (([TellFailure msg (Some err)], None), w)
                | (None, w) \<Rightarrow>
                    (case sh_CombinedOutput L client cmd w of
                       ((output, err), w) \<Rightarrow>
                         (let msg = msg\<lparr>Data := output, DataType := TEXT\<rparr>
                          in case err of
                               Some e \<Rightarrow> (([TellFailure msg (Some e)], None), w)
                             | None \<Rightarrow> (([TellSuccess msg], None), w)))))"

section \<open>mqttClient\<close>

record MqttClientNodeConfiguration =
  mn_Topic :: string
  mn_Server :: string
  mn_Username :: string
  mn_Password :: string
  mn_MaxReconnectInterval :: "64 word"
  mn_QOS :: "8 word"
  mn_CleanSession :: bool
  mn_ClientID :: string
  mn_CAFile :: string
  mn_CertFile :: string
  mn_CertKeyFile :: string

record ('p, 'h) MqttClientNode =
  mn_Config :: MqttClientNodeConfiguration
  mn_mqttClient :: "('p, 'h) mqtt_Client option"

definition MqttClientNode_New :: "('p, 'h) MqttClientNode" where
  "MqttClientNode_New =
     \<lparr>mn_Config = \<lparr>mn_Topic = ''/device/msg'', mn_Server = ''127.0.0.1:1883'', mn_Username = [], mn_Password = [], mn_MaxReconnectInterval = 60,
        mn_QOS = 0, mn_CleanSession = False, mn_ClientID = [], mn_CAFile = [], mn_CertFile = [], mn_CertKeyFile = []\<rparr>,
      mn_mqttClient = None\<rparr>"

text \<open>A negative interval becomes 60 seconds, also in the configuration of the node.\<close>

definition ToMqttConfig :: "MqttClientNodeConfiguration \<Rightarrow> mqtt_Config \<times> MqttClientNodeConfiguration" where
  "ToMqttConfig x =
     (let x = (if sint (mn_MaxReconnectInterval x) < 0 then x\<lparr>mn_MaxReconnectInterval := 60\<rparr> else x)
      in (\<lparr>mc_Server = mn_Server x, mc_Username = mn_Username x, mc_Password = mn_Password x,
           mc_MaxReconnectInterval = mn_MaxReconnectInterval x * 1000000000, mc_QOS = mn_QOS x, mc_CleanSession = mn_CleanSession x,
           mc_ClientID = mn_ClientID x, mc_CAFile = mn_CAFile x, mc_CertFile = mn_CertFile x, mc_CertKeyFile = mn_CertKeyFile x\<rparr>, x))"

definition MqttClientNode_Init ::
  "('p, 'h, 'kp) paho_ops \<Rightarrow> 'kp tls_files \<Rightarrow> string \<Rightarrow> (nat \<Rightarrow> error option) \<Rightarrow> MqttClientNodeConfiguration decoder \<Rightarrow> Configuration
     \<Rightarrow> ('p, 'h) MqttClientNode \<Rightarrow> (error option \<times> ('p, 'h) MqttClientNode) option" where
  "MqttClientNode_Init P F rnd ctxDone decode configuration x =
     (case decode configuration (mn_Config x) of
        (Some err, c) \<Rightarrow> Some (Some err, x\<lparr>mn_Config := c\<rparr>)
      | (None, c) \<Rightarrow>
          (case ToMqttConfig c of
             (conf, c) \<Rightarrow>
               map_option (\<lambda>r. case r of
                   Inl err \<Rightarrow> (Some err, x\<lparr>mn_Config := c, mn_mqttClient := None\<rparr>)
                 | Inr client \<Rightarrow> (None, x\<lparr>mn_Config := c, mn_mqttClient := Some client\<rparr>))
                 (mqtt_NewClient P F rnd ctxDone conf)))"

definition MqttClientNode_OnMsg ::
  "('p, 'h, 'kp) paho_ops \<Rightarrow> RuleMsg \<Rightarrow> ('p, 'h) MqttClientNode \<Rightarrow> node_result \<times> ('p, 'h) MqttClientNode" where
  "MqttClientNode_OnMsg P msg x =
     (let topic = SprintfDict (mn_Topic (mn_Config x)) (md_entries (MsgMetadata msg))
      in case mn_mqttClient x of
           None \<Rightarrow> (([TellFailure msg (Some ''mqtt client not initialized'')], None), x)
         | Some b \<Rightarrow>
             (case mqtt_Publish P topic (mn_QOS (mn_Config x)) (Data msg) b of
                (Some err, b) \<Rightarrow> (([TellFailure msg (Some err)], None), x\<lparr>mn_mqttClient := Some b\<rparr>)
              | (None, b) \<Rightarrow> (([TellSuccess msg], None), x\<lparr>mn_mqttClient := Some b\<rparr>)))"

definition MqttClientNode_Destroy :: "('p, 'h, 'kp) paho_ops \<Rightarrow> ('p, 'h) MqttClientNode \<Rightarrow> ('p, 'h) MqttClientNode" where
  "MqttClientNode_Destroy P x =
     (case mn_mqttClient x of Some b \<Rightarrow> x\<lparr>mn_mqttClient := Some (snd (mqtt_Client_Close P b))\<rparr> | None \<Rightarrow> x)"

section \<open>Properties\<close>

text \<open>The commands that were run: those before the first error.\<close>

lemma smtp_session_ok:
  "smtp_session L cs w = (None, w') \<Longrightarrow> i < length cs \<Longrightarrow>
     \<exists>v v'. fst (smtp_session L (take i cs) w) = None \<and> snd (smtp_session L (take i cs) w) = v \<and> sm_Run L (cs ! i) v = (None, v')"
proof (induction cs arbitrary: i w)
  case (Cons c cs)
  obtain w1 where c: "sm_Run L c w = (None, w1)" "smtp_session L cs w1 = (None, w')"
    using Cons.prems(1) by (auto split: prod.splits option.splits)
  with Cons show ?case by (cases i) auto
qed simp

text \<open>a mail is sent to all of its recipients and shows all of them the blind ones. A mail that is reported as sent
  over TLS was announced to the server for every address of To, Cc and Bcc before its text was sent, and the
  text has the list of the blind recipients in its header, where every recipient reads it.\<close>

theorem email_recipients:
  assumes "SendEmailWithTls L addr e md w = (None, w')" "em_Cc e \<noteq> []" "em_Bcc e \<noteq> []"
    and r: "r \<in> set (Split (em_To e) CHR '','') \<union> set (Split (em_Cc e) CHR '','') \<union> set (Split (em_Bcc e) CHR '','')"
  shows "\<exists>i j v v' u u' pre suf. i < j \<and>
    (let cs = mail_commands addr (em_From e) (snd (createEmailMsg e md)) (fst (createEmailMsg e md)) in
       cs ! i = Rcpt r \<and> smtp_session L (take i cs) w = (None, v) \<and> sm_Run L (Rcpt r) v = (None, v') \<and>
       cs ! j = DataWrite (pre @ ''Bcc: '' @ em_Bcc e @ suf) \<and> smtp_session L (take j cs) w = (None, u) \<and> sm_Run L (cs ! j) u = (None, u'))"
proof -
  let ?to = "snd (createEmailMsg e md)" and ?msg = "fst (createEmailMsg e md)"
  let ?cs = "mail_commands addr (em_From e) ?to ?msg"
  have s: "smtp_session L ?cs w = (None, w')" using assms(1) by (simp add: SendEmailWithTls_def split: prod.splits)
  have "r \<in> set ?to" using r assms(2,3) by (simp add: createEmailMsg_def Let_def)
  then obtain k where k: "k < length ?to" "?to ! k = r" by (auto simp: in_set_conv_nth)
  let ?i = "4 + k" and ?j = "5 + length ?to"
  have i: "?i < length ?cs" "?cs ! ?i = Rcpt r" using k by (simp_all add: mail_commands_def nth_append)
  have j: "?j < length ?cs" "?cs ! ?j = DataWrite ?msg" by (simp_all add: mail_commands_def nth_append)
  obtain pre suf where m: "?msg = pre @ ''Bcc: '' @ em_Bcc e @ suf"
    by (rule that [of "''To: '' @ em_To e @ crlf @ ''From: '' @ em_From e @ crlf @ ''Subject: '' @ SprintfDict (em_Subject e) md @ crlf @ ''Cc: '' @ em_Cc e @ crlf"
        "crlf @ ''Content-Type: text/html; charset=UTF-8'' @ crlf @ crlf @ SprintfDict (em_Body e) md"]) (simp add: createEmailMsg_def Let_def)
  from smtp_session_ok [OF s i(1)] i(2) obtain v v' where v: "smtp_session L (take ?i ?cs) w = (None, v)" "sm_Run L (Rcpt r) v = (None, v')"
    by (metis prod.collapse)
  from smtp_session_ok [OF s j(1)] obtain u u' where u: "smtp_session L (take ?j ?cs) w = (None, u)" "sm_Run L (?cs ! ?j) u = (None, u')"
    by (metis prod.collapse)
  have "?i < ?j" using k(1) by simp
  with i v j u m show ?thesis unfolding Let_def by metis
qed


definition log_smtp :: "smtp_command list smtp_lib" where
  "log_smtp = \<lparr>sm_SendMail = (\<lambda>addr sender to msg w. (None, w)), sm_Run = (\<lambda>c w. (None, w @ [c]))\<rparr>"

definition demo_email :: Email where
  "demo_email = \<lparr>em_From = ''f'', em_To = ''a,b'', em_Cc = ''c'', em_Bcc = ''d,e'', em_Subject = ''s'', em_Body = ''t''\<rparr>"

lemma log_smtp_session: "smtp_session log_smtp cs w = (None, w @ cs)"
  by (induction cs arbitrary: w) (auto simp: log_smtp_def)

theorem email_recipients_witness:
  "\<exists>i j v v' u u' pre suf. i < j \<and>
    (let cs = mail_commands ''h:25'' ''f'' (snd (createEmailMsg demo_email [])) (fst (createEmailMsg demo_email [])) in
       cs ! i = Rcpt ''e'' \<and> smtp_session log_smtp (take i cs) [] = (None, v) \<and> sm_Run log_smtp (Rcpt ''e'') v = (None, v') \<and>
       cs ! j = DataWrite (pre @ ''Bcc: '' @ ''d,e'' @ suf) \<and> smtp_session log_smtp (take j cs) [] = (None, u) \<and>
       sm_Run log_smtp (cs ! j) u = (None, u'))"
proof -
  have s: "SendEmailWithTls log_smtp ''h:25'' demo_email [] [] =
      (None, mail_commands ''h:25'' (em_From demo_email) (snd (createEmailMsg demo_email [])) (fst (createEmailMsg demo_email [])))"
    by (simp add: SendEmailWithTls_def log_smtp_session split: prod.splits)
  have e: "em_Cc demo_email \<noteq> []" "em_Bcc demo_email \<noteq> []" "em_From demo_email = ''f''" "em_Bcc demo_email = ''d,e''"
    "''e'' \<in> set (Split (em_To demo_email) CHR '','') \<union> set (Split (em_Cc demo_email) CHR '','') \<union> set (Split (em_Bcc demo_email) CHR '','')"
    by (simp_all add: demo_email_def)
  show ?thesis using email_recipients [OF s e(1,2,5)] unfolding e(3,4) .
qed

end
