(* ===== verification/GoSort.thy ===== *)
theory GoSort
  imports Prelude
begin

text \<open>
  What the code uses of \<open>sort.Slice\<close> and of the order of Go strings. The sort is not stable and its
  result on entries with equal keys is not documented, so a function that sorts takes the sort as an
  argument, with the documented contract below.
\<close>

section \<open>The contract of \<open>sort.Slice\<close>\<close>

text \<open>The result is a rearrangement in which no entry is less than one before it.\<close>

definition sorts_by :: "('a \<Rightarrow> 'a \<Rightarrow> bool) \<Rightarrow> ('a list \<Rightarrow> 'a list) \<Rightarrow> bool" where
  "sorts_by lt srt \<longleftrightarrow> (\<forall>xs. mset (srt xs) = mset xs \<and> sorted_wrt (\<lambda>x y. \<not> lt y x) (srt xs))"

lemma sorts_byD:
  assumes "sorts_by lt srt"
  shows "mset (srt xs) = mset xs" "sorted_wrt (\<lambda>x y. \<not> lt y x) (srt xs)"
    "set (srt xs) = set xs" "length (srt xs) = length xs"
proof -
  show m: "mset (srt xs) = mset xs" and "sorted_wrt (\<lambda>x y. \<not> lt y x) (srt xs)"
    using assms by (simp_all add: sorts_by_def)
  from m show "set (srt xs) = set xs" "length (srt xs) = length xs"
    by (metis set_mset_mset) (metis m size_mset)
qed

text \<open>Where the order is total on the keys of the entries, the contract determines the result.\<close>

lemma sorted_wrt_unique:
  assumes "mset zs = mset ys" "sorted_wrt (\<lambda>x y. \<not> lt y x) zs" "sorted_wrt lt ys"
  shows "zs = ys"
  using assms
proof (induction ys arbitrary: zs)
  case Nil
  then show ?case by simp
next
  case (Cons y ys)
  from Cons.prems(1) obtain z zs' where zs: "zs = z # zs'" by (cases zs) auto
  have "z = y"
  proof (rule ccontr)
    assume n: "z \<noteq> y"
    from Cons.prems(1) have "set (z # zs') = set (y # ys)" unfolding zs by (rule mset_eq_setD)
    with n have "z \<in> set ys" "y \<in> set zs'" by auto
    with Cons.prems(2,3) show False by (auto simp: zs)
  qed
  with Cons zs show ?case by simp
qed

lemma sorts_by_unique:
  "sorts_by lt srt \<Longrightarrow> mset ys = mset xs \<Longrightarrow> sorted_wrt lt ys \<Longrightarrow> srt xs = ys"
  by (rule sorted_wrt_unique [where lt = lt]) (simp_all add: sorts_byD)

text \<open>Insertion sort meets the contract for an order that is asymmetric and whose negation is transitive.\<close>

fun ins_sorted :: "('a \<Rightarrow> 'a \<Rightarrow> bool) \<Rightarrow> 'a \<Rightarrow> 'a list \<Rightarrow> 'a list" where
  "ins_sorted lt x [] = [x]"
| "ins_sorted lt x (y # ys) = (if lt y x then y # ins_sorted lt x ys else x # y # ys)"

definition insertion_sort :: "('a \<Rightarrow> 'a \<Rightarrow> bool) \<Rightarrow> 'a list \<Rightarrow> 'a list" where
  "insertion_sort lt xs = foldr (ins_sorted lt) xs []"

lemma mset_ins_sorted [simp]: "mset (ins_sorted lt x xs) = add_mset x (mset xs)"
  by (induction xs) auto

lemma set_ins_sorted [simp]: "set (ins_sorted lt x xs) = insert x (set xs)"
  by (induction xs) auto

lemma insertion_sort_sorts:
  assumes "\<And>x y. lt x y \<Longrightarrow> \<not> lt y x" "\<And>x y z. \<not> lt y x \<Longrightarrow> \<not> lt z y \<Longrightarrow> \<not> lt z x"
  shows "sorts_by lt (insertion_sort lt)"
proof -
  have ins_sorted: "sorted_wrt (\<lambda>x y. \<not> lt y x) (ins_sorted lt x ys)" if "sorted_wrt (\<lambda>x y. \<not> lt y x) ys" for x ys
    using that by (induction ys) (auto dest: assms(1) assms(2))
  have "sorted_wrt (\<lambda>x y. \<not> lt y x) (insertion_sort lt xs)" for xs
    by (induction xs) (simp_all add: insertion_sort_def ins_sorted)
  moreover have "mset (insertion_sort lt xs) = mset xs" for xs
    by (induction xs) (simp_all add: insertion_sort_def)
  ultimately show ?thesis by (simp add: sorts_by_def)
qed

section \<open>The order of strings\<close>

fun str_less :: "string \<Rightarrow> string \<Rightarrow> bool" where
  "str_less s [] = False"
| "str_less [] (d # ds) = True"
| "str_less (c # cs) (d # ds) = ((of_char c :: nat) < of_char d \<or> c = d \<and> str_less cs ds)"

lemma str_less_irrefl [simp]: "\<not> str_less s s"
  by (induction s) auto

lemma str_less_trans: "str_less s t \<Longrightarrow> str_less t u \<Longrightarrow> str_less s u"
proof (induction s t arbitrary: u rule: str_less.induct)
  case (3 c cs d ds)
  then show ?case by (cases u) auto
qed (auto elim: str_less.elims)

lemma str_less_linear: "str_less s t \<or> s = t \<or> str_less t s"
proof (induction s t rule: str_less.induct)
  case (3 c cs d ds)
  have "of_char c = (of_char d :: nat) \<Longrightarrow> c = d" by simp
  with 3 show ?case by force
next
  case (1 s)
  then show ?case by (cases s) auto
qed auto

lemma str_less_asym: "str_less s t \<Longrightarrow> \<not> str_less t s"
  using str_less_trans str_less_irrefl by blast

lemma not_str_less: "\<not> str_less s t \<longleftrightarrow> s = t \<or> str_less t s"
  using str_less_linear str_less_asym by auto

end
