(* ===== verification/DebugData.thy ===== *)
theory DebugData
  imports Msg GoSort
begin

text \<open>
  The memory of the server application for debug data (\<open>examples/server/event/node_debug_data.go\<close>):
  for every node of every chain a queue of bounded length. The queues are reached through pointers
  that no operation replaces, so the store is a value here, and an operation that changes a queue in
  place returns the store with it. Every operation runs under the lock of the value it changes, but
  for the sorting in \<open>GetToPage\<close>, which holds none. \<open>sort.Slice\<close> is an argument, as it does not
  determine the order of entries with equal keys.
\<close>

section \<open>Queues of bounded length\<close>

record DebugData =
  dd_Ts :: int
  dd_NodeId :: string
  dd_FlowType :: string
  dd_Msg :: RuleMsg
  dd_RelationType :: string
  dd_Err :: string

record DebugDataPage =
  pg_Size :: int
  pg_Current :: int
  pg_Total :: int
  pg_Items :: "DebugData list option"

record FixedQueue =
  fq_Items :: "DebugData list"
  fq_MaxSize :: int

text \<open>\<open>make\<close> panics at a negative capacity, and \<open>Items[1:]\<close> on an empty slice. Sizes are those that fit into memory: a
  capacity beyond that, at which \<open>make\<close> panics too, is not considered.\<close>

definition NewFixedQueue :: "int \<Rightarrow> error + FixedQueue" where
  "NewFixedQueue maxSize =
     (if maxSize < 0 then Inl ''makeslice: cap out of range''
      else Inr \<lparr>fq_Items = [], fq_MaxSize = maxSize\<rparr>)"

definition slice_from_1 :: "'a list \<Rightarrow> error + 'a list" where
  "slice_from_1 xs = (case xs of [] \<Rightarrow> Inl ''slice bounds out of range'' | x # rest \<Rightarrow> Inr rest)"

definition Push :: "DebugData \<Rightarrow> FixedQueue \<Rightarrow> error + FixedQueue" where
  "Push item q =
     (case (if int (length (fq_Items q)) = fq_MaxSize q then slice_from_1 (fq_Items q) else Inr (fq_Items q)) of
        Inl e \<Rightarrow> Inl e
      | Inr items \<Rightarrow> Inr (q\<lparr>fq_Items := items @ [item]\<rparr>))"

text \<open>\<open>Pop\<close> and \<open>Peek\<close> answer with the zero value and false on an empty queue, here \<open>None\<close>.\<close>

definition Pop :: "FixedQueue \<Rightarrow> DebugData option \<times> FixedQueue" where
  "Pop q = (case fq_Items q of [] \<Rightarrow> (None, q) | item # rest \<Rightarrow> (Some item, q\<lparr>fq_Items := rest\<rparr>))"

definition Len :: "FixedQueue \<Rightarrow> int" where
  "Len q = int (length (fq_Items q))"

definition Peek :: "FixedQueue \<Rightarrow> DebugData option" where
  "Peek q = (case fq_Items q of [] \<Rightarrow> None | item # rest \<Rightarrow> Some item)"

definition FixedQueue_Clear :: "FixedQueue \<Rightarrow> error + FixedQueue" where
  "FixedQueue_Clear q =
     (if fq_MaxSize q < 0 then Inl ''makeslice: cap out of range'' else Inr (q\<lparr>fq_Items := []\<rparr>))"

section \<open>The queues of the nodes of a chain\<close>

record NodeDebugData =
  nd_Data :: "(string, FixedQueue) gomap"
  nd_MaxSize :: int

definition NewNodeDebugData :: "int \<Rightarrow> NodeDebugData" where
  "NewNodeDebugData maxSize =
     (let maxSize = (if maxSize \<le> 0 then 60 else maxSize) in \<lparr>nd_Data = [], nd_MaxSize = maxSize\<rparr>)"

definition NodeDebugData_Add :: "string \<Rightarrow> DebugData \<Rightarrow> NodeDebugData \<Rightarrow> error + NodeDebugData" where
  "NodeDebugData_Add nodeId data d =
     (case (case map_of (nd_Data d) nodeId of Some list \<Rightarrow> Inr list | None \<Rightarrow> NewFixedQueue (nd_MaxSize d)) of
        Inl e \<Rightarrow> Inl e
      | Inr list \<Rightarrow>
          (case Push data list of
             Inl e \<Rightarrow> Inl e
           | Inr list \<Rightarrow> Inr (d\<lparr>nd_Data := gm_put nodeId list (nd_Data d)\<rparr>)))"

definition NodeDebugData_Get :: "NodeDebugData \<Rightarrow> string \<Rightarrow> FixedQueue option" where
  "NodeDebugData_Get d nodeId = map_of (nd_Data d) nodeId"

definition NodeDebugData_Clear :: "string \<Rightarrow> NodeDebugData \<Rightarrow> NodeDebugData" where
  "NodeDebugData_Clear nodeId d = d\<lparr>nd_Data := gm_del nodeId (nd_Data d)\<rparr>"

section \<open>The store of the server\<close>

record RuleChainDebugData =
  cd_Data :: "(string, NodeDebugData) gomap"
  cd_MaxSize :: int

definition NewRuleChainDebugData :: "int \<Rightarrow> RuleChainDebugData" where
  "NewRuleChainDebugData maxSize =
     (let maxSize = (if maxSize \<le> 0 then 60 else maxSize) in \<lparr>cd_Data = [], cd_MaxSize = maxSize\<rparr>)"

definition RuleChainDebugData_Add ::
  "string \<Rightarrow> string \<Rightarrow> DebugData \<Rightarrow> RuleChainDebugData \<Rightarrow> error + RuleChainDebugData" where
  "RuleChainDebugData_Add chainId nodeId data d =
     (let ruleChainData =
            (case map_of (cd_Data d) chainId of Some r \<Rightarrow> r | None \<Rightarrow> NewNodeDebugData (cd_MaxSize d))
      in case NodeDebugData_Add nodeId data ruleChainData of
           Inl e \<Rightarrow> Inl e
         | Inr r \<Rightarrow> Inr (d\<lparr>cd_Data := gm_put chainId r (cd_Data d)\<rparr>))"

definition RuleChainDebugData_Get :: "RuleChainDebugData \<Rightarrow> string \<Rightarrow> string \<Rightarrow> FixedQueue option" where
  "RuleChainDebugData_Get d chainId nodeId =
     (case map_of (cd_Data d) chainId of
        Some ruleChainData \<Rightarrow> NodeDebugData_Get ruleChainData nodeId
      | None \<Rightarrow> None)"

text \<open>Writing through the pointer that \<open>Get\<close> returned.\<close>

definition set_queue :: "string \<Rightarrow> string \<Rightarrow> FixedQueue \<Rightarrow> RuleChainDebugData \<Rightarrow> RuleChainDebugData" where
  "set_queue chainId nodeId q d =
     (case map_of (cd_Data d) chainId of
        None \<Rightarrow> d
      | Some r \<Rightarrow> d\<lparr>cd_Data := gm_put chainId (r\<lparr>nd_Data := gm_put nodeId q (nd_Data r)\<rparr>) (cd_Data d)\<rparr>)"

definition newer :: "DebugData \<Rightarrow> DebugData \<Rightarrow> bool" where
  "newer x y = (dd_Ts x > dd_Ts y)"

definition GetToPage ::
  "(DebugData list \<Rightarrow> DebugData list) \<Rightarrow> string \<Rightarrow> string \<Rightarrow> RuleChainDebugData \<Rightarrow> DebugDataPage \<times> RuleChainDebugData" where
  "GetToPage srt chainId nodeId d =
     (let page = \<lparr>pg_Size = 0, pg_Current = 0, pg_Total = 0, pg_Items = None\<rparr>
      in case RuleChainDebugData_Get d chainId nodeId of
           None \<Rightarrow> (page, d)
         | Some list \<Rightarrow>
             (let page = page\<lparr>pg_Total := Len list\<rparr>;
                  list = list\<lparr>fq_Items := srt (fq_Items list)\<rparr>
              in (page\<lparr>pg_Items := Some (fq_Items list)\<rparr>, set_queue chainId nodeId list d)))"

definition RuleChainDebugData_Clear :: "string \<Rightarrow> RuleChainDebugData \<Rightarrow> RuleChainDebugData" where
  "RuleChainDebugData_Clear chainId d = d\<lparr>cd_Data := gm_del chainId (cd_Data d)\<rparr>"

section \<open>A log of the latest entries\<close>

definition keep_last :: "nat \<Rightarrow> 'a list \<Rightarrow> 'a list" where
  "keep_last m xs = drop (length xs - m) xs"

lemma keep_last_snoc: "0 < m \<Longrightarrow> keep_last m (keep_last m xs @ [x]) = keep_last m (xs @ [x])"
  by (cases "length xs \<le> m") (auto simp: keep_last_def drop_append Suc_diff_le)

lemma keep_last_short: "length xs \<le> m \<Longrightarrow> keep_last m xs = xs"
  by (simp add: keep_last_def)

lemma keep_last_full: "length xs = m \<Longrightarrow> 0 < m \<Longrightarrow> keep_last m (xs @ [x]) = tl xs @ [x]"
  by (cases xs) (auto simp: keep_last_def)

lemma keep_last_length: "length (keep_last m xs) = min m (length xs)"
  by (simp add: keep_last_def)

lemma keep_last_nonempty: "0 < m \<Longrightarrow> keep_last m xs = [] \<longleftrightarrow> xs = []"
  using keep_last_length [of m xs] by (cases xs) (auto simp: min_def split: if_splits)

text \<open>Its operations, and what has been recorded under a key since its group was last cleared.\<close>

datatype ('k, 'v, 'g) log_op = LogAdd 'k 'v | LogClear 'g

fun recorded :: "('k \<Rightarrow> 'g) \<Rightarrow> 'k \<Rightarrow> ('k, 'v, 'g) log_op list \<Rightarrow> 'v list \<Rightarrow> 'v list" where
  "recorded grp k [] acc = acc"
| "recorded grp k (LogAdd k' v # ops) acc = recorded grp k ops (if k' = k then acc @ [v] else acc)"
| "recorded grp k (LogClear g # ops) acc = recorded grp k ops (if grp k = g then [] else acc)"

locale recent_log =
  fixes add :: "'k \<Rightarrow> 'v \<Rightarrow> 's \<Rightarrow> error + 's"
    and clear :: "'g \<Rightarrow> 's \<Rightarrow> 's"
    and grp :: "'k \<Rightarrow> 'g"
    and entries :: "'s \<Rightarrow> 'k \<Rightarrow> 'v list"
    and ok :: "nat \<Rightarrow> 's \<Rightarrow> bool"
  assumes ok_pos: "ok m s \<Longrightarrow> 0 < m"
    and add_ok: "ok m s \<Longrightarrow> \<exists>s'. add k v s = Inr s' \<and> ok m s' \<and>
           (\<forall>k'. entries s' k' = (if k' = k then keep_last m (entries s k @ [v]) else entries s k'))"
    and clear_ok: "ok m s \<Longrightarrow> ok m (clear g s)"
    and entries_clear: "entries (clear g s) k = (if grp k = g then [] else entries s k)"
begin

fun run_log :: "('k, 'v, 'g) log_op list \<Rightarrow> 's \<Rightarrow> error + 's" where
  "run_log [] s = Inr s"
| "run_log (LogAdd k v # ops) s = (case add k v s of Inl e \<Rightarrow> Inl e | Inr s \<Rightarrow> run_log ops s)"
| "run_log (LogClear g # ops) s = run_log ops (clear g s)"

lemma run_log_keeps:
  assumes "ok m s" "\<forall>k. entries s k = keep_last m (h k)"
  shows "\<exists>s'. run_log ops s = Inr s' \<and> ok m s' \<and> (\<forall>k. entries s' k = keep_last m (recorded grp k ops (h k)))"
  using assms
proof (induction ops arbitrary: s h)
  case Nil
  then show ?case by simp
next
  case (Cons p ops)
  show ?case
  proof (cases p)
    case (LogAdd k v)
    from add_ok [OF Cons.prems(1), of k v] obtain s1 where s1: "add k v s = Inr s1" "ok m s1"
      "\<forall>k'. entries s1 k' = (if k' = k then keep_last m (entries s k @ [v]) else entries s k')" by blast
    then have "\<forall>k'. entries s1 k' = keep_last m (if k = k' then h k' @ [v] else h k')"
      using Cons.prems(2) keep_last_snoc [OF ok_pos [OF Cons.prems(1)]] by auto
    from Cons.IH [OF s1(2) this] show ?thesis by (simp add: LogAdd s1(1))
  next
    case (LogClear g)
    have "\<forall>k. entries (clear g s) k = keep_last m (if grp k = g then [] else h k)"
      using Cons.prems(2) by (simp add: entries_clear keep_last_def)
    from Cons.IH [OF clear_ok [OF Cons.prems(1)] this] show ?thesis by (simp add: LogClear)
  qed
qed

end

section \<open>The store is such a log\<close>

definition queue_ok :: "nat \<Rightarrow> FixedQueue \<Rightarrow> bool" where
  "queue_ok m q \<longleftrightarrow> fq_MaxSize q = int m \<and> fq_Items q \<noteq> [] \<and> length (fq_Items q) \<le> m"

definition node_ok :: "nat \<Rightarrow> NodeDebugData \<Rightarrow> bool" where
  "node_ok m r \<longleftrightarrow> nd_MaxSize r = int m \<and> (\<forall>n q. map_of (nd_Data r) n = Some q \<longrightarrow> queue_ok m q)"

definition store_ok :: "nat \<Rightarrow> RuleChainDebugData \<Rightarrow> bool" where
  "store_ok m d \<longleftrightarrow> 0 < m \<and> cd_MaxSize d = int m \<and> (\<forall>c r. map_of (cd_Data d) c = Some r \<longrightarrow> node_ok m r)"

definition queue_items :: "FixedQueue option \<Rightarrow> DebugData list" where
  "queue_items q = (case q of None \<Rightarrow> [] | Some q \<Rightarrow> fq_Items q)"

definition store_entries :: "RuleChainDebugData \<Rightarrow> string \<times> string \<Rightarrow> DebugData list" where
  "store_entries d k = queue_items (RuleChainDebugData_Get d (fst k) (snd k))"

lemma Push_ok:
  assumes "0 < m" "fq_MaxSize q = int m" "length (fq_Items q) \<le> m"
  shows "Push x q = Inr (q\<lparr>fq_Items := keep_last m (fq_Items q @ [x])\<rparr>)"
proof (cases "length (fq_Items q) = m")
  case True
  then have "slice_from_1 (fq_Items q) = Inr (tl (fq_Items q))" using assms(1)
    by (cases "fq_Items q") (simp_all add: slice_from_1_def)
  with True assms show ?thesis by (simp add: Push_def keep_last_full)
next
  case False
  with assms show ?thesis by (simp add: Push_def keep_last_short)
qed

lemma NodeDebugData_Add_ok:
  assumes "node_ok m r" "0 < m"
  shows "\<exists>q. NodeDebugData_Add n x r = Inr (r\<lparr>nd_Data := gm_put n q (nd_Data r)\<rparr>) \<and> queue_ok m q \<and>
    fq_Items q = keep_last m (queue_items (map_of (nd_Data r) n) @ [x])"
proof -
  define q where "q = (case map_of (nd_Data r) n of Some q \<Rightarrow> q | None \<Rightarrow> \<lparr>fq_Items = [], fq_MaxSize = nd_MaxSize r\<rparr>)"
  have q: "fq_MaxSize q = int m" "length (fq_Items q) \<le> m" "fq_Items q = queue_items (map_of (nd_Data r) n)"
    using assms by (auto simp: q_def node_ok_def queue_ok_def queue_items_def split: option.splits)
  have "NodeDebugData_Add n x r = (case Push x q of Inl e \<Rightarrow> Inl e | Inr q \<Rightarrow> Inr (r\<lparr>nd_Data := gm_put n q (nd_Data r)\<rparr>))"
    using assms by (simp add: NodeDebugData_Add_def NewFixedQueue_def q_def node_ok_def split: option.splits)
  then show ?thesis using Push_ok [OF assms(2) q(1,2), of x] q assms(2)
    by (auto simp: queue_ok_def keep_last_length keep_last_nonempty)
qed

lemma node_ok_put: "node_ok m r \<Longrightarrow> queue_ok m q \<Longrightarrow> node_ok m (r\<lparr>nd_Data := gm_put n q (nd_Data r)\<rparr>)"
  by (simp add: node_ok_def)

lemma store_ok_put: "store_ok m d \<Longrightarrow> node_ok m r \<Longrightarrow> store_ok m (d\<lparr>cd_Data := gm_put c r (cd_Data d)\<rparr>)"
  by (simp add: store_ok_def)

lemma store_entries_put:
  "store_entries (d\<lparr>cd_Data := gm_put c r (cd_Data d)\<rparr>) k =
     (if fst k = c then queue_items (map_of (nd_Data r) (snd k)) else store_entries d k)"
  by (simp add: store_entries_def RuleChainDebugData_Get_def NodeDebugData_Get_def)

lemma RuleChainDebugData_Add_ok:
  assumes "store_ok m d"
  shows "\<exists>d'. RuleChainDebugData_Add c n x d = Inr d' \<and> store_ok m d' \<and>
    (\<forall>k. store_entries d' k = (if k = (c, n) then keep_last m (store_entries d (c, n) @ [x]) else store_entries d k))"
proof -
  define r where "r = (case map_of (cd_Data d) c of Some r \<Rightarrow> r | None \<Rightarrow> NewNodeDebugData (cd_MaxSize d))"
  have m: "0 < m" and r: "node_ok m r"
    using assms by (auto simp: r_def store_ok_def NewNodeDebugData_def node_ok_def split: option.splits)
  have e: "queue_items (map_of (nd_Data r) k) = store_entries d (c, k)" for k
    by (simp add: r_def store_entries_def RuleChainDebugData_Get_def NodeDebugData_Get_def NewNodeDebugData_def queue_items_def
        split: option.splits)
  from NodeDebugData_Add_ok [OF r m, of n x] obtain q where
    q: "NodeDebugData_Add n x r = Inr (r\<lparr>nd_Data := gm_put n q (nd_Data r)\<rparr>)" "queue_ok m q"
      "fq_Items q = keep_last m (store_entries d (c, n) @ [x])" unfolding e by blast
  let ?r = "r\<lparr>nd_Data := gm_put n q (nd_Data r)\<rparr>"
  have "RuleChainDebugData_Add c n x d = Inr (d\<lparr>cd_Data := gm_put c ?r (cd_Data d)\<rparr>)"
    using q(1) by (simp add: RuleChainDebugData_Add_def r_def [symmetric] Let_def)
  moreover have "store_ok m (d\<lparr>cd_Data := gm_put c ?r (cd_Data d)\<rparr>)"
    by (rule store_ok_put [OF assms node_ok_put [OF r q(2)]])
  moreover have "store_entries (d\<lparr>cd_Data := gm_put c ?r (cd_Data d)\<rparr>) k =
      (if k = (c, n) then keep_last m (store_entries d (c, n) @ [x]) else store_entries d k)" for k
    using q(3) e by (cases k) (auto simp: store_entries_put queue_items_def)
  ultimately show ?thesis by blast
qed

definition store_add :: "string \<times> string \<Rightarrow> DebugData \<Rightarrow> RuleChainDebugData \<Rightarrow> error + RuleChainDebugData" where
  "store_add k = RuleChainDebugData_Add (fst k) (snd k)"

lemma store_add_pair: "store_add (chainId, nodeId) = RuleChainDebugData_Add chainId nodeId"
  by (simp add: store_add_def)

interpretation debug_log: recent_log store_add RuleChainDebugData_Clear fst store_entries store_ok
proof unfold_locales
  fix m d k x
  show "store_ok m d \<Longrightarrow> 0 < m" by (simp add: store_ok_def)
  show "\<exists>s'. store_add k x d = Inr s' \<and> store_ok m s' \<and>
      (\<forall>k'. store_entries s' k' = (if k' = k then keep_last m (store_entries d k @ [x]) else store_entries d k'))"
    if "store_ok m d" for m d k x
    using RuleChainDebugData_Add_ok [OF that, of "fst k" "snd k" x] by (cases k) (auto simp: store_add_def)
  show "store_ok m (RuleChainDebugData_Clear g d)" if "store_ok m d" for m d g
    using that by (simp add: store_ok_def RuleChainDebugData_Clear_def)
  show "store_entries (RuleChainDebugData_Clear g d) k = (if fst k = g then [] else store_entries d k)" for g d k
    by (simp add: store_entries_def RuleChainDebugData_Clear_def RuleChainDebugData_Get_def queue_items_def)
qed

text \<open>A sequence of \<open>Add\<close> and \<open>Clear\<close> on the store, up to the first panic.\<close>

fun debug_run ::
  "(string \<times> string, DebugData, string) log_op list \<Rightarrow> RuleChainDebugData \<Rightarrow> error + RuleChainDebugData" where
  "debug_run [] d = Inr d"
| "debug_run (LogAdd (chainId, nodeId) x # ops) d =
     (case RuleChainDebugData_Add chainId nodeId x d of Inl e \<Rightarrow> Inl e | Inr d \<Rightarrow> debug_run ops d)"
| "debug_run (LogClear chainId # ops) d = debug_run ops (RuleChainDebugData_Clear chainId d)"

lemma debug_run_log: "debug_run ops d = debug_log.run_log ops d"
  by (induction ops d rule: debug_run.induct) (auto simp: store_add_pair split: sum.splits)

text \<open>The size that a store uses.\<close>

definition debug_size :: "int \<Rightarrow> nat" where
  "debug_size maxSize = (if maxSize \<le> 0 then 60 else nat maxSize)"

lemma NewRuleChainDebugData_ok:
  "store_ok (debug_size maxSize) (NewRuleChainDebugData maxSize)" "store_entries (NewRuleChainDebugData maxSize) k = []"
  by (simp_all add: store_ok_def NewRuleChainDebugData_def debug_size_def store_entries_def RuleChainDebugData_Get_def queue_items_def)

lemma debug_store_latest:
  "\<exists>d. debug_run ops (NewRuleChainDebugData maxSize) = Inr d \<and>
     (\<forall>chainId nodeId. queue_items (RuleChainDebugData_Get d chainId nodeId) =
        keep_last (debug_size maxSize) (recorded fst (chainId, nodeId) ops []))"
proof -
  have "\<forall>k. store_entries (NewRuleChainDebugData maxSize) k = keep_last (debug_size maxSize) []"
    by (simp add: NewRuleChainDebugData_ok keep_last_def)
  from debug_log.run_log_keeps [OF NewRuleChainDebugData_ok(1) this, of ops]
  show ?thesis unfolding store_entries_def debug_run_log by (metis fst_conv snd_conv)
qed

text \<open>C12: however debug data is added and chains are cleared, no operation panics, and the store holds
  for every node of every chain exactly the latest entries recorded for it since the chain was cleared,
  oldest first: as many as the size given to \<open>NewRuleChainDebugData\<close> (60 if that is not positive), never
  more.\<close>

theorem debug_store_keeps_latest:
  "\<exists>d. debug_run ops (NewRuleChainDebugData maxSize) = Inr d \<and>
     (\<forall>chainId nodeId. queue_items (RuleChainDebugData_Get d chainId nodeId) =
        keep_last (debug_size maxSize) (recorded fst (chainId, nodeId) ops []) \<and>
        length (queue_items (RuleChainDebugData_Get d chainId nodeId)) \<le> debug_size maxSize)"
  using debug_store_latest [of ops maxSize] by (auto simp: keep_last_length)

section \<open>Pages\<close>

lemma GetToPage_ok:
  assumes "sorts_by newer srt" "store_ok m d" "GetToPage srt c n d = (page, d')"
  shows "store_ok m d' \<and> (\<forall>k. store_entries d' k = (if k = (c, n) then srt (store_entries d k) else store_entries d k)) \<and>
    pg_Total page = int (length (store_entries d (c, n))) \<and>
    (case pg_Items page of None \<Rightarrow> [] | Some items \<Rightarrow> items) = srt (store_entries d (c, n))"
proof (cases "RuleChainDebugData_Get d c n")
  case None
  moreover have "srt [] = []" using sorts_byD(4) [OF assms(1), of "[]"] by simp
  ultimately show ?thesis using assms(2,3) by (auto simp: GetToPage_def store_entries_def queue_items_def)
next
  case (Some q)
  then obtain r where r: "map_of (cd_Data d) c = Some r" "map_of (nd_Data r) n = Some q"
    by (auto simp: RuleChainDebugData_Get_def NodeDebugData_Get_def split: option.splits)
  let ?q = "q\<lparr>fq_Items := srt (fq_Items q)\<rparr>"
  let ?r = "r\<lparr>nd_Data := gm_put n ?q (nd_Data r)\<rparr>"
  have d': "d' = d\<lparr>cd_Data := gm_put c ?r (cd_Data d)\<rparr>" and p: "pg_Total page = int (length (fq_Items q))"
    "pg_Items page = Some (srt (fq_Items q))"
    using assms(3) Some r(1) by (auto simp: GetToPage_def Let_def set_queue_def Len_def)
  have "node_ok m r" using assms(2) r(1) by (simp add: store_ok_def)
  moreover from this r(2) have "queue_ok m ?q"
    using sorts_byD(4) [OF assms(1), of "fq_Items q"] by (auto simp: node_ok_def queue_ok_def)
  ultimately have "store_ok m d'" unfolding d' by (intro store_ok_put node_ok_put assms(2))
  moreover have "store_entries d' k = (if k = (c, n) then srt (store_entries d k) else store_entries d k)" for k
  proof (cases k)
    case (Pair a b)
    then show ?thesis using r
      by (auto simp: d' store_entries_put) (auto simp: store_entries_def RuleChainDebugData_Get_def NodeDebugData_Get_def queue_items_def)
  qed
  moreover have "store_entries d (c, n) = fq_Items q" by (simp add: store_entries_def Some queue_items_def)
  ultimately show ?thesis using p by simp
qed

text \<open>a page holds all the entries of its node and no other, the latest first, with their number as
  the total, and leaves what other nodes have recorded as it is.\<close>

theorem debug_page_sorted:
  assumes "sorts_by newer srt" "store_ok m d" "GetToPage srt chainId nodeId d = (page, d')"
  defines "items \<equiv> (case pg_Items page of None \<Rightarrow> [] | Some items \<Rightarrow> items)"
  shows "mset items = mset (queue_items (RuleChainDebugData_Get d chainId nodeId)) \<and>
    sorted_wrt (\<lambda>x y. dd_Ts y \<le> dd_Ts x) items \<and> pg_Total page = int (length items) \<and>
    store_ok m d' \<and> (\<forall>k. k \<noteq> (chainId, nodeId) \<longrightarrow> store_entries d' k = store_entries d k)"
proof -
  have e: "queue_items (RuleChainDebugData_Get d chainId nodeId) = store_entries d (chainId, nodeId)"
    by (simp add: store_entries_def)
  have i: "items = srt (store_entries d (chainId, nodeId))"
    using GetToPage_ok [OF assms(1-3)] unfolding items_def by simp
  have "sorted_wrt (\<lambda>x y. dd_Ts y \<le> dd_Ts x) items"
    using sorts_byD(2) [OF assms(1)] unfolding i newer_def not_less by blast
  then show ?thesis
    using GetToPage_ok [OF assms(1-3)] sorts_byD(1,4) [OF assms(1)] unfolding e i by simp
qed

abbreviation demo_sort :: "DebugData list \<Rightarrow> DebugData list" where
  "demo_sort \<equiv> insertion_sort newer"

lemma demo_sort_ok: "sorts_by newer demo_sort"
  by (rule insertion_sort_sorts) (auto simp: newer_def)

definition demo_data :: "int \<Rightarrow> DebugData" where
  "demo_data ts = \<lparr>dd_Ts = ts, dd_NodeId = ''s1'', dd_FlowType = In,
     dd_Msg = \<lparr>Ts = 1, MsgId = ''m'', DataType = JSON, MsgType = ''T'', Data = ''{}'', MsgMetadata = Some []\<rparr>,
     dd_RelationType = [], dd_Err = []\<rparr>"

definition demo_store :: RuleChainDebugData where
  "demo_store = \<lparr>cd_Data = [(''c'', \<lparr>nd_Data = [(''s1'', \<lparr>fq_Items = [demo_data 1, demo_data 2], fq_MaxSize = 2\<rparr>)],
     nd_MaxSize = 2\<rparr>)], cd_MaxSize = 2\<rparr>"

lemma demo_store_ok: "store_ok 2 demo_store" "store_entries demo_store (''c'', ''s1'') = [demo_data 1, demo_data 2]"
  by (simp_all add: store_ok_def demo_store_def node_ok_def queue_ok_def store_entries_def RuleChainDebugData_Get_def
      NodeDebugData_Get_def queue_items_def split: if_splits)

lemma demo_page:
  "GetToPage demo_sort ''c'' ''s1'' demo_store =
     (\<lparr>pg_Size = 0, pg_Current = 0, pg_Total = 2, pg_Items = Some [demo_data 2, demo_data 1]\<rparr>,
      snd (GetToPage demo_sort ''c'' ''s1'' demo_store))"
  by (simp add: GetToPage_def demo_store_def RuleChainDebugData_Get_def NodeDebugData_Get_def Len_def insertion_sort_def
      newer_def demo_data_def Let_def)

theorem debug_page_sorted_witness:
  "mset [demo_data 2, demo_data 1] = mset (queue_items (RuleChainDebugData_Get demo_store ''c'' ''s1''))"
  using debug_page_sorted [OF demo_sort_ok demo_store_ok(1) demo_page] by simp

text \<open>C29: reading a page reorders the queue itself: when the queue is full, the next entry that is
  recorded displaces the latest one instead of the oldest.\<close>

theorem debug_page_evicts_newest:
  assumes "sorts_by newer srt" "store_ok m d" "GetToPage srt chainId nodeId d = (page, d1)"
    and "store_entries d (chainId, nodeId) = xs" "length xs = m"
    and "x \<in> set xs" "\<forall>y \<in> set xs. y \<noteq> x \<longrightarrow> dd_Ts y < dd_Ts x"
  shows "\<exists>d2. RuleChainDebugData_Add chainId nodeId z d1 = Inr d2 \<and>
    mset (store_entries d2 (chainId, nodeId)) = mset xs - {#x#} + {#z#}"
proof -
  let ?k = "(chainId, nodeId)"
  have d1: "store_ok m d1" "store_entries d1 ?k = srt xs" using GetToPage_ok [OF assms(1-3)] assms(4) by simp_all
  have s: "set (srt xs) = set xs" "length (srt xs) = m" "mset (srt xs) = mset xs"
    using sorts_byD [OF assms(1), of xs] assms(5) by simp_all
  have m: "0 < m" using assms(2) by (simp add: store_ok_def)
  with s(2) obtain y ys where y: "srt xs = y # ys" by (cases "srt xs") auto
  have "y = x"
  proof (rule ccontr)
    assume "y \<noteq> x"
    then have "x \<in> set ys" "dd_Ts y < dd_Ts x" using assms(6,7) s(1) y by auto
    moreover have "\<forall>w \<in> set ys. \<not> newer w y" using sorts_byD(2) [OF assms(1), of xs] by (simp add: y)
    ultimately show False by (auto simp: newer_def)
  qed
  moreover from RuleChainDebugData_Add_ok [OF d1(1), of chainId nodeId z] obtain d2 where
    "RuleChainDebugData_Add chainId nodeId z d1 = Inr d2" "store_entries d2 ?k = keep_last m (srt xs @ [z])"
    unfolding d1(2) by auto
  ultimately show ?thesis using s(3) y keep_last_full [OF s(2) m, of z]
    by (intro exI [of _ d2]) (metis add_mset_add_single add_mset_remove_trivial list.sel(3) mset.simps(2) mset_append mset_single_iff_right union_mset_add_mset_right)
qed

theorem debug_page_evicts_newest_witness:
  "\<exists>d2. RuleChainDebugData_Add ''c'' ''s1'' (demo_data 3) (snd (GetToPage demo_sort ''c'' ''s1'' demo_store)) = Inr d2 \<and>
     mset (store_entries d2 (''c'', ''s1'')) = {#demo_data 1, demo_data 3#}"
proof -
  have "\<forall>y \<in> set [demo_data 1, demo_data 2]. y \<noteq> demo_data 2 \<longrightarrow> dd_Ts y < dd_Ts (demo_data 2)"
    by (simp add: demo_data_def)
  from debug_page_evicts_newest [OF demo_sort_ok demo_store_ok(1) demo_page demo_store_ok(2) _ _ this, of "demo_data 3"]
  show ?thesis by (simp add: add_mset_commute)
qed

end
