(* ===== verification/Forms.thy ===== *)
theory Forms
  imports Registry GoSort
begin

text \<open>
  The forms that describe components to an editor (\<open>utils/reflect/reflect.go\<close>,
  \<open>api/types/component.go\<close>), \<open>GetComponentForms\<close> and the plugin loader of \<open>registry.go\<close>, and the
  component lists of the packages under \<open>components/\<close>. What the \<open>reflect\<close> package sees of an
  instance is a value here: the type of every field of the struct with its name, tags and value.
  Names are ASCII, and embedding is by value. A struct whose layout makes \<open>reflect\<close> panic is an
  error. What \<open>plugin.Open\<close> gives is an argument.
\<close>

section \<open>Reflection\<close>

datatype rkind = KMap | KSlice | KArray | KStruct | KPtr | KOther

text \<open>A value with its type: the name of the type (empty for an unnamed one), the kind, what
  \<open>Interface()\<close> returns, and for a struct its fields in order.\<close>

datatype rvalue = RValue (rv_Name: string) (rv_Kind: rkind) (rv_Interface: go_val) (rv_Fields: "rfield list")
  and rfield = RField (rf_Name: string) (rf_Embedded: bool) (rf_Label: string) (rf_Desc: string)
    (rf_Validate: string) (rf_Value: rvalue)

definition is_exported :: "string \<Rightarrow> bool" where
  "is_exported name = (case name of [] \<Rightarrow> False | c # _ \<Rightarrow> 65 \<le> (of_char c :: nat) \<and> (of_char c :: nat) \<le> 90)"

text \<open>How a value was reached: through an unexported field, which makes everything below it
  read-only (\<open>flagStickyRO\<close>), or as an unexported embedded field (\<open>flagEmbedRO\<close>).\<close>

record ro_flags =
  stickyRO :: bool
  embedRO :: bool

definition Value_Field :: "ro_flags \<Rightarrow> rfield \<Rightarrow> ro_flags" where
  "Value_Field fl f =
     \<lparr>stickyRO = (stickyRO fl \<or> \<not> is_exported (rf_Name f) \<and> \<not> rf_Embedded f),
      embedRO = (\<not> is_exported (rf_Name f) \<and> rf_Embedded f)\<rparr>"

definition CanInterface :: "ro_flags \<Rightarrow> bool" where
  "CanInterface fl = (\<not> stickyRO fl \<and> \<not> embedRO fl)"

text \<open>\<open>FieldByName\<close>: the field of that name at the least depth of embedding, if it is the only one there.\<close>

definition level_hits :: "string \<Rightarrow> (ro_flags \<times> rvalue) list \<Rightarrow> (ro_flags \<times> rfield) list" where
  "level_hits name level =
     concat (map (\<lambda>(fl, v). map (\<lambda>f. (Value_Field fl f, f)) (filter (\<lambda>f. rf_Name f = name) (rv_Fields v))) level)"

definition level_next :: "(ro_flags \<times> rvalue) list \<Rightarrow> (ro_flags \<times> rvalue) list" where
  "level_next level =
     concat (map (\<lambda>(fl, v). map (\<lambda>f. (Value_Field fl f, rf_Value f))
       (filter (\<lambda>f. rf_Embedded f \<and> rv_Kind (rf_Value f) = KStruct) (rv_Fields v))) level)"

lemma embedded_smaller:
  "sum_list (map (\<lambda>f. size (rf_Value f)) (filter P fs)) \<le> size_list size fs"
proof (induction fs)
  case (Cons f fs)
  then show ?case by (cases f) auto
qed simp

lemma level_next_smaller:
  "level \<noteq> [] \<Longrightarrow> sum_list (map (\<lambda>(fl, v). size v) (level_next level)) < sum_list (map (\<lambda>(fl, v). size v) level)"
proof (induction level)
  case (Cons p level)
  obtain fl n k i fs where p: "p = (fl, RValue n k i fs)" by (metis prod.collapse rvalue.exhaust)
  have "sum_list (map (\<lambda>(fl, v). size v) (level_next [p])) < size (RValue n k i fs)"
    using embedded_smaller [of "\<lambda>f. rf_Embedded f \<and> rv_Kind (rf_Value f) = KStruct" fs]
    by (simp add: level_next_def p o_def)
  moreover have "level_next (p # level) = level_next [p] @ level_next level" by (simp add: level_next_def)
  moreover have "sum_list (map (\<lambda>(fl, v). size v) (level_next level)) \<le> sum_list (map (\<lambda>(fl, v). size v) level)"
    using Cons.IH by (cases "level = []") (auto simp: level_next_def)
  ultimately show ?case by (simp add: p)
qed simp

function field_by_name :: "string \<Rightarrow> (ro_flags \<times> rvalue) list \<Rightarrow> (ro_flags \<times> rfield) option" where
  "field_by_name name level =
     (if level = [] then None
      else case level_hits name level of
             [] \<Rightarrow> field_by_name name (level_next level)
           | [h] \<Rightarrow> Some h
           | _ \<Rightarrow> None)"
  by pat_completeness auto
termination
  by (relation "measure (\<lambda>(name, level). sum_list (map (\<lambda>(fl, v). size v) level))") (simp_all add: level_next_smaller)

declare field_by_name.simps [simp del]

definition FieldByName :: "rvalue \<Rightarrow> string \<Rightarrow> (ro_flags \<times> rfield) option" where
  "FieldByName v name = field_by_name name [(\<lparr>stickyRO = False, embedRO = False\<rparr>, v)]"

lemma FieldByName_direct:
  assumes "filter (\<lambda>f. rf_Name f = name) (rv_Fields v) = [f]"
  shows "FieldByName v name = Some (Value_Field \<lparr>stickyRO = False, embedRO = False\<rparr> f, f)"
  using assms unfolding FieldByName_def by (subst field_by_name.simps) (simp add: level_hits_def)

lemma FieldByName_none:
  assumes "\<forall>f \<in> set (rv_Fields v). rf_Name f \<noteq> name \<and> \<not> rf_Embedded f"
  shows "FieldByName v name = None"
proof -
  have "filter (\<lambda>f. rf_Name f = name) (rv_Fields v) = []"
    "filter (\<lambda>f. rf_Embedded f \<and> rv_Kind (rf_Value f) = KStruct) (rv_Fields v) = []"
    using assms by (auto simp: filter_empty_conv)
  then have "level_hits name [(fl, v)] = []" "level_next [(fl, v)] = []" for fl
    by (simp_all add: level_hits_def level_next_def)
  then show ?thesis unfolding FieldByName_def
    by (subst field_by_name.simps) (simp add: field_by_name.simps [of _ "[]"])
qed

section \<open>Forms\<close>

datatype ComponentFormField = ComponentFormField (cff_Name: string) (cff_Type: string) (cff_DefaultValue: go_val)
  (cff_Label: string) (cff_Desc: string) (cff_Validate: string) (cff_Fields: "ComponentFormField list")

record ComponentForm =
  cf_Type :: string
  cf_Category :: string
  cf_Fields :: "ComponentFormField list"
  cf_Label :: string
  cf_Desc :: string
  cf_Icon :: string
  cf_RelationTypes :: "string list option"

text \<open>What the code asks of an instance: \<open>Type()\<close>, its struct type with the package, and \<open>Def()\<close> if it
  implements \<open>ComponentDefGetter\<close>.\<close>

record node_desc =
  ds_Type :: string
  ds_PkgPath :: string
  ds_struct :: rvalue
  ds_Def :: "ComponentForm option"

definition GetComponentConfig :: "node_desc \<Rightarrow> error + (ro_flags \<times> rfield) option" where
  "GetComponentConfig component =
     (let t = ds_struct component
      in if rv_Kind t \<noteq> KStruct then Inl ''reflect: FieldByName of non-struct type''
         else Inr (case FieldByName t ''config'' of
                     Some c \<Rightarrow> Some c
                   | None \<Rightarrow> FieldByName t ''Config''))"

text \<open>The loop of \<open>GetFields\<close> over the fields of a struct that was reached with the given flags.\<close>

fun form_fields :: "ro_flags \<Rightarrow> rfield list \<Rightarrow> ComponentFormField list"
  and sub_fields :: "ro_flags \<Rightarrow> rvalue \<Rightarrow> ComponentFormField list" where
  "form_fields fl [] = []"
| "form_fields fl (RField name embedded label desc validate v # fs) =
     (let fl' = Value_Field fl (RField name embedded label desc validate v);
          defaultValue = (if CanInterface fl' then rv_Interface v else GNil);
          typeName = (case rv_Kind v of KMap \<Rightarrow> ''map'' | KSlice \<Rightarrow> ''array'' | KArray \<Rightarrow> ''array''
                      | KStruct \<Rightarrow> ''struct'' | _ \<Rightarrow> rv_Name v)
      in ComponentFormField (ToLowerFirst name) typeName defaultValue label desc validate (sub_fields fl' v))
     # form_fields fl fs"
| "sub_fields fl (RValue n k i fs) = (if k = KStruct then form_fields fl fs else [])"

definition GetFields :: "(ro_flags \<times> rfield) option \<Rightarrow> error + ComponentFormField list" where
  "GetFields config =
     (case config of
        None \<Rightarrow> Inr []
      | Some (fl, configField) \<Rightarrow>
          if rv_Kind (rf_Value configField) \<noteq> KStruct then Inl ''reflect: NumField of non-struct type''
          else Inr (form_fields fl (rv_Fields (rf_Value configField))))"

definition coverComponentForm :: "ComponentForm \<Rightarrow> ComponentForm \<Rightarrow> ComponentForm" where
  "coverComponentForm def f =
     (let f = (if cf_Type def \<noteq> [] then f\<lparr>cf_Type := cf_Type def\<rparr> else f);
          f = (if cf_Category def \<noteq> [] then f\<lparr>cf_Category := cf_Category def\<rparr> else f);
          f = (if length (cf_Fields def) \<noteq> 0 then f\<lparr>cf_Fields := cf_Fields def\<rparr> else f);
          f = (if cf_Label def \<noteq> [] then f\<lparr>cf_Label := cf_Label def\<rparr> else f);
          f = (if cf_Desc def \<noteq> [] then f\<lparr>cf_Desc := cf_Desc def\<rparr> else f)
      in if cf_RelationTypes def \<noteq> None then f\<lparr>cf_RelationTypes := cf_RelationTypes def\<rparr> else f)"

text \<open>\<open>strings.ToLower\<close> on ASCII.\<close>

definition str_ToLower :: "string \<Rightarrow> string" where
  "str_ToLower s = map to_lower_char s"

definition form_relations :: "string \<Rightarrow> string \<Rightarrow> string list" where
  "form_relations type label =
     (if type = ''iterator'' then [TrueRel, FalseRel, Success, Failure]
      else if Contains (str_ToLower label) ''filter'' then [TrueRel, FalseRel, Failure]
      else if Contains (str_ToLower label) ''switch'' then []
      else [Success, Failure])"

definition form_category :: "string \<Rightarrow> string" where
  "form_category pkgPath =
     (let category = replace_all ''github.com/rulego/rulego/components/'' [] pkgPath
      in replace_all ''github.com/rulego/rulego-components/'' [] category)"

definition GetComponentForm :: "node_desc \<Rightarrow> error + ComponentForm" where
  "GetComponentForm component =
     (case GetComponentConfig component of
        Inl e \<Rightarrow> Inl e
      | Inr config \<Rightarrow>
          (case GetFields config of
             Inl e \<Rightarrow> Inl e
           | Inr fs \<Rightarrow>
               (let label = rv_Name (ds_struct component);
                    form = \<lparr>cf_Type = ds_Type component, cf_Category = form_category (ds_PkgPath component),
                            cf_Fields = fs, cf_Label = label, cf_Desc = [], cf_Icon = [],
                            cf_RelationTypes = Some (form_relations (ds_Type component) label)\<rparr>
                in Inr (case ds_Def component of
                          Some def \<Rightarrow> coverComponentForm def form
                        | None \<Rightarrow> form))))"

text \<open>The list type of the forms, a map by type, and the list type of the fields.\<close>

type_synonym ComponentFormList = "(string, ComponentForm) gomap"

definition GetComponent :: "ComponentFormList \<Rightarrow> string \<Rightarrow> ComponentForm option" where
  "GetComponent c name = find (\<lambda>item. cf_Type item = name) (map snd c)"

definition form_less :: "ComponentForm \<Rightarrow> ComponentForm \<Rightarrow> bool" where
  "form_less x y =
     (if cf_Category x \<noteq> cf_Category y then str_less (cf_Category x) (cf_Category y)
      else str_less (cf_Type x) (cf_Type y))"

definition form_Values :: "(ComponentForm list \<Rightarrow> ComponentForm list) \<Rightarrow> ComponentFormList \<Rightarrow> ComponentForm list" where
  "form_Values srt c = srt (map snd c)"

definition GetField :: "ComponentFormField list \<Rightarrow> string \<Rightarrow> ComponentFormField option" where
  "GetField c name = find (\<lambda>field. cff_Name field = name) c"

text \<open>\<open>GetComponentForms\<close>: \<open>describe\<close> is what reflection sees of a new instance.\<close>

fun forms_of :: "('n \<Rightarrow> node_desc) \<Rightarrow> 'n component list \<Rightarrow> ComponentFormList \<Rightarrow> error + ComponentFormList" where
  "forms_of describe [] forms = Inr forms"
| "forms_of describe (component # cs) forms =
     (case GetComponentForm (describe (cmp_New component)) of
        Inl e \<Rightarrow> Inl e
      | Inr form \<Rightarrow> forms_of describe cs (gm_put (cmp_Type component) form forms))"

definition GetComponentForms :: "('n \<Rightarrow> node_desc) \<Rightarrow> 'n RuleComponentRegistry \<Rightarrow> error + ComponentFormList" where
  "GetComponentForms describe r = forms_of describe (map snd (gm_of (reg_components r))) []"

section \<open>Plugins\<close>

definition PluginsSymbol :: string where "PluginsSymbol = ''Plugins''"

text \<open>An exported symbol of a plugin: a \<open>PluginRegistry\<close>, given by its components, or anything else.\<close>

datatype 'n symbol = PluginRegistry "'n component list" | OtherSymbol

type_synonym 'n plugin_open = "string \<Rightarrow> error + (string \<Rightarrow> error + 'n symbol)"

record 'n PluginComponentRegistry =
  pr_name :: string
  pr_file :: string
  pr_registry :: "'n component list option"

definition loadPlugin :: "'n plugin_open \<Rightarrow> string \<Rightarrow> error + 'n component list" where
  "loadPlugin plugin_Open file =
     (case plugin_Open file of
        Inl err \<Rightarrow> Inl err
      | Inr p_Lookup \<Rightarrow>
          (case p_Lookup PluginsSymbol of
             Inl err \<Rightarrow> Inl err
           | Inr (PluginRegistry cs) \<Rightarrow> Inr cs
           | Inr OtherSymbol \<Rightarrow> Inl ''invalid plugin''))"

definition Plugin_Init :: "'n plugin_open \<Rightarrow> 'n PluginComponentRegistry \<Rightarrow> error option \<times> 'n PluginComponentRegistry" where
  "Plugin_Init plugin_Open p =
     (case loadPlugin plugin_Open (pr_file p) of
        Inl err \<Rightarrow> (Some err, p)
      | Inr pluginRegistry \<Rightarrow> (None, p\<lparr>pr_registry := Some pluginRegistry\<rparr>))"

definition Plugin_Components :: "'n PluginComponentRegistry \<Rightarrow> 'n component list" where
  "Plugin_Components p = (case pr_registry p of Some cs \<Rightarrow> cs | None \<Rightarrow> [])"

text \<open>\<open>RegisterPlugin\<close> from the file.\<close>

definition RegisterPluginFile ::
  "'n plugin_open \<Rightarrow> string \<Rightarrow> string \<Rightarrow> 'n RuleComponentRegistry \<Rightarrow> error option \<times> 'n RuleComponentRegistry" where
  "RegisterPluginFile plugin_Open name file r =
     (case Plugin_Init plugin_Open \<lparr>pr_name = name, pr_file = file, pr_registry = None\<rparr> of
        (Some err, builder) \<Rightarrow> RegisterPlugin (Inl err) name r
      | (None, builder) \<Rightarrow> RegisterPlugin (Inr (Plugin_Components builder)) name r)"

section \<open>The component lists\<close>

text \<open>Fields without tags: strings, integers, booleans, nested structs; a field whose value no operation
  reads has nil for it, and so have a nil slice and a nil map.\<close>

definition plain_field :: "string \<Rightarrow> string \<Rightarrow> rkind \<Rightarrow> go_val \<Rightarrow> rfield" where
  "plain_field name t k v = RField name False [] [] [] (RValue t k v [])"

definition str_field :: "string \<Rightarrow> string \<Rightarrow> rfield" where
  "str_field name v = plain_field name ''string'' KOther (GString v)"

definition int_field :: "string \<Rightarrow> int \<Rightarrow> rfield" where
  "int_field name v = plain_field name ''int'' KOther (GInt (word_of_int v))"

definition bool_field :: "string \<Rightarrow> rfield" where
  "bool_field name = plain_field name ''bool'' KOther (GBool False)"

definition slice_field :: "string \<Rightarrow> rfield" where
  "slice_field name = plain_field name [] KSlice GNilSlice"

definition other_field :: "string \<Rightarrow> string \<Rightarrow> rkind \<Rightarrow> rfield" where
  "other_field name t k = plain_field name t k GNil"

definition struct_field :: "string \<Rightarrow> string \<Rightarrow> rfield list \<Rightarrow> rfield" where
  "struct_field name t fs =
     RField name False [] [] [] (RValue t KStruct (GStruct (map (\<lambda>f. (rf_Name f, rv_Interface (rf_Value f))) fs)) fs)"

definition component_of :: "string \<Rightarrow> string \<Rightarrow> string \<Rightarrow> rfield list \<Rightarrow> node_desc component" where
  "component_of pkg name type fs =
     \<lparr>cmp_Type = type,
      cmp_New = \<lparr>ds_Type = type, ds_PkgPath = ''github.com/rulego/rulego/components/'' @ pkg,
                 ds_struct = RValue name KStruct GNil fs, ds_Def = None\<rparr>\<rparr>"

lemmas field_defs = plain_field_def str_field_def int_field_def bool_field_def slice_field_def other_field_def struct_field_def

text \<open>Every component as its \<open>New\<close> makes it.\<close>

definition DelayNode_component :: "node_desc component" where
  "DelayNode_component = component_of ''action'' ''DelayNode'' ''delay''
     [struct_field ''Config'' ''DelayNodeConfiguration''
        [int_field ''PeriodInSeconds'' 60, int_field ''MaxPendingMsgs'' 1000, str_field ''PeriodInSecondsPattern'' [],
         bool_field ''Overwrite''], other_field ''PendingMsgs'' [] KMap, other_field ''LastPendingMsgId'' ''Value'' KStruct,
        other_field ''mu'' ''Mutex'' KStruct]"

definition FunctionsNode_component :: "node_desc component" where
  "FunctionsNode_component = component_of ''action'' ''FunctionsNode'' ''functions''
     [struct_field ''Config'' ''FunctionsNodeConfiguration''
        [str_field ''FunctionName'' ''test''], bool_field ''HasVars'']"

definition GroupActionNode_component :: "node_desc component" where
  "GroupActionNode_component = component_of ''action'' ''GroupActionNode'' ''groupAction''
     [struct_field ''Config'' ''GroupActionNodeConfiguration''
        [str_field ''MatchRelationType'' Success, int_field ''MatchNum'' 0, str_field ''NodeIds'' [], int_field
         ''Timeout'' 0], other_field ''NodeIdList'' [] KSlice, other_field ''Length'' ''int32'' KOther]"

definition IteratorNode_component :: "node_desc component" where
  "IteratorNode_component = component_of ''action'' ''IteratorNode'' ''iterator''
     [struct_field ''Config'' ''IteratorNodeConfiguration''
        [str_field ''FieldName'' [], str_field ''JsScript'' []], other_field ''jsEngine'' ''JsEngine'' KOther]"

definition LogNode_component :: "node_desc component" where
  "LogNode_component = component_of ''action'' ''LogNode'' ''log''
     [struct_field ''Config'' ''LogNodeConfiguration''
        [str_field ''JsScript'' (''return 'Incoming message:'' @ [CHR 0x5C] @ ''n' + JSON.stringify(msg) + '' @ [CHR 0x27,
        CHR 0x5C] @ ''nIncoming metadata:'' @ [CHR 0x5C] @ ''n' + JSON.stringify(metadata);'')],
        other_field ''jsEngine'' ''JsEngine'' KOther, other_field ''logger'' ''Logger'' KOther]"

definition ExprFilterNode_component :: "node_desc component" where
  "ExprFilterNode_component = component_of ''filter'' ''ExprFilterNode'' ''exprFilter''
     [struct_field ''Config'' ''ExprFilterNodeConfiguration''
        [str_field ''Expr'' []], other_field ''program'' [] KPtr]"

definition FieldFilterNode_component :: "node_desc component" where
  "FieldFilterNode_component = component_of ''filter'' ''FieldFilterNode'' ''fieldFilter''
     [struct_field ''Config'' ''FieldFilterNodeConfiguration''
        [bool_field ''CheckAllKeys'', str_field ''DataNames'' [], str_field ''MetadataNames'' []],
        other_field ''DataNamesList'' [] KSlice, other_field ''MetadataNamesList'' [] KSlice]"

definition GroupFilterNode_component :: "node_desc component" where
  "GroupFilterNode_component = component_of ''filter'' ''GroupFilterNode'' ''groupFilter''
     [struct_field ''Config'' ''GroupFilterNodeConfiguration''
        [bool_field ''AllMatches'', str_field ''NodeIds'' [], int_field ''Timeout'' 0], other_field ''NodeIdList'' [] KSlice,
        other_field ''Length'' ''int32'' KOther]"

definition JsFilterNode_component :: "node_desc component" where
  "JsFilterNode_component = component_of ''filter'' ''JsFilterNode'' ''jsFilter''
     [struct_field ''Config'' ''JsFilterNodeConfiguration''
        [str_field ''JsScript'' ''return msg.temperature > 50;''], other_field ''jsEngine'' ''JsEngine'' KOther]"

definition JsSwitchNode_component :: "node_desc component" where
  "JsSwitchNode_component = component_of ''filter'' ''JsSwitchNode'' ''jsSwitch''
     [struct_field ''Config'' ''JsSwitchNodeConfiguration''
        [str_field ''JsScript'' ''return ['msgType1','msgType2'];''], other_field ''jsEngine'' ''JsEngine'' KOther]"

definition MsgTypeSwitchNode_component :: "node_desc component" where
  "MsgTypeSwitchNode_component = component_of ''filter'' ''MsgTypeSwitchNode'' ''msgTypeSwitch''
     []"

definition ExprTransformNode_component :: "node_desc component" where
  "ExprTransformNode_component = component_of ''transform'' ''ExprTransformNode'' ''exprTransform''
     [struct_field ''Config'' ''ExprTransformNodeConfiguration''
        [str_field ''Expr'' [], other_field ''Mapping'' [] KMap], other_field ''program'' [] KPtr, other_field ''programMapping'' [] KMap]"

definition JsTransformNode_component :: "node_desc component" where
  "JsTransformNode_component = component_of ''transform'' ''JsTransformNode'' ''jsTransform''
     [struct_field ''Config'' ''JsTransformNodeConfiguration''
        [str_field ''JsScript'' ''return {'msg':msg,'metadata':metadata,'msgType':msgType};''],
        other_field ''jsEngine'' ''JsEngine'' KOther]"

definition DbClientNode_component :: "node_desc component" where
  "DbClientNode_component = component_of ''external'' ''DbClientNode'' ''dbClient''
     [struct_field ''Config'' ''DbClientNodeConfiguration''
        [str_field ''Sql'' ''select * from test'', slice_field ''Params'', bool_field ''GetOne'', int_field ''PoolSize'' 0,
        str_field ''DriverName'' ''mysql'', str_field ''Dsn'' ''root:root@tcp(127.0.0.1:3306)/test''], other_field ''db'' [] KPtr,
        str_field ''opType'' [], bool_field ''paramsHasVar'']"

definition MqttClientNode_component :: "node_desc component" where
  "MqttClientNode_component = component_of ''external'' ''MqttClientNode'' ''mqttClient''
     [struct_field ''Config'' ''MqttClientNodeConfiguration''
        [str_field ''Topic'' ''/device/msg'', str_field ''Server'' ''127.0.0.1:1883'', str_field ''Username'' [],
         str_field ''Password'' [], int_field ''MaxReconnectInterval'' 60, plain_field ''QOS'' ''uint8''
         KOther (GUint8 0), bool_field ''CleanSession'', str_field ''ClientID'' [], str_field ''CAFile'' [],
         str_field ''CertFile'' [], str_field ''CertKeyFile'' []], other_field ''mqttClient'' [] KPtr]"

definition NetNode_component :: "node_desc component" where
  "NetNode_component = component_of ''external'' ''NetNode'' ''net''
     [struct_field ''Config'' ''NetNodeConfiguration''
        [str_field ''Protocol'' ''tcp'', str_field ''Server'' [], int_field ''ConnectTimeout'' 60, int_field
         ''HeartbeatInterval'' 60], other_field ''ruleConfig'' ''Config'' KStruct, other_field ''conn'' ''Conn'' KOther,
        other_field ''heartbeatTimer'' [] KPtr, other_field ''heartbeatDuration'' ''Duration'' KOther, other_field ''stop'' [] KOther,
        other_field ''disconnected'' ''int32'' KOther]"

definition RestApiCallNode_component :: "node_desc component" where
  "RestApiCallNode_component = component_of ''external'' ''RestApiCallNode'' ''restApiCall''
     [struct_field ''Config'' ''RestApiCallNodeConfiguration''
        [str_field ''RestEndpointUrlPattern'' [], str_field ''RequestMethod'' ''POST'', bool_field
         ''WithoutRequestBody'', plain_field ''Headers'' [] KMap (GMapStr [(''Content-Type'',
         ''application/json'')]), int_field ''ReadTimeoutMs'' 0, int_field ''MaxParallelRequestsCount'' 200,
         bool_field ''EnableProxy'', bool_field ''UseSystemProxyProperties'', str_field ''ProxyScheme'' [],
         str_field ''ProxyHost'' [], int_field ''ProxyPort'' 0, str_field ''ProxyUser'' [], str_field
         ''ProxyPassword'' []], other_field ''httpClient'' [] KPtr, bool_field ''isStream'']"

definition SendEmailNode_component :: "node_desc component" where
  "SendEmailNode_component = component_of ''external'' ''SendEmailNode'' ''sendEmail''
     [struct_field ''Config'' ''SendEmailConfiguration''
        [str_field ''SmtpHost'' [], int_field ''SmtpPort'' 0, str_field ''Username'' [], str_field ''Password'' [],
         bool_field ''EnableTls'', struct_field ''Email'' ''Email'' [str_field ''From'' [], str_field ''To''
         [], str_field ''Cc'' [], str_field ''Bcc'' [], str_field ''Subject'' [], str_field ''Body'' []],
         int_field ''ConnectTimeout'' 10], other_field ''ConnectTimeoutDuration'' ''Duration'' KOther, str_field ''smtpAddr'' [],
        other_field ''smtpAuth'' ''Auth'' KOther]"

definition SshNode_component :: "node_desc component" where
  "SshNode_component = component_of ''external'' ''SshNode'' ''ssh''
     [struct_field ''Config'' ''SshConfiguration''
        [str_field ''Host'' ''127.0.0.1'', int_field ''Port'' 22, str_field ''Username'' ''root'', str_field
         ''Password'' ''password'', str_field ''Cmd'' []], other_field ''client'' [] KPtr]"

definition ChainNode_component :: "node_desc component" where
  "ChainNode_component = component_of ''flow'' ''ChainNode'' ''flow''
     [struct_field ''Config'' ''ChainNodeConfiguration''
        [str_field ''TargetId'' []]]"

text \<open>The packages add them in the order of their files; the lists are what \<open>Registry.Components()\<close> returns.\<close>

definition action_Registry :: "node_desc component list" where
  "action_Registry = fold (\<lambda>c cs. SafeComponentSlice_Add [c] cs)
     [DelayNode_component, FunctionsNode_component, GroupActionNode_component, IteratorNode_component, LogNode_component] []"

definition filter_Registry :: "node_desc component list" where
  "filter_Registry = fold (\<lambda>c cs. SafeComponentSlice_Add [c] cs)
     [ExprFilterNode_component, FieldFilterNode_component, GroupFilterNode_component, JsFilterNode_component, JsSwitchNode_component,
        MsgTypeSwitchNode_component] []"

definition transform_Registry :: "node_desc component list" where
  "transform_Registry = fold (\<lambda>c cs. SafeComponentSlice_Add [c] cs)
     [ExprTransformNode_component, JsTransformNode_component] []"

definition external_Registry :: "node_desc component list" where
  "external_Registry = fold (\<lambda>c cs. SafeComponentSlice_Add [c] cs)
     [DbClientNode_component, MqttClientNode_component, NetNode_component, RestApiCallNode_component, SendEmailNode_component,
        SshNode_component] []"

definition flow_Registry :: "node_desc component list" where
  "flow_Registry = fold (\<lambda>c cs. SafeComponentSlice_Add [c] cs)
     [ChainNode_component] []"

definition builtin_Registry :: "node_desc RuleComponentRegistry" where
  "builtin_Registry =
     init_registry [action_Registry, filter_Registry, transform_Registry, external_Registry, flow_Registry]
       new_RuleComponentRegistry"


lemmas component_defs = DelayNode_component_def FunctionsNode_component_def GroupActionNode_component_def
  IteratorNode_component_def LogNode_component_def ExprFilterNode_component_def FieldFilterNode_component_def
  GroupFilterNode_component_def JsFilterNode_component_def JsSwitchNode_component_def MsgTypeSwitchNode_component_def
  ExprTransformNode_component_def JsTransformNode_component_def DbClientNode_component_def MqttClientNode_component_def
  NetNode_component_def RestApiCallNode_component_def SendEmailNode_component_def SshNode_component_def
  ChainNode_component_def

lemmas list_defs = action_Registry_def filter_Registry_def transform_Registry_def external_Registry_def
  flow_Registry_def

section \<open>Properties\<close>

lemma gm_put_keys: "fst ` set (gm_put k v m) = insert k (fst ` set m)"
  by (simp add: update_keys dom_update)

lemma forms_of_ok:
  assumes "\<forall>c \<in> set cs. GetComponentForm (describe (cmp_New c)) = Inr (F c)"
    and "distinct (map fst forms @ map cmp_Type cs)"
  shows "forms_of describe cs forms = Inr (forms @ map (\<lambda>c. (cmp_Type c, F c)) cs)"
  using assms
proof (induction cs arbitrary: forms)
  case (Cons c cs)
  then have "gm_put (cmp_Type c) (F c) forms = forms @ [(cmp_Type c, F c)]" by (intro gm_put_new) auto
  with Cons.IH [of "forms @ [(cmp_Type c, F c)]"] Cons.prems show ?case by simp
qed simp

lemma registry_ok_types:
  "registry_ok r \<Longrightarrow> map cmp_Type (map snd (gm_of (reg_components r))) = map fst (gm_of (reg_components r))"
  by (auto simp: registry_ok_def)

lemma GetComponentForms_ok:
  assumes "registry_ok r" "\<forall>t c. reg_lookup r t = Some c \<longrightarrow> GetComponentForm (describe (cmp_New c)) = Inr (F c)"
  shows "GetComponentForms describe r = Inr (map (\<lambda>(t, c). (t, F c)) (gm_of (reg_components r)))"
proof -
  let ?m = "gm_of (reg_components r)"
  have "\<forall>c \<in> set (map snd ?m). GetComponentForm (describe (cmp_New c)) = Inr (F c)"
  proof
    fix c
    assume "c \<in> set (map snd ?m)"
    then obtain t where "(t, c) \<in> set ?m" by force
    then have "reg_lookup r t = Some c" using assms(1) by (simp add: registry_ok_def reg_lookup_def)
    with assms(2) show "GetComponentForm (describe (cmp_New c)) = Inr (F c)" by blast
  qed
  moreover have "distinct (map fst [] @ map cmp_Type (map snd ?m))"
    using assms(1) unfolding registry_ok_types [OF assms(1)] by (simp add: registry_ok_def)
  ultimately have "GetComponentForms describe r = Inr ([] @ map (\<lambda>c. (cmp_Type c, F c)) (map snd ?m))"
    unfolding GetComponentForms_def by (rule forms_of_ok)
  moreover have "map (\<lambda>c. (cmp_Type c, F c)) (map snd ?m) = map (\<lambda>(t, c). (t, F c)) ?m"
    using assms(1) by (auto simp: registry_ok_def)
  ultimately show ?thesis by simp
qed


text \<open>A struct that embeds nothing and has one field of the given name, a struct with the fields \<open>fs\<close>.\<close>

definition has_config :: "node_desc \<Rightarrow> string \<Rightarrow> rfield list \<Rightarrow> bool" where
  "has_config d name fs \<longleftrightarrow>
     rv_Kind (ds_struct d) = KStruct \<and> (\<forall>f \<in> set (rv_Fields (ds_struct d)). \<not> rf_Embedded f) \<and>
     (\<exists>cf. filter (\<lambda>f. rf_Name f = name) (rv_Fields (ds_struct d)) = [cf] \<and>
           rv_Kind (rf_Value cf) = KStruct \<and> rv_Fields (rf_Value cf) = fs)"

lemma form_fields_names: "map cff_Name (form_fields fl fs) = map (\<lambda>f. ToLowerFirst (rf_Name f)) fs"
  by (induction fl fs rule: form_fields_sub_fields.induct(1) [where Q = "\<lambda>_ _. True"]) (simp_all add: Let_def)

lemma form_fields_defaults:
  "map cff_DefaultValue (form_fields fl fs) =
     map (\<lambda>f. if CanInterface (Value_Field fl f) then rv_Interface (rf_Value f) else GNil) fs"
  by (induction fl fs rule: form_fields_sub_fields.induct(1) [where Q = "\<lambda>_ _. True"]) (simp_all add: Let_def)

lemma has_config_form:
  assumes "has_config d name fs" "name = ''config'' \<or> name = ''Config'' \<and> (\<forall>f \<in> set (rv_Fields (ds_struct d)). rf_Name f \<noteq> ''config'')"
    and "ds_Def d = None"
  shows "\<exists>form. GetComponentForm d = Inr form \<and>
    cf_Fields form = form_fields \<lparr>stickyRO = \<not> is_exported name, embedRO = False\<rparr> fs"
proof -
  from assms(1) obtain cf where k: "rv_Kind (ds_struct d) = KStruct" and e: "\<forall>f \<in> set (rv_Fields (ds_struct d)). \<not> rf_Embedded f"
    and cf: "filter (\<lambda>f. rf_Name f = name) (rv_Fields (ds_struct d)) = [cf]" "rv_Kind (rf_Value cf) = KStruct" "rv_Fields (rf_Value cf) = fs"
    unfolding has_config_def by blast
  have "cf \<in> set (filter (\<lambda>f. rf_Name f = name) (rv_Fields (ds_struct d)))" by (simp add: cf(1))
  then have "rf_Name cf = name" "\<not> rf_Embedded cf" using e by auto
  then have "FieldByName (ds_struct d) name = Some (\<lparr>stickyRO = \<not> is_exported name, embedRO = False\<rparr>, cf)"
    using FieldByName_direct [OF cf(1)] by (simp add: Value_Field_def)
  moreover have "FieldByName (ds_struct d) ''config'' = None" if "name \<noteq> ''config''"
    using assms(2) that e by (intro FieldByName_none) auto
  ultimately have "GetComponentConfig d = Inr (Some (\<lparr>stickyRO = \<not> is_exported name, embedRO = False\<rparr>, cf))"
    using k assms(2) by (cases "name = ''config''") (auto simp: GetComponentConfig_def Let_def)
  then show ?thesis using cf(2,3) assms(3) by (simp add: GetComponentForm_def GetFields_def Let_def)
qed

lemma config_exported [simp]: "is_exported ''Config''" "\<not> is_exported ''config''"
  by (simp_all add: is_exported_def)

text \<open>the form of a component with a field \<open>Config\<close> shows the fields of its configuration in their
  order, with the first letter in lower case, and for each exported one the value \<open>New\<close> gave it. An
  unexported field is shown too, without a value.\<close>

theorem form_shows_config:
  assumes "has_config d ''Config'' fs" "\<forall>f \<in> set (rv_Fields (ds_struct d)). rf_Name f \<noteq> ''config''" "ds_Def d = None"
  shows "\<exists>form. GetComponentForm d = Inr form \<and> map cff_Name (cf_Fields form) = map (\<lambda>f. ToLowerFirst (rf_Name f)) fs \<and>
    map cff_DefaultValue (cf_Fields form) = map (\<lambda>f. if is_exported (rf_Name f) then rv_Interface (rf_Value f) else GNil) fs"
proof -
  have "CanInterface (Value_Field \<lparr>stickyRO = False, embedRO = False\<rparr> f) = is_exported (rf_Name f)" for f
    by (auto simp: CanInterface_def Value_Field_def)
  then show ?thesis using has_config_form [OF assms(1) _ assms(3)] assms(2)
    by (auto simp: form_fields_names form_fields_defaults)
qed

text \<open>a field \<open>config\<close> is taken before \<open>Config\<close>, and reflection may not read below an unexported field:
  the form then shows no default value at all.\<close>

theorem hidden_config_has_no_defaults:
  assumes "has_config d ''config'' fs" "ds_Def d = None"
  shows "\<exists>form. GetComponentForm d = Inr form \<and> map cff_Name (cf_Fields form) = map (\<lambda>f. ToLowerFirst (rf_Name f)) fs \<and>
    map cff_DefaultValue (cf_Fields form) = map (\<lambda>f. GNil) fs"
  using has_config_form [OF assms(1) _ assms(2)]
  by (auto simp: form_fields_names form_fields_defaults CanInterface_def Value_Field_def)

lemma component_types [simp]:
  "cmp_Type DelayNode_component = ''delay''"
  "cmp_Type FunctionsNode_component = ''functions''"
  "cmp_Type GroupActionNode_component = ''groupAction''"
  "cmp_Type IteratorNode_component = ''iterator''"
  "cmp_Type LogNode_component = ''log''"
  "cmp_Type ExprFilterNode_component = ''exprFilter''"
  "cmp_Type FieldFilterNode_component = ''fieldFilter''"
  "cmp_Type GroupFilterNode_component = ''groupFilter''"
  "cmp_Type JsFilterNode_component = ''jsFilter''"
  "cmp_Type JsSwitchNode_component = ''jsSwitch''"
  "cmp_Type MsgTypeSwitchNode_component = ''msgTypeSwitch''"
  "cmp_Type ExprTransformNode_component = ''exprTransform''"
  "cmp_Type JsTransformNode_component = ''jsTransform''"
  "cmp_Type DbClientNode_component = ''dbClient''"
  "cmp_Type MqttClientNode_component = ''mqttClient''"
  "cmp_Type NetNode_component = ''net''"
  "cmp_Type RestApiCallNode_component = ''restApiCall''"
  "cmp_Type SendEmailNode_component = ''sendEmail''"
  "cmp_Type SshNode_component = ''ssh''"
  "cmp_Type ChainNode_component = ''flow''"
  by (simp_all add: component_defs component_of_def)

lemma builtin_components:
  "reg_components builtin_Registry = Some
     [(''delay'', DelayNode_component),
      (''functions'', FunctionsNode_component),
      (''groupAction'', GroupActionNode_component),
      (''iterator'', IteratorNode_component),
      (''log'', LogNode_component),
      (''exprFilter'', ExprFilterNode_component),
      (''fieldFilter'', FieldFilterNode_component),
      (''groupFilter'', GroupFilterNode_component),
      (''jsFilter'', JsFilterNode_component),
      (''jsSwitch'', JsSwitchNode_component),
      (''msgTypeSwitch'', MsgTypeSwitchNode_component),
      (''exprTransform'', ExprTransformNode_component),
      (''jsTransform'', JsTransformNode_component),
      (''dbClient'', DbClientNode_component),
      (''mqttClient'', MqttClientNode_component),
      (''net'', NetNode_component),
      (''restApiCall'', RestApiCallNode_component),
      (''sendEmail'', SendEmailNode_component),
      (''ssh'', SshNode_component),
      (''flow'', ChainNode_component)]"
  by (simp add: builtin_Registry_def init_registry_def list_defs SafeComponentSlice_Add_def new_RuleComponentRegistry_def
      Register_def Let_def)

lemma builtin_ok: "registry_ok builtin_Registry"
  by (simp add: registry_ok_def builtin_components)

lemma form_less_order: "form_less x y \<Longrightarrow> \<not> form_less y x" "\<not> form_less y x \<Longrightarrow> \<not> form_less z y \<Longrightarrow> \<not> form_less z x"
  by (auto simp: form_less_def not_str_less dest: str_less_asym intro: str_less_trans split: if_splits)

lemma form_sort_ok: "sorts_by form_less (insertion_sort form_less)"
  by (rule insertion_sort_sorts [OF form_less_order])

text \<open>What a form shows of a component whose configuration is a struct, or which has none.\<close>

definition config_ok :: "node_desc \<Rightarrow> bool" where
  "config_ok d = (case GetComponentConfig d of
     Inr (Some (_, f)) \<Rightarrow> rv_Kind (rf_Value f) = KStruct | Inr None \<Rightarrow> True | Inl _ \<Rightarrow> False)"

definition component_form :: "node_desc \<Rightarrow> ComponentForm" where
  "component_form d = (case GetComponentForm d of Inr f \<Rightarrow> f | Inl _ \<Rightarrow> undefined)"

lemma GetComponentForm_ok:
  assumes "config_ok d" "ds_Def d = None"
  shows "GetComponentForm d = Inr (component_form d)"
    and "cf_Type (component_form d) = ds_Type d" "cf_Category (component_form d) = form_category (ds_PkgPath d)"
    and "cf_RelationTypes (component_form d) = Some (form_relations (ds_Type d) (rv_Name (ds_struct d)))"
  using assms
  by (auto simp: config_ok_def component_form_def GetComponentForm_def GetFields_def Let_def split: sum.splits option.splits prod.splits)

lemma field_names [simp]:
  "rf_Name (str_field n v) = n" "rf_Name (int_field n i) = n" "rf_Name (bool_field n) = n" "rf_Name (slice_field n) = n"
  "rf_Name (other_field n t k) = n" "rf_Name (struct_field n t fs) = n"
  "\<not> rf_Embedded (str_field n v)" "\<not> rf_Embedded (int_field n i)" "\<not> rf_Embedded (bool_field n)" "\<not> rf_Embedded (slice_field n)"
  "\<not> rf_Embedded (other_field n t k)" "\<not> rf_Embedded (struct_field n t fs)" "rv_Kind (rf_Value (struct_field n t fs)) = KStruct"
  by (simp_all add: field_defs)

lemma config_ok_component:
  assumes "\<forall>f \<in> set rest. rf_Name f \<noteq> ''config'' \<and> rf_Name f \<noteq> ''Config'' \<and> \<not> rf_Embedded f"
  shows "config_ok (cmp_New (component_of pkg name t (struct_field ''Config'' c fs # rest)))"
proof -
  let ?v = "RValue name KStruct GNil (struct_field ''Config'' c fs # rest)"
  have "\<forall>f \<in> set (rv_Fields ?v). rf_Name f \<noteq> ''config'' \<and> \<not> rf_Embedded f" using assms by simp
  from FieldByName_none [OF this] have "FieldByName ?v ''config'' = None" .
  moreover have "filter (\<lambda>f. rf_Name f = ''Config'') (rv_Fields ?v) = [struct_field ''Config'' c fs]"
    using assms by (simp add: filter_empty_conv)
  ultimately show ?thesis using FieldByName_direct [of "''Config''" ?v]
    by (simp add: config_ok_def GetComponentConfig_def component_of_def)
qed

lemma config_ok_empty: "config_ok (cmp_New (component_of pkg name t []))"
  using FieldByName_none [of "RValue name KStruct GNil []" "''config''"] FieldByName_none [of "RValue name KStruct GNil []" "''Config''"]
  by (simp add: config_ok_def GetComponentConfig_def component_of_def)

definition form_key :: "ComponentForm \<Rightarrow> string \<times> string \<times> string list option" where
  "form_key f = (cf_Category f, cf_Type f, cf_RelationTypes f)"

lemma form_less_key:
  "form_less x y = (let (c, t, _) = form_key x; (c', t', _) = form_key y in if c \<noteq> c' then str_less c c' else str_less t t')"
  by (simp add: form_less_def form_key_def)

definition described :: "node_desc component \<Rightarrow> string \<Rightarrow> string \<Rightarrow> string \<Rightarrow> bool" where
  "described c pkg name t =
     (config_ok (cmp_New c) \<and> ds_Def (cmp_New c) = None \<and> ds_Type (cmp_New c) = t \<and>
      ds_PkgPath (cmp_New c) = ''github.com/rulego/rulego/components/'' @ pkg \<and> rv_Name (ds_struct (cmp_New c)) = name)"

lemma described_component:
  "config_ok (cmp_New (component_of pkg name t fs)) \<Longrightarrow> described (component_of pkg name t fs) pkg name t"
  by (simp add: described_def component_of_def)

lemma described_form:
  assumes "described c pkg name t"
  shows "GetComponentForm (cmp_New c) = Inr (component_form (cmp_New c))"
    "form_key (component_form (cmp_New c)) =
       (form_category (''github.com/rulego/rulego/components/'' @ pkg), t, Some (form_relations t name))"
  using assms GetComponentForm_ok [of "cmp_New c"] by (simp_all add: described_def form_key_def)

lemma builtin_described:
  "described DelayNode_component ''action'' ''DelayNode'' ''delay''"
  "described FunctionsNode_component ''action'' ''FunctionsNode'' ''functions''"
  "described GroupActionNode_component ''action'' ''GroupActionNode'' ''groupAction''"
  "described IteratorNode_component ''action'' ''IteratorNode'' ''iterator''"
  "described LogNode_component ''action'' ''LogNode'' ''log''"
  "described ExprFilterNode_component ''filter'' ''ExprFilterNode'' ''exprFilter''"
  "described FieldFilterNode_component ''filter'' ''FieldFilterNode'' ''fieldFilter''"
  "described GroupFilterNode_component ''filter'' ''GroupFilterNode'' ''groupFilter''"
  "described JsFilterNode_component ''filter'' ''JsFilterNode'' ''jsFilter''"
  "described JsSwitchNode_component ''filter'' ''JsSwitchNode'' ''jsSwitch''"
  "described MsgTypeSwitchNode_component ''filter'' ''MsgTypeSwitchNode'' ''msgTypeSwitch''"
  "described ExprTransformNode_component ''transform'' ''ExprTransformNode'' ''exprTransform''"
  "described JsTransformNode_component ''transform'' ''JsTransformNode'' ''jsTransform''"
  "described DbClientNode_component ''external'' ''DbClientNode'' ''dbClient''"
  "described MqttClientNode_component ''external'' ''MqttClientNode'' ''mqttClient''"
  "described NetNode_component ''external'' ''NetNode'' ''net''"
  "described RestApiCallNode_component ''external'' ''RestApiCallNode'' ''restApiCall''"
  "described SendEmailNode_component ''external'' ''SendEmailNode'' ''sendEmail''"
  "described SshNode_component ''external'' ''SshNode'' ''ssh''"
  "described ChainNode_component ''flow'' ''ChainNode'' ''flow''"
  by (simp_all add: component_defs described_component config_ok_component config_ok_empty)

lemma form_categories:
  "form_category (''github.com/rulego/rulego/components/'' @ ''action'') = ''action''"
  "form_category (''github.com/rulego/rulego/components/'' @ ''filter'') = ''filter''"
  "form_category (''github.com/rulego/rulego/components/'' @ ''transform'') = ''transform''"
  "form_category (''github.com/rulego/rulego/components/'' @ ''external'') = ''external''"
  "form_category (''github.com/rulego/rulego/components/'' @ ''flow'') = ''flow''"
  by (simp_all add: form_category_def)

lemma lower_upper:
  "to_lower_char (CHR ''A'') = CHR ''a''" "to_lower_char (CHR ''B'') = CHR ''b''" "to_lower_char (CHR ''C'') = CHR ''c''" "to_lower_char (CHR ''D'') = CHR ''d''" "to_lower_char (CHR ''E'') = CHR ''e''" "to_lower_char (CHR ''F'') = CHR ''f''"
  "to_lower_char (CHR ''G'') = CHR ''g''" "to_lower_char (CHR ''H'') = CHR ''h''" "to_lower_char (CHR ''I'') = CHR ''i''" "to_lower_char (CHR ''J'') = CHR ''j''" "to_lower_char (CHR ''K'') = CHR ''k''" "to_lower_char (CHR ''L'') = CHR ''l''"
  "to_lower_char (CHR ''M'') = CHR ''m''" "to_lower_char (CHR ''N'') = CHR ''n''" "to_lower_char (CHR ''O'') = CHR ''o''" "to_lower_char (CHR ''P'') = CHR ''p''" "to_lower_char (CHR ''Q'') = CHR ''q''" "to_lower_char (CHR ''R'') = CHR ''r''"
  "to_lower_char (CHR ''S'') = CHR ''s''" "to_lower_char (CHR ''T'') = CHR ''t''" "to_lower_char (CHR ''U'') = CHR ''u''" "to_lower_char (CHR ''V'') = CHR ''v''" "to_lower_char (CHR ''W'') = CHR ''w''" "to_lower_char (CHR ''X'') = CHR ''x''"
  "to_lower_char (CHR ''Y'') = CHR ''y''" "to_lower_char (CHR ''Z'') = CHR ''z''"
  by (code_simp)+

lemma lower_lower: "97 \<le> (of_char c :: nat) \<Longrightarrow> to_lower_char c = c"
  by (simp add: to_lower_char_def)

lemma builtin_relations:
  "form_relations ''delay'' ''DelayNode'' = [Success, Failure]"
  "form_relations ''functions'' ''FunctionsNode'' = [Success, Failure]"
  "form_relations ''groupAction'' ''GroupActionNode'' = [Success, Failure]"
  "form_relations ''iterator'' ''IteratorNode'' = [TrueRel, FalseRel, Success, Failure]"
  "form_relations ''log'' ''LogNode'' = [Success, Failure]"
  "form_relations ''exprFilter'' ''ExprFilterNode'' = [TrueRel, FalseRel, Failure]"
  "form_relations ''fieldFilter'' ''FieldFilterNode'' = [TrueRel, FalseRel, Failure]"
  "form_relations ''groupFilter'' ''GroupFilterNode'' = [TrueRel, FalseRel, Failure]"
  "form_relations ''jsFilter'' ''JsFilterNode'' = [TrueRel, FalseRel, Failure]"
  "form_relations ''jsSwitch'' ''JsSwitchNode'' = []"
  "form_relations ''msgTypeSwitch'' ''MsgTypeSwitchNode'' = []"
  "form_relations ''exprTransform'' ''ExprTransformNode'' = [Success, Failure]"
  "form_relations ''jsTransform'' ''JsTransformNode'' = [Success, Failure]"
  "form_relations ''dbClient'' ''DbClientNode'' = [Success, Failure]"
  "form_relations ''mqttClient'' ''MqttClientNode'' = [Success, Failure]"
  "form_relations ''net'' ''NetNode'' = [Success, Failure]"
  "form_relations ''restApiCall'' ''RestApiCallNode'' = [Success, Failure]"
  "form_relations ''sendEmail'' ''SendEmailNode'' = [Success, Failure]"
  "form_relations ''ssh'' ''SshNode'' = [Success, Failure]"
  "form_relations ''flow'' ''ChainNode'' = [Success, Failure]"
  by (simp_all add: form_relations_def str_ToLower_def lower_upper lower_lower)

lemmas builtin_keys = builtin_described [THEN described_form(2), unfolded form_categories builtin_relations]

lemmas builtin_form_ok = builtin_described [THEN described_form(1)]

lemma reg_lookup_component: "reg_lookup r t = Some c \<Longrightarrow> c \<in> set (map snd (gm_of (reg_components r)))"
  using map_of_SomeD [of "gm_of (reg_components r)" t c] by (force simp: reg_lookup_def)

lemma builtin_lookup_ok:
  "\<forall>t c. reg_lookup builtin_Registry t = Some c \<longrightarrow> GetComponentForm (cmp_New c) = Inr (component_form (cmp_New c))"
proof (intro allI impI)
  fix t c
  assume "reg_lookup builtin_Registry t = Some c"
  then have "c \<in> set (map snd (gm_of (reg_components builtin_Registry)))"
    by (rule reg_lookup_component)
  moreover have "\<forall>c \<in> set (map snd (gm_of (reg_components builtin_Registry))). GetComponentForm (cmp_New c) = Inr (component_form (cmp_New c))"
    by (simp add: builtin_components builtin_form_ok)
  ultimately show "GetComponentForm (cmp_New c) = Inr (component_form (cmp_New c))" by blast
qed

lemmas builtin_form_list = GetComponentForms_ok [OF builtin_ok builtin_lookup_ok]

text \<open>the editor is shown every built-in component once, by category and type, and the relations
  over which it may be connected: the convention on the struct names gives True, False and Failure for
  the filters, a free choice for the switches, Success and Failure for the rest, and all four for the
  iterator.\<close>

theorem builtin_forms:
  assumes "sorts_by form_less srt"
  shows "map_sum (\<lambda>e. e) (\<lambda>forms. map form_key (form_Values srt forms)) (GetComponentForms (\<lambda>d. d) builtin_Registry) = Inr
    [(''action'', ''delay'', Some [Success, Failure]),
     (''action'', ''functions'', Some [Success, Failure]),
     (''action'', ''groupAction'', Some [Success, Failure]),
     (''action'', ''iterator'', Some [TrueRel, FalseRel, Success, Failure]),
     (''action'', ''log'', Some [Success, Failure]),
     (''external'', ''dbClient'', Some [Success, Failure]),
     (''external'', ''mqttClient'', Some [Success, Failure]),
     (''external'', ''net'', Some [Success, Failure]),
     (''external'', ''restApiCall'', Some [Success, Failure]),
     (''external'', ''sendEmail'', Some [Success, Failure]),
     (''external'', ''ssh'', Some [Success, Failure]),
     (''filter'', ''exprFilter'', Some [TrueRel, FalseRel, Failure]),
     (''filter'', ''fieldFilter'', Some [TrueRel, FalseRel, Failure]),
     (''filter'', ''groupFilter'', Some [TrueRel, FalseRel, Failure]),
     (''filter'', ''jsFilter'', Some [TrueRel, FalseRel, Failure]),
     (''filter'', ''jsSwitch'', Some []),
     (''filter'', ''msgTypeSwitch'', Some []),
     (''flow'', ''flow'', Some [Success, Failure]),
     (''transform'', ''exprTransform'', Some [Success, Failure]),
     (''transform'', ''jsTransform'', Some [Success, Failure])]"
proof -
  let ?cs = "[DelayNode_component,
    FunctionsNode_component,
    GroupActionNode_component,
    IteratorNode_component,
    LogNode_component,
    DbClientNode_component,
    MqttClientNode_component,
    NetNode_component,
    RestApiCallNode_component,
    SendEmailNode_component,
    SshNode_component,
    ExprFilterNode_component,
    FieldFilterNode_component,
    GroupFilterNode_component,
    JsFilterNode_component,
    JsSwitchNode_component,
    MsgTypeSwitchNode_component,
    ChainNode_component,
    ExprTransformNode_component,
    JsTransformNode_component]"
  let ?ys = "map (\<lambda>c. component_form (cmp_New c)) ?cs"
  have "sorted_wrt form_less ?ys" by (simp add: form_less_key builtin_keys)
  moreover have "mset ?ys = mset (map (\<lambda>p. component_form (cmp_New (snd p))) (gm_of (reg_components builtin_Registry)))"
    by (simp add: builtin_components add_mset_commute)
  ultimately have "srt (map (\<lambda>p. component_form (cmp_New (snd p))) (gm_of (reg_components builtin_Registry))) = ?ys"
    using sorts_by_unique [OF assms] by metis
  then show ?thesis unfolding builtin_form_list
    by (simp add: form_Values_def builtin_keys o_def case_prod_beta)
qed

theorem builtin_forms_witness:
  "map_sum (\<lambda>e. e) (\<lambda>forms. fst (hd (map form_key (form_Values (insertion_sort form_less) forms))))
     (GetComponentForms (\<lambda>d. d) builtin_Registry) = Inr ''action''"
  using builtin_forms [OF form_sort_ok] by (cases "GetComponentForms (\<lambda>d. d) builtin_Registry") auto


end
