(* ===== verification/Files.thy ===== *)
theory Files
  imports GoStr GoSort
begin

text \<open>
  Files (\<open>utils/fs/fs.go\<close>) on a file system without links and permissions: a tree of directories,
  which list their entries in the order of the names, as \<open>ReadDir\<close> does, and files. The functions of
  \<open>os\<close>, \<open>path\<close> and \<open>path/filepath\<close> that the code calls are modelled for a Unix system; names are
  ASCII. What the disk takes of a write is an argument.
\<close>

section \<open>The file system\<close>

datatype fsnode = File string | Dir "(string \<times> fsnode) list"

fun is_dir :: "fsnode \<Rightarrow> bool" where
  "is_dir (Dir es) = True"
| "is_dir (File c) = False"

fun fs_lookup :: "fsnode \<Rightarrow> string list \<Rightarrow> fsnode option" where
  "fs_lookup n [] = Some n"
| "fs_lookup (File c) (name # names) = None"
| "fs_lookup (Dir es) (name # names) = (case map_of es name of Some n \<Rightarrow> fs_lookup n names | None \<Rightarrow> None)"

fun dir_put :: "string \<Rightarrow> fsnode \<Rightarrow> (string \<times> fsnode) list \<Rightarrow> (string \<times> fsnode) list" where
  "dir_put name n [] = [(name, n)]"
| "dir_put name n ((name', n') # es) =
     (if name' = name then (name, n) # es
      else if str_less name name' then (name, n) # (name', n') # es
      else (name', n') # dir_put name n es)"

fun fs_put :: "fsnode \<Rightarrow> string list \<Rightarrow> fsnode \<Rightarrow> fsnode" where
  "fs_put old [] n = n"
| "fs_put (File c) (name # names) n = File c"
| "fs_put (Dir es) (name # names) n =
     (case map_of es name of
        Some m \<Rightarrow> Dir (gm_put name (fs_put m names n) es)
      | None \<Rightarrow> if names = [] then Dir (dir_put name n es) else Dir es)"

text \<open>A process sees a tree from its working directory.\<close>

record fsys =
  fs_root :: fsnode
  fs_cwd :: "string list"

text \<open>The location a path names, as the kernel walks it: all directories on the way exist, the last
  name need not.\<close>

fun resolve :: "fsnode \<Rightarrow> string list \<Rightarrow> string list \<Rightarrow> string list option" where
  "resolve root cur [] = Some cur"
| "resolve root cur (c # cs) =
     (case fs_lookup root cur of
        Some (Dir es) \<Rightarrow>
          (if c = [] \<or> c = ''.'' then resolve root cur cs
           else if c = ''..'' then resolve root (butlast cur) cs
           else if map_of es c = None \<and> cs \<noteq> [] then None
           else resolve root (cur @ [c]) cs)
      | _ \<Rightarrow> None)"

definition locate :: "fsys \<Rightarrow> string \<Rightarrow> string list option" where
  "locate s path =
     (if path = [] then None
      else resolve (fs_root s) (if hd path = CHR ''/'' then [] else fs_cwd s) (Split path CHR ''/''))"

definition node_at :: "fsys \<Rightarrow> string \<Rightarrow> fsnode option" where
  "node_at s path = (case locate s path of Some p \<Rightarrow> fs_lookup (fs_root s) p | None \<Rightarrow> None)"

section \<open>Paths\<close>

text \<open>\<open>filepath.Split\<close>: the directory with its final slash, and the file name.\<close>

definition path_Split :: "string \<Rightarrow> string \<times> string" where
  "path_Split path =
     (let file = rev (takeWhile (\<lambda>c. c \<noteq> CHR ''/'') (rev path))
      in (take (length path - length file) path, file))"

definition clean_step :: "bool \<Rightarrow> string \<Rightarrow> string list \<Rightarrow> string list" where
  "clean_step path_rooted c acc =
     (if c = [] \<or> c = ''.'' then acc
      else if c = ''..'' then
        (if acc \<noteq> [] \<and> last acc \<noteq> ''..'' then butlast acc else if path_rooted then acc else acc @ [''..''])
      else acc @ [c])"

definition Clean :: "string \<Rightarrow> string" where
  "Clean path =
     (let path_rooted = (path \<noteq> [] \<and> hd path = CHR ''/'');
          comps = fold (clean_step path_rooted) (Split path CHR ''/'') []
      in if path_rooted then CHR ''/'' # join CHR ''/'' comps
         else if comps = [] then ''.'' else join CHR ''/'' comps)"

definition Join :: "string \<Rightarrow> string \<Rightarrow> string" where
  "Join dir name =
     (if dir = [] \<and> name = [] then []
      else Clean (if dir = [] then name else if name = [] then dir else dir @ CHR ''/'' # name))"

definition path_Dir :: "string \<Rightarrow> string" where
  "path_Dir path = Clean (fst (path_Split path))"

text \<open>\<open>path.Base\<close>, also the name that \<open>Lstat\<close> reports for a path.\<close>

definition Base :: "string \<Rightarrow> string" where
  "Base path =
     (if path = [] then ''.''
      else (let p = rev (dropWhile (\<lambda>c. c = CHR ''/'') (rev path))
            in if p = [] then ''/'' else snd (path_Split p)))"

section \<open>Patterns\<close>

datatype glob_tok = GLit char | GOne | GStar | GClass bool "(char \<times> char) list"

definition getEsc :: "string \<Rightarrow> (char \<times> string) option" where
  "getEsc chunk =
     (case chunk of
        [] \<Rightarrow> None
      | c # cs \<Rightarrow>
          if c = CHR ''-'' \<or> c = CHR '']'' then None
          else if c = CHR 0x5C then (case cs of d # (e # es) \<Rightarrow> Some (d, e # es) | _ \<Rightarrow> None)
          else if cs = [] then None else Some (c, cs))"

lemma getEsc_shorter: "getEsc s = Some (c, s') \<Longrightarrow> length s' < length s"
  by (auto simp: getEsc_def split: list.splits if_splits)

function parse_ranges :: "bool \<Rightarrow> string \<Rightarrow> ((char \<times> char) list \<times> string) option" where
  "parse_ranges some s =
     (if some \<and> s \<noteq> [] \<and> hd s = CHR '']'' then Some ([], tl s)
      else
        (case getEsc s of
           None \<Rightarrow> None
         | Some (lo, s1) \<Rightarrow>
             if hd s1 = CHR ''-'' then
               (case getEsc (tl s1) of
                  None \<Rightarrow> None
                | Some (hi, s2) \<Rightarrow> map_option (\<lambda>(rs, rest). ((lo, hi) # rs, rest)) (parse_ranges True s2))
             else map_option (\<lambda>(rs, rest). ((lo, lo) # rs, rest)) (parse_ranges True s1)))"
  by pat_completeness auto
termination
proof (relation "measure (\<lambda>(b, s). length s)", goal_cases)
  case (2 some s p lo s1 q hi s2)
  then have "length s1 < length s" "length s2 < length (tl s1)" by (metis getEsc_shorter)+
  then show ?case by simp
qed (auto dest: getEsc_shorter)

declare parse_ranges.simps [simp del]

lemma parse_ranges_shorter: "parse_ranges some s = Some (rs, rest) \<Longrightarrow> length rest < length s"
proof (induction some s arbitrary: rs rest rule: parse_ranges.induct)
  case (1 some s)
  show ?case
  proof (cases "some \<and> s \<noteq> [] \<and> hd s = CHR '']''")
    case True
    with 1(3) show ?thesis by (simp add: parse_ranges.simps [of _ s]) (metis length_greater_0_conv length_tl diff_Suc_less One_nat_def)
  next
    case False
    with 1(3) obtain lo s1 where e: "getEsc s = Some (lo, s1)"
      by (auto simp: parse_ranges.simps [of some s] split: option.splits)
    note s1 = getEsc_shorter [OF e]
    show ?thesis
    proof (cases "hd s1 = CHR ''-''")
      case True
      with 1(3) False e obtain hi s2 rs' where h: "getEsc (tl s1) = Some (hi, s2)" "parse_ranges True s2 = Some (rs', rest)"
        by (auto simp: parse_ranges.simps [of some s] split: option.splits)
      from 1(1) [OF False e refl True h(1) refl h(2)] getEsc_shorter [OF h(1)] s1 show ?thesis by simp
    next
      case h: False
      with 1(3) False e obtain rs' where "parse_ranges True s1 = Some (rs', rest)"
        by (auto simp: parse_ranges.simps [of some s] split: option.splits)
      from 1(2) [OF False e refl h this] s1 show ?thesis by simp
    qed
  qed
qed

text \<open>The tokens of a pattern; a malformed pattern has none and matches nothing.\<close>

function glob_parse :: "string \<Rightarrow> glob_tok list option" where
  "glob_parse [] = Some []"
| "glob_parse (c # cs) =
     (if c = CHR ''*'' then map_option (Cons GStar) (glob_parse cs)
      else if c = CHR ''?'' then map_option (Cons GOne) (glob_parse cs)
      else if c = CHR ''['' then
        (let negated = (cs \<noteq> [] \<and> hd cs = CHR ''^'')
         in case parse_ranges False (if negated then tl cs else cs) of
              None \<Rightarrow> None
            | Some (rs, rest) \<Rightarrow> map_option (Cons (GClass negated rs)) (glob_parse rest))
      else if c = CHR 0x5C then
        (case cs of [] \<Rightarrow> None | d # ds \<Rightarrow> map_option (Cons (GLit d)) (glob_parse ds))
      else map_option (Cons (GLit c)) (glob_parse cs))"
  by pat_completeness auto
termination
  by (relation "measure length") (auto dest!: parse_ranges_shorter split: if_splits)

fun glob_run :: "glob_tok list \<Rightarrow> string \<Rightarrow> bool" where
  "glob_run [] s = (s = [])"
| "glob_run (GStar # ts) [] = glob_run ts []"
| "glob_run (GStar # ts) (c # cs) = (glob_run ts (c # cs) \<or> c \<noteq> CHR ''/'' \<and> glob_run (GStar # ts) cs)"
| "glob_run (t # ts) [] = False"
| "glob_run (GLit d # ts) (c # cs) = (c = d \<and> glob_run ts cs)"
| "glob_run (GOne # ts) (c # cs) = (c \<noteq> CHR ''/'' \<and> glob_run ts cs)"
| "glob_run (GClass negated rs # ts) (c # cs) =
     ((list_ex (\<lambda>(lo, hi). (of_char lo :: nat) \<le> of_char c \<and> (of_char c :: nat) \<le> of_char hi) rs \<noteq> negated) \<and> glob_run ts cs)"

text \<open>\<open>filepath.Match\<close> with its error ignored.\<close>

definition Match :: "string \<Rightarrow> string \<Rightarrow> bool" where
  "Match pattern name = (case glob_parse pattern of None \<Rightarrow> False | Some ts \<Rightarrow> glob_run ts name)"

section \<open>Operations\<close>

text \<open>\<open>disk\<close>: how much of the data the disk takes, and the error of \<open>Write\<close>, which is nil exactly if it
  takes all. \<open>O_TRUNC\<close> has emptied the file before.\<close>

definition SaveFile :: "(string \<Rightarrow> nat \<times> error option) \<Rightarrow> string \<Rightarrow> string \<Rightarrow> fsys \<Rightarrow> error option \<times> fsys" where
  "SaveFile disk path data s =
     (case locate s path of
        None \<Rightarrow> (Some ''no such file or directory'', s)
      | Some p \<Rightarrow>
          if fs_lookup (fs_root s) p \<noteq> None \<and> is_dir (the (fs_lookup (fs_root s) p)) then (Some ''is a directory'', s)
          else (case disk data of
                  (n, err) \<Rightarrow> (err, s\<lparr>fs_root := fs_put (fs_root s) p (File (take n data))\<rparr>)))"

definition LoadFile :: "fsys \<Rightarrow> string \<Rightarrow> string option" where
  "LoadFile s filePath = (case node_at s filePath of Some (File c) \<Rightarrow> Some c | _ \<Rightarrow> None)"

definition isMatch :: "string \<Rightarrow> string list \<Rightarrow> bool" where
  "isMatch name patterns = list_ex (\<lambda>item. Match item name) patterns"

text \<open>\<open>filepath.WalkDir\<close> with the callback of \<open>GetFilePaths\<close>: an excluded directory is skipped.\<close>

fun walk_paths :: "string \<Rightarrow> string list \<Rightarrow> string \<Rightarrow> string \<Rightarrow> fsnode \<Rightarrow> string list"
  and walk_entries :: "string \<Rightarrow> string list \<Rightarrow> string \<Rightarrow> (string \<times> fsnode) list \<Rightarrow> string list" where
  "walk_paths file excluded path name (File c) =
     (if Match file name \<and> \<not> isMatch name excluded then [path] else [])"
| "walk_paths file excluded path name (Dir es) =
     (if isMatch name excluded then [] else walk_entries file excluded path es)"
| "walk_entries file excluded path [] = []"
| "walk_entries file excluded path ((name, n) # es) =
     walk_paths file excluded (Join path name) name n @ walk_entries file excluded path es"

definition GetFilePaths :: "fsys \<Rightarrow> string \<Rightarrow> string list \<Rightarrow> error + string list" where
  "GetFilePaths s loadFilePattern excludedPatterns =
     (case path_Split loadFilePattern of
        (dir, file) \<Rightarrow>
          (case node_at s dir of
             None \<Rightarrow> Inl ''no such file or directory''
           | Some n \<Rightarrow> Inr (walk_paths file excludedPatterns dir (Base dir) n)))"

definition IsExist :: "fsys \<Rightarrow> string \<Rightarrow> bool" where
  "IsExist s path = (node_at s path \<noteq> None)"

fun mkdirs :: "fsnode \<Rightarrow> string list \<Rightarrow> string list \<Rightarrow> error option \<times> fsnode" where
  "mkdirs root cur [] = (None, root)"
| "mkdirs root cur (c # cs) =
     (if c = [] \<or> c = ''.'' then mkdirs root cur cs
      else if c = ''..'' then mkdirs root (butlast cur) cs
      else (case fs_lookup root (cur @ [c]) of
              Some (Dir es) \<Rightarrow> mkdirs root (cur @ [c]) cs
            | Some (File x) \<Rightarrow> (Some ''not a directory'', root)
            | None \<Rightarrow> mkdirs (fs_put root (cur @ [c]) (Dir [])) (cur @ [c]) cs))"

definition MkdirAll :: "string \<Rightarrow> fsys \<Rightarrow> error option \<times> fsys" where
  "MkdirAll path s =
     (if path = [] then (Some ''no such file or directory'', s)
      else (case mkdirs (fs_root s) (if hd path = CHR ''/'' then [] else fs_cwd s) (Split path CHR ''/'') of
              (err, root) \<Rightarrow> (err, s\<lparr>fs_root := root\<rparr>)))"

definition CreateDirs :: "string \<Rightarrow> fsys \<Rightarrow> error option \<times> fsys" where
  "CreateDirs path s = (if \<not> IsExist s path then MkdirAll path s else (None, s))"

section \<open>What a path shows\<close>

text \<open>Nothing, a directory, or a file with its content.\<close>

definition fs_view :: "fsnode \<Rightarrow> string list \<Rightarrow> string option option" where
  "fs_view root p = map_option (\<lambda>n. case n of File c \<Rightarrow> Some c | Dir _ \<Rightarrow> None) (fs_lookup root p)"

lemma view_simps [simp]:
  "fs_view (File c) [] = Some (Some c)" "fs_view (Dir es) [] = Some None" "fs_view (File c) (x # xs) = None"
  "fs_view (Dir es) (x # xs) = (case map_of es x of Some n \<Rightarrow> fs_view n xs | None \<Rightarrow> None)"
  by (simp_all add: fs_view_def split: option.splits)

lemma view_append:
  "fs_view root (p @ q) = (case fs_lookup root p of Some n \<Rightarrow> fs_view n q | None \<Rightarrow> None)"
  by (induction root p rule: fs_lookup.induct) (auto simp: fs_view_def split: option.splits)

lemma view_prefix: "fs_view root (p @ q) \<noteq> None \<Longrightarrow> fs_view root p \<noteq> None"
  by (auto simp: view_append split: option.splits) (simp add: fs_view_def)

lemma view_parent:
  assumes "fs_view root (p @ [c]) \<noteq> None"
  shows "fs_view root p = Some None"
proof -
  from assms obtain n where n: "fs_lookup root p = Some n" "fs_view n [c] \<noteq> None" by (auto simp: view_append split: option.splits)
  then have "is_dir n" by (cases n) auto
  with n show ?thesis by (cases n) (auto simp: fs_view_def)
qed

lemma view_not_dir:
  "fs_view root p = Some None \<longleftrightarrow> fs_lookup root p \<noteq> None \<and> is_dir (the (fs_lookup root p))"
proof (cases "fs_lookup root p")
  case (Some n)
  then show ?thesis by (cases n) (simp_all add: fs_view_def)
qed (simp add: fs_view_def)

lemma view_dirD: "fs_view root p = Some None \<Longrightarrow> \<exists>es. fs_lookup root p = Some (Dir es)"
  by (cases "fs_lookup root p"; cases "the (fs_lookup root p)") (auto simp: fs_view_def)

lemma view_fileD: "fs_view root p = Some (Some c) \<Longrightarrow> fs_lookup root p = Some (File c)"
  by (cases "fs_lookup root p"; cases "the (fs_lookup root p)") (auto simp: fs_view_def)

lemma map_of_dir_put: "map_of (dir_put name n es) x = (if x = name then Some n else map_of es x)"
  by (induction name n es rule: dir_put.induct) auto

lemma view_put:
  assumes "p = q @ [c]" "fs_view root q = Some None" "fs_view root p \<noteq> Some None" "\<forall>x xs. fs_view new (x # xs) = None"
  shows "fs_view (fs_put root p new) r = (if r = p then fs_view new [] else fs_view root r)"
  using assms(1-3)
proof (induction q arbitrary: root p r)
  case Nil
  then obtain es where es: "root = Dir es" by (cases root) auto
  have m: "\<exists>f. m = File f" if "map_of es c = Some m" for m
    using Nil es that by (cases m) auto
  have "fs_view m ys = None" if "map_of es c = Some m" "ys \<noteq> []" for m ys
    using m [OF that(1)] that(2) by (cases ys) auto
  then show ?case using Nil(1) es assms(4)
    by (cases r) (auto simp: map_of_dir_put neq_Nil_conv split: option.splits)
next
  case (Cons d q)
  then obtain es m where es: "root = Dir es" "map_of es d = Some m" "fs_view m q = Some None" "fs_view m (q @ [c]) \<noteq> Some None"
    by (cases root) (auto split: option.splits)
  from Cons.IH [OF refl es(3,4)] show ?case using Cons.prems(1) es
    by (cases r) (auto simp: map_of_dir_put)
qed

lemma resolve_view:
  "resolve root cur (c # cs) =
     (if fs_view root cur = Some None then
        (if c = [] \<or> c = ''.'' then resolve root cur cs
         else if c = ''..'' then resolve root (butlast cur) cs
         else if fs_view root (cur @ [c]) = None \<and> cs \<noteq> [] then None
         else resolve root (cur @ [c]) cs)
      else None)"
proof (cases "fs_lookup root cur")
  case (Some n)
  then show ?thesis
  proof (cases n)
    case (Dir es)
    have "fs_view root (cur @ [c]) = None \<longleftrightarrow> map_of es c = None"
      by (auto simp: view_append Some Dir split: option.splits) (auto simp: fs_view_def)
    with Some Dir show ?thesis by (simp add: fs_view_def)
  qed (simp add: fs_view_def)
qed (simp add: fs_view_def)

declare resolve.simps(2) [simp del]

lemma resolve_put:
  assumes "\<forall>q. fs_view root' q = (if q = p then Some (Some x) else fs_view root q)" "fs_view root p \<noteq> Some None"
  shows "resolve root' cur cs = resolve root cur cs"
proof (induction cs arbitrary: cur)
  case (Cons c cs)
  have "resolve root (cur @ [c]) cs = None" if "cur @ [c] = p" "cs \<noteq> []"
    using that assms by (cases cs) (simp_all add: resolve_view)
  with Cons assms show ?case unfolding resolve_view by (cases "cur = p") auto
qed simp

lemma resolve_parent:
  assumes "fs_view root cur = Some None" "resolve root cur cs = Some p"
  shows "p = [] \<or> fs_view root (butlast p) = Some None"
  using assms
proof (induction cs arbitrary: cur)
  case Nil
  then show ?case using view_parent [of root "butlast cur" "last cur"] by (cases "cur = []") auto
next
  case (Cons c cs)
  have up: "fs_view root (butlast cur) = Some None"
    using Cons.prems(1) view_parent [of root "butlast cur" "last cur"] by (cases "cur = []") auto
  show ?case
  proof (cases "c = [] \<or> c = ''.'' \<or> c = ''..''")
    case True
    with Cons up show ?thesis by (auto simp: resolve_view split: if_splits)
  next
    case False
    with Cons.prems have r: "resolve root (cur @ [c]) cs = Some p" "fs_view root (cur @ [c]) \<noteq> None \<or> cs = []"
      by (auto simp: resolve_view split: if_splits)
    show ?thesis
    proof (cases cs)
      case Nil
      with r Cons.prems(1) show ?thesis by auto
    next
      case (Cons d ds)
      with r(1) have "fs_view root (cur @ [c]) = Some None" by (auto simp: resolve_view split: if_splits)
      with Cons.IH r(1) show ?thesis by blast
    qed
  qed
qed

section \<open>Saving and loading\<close>

text \<open>The working directory is a directory.\<close>

definition cwd_ok :: "fsys \<Rightarrow> bool" where
  "cwd_ok s \<longleftrightarrow> fs_view (fs_root s) (fs_cwd s) = Some None \<and> fs_view (fs_root s) [] = Some None"

lemma LoadFile_view: "LoadFile s path = (case locate s path of Some p \<Rightarrow> (case fs_view (fs_root s) p of Some f \<Rightarrow> f | None \<Rightarrow> None) | None \<Rightarrow> None)"
  by (auto simp: LoadFile_def node_at_def fs_view_def split: option.splits fsnode.splits)

text \<open>a file that was saved without an error is loaded back as it was written, and every other file
  is as before; the disk reports an error exactly if it does not take all of the data.\<close>

theorem save_then_load:
  assumes "cwd_ok s" "\<forall>d. snd (disk d) = None \<longrightarrow> length d \<le> fst (disk d)" "SaveFile disk path data s = (None, s')"
  shows "LoadFile s' path = Some data \<and> cwd_ok s' \<and>
    (\<forall>other. locate s other \<noteq> locate s path \<longrightarrow> LoadFile s' other = LoadFile s other)"
proof -
  from assms(3) obtain p n where p: "locate s path = Some p" and d: "disk data = (n, None)"
    and nd: "fs_view (fs_root s) p \<noteq> Some None" and s': "s' = s\<lparr>fs_root := fs_put (fs_root s) p (File (take n data))\<rparr>"
    by (auto simp: SaveFile_def view_not_dir split: option.splits if_splits prod.splits)
  have n: "take n data = data" using assms(2) d by (metis fst_conv snd_conv take_all)
  have "fs_view (fs_root s) (if hd path = CHR ''/'' then [] else fs_cwd s) = Some None" using assms(1) by (simp add: cwd_ok_def)
  with p have "p = [] \<or> fs_view (fs_root s) (butlast p) = Some None"
    unfolding locate_def by (metis option.distinct(1) resolve_parent)
  moreover have "p \<noteq> []" using nd assms(1) by (auto simp: cwd_ok_def)
  ultimately have v: "\<forall>q. fs_view (fs_root s') q = (if q = p then Some (Some data) else fs_view (fs_root s) q)"
    using view_put [of p "butlast p" "last p" _ "File data"] nd by (simp add: s' n)
  have l: "locate s' q = locate s q" for q
    using resolve_put [OF v nd] by (simp add: locate_def s')
  show ?thesis using v l p assms(1) nd by (auto simp: LoadFile_view cwd_ok_def s' split: option.splits)
qed

section \<open>Finding files\<close>

text \<open>A directory lists every name once, and a name is not a path.\<close>

definition name_ok :: "string \<Rightarrow> bool" where
  "name_ok c \<longleftrightarrow> c \<noteq> [] \<and> c \<noteq> ''.'' \<and> c \<noteq> ''..'' \<and> CHR ''/'' \<notin> set c"

fun tree_ok :: "fsnode \<Rightarrow> bool" where
  "tree_ok (File c) = True"
| "tree_ok (Dir es) = (distinct (map fst es) \<and> (\<forall>(name, n) \<in> set es. name_ok name \<and> tree_ok n))"

lemma tree_ok_lookup: "tree_ok n \<Longrightarrow> fs_lookup n p = Some m \<Longrightarrow> tree_ok m \<and> (\<forall>c \<in> set p. name_ok c)"
proof (induction n p rule: fs_lookup.induct)
  case (3 es name names)
  then obtain k where k: "map_of es name = Some k" "fs_lookup k names = Some m" by (auto split: option.splits)
  then have "(name, k) \<in> set es" by (simp add: map_of_SomeD)
  with 3 k show ?case by auto
qed auto

text \<open>The files below a node that a search selects, by their names on the way.\<close>

definition selected :: "string \<Rightarrow> string list \<Rightarrow> string \<Rightarrow> fsnode \<Rightarrow> string list set" where
  "selected file excluded name n =
     {rel. (\<exists>c. fs_lookup n rel = Some (File c)) \<and> Match file (last (name # rel)) \<and>
           (\<forall>x \<in> set (name # rel). \<not> isMatch x excluded)}"

lemma selected_File:
  "selected file excluded name (File c) = (if Match file name \<and> \<not> isMatch name excluded then {[]} else {})"
proof -
  have "fs_lookup (File c) rel = Some (File d) \<longleftrightarrow> rel = [] \<and> d = c" for rel d by (cases rel) auto
  then show ?thesis by (auto simp: selected_def)
qed

lemma selected_Dir:
  assumes "distinct (map fst es)"
  shows "selected file excluded name (Dir es) =
    (if isMatch name excluded then {}
     else (\<Union>(d, n) \<in> set es. Cons d ` selected file excluded d n))"
proof -
  have l: "fs_lookup (Dir es) rel = Some (File c) \<longleftrightarrow> (\<exists>d n rel'. rel = d # rel' \<and> (d, n) \<in> set es \<and> fs_lookup n rel' = Some (File c))"
    for rel c
  proof (cases rel)
    case (Cons a r)
    then show ?thesis by (auto simp: map_of_eq_Some_iff [OF assms, symmetric] split: option.splits)
  qed simp
  have "rel \<in> selected file excluded name (Dir es) \<longleftrightarrow>
      \<not> isMatch name excluded \<and> (\<exists>d n rel'. rel = d # rel' \<and> (d, n) \<in> set es \<and> rel' \<in> selected file excluded d n)" for rel
    unfolding selected_def mem_Collect_eq l by (auto simp del: last.simps simp add: last_ConsR) blast
  then show ?thesis by (auto simp: case_prod_beta image_iff) force
qed

lemma walk_selected:
  "tree_ok n \<Longrightarrow> set (walk_paths file excluded path name n) = foldl Join path ` selected file excluded name n"
  "distinct (map fst es) \<Longrightarrow> (\<forall>(d, m) \<in> set es. tree_ok m) \<Longrightarrow>
     set (walk_entries file excluded path es) = (\<Union>(d, m) \<in> set es. foldl Join path ` Cons d ` selected file excluded d m)"
proof (induction "file" excluded "path" name n and "file" excluded "path" es rule: walk_paths_walk_entries.induct)
  case (2 pat excluded path name es)
  have "\<forall>(d, m) \<in> set es. tree_ok m" using 2(2) by auto
  with 2 have "\<not> isMatch name excluded \<Longrightarrow>
      set (walk_entries pat excluded path es) = (\<Union>(d, m) \<in> set es. foldl Join path ` Cons d ` selected pat excluded d m)" by auto
  with 2(2) show ?case by (auto simp: selected_Dir)
next
  case (4 pat excluded path name n es)
  then show ?case by (simp add: image_image)
qed (simp_all add: selected_File)

text \<open>C28: a search finds exactly the files at any depth below the directory of the pattern whose name
  matches it, unless the name of the file or of a directory on the way to it is excluded; without such a
  directory it fails.\<close>

theorem GetFilePaths_exact:
  assumes "tree_ok (fs_root s)" "path_Split pattern = (dir, file)"
  shows "GetFilePaths s pattern excluded =
      (if node_at s dir = None then Inl ''no such file or directory''
       else Inr (walk_paths file excluded dir (Base dir) (the (node_at s dir)))) \<and>
    (\<forall>paths. GetFilePaths s pattern excluded = Inr paths \<longrightarrow>
       set paths = {foldl Join dir rel |rel.
         (\<exists>c. fs_lookup (the (node_at s dir)) rel = Some (File c)) \<and> Match file (last (Base dir # rel)) \<and>
         (\<forall>x \<in> set (Base dir # rel). \<not> isMatch x excluded)})"
proof -
  have g: "GetFilePaths s pattern excluded =
      (if node_at s dir = None then Inl ''no such file or directory''
       else Inr (walk_paths file excluded dir (Base dir) (the (node_at s dir))))"
    using assms(2) by (auto simp: GetFilePaths_def)
  moreover have "tree_ok n" if "node_at s dir = Some n" for n
    using that assms(1) by (auto simp: node_at_def dest: tree_ok_lookup split: option.splits)
  ultimately show ?thesis
    using walk_selected(1) [of "the (node_at s dir)" "file" excluded dir "Base dir"]
    by (auto simp: selected_def image_def)
qed

text \<open>The names on a path, and a path made of names.\<close>

definition path_names :: "string \<Rightarrow> string list" where
  "path_names p = filter (\<lambda>c. c \<noteq> [] \<and> c \<noteq> ''.'') (Split p CHR ''/'')"

definition path_rooted :: "string \<Rightarrow> bool" where
  "path_rooted p \<longleftrightarrow> p \<noteq> [] \<and> hd p = CHR ''/''"

definition path_of :: "bool \<Rightarrow> string list \<Rightarrow> string" where
  "path_of r cs = (if r then CHR ''/'' # join CHR ''/'' cs else join CHR ''/'' cs)"

definition no_dotdot :: "string \<Rightarrow> bool" where
  "no_dotdot p \<longleftrightarrow> ''..'' \<notin> set (Split p CHR ''/'')"

lemma Split_append: "Split (p @ c # q) c = Split p c @ Split q c"
proof (induction p)
  case (Cons x p)
  then show ?case by (cases "Split p c") auto
qed simp

lemma clean_names: "''..'' \<notin> set cs \<Longrightarrow> fold (clean_step r) cs acc = acc @ filter (\<lambda>c. c \<noteq> [] \<and> c \<noteq> ''.'') cs"
  by (induction cs arbitrary: acc) (auto simp: clean_step_def)

lemma Clean_path: "no_dotdot p \<Longrightarrow> path_names p \<noteq> [] \<Longrightarrow> Clean p = path_of (path_rooted p) (path_names p)"
  unfolding Clean_def Let_def path_rooted_def [symmetric] path_names_def path_of_def no_dotdot_def by (simp add: clean_names)

lemma name_ok_Split: "name_ok c \<Longrightarrow> Split c CHR ''/'' = [c]"
  using Split_join [of "[c]" "CHR ''/''"] by (simp add: name_ok_def)

lemma Join_path:
  assumes "dir \<noteq> []" "no_dotdot dir" "name_ok c"
  shows "Join dir c = path_of (path_rooted dir) (path_names dir @ [c])"
proof -
  let ?p = "dir @ CHR ''/'' # c"
  have "Split ?p CHR ''/'' = Split dir CHR ''/'' @ [c]" by (simp add: Split_append name_ok_Split assms(3))
  then have "no_dotdot ?p" "path_names ?p = path_names dir @ [c]" using assms(2,3) by (auto simp: no_dotdot_def path_names_def name_ok_def)
  moreover have "path_rooted ?p = path_rooted dir" using assms(1) by (simp add: path_rooted_def)
  ultimately show ?thesis using assms Clean_path [of ?p] by (simp add: Join_def name_ok_def)
qed

lemma path_of_names:
  assumes "cs \<noteq> []" "\<forall>c \<in> set cs. name_ok c"
  shows "path_names (path_of r cs) = cs" "no_dotdot (path_of r cs)" "path_of r cs \<noteq> []" "path_rooted (path_of r cs) = r"
proof -
  have "\<forall>c \<in> set cs. CHR ''/'' \<notin> set c" using assms(2) by (simp add: name_ok_def)
  then have s: "Split (join CHR ''/'' cs) CHR ''/'' = cs" by (rule Split_join [OF assms(1)])
  have f: "filter (\<lambda>c. c \<noteq> [] \<and> c \<noteq> ''.'') cs = cs" "''..'' \<notin> set cs" using assms(2) by (auto simp: name_ok_def filter_id_conv)
  from s f show "path_names (path_of r cs) = cs" "no_dotdot (path_of r cs)"
    by (auto simp: path_names_def path_of_def no_dotdot_def)
  obtain d ds e es where "cs = (d # ds) # es" using assms by (cases cs; cases "hd cs") (auto simp: name_ok_def)
  moreover from this assms(2) have "d \<noteq> CHR ''/''" by (auto simp: name_ok_def)
  ultimately have "join CHR ''/'' cs \<noteq> []" "hd (join CHR ''/'' cs) \<noteq> CHR ''/''" by (cases es; simp)+
  then show "path_of r cs \<noteq> []" "path_rooted (path_of r cs) = r" by (simp_all add: path_of_def path_rooted_def)
qed

lemma foldl_Join:
  assumes "dir \<noteq> []" "no_dotdot dir" "\<forall>c \<in> set (path_names dir) \<union> set rel. name_ok c" "rel \<noteq> []"
  shows "foldl Join dir rel = path_of (path_rooted dir) (path_names dir @ rel)"
  using assms
proof (induction rel rule: rev_induct)
  case (snoc c rel)
  show ?case
  proof (cases "rel = []")
    case True
    with snoc.prems show ?thesis by (simp add: Join_path)
  next
    case False
    let ?p = "path_of (path_rooted dir) (path_names dir @ rel)"
    have "path_names dir @ rel \<noteq> []" "\<forall>c \<in> set (path_names dir @ rel). name_ok c" using False snoc.prems(3) by auto
    note p = path_of_names [OF this]
    from False snoc have "foldl Join dir rel = ?p" by simp
    with Join_path [OF p(3,2)] snoc.prems(3) p show ?thesis by simp
  qed
qed simp

lemma resolve_names:
  assumes "''..'' \<notin> set cs" "resolve root cur cs = Some p"
  shows "p = cur @ filter (\<lambda>c. c \<noteq> [] \<and> c \<noteq> ''.'') cs"
  using assms by (induction cs arbitrary: cur) (fastforce simp: resolve_view split: if_splits)+

lemma resolve_plain:
  assumes "fs_view root (cur @ cs) \<noteq> None" "\<forall>c \<in> set cs. name_ok c"
  shows "resolve root cur cs = Some (cur @ cs)"
  using assms
proof (induction cs arbitrary: cur)
  case (Cons c cs)
  have up: "fs_view root (cur @ [c]) \<noteq> None" using Cons.prems(1) view_prefix [of root "cur @ [c]" cs] by simp
  note dir = view_parent [OF this]
  from Cons.IH [of "cur @ [c]"] Cons.prems up dir show ?case by (simp add: resolve_view name_ok_def)
qed simp

lemma locate_names:
  assumes "no_dotdot p" "locate s p = Some q"
  shows "q = (if path_rooted p then [] else fs_cwd s) @ path_names p"
proof -
  have "resolve (fs_root s) (if path_rooted p then [] else fs_cwd s) (Split p CHR ''/'') = Some q"
    using assms(2) by (auto simp: locate_def path_rooted_def split: if_splits)
  with assms(1) show ?thesis unfolding no_dotdot_def path_names_def by (rule resolve_names)
qed

lemma locate_path_of:
  assumes "cs \<noteq> []" "\<forall>c \<in> set cs. name_ok c" "fs_view (fs_root s) ((if r then [] else fs_cwd s) @ cs) \<noteq> None"
  shows "locate s (path_of r cs) = Some ((if r then [] else fs_cwd s) @ cs)"
proof -
  note p = path_of_names [OF assms(1,2), of r]
  have "\<forall>c \<in> set cs. CHR ''/'' \<notin> set c" using assms(2) by (simp add: name_ok_def)
  then have s: "Split (join CHR ''/'' cs) CHR ''/'' = cs" by (rule Split_join [OF assms(1)])
  have "fs_view (fs_root s) [] = Some None \<or> \<not> r"
    using assms(1,3) view_prefix [of "fs_root s" "[hd cs]" "tl cs"] view_parent [of "fs_root s" "[]" "hd cs"] by auto
  then have "resolve (fs_root s) (if r then [] else fs_cwd s) (Split (path_of r cs) CHR ''/'') =
      resolve (fs_root s) (if r then [] else fs_cwd s) cs"
    by (auto simp: path_of_def s resolve_view)
  with resolve_plain [OF assms(3,2)] p(3,4) show ?thesis by (auto simp: locate_def path_rooted_def)
qed

text \<open>whatever a search finds can be loaded. In a tree without links, every path that
  \<open>GetFilePaths\<close> returns for a directory written without \<open>..\<close> names a file, and \<open>LoadFile\<close> returns its
  content.\<close>

theorem found_files_load:
  assumes "tree_ok (fs_root s)" "path_Split pattern = (dir, file)" "no_dotdot dir"
    and "GetFilePaths s pattern excluded = Inr paths" "p \<in> set paths"
  shows "\<exists>rel c. p = foldl Join dir rel \<and> fs_lookup (the (node_at s dir)) rel = Some (File c) \<and> LoadFile s p = Some c"
proof -
  from assms(4) assms(2) obtain n where n: "node_at s dir = Some n"
    by (auto simp: GetFilePaths_def split: option.splits)
  then obtain q where q: "locate s dir = Some q" "fs_lookup (fs_root s) q = Some n"
    by (auto simp: node_at_def split: option.splits)
  have q': "q = (if path_rooted dir then [] else fs_cwd s) @ path_names dir" by (rule locate_names [OF assms(3) q(1)])
  from GetFilePaths_exact [OF assms(1,2), of excluded] assms(4,5) n
  obtain rel c where rel: "p = foldl Join dir rel" "fs_lookup n rel = Some (File c)" by auto
  have dir: "dir \<noteq> []" using q(1) by (auto simp: locate_def)
  have v: "fs_view (fs_root s) (q @ rel) = Some (Some c)" using q(2) rel(2) by (simp add: view_append) (simp add: fs_view_def)
  have ok: "\<forall>c \<in> set q \<union> set rel. name_ok c"
    using tree_ok_lookup [OF assms(1) q(2)] tree_ok_lookup [of n rel] rel(2) by auto
  have "LoadFile s p = Some c"
  proof (cases "rel = []")
    case True
    with rel(1) q(1) v show ?thesis by (simp add: LoadFile_view)
  next
    case False
    have "p = path_of (path_rooted dir) (path_names dir @ rel)"
      unfolding rel(1) using dir assms(3) ok False q' by (intro foldl_Join) auto
    moreover have "locate s (path_of (path_rooted dir) (path_names dir @ rel)) = Some (q @ rel)"
      using locate_path_of [of "path_names dir @ rel" s "path_rooted dir"] False ok v by (simp add: q')
    ultimately show ?thesis using v by (simp add: LoadFile_view)
  qed
  with rel n show ?thesis by auto
qed

section \<open>Creating directories\<close>

lemma mkdirs_ok:
  assumes "fs_view root cur = Some None" "mkdirs root cur cs = (None, root')"
  shows "(\<forall>q. fs_view root q \<noteq> None \<longrightarrow> fs_view root' q = fs_view root q) \<and>
    (\<exists>p. resolve root' cur cs = Some p \<and> fs_view root' p = Some None)"
  using assms
proof (induction cs arbitrary: root cur)
  case (Cons c cs)
  have up: "fs_view root (butlast cur) = Some None"
    using Cons.prems(1) view_parent [of root "butlast cur" "last cur"] by (cases "cur = []") auto
  show ?case
  proof (cases "c = [] \<or> c = ''.'' \<or> c = ''..''")
    case True
    with Cons.prems(2) have "mkdirs root (if c = ''..'' then butlast cur else cur) cs = (None, root')"
      by (auto split: if_splits)
    from Cons.IH [OF _ this] Cons.prems(1) up True show ?thesis by (auto simp: resolve_view)
  next
    case False
    define root1 where "root1 = (if fs_view root (cur @ [c]) = None then fs_put root (cur @ [c]) (Dir []) else root)"
    have m: "mkdirs root1 (cur @ [c]) cs = (None, root')" and nf: "fs_view root (cur @ [c]) = None \<or> fs_view root (cur @ [c]) = Some None"
      using Cons.prems(2) False by (auto simp: root1_def fs_view_def split: option.splits fsnode.splits)
    have v: "fs_view root1 q = (if q = cur @ [c] then Some None else fs_view root q)" for q
      using view_put [of "cur @ [c]" cur c root "Dir []" q] Cons.prems(1) nf by (auto simp: root1_def)
    from Cons.IH [OF _ m] v obtain p where ih: "\<forall>q. fs_view root1 q \<noteq> None \<longrightarrow> fs_view root' q = fs_view root1 q"
      "resolve root' (cur @ [c]) cs = Some p" "fs_view root' p = Some None" by auto
    have "fs_view root' cur = Some None" "fs_view root' (cur @ [c]) = Some None" using ih(1) v Cons.prems(1) by auto
    moreover have "\<forall>q. fs_view root q \<noteq> None \<longrightarrow> fs_view root' q = fs_view root q" using ih(1) v nf by (metis option.distinct(1))
    ultimately show ?thesis using ih False by (simp add: resolve_view)
  qed
qed simp

text \<open>after \<open>CreateDirs\<close> without an error the path exists, and nothing that existed has changed.\<close>

theorem CreateDirs_exists:
  assumes "cwd_ok s" "CreateDirs path s = (None, s')"
  shows "IsExist s' path \<and> (\<forall>q. fs_view (fs_root s) q \<noteq> None \<longrightarrow> fs_view (fs_root s') q = fs_view (fs_root s) q)"
proof (cases "IsExist s path")
  case True
  with assms(2) show ?thesis by (auto simp: CreateDirs_def)
next
  case False
  let ?cur = "if hd path = CHR ''/'' then [] else fs_cwd s"
  from False assms(2) obtain root where m: "path \<noteq> []" "mkdirs (fs_root s) ?cur (Split path CHR ''/'') = (None, root)" "s' = s\<lparr>fs_root := root\<rparr>"
    by (auto simp: CreateDirs_def MkdirAll_def split: if_splits prod.splits)
  have "fs_view (fs_root s) ?cur = Some None" using assms(1) by (simp add: cwd_ok_def)
  from mkdirs_ok [OF this m(2)] m(1,3) show ?thesis
    by (auto simp: IsExist_def node_at_def locate_def fs_view_def)
qed

section \<open>A concrete tree\<close>

definition demo_fs :: fsys where
  "demo_fs = \<lparr>fs_root = Dir [(''home'', Dir [(''rules'', Dir [(''a.json'', File ''A''), (''old'', Dir [(''b.json'', File ''B'')]), (''x.txt'', File ''X'')])])],
     fs_cwd = [''home'']\<rparr>"

definition demo_disk :: "string \<Rightarrow> nat \<times> error option" where
  "demo_disk d = (length d, None)"

theorem save_then_load_witness:
  "LoadFile (snd (SaveFile demo_disk ''rules/c.json'' ''C'' demo_fs)) ''rules/c.json'' = Some ''C''"
proof -
  have "cwd_ok demo_fs" by (simp add: cwd_ok_def demo_fs_def)
  moreover have "\<forall>d. snd (demo_disk d) = None \<longrightarrow> length d \<le> fst (demo_disk d)" by (simp add: demo_disk_def)
  moreover have "fst (SaveFile demo_disk ''rules/c.json'' ''C'' demo_fs) = None" by code_simp
  then have "SaveFile demo_disk ''rules/c.json'' ''C'' demo_fs = (None, snd (SaveFile demo_disk ''rules/c.json'' ''C'' demo_fs))"
    by (metis prod.collapse)
  ultimately show ?thesis by (rule save_then_load [THEN conjunct1])
qed

lemma demo_search:
  "GetFilePaths demo_fs ''./rules/*.json'' [] = Inr [''rules/a.json'', ''rules/old/b.json'']"
  "GetFilePaths demo_fs ''./rules/*.json'' [''o*''] = Inr [''rules/a.json'']"
  "path_Split ''./rules/*.json'' = (''./rules/'', ''*.json'')" "tree_ok (fs_root demo_fs)" "no_dotdot ''./rules/''"
  by (code_simp+)

theorem GetFilePaths_exact_witness:
  "set [''rules/a.json''] = {foldl Join ''./rules/'' rel |rel.
     (\<exists>c. fs_lookup (the (node_at demo_fs ''./rules/'')) rel = Some (File c)) \<and> Match ''*.json'' (last (Base ''./rules/'' # rel)) \<and>
     \<not> list_ex (\<lambda>x. isMatch x [''o*'']) (Base ''./rules/'' # rel)}"
  using GetFilePaths_exact [OF demo_search(4,3), of "[''o*'']"] demo_search(2) by (simp add: list_ex_iff)

theorem found_files_load_witness:
  "\<exists>rel c. ''rules/old/b.json'' = foldl Join ''./rules/'' rel \<and>
     fs_lookup (the (node_at demo_fs ''./rules/'')) rel = Some (File c) \<and> LoadFile demo_fs ''rules/old/b.json'' = Some c"
  using found_files_load [OF demo_search(4,3,5,1)] by simp

text \<open>without a directory in the pattern, the search walks the empty path and fails.\<close>

theorem bare_pattern_fails:
  assumes "CHR ''/'' \<notin> set pattern"
  shows "GetFilePaths s pattern excluded = Inl ''no such file or directory''"
proof -
  have t: "takeWhile (\<lambda>c. c \<noteq> CHR ''/'') (rev pattern) = rev pattern" using assms by (auto simp: takeWhile_eq_all_conv)
  have "path_Split pattern = ([], pattern)" unfolding path_Split_def t Let_def by simp
  then show ?thesis by (simp add: GetFilePaths_def node_at_def locate_def)
qed

end
