(* ===== verification/Server.thy ===== *)
theory Server
  imports RestEndpoint MqttEndpoint DebugData Forms Files
begin

text \<open>
  The server application (\<open>examples/server/server.go\<close>), which puts the parts together: it loads
  scripts, plugins and rule chains from the file system into the default pool, records the debug data
  of the nodes, and serves an HTTP interface over the pool and, if asked to, an MQTT subscription. Its
  global variables are a record, and a processor of a route that changes them is a function on that
  record. A panic in a processor is recovered by the handler of the endpoint and ends the processing
  of the request, as a false does.
\<close>

section \<open>Constants and flags\<close>

definition apiVersion :: string where "apiVersion = ''v1''"
definition apiBasePath :: string where "apiBasePath = ''/api/'' @ apiVersion @ ''/''"
definition msgPath :: string where "msgPath = apiBasePath @ ''msg/:chainId/:msgType''"
definition rulePath :: string where "rulePath = apiBasePath @ ''rule/:chainId''"
definition componentsPath :: string where "componentsPath = apiBasePath @ ''components''"
definition eventPath :: string where "eventPath = apiBasePath @ ''event/debug''"
definition server_version :: string where "server_version = ''1.0.0''"

record flags =
  fg_port :: int
  fg_ver :: bool
  fg_ruleFile :: string
  fg_rules :: string
  fg_js :: string
  fg_plugins :: string
  fg_debugToLog :: bool
  fg_mqttAvailable :: bool
  fg_mqttClientConfig :: mqtt_Config
  fg_subscribeTopics :: string
  fg_mqtt2ChainId :: string

text \<open>The values that \<open>init\<close> declares. The reconnect interval is the constant
  \<open>100000*100000*60\<close>, in nanoseconds.\<close>

definition default_flags :: flags where
  "default_flags = \<lparr>fg_port = 9090, fg_ver = False, fg_ruleFile = [], fg_rules = ''./rules/'', fg_js = ''./js/'',
     fg_plugins = ''./plugins/'', fg_debugToLog = True, fg_mqttAvailable = False,
     fg_mqttClientConfig = \<lparr>mc_Server = ''127.0.0.1:1883'', mc_Username = [], mc_Password = [],
       mc_MaxReconnectInterval = 100000 * 100000 * 60, mc_QOS = 0, mc_CleanSession = False, mc_ClientID = [],
       mc_CAFile = [], mc_CertFile = [], mc_CertKeyFile = []\<rparr>,
     fg_subscribeTopics = ''#'', fg_mqtt2ChainId = ''chain:default''\<rparr>"

section \<open>State\<close>

text \<open>A line of the log: of the debug callback, with what it formats, or any other.\<close>

datatype log_line = DebugLine string string RuleMsg string "error option" | TextLine string

record ('n, 'w) server =
  sv_rules :: string
  sv_js :: string
  sv_plugins :: string
  sv_debugToLog :: bool
  sv_fs :: fsys
  sv_pool :: "('n, 'w) RuleGo"
  sv_reg :: "'n RuleComponentRegistry"
  sv_debug :: RuleChainDebugData
  sv_config :: "'w Config"
  sv_world :: 'w
  sv_log :: "log_line list"

text \<open>What the application takes from elsewhere: how definitions are loaded with the components of a
  registry, the disk, \<open>json.Indent\<close>, the encoder, the plugin loader, what reflection sees of an
  instance, the two sorts, and the key of the Lua engine for its libraries.\<close>

record ('n, 'w) server_env =
  se_loader :: "'n RuleComponentRegistry \<Rightarrow> ('n, 'w) RuleGo \<Rightarrow> ('n, 'w) loader"
  se_disk :: "string \<Rightarrow> nat \<times> error option"
  se_Indent :: "string \<Rightarrow> error + string"
  se_go :: go_env
  se_plugin :: "'n plugin_open"
  se_describe :: "'n \<Rightarrow> node_desc"
  se_sortDebug :: "DebugData list \<Rightarrow> DebugData list"
  se_sortForms :: "ComponentForm list \<Rightarrow> ComponentForm list"
  se_LoadLuaLibs :: string

definition sv_loader :: "('n, 'w) server_env \<Rightarrow> ('n, 'w) server \<Rightarrow> ('n, 'w) loader" where
  "sv_loader X s = se_loader X (sv_reg s) (sv_pool s)"

text \<open>\<open>json.Format\<close> of \<open>utils/json\<close>: nil with an error.\<close>

definition Format :: "(string \<Rightarrow> error + string) \<Rightarrow> string \<Rightarrow> string option \<times> error option" where
  "Format indent jsonStr = (case indent jsonStr of Inl err \<Rightarrow> (None, Some err) | Inr buf \<Rightarrow> (Some buf, None))"

section \<open>Starting\<close>

text \<open>\<open>config.OnDebug\<close>: the entry is recorded for the node and, if asked for, printed.\<close>

definition server_OnDebug ::
  "int \<Rightarrow> string \<Rightarrow> string \<Rightarrow> string \<Rightarrow> RuleMsg \<Rightarrow> string \<Rightarrow> error option \<Rightarrow> ('n, 'w) server \<Rightarrow> error + ('n, 'w) server" where
  "server_OnDebug now chainId flowType nodeId msg relationType err s =
     (let errStr = (case err of Some e \<Rightarrow> e | None \<Rightarrow> [])
      in case RuleChainDebugData_Add chainId nodeId
                \<lparr>dd_Ts = now, dd_NodeId = nodeId, dd_FlowType = flowType, dd_Msg = msg, dd_RelationType = relationType,
                 dd_Err = errStr\<rparr> (sv_debug s) of
           Inl p \<Rightarrow> Inl p
         | Inr d \<Rightarrow>
             (let s = s\<lparr>sv_debug := d\<rparr>
              in Inr (if sv_debugToLog s then s\<lparr>sv_log := sv_log s @ [DebugLine flowType nodeId msg relationType err]\<rparr> else s)))"

text \<open>\<open>fs.CreateDirs\<close> with its error ignored.\<close>

definition sv_CreateDirs :: "string \<Rightarrow> ('n, 'w) server \<Rightarrow> ('n, 'w) server" where
  "sv_CreateDirs folderPath s = s\<lparr>sv_fs := snd (CreateDirs folderPath (sv_fs s))\<rparr>"

definition loadJs :: "string \<Rightarrow> ('n, 'w) server \<Rightarrow> error option \<times> ('n, 'w) server" where
  "loadJs folderPath s =
     (let s = sv_CreateDirs folderPath s
      in case GetFilePaths (sv_fs s) (folderPath @ ''/*.js'') [] of
           Inl err \<Rightarrow> (Some err, s)
         | Inr paths \<Rightarrow>
             (None, s\<lparr>sv_config := fold (\<lambda>f c. case LoadFile (sv_fs s) f of
                Some b \<Rightarrow> RegisterUdf (Base f) (UdfScript Js (GString b)) c | None \<Rightarrow> c) paths (sv_config s)\<rparr>))"

fun register_plugins :: "'n plugin_open \<Rightarrow> string list \<Rightarrow> ('n, 'w) server \<Rightarrow> ('n, 'w) server" where
  "register_plugins op [] s = s"
| "register_plugins op (f # fs) s =
     (case RegisterPluginFile op (Base f) f (sv_reg s) of
        (None, r) \<Rightarrow> register_plugins op fs (s\<lparr>sv_reg := r\<rparr>)
      | (Some err, r) \<Rightarrow> register_plugins op fs (s\<lparr>sv_reg := r, sv_log := sv_log s @ [TextLine (''load plugin='' @ f @ '' error='' @ err)]\<rparr>))"

definition loadPlugins :: "('n, 'w) server_env \<Rightarrow> string \<Rightarrow> ('n, 'w) server \<Rightarrow> error option \<times> ('n, 'w) server" where
  "loadPlugins X folderPath s =
     (let s = sv_CreateDirs folderPath s
      in case GetFilePaths (sv_fs s) (folderPath @ ''/*.so'') [] of
           Inl err \<Rightarrow> (Some err, s)
         | Inr paths \<Rightarrow> (None, register_plugins (se_plugin X) paths s))"

text \<open>\<open>loadRules\<close>: \<open>rulego.Load\<close> on the default pool with the file system underneath.\<close>

definition loadRules :: "('n, 'w) server_env \<Rightarrow> string \<Rightarrow> ('n, 'w) server \<Rightarrow> fail option \<times> ('n, 'w) server" where
  "loadRules X folderPath s =
     (let s = sv_CreateDirs folderPath s
      in case Load (se_loader X (sv_reg s)) DefaultRuleGo (\<lambda>p. GetFilePaths (sv_fs s) p []) (LoadFile (sv_fs s))
                [WithConfig (sv_config s)] folderPath (sv_pool s) (sv_world s) of
           (err, g, w) \<Rightarrow> (err, s\<lparr>sv_pool := g, sv_world := w\<rparr>))"

text \<open>A start that \<open>logger.Fatal\<close> ends, or that prints the version.\<close>

datatype stopped = Version string | Fatal string

definition server_config :: "string \<Rightarrow> ('w \<Rightarrow> bool \<times> 'w) \<Rightarrow> error + 'w Config" where
  "server_config loadLuaLibs pool =
     (let config = NewConfig [WithPool (Some pool)]
      in case PutValue (cfg_Properties config) loadLuaLibs ''true'' of
           Inl e \<Rightarrow> Inl e
         | Inr p \<Rightarrow> Inr (config\<lparr>cfg_Properties := p, cfg_Logger := Some (CustomLogger 0), cfg_OnDebug := True\<rparr>))"

fun fail_text :: "fail \<Rightarrow> string" where
  "fail_text (Err e) = e"
| "fail_text (Panic p) = p"

definition initRuleGo ::
  "('n, 'w) server_env \<Rightarrow> ('w \<Rightarrow> bool \<times> 'w) \<Rightarrow> ('n, 'w) server \<Rightarrow> stopped + ('n, 'w) server" where
  "initRuleGo X pool s =
     (case server_config (se_LoadLuaLibs X) pool of
        Inl e \<Rightarrow> Inl (Fatal e)
      | Inr config \<Rightarrow>
          (case loadJs (sv_js s) (s\<lparr>sv_config := config\<rparr>) of
             (Some err, s) \<Rightarrow> Inl (Fatal (''parser js file error:'' @ err))
           | (None, s) \<Rightarrow>
               (case loadPlugins X (sv_plugins s) s of
                  (Some err, s) \<Rightarrow> Inl (Fatal (''parser plugin file error:'' @ err))
                | (None, s) \<Rightarrow>
                    (case loadRules X (sv_rules s) s of
                       (Some err, s) \<Rightarrow> Inl (Fatal (''parser rule file error:'' @ fail_text err))
                     | (None, s) \<Rightarrow> Inr s))))"

text \<open>\<open>main\<close> up to the point where it serves: the built-in components are registered, the pool is empty.\<close>

definition server_start ::
  "('n, 'w) server_env \<Rightarrow> flags \<Rightarrow> ('w \<Rightarrow> bool \<times> 'w) \<Rightarrow> 'n RuleComponentRegistry \<Rightarrow> fsys \<Rightarrow> 'w \<Rightarrow> stopped + ('n, 'w) server" where
  "server_start X fg pool reg files w =
     (if fg_ver fg then Inl (Version (''RuleGo Server v'' @ server_version))
      else
        (let rules = (if fg_ruleFile fg \<noteq> [] then fg_ruleFile fg else fg_rules fg);
             s = \<lparr>sv_rules = rules, sv_js = fg_js fg, sv_plugins = fg_plugins fg, sv_debugToLog = fg_debugToLog fg,
                  sv_fs = files, sv_pool = [], sv_reg = reg, sv_debug = NewRuleChainDebugData 40,
                  sv_config = NewConfig [], sv_world = w, sv_log = []\<rparr>;
             s = sv_CreateDirs rules s;
             s = sv_CreateDirs (fg_js fg) s;
             s = sv_CreateDirs (fg_plugins fg) s
         in initRuleGo X pool s))"

section \<open>Processors\<close>

text \<open>What the processors do with the two messages of an exchange.\<close>

definition in_msg :: "int \<Rightarrow> string \<Rightarrow> rest_message Exchange \<Rightarrow> RuleMsg option \<times> rest_message Exchange" where
  "in_msg now uuid ex = (case mo_GetMsg (rest_ops now uuid) (ex_In ex) of (msg, i) \<Rightarrow> (msg, ex\<lparr>ex_In := i\<rparr>))"

definition in_body :: "rest_message Exchange \<Rightarrow> string \<times> rest_message Exchange" where
  "in_body ex =
     (case ex_In ex of
        RestIn q \<Rightarrow> (case rest_Body q of (b, q) \<Rightarrow> (case b of Some x \<Rightarrow> x | None \<Rightarrow> [], ex\<lparr>ex_In := RestIn q\<rparr>))
      | RestOut p \<Rightarrow> (case rp_body p of Some x \<Rightarrow> x | None \<Rightarrow> [], ex))"

definition out_upd :: "(rest_ResponseMessage \<Rightarrow> rest_ResponseMessage) \<Rightarrow> rest_message Exchange \<Rightarrow> rest_message Exchange" where
  "out_upd f ex = (case ex_Out ex of RestOut p \<Rightarrow> ex\<lparr>ex_Out := RestOut (f p)\<rparr> | RestIn q \<Rightarrow> ex)"

definition set_header :: "string \<Rightarrow> string \<Rightarrow> rest_ResponseMessage \<Rightarrow> rest_ResponseMessage" where
  "set_header k v p =
     (case rp_response p of Some w \<Rightarrow> p\<lparr>rp_response := Some (w\<lparr>hw_header := Header_Set k v (hw_header w)\<rparr>)\<rparr> | None \<Rightarrow> p)"

text \<open>The global interceptor and the handler of OPTIONS requests.\<close>

definition cors_interceptor :: "rest_message Process" where
  "cors_interceptor ex =
     (True, out_upd (set_header ''Access-Control-Allow-Origin'' ''*'') (out_upd (set_header ''Content-Type'' ''application/json'') ex))"

definition global_OPTIONS :: "http_writer \<Rightarrow> HttpRequest \<Rightarrow> http_writer" where
  "global_OPTIONS w r =
     (let w = (if Header_Get (hr_Header r) ''Access-Control-Request-Method'' \<noteq> []
               then w\<lparr>hw_header := Header_Set ''Access-Control-Allow-Origin'' ''*''
                       (Header_Set ''Access-Control-Allow-Headers'' ''*''
                         (Header_Set ''Access-Control-Allow-Methods'' (Header_Get (hr_Header r) ''Allow'') (hw_header w)))\<rparr>
               else w)
      in WriteHeader 204 w)"

text \<open>The two steps of the route for messages.\<close>

definition post_transform :: "int \<Rightarrow> string \<Rightarrow> rest_message Process" where
  "post_transform now uuid ex =
     (case in_msg now uuid ex of
        (Some msg, ex) \<Rightarrow>
          (True, ex\<lparr>ex_In := mo_SetMsg (rest_ops now uuid) (msg\<lparr>MsgType := GetValue (MsgMetadata msg) ''msgType''\<rparr>) (ex_In ex)\<rparr>)
      | (None, ex) \<Rightarrow> (False, ex))"

definition post_process :: "rest_message Process" where
  "post_process ex = (True, out_upd (rest_out_SetStatusCode 200) ex)"

text \<open>The ids that the routes for definitions and for debug data read.\<close>

definition route_ids :: "int \<Rightarrow> string \<Rightarrow> rest_message Exchange \<Rightarrow> (string \<times> string) option \<times> rest_message Exchange" where
  "route_ids now uuid ex =
     (case in_msg now uuid ex of
        (Some msg, ex) \<Rightarrow> (Some (GetValue (MsgMetadata msg) ''chainId'', GetValue (MsgMetadata msg) ''nodeId''), ex)
      | (None, ex) \<Rightarrow> (None, ex))"

definition root_chains :: "('n, 'w) RuleGo \<Rightarrow> string \<Rightarrow> ('n, 'w) RuleChainCtx option" where
  "root_chains g k = (case Get g k of Some e \<Rightarrow> re_root e | None \<Rightarrow> None)"

definition getDsl ::
  "('n, 'w) server_env \<Rightarrow> string \<Rightarrow> string \<Rightarrow> ('n, 'w) server \<Rightarrow> rest_message Exchange \<Rightarrow> rest_message Exchange" where
  "getDsl X chainId nodeId s ex =
     (if chainId \<noteq> [] then
        (case Get (sv_pool s) chainId of
           Some ruleEngine \<Rightarrow>
             (let cd = ld_codec (sv_loader X s);
                  node = (\<lambda>i. NodeDSL cd (pool_of (sv_pool s)) (root_chains (sv_pool s)) EmptyRuleNodeId i ruleEngine);
                  def = (if nodeId = [] then DSL cd ruleEngine
                         else (let def = node (node_id nodeId) in if def = [] then node (chain_id nodeId) else def))
              in out_upd (rest_out_SetBody def) ex)
         | None \<Rightarrow> out_upd (rest_out_SetStatusCode 404) ex)
      else ex)"

text \<open>\<open>saveDsl\<close>: the chain is reloaded or created, then the file is written, and the answer is about
  the file. \<open>None\<close> is a panic.\<close>

definition apply_dsl ::
  "('n, 'w) server_env \<Rightarrow> string \<Rightarrow> string \<Rightarrow> string \<Rightarrow> ('n, 'w) server \<Rightarrow> fail option \<times> ('n, 'w) server" where
  "apply_dsl X chainId nodeId body s =
     (case Get (sv_pool s) chainId of
        Some ruleEngine \<Rightarrow>
          (case (if nodeId = [] then ReloadSelf (sv_loader X s) body [] ruleEngine (sv_world s)
                 else ReloadChild (sv_loader X s) nodeId body ruleEngine (sv_world s)) of
             (err, e, w) \<Rightarrow> (err, s\<lparr>sv_pool := Store chainId e (sv_pool s), sv_world := w\<rparr>))
      | None \<Rightarrow>
          (case New (sv_loader X s) DefaultRuleGo chainId body [WithConfig (sv_config s)] (sv_pool s) (sv_world s) of
             (r, g, w) \<Rightarrow> (case r of Inl err \<Rightarrow> Some err | Inr _ \<Rightarrow> None, s\<lparr>sv_pool := g, sv_world := w\<rparr>)))"

definition rule_file :: "string \<Rightarrow> string \<Rightarrow> string" where
  "rule_file rules chainId = Join (path_Dir rules) (chainId @ ''.json'')"

definition save_file :: "('n, 'w) server_env \<Rightarrow> string \<Rightarrow> string \<Rightarrow> ('n, 'w) server \<Rightarrow> error option \<times> ('n, 'w) server" where
  "save_file X chainId body s =
     (let v = fst (Format (se_Indent X) body)
      in case SaveFile (se_disk X) (rule_file (sv_rules s) chainId) (case v of Some x \<Rightarrow> x | None \<Rightarrow> []) (sv_fs s) of
           (err, f) \<Rightarrow> (err, s\<lparr>sv_fs := f\<rparr>))"

definition answer_saved :: "error option \<Rightarrow> ('n, 'w) server \<Rightarrow> rest_message Exchange \<Rightarrow> rest_message Exchange \<times> ('n, 'w) server" where
  "answer_saved err s ex =
     (case err of
        Some e \<Rightarrow> (out_upd (rest_out_SetStatusCode 500) ex, s\<lparr>sv_log := sv_log s @ [TextLine e]\<rparr>)
      | None \<Rightarrow> (out_upd (rest_out_SetStatusCode 200) ex, s))"

definition saveDsl ::
  "('n, 'w) server_env \<Rightarrow> string \<Rightarrow> string \<Rightarrow> ('n, 'w) server \<Rightarrow> rest_message Exchange
     \<Rightarrow> (bool \<times> rest_message Exchange) \<times> ('n, 'w) server" where
  "saveDsl X chainId nodeId s ex =
     (if chainId \<noteq> [] then
        (case in_body ex of
           (body, ex) \<Rightarrow>
             (case apply_dsl X chainId nodeId body s of
                (Some (Panic p), s) \<Rightarrow> ((False, ex), s)
              | (_, s) \<Rightarrow>
                  (case save_file X chainId body s of
                     (err, s) \<Rightarrow> (case answer_saved err s ex of (ex, s) \<Rightarrow> ((True, ex), s)))))
      else (case answer_saved None s ex of (ex, s) \<Rightarrow> ((True, ex), s)))"

section \<open>Routes\<close>

text \<open>The processors as functions on the globals.\<close>

type_synonym ('n, 'w) server_process =
  "('n, 'w) server \<Rightarrow> rest_message Exchange \<Rightarrow> (bool \<times> rest_message Exchange) \<times> ('n, 'w) server"

definition getDsl_process :: "('n, 'w) server_env \<Rightarrow> int \<Rightarrow> string \<Rightarrow> ('n, 'w) server_process" where
  "getDsl_process X now uuid s ex =
     (case route_ids now uuid ex of
        (Some (chainId, nodeId), ex) \<Rightarrow> ((True, getDsl X chainId nodeId s ex), s)
      | (None, ex) \<Rightarrow> ((False, ex), s))"

definition saveDsl_process :: "('n, 'w) server_env \<Rightarrow> int \<Rightarrow> string \<Rightarrow> ('n, 'w) server_process" where
  "saveDsl_process X now uuid s ex =
     (case route_ids now uuid ex of
        (Some (chainId, nodeId), ex) \<Rightarrow> saveDsl X chainId nodeId s ex
      | (None, ex) \<Rightarrow> ((False, ex), s))"

text \<open>The JSON values of a form, of an entry and of a page.\<close>

fun field_val :: "ComponentFormField \<Rightarrow> go_val" where
  "field_val (ComponentFormField name t def label desc validate fs) =
     GStruct [(''name'', GString name), (''type'', GString t), (''defaultValue'', def), (''label'', GString label),
              (''desc'', GString desc), (''validate'', GString validate), (''fields'', GSlice (map field_val fs))]"

definition form_val :: "ComponentForm \<Rightarrow> go_val" where
  "form_val f = GStruct
     [(''type'', GString (cf_Type f)), (''category'', GString (cf_Category f)), (''fields'', GSlice (map field_val (cf_Fields f))),
      (''label'', GString (cf_Label f)), (''desc'', GString (cf_Desc f)), (''icon'', GString (cf_Icon f)),
      (''relationTypes'', case cf_RelationTypes f of None \<Rightarrow> GNil | Some rs \<Rightarrow> GSlice (map GString rs))]"

definition debug_val :: "DebugData \<Rightarrow> go_val" where
  "debug_val d = GStruct
     [(''ts'', GInt64 (word_of_int (dd_Ts d))), (''nodeId'', GString (dd_NodeId d)), (''flowType'', GString (dd_FlowType d)),
      (''msg'', msg_val (dd_Msg d)), (''relationType'', GString (dd_RelationType d)), (''err'', GString (dd_Err d))]"

definition page_val :: "DebugDataPage \<Rightarrow> go_val" where
  "page_val p = GStruct
     [(''Size'', GInt (word_of_int (pg_Size p))), (''current'', GInt (word_of_int (pg_Current p))),
      (''total'', GInt (word_of_int (pg_Total p))),
      (''items'', case pg_Items p of None \<Rightarrow> GNil | Some items \<Rightarrow> GSlice (map debug_val items))]"

definition components_process :: "('n, 'w) server_env \<Rightarrow> ('n, 'w) server_process" where
  "components_process X s ex =
     (case GetComponentForms (se_describe X) (sv_reg s) of
        Inl p \<Rightarrow> ((False, ex), s)
      | Inr forms \<Rightarrow>
          (case Marshal (se_go X) (GSlice (map form_val (form_Values (se_sortForms X) forms))) of
             (v, Some err) \<Rightarrow> ((True, out_upd (rest_out_SetBody err) (out_upd (rest_out_SetStatusCode 400) ex)), s)
           | (list, None) \<Rightarrow> ((True, out_upd (rest_out_SetBody list) ex), s)))"

definition debug_process :: "('n, 'w) server_env \<Rightarrow> int \<Rightarrow> string \<Rightarrow> ('n, 'w) server_process" where
  "debug_process X now uuid s ex =
     (case route_ids now uuid ex of
        (None, ex) \<Rightarrow> ((False, ex), s)
      | (Some (chainId, nodeId), ex) \<Rightarrow>
          (case GetToPage (se_sortDebug X) chainId nodeId (sv_debug s) of
             (page, d) \<Rightarrow>
               (let s = s\<lparr>sv_debug := d\<rparr>
                in case Marshal (se_go X) (page_val page) of
                     (v, Some err) \<Rightarrow> ((True, out_upd (rest_out_SetBody err) (out_upd (rest_out_SetStatusCode 500) ex)), s)
                   | (v, None) \<Rightarrow> ((True, out_upd (rest_out_SetBody v) ex), s))))"

text \<open>A router whose processor runs on the globals as they are when the request comes.\<close>

definition process_router :: "string \<Rightarrow> ('n, 'w) server_process \<Rightarrow> ('n, 'w) server \<Rightarrow> ('n, 'w, rest_message) Router" where
  "process_router path p s =
     (let r = Router_From path [] (NewRouter [])
      in r\<lparr>rt_from := map_option (From_Process (\<lambda>ex. fst (p s ex))) (rt_from r)\<rparr>)"

definition createGetDslRouter where "createGetDslRouter X now uuid = process_router rulePath (getDsl_process X now uuid)"
definition createSaveDslRouter where "createSaveDslRouter X now uuid = process_router rulePath (saveDsl_process X now uuid)"
definition createComponentsRouter where "createComponentsRouter X = process_router componentsPath (components_process X)"
definition createGetDebugDataRouter where "createGetDebugDataRouter X now uuid = process_router eventPath (debug_process X now uuid)"

definition createPostMsgRouter ::
  "go_env \<Rightarrow> ('n, 'w) node_ops \<Rightarrow> 'n RuleComponentRegistry \<Rightarrow> 'w exec_ops \<Rightarrow> int \<Rightarrow> string
     \<Rightarrow> error + ('n, 'w, rest_message) Router" where
  "createPostMsgRouter env ops reg E now uuid =
     (let r = Router_From msgPath [] (NewRouter [])
      in case rt_from r of
           None \<Rightarrow> Inl ''invalid memory address or nil pointer dereference''
         | Some f \<Rightarrow>
             (case From_To env ops reg E DefaultExecutorFactory (rt_Config r) ''chain:${chainId}'' []
                     (From_Process post_process (From_Transform (post_transform now uuid) f)) of
                Inl e \<Rightarrow> Inl e
              | Inr f \<Rightarrow> Inr (r\<lparr>rt_from := Some f\<rparr>)))"

text \<open>A request on a route: the answer of the endpoint, and the globals after the processor. The
  processor sees the exchange as the interceptor leaves it.\<close>

definition rest_endpoint :: "string \<Rightarrow> ('w, rest_message, 'mux) Rest" where
  "rest_endpoint addr =
     (let x = rest_New
      in x\<lparr>rst_base := AddInterceptors [cors_interceptor] (rst_base x),
           rst_Config := \<lparr>rcf_Server = addr, rcf_CertFile = [], rcf_CertKeyFile = []\<rparr>\<rparr>)"

definition request_exchange :: "go_env \<Rightarrow> int \<Rightarrow> string \<Rightarrow> http_writer \<Rightarrow> HttpRequest \<Rightarrow> (string \<times> string) list \<Rightarrow> rest_message Exchange" where
  "request_exchange env now uuid w r params =
     \<lparr>ex_In = RestIn \<lparr>rq_request = Some (snd (ReadBody r)), rq_body = Some (hr_Body r), rq_Params = params,
                     rq_msg = Some (request_msg env now uuid r params), rq_err = None\<rparr>,
      ex_Out = RestOut \<lparr>rp_request = Some (snd (ReadBody r)), rp_response = Some w, rp_body = None, rp_msg = None, rp_err = None\<rparr>\<rparr>"

text \<open>\<open>restServe\<close>: the five routes at the addresses of their routers, in the order of the code.\<close>

definition server_heap ::
  "('n, 'w, rest_message) Router list \<Rightarrow> ('n, 'w, rest_message) router_heap" where
  "server_heap rs a = (if a < length rs then rs ! a else NewRouter [])"

definition restServe ::
  "'mux mux_ops \<Rightarrow> (bool \<Rightarrow> error option) \<Rightarrow> string \<Rightarrow> ('n, 'w, rest_message) Router list
     \<Rightarrow> error option \<times> ('n, 'w, rest_message) router_heap \<times> ('w, rest_message, 'mux) Rest" where
  "restServe M listen addr rs =
     (let s = (server_heap rs, rest_endpoint addr);
          s = snd (rest_GET M [0] s);
          s = snd (rest_GET M [1] s);
          s = snd (rest_POST M [2] s);
          s = snd (rest_POST M [3] s);
          s = snd (rest_GET M [4] s)
      in case rest_Start listen (snd s) of (err, x) \<Rightarrow> (err, fst s, x))"

text \<open>\<open>mqttServe\<close>: one router for every topic of the list, all towards the same chain, then the start.
  \<open>inst\<close> is what \<open>endpoint.New\<close> returns for the configuration; a panic of \<open>To\<close> ends the program as
  \<open>Fatal\<close> does; \<open>None\<close> is a call that does not return.\<close>

definition mqtt_topic_router ::
  "go_env \<Rightarrow> ('n, 'w) node_ops \<Rightarrow> 'n RuleComponentRegistry \<Rightarrow> 'w exec_ops \<Rightarrow> string \<Rightarrow> string
     \<Rightarrow> error + ('n, 'w, mqtt_message) Router" where
  "mqtt_topic_router env ops reg E to topic =
     (let r = Router_From topic [] (NewRouter [])
      in case rt_from r of
           None \<Rightarrow> Inl ''invalid memory address or nil pointer dereference''
         | Some f \<Rightarrow>
             (case From_To env ops reg E DefaultExecutorFactory (rt_Config r) to [] f of
                Inl e \<Rightarrow> Inl e
              | Inr f \<Rightarrow> Inr (r\<lparr>rt_from := Some f\<rparr>)))"

fun mqtt_add_topics ::
  "('p, ('n, 'w, mqtt_message) Router, 'kp) paho_ops \<Rightarrow> (string \<Rightarrow> error + ('n, 'w, mqtt_message) Router) \<Rightarrow> string list
     \<Rightarrow> ('n, 'w, mqtt_message, 'p) Mqtt \<Rightarrow> (error + ('n, 'w, mqtt_message, 'p) Mqtt) option" where
  "mqtt_add_topics P mk [] m = Some (Inr m)"
| "mqtt_add_topics P mk (topic # topics) m =
     (case mk topic of
        Inl e \<Rightarrow> Some (Inl e)
      | Inr router \<Rightarrow>
          (case mqtt_AddRouter P (Some router) m of
             None \<Rightarrow> None
           | Some (_, m) \<Rightarrow> mqtt_add_topics P mk topics m))"

definition mqttServe ::
  "('p, ('n, 'w, mqtt_message) Router, 'kp) paho_ops \<Rightarrow> 'kp tls_files \<Rightarrow> string \<Rightarrow> (nat \<Rightarrow> error option)
     \<Rightarrow> (string \<Rightarrow> error + ('n, 'w, mqtt_message) Router) \<Rightarrow> string \<Rightarrow> (error + ('n, 'w, mqtt_message, 'p) Mqtt)
     \<Rightarrow> (stopped + ('n, 'w, mqtt_message, 'p) Mqtt) option" where
  "mqttServe P F rnd ctxDone mk subscribeTopics inst =
     (case inst of
        Inl err \<Rightarrow> Some (Inl (Fatal err))
      | Inr m \<Rightarrow>
          (case mqtt_add_topics P mk (Split subscribeTopics CHR '','') m of
             None \<Rightarrow> None
           | Some (Inl err) \<Rightarrow> Some (Inl (Fatal err))
           | Some (Inr m) \<Rightarrow>
               (case mqtt_Start P F rnd ctxDone m of
                  None \<Rightarrow> None
                | Some (Some err, m) \<Rightarrow> Some (Inl (Fatal err))
                | Some (None, m) \<Rightarrow> Some (Inr m))))"

section \<open>Messages\<close>

lemma rest_endpoint_base [simp]: "rst_base (rest_endpoint addr) = \<lparr>be_interceptors = [cors_interceptor]\<rparr>"
  by (simp add: rest_endpoint_def rest_New_def AddInterceptors_def)

lemma request_handled:
  assumes "\<not> IsDisable router" "\<forall>(k, v) \<in> set (hr_Query r). v \<noteq> []"
  shows "rest_handler env now uuid pools x router w r params =
    DoProcess (rest_ops now uuid) pools (rst_base x) router (request_exchange env now uuid w r params)"
  using rest_request_msg [OF assms, of env now uuid pools x w params] by (simp add: request_exchange_def)

lemma chain_variable:
  assumes "plain_dict [] dict" "map_of dict ''chainId'' = Some c"
  shows "SprintfDict ''${chainId}'' dict = c"
proof -
  have "map (\<lambda>(k, v). ([] @ k, v)) dict = dict" by (induction dict) auto
  then show ?thesis
    using SprintfVar_toks [OF assms(1), of "[Var ''chainId'']"] assms(2)
    by (simp add: SprintfDict_def varPatternLeft_def varPatternRight_def)
qed

lemma createPostMsgRouter_eq:
  "\<exists>f t. createPostMsgRouter env ops reg E now uuid =
      Inr \<lparr>rt_from = Some f, rt_RuleGo = 0, rt_Config = NewConfig [], rt_disable = False\<rparr> \<and>
    fr_processList f = [post_transform now uuid, post_process] \<and> fr_to f = Some t \<and> to_executor t = Some ChainExecutor \<and>
    to_ToPath t = ''${chainId}'' \<and> to_HasVars t \<and> \<not> to_wait t \<and> to_processList t = []"
proof -
  have d: "''chain:${chainId}'' = ''chain:'' @ ''${chainId}''" by simp
  have v: "has_vars ''${chainId}''" "TrimSpace ''${chainId}'' = ''${chainId}''"
    by (simp_all add: has_vars_def) code_simp
  show ?thesis unfolding createPostMsgRouter_def Let_def Router_From_def NewRouter_def
    using To_types(1) [of "''${chainId}''"] v
    by (simp add: From_To_def Let_def default_factory has_vars_def merge_configs_def From_Process_def From_Transform_def
        executor_Init.simps)
qed

text \<open>The status code of the answer, if one was sent.\<close>

definition out_status :: "rest_message Exchange \<Rightarrow> nat option" where
  "out_status ex = (case ex_Out ex of RestOut p \<Rightarrow> (case rp_response p of Some w \<Rightarrow> hw_status w | None \<Rightarrow> None) | RestIn q \<Rightarrow> None)"

lemma cors_exchange:
  "\<exists>w'. run_processes [cors_interceptor] (request_exchange env now uuid w r params) = (True, request_exchange env now uuid w' r params) \<and>
     hw_status w' = hw_status w \<and> hw_body w' = hw_body w"
  by (rule exI [of _ "w\<lparr>hw_header := Header_Set ''Access-Control-Allow-Origin'' ''*''
      (Header_Set ''Content-Type'' ''application/json'' (hw_header w))\<rparr>"])
     (simp add: cors_interceptor_def out_upd_def set_header_def request_exchange_def)

lemma request_md: "MsgMetadata (request_msg env now uuid r params) = Some (request_metadata env r params)"
  by (simp add: request_msg_def NewMsg_def newMsg_def)

lemma post_processes:
  "\<exists>ex'. run_processes [post_transform now uuid, post_process] (request_exchange env now uuid w r params) = (True, ex') \<and>
     mo_GetMsg (rest_ops now uuid) (ex_In ex') =
       (Some ((request_msg env now uuid r params)\<lparr>MsgType := GetValue (Some (request_metadata env r params)) ''msgType''\<rparr>), ex_In ex') \<and>
     out_status ex' = Some (case hw_status w of Some c \<Rightarrow> c | None \<Rightarrow> 200)"
  by (simp add: post_transform_def in_msg_def request_exchange_def rest_ops_def rest_GetMsg_def rest_SetMsg_def post_process_def
      out_upd_def out_status_def rest_out_SetStatusCode_def WriteHeader_def request_md split: option.splits)

text \<open>The value of a parameter of a request: a query parameter of that name, or else the part of the path.\<close>

definition request_param :: "go_env \<Rightarrow> HttpRequest \<Rightarrow> (string \<times> string) list \<Rightarrow> string \<Rightarrow> string option" where
  "request_param env r params k =
     (case map_of (rev (hr_Query r)) k of Some v \<Rightarrow> Some (query_value env v) | None \<Rightarrow> map_of (rev params) k)"

lemma request_metadata_param: "k \<noteq> [] \<Longrightarrow> map_of (request_metadata env r params) k = request_param env r params k"
  using fold_puts [where f = "\<lambda>v. v" and ps = params and m = "[]"]
  by (simp add: request_metadata_def request_param_def fold_puts split: option.splits)

text \<open>C11: from an HTTP request to a rule chain. A request \<open>POST /api/v1/msg/:chainId/:msgType\<close> starts one
  chain of the default pool with one message, whose data is the body of the request. The id of the chain and
  the type of the message are the query parameters \<open>chainId\<close> and \<open>msgType\<close> if the request has them, and only otherwise
  those of the path: \<open>/msg/rule01/T?chainId=rule02\<close> starts \<open>rule02\<close>. The metadata are all the parameters, by the
  same rule. The chain runs without the request waiting for it, and
  the answer is 200 in any case: for a chain that does not exist the message is lost. No parameter has a dollar sign
  in its name or value, which the substitution of \<open>${chainId}\<close> would read again, and no name a brace.\<close>

theorem post_msg_starts_chain:
  fixes env :: go_env and w :: http_writer and r :: HttpRequest and params :: "(string \<times> string) list"
  assumes "createPostMsgRouter env ops reg E now uuid = Inr router" "\<forall>(k, v) \<in> set (hr_Query r). v \<noteq> []"
    and "plain_dict [] (request_metadata env r params)" "request_param env r params ''chainId'' = Some c"
    and "hw_status w = None"
  defines "msg \<equiv> (request_msg env now uuid r params)
    \<lparr>MsgType := (case request_param env r params ''msgType'' of Some t \<Rightarrow> t | None \<Rightarrow> [])\<rparr>"
  shows "\<exists>ex. rest_handler env now uuid pools (rest_endpoint addr) router w r params =
      (ex, if Get (pools 0) c \<noteq> None then Some (StartChain 0 c msg False) else None) \<and>
    out_status ex = Some 200 \<and> Data msg = hr_Body r \<and>
    (\<forall>k. k \<noteq> [] \<longrightarrow> map_of (md_entries (MsgMetadata msg)) k = request_param env r params k)"
proof -
  from createPostMsgRouter_eq [of env ops reg E now uuid] assms(1) obtain f t where
    router: "router = \<lparr>rt_from = Some f, rt_RuleGo = 0, rt_Config = NewConfig [], rt_disable = False\<rparr>"
    and f: "fr_processList f = [post_transform now uuid, post_process]" "fr_to f = Some t" "to_executor t = Some ChainExecutor"
    "to_ToPath t = ''${chainId}''" "to_HasVars t" "\<not> to_wait t" "to_processList t = []" by auto
  let ?e = "\<lparr>be_interceptors = [cors_interceptor]\<rparr>"
  have msg: "msg = (request_msg env now uuid r params)\<lparr>MsgType := GetValue (Some (request_metadata env r params)) ''msgType''\<rparr>"
    by (simp add: msg_def GetValue_def md_entries_def request_metadata_param)
  from cors_exchange [of env now uuid w r params] obtain w' where
    w': "run_processes [cors_interceptor] (request_exchange env now uuid w r params) = (True, request_exchange env now uuid w' r params)"
    "hw_status w' = None" using assms(5) by auto
  from post_processes [of now uuid env w' r params] obtain ex1 where
    ex1: "run_processes [post_transform now uuid, post_process] (request_exchange env now uuid w' r params) = (True, ex1)"
      "mo_GetMsg (rest_ops now uuid) (ex_In ex1) = (Some msg, ex_In ex1)" "out_status ex1 = Some 200"
    using w'(2) unfolding msg by auto
  have run: "run_processes (be_interceptors ?e @ fr_processList f) (request_exchange env now uuid w r params) = (True, ex1)"
    unfolding BaseEndpoint.simps f(1) run_processes_append w' using ex1(1) by simp
  have md: "md_entries (MsgMetadata msg) = request_metadata env r params" by (simp add: msg_def request_md md_entries_def)
  have c: "ToStringByDict t (md_entries (MsgMetadata msg)) = c"
    using f chain_variable [OF assms(3)] assms(4) by (simp add: ToStringByDict_def md request_metadata_param)
  have "rt_from router = Some f" by (simp add: router)
  from router_reaches_chain [OF this f(2,3) run ex1(2), where pools = pools] c f(6,7)
  have "DoProcess (rest_ops now uuid) pools ?e router (request_exchange env now uuid w r params) =
      (ex1, if Get (pools 0) c \<noteq> None then Some (StartChain 0 c msg False) else None)" by (simp add: router)
  moreover have "\<not> IsDisable router" by (simp add: router IsDisable_def)
  ultimately have "rest_handler env now uuid pools (rest_endpoint addr) router w r params =
      (ex1, if Get (pools 0) c \<noteq> None then Some (StartChain 0 c msg False) else None)"
    using request_handled [of router r env now uuid pools _ w params] assms(2) by (metis rest_endpoint_base)
  moreover have "Data msg = hr_Body r" by (simp add: msg_def request_msg_def NewMsg_def newMsg_def)
  ultimately show ?thesis using ex1(3) md request_metadata_param by (intro exI [of _ ex1]) simp
qed

definition demo_post :: HttpRequest where
  "demo_post = \<lparr>hr_Method = ''POST'', hr_URL = ''/api/v1/msg/rule01/T?chainId=rule02'', hr_Path = ''/api/v1/msg/rule01/T'',
     hr_Header = [], hr_Body = ''21'', hr_Query = [(''chainId'', [''rule02''])], hr_PostForm = None, hr_Form = None\<rparr>"

theorem post_msg_starts_chain_witness:
  "\<exists>ex router. createPostMsgRouter flag_env demo_ops demo_reg \<lparr>eo_IsPathSupportVar = (\<lambda>_. True), eo_Init = (\<lambda>_ _ _. None)\<rparr> 1 ''u'' = Inr router \<and>
     rest_handler flag_env 1 ''u'' (\<lambda>_. [(''rule02'', demo_engine)]) (rest_endpoint '':9090'' :: (unit, rest_message, unit) Rest) router no_writer demo_post
       [(''chainId'', ''rule01''), (''msgType'', ''T'')] =
       (ex, Some (StartChain 0 ''rule02'' \<lparr>Ts = 1, MsgId = ''u'', DataType = TEXT, MsgType = ''T'', Data = ''21'',
          MsgMetadata = Some [(''chainId'', ''rule02''), (''msgType'', ''T'')]\<rparr> False)) \<and> out_status ex = Some 200"
proof -
  let ?E = "\<lparr>eo_IsPathSupportVar = (\<lambda>_. True), eo_Init = (\<lambda>_ _ _. None)\<rparr>" and ?ps = "[(''chainId'', ''rule01''), (''msgType'', ''T'')]"
  obtain router where r: "createPostMsgRouter flag_env demo_ops demo_reg ?E 1 ''u'' = Inr router"
    using createPostMsgRouter_eq [of flag_env demo_ops demo_reg ?E 1 "''u''"] by blast
  have md: "request_metadata flag_env demo_post ?ps = [(''chainId'', ''rule02''), (''msgType'', ''T'')]"
    by (simp add: request_metadata_def demo_post_def query_value_def)
  have ps: "request_param flag_env demo_post ?ps ''chainId'' = Some ''rule02''" "request_param flag_env demo_post ?ps ''msgType'' = Some ''T''"
    by (simp_all add: request_param_def demo_post_def query_value_def)
  have "\<forall>(k, v) \<in> set (hr_Query demo_post). v \<noteq> []" "plain_dict [] (request_metadata flag_env demo_post ?ps)" "hw_status no_writer = None"
    unfolding md by (simp_all add: demo_post_def plain_dict_def no_writer_def)
  from post_msg_starts_chain [OF r this(1,2) ps(1) this(3), of "\<lambda>_. [(''rule02'', demo_engine)]" "'':9090''"]
  obtain ex where "rest_handler flag_env 1 ''u'' (\<lambda>_. [(''rule02'', demo_engine)]) (rest_endpoint '':9090'' :: (unit, rest_message, unit) Rest) router no_writer demo_post ?ps =
       (ex, Some (StartChain 0 ''rule02'' \<lparr>Ts = 1, MsgId = ''u'', DataType = TEXT, MsgType = ''T'', Data = ''21'',
          MsgMetadata = Some [(''chainId'', ''rule02''), (''msgType'', ''T'')]\<rparr> False))"
     "out_status ex = Some 200"
    by (auto simp: Get_def request_msg_def NewMsg_def newMsg_def md ps) (simp add: demo_post_def)
  with r show ?thesis by blast
qed

section \<open>Definitions on disk\<close>

lemma glob_lits: "glob_run (map GLit t) s \<longleftrightarrow> s = t"
proof (induction t arbitrary: s)
  case (Cons c t)
  then show ?case by (cases s) auto
qed simp

lemma glob_star_lits: "CHR ''/'' \<notin> set p \<Longrightarrow> glob_run (GStar # map GLit t) (p @ t)"
proof (induction p)
  case Nil
  have "glob_run (map GLit t) t" by (simp add: glob_lits)
  then show ?case by (cases t) simp_all
qed auto

lemma Match_json: "CHR ''/'' \<notin> set c \<Longrightarrow> Match ''*.json'' (c @ ''.json'')"
proof -
  assume c: "CHR ''/'' \<notin> set c"
  have "glob_parse ''*.json'' = Some (GStar # map GLit ''.json'')" by code_simp
  with glob_star_lits [OF c, of "''.json''"] show ?thesis unfolding Match_def by simp
qed

lemma Clean_same:
  assumes "p \<noteq> []" "no_dotdot p"
  shows "Clean p \<noteq> []" "no_dotdot (Clean p)" "path_names (Clean p) = path_names p" "path_rooted (Clean p) = path_rooted p"
proof -
  have n: "\<forall>c \<in> set (path_names p). name_ok c"
    using assms(2) Split_pieces [of _ p "CHR ''/''"] by (auto simp: path_names_def no_dotdot_def name_ok_def)
  have "Clean p = (if path_rooted p then ''/'' else ''.'')" if "path_names p = []"
    using that assms unfolding Clean_def Let_def path_rooted_def [symmetric] no_dotdot_def path_names_def by (simp add: clean_names)
  then have "Clean p \<noteq> [] \<and> no_dotdot (Clean p) \<and> path_names (Clean p) = path_names p \<and> path_rooted (Clean p) = path_rooted p"
    using path_of_names [OF _ n, of "path_rooted p"] Clean_path [OF assms(2)]
    by (cases "path_names p = []") (auto simp: no_dotdot_def path_names_def path_rooted_def)
  then show "Clean p \<noteq> []" "no_dotdot (Clean p)" "path_names (Clean p) = path_names p" "path_rooted (Clean p) = path_rooted p" by auto
qed

lemma rule_file_Join:
  assumes "rules = d @ ''/''" "no_dotdot rules" "name_ok (chainId @ ''.json'')"
  shows "rule_file rules chainId = Join rules (chainId @ ''.json'')"
proof -
  have "path_Split rules = (rules, [])" by (simp add: path_Split_def assms(1) Let_def)
  then have "path_Dir rules = Clean rules" by (simp add: path_Dir_def)
  moreover have "rules \<noteq> []" by (simp add: assms(1))
  ultimately show ?thesis
    using Join_path [OF Clean_same(1,2) assms(3), of rules] Join_path [OF _ assms(2,3)] Clean_same(3,4) [of rules] assms(2)
    by (simp add: rule_file_def)
qed

lemma tree_ok_entries:
  "tree_ok (Dir es) \<longleftrightarrow> distinct (map fst es) \<and> (\<forall>x m. map_of es x = Some m \<longrightarrow> name_ok x \<and> tree_ok m)"
  by (cases "distinct (map fst es)") (auto simp: map_of_eq_Some_iff)

lemma dir_put_keys: "fst ` set (dir_put name n es) = insert name (fst ` set es)"
  by (induction name n es rule: dir_put.induct) auto

lemma distinct_dir_put: "distinct (map fst es) \<Longrightarrow> name \<notin> fst ` set es \<Longrightarrow> distinct (map fst (dir_put name n es))"
proof (induction name n es rule: dir_put.induct)
  case (2 name n name' n' es)
  then show ?case using dir_put_keys [of name n es] by (auto simp: image_iff)
qed simp

lemma tree_ok_put:
  assumes "tree_ok root" "\<forall>c \<in> set p. name_ok c" "tree_ok n"
  shows "tree_ok (fs_put root p n)"
  using assms
proof (induction root p n rule: fs_put.induct)
  case (3 es name names n)
  then show ?case
    by (auto simp: tree_ok_entries distinct_dir_put map_of_dir_put distinct_update map_of_eq_None_iff
        simp del: tree_ok.simps(2) split: option.splits)
qed auto

lemma load_pattern_slash:
  assumes "rules = d @ ''/''"
  shows "load_pattern rules = rules @ ''*.json''" "path_Split (rules @ ''*.json'') = (rules, ''*.json'')"
  by (simp_all add: load_pattern_def HasSuffix_def path_Split_def assms)

text \<open>A rules directory as the server has it after its start.\<close>

definition rules_ok :: "fsys \<Rightarrow> string \<Rightarrow> bool" where
  "rules_ok f rules \<longleftrightarrow> (\<exists>d. rules = d @ ''/'') \<and> no_dotdot rules \<and> cwd_ok f \<and> tree_ok (fs_root f) \<and>
     (\<exists>es. node_at f rules = Some (Dir es))"

definition disk_ok :: "(string \<Rightarrow> nat \<times> error option) \<Rightarrow> bool" where
  "disk_ok disk \<longleftrightarrow> (\<forall>d. snd (disk d) = None \<longrightarrow> length d \<le> fst (disk d))"

lemma saved_file_found:
  assumes "rules_ok f rules" "name_ok (chainId @ ''.json'')" "disk_ok disk"
    and "SaveFile disk (rule_file rules chainId) data f = (None, f')"
  shows "LoadFile f' (rule_file rules chainId) = Some data \<and> rules_ok f' rules \<and>
    (\<exists>paths. GetFilePaths f' (load_pattern rules) [] = Inr paths \<and> rule_file rules chainId \<in> set paths)"
proof -
  let ?n = "chainId @ ''.json''" and ?file = "rule_file rules chainId"
  from assms(1) obtain d es where r: "rules = d @ ''/''" "no_dotdot rules" and c: "cwd_ok f" and t: "tree_ok (fs_root f)"
    and n: "node_at f rules = Some (Dir es)" unfolding rules_ok_def by blast
  from n obtain q where q: "locate f rules = Some q" "fs_lookup (fs_root f) q = Some (Dir es)"
    by (auto simp: node_at_def split: option.splits)
  have q': "q = (if path_rooted rules then [] else fs_cwd f) @ path_names rules" by (rule locate_names [OF r(2) q(1)])
  have ok: "\<forall>x \<in> set (q @ [?n]). name_ok x" using tree_ok_lookup [OF t q(2)] assms(2) by auto
  have fl: "?file = path_of (path_rooted rules) (path_names rules @ [?n])"
    using rule_file_Join [OF r assms(2)] Join_path [OF _ r(2) assms(2)] r(1) by simp
  have nm: "\<forall>x \<in> set (path_names rules @ [?n]). name_ok x" using ok q' by auto
  note pn = path_of_names [OF _ nm, of "path_rooted rules"]
  from assms(4) obtain p k where p: "locate f ?file = Some p" and k: "disk data = (k, None)"
    and f': "f' = f\<lparr>fs_root := fs_put (fs_root f) p (File (take k data))\<rparr>" and nd: "fs_view (fs_root f) p \<noteq> Some None"
    by (auto simp: SaveFile_def view_not_dir split: option.splits if_splits prod.splits)
  have tk: "take k data = data" using assms(3) k unfolding disk_ok_def by (metis fst_conv snd_conv take_all)
  have pq: "p = q @ [?n]" using locate_names [OF _ p] pn fl q' by simp
  have v: "\<forall>x. fs_view (fs_root f') x = (if x = p then Some (Some data) else fs_view (fs_root f) x)"
    using view_put [OF pq, of "fs_root f" "File data"] q(2) nd by (simp add: f' tk fs_view_def)
  have l: "locate f' x = locate f x" for x using resolve_put [OF v nd] by (simp add: locate_def f')
  have "fs_view (fs_root f') q = Some None" using v q(2) by (simp add: pq fs_view_def)
  then obtain es' where es': "fs_lookup (fs_root f') q = Some (Dir es')" using view_dirD by blast
  have "fs_view (Dir es') [?n] = Some (Some data)" using v view_append [of "fs_root f'" q "[?n]"] es' by (simp add: pq)
  then have found: "fs_lookup (Dir es') [?n] = Some (File data)" by (rule view_fileD)
  have t': "tree_ok (fs_root f')" using tree_ok_put [OF t, of p "File data"] ok by (simp add: f' tk pq)
  have n': "node_at f' rules = Some (Dir es')" using q(1) es' l by (simp add: node_at_def)
  have sl: "load_pattern rules = rules @ ''*.json''" "path_Split (rules @ ''*.json'') = (rules, ''*.json'')"
    using load_pattern_slash [OF r(1)] by simp_all
  have "CHR ''/'' \<notin> set chainId" using assms(2) by (simp add: name_ok_def)
  note m = Match_json [OF this]
  have paths: "\<exists>paths. GetFilePaths f' (load_pattern rules) [] = Inr paths \<and> ?file \<in> set paths"
  proof -
    from GetFilePaths_exact [OF t' sl(2), of "[]"] n' obtain paths where g: "GetFilePaths f' (rules @ ''*.json'') [] = Inr paths"
      "set paths = {foldl Join rules rel |rel. (\<exists>c. fs_lookup (Dir es') rel = Some (File c)) \<and> Match ''*.json'' (last (Base rules # rel)) \<and>
         (\<forall>x \<in> set (Base rules # rel). \<not> isMatch x [])}" by auto
    have "?file = foldl Join rules [?n]" using rule_file_Join [OF r assms(2)] by simp
    moreover have "Match ''*.json'' (last (Base rules # [?n]))" using m by simp
    moreover have "\<forall>x \<in> set (Base rules # [?n]). \<not> isMatch x []" by (simp add: isMatch_def)
    ultimately have "?file \<in> set paths" unfolding g(2) using found by blast
    with g(1) sl(1) show ?thesis by simp
  qed
  have s: "LoadFile f' ?file = Some data \<and> cwd_ok f'"
    using save_then_load [OF c _ assms(4)] assms(3) by (simp add: disk_ok_def)
  then have "rules_ok f' rules" using r t' n' by (auto simp: rules_ok_def)
  with s paths show ?thesis by simp
qed

text \<open>The body that a request on the route for definitions brings, and the state before the processor.\<close>

lemma route_ids_request:
  "route_ids now uuid (request_exchange env now uuid w r params) =
     (Some (GetValue (Some (request_metadata env r params)) ''chainId'', GetValue (Some (request_metadata env r params)) ''nodeId''),
      request_exchange env now uuid w r params)"
  by (simp add: route_ids_def in_msg_def request_exchange_def rest_ops_def rest_GetMsg_def request_md)

lemma in_body_request: "in_body (request_exchange env now uuid w r params) = (hr_Body r, request_exchange env now uuid w r params)"
  by (simp add: in_body_def request_exchange_def rest_Body_def)

lemma status_request:
  "hw_status w = None \<Longrightarrow> out_status (out_upd (rest_out_SetStatusCode c) (request_exchange env now uuid w r params)) = Some c"
  by (simp add: out_status_def out_upd_def request_exchange_def rest_out_SetStatusCode_def WriteHeader_def)

text \<open>The whole request: the exchange with the answer and the globals it leaves.\<close>

definition save_request ::
  "('n, 'w) server_env \<Rightarrow> int \<Rightarrow> string \<Rightarrow> ('n, 'w) server \<Rightarrow> http_writer \<Rightarrow> HttpRequest \<Rightarrow> (string \<times> string) list
     \<Rightarrow> rest_message Exchange \<times> ('n, 'w) server" where
  "save_request X now uuid s w r params =
     (case saveDsl_process X now uuid s (snd (run_processes [cors_interceptor] (request_exchange (se_go X) now uuid w r params))) of
        ((ok, ex), s') \<Rightarrow> (ex, s'))"

lemma save_request_handler:
  assumes "\<forall>(k, v) \<in> set (hr_Query r). v \<noteq> []"
  shows "rest_handler (se_go X) now uuid pools (rest_endpoint addr) (createSaveDslRouter X now uuid s) w r params =
    (fst (save_request X now uuid s w r params), None)"
proof -
  let ?r = "createSaveDslRouter X now uuid s"
  obtain f where f: "rt_from ?r = Some f" "fr_processList f = [\<lambda>ex. fst (saveDsl_process X now uuid s ex)]" "fr_to f = None"
    by (auto simp: createSaveDslRouter_def process_router_def Router_From_def NewRouter_def From_Process_def)
  have "\<not> IsDisable ?r"
    by (simp add: createSaveDslRouter_def process_router_def Router_From_def NewRouter_def IsDisable_def)
  from request_handled [OF this assms, of "se_go X" now uuid pools "rest_endpoint addr" w params]
  show ?thesis
    using f cors_exchange [of "se_go X" now uuid w r params]
    by (auto simp: DoProcess_def ExecuteProcess_def save_request_def split: prod.splits bool.splits if_splits)
qed

lemma apply_dsl_keeps [simp]:
  assumes "apply_dsl X chainId nodeId body s = (err, s')"
  shows "sv_fs s' = sv_fs s" "sv_rules s' = sv_rules s"
  using assms by (auto simp: apply_dsl_def split: option.splits prod.splits if_splits)

lemma save_request_cases:
  fixes X :: "('n, 'w) server_env"
  assumes "GetValue (Some (request_metadata (se_go X) r params)) ''chainId'' = chainId" "chainId \<noteq> []"
    and "apply_dsl X chainId (GetValue (Some (request_metadata (se_go X) r params)) ''nodeId'') (hr_Body r) s = (err, s1)"
    and "\<nexists>p. err = Some (Panic p)" "save_file X chainId (hr_Body r) s1 = (ferr, s2)" "hw_status w = None"
  shows "\<exists>ex s3. save_request X now uuid s w r params = (ex, s3) \<and> out_status ex = Some (if ferr = None then 200 else 500) \<and>
    s3 = (case ferr of None \<Rightarrow> s2 | Some e \<Rightarrow> s2\<lparr>sv_log := sv_log s2 @ [TextLine e]\<rparr>)"
proof -
  from cors_exchange [of "se_go X" now uuid w r params] assms(6) obtain w' where
    w': "run_processes [cors_interceptor] (request_exchange (se_go X) now uuid w r params) =
        (True, request_exchange (se_go X) now uuid w' r params)" "hw_status w' = None" by auto
  have "saveDsl_process X now uuid s (request_exchange (se_go X) now uuid w' r params) =
      (case answer_saved ferr s2 (request_exchange (se_go X) now uuid w' r params) of (ex, s) \<Rightarrow> ((True, ex), s))"
    using assms(2-5) unfolding saveDsl_process_def route_ids_request assms(1) saveDsl_def
    by (cases err; cases "the err") (auto simp: in_body_request)
  with w' status_request [OF w'(2)] show ?thesis
    by (cases ferr) (simp_all add: save_request_def answer_saved_def)
qed

lemma save_request_200:
  fixes X :: "('n, 'w) server_env"
  assumes "GetValue (Some (request_metadata (se_go X) r params)) ''chainId'' = chainId" "chainId \<noteq> []"
    and "save_request X now uuid s w r params = (ex, s')" "out_status ex = Some 200" "hw_status w = None"
  shows "SaveFile (se_disk X) (rule_file (sv_rules s) chainId)
     (case fst (Format (se_Indent X) (hr_Body r)) of Some x \<Rightarrow> x | None \<Rightarrow> []) (sv_fs s) = (None, sv_fs s')"
proof -
  let ?nodeId = "GetValue (Some (request_metadata (se_go X) r params)) ''nodeId''"
  obtain err s1 where ap: "apply_dsl X chainId ?nodeId (hr_Body r) s = (err, s1)" by force
  obtain ferr s2 where sf: "save_file X chainId (hr_Body r) s1 = (ferr, s2)" by force
  have np: "\<nexists>p. err = Some (Panic p)"
  proof
    assume "\<exists>p. err = Some (Panic p)"
    then obtain p where p: "err = Some (Panic p)" by blast
    from cors_exchange [of "se_go X" now uuid w r params] obtain w' where
      w': "run_processes [cors_interceptor] (request_exchange (se_go X) now uuid w r params) =
          (True, request_exchange (se_go X) now uuid w' r params)" "hw_status w' = hw_status w" by auto
    then have "ex = request_exchange (se_go X) now uuid w' r params"
      using assms(1-3) ap p by (simp add: save_request_def saveDsl_process_def route_ids_request saveDsl_def in_body_request)
    with assms(4,5) w'(2) show False by (simp add: out_status_def request_exchange_def)
  qed
  from save_request_cases [OF assms(1,2) ap np sf assms(5), of now uuid] assms(3,4)
  have "ferr = None" "s' = s2" by (auto split: if_splits)
  with sf apply_dsl_keeps [OF ap] show ?thesis by (auto simp: save_file_def Let_def split: prod.splits)
qed

text \<open>C10: what is saved is what the next start loads. A request \<open>POST /api/v1/rule/:chainId\<close> that is
  answered with 200 leaves the definition, formatted, in a file of the rules directory that a search
  with the pattern of the start finds and that loads back unchanged; other files are as they were. The
  directory is given with its final slash, and the id is a file name.\<close>

theorem saved_chain_is_loaded:
  fixes X :: "('n, 'w) server_env"
  assumes "rules_ok (sv_fs s) (sv_rules s)" "disk_ok (se_disk X)" "name_ok (chainId @ ''.json'')" "chainId \<noteq> []"
    and "GetValue (Some (request_metadata (se_go X) r params)) ''chainId'' = chainId" "se_Indent X (hr_Body r) = Inr v"
    and "save_request X now uuid s w r params = (ex, s')" "out_status ex = Some 200" "hw_status w = None"
  defines "path \<equiv> rule_file (sv_rules s) chainId"
  shows "LoadFile (sv_fs s') path = Some v \<and> rules_ok (sv_fs s') (sv_rules s) \<and>
    (\<exists>paths. GetFilePaths (sv_fs s') (load_pattern (sv_rules s)) [] = Inr paths \<and> path \<in> set paths) \<and>
    (\<forall>other. locate (sv_fs s) other \<noteq> locate (sv_fs s) path \<longrightarrow> LoadFile (sv_fs s') other = LoadFile (sv_fs s) other)"
proof -
  have f: "SaveFile (se_disk X) path v (sv_fs s) = (None, sv_fs s')"
    using save_request_200 [OF assms(5,4,7-9)] assms(6) by (simp add: Format_def path_def)
  from saved_file_found [OF assms(1,3,2) f [unfolded path_def]]
    save_then_load [OF _ _ f] assms(1,2) show ?thesis
    by (simp add: path_def rules_ok_def disk_ok_def)
qed

text \<open>One definition that is empty makes loading fail, wherever it is in the list of files.\<close>

lemma New_no_empty_key:
  assumes "Get g [] = None" "New ld self [] b opts g w = (r, g', w')"
  shows "Get g' [] = None"
  using assms by (auto simp: New_def Get_def Store_def Let_def split: prod.splits option.splits if_splits)

lemma load_files_empty:
  assumes "Get g [] = None" "f \<in> set paths" "readf f = Some []"
  shows "fst (load_files ld self readf opts paths g w) \<noteq> None"
  using assms
proof (induction paths arbitrary: g w)
  case (Cons p paths)
  show ?case
  proof (cases "readf p")
    case None
    with Cons show ?thesis by auto
  next
    case (Some b)
    show ?thesis
    proof (cases "b = []")
      case True
      with Some Cons.prems(1) show ?thesis by (simp add: New_def newRuleEngine_def)
    next
      case False
      obtain r g1 w1 where n: "New (ld g) self [] b opts g w = (r, g1, w1)" by (metis prod_cases3)
      show ?thesis
      proof (cases r)
        case (Inl e)
        with n Some show ?thesis by simp
      next
        case (Inr v)
        have "f \<in> set paths" using Cons.prems(2,3) Some False by auto
        with Cons.IH [OF New_no_empty_key [OF Cons.prems(1) n] _ Cons.prems(3)] n Inr Some show ?thesis by simp
      qed
    qed
  qed
qed simp

text \<open>A codec that refuses what is not JSON, as \<open>json.Unmarshal\<close> does with what \<open>json.Indent\<close> refuses; then the engine refuses
  the body as well, by an error and without a panic.\<close>

definition codec_refuses :: "codec \<Rightarrow> string \<Rightarrow> bool" where
  "codec_refuses cd body \<longleftrightarrow> (\<exists>e. cd_unmarshal_chain cd body = Inl e) \<and> (\<exists>e. cd_unmarshal_node cd body = Inl e)"

lemma codec_refuses_reload:
  assumes "codec_refuses (ld_codec ld) body"
  shows "\<nexists>p. fst (ReloadSelf ld body opts e w) = Some (Panic p)" "\<nexists>p. fst (ReloadChild ld nid body e w) = Some (Panic p)"
proof -
  show s: "\<nexists>p. fst (ReloadSelf ld body opts e w) = Some (Panic p)" for opts e w
    using assms by (auto simp: codec_refuses_def ReloadSelf_def Let_def Chain_ReloadSelf_def ld_decode_def DecodeRuleChain_def
        ParserRuleChain_def split: option.splits prod.splits)
  show "\<nexists>p. fst (ReloadChild ld nid body e w) = Some (Panic p)"
    using s [of "[]" e w] by (auto simp: ReloadChild_def split: option.splits prod.splits if_splits)
qed

lemma codec_refuses_apply:
  assumes "codec_refuses (ld_codec (sv_loader X s)) body" "apply_dsl X chainId nodeId body s = (err, s1)"
  shows "\<nexists>p. err = Some (Panic p)"
proof -
  let ?ld = "sv_loader X s"
  have "err = fst (if nodeId = [] then ReloadSelf ?ld body [] e (sv_world s) else ReloadChild ?ld nodeId body e (sv_world s))"
    if "Get (sv_pool s) chainId = Some e" for e
    using that assms(2) by (auto simp: apply_dsl_def split: prod.splits if_splits)
  moreover have "err = (case fst (New ?ld DefaultRuleGo chainId body [WithConfig (sv_config s)] (sv_pool s) (sv_world s)) of
      Inl x \<Rightarrow> Some x | Inr _ \<Rightarrow> None)" if "Get (sv_pool s) chainId = None"
    using that assms(2) by (auto simp: apply_dsl_def split: prod.splits)
  moreover have no: "ReloadSelf ?ld body opts e w \<noteq> (Some (Panic p), e', w')" for opts e w p e' w'
    using codec_refuses_reload(1) [OF assms(1), of opts e w] by auto
  moreover have "fst (New ?ld DefaultRuleGo chainId body opts g w) \<noteq> Inl (Panic p)" for opts g w p
    by (auto simp: no New_def newRuleEngine_def Let_def split: option.splits prod.splits if_splits)
  ultimately show ?thesis
    using codec_refuses_reload [OF assms(1)] by (cases "Get (sv_pool s) chainId") (auto split: sum.splits if_splits)
qed

text \<open>C13: a body that is not JSON takes the server down at its next start. Let the disk take an empty file under the
  name of the chain. \<open>json.Format\<close> returns nil for the body,
  and its error is dropped: the file of the chain is emptied, the request is answered with 200, and from
  then on loading the rules of the directory ends with an error, at which the server stops.\<close>

theorem bad_body_prevents_restart:
  fixes X :: "('n, 'w) server_env"
  assumes "rules_ok (sv_fs s) (sv_rules s)" "disk_ok (se_disk X)" "name_ok (chainId @ ''.json'')" "chainId \<noteq> []"
    and "GetValue (Some (request_metadata (se_go X) r params)) ''chainId'' = chainId"
    and "se_Indent X (hr_Body r) = Inl e" "codec_refuses (ld_codec (sv_loader X s)) (hr_Body r)"
    and "fst (SaveFile (se_disk X) (rule_file (sv_rules s) chainId) [] (sv_fs s)) = None" "hw_status w = None"
  shows "\<exists>ex s'. save_request X now uuid s w r params = (ex, s') \<and> out_status ex = Some 200 \<and>
    LoadFile (sv_fs s') (rule_file (sv_rules s) chainId) = Some [] \<and>
    (\<forall>n. sv_fs n = sv_fs s' \<and> sv_rules n = sv_rules s \<and> sv_pool n = [] \<longrightarrow> fst (loadRules X (sv_rules n) n) \<noteq> None)"
proof -
  let ?file = "rule_file (sv_rules s) chainId"
  obtain err s1 where ap: "apply_dsl X chainId (GetValue (Some (request_metadata (se_go X) r params)) ''nodeId'') (hr_Body r) s = (err, s1)"
    by force
  obtain f' where f: "SaveFile (se_disk X) ?file [] (sv_fs s) = (None, f')" using assms(8) by (metis prod.collapse)
  have sf: "save_file X chainId (hr_Body r) s1 = (None, s1\<lparr>sv_fs := f'\<rparr>)"
    using f apply_dsl_keeps [OF ap] assms(6) by (simp add: save_file_def Format_def)
  from save_request_cases [OF assms(5,4) ap codec_refuses_apply [OF assms(7) ap] sf assms(9), of now uuid] obtain ex where
    ex: "save_request X now uuid s w r params = (ex, s1\<lparr>sv_fs := f'\<rparr>)" "out_status ex = Some 200" by auto
  from saved_file_found [OF assms(1,3,2) f] obtain paths where
    l: "LoadFile f' ?file = Some []" and r: "rules_ok f' (sv_rules s)"
    and p: "GetFilePaths f' (load_pattern (sv_rules s)) [] = Inr paths" "?file \<in> set paths" by blast
  have "fst (loadRules X (sv_rules n) n) \<noteq> None" if n: "sv_fs n = f'" "sv_rules n = sv_rules s" "sv_pool n = []" for n
  proof -
    have "sv_CreateDirs (sv_rules n) n = n"
      using r n by (auto simp: sv_CreateDirs_def CreateDirs_def IsExist_def rules_ok_def)
    with l p n load_files_empty [of "[]" ?file paths "LoadFile f'"] show ?thesis
      by (simp add: loadRules_def Load_def Get_def case_prod_beta)
  qed
  with ex l show ?thesis by (intro exI [of _ ex] exI [of _ "s1\<lparr>sv_fs := f'\<rparr>"]) simp
qed

definition demo_senv :: "bool \<Rightarrow> (Configuration, unit) server_env" where
  "demo_senv valid = \<lparr>se_loader = (\<lambda>_ _. demo_loader), se_disk = demo_disk, se_Indent = (\<lambda>b. if valid then Inr (b @ ''.'') else Inl ''bad''),
     se_go = flag_env, se_plugin = (\<lambda>_. Inl ''none''), se_describe = (\<lambda>_. cmp_New ChainNode_component),
     se_sortDebug = insertion_sort newer, se_sortForms = insertion_sort form_less, se_LoadLuaLibs = ''lua''\<rparr>"

definition demo_server :: "(Configuration, unit) server" where
  "demo_server = \<lparr>sv_rules = ''./rules/'', sv_js = ''./js/'', sv_plugins = ''./plugins/'', sv_debugToLog = False, sv_fs = demo_fs,
     sv_pool = [], sv_reg = demo_reg, sv_debug = NewRuleChainDebugData 40, sv_config = types_NewConfig [], sv_world = (), sv_log = []\<rparr>"

definition demo_save :: HttpRequest where
  "demo_save = \<lparr>hr_Method = ''POST'', hr_URL = ''/api/v1/rule/c'', hr_Path = ''/api/v1/rule/c'', hr_Header = [], hr_Body = ''junk'',
     hr_Query = [], hr_PostForm = None, hr_Form = None\<rparr>"

lemma demo_server_ok:
  "rules_ok (sv_fs demo_server) (sv_rules demo_server)" "disk_ok (se_disk (demo_senv b))" "name_ok (''c'' @ ''.json'')"
  "GetValue (Some (request_metadata (se_go (demo_senv b)) demo_save [(''chainId'', ''c'')])) ''chainId'' = ''c''"
  "GetValue (Some (request_metadata (se_go (demo_senv b)) demo_save [(''chainId'', ''c'')])) ''nodeId'' = []"
proof -
  have "node_at demo_fs ''./rules/'' = Some (Dir [(''a.json'', File ''A''), (''old'', Dir [(''b.json'', File ''B'')]), (''x.txt'', File ''X'')])"
    by code_simp
  moreover have "\<exists>d. ''./rules/'' = d @ ''/''" by (rule exI [of _ "''./rules''"]) simp
  moreover have "cwd_ok demo_fs" by (simp add: cwd_ok_def demo_fs_def)
  ultimately show "rules_ok (sv_fs demo_server) (sv_rules demo_server)"
    using demo_search(4,5) by (simp add: rules_ok_def demo_server_def)
  show "disk_ok (se_disk (demo_senv b))" by (simp add: disk_ok_def demo_senv_def demo_disk_def)
  show "name_ok (''c'' @ ''.json'')" by (simp add: name_ok_def)
  show "GetValue (Some (request_metadata (se_go (demo_senv b)) demo_save [(''chainId'', ''c'')])) ''chainId'' = ''c''"
    "GetValue (Some (request_metadata (se_go (demo_senv b)) demo_save [(''chainId'', ''c'')])) ''nodeId'' = []"
    by (simp_all add: GetValue_def md_entries_def request_metadata_def demo_save_def)
qed

lemma demo_saved:
  "\<exists>ex s'. save_request (demo_senv b) 1 ''u'' demo_server no_writer demo_save [(''chainId'', ''c'')] = (ex, s') \<and>
     out_status ex = Some 200"
proof -
  have ap: "apply_dsl (demo_senv b) ''c'' [] (hr_Body demo_save) demo_server =
      (Some (Err ''bad JSON''), demo_server\<lparr>sv_pool := [], sv_world := ()\<rparr>)"
    by (simp add: apply_dsl_def demo_server_def demo_senv_def sv_loader_def Get_def New_def newRuleEngine_def ReloadSelf_def ld_decode_def
        DecodeRuleChain_def ParserRuleChain_def demo_loader_def demo_codec_def GetChainAspects_def demo_save_def WithConfig_def Let_def)
  have "locate demo_fs (rule_file ''./rules/'' ''c'') = Some [''home'', ''rules'', ''c.json'']"
    "fs_lookup (fs_root demo_fs) [''home'', ''rules'', ''c.json''] = None" by code_simp+
  then have "\<exists>s2. save_file (demo_senv b) ''c'' (hr_Body demo_save) (demo_server\<lparr>sv_pool := [], sv_world := ()\<rparr>) = (None, s2)"
    by (simp add: save_file_def demo_server_def SaveFile_def demo_senv_def demo_disk_def Let_def)
  then obtain s2 where sf: "save_file (demo_senv b) ''c'' (hr_Body demo_save) (demo_server\<lparr>sv_pool := [], sv_world := ()\<rparr>) = (None, s2)" ..
  have "hw_status no_writer = None" by (simp add: no_writer_def)
  from save_request_cases [OF demo_server_ok(4) _ _ _ sf this, where s = demo_server and err = "Some (Err ''bad JSON'')" and now = 1 and uuid = "''u''"] ap
  show ?thesis unfolding demo_server_ok(5) by auto
qed

theorem saved_chain_is_loaded_witness:
  "\<exists>ex s' paths. save_request (demo_senv True) 1 ''u'' demo_server no_writer demo_save [(''chainId'', ''c'')] = (ex, s') \<and>
     GetFilePaths (sv_fs s') (load_pattern ''./rules/'') [] = Inr paths \<and> rule_file ''./rules/'' ''c'' \<in> set paths"
proof -
  from demo_saved [of True] obtain ex s' where
    r: "save_request (demo_senv True) 1 ''u'' demo_server no_writer demo_save [(''chainId'', ''c'')] = (ex, s')" "out_status ex = Some 200" by blast
  have "se_Indent (demo_senv True) (hr_Body demo_save) = Inr ''junk.''" "hw_status no_writer = None" "''c'' \<noteq> []"
    by (simp_all add: demo_senv_def demo_save_def no_writer_def)
  from saved_chain_is_loaded [OF demo_server_ok(1-3) this(3) demo_server_ok(4) this(1) r this(2)] r(1)
  show ?thesis by (auto simp: demo_server_def)
qed

theorem bad_body_prevents_restart_witness:
  "\<exists>ex s'. save_request (demo_senv False) 1 ''u'' demo_server no_writer demo_save [(''chainId'', ''c'')] = (ex, s') \<and>
     out_status ex = Some 200 \<and> fst (loadRules (demo_senv False) ''./rules/'' (demo_server\<lparr>sv_fs := sv_fs s'\<rparr>)) \<noteq> None"
proof -
  have s: "locate demo_fs (rule_file ''./rules/'' ''c'') = Some [''home'', ''rules'', ''c.json'']"
    "fs_lookup (fs_root demo_fs) [''home'', ''rules'', ''c.json''] = None" by code_simp+
  have "se_Indent (demo_senv False) (hr_Body demo_save) = Inl ''bad''" "hw_status no_writer = None" "''c'' \<noteq> []"
    "codec_refuses (ld_codec (sv_loader (demo_senv False) demo_server)) (hr_Body demo_save)"
    by (simp_all add: demo_senv_def demo_save_def no_writer_def codec_refuses_def sv_loader_def demo_loader_def demo_codec_def)
  moreover from s have "fst (SaveFile (se_disk (demo_senv False)) (rule_file (sv_rules demo_server) ''c'') [] (sv_fs demo_server)) = None"
    by (simp add: SaveFile_def demo_senv_def demo_server_def demo_disk_def)
  ultimately obtain ex s' where
    "save_request (demo_senv False) 1 ''u'' demo_server no_writer demo_save [(''chainId'', ''c'')] = (ex, s')" "out_status ex = Some 200"
    "\<forall>n. sv_fs n = sv_fs s' \<and> sv_rules n = sv_rules demo_server \<and> sv_pool n = [] \<longrightarrow> fst (loadRules (demo_senv False) (sv_rules n) n) \<noteq> None"
    using bad_body_prevents_restart [OF demo_server_ok(1-3) _ demo_server_ok(4), of False "''bad''" no_writer 1 "''u''"] by blast
  then show ?thesis by (auto simp: demo_server_def)
qed

text \<open>the error of reloading or creating the chain is overwritten by the result of writing the file:
  a definition that the engine refuses is stored all the same and answered with 200.\<close>

theorem save_hides_reload_error:
  fixes X :: "('n, 'w) server_env"
  assumes "GetValue (Some (request_metadata (se_go X) r params)) ''chainId'' = chainId" "chainId \<noteq> []"
    and "apply_dsl X chainId (GetValue (Some (request_metadata (se_go X) r params)) ''nodeId'') (hr_Body r) s = (Some (Err e), s1)"
    and "save_file X chainId (hr_Body r) s1 = (None, s2)" "hw_status w = None"
  shows "\<exists>ex. save_request X now uuid s w r params = (ex, s2) \<and> out_status ex = Some 200"
  using save_request_cases [OF assms(1-3) _ assms(4,5), of now uuid] by auto

text \<open>a rules directory without its final slash is read from but not written to: the files go to
  its parent.\<close>

theorem rules_without_slash:
  assumes "name_ok n" "name_ok (chainId @ ''.json'')"
    and "\<not> HasSuffix (''./'' @ n) ''*.json''" "\<not> HasSuffix (''./'' @ n) ''*.JSON''" "\<not> HasSuffix (''./'' @ n) [CHR 0x5C]"
  shows "rule_file (''./'' @ n) chainId = chainId @ ''.json'' \<and> load_pattern (''./'' @ n) = ''./'' @ n @ ''/*.json''"
proof -
  have "CHR ''/'' \<notin> set (rev n)" using assms(1) by (simp add: name_ok_def)
  then have "takeWhile (\<lambda>c. c \<noteq> CHR ''/'') (rev n @ ''/.'') = rev n" by (subst takeWhile_append2) auto
  then have "path_Split (''./'' @ n) = (''./'', n)" by (simp add: path_Split_def)
  moreover have "Clean ''./'' = ''.''" by code_simp
  ultimately have d: "path_Dir (''./'' @ n) = ''.''" by (simp add: path_Dir_def)
  have "no_dotdot ''.''" "path_names ''.'' = []" "path_rooted ''.'' = False"
    by (simp_all add: no_dotdot_def path_names_def path_rooted_def)
  with Join_path [of "''.''" "chainId @ ''.json''"] assms(2) have "Join ''.'' (chainId @ ''.json'') = chainId @ ''.json''"
    by (simp add: path_of_def)
  with d have f: "rule_file (''./'' @ n) chainId = chainId @ ''.json''" by (simp add: rule_file_def)
  have "\<not> HasSuffix (''./'' @ n) ''/''" using assms(1) by (cases n rule: rev_cases) (auto simp: HasSuffix_def name_ok_def)
  with f assms(3-5) show ?thesis by (simp add: load_pattern_def)
qed

text \<open>the id of the chain is also taken from the query, before the path: a request can name a file
  outside the rules directory.\<close>

lemma Join_up:
  assumes "name_ok (c @ ''.json'')"
  shows "rule_file ''./rules/'' (''../'' @ c) = c @ ''.json''"
proof -
  have "path_Dir ''./rules/'' = ''rules''" by code_simp
  moreover have "Split (''rules/../'' @ c @ ''.json'') CHR ''/'' = [''rules'', ''..'', c @ ''.json'']"
    using Split_append [of "''rules/..''" "CHR ''/''" "c @ ''.json''"] name_ok_Split [OF assms] by simp
  ultimately show ?thesis using assms
    by (simp add: rule_file_def Join_def Clean_def clean_step_def name_ok_def)
qed

theorem query_chooses_file:
  assumes "map_of (rev (hr_Query r)) ''chainId'' = Some [''../'' @ c]" "name_ok (c @ ''.json'')"
  shows "fst (route_ids now uuid (request_exchange env now uuid w r params)) =
      Some (''../'' @ c, GetValue (Some (request_metadata env r params)) ''nodeId'') \<and>
    rule_file ''./rules/'' (''../'' @ c) = c @ ''.json''"
proof -
  have "map_of (request_metadata env r params) ''chainId'' = Some (''../'' @ c)"
    using assms(1) fold_puts [where k = "''chainId''" and f = "query_value env" and ps = "hr_Query r"]
    by (simp add: request_metadata_def query_value_def)
  then show ?thesis using Join_up [OF assms(2)] by (simp add: route_ids_request GetValue_def md_entries_def)
qed

section \<open>Debug data of a run\<close>

text \<open>The callbacks of a run, in the order of its trace; \<open>clock\<close> is the time at each.\<close>

fun record_events :: "(nat \<Rightarrow> int) \<Rightarrow> nat \<Rightarrow> event list \<Rightarrow> ('n, 'w) server \<Rightarrow> error + ('n, 'w) server" where
  "record_events clock k [] s = Inr s"
| "record_events clock k (EvDebug chainId flowType nodeId msg relationType err # tr) s =
     (case server_OnDebug (clock k) chainId flowType nodeId msg relationType err s of
        Inl p \<Rightarrow> Inl p
      | Inr s \<Rightarrow> record_events clock (Suc k) tr s)"
| "record_events clock k (_ # tr) s = record_events clock k tr s"

fun debug_entries :: "(nat \<Rightarrow> int) \<Rightarrow> nat \<Rightarrow> event list \<Rightarrow> (string \<times> string, DebugData, string) log_op list" where
  "debug_entries clock k [] = []"
| "debug_entries clock k (EvDebug chainId flowType nodeId msg relationType err # tr) =
     LogAdd (chainId, nodeId) \<lparr>dd_Ts = clock k, dd_NodeId = nodeId, dd_FlowType = flowType, dd_Msg = msg,
       dd_RelationType = relationType, dd_Err = (case err of Some e \<Rightarrow> e | None \<Rightarrow> [])\<rparr> # debug_entries clock (Suc k) tr"
| "debug_entries clock k (_ # tr) = debug_entries clock k tr"

lemma record_events_run:
  "map_sum (\<lambda>e. e) sv_debug (record_events clock k tr s) = debug_run (debug_entries clock k tr) (sv_debug s)"
  by (induction clock k tr s rule: record_events.induct)
     (auto simp: server_OnDebug_def Let_def split: sum.splits option.splits)

text \<open>the server keeps, for every node of every chain, the latest 40 calls of the debug callback, in
  the order of the run, with their time, direction, message, relation and error, and none of them panics.\<close>

theorem server_keeps_debug_data:
  "\<exists>s'. record_events clock k tr (s\<lparr>sv_debug := NewRuleChainDebugData 40\<rparr>) = Inr s' \<and>
     (\<forall>chainId nodeId. queue_items (RuleChainDebugData_Get (sv_debug s') chainId nodeId) =
        keep_last 40 (recorded fst (chainId, nodeId) (debug_entries clock k tr) []))"
proof -
  let ?s = "s\<lparr>sv_debug := NewRuleChainDebugData 40\<rparr>"
  from debug_store_latest [of "debug_entries clock k tr" 40] obtain d where
    d: "debug_run (debug_entries clock k tr) (NewRuleChainDebugData 40) = Inr d"
      "\<forall>c n. queue_items (RuleChainDebugData_Get d c n) = keep_last 40 (recorded fst (c, n) (debug_entries clock k tr) [])"
    by (auto simp: debug_size_def)
  with record_events_run [of clock k tr ?s] show ?thesis by (cases "record_events clock k tr ?s") auto
qed

text \<open>the handler of preflight requests looks for the allowed methods in the request, where they are
  not: it answers with an empty list.\<close>

theorem preflight_allows_nothing:
  assumes "Header_Get (hr_Header r) ''Access-Control-Request-Method'' \<noteq> []" "map_of (hr_Header r) ''Allow'' = None"
  shows "Header_Get (hw_header (global_OPTIONS w r)) ''Access-Control-Allow-Methods'' = []"
proof -
  have "CanonicalMIMEHeaderKey ''Allow'' = ''Allow''" "CanonicalMIMEHeaderKey ''Access-Control-Allow-Methods'' = ''Access-Control-Allow-Methods''"
    "CanonicalMIMEHeaderKey ''Access-Control-Allow-Origin'' = ''Access-Control-Allow-Origin''"
    "CanonicalMIMEHeaderKey ''Access-Control-Allow-Headers'' = ''Access-Control-Allow-Headers''" by code_simp+
  with assms show ?thesis by (simp add: global_OPTIONS_def Let_def Header_Set_def WriteHeader_def Header_Get_def)
qed

end
