(* ===== verification/Messages.thy ===== *)
theory Messages
  imports RestEndpoint WsEndpoint NetEndpoint ScheduleEndpoint MqttEndpoint
begin

text \<open>
  The \<open>Message\<close> interface of \<open>endpoint/endpoint.go\<close> and its ten implementations: the request and the
  response of each endpoint. Every method of the interface that the theories of the endpoints do not
  need themselves is defined here. The contract, what a reader sees after any sequence of calls, is
  a locale over an abstract message of three cells, body, rule message and error; every
  implementation is an interpretation of it.

  Headers have one value for each key. A message, a body and an error that is set is not nil: after
  \<open>SetBody(nil)\<close> the body of an HTTP request is read again, and that of an MQTT request is the payload again.
  Nor does the contract cover \<open>GetParam\<close>, which reads the body of a form.
\<close>

section \<open>The interface\<close>

record 'm Message =
  im_Body :: "'m \<Rightarrow> string \<times> 'm"
  im_Headers :: "'m \<Rightarrow> (string, string) gomap \<times> 'm"
  im_From :: "'m \<Rightarrow> string"
  im_GetParam :: "'m \<Rightarrow> string \<Rightarrow> string \<times> 'm"
  im_SetMsg :: "RuleMsg \<Rightarrow> 'm \<Rightarrow> 'm"
  im_GetMsg :: "'m \<Rightarrow> RuleMsg option \<times> 'm"
  im_SetStatusCode :: "nat \<Rightarrow> 'm \<Rightarrow> 'm"
  im_SetBody :: "string \<Rightarrow> 'm \<Rightarrow> 'm"
  im_SetError :: "error \<Rightarrow> 'm \<Rightarrow> 'm"
  im_GetError :: "'m \<Rightarrow> error option"

abbreviation bytes_of :: "string option \<Rightarrow> string" where
  "bytes_of b \<equiv> (case b of Some x \<Rightarrow> x | None \<Rightarrow> [])"

section \<open>HTTP\<close>

definition rest_SetStatusCode :: "nat \<Rightarrow> rest_RequestMessage \<Rightarrow> rest_RequestMessage" where
  "rest_SetStatusCode statusCode r = r"

definition rest_GetError :: "rest_RequestMessage \<Rightarrow> error option" where
  "rest_GetError r = rq_err r"

definition rest_Request :: "rest_RequestMessage \<Rightarrow> HttpRequest option" where
  "rest_Request r = rq_request r"

definition rest_out_Body :: "rest_ResponseMessage \<Rightarrow> string option" where
  "rest_out_Body r = rp_body r"

definition rest_out_Headers :: "rest_ResponseMessage \<Rightarrow> (string, string) gomap" where
  "rest_out_Headers r = (case rp_response r of None \<Rightarrow> [] | Some w \<Rightarrow> hw_header w)"

definition rest_out_GetMsg :: "rest_ResponseMessage \<Rightarrow> RuleMsg option" where
  "rest_out_GetMsg r = rp_msg r"

definition rest_out_GetError :: "rest_ResponseMessage \<Rightarrow> error option" where
  "rest_out_GetError r = rp_err r"

definition rest_Response :: "rest_ResponseMessage \<Rightarrow> http_writer option" where
  "rest_Response r = rp_response r"

definition rest_in_impl :: "int \<Rightarrow> string \<Rightarrow> rest_RequestMessage Message" where
  "rest_in_impl now uuid = \<lparr>im_Body = (\<lambda>r. case rest_Body r of (b, r) \<Rightarrow> (bytes_of b, r)), im_Headers = (\<lambda>r. (rest_Headers r, r)),
     im_From = rest_From, im_GetParam = rest_GetParam, im_SetMsg = rest_SetMsg,
     im_GetMsg = (\<lambda>r. case rest_GetMsg now uuid r of (m, r) \<Rightarrow> (Some m, r)), im_SetStatusCode = rest_SetStatusCode,
     im_SetBody = (\<lambda>b. rest_SetBody (Some b)), im_SetError = rest_SetError, im_GetError = rest_GetError\<rparr>"

definition rest_out_impl :: "rest_ResponseMessage Message" where
  "rest_out_impl = \<lparr>im_Body = (\<lambda>r. (bytes_of (rest_out_Body r), r)), im_Headers = (\<lambda>r. (rest_out_Headers r, r)),
     im_From = rest_out_From, im_GetParam = rest_out_GetParam, im_SetMsg = rest_out_SetMsg,
     im_GetMsg = (\<lambda>r. (rest_out_GetMsg r, r)), im_SetStatusCode = rest_out_SetStatusCode,
     im_SetBody = rest_out_SetBody, im_SetError = rest_out_SetError, im_GetError = rest_out_GetError\<rparr>"

section \<open>WebSocket\<close>

definition ws_Body :: "ws_RequestMessage \<Rightarrow> string" where
  "ws_Body r = wq_body r"

definition ws_SetStatusCode :: "nat \<Rightarrow> ws_RequestMessage \<Rightarrow> ws_RequestMessage" where
  "ws_SetStatusCode statusCode r = r"

definition ws_GetError :: "ws_RequestMessage \<Rightarrow> error option" where
  "ws_GetError r = wq_err r"

definition ws_Request :: "ws_RequestMessage \<Rightarrow> HttpRequest option" where
  "ws_Request r = wq_request r"

definition ws_out_Body :: "ws_ResponseMessage \<Rightarrow> string" where
  "ws_out_Body r = wp_body r"

definition ws_out_Headers :: "ws_ResponseMessage \<Rightarrow> (string, string) gomap" where
  "ws_out_Headers r = wp_headers r"

definition ws_out_GetMsg :: "ws_ResponseMessage \<Rightarrow> RuleMsg option" where
  "ws_out_GetMsg r = wp_msg r"

definition ws_out_SetStatusCode :: "nat \<Rightarrow> ws_ResponseMessage \<Rightarrow> ws_ResponseMessage" where
  "ws_out_SetStatusCode statusCode r = r"

definition ws_out_GetError :: "ws_ResponseMessage \<Rightarrow> error option" where
  "ws_out_GetError r = wp_err r"

definition ws_in_impl :: "int \<Rightarrow> string \<Rightarrow> ws_RequestMessage Message" where
  "ws_in_impl now uuid = \<lparr>im_Body = (\<lambda>r. (ws_Body r, r)), im_Headers = (\<lambda>r. (ws_Headers r, r)),
     im_From = ws_From, im_GetParam = ws_GetParam, im_SetMsg = ws_SetMsg,
     im_GetMsg = (\<lambda>r. case ws_GetMsg now uuid r of (m, r) \<Rightarrow> (Some m, r)), im_SetStatusCode = ws_SetStatusCode,
     im_SetBody = ws_SetBody, im_SetError = ws_SetError, im_GetError = ws_GetError\<rparr>"

definition ws_out_impl :: "ws_ResponseMessage Message" where
  "ws_out_impl = \<lparr>im_Body = (\<lambda>r. (ws_out_Body r, r)), im_Headers = (\<lambda>r. (ws_out_Headers r, r)),
     im_From = ws_out_From, im_GetParam = ws_out_GetParam, im_SetMsg = ws_out_SetMsg,
     im_GetMsg = (\<lambda>r. (ws_out_GetMsg r, r)), im_SetStatusCode = ws_out_SetStatusCode,
     im_SetBody = ws_out_SetBody, im_SetError = ws_out_SetError, im_GetError = ws_out_GetError\<rparr>"

section \<open>Network\<close>

definition net_Body :: "net_RequestMessage \<Rightarrow> string" where
  "net_Body r = nq_body r"

definition net_GetParam :: "net_RequestMessage \<Rightarrow> string \<Rightarrow> string" where
  "net_GetParam r key = []"

definition net_SetStatusCode :: "nat \<Rightarrow> net_RequestMessage \<Rightarrow> net_RequestMessage" where
  "net_SetStatusCode statusCode r = r"

definition net_GetError :: "net_RequestMessage \<Rightarrow> error option" where
  "net_GetError r = nq_err r"

definition net_Conn :: "net_RequestMessage \<Rightarrow> net_conn option" where
  "net_Conn r = nq_conn r"

definition net_out_Body :: "net_ResponseMessage \<Rightarrow> string" where
  "net_out_Body r = np_body r"

definition net_out_GetParam :: "net_ResponseMessage \<Rightarrow> string \<Rightarrow> string" where
  "net_out_GetParam r key = []"

definition net_out_GetMsg :: "net_ResponseMessage \<Rightarrow> RuleMsg option" where
  "net_out_GetMsg r = np_msg r"

definition net_out_SetStatusCode :: "nat \<Rightarrow> net_ResponseMessage \<Rightarrow> net_ResponseMessage" where
  "net_out_SetStatusCode statusCode r = r"

definition net_out_GetError :: "net_ResponseMessage \<Rightarrow> error option" where
  "net_out_GetError r = np_err r"

definition net_in_impl :: "int \<Rightarrow> string \<Rightarrow> net_RequestMessage Message" where
  "net_in_impl now uuid = \<lparr>im_Body = (\<lambda>r. (net_Body r, r)), im_Headers = net_Headers,
     im_From = net_From, im_GetParam = (\<lambda>r key. (net_GetParam r key, r)), im_SetMsg = net_SetMsg,
     im_GetMsg = (\<lambda>r. case net_GetMsg now uuid r of (m, r) \<Rightarrow> (Some m, r)), im_SetStatusCode = net_SetStatusCode,
     im_SetBody = net_SetBody, im_SetError = net_SetError, im_GetError = net_GetError\<rparr>"

definition net_out_impl :: "net_ResponseMessage Message" where
  "net_out_impl = \<lparr>im_Body = (\<lambda>r. (net_out_Body r, r)), im_Headers = net_out_Headers,
     im_From = net_out_From, im_GetParam = (\<lambda>r key. (net_out_GetParam r key, r)), im_SetMsg = net_out_SetMsg,
     im_GetMsg = (\<lambda>r. (net_out_GetMsg r, r)), im_SetStatusCode = net_out_SetStatusCode,
     im_SetBody = net_out_SetBody, im_SetError = net_out_SetError, im_GetError = net_out_GetError\<rparr>"

section \<open>Schedule\<close>

definition sch_Body :: "sch_RequestMessage \<Rightarrow> string" where
  "sch_Body r = sq_body r"

definition sch_Headers :: "sch_RequestMessage \<Rightarrow> (string, string) gomap" where
  "sch_Headers r = sq_headers r"

definition sch_GetParam :: "sch_RequestMessage \<Rightarrow> string \<Rightarrow> string" where
  "sch_GetParam r key = []"

definition sch_SetStatusCode :: "nat \<Rightarrow> sch_RequestMessage \<Rightarrow> sch_RequestMessage" where
  "sch_SetStatusCode statusCode r = r"

definition sch_GetError :: "sch_RequestMessage \<Rightarrow> error option" where
  "sch_GetError r = sq_err r"

definition sch_out_Body :: "sch_ResponseMessage \<Rightarrow> string" where
  "sch_out_Body r = sp_body r"

definition sch_out_Headers :: "sch_ResponseMessage \<Rightarrow> (string, string) gomap" where
  "sch_out_Headers r = sp_headers r"

definition sch_out_From :: "sch_ResponseMessage \<Rightarrow> string" where
  "sch_out_From r = []"

definition sch_out_GetParam :: "sch_ResponseMessage \<Rightarrow> string \<Rightarrow> string" where
  "sch_out_GetParam r key = []"

definition sch_out_GetMsg :: "sch_ResponseMessage \<Rightarrow> RuleMsg option" where
  "sch_out_GetMsg r = sp_msg r"

definition sch_out_SetStatusCode :: "nat \<Rightarrow> sch_ResponseMessage \<Rightarrow> sch_ResponseMessage" where
  "sch_out_SetStatusCode statusCode r = r"

definition sch_out_GetError :: "sch_ResponseMessage \<Rightarrow> error option" where
  "sch_out_GetError r = sp_err r"

definition sch_in_impl :: "int \<Rightarrow> string \<Rightarrow> sch_RequestMessage Message" where
  "sch_in_impl now uuid = \<lparr>im_Body = (\<lambda>r. (sch_Body r, r)), im_Headers = (\<lambda>r. (sch_Headers r, r)),
     im_From = sch_From, im_GetParam = (\<lambda>r key. (sch_GetParam r key, r)), im_SetMsg = sch_SetMsg,
     im_GetMsg = (\<lambda>r. case sch_GetMsg now uuid r of (m, r) \<Rightarrow> (Some m, r)), im_SetStatusCode = sch_SetStatusCode,
     im_SetBody = sch_SetBody, im_SetError = sch_SetError, im_GetError = sch_GetError\<rparr>"

definition sch_out_impl :: "sch_ResponseMessage Message" where
  "sch_out_impl = \<lparr>im_Body = (\<lambda>r. (sch_out_Body r, r)), im_Headers = (\<lambda>r. (sch_out_Headers r, r)),
     im_From = sch_out_From, im_GetParam = (\<lambda>r key. (sch_out_GetParam r key, r)), im_SetMsg = sch_out_SetMsg,
     im_GetMsg = (\<lambda>r. (sch_out_GetMsg r, r)), im_SetStatusCode = sch_out_SetStatusCode,
     im_SetBody = sch_out_SetBody, im_SetError = sch_out_SetError, im_GetError = sch_out_GetError\<rparr>"

section \<open>MQTT\<close>

definition mqtt_GetParam :: "mqtt_RequestMessage \<Rightarrow> string \<Rightarrow> string" where
  "mqtt_GetParam r key = []"

definition mqtt_SetStatusCode :: "nat \<Rightarrow> mqtt_RequestMessage \<Rightarrow> mqtt_RequestMessage" where
  "mqtt_SetStatusCode statusCode r = r"

definition mqtt_GetError :: "mqtt_RequestMessage \<Rightarrow> error option" where
  "mqtt_GetError r = mq_err r"

definition mqtt_Request :: "mqtt_RequestMessage \<Rightarrow> paho_Message option" where
  "mqtt_Request r = mq_request r"

definition mqtt_out_Body :: "mqtt_ResponseMessage \<Rightarrow> string" where
  "mqtt_out_Body r = mp_body r"

definition mqtt_out_Headers :: "mqtt_ResponseMessage \<Rightarrow> (string, string) gomap" where
  "mqtt_out_Headers r = mp_headers r"

definition mqtt_out_GetParam :: "mqtt_ResponseMessage \<Rightarrow> string \<Rightarrow> string" where
  "mqtt_out_GetParam r key = []"

definition mqtt_out_GetMsg :: "mqtt_ResponseMessage \<Rightarrow> RuleMsg option" where
  "mqtt_out_GetMsg r = mp_msg r"

definition mqtt_out_SetStatusCode :: "nat \<Rightarrow> mqtt_ResponseMessage \<Rightarrow> mqtt_ResponseMessage" where
  "mqtt_out_SetStatusCode statusCode r = r"

definition mqtt_out_GetError :: "mqtt_ResponseMessage \<Rightarrow> error option" where
  "mqtt_out_GetError r = mp_err r"

definition mqtt_in_impl :: "int \<Rightarrow> string \<Rightarrow> mqtt_RequestMessage Message" where
  "mqtt_in_impl now uuid = \<lparr>im_Body = (\<lambda>r. case mqtt_Body r of (b, r) \<Rightarrow> (bytes_of b, r)), im_Headers = mqtt_Headers,
     im_From = mqtt_From, im_GetParam = (\<lambda>r key. (mqtt_GetParam r key, r)), im_SetMsg = mqtt_SetMsg,
     im_GetMsg = (\<lambda>r. case mqtt_GetMsg now uuid r of (m, r) \<Rightarrow> (Some m, r)), im_SetStatusCode = mqtt_SetStatusCode,
     im_SetBody = (\<lambda>b. mqtt_SetBody (Some b)), im_SetError = mqtt_SetError, im_GetError = mqtt_GetError\<rparr>"

definition mqtt_out_impl :: "mqtt_ResponseMessage Message" where
  "mqtt_out_impl = \<lparr>im_Body = (\<lambda>r. (mqtt_out_Body r, r)), im_Headers = (\<lambda>r. (mqtt_out_Headers r, r)),
     im_From = mqtt_out_From, im_GetParam = (\<lambda>r key. (mqtt_out_GetParam r key, r)), im_SetMsg = mqtt_out_SetMsg,
     im_GetMsg = (\<lambda>r. (mqtt_out_GetMsg r, r)), im_SetStatusCode = mqtt_out_SetStatusCode,
     im_SetBody = mqtt_out_SetBody, im_SetError = mqtt_out_SetError, im_GetError = mqtt_out_GetError\<rparr>"

section \<open>The contract\<close>

text \<open>The calls of a reader or writer, and what they return.\<close>

datatype msg_op = OpBody | OpHeaders | OpFrom | OpGetMsg | OpGetError | OpSetBody string | OpSetMsg RuleMsg | OpSetError error
  | OpSetStatusCode nat

datatype answered = Bytes string | Text string | TheMsg "RuleMsg option" | TheError "error option" | Nothing

fun message_op :: "'m Message \<Rightarrow> msg_op \<Rightarrow> 'm \<Rightarrow> answered \<times> 'm" where
  "message_op I OpBody m = (case im_Body I m of (b, m) \<Rightarrow> (Bytes b, m))"
| "message_op I OpHeaders m = (case im_Headers I m of (_, m) \<Rightarrow> (Nothing, m))"
| "message_op I OpFrom m = (Text (im_From I m), m)"
| "message_op I OpGetMsg m = (case im_GetMsg I m of (x, m) \<Rightarrow> (TheMsg x, m))"
| "message_op I OpGetError m = (TheError (im_GetError I m), m)"
| "message_op I (OpSetBody b) m = (Nothing, im_SetBody I b m)"
| "message_op I (OpSetMsg x) m = (Nothing, im_SetMsg I x m)"
| "message_op I (OpSetError e) m = (Nothing, im_SetError I e m)"
| "message_op I (OpSetStatusCode c) m = (Nothing, im_SetStatusCode I c m)"

fun message_run :: "'m Message \<Rightarrow> msg_op list \<Rightarrow> 'm \<Rightarrow> answered list \<times> 'm" where
  "message_run I [] m = ([], m)"
| "message_run I (op # ops) m = (case message_op I op m of (a, m) \<Rightarrow> case message_run I ops m of (as, m) \<Rightarrow> (a # as, m))"

text \<open>The abstract message. \<open>make\<close> is the rule message that the first \<open>GetMsg\<close> makes of the body, if it
  makes one.\<close>

record msg_cells =
  c_body :: string
  c_msg :: "RuleMsg option"
  c_err :: "error option"

record maker =
  mk_from :: string
  mk_msg :: "string \<Rightarrow> RuleMsg option"

definition made :: "maker \<Rightarrow> msg_cells \<Rightarrow> msg_cells" where
  "made k c = (if c_msg c = None then c\<lparr>c_msg := mk_msg k (c_body c)\<rparr> else c)"

fun cell_op :: "maker \<Rightarrow> msg_op \<Rightarrow> msg_cells \<Rightarrow> answered \<times> msg_cells" where
  "cell_op k OpBody c = (Bytes (c_body c), c)"
| "cell_op k OpHeaders c = (Nothing, c)"
| "cell_op k OpFrom c = (Text (mk_from k), c)"
| "cell_op k OpGetMsg c = (TheMsg (c_msg (made k c)), made k c)"
| "cell_op k OpGetError c = (TheError (c_err c), c)"
| "cell_op k (OpSetBody b) c = (Nothing, c\<lparr>c_body := b\<rparr>)"
| "cell_op k (OpSetMsg x) c = (Nothing, c\<lparr>c_msg := Some x\<rparr>)"
| "cell_op k (OpSetError e) c = (Nothing, c\<lparr>c_err := Some e\<rparr>)"
| "cell_op k (OpSetStatusCode code) c = (Nothing, c)"

fun cell_run :: "maker \<Rightarrow> msg_op list \<Rightarrow> msg_cells \<Rightarrow> answered list \<times> msg_cells" where
  "cell_run k [] c = ([], c)"
| "cell_run k (op # ops) c = (case cell_op k op c of (a, c) \<Rightarrow> case cell_run k ops c of (as, c) \<Rightarrow> (a # as, c))"

locale endpoint_message =
  fixes I :: "'m Message" and view :: "'m \<Rightarrow> msg_cells" and kind :: "'m \<Rightarrow> maker"
  assumes kept: "kind (snd (message_op I op m)) = kind m"
    and body: "fst (im_Body I m) = c_body (view m)" "view (snd (im_Body I m)) = view m"
    and headers: "view (snd (im_Headers I m)) = view m"
    and source: "im_From I m = mk_from (kind m)"
    and getMsg: "fst (im_GetMsg I m) = c_msg (made (kind m) (view m))" "view (snd (im_GetMsg I m)) = made (kind m) (view m)"
    and getError: "im_GetError I m = c_err (view m)"
    and setters: "view (im_SetBody I b m) = (view m)\<lparr>c_body := b\<rparr>" "view (im_SetMsg I x m) = (view m)\<lparr>c_msg := Some x\<rparr>"
      "view (im_SetError I e m) = (view m)\<lparr>c_err := Some e\<rparr>" "view (im_SetStatusCode I code m) = view m"
begin

lemma op_refines: "cell_op (kind m) op (view m) = (fst (message_op I op m), view (snd (message_op I op m)))"
  by (cases op) (simp_all add: case_prod_beta body headers source getMsg getError setters)

lemma run_refines: "cell_run (kind m) ops (view m) = (fst (message_run I ops m), view (snd (message_run I ops m)))"
proof (induction ops arbitrary: m)
  case (Cons op ops)
  let ?m = "snd (message_op I op m)"
  from Cons [of ?m] have "cell_run (kind m) ops (view ?m) = (fst (message_run I ops ?m), view (snd (message_run I ops ?m)))"
    by (simp add: kept)
  then show ?case by (simp add: op_refines case_prod_beta)
qed simp

end

section \<open>The ten implementations\<close>

definition rest_in_view :: "rest_RequestMessage \<Rightarrow> msg_cells" where
  "rest_in_view r = \<lparr>c_body = bytes_of (fst (rest_Body r)), c_msg = rq_msg r, c_err = rq_err r\<rparr>"

definition rest_in_kind :: "int \<Rightarrow> string \<Rightarrow> rest_RequestMessage \<Rightarrow> maker" where
  "rest_in_kind now uuid r = \<lparr>mk_from = rest_From r, mk_msg = (\<lambda>b. Some (NewMsg now uuid uuid 0 (rest_From r) (if Header_Get (rest_Headers r) ContentTypeKey = JsonContextType then JSON else TEXT) NewMetadata b))\<rparr>"

lemmas rest_in_defs = rest_in_impl_def rest_in_view_def rest_in_kind_def rest_Body_def ReadBody_def rest_Headers_def rest_From_def
  rest_GetParam_def rest_SetMsg_def rest_GetMsg_def rest_SetStatusCode_def rest_SetBody_def rest_SetError_def rest_GetError_def

interpretation rest_in_message: endpoint_message "rest_in_impl now uuid" rest_in_view "rest_in_kind now uuid" for now uuid
proof
  show "rest_in_kind now uuid (snd (message_op (rest_in_impl now uuid) op m)) = rest_in_kind now uuid m" for op m
    by (cases op) (simp_all add: rest_in_defs case_prod_beta Let_def split: option.splits)
qed (simp_all add: rest_in_defs made_def case_prod_beta Let_def split: option.splits)

definition rest_out_view :: "rest_ResponseMessage \<Rightarrow> msg_cells" where
  "rest_out_view r = \<lparr>c_body = bytes_of (rp_body r), c_msg = rp_msg r, c_err = rp_err r\<rparr>"

definition rest_out_kind :: "rest_ResponseMessage \<Rightarrow> maker" where
  "rest_out_kind r = \<lparr>mk_from = rest_out_From r, mk_msg = (\<lambda>b. None)\<rparr>"

lemmas rest_out_defs = rest_out_impl_def rest_out_view_def rest_out_kind_def rest_out_Body_def rest_out_Headers_def rest_out_From_def
  rest_out_GetParam_def rest_out_SetMsg_def rest_out_GetMsg_def rest_out_SetStatusCode_def rest_out_SetBody_def rest_out_SetError_def rest_out_GetError_def

interpretation rest_out_message: endpoint_message rest_out_impl rest_out_view rest_out_kind
proof
  show "rest_out_kind (snd (message_op rest_out_impl op m)) = rest_out_kind m" for op m
    by (cases op) (simp_all add: rest_out_defs case_prod_beta Let_def split: option.splits)
qed (simp_all add: rest_out_defs made_def case_prod_beta Let_def split: option.splits)

definition ws_in_view :: "ws_RequestMessage \<Rightarrow> msg_cells" where
  "ws_in_view r = \<lparr>c_body = wq_body r, c_msg = wq_msg r, c_err = wq_err r\<rparr>"

definition ws_in_kind :: "int \<Rightarrow> string \<Rightarrow> ws_RequestMessage \<Rightarrow> maker" where
  "ws_in_kind now uuid r = \<lparr>mk_from = ws_From r, mk_msg = (\<lambda>b. Some (NewMsg now uuid uuid 0 (ws_From r) (if wq_messageType r = BinaryMessage then BINARY else JSON) NewMetadata b))\<rparr>"

lemmas ws_in_defs = ws_in_impl_def ws_in_view_def ws_in_kind_def ws_Body_def ws_Headers_def ws_From_def
  ws_GetParam_def ws_SetMsg_def ws_GetMsg_def ws_SetStatusCode_def ws_SetBody_def ws_SetError_def ws_GetError_def

interpretation ws_in_message: endpoint_message "ws_in_impl now uuid" ws_in_view "ws_in_kind now uuid" for now uuid
proof
  show "ws_in_kind now uuid (snd (message_op (ws_in_impl now uuid) op m)) = ws_in_kind now uuid m" for op m
    by (cases op) (simp_all add: ws_in_defs case_prod_beta Let_def split: option.splits)
qed (simp_all add: ws_in_defs made_def case_prod_beta Let_def split: option.splits)

definition ws_out_view :: "ws_ResponseMessage \<Rightarrow> msg_cells" where
  "ws_out_view r = \<lparr>c_body = wp_body r, c_msg = wp_msg r, c_err = wp_err r\<rparr>"

definition ws_out_kind :: "ws_ResponseMessage \<Rightarrow> maker" where
  "ws_out_kind r = \<lparr>mk_from = ws_out_From r, mk_msg = (\<lambda>b. None)\<rparr>"

lemmas ws_out_defs = ws_out_impl_def ws_out_view_def ws_out_kind_def ws_out_Body_def ws_out_Headers_def ws_out_From_def
  ws_out_GetParam_def ws_out_SetMsg_def ws_out_GetMsg_def ws_out_SetStatusCode_def ws_out_SetBody_def ws_out_SetError_def ws_out_GetError_def

interpretation ws_out_message: endpoint_message ws_out_impl ws_out_view ws_out_kind
proof
  show "ws_out_kind (snd (message_op ws_out_impl op m)) = ws_out_kind m" for op m
    by (cases op) (simp_all add: ws_out_defs case_prod_beta Let_def split: option.splits)
qed (simp_all add: ws_out_defs made_def case_prod_beta Let_def split: option.splits)

definition net_in_view :: "net_RequestMessage \<Rightarrow> msg_cells" where
  "net_in_view r = \<lparr>c_body = nq_body r, c_msg = nq_msg r, c_err = nq_err r\<rparr>"

definition net_in_kind :: "int \<Rightarrow> string \<Rightarrow> net_RequestMessage \<Rightarrow> maker" where
  "net_in_kind now uuid r = \<lparr>mk_from = net_From r, mk_msg = (\<lambda>b. Some (NewMsg now uuid uuid 0 (net_From r) TEXT NewMetadata b))\<rparr>"

lemmas net_in_defs = net_in_impl_def net_in_view_def net_in_kind_def net_Body_def net_Headers_def net_From_def
  net_GetParam_def net_SetMsg_def net_GetMsg_def net_SetStatusCode_def net_SetBody_def net_SetError_def net_GetError_def

interpretation net_in_message: endpoint_message "net_in_impl now uuid" net_in_view "net_in_kind now uuid" for now uuid
proof
  show "net_in_kind now uuid (snd (message_op (net_in_impl now uuid) op m)) = net_in_kind now uuid m" for op m
    by (cases op) (simp_all add: net_in_defs case_prod_beta Let_def split: option.splits)
qed (simp_all add: net_in_defs made_def case_prod_beta Let_def split: option.splits)

definition net_out_view :: "net_ResponseMessage \<Rightarrow> msg_cells" where
  "net_out_view r = \<lparr>c_body = np_body r, c_msg = np_msg r, c_err = np_err r\<rparr>"

definition net_out_kind :: "net_ResponseMessage \<Rightarrow> maker" where
  "net_out_kind r = \<lparr>mk_from = net_out_From r, mk_msg = (\<lambda>b. None)\<rparr>"

lemmas net_out_defs = net_out_impl_def net_out_view_def net_out_kind_def net_out_Body_def net_out_Headers_def net_out_From_def
  net_out_GetParam_def net_out_SetMsg_def net_out_GetMsg_def net_out_SetStatusCode_def net_out_SetBody_def net_out_SetError_def net_out_GetError_def

interpretation net_out_message: endpoint_message net_out_impl net_out_view net_out_kind
proof
  show "net_out_kind (snd (message_op net_out_impl op m)) = net_out_kind m" for op m
    by (cases op) (simp_all add: net_out_defs case_prod_beta Let_def split: option.splits)
qed (simp_all add: net_out_defs made_def case_prod_beta Let_def split: option.splits)

definition sch_in_view :: "sch_RequestMessage \<Rightarrow> msg_cells" where
  "sch_in_view r = \<lparr>c_body = sq_body r, c_msg = sq_msg r, c_err = sq_err r\<rparr>"

definition sch_in_kind :: "int \<Rightarrow> string \<Rightarrow> sch_RequestMessage \<Rightarrow> maker" where
  "sch_in_kind now uuid r = \<lparr>mk_from = sch_From r, mk_msg = (\<lambda>b. Some (NewMsg now uuid uuid 0 (sch_From r) JSON NewMetadata b))\<rparr>"

lemmas sch_in_defs = sch_in_impl_def sch_in_view_def sch_in_kind_def sch_Body_def sch_Headers_def sch_From_def
  sch_GetParam_def sch_SetMsg_def sch_GetMsg_def sch_SetStatusCode_def sch_SetBody_def sch_SetError_def sch_GetError_def

interpretation sch_in_message: endpoint_message "sch_in_impl now uuid" sch_in_view "sch_in_kind now uuid" for now uuid
proof
  show "sch_in_kind now uuid (snd (message_op (sch_in_impl now uuid) op m)) = sch_in_kind now uuid m" for op m
    by (cases op) (simp_all add: sch_in_defs case_prod_beta Let_def split: option.splits)
qed (simp_all add: sch_in_defs made_def case_prod_beta Let_def split: option.splits)

definition sch_out_view :: "sch_ResponseMessage \<Rightarrow> msg_cells" where
  "sch_out_view r = \<lparr>c_body = sp_body r, c_msg = sp_msg r, c_err = sp_err r\<rparr>"

definition sch_out_kind :: "sch_ResponseMessage \<Rightarrow> maker" where
  "sch_out_kind r = \<lparr>mk_from = sch_out_From r, mk_msg = (\<lambda>b. None)\<rparr>"

lemmas sch_out_defs = sch_out_impl_def sch_out_view_def sch_out_kind_def sch_out_Body_def sch_out_Headers_def sch_out_From_def
  sch_out_GetParam_def sch_out_SetMsg_def sch_out_GetMsg_def sch_out_SetStatusCode_def sch_out_SetBody_def sch_out_SetError_def sch_out_GetError_def

interpretation sch_out_message: endpoint_message sch_out_impl sch_out_view sch_out_kind
proof
  show "sch_out_kind (snd (message_op sch_out_impl op m)) = sch_out_kind m" for op m
    by (cases op) (simp_all add: sch_out_defs case_prod_beta Let_def split: option.splits)
qed (simp_all add: sch_out_defs made_def case_prod_beta Let_def split: option.splits)

lemma topic_put:
  "PutValue (MsgMetadata (NewMsg now uuid uuid' 0 t d NewMetadata b)) ''topic'' v = Inr (Some [(''topic'', v)])"
  by (simp add: NewMsg_def newMsg_def NewMetadata_def PutValue_def)

definition mqtt_in_view :: "mqtt_RequestMessage \<Rightarrow> msg_cells" where
  "mqtt_in_view r = \<lparr>c_body = bytes_of (fst (mqtt_Body r)), c_msg = mq_msg r, c_err = mq_err r\<rparr>"

definition mqtt_in_kind :: "int \<Rightarrow> string \<Rightarrow> mqtt_RequestMessage \<Rightarrow> maker" where
  "mqtt_in_kind now uuid r = \<lparr>mk_from = mqtt_From r, mk_msg = (\<lambda>b. Some ((NewMsg now uuid uuid 0 (mqtt_From r) JSON NewMetadata b)\<lparr>MsgMetadata := Some [(''topic'', mqtt_From r)]\<rparr>))\<rparr>"

lemmas mqtt_in_defs = mqtt_in_impl_def mqtt_in_view_def mqtt_in_kind_def mqtt_Body_def mqtt_Headers_def mqtt_From_def
  mqtt_GetParam_def mqtt_SetMsg_def mqtt_GetMsg_def mqtt_SetStatusCode_def mqtt_SetBody_def mqtt_SetError_def mqtt_GetError_def

interpretation mqtt_in_message: endpoint_message "mqtt_in_impl now uuid" mqtt_in_view "mqtt_in_kind now uuid" for now uuid
proof
  show "mqtt_in_kind now uuid (snd (message_op (mqtt_in_impl now uuid) op m)) = mqtt_in_kind now uuid m" for op m
    by (cases op) (simp_all add: mqtt_in_defs case_prod_beta Let_def split: option.splits)
qed (simp_all add: mqtt_in_defs topic_put made_def case_prod_beta Let_def split: option.splits)

definition mqtt_out_view :: "mqtt_ResponseMessage \<Rightarrow> msg_cells" where
  "mqtt_out_view r = \<lparr>c_body = mp_body r, c_msg = mp_msg r, c_err = mp_err r\<rparr>"

definition mqtt_out_kind :: "mqtt_ResponseMessage \<Rightarrow> maker" where
  "mqtt_out_kind r = \<lparr>mk_from = mqtt_out_From r, mk_msg = (\<lambda>b. None)\<rparr>"

lemmas mqtt_out_defs = mqtt_out_impl_def mqtt_out_view_def mqtt_out_kind_def mqtt_out_Body_def mqtt_out_Headers_def mqtt_out_From_def
  mqtt_out_GetParam_def mqtt_out_SetMsg_def mqtt_out_GetMsg_def mqtt_out_SetStatusCode_def mqtt_out_SetBody_def mqtt_out_SetError_def mqtt_out_GetError_def

interpretation mqtt_out_message: endpoint_message mqtt_out_impl mqtt_out_view mqtt_out_kind
proof
  show "mqtt_out_kind (snd (message_op mqtt_out_impl op m)) = mqtt_out_kind m" for op m
    by (cases op) (simp_all add: mqtt_out_defs case_prod_beta Let_def split: option.splits)
qed (simp_all add: mqtt_out_defs made_def case_prod_beta Let_def split: option.splits)

text \<open>The ten messages of the endpoints are one abstract message of three cells. Whatever of these calls is
  made on a request or a response, in whatever order, the answers are those of a body, a rule message and
  an error that hold what was last set, where the first \<open>GetMsg\<close> of a request, unless a message was
  set before, makes one of the body of that moment, and that of a response returns nil.\<close>

theorem messages_are_cells:
  "fst (message_run (rest_in_impl now uuid) ops rest) = fst (cell_run (rest_in_kind now uuid rest) ops (rest_in_view rest)) \<and>
   fst (message_run rest_out_impl ops rest') = fst (cell_run (rest_out_kind rest') ops (rest_out_view rest')) \<and>
   fst (message_run (ws_in_impl now uuid) ops ws) = fst (cell_run (ws_in_kind now uuid ws) ops (ws_in_view ws)) \<and>
   fst (message_run ws_out_impl ops ws') = fst (cell_run (ws_out_kind ws') ops (ws_out_view ws')) \<and>
   fst (message_run (net_in_impl now uuid) ops net) = fst (cell_run (net_in_kind now uuid net) ops (net_in_view net)) \<and>
   fst (message_run net_out_impl ops net') = fst (cell_run (net_out_kind net') ops (net_out_view net')) \<and>
   fst (message_run (sch_in_impl now uuid) ops sch) = fst (cell_run (sch_in_kind now uuid sch) ops (sch_in_view sch)) \<and>
   fst (message_run sch_out_impl ops sch') = fst (cell_run (sch_out_kind sch') ops (sch_out_view sch')) \<and>
   fst (message_run (mqtt_in_impl now uuid) ops mqtt) = fst (cell_run (mqtt_in_kind now uuid mqtt) ops (mqtt_in_view mqtt)) \<and>
   fst (message_run mqtt_out_impl ops mqtt') = fst (cell_run (mqtt_out_kind mqtt') ops (mqtt_out_view mqtt'))"
  by (simp add: rest_in_message.run_refines rest_out_message.run_refines ws_in_message.run_refines ws_out_message.run_refines
      net_in_message.run_refines net_out_message.run_refines sch_in_message.run_refines sch_out_message.run_refines
      mqtt_in_message.run_refines mqtt_out_message.run_refines)

text \<open>So a rule message does not follow its body: what a processor sets after the first \<open>GetMsg\<close> is not
  in the message that the chain gets.\<close>

theorem body_after_message_is_lost:
  "\<exists>x. fst (message_run (rest_in_impl now uuid) [OpGetMsg, OpSetBody b, OpGetMsg] r) = [TheMsg (Some x), Nothing, TheMsg (Some x)]"
proof -
  have "fst (message_run (rest_in_impl now uuid) ops r) = fst (cell_run (rest_in_kind now uuid r) ops (rest_in_view r))" for ops
    by (simp only: rest_in_message.run_refines fst_conv)
  then show ?thesis by (simp del: message_run.simps add: made_def rest_in_kind_def)
qed

end
