(* ===== verification/Options.thy ===== *)
theory Options
  imports Completion
begin

text \<open>
  The options of a run (\<open>RuleContextOption\<close> of \<open>api/types/types.go\<close>), the methods of a rule context that
  read and set its fields, and the entries of \<open>engine.go\<close> that take options. \<open>Run\<close> enters an engine with an
  end and a completion callback; here the options are applied to the copy of the root context one after
  the other, as the code does it, and the first is shown to be an instance of this. A
  \<open>context.Context\<close> is a number, 0 for the one of the root context.
\<close>

section \<open>Methods of a context\<close>

definition ctx_NewMsg :: "int \<Rightarrow> string \<Rightarrow> string \<Rightarrow> Metadata \<Rightarrow> string \<Rightarrow> RuleMsg" where
  "ctx_NewMsg now uuid msgType metaData data = Msg.NewMsg now uuid uuid 0 msgType JSON metaData data"

text \<open>\<open>GetSelfId\<close> dereferences the node of the context.\<close>

definition GetSelfId :: "('n, 'w) sys \<Rightarrow> 'w DefaultRuleContext \<Rightarrow> error + string" where
  "GetSelfId s ctx =
     (case dc_self ctx of Some self \<Rightarrow> Inr (NodeId (ref_id s self)) | None \<Rightarrow> Inl ''invalid memory address or nil pointer dereference'')"

definition GetEndFunc :: "'w DefaultRuleContext \<Rightarrow> end_fn option" where
  "GetEndFunc ctx = dc_onEnd ctx"

definition GetContext :: "'w DefaultRuleContext \<Rightarrow> nat" where
  "GetContext ctx = dc_context ctx"

definition SetAllCompletedFunc :: "done_fn option \<Rightarrow> 'w DefaultRuleContext \<Rightarrow> 'w DefaultRuleContext" where
  "SetAllCompletedFunc f ctx = ctx\<lparr>dc_onAllNodeCompleted := f\<rparr>"

section \<open>Options\<close>

type_synonym 'w RuleContextOption = "'w DefaultRuleContext \<Rightarrow> 'w DefaultRuleContext"

text \<open>\<open>WithEndFunc\<close> wraps a callback without the relation; the callback number \<open>k\<close> of the caller does
  not look at it.\<close>

definition WithEndFunc :: "nat \<Rightarrow> 'w RuleContextOption" where
  "WithEndFunc k rc = SetEndFunc (Some (UserEnd k)) rc"

definition WithOnEnd :: "end_fn option \<Rightarrow> 'w RuleContextOption" where
  "WithOnEnd endFunc rc = SetEndFunc endFunc rc"

definition WithContext :: "nat \<Rightarrow> 'w RuleContextOption" where
  "WithContext c rc = SetContext c rc"

definition WithOnAllNodeCompleted :: "done_fn option \<Rightarrow> 'w RuleContextOption" where
  "WithOnAllNodeCompleted f rc = SetOnAllNodeCompleted f rc"

text \<open>\<open>onMsgAndWait\<close> with its list of options.\<close>

definition onMsgAndWait_with ::
  "('n, 'w) env \<Rightarrow> string \<Rightarrow> RuleMsg \<Rightarrow> bool \<Rightarrow> 'w RuleContextOption list \<Rightarrow> ('n, 'w) sys \<Rightarrow> 'w action list \<times> ('n, 'w) sys" where
  "onMsgAndWait_with E key msg wait opts s =
     (case Get (s_engines s) key of
        None \<Rightarrow> ([], s)
      | Some e \<Rightarrow>
          (case re_root e of
             None \<Rightarrow> ([], emit EvNotInitialized s)
           | Some rc \<Rightarrow>
               (case rc_root rc of
                  None \<Rightarrow> ([IPanic ''interface conversion: interface is nil''], s)
                | Some self \<Rightarrow>
                    (let r = length (s_heap s);
                         rootCtxCopy = NewRuleContext E 0 (rc_rootConfig rc) key None (Some self) (cfg_Pool (rc_rootConfig rc)) None;
                         rootCtxCopy = fold (\<lambda>opt. opt) opts rootCtxCopy;
                         s = s\<lparr>s_heap := s_heap s @ [rootCtxCopy]\<rparr>;
                         (msg, w) = onStart e (view_of s r) msg (s_world s);
                         customOnEndFunc = dc_onEnd rootCtxCopy;
                         customFunc = dc_onAllNodeCompleted rootCtxCopy;
                         s = upd_ctx r (\<lambda>x. x\<lparr>dc_onEnd := Some (EngineEnd key r customOnEndFunc),
                                             dc_onAllNodeCompleted := Some (EngineDone key r msg wait customFunc)\<rparr>)
                               (s\<lparr>s_world := w\<rparr>);
                         (k, s) = tell E r msg None None s
                     in (k @ (if wait then [IAwait r] else []), s)))))"

definition OnMsgWithOptions ::
  "('n, 'w) env \<Rightarrow> string \<Rightarrow> RuleMsg \<Rightarrow> 'w RuleContextOption list \<Rightarrow> ('n, 'w) sys \<Rightarrow> 'w action list \<times> ('n, 'w) sys" where
  "OnMsgWithOptions E key msg opts s = onMsgAndWait_with E key msg False opts s"

definition OnMsgWithEndFunc ::
  "('n, 'w) env \<Rightarrow> string \<Rightarrow> RuleMsg \<Rightarrow> end_fn option \<Rightarrow> ('n, 'w) sys \<Rightarrow> 'w action list \<times> ('n, 'w) sys" where
  "OnMsgWithEndFunc E key msg endFunc s = onMsgAndWait_with E key msg False [WithOnEnd endFunc] s"

section \<open>The last option of a kind counts\<close>

datatype given = GivenEnd "end_fn option" | GivenContext nat | GivenCompleted "done_fn option"

fun with_given :: "given \<Rightarrow> 'w RuleContextOption" where
  "with_given (GivenEnd f) = WithOnEnd f"
| "with_given (GivenContext c) = WithContext c"
| "with_given (GivenCompleted f) = WithOnAllNodeCompleted f"

definition last_given :: "(given \<Rightarrow> 'a option) \<Rightarrow> 'a \<Rightarrow> given list \<Rightarrow> 'a" where
  "last_given sel d xs = fold (\<lambda>x a. case sel x of Some y \<Rightarrow> y | None \<Rightarrow> a) xs d"

abbreviation given_end :: "given list \<Rightarrow> end_fn option" where
  "given_end \<equiv> last_given (\<lambda>x. case x of GivenEnd f \<Rightarrow> Some f | _ \<Rightarrow> None) None"

abbreviation given_context :: "given list \<Rightarrow> nat" where
  "given_context \<equiv> last_given (\<lambda>x. case x of GivenContext c \<Rightarrow> Some c | _ \<Rightarrow> None) 0"

abbreviation given_completed :: "given list \<Rightarrow> done_fn option" where
  "given_completed \<equiv> last_given (\<lambda>x. case x of GivenCompleted f \<Rightarrow> Some f | _ \<Rightarrow> None) None"

lemma options_apply:
  "fold (\<lambda>opt. opt) (map with_given xs) ctx =
     ctx\<lparr>dc_context := last_given (\<lambda>x. case x of GivenContext c \<Rightarrow> Some c | _ \<Rightarrow> None) (dc_context ctx) xs,
         dc_onEnd := last_given (\<lambda>x. case x of GivenEnd f \<Rightarrow> Some f | _ \<Rightarrow> None) (dc_onEnd ctx) xs,
         dc_onAllNodeCompleted := last_given (\<lambda>x. case x of GivenCompleted f \<Rightarrow> Some f | _ \<Rightarrow> None) (dc_onAllNodeCompleted ctx) xs\<rparr>"
proof (induction xs arbitrary: ctx)
  case (Cons x xs)
  then show ?case
    by (cases x) (simp_all add: last_given_def WithOnEnd_def WithContext_def WithOnAllNodeCompleted_def setter_defs)
qed (simp add: last_given_def)

text \<open>What starting reads of the new context.\<close>

lemma view_of_new:
  assumes "dc_self x = dc_self y" "dc_from x = dc_from y" "dc_chain x = dc_chain y"
  shows "view_of (s\<lparr>s_heap := s_heap s @ [x]\<rparr>) (length (s_heap s)) = view_of (s\<lparr>s_heap := s_heap s @ [y]\<rparr>) (length (s_heap s))"
  using assms by (simp add: view_of_def ctx_at_def ref_id_def [abs_def] chain_of_def [abs_def] ref_debug_def [abs_def] Let_def
      split: option.split)

lemma tell_first_upd:
  assumes "dc_isFirst y" "dc_isFirst (g y)" "dc_pool (g y) = dc_pool y"
  shows "tell E (length h) msg err rels (s\<lparr>s_heap := h @ [g y]\<rparr>) =
    map_prod (\<lambda>k. k) (upd_ctx (length h) g) (tell E (length h) msg err rels (s\<lparr>s_heap := h @ [y]\<rparr>))"
  using assms by (simp add: tell_def tellFirst_def copy_msg_def SubmitTack_def ctx_at_def spawn_def emit_def case_prod_beta Let_def
      upd_ctx_def split: option.split)

lemma NewRuleContext_end:
  "NewRuleContext E ctx config key f self pool endFunc = (NewRuleContext E ctx config key f self pool None)\<lparr>dc_onEnd := endFunc\<rparr>"
  by (simp add: NewRuleContext_def case_prod_beta Let_def)

lemma NewRuleContext_fields [simp]:
  "dc_context (NewRuleContext E ctx config key f self pool endFunc) = ctx"
  "dc_onEnd (NewRuleContext E ctx config key f self pool endFunc) = endFunc"
  "dc_onAllNodeCompleted (NewRuleContext E ctx config key f self pool endFunc) = None"
  "dc_parent (NewRuleContext E ctx config key f self pool endFunc) = None"
  "dc_isFirst (NewRuleContext E ctx config key f self pool endFunc) = (f = None)"
  "dc_self (NewRuleContext E ctx config key f self pool endFunc) = self"
  "dc_from (NewRuleContext E ctx config key f self pool endFunc) = f"
  "dc_chain (NewRuleContext E ctx config key f self pool endFunc) = key"
  by (simp_all add: NewRuleContext_def case_prod_beta Let_def)

lemma upd_ctx_beyond [simp]: "length (s_heap s) \<le> n \<Longrightarrow> upd_ctx n f s = s"
  by (simp add: upd_ctx_def list_update_beyond)

text \<open>options are applied in order and the last of a kind counts. Entering an engine with any
  list of options is entering it with the last end callback and the last completion callback of the
  list, and the root context of the run has the last context; in everything else the run is the same.\<close>

theorem options_last_wins:
  "onMsgAndWait_with E key msg wait (map with_given xs) s =
     map_prod (\<lambda>k. k) (upd_ctx (length (s_heap s)) (SetContext (given_context xs)))
       (onMsgAndWait E key msg wait (given_end xs) (given_completed xs) s)"
proof (cases "\<exists>e rc self. Get (s_engines s) key = Some e \<and> re_root e = Some rc \<and> rc_root rc = Some self")
  case True
  then obtain e rc self where e: "Get (s_engines s) key = Some e" "re_root e = Some rc" "rc_root rc = Some self" by blast
  let ?h = "s_heap s" and ?n = "NewRuleContext E 0 (rc_rootConfig rc) key None (Some self) (cfg_Pool (rc_rootConfig rc)) None"
  define x where "x = fold (\<lambda>opt. opt) (map with_given xs) ?n"
  define y where "y = ?n\<lparr>dc_onEnd := given_end xs\<rparr>"
  have x: "x = y\<lparr>dc_context := given_context xs, dc_onAllNodeCompleted := given_completed xs\<rparr>"
    by (simp add: x_def y_def options_apply)
  have v: "view_of (s\<lparr>s_heap := ?h @ [x]\<rparr>) (length ?h) = view_of (s\<lparr>s_heap := ?h @ [y]\<rparr>) (length ?h)"
    by (rule view_of_new) (simp_all add: x)
  obtain m w where m: "onStart e (view_of (s\<lparr>s_heap := ?h @ [y]\<rparr>) (length ?h)) msg (s_world s) = (m, w)" by fastforce
  let ?f = "\<lambda>z. z\<lparr>dc_onEnd := Some (EngineEnd key (length ?h) (given_end xs)),
    dc_onAllNodeCompleted := Some (EngineDone key (length ?h) m wait (given_completed xs))\<rparr>"
  have f: "?f x = SetContext (given_context xs) (?f y)" by (simp add: x SetContext_def)
  let ?g = "SetContext (given_context xs)"
  note t = tell_first_upd [of "?f y" ?g E ?h m None None "s\<lparr>s_world := w\<rparr>"]
  have "dc_isFirst (?f y)" "dc_isFirst (?g (?f y))" "dc_pool (?g (?f y)) = dc_pool (?f y)"
    by (simp_all add: y_def SetContext_def)
  note t = t [OF this]
  have l: "dc_onEnd x = given_end xs" "dc_onAllNodeCompleted x = given_completed xs" by (simp_all add: x y_def)
  have "onMsgAndWait_with E key msg wait (map with_given xs) s =
    (case tell E (length ?h) m None None (s\<lparr>s_world := w, s_heap := ?h @ [?g (?f y)]\<rparr>) of
       (k, s) \<Rightarrow> (k @ (if wait then [IAwait (length ?h)] else []), s))"
    using e m v f l
    by (simp add: onMsgAndWait_with_def x_def [symmetric] Let_def upd_ctx_def case_prod_beta)
  moreover have "onMsgAndWait E key msg wait (given_end xs) (given_completed xs) s =
    (case tell E (length ?h) m None None (s\<lparr>s_world := w, s_heap := ?h @ [?f y]\<rparr>) of
       (k, s) \<Rightarrow> (k @ (if wait then [IAwait (length ?h)] else []), s))"
    using e m NewRuleContext_end [of E 0 "rc_rootConfig rc" key None "Some self" "cfg_Pool (rc_rootConfig rc)" "given_end xs"]
    by (simp add: onMsgAndWait_def y_def [symmetric] Let_def upd_ctx_def case_prod_beta)
  ultimately show ?thesis using t by (simp add: case_prod_beta map_prod_def)
next
  case False
  then show ?thesis
    by (auto simp: onMsgAndWait_with_def onMsgAndWait_def emit_def split: option.split)
qed

section \<open>The context is handed down\<close>

text \<open>A goroutine that is about to call \<open>SetContext\<close>, and the steps of the others.\<close>

fun sets_context :: "'w action list \<Rightarrow> bool" where
  "sets_context (ICalls _ (CSetContext _ # _) _ # _) = True"
| "sets_context _ = False"

inductive keeping_step :: "('n, 'w) env \<Rightarrow> ('n, 'w) sys \<Rightarrow> ('n, 'w) sys \<Rightarrow> bool" for E where
  "i < length (s_gos s) \<Longrightarrow> runnable s (s_gos s ! i) \<Longrightarrow> s_crashed s = None \<Longrightarrow> \<not> sets_context (s_gos s ! i) \<Longrightarrow>
     keeping_step E s (step_at E i s)"

text \<open>Contexts stay, keep their parent and their \<open>context.Context\<close>, and a new one has that of its parent.\<close>

definition hands_down :: "('n, 'w) sys \<Rightarrow> ('n, 'w) sys \<Rightarrow> bool" where
  "hands_down s t =
     (length (s_heap s) \<le> length (s_heap t) \<and>
      (\<forall>j < length (s_heap s). dc_context (s_heap t ! j) = dc_context (s_heap s ! j) \<and>
         dc_parent (s_heap t ! j) = dc_parent (s_heap s ! j)) \<and>
      (\<forall>j < length (s_heap t). length (s_heap s) \<le> j \<longrightarrow>
         (\<forall>p < j. dc_parent (s_heap t ! j) = Some p \<longrightarrow> dc_context (s_heap t ! j) = dc_context (s_heap t ! p))))"

lemma handed_refl [simp]: "hands_down s s"
  by (simp add: hands_down_def)

lemma handed_trans [trans]:
  assumes "hands_down s t" "hands_down t u"
  shows "hands_down s u"
proof -
  have "dc_context (s_heap u ! j) = dc_context (s_heap u ! p)"
    if "j < length (s_heap u)" "length (s_heap s) \<le> j" "p < j" "dc_parent (s_heap u ! j) = Some p" for j p
    using that assms by (cases "j < length (s_heap t)") (auto simp: hands_down_def)
  moreover have "length (s_heap s) \<le> length (s_heap u)" using assms by (simp add: hands_down_def)
  moreover have "dc_context (s_heap u ! j) = dc_context (s_heap s ! j) \<and> dc_parent (s_heap u ! j) = dc_parent (s_heap s ! j)"
    if "j < length (s_heap s)" for j
    using that assms by (simp add: hands_down_def)
  ultimately show ?thesis by (simp add: hands_down_def)
qed

lemma handed_same: "s_heap t = s_heap s \<Longrightarrow> hands_down s t"
  by (simp add: hands_down_def)

lemma handed_cong: "hands_down s t \<Longrightarrow> s_heap s' = s_heap s \<Longrightarrow> s_heap t' = s_heap t \<Longrightarrow> hands_down s' t'"
  by (simp add: hands_down_def)

lemma handed_upd:
  assumes "\<And>x. dc_context (f x) = dc_context x" "\<And>x. dc_parent (f x) = dc_parent x"
  shows "hands_down s (upd_ctx c f s)"
  using assms by (cases "c < length (s_heap s)") (auto simp: hands_down_def upd_ctx_def nth_list_update list_update_beyond)

lemma handed_new:
  assumes "s_heap t = s_heap s @ [x]" "\<And>p. p < length (s_heap s) \<Longrightarrow> dc_parent x = Some p \<Longrightarrow> dc_context x = dc_context (s_heap s ! p)"
  shows "hands_down s t"
  using assms by (auto simp: hands_down_def nth_append less_Suc_eq)

lemma heap_quiet [simp]:
  "s_heap (spawn g s) = s_heap s" "s_heap (emit ev s) = s_heap s" "s_heap (SubmitTack c task s) = s_heap s"
  "s_heap (snd (copy_msg E msg s)) = s_heap s"
  by (simp_all add: spawn_def emit_def SubmitTack_def copy_msg_def case_prod_beta Let_def split: option.split)

lemma heap_onDebug [simp]: "s_heap (onDebug E c fl msg r err s) = s_heap s"
  by (simp add: onDebug_def case_prod_beta Let_def)

lemma heap_before [simp]: "s_heap (snd (before_aop E c r aops msg s)) = s_heap s"
  by (induction E c r aops msg s rule: before_aop.induct) (simp_all add: case_prod_beta Let_def split: option.split)

lemma heap_after [simp]: "s_heap (snd (after_aop E c err r aops msg s)) = s_heap s"
  by (induction E c err r aops msg s rule: after_aop.induct) (simp_all add: case_prod_beta Let_def split: option.split)

lemma heap_dispatch [simp]:
  "s_heap (snd (executeAfterAop E c msg err r s)) = s_heap s" "s_heap (snd (executeAroundAop E c msg r s)) = s_heap s"
  "s_heap (snd (around_aop c m0 msg r aops t s)) = s_heap s" "s_heap (snd (getNextNodes c r s)) = s_heap s"
  "s_heap (snd (DoOnEnd c msg err r s)) = s_heap s" "s_heap (tellFirst E c msg err s) = s_heap s"
  by (simp_all add: executeAfterAop_def executeAroundAop_def getNextNodes_def DoOnEnd_def tellFirst_def case_prod_beta Let_def
      split: option.split)
    (cases aops; simp add: case_prod_beta Let_def split: option.split)

lemma heap_tell [simp]: "s_heap (snd (tell E c msg err rels s)) = s_heap s"
  by (simp add: tell_def Let_def split: option.split)

lemma handed_childReady: "hands_down s (childReady c s)"
  unfolding childReady_def by (rule handed_upd) simp_all

lemma handed_childDone: "hands_down s (snd (childDone c s))"
  by (simp add: childDone_def Let_def handed_upd)

lemma handed_completed: "hands_down s (snd (completed c s))"
  by (simp add: completed_def split: option.split)

lemma handed_set_done: "hands_down s (snd (set_done c f s))"
  by (simp add: set_done_def handed_upd)

lemma handed_dispatch1: "hands_down s (dispatch1 E c msg var item s)"
  by (rule handed_cong [OF handed_childReady]) (simp_all add: dispatch1_def case_prod_beta Let_def)

lemma handed_tell_rels: "hands_down s (snd (tell_rels E c msg err rels var s))"
  by (cases rels) (auto simp: case_prod_beta Let_def intro: handed_same)

lemma handed_tellNext: "hands_down s (snd (tellNext E c msg nextNode r s))"
  by (rule handed_new [of _ _ "NewNextNodeRuleContext c nextNode s"])
    (simp_all add: tellNext_def case_prod_beta Let_def, simp add: NewNextNodeRuleContext_def ctx_at_def Let_def)

lemma onMsgAndWait_root:
  assumes "Get (s_engines s) key = Some e" "re_root e = Some rc" "rc_root rc = Some self"
  shows "\<exists>x. s_heap (snd (onMsgAndWait E key msg wait endFunc doneFunc s)) = s_heap s @ [x] \<and> dc_context x = 0 \<and> dc_parent x = None"
  using assms by (simp add: onMsgAndWait_def Let_def case_prod_beta upd_ctx_def)

lemma onMsgAndWait_refused:
  assumes "\<nexists>e rc self. Get (s_engines s) key = Some e \<and> re_root e = Some rc \<and> rc_root rc = Some self"
  shows "s_heap (snd (onMsgAndWait E key msg wait endFunc doneFunc s)) = s_heap s"
  using assms by (auto simp: onMsgAndWait_def split: option.split)

lemma handed_onMsgAndWait: "hands_down s (snd (onMsgAndWait E key msg wait endFunc doneFunc s))"
proof (cases "\<exists>e rc self. Get (s_engines s) key = Some e \<and> re_root e = Some rc \<and> rc_root rc = Some self")
  case True
  then obtain x where "s_heap (snd (onMsgAndWait E key msg wait endFunc doneFunc s)) = s_heap s @ [x]" "dc_parent x = None"
    using onMsgAndWait_root by blast
  then show ?thesis by (auto intro: handed_new)
next
  case False
  then show ?thesis by (intro handed_same onMsgAndWait_refused)
qed

lemma handed_do_call:
  assumes "\<And>v. call \<noteq> CSetContext v"
  shows "hands_down s (snd (do_call E c call s))"
proof -
  have "hands_down s (snd (ExecuteNode E c nodeId msg skip cb s))" for nodeId msg skip cb
    by (auto simp: ExecuteNode_def Let_def intro!: handed_new split: option.split)
  then show ?thesis using assms
    by (auto simp: do_call_def TellFlow_def handed_onMsgAndWait setter_defs intro: handed_same handed_upd split: ctx_call.split option.split)
qed

lemma handed_callbacks:
  "hands_down s (snd (node_OnMsg E c msg s))" "hands_down s (snd (end_fn_call E f c msg err r s))" "hands_down s (snd (done_fn_call E g s))"
  by (auto simp: node_OnMsg_def end_fn_call_def done_fn_call_def Let_def case_prod_beta intro!: handed_same
      split: option.split node_ref.split end_fn.split done_fn.split)

lemma handed_unwind: "hands_down s (snd (unwind E e k s))"
  by (induction E e k s rule: unwind.induct)
    (auto simp: tellNext_recover_def Let_def case_prod_beta intro: handed_same elim: handed_cong)

lemma handed_exec:
  assumes "\<not> sets_context (i # rest)"
  shows "hands_down s (snd (exec E i s))"
proof (cases "\<exists>c call calls pan. i = ICalls c (call # calls) pan")
  case True
  then obtain c call calls pan where i: "i = ICalls c (call # calls) pan" by blast
  with assms have "call \<noteq> CSetContext v" for v by auto
  from handed_do_call [OF this] i show ?thesis by (simp add: case_prod_beta Let_def)
next
  case False
  then show ?thesis
    by (cases i) (auto simp: handed_onMsgAndWait first_task_def handed_tellNext handed_callbacks handed_tell_rels
      handed_dispatch1 handed_childDone handed_completed handed_set_done Let_def case_prod_beta intro: handed_same split: list.split option.split)
qed

lemma handed_step: "keeping_step E s t \<Longrightarrow> hands_down s t"
proof (induction rule: keeping_step.induct)
  case (1 i s)
  have "hands_down s (snd (exec_go E k s))" if "\<not> sets_context k" for k
  proof (cases k)
    case (Cons a rest)
    with that have "hands_down s (snd (exec E a s))" using handed_exec by blast
    then show ?thesis unfolding Cons
      by (auto simp del: exec.simps simp: handed_unwind Let_def case_prod_beta split: action.split list.split option.split)
  qed simp
  with 1 have "hands_down s (snd (exec_go E (s_gos s ! i) s))" by blast
  then show ?case by (rule handed_cong) (simp_all add: step_at_def case_prod_beta Let_def)
qed

lemma handed_steps: "(keeping_step E)\<^sup>*\<^sup>* s t \<Longrightarrow> hands_down s t"
  by (induction rule: rtranclp_induct) (auto intro: handed_trans handed_step)

text \<open>The context among the first \<open>n\<close> that a context descends from. A sub chain and a node run by
  \<open>ExecuteNode\<close> have root contexts of their own.\<close>

fun from_before :: "nat \<Rightarrow> 'w DefaultRuleContext list \<Rightarrow> nat \<Rightarrow> nat option" where
  "from_before n h j =
     (if j < n then Some j
      else case dc_parent (h ! j) of Some p \<Rightarrow> if p < j then from_before n h p else None | None \<Rightarrow> None)"

declare from_before.simps [simp del]

lemma from_before_context:
  assumes "hands_down s t"
  shows "from_before (length (s_heap s)) (s_heap t) j = Some p \<Longrightarrow> j < length (s_heap t) \<Longrightarrow>
    p < length (s_heap s) \<and> dc_context (s_heap t ! j) = dc_context (s_heap s ! p)"
proof (induction j rule: less_induct)
  case (less j)
  show ?case
  proof (cases "j < length (s_heap s)")
    case True
    with less.prems assms show ?thesis by (subst (asm) from_before.simps) (auto simp: hands_down_def)
  next
    case False
    with less.prems obtain q where q: "dc_parent (s_heap t ! j) = Some q" "q < j"
      "from_before (length (s_heap s)) (s_heap t) q = Some p"
      by (subst (asm) from_before.simps) (auto split: option.splits if_splits)
    with less.prems(2) assms False have "dc_context (s_heap t ! j) = dc_context (s_heap t ! q)"
      by (simp add: hands_down_def)
    with less.IH [OF q(2,3)] q(2) less.prems(2) show ?thesis by simp
  qed
qed

text \<open>C20: the \<open>context.Context\<close> of a run is handed from node to node. A run with options begins with a
  root context that has the context of the last \<open>WithContext\<close> (or the one of the engine if there is
  none). In any later state \<open>s\<close> of the run some nodes may have changed their own with \<open>SetContext\<close>; while
  no further \<open>SetContext\<close> is called, whatever the schedule, the nodes and the aspects do, every rule
  context made after \<open>s\<close> has the context that the rule context it descends from had in \<open>s\<close>.\<close>

theorem context_handed_down:
  assumes "Get g key = Some e" "re_root e = Some rc" "rc_root rc = Some self"
    and "onMsgAndWait_with E key msg wait (map with_given xs) (init_sys g w) = (k, s0)" "(step E)\<^sup>*\<^sup>* (spawn k s0) s"
    and "(keeping_step E)\<^sup>*\<^sup>* s t"
    and "j < length (s_heap t)" "from_before (length (s_heap s)) (s_heap t) j = Some p"
  shows "dc_context (s_heap s0 ! 0) = given_context xs \<and> dc_context (s_heap t ! j) = dc_context (s_heap s ! p)"
proof
  obtain k' s' where r: "onMsgAndWait E key msg wait (given_end xs) (given_completed xs) (init_sys g w) = (k', s')" by fastforce
  then have s: "s0 = upd_ctx 0 (SetContext (given_context xs)) s'"
    using assms(4) options_last_wins [of E key msg wait xs "init_sys g w"] by (simp add: init_sys_def)
  have "length (s_heap s') = 1"
    using r assms(1-3) onMsgAndWait_root [of "init_sys g w" key e rc self E msg wait "given_end xs" "given_completed xs"]
    by (auto simp: init_sys_def)
  then show "dc_context (s_heap s0 ! 0) = given_context xs" by (simp add: s upd_ctx_def SetContext_def)
  show "dc_context (s_heap t ! j) = dc_context (s_heap s ! p)"
    using from_before_context [OF handed_steps [OF assms(6)] assms(8,7)] by simp
qed

text \<open>A sub chain does not get it: \<open>TellFlow\<close> starts the chain without this option.\<close>

theorem flow_starts_without_context:
  assumes "Get (s_engines s) chainId = Some e" "re_root e = Some rc" "rc_root rc = Some self"
    and "TellFlow E c msg chainId cb s = (k, t)"
  shows "length (s_heap t) = Suc (length (s_heap s)) \<and> dc_context (s_heap t ! length (s_heap s)) = 0"
  using assms(1,4) onMsgAndWait_root [OF assms(1-3), of E msg False "map_option (NodeEnd c) cb" "map_option (NodeDone c) cb"]
  by (auto simp: TellFlow_def)

section \<open>A concrete run\<close>

text \<open>Every node of the chain sets the context to 9 before it passes the message on.\<close>

definition shared_options :: "given list" where
  "shared_options = [GivenContext 7, GivenEnd (Some (UserEnd 1)), GivenContext 5]"

definition setting_env :: "(Configuration, unit) env" where
  "setting_env = demo_env\<lparr>env_ops := demo_ops\<lparr>n_OnMsg := (\<lambda>_ _ msg w. (([CSetContext 9, TellSuccess msg], None), w))\<rparr>\<rparr>"

definition shared_start :: "unit action list \<times> (Configuration, unit) sys" where
  "shared_start = onMsgAndWait_with setting_env ''rule01'' demo_msg False (map with_given shared_options)
     (init_sys [(''rule01'', demo_run)] ())"

text \<open>The first node has set its context.\<close>

definition shared_set :: "(Configuration, unit) sys" where
  "shared_set = run setting_env (replicate 5 0) (spawn (fst shared_start) (snd shared_start))"

fun keep_running :: "('n, 'w) env \<Rightarrow> nat list \<Rightarrow> ('n, 'w) sys \<Rightarrow> ('n, 'w) sys" where
  "keep_running E [] s = s"
| "keep_running E (i # is) s =
     keep_running E is (if i < length (s_gos s) \<and> runnable s (s_gos s ! i) \<and> s_crashed s = None \<and> \<not> sets_context (s_gos s ! i)
               then step_at E i s else s)"

lemma keep_running_steps: "(keeping_step E)\<^sup>*\<^sup>* s (keep_running E is s)"
proof (induction "is" arbitrary: s)
  case (Cons i "is")
  show ?case
  proof (cases "i < length (s_gos s) \<and> runnable s (s_gos s ! i) \<and> s_crashed s = None \<and> \<not> sets_context (s_gos s ! i)")
    case True
    then have "keeping_step E s (step_at E i s)" by (blast intro: keeping_step.intros)
    with Cons [of "step_at E i s"] True show ?thesis by (simp add: converse_rtranclp_into_rtranclp)
  next
    case False
    with Cons [of s] show ?thesis by auto
  qed
qed simp

definition shared_end :: "(Configuration, unit) sys" where
  "shared_end = keep_running setting_env (replicate 8 0 @ replicate 8 2) shared_set"

theorem context_handed_down_witness:
  "dc_context (s_heap (snd shared_start) ! 0) = 5 \<and> length (s_heap shared_end) = 3 \<and> dc_context (s_heap shared_end ! 2) = 9"
proof -
  have "(step setting_env)\<^sup>*\<^sup>* (spawn (fst shared_start) (snd shared_start)) shared_set"
    unfolding shared_set_def by (rule run_steps)
  moreover have "(keeping_step setting_env)\<^sup>*\<^sup>* shared_set shared_end"
    unfolding shared_end_def by (rule keep_running_steps)
  moreover have "onMsgAndWait_with setting_env ''rule01'' demo_msg False (map with_given shared_options)
      (init_sys [(''rule01'', demo_run)] ()) = (fst shared_start, snd shared_start)"
    by (simp add: shared_start_def)
  moreover have "Get [(''rule01'', demo_run)] ''rule01'' = Some demo_run" "re_root demo_run = Some demo_rc"
    by (simp_all add: Get_def demo_run_def)
  moreover have h: "length (s_heap shared_end) = 3" "from_before (length (s_heap shared_set)) (s_heap shared_end) 2 = Some 1"
    "dc_context (s_heap shared_set ! 1) = 9" by code_simp+
  moreover have "given_context shared_options = 5" by code_simp
  ultimately show ?thesis
    using context_handed_down [of "[(''rule01'', demo_run)]" "''rule01''" demo_run demo_rc _ setting_env demo_msg False shared_options
        "()" "fst shared_start" "snd shared_start" shared_set shared_end 2 1] demo_rc_simps(3)
    by simp
qed

end
