(* ===== verification/PluginNodes.thy ===== *)
theory PluginNodes
  imports Builtin Routes Forms
begin

text \<open>
  The plugin of \<open>examples/plugin/my_plugin.go\<close>: three components that are loaded from a file at run time, with
  their way through the loader and the registry, and the runs of a chain that is made of them. The
  formatted time is an argument.
\<close>

datatype plugin_node = UpperNode | TimeNode | FilterNode (blacklist: "(string, bool) gomap option")

fun plugin_Type :: "plugin_node \<Rightarrow> string" where
  "plugin_Type UpperNode = ''test/upper''"
| "plugin_Type TimeNode = ''test/time''"
| "plugin_Type (FilterNode _) = ''test/filter''"

fun plugin_New :: "plugin_node \<Rightarrow> plugin_node" where
  "plugin_New UpperNode = UpperNode"
| "plugin_New TimeNode = TimeNode"
| "plugin_New (FilterNode _) = FilterNode None"

definition plugin_Init :: "plugin_node \<Rightarrow> 'w Config \<Rightarrow> Configuration \<Rightarrow> error + plugin_node" where
  "plugin_Init n ruleConfig configuration = Inr n"

definition UpperNode_OnMsg :: "RuleMsg \<Rightarrow> ctx_call list \<times> string option" where
  "UpperNode_OnMsg msg = ([TellSuccess (msg\<lparr>Data := ToUpper (Data msg)\<rparr>)], None)"

definition TimeNode_OnMsg :: "string \<Rightarrow> RuleMsg \<Rightarrow> ctx_call list \<times> string option" where
  "TimeNode_OnMsg rfc3339 msg =
     (case PutValue (MsgMetadata msg) ''timestamp'' rfc3339 of
        Inl e \<Rightarrow> ([], Some e)
      | Inr md \<Rightarrow> ([TellSuccess (msg\<lparr>MsgMetadata := md\<rparr>)], None))"

text \<open>Reading a nil map, or a key that is not in a map, gives false. \<open>TellNext\<close> is called without a relation.\<close>

definition listed :: "(string, bool) gomap option \<Rightarrow> string \<Rightarrow> bool" where
  "listed m k = (case m of None \<Rightarrow> False | Some m \<Rightarrow> map_of m k = Some True)"

definition FilterNode_OnMsg :: "(string, bool) gomap option \<Rightarrow> RuleMsg \<Rightarrow> ctx_call list \<times> string option" where
  "FilterNode_OnMsg bl msg =
     (if listed bl (MsgType msg) \<or> listed bl (DataType msg) then ([], None) else ([TellNext msg None], None))"

definition plugin_OnMsg :: "('w \<Rightarrow> string) \<Rightarrow> plugin_node \<Rightarrow> ctx_view \<Rightarrow> RuleMsg \<Rightarrow> 'w \<Rightarrow> (ctx_call list \<times> string option) \<times> 'w" where
  "plugin_OnMsg now n v msg w =
     ((case n of UpperNode \<Rightarrow> UpperNode_OnMsg msg | TimeNode \<Rightarrow> TimeNode_OnMsg (now w) msg | FilterNode bl \<Rightarrow> FilterNode_OnMsg bl msg), w)"

text \<open>Destroying does nothing, and no callback is passed on.\<close>

definition plugin_ops :: "('w \<Rightarrow> string) \<Rightarrow> (plugin_node, 'w) node_ops" where
  "plugin_ops now = \<lparr>n_Init = plugin_Init, n_OnMsg = plugin_OnMsg now, n_Destroy = (\<lambda>_ w. w),
     n_OnEnd = (\<lambda>_ _ _ _ _ w. ([], w)), n_OnDone = (\<lambda>_ _ w. ([], w))\<rparr>"

definition plugin_component :: "plugin_node \<Rightarrow> plugin_node component" where
  "plugin_component n = \<lparr>cmp_Type = plugin_Type n, cmp_New = plugin_New n\<rparr>"

definition MyPlugins_Components :: "plugin_node component list" where
  "MyPlugins_Components = map plugin_component [UpperNode, TimeNode, FilterNode None]"

section \<open>Loading\<close>

text \<open>the plugin is found where it is put. If the file opens and its symbol is the plugin, and none of
  its types is taken, the components are registered under their types, all others are as before, and an
  instance of the filter comes without a blacklist.\<close>

theorem plugin_is_registered:
  assumes "op path = Inr lookup" "lookup PluginsSymbol = Inr (PluginRegistry MyPlugins_Components)"
    and "\<forall>c \<in> set MyPlugins_Components. reg_lookup r (cmp_Type c) = None"
  shows "\<exists>r'. RegisterPluginFile op name path r = (None, r') \<and>
    NewNode ''test/upper'' r' = Inr UpperNode \<and> NewNode ''test/time'' r' = Inr TimeNode \<and>
    NewNode ''test/filter'' r' = Inr (FilterNode None) \<and>
    (\<forall>t. t \<notin> cmp_Type ` set MyPlugins_Components \<longrightarrow> reg_lookup r' t = reg_lookup r t)"
proof -
  from assms(3) have "find (\<lambda>node. map_of (gm_of (reg_components r)) (cmp_Type node) \<noteq> None) MyPlugins_Components = None"
    by (auto simp: find_None_iff reg_lookup_def)
  moreover have free: "map_of (gm_of (reg_components r)) t = None" if "t \<in> {''test/upper'', ''test/time'', ''test/filter''}" for t
    using assms(3) that by (auto simp: reg_lookup_def MyPlugins_Components_def plugin_component_def)
  ultimately show ?thesis using assms(1,2)
    by (simp add: RegisterPluginFile_def Plugin_Init_def loadPlugin_def Plugin_Components_def RegisterPlugin_def)
      (simp add: MyPlugins_Components_def plugin_component_def Register_def Let_def NewNode_def reg_lookup_def)
qed

theorem plugin_is_registered_witness:
  "\<exists>r'. RegisterPluginFile (\<lambda>_. Inr (\<lambda>_. Inr (PluginRegistry MyPlugins_Components))) ''test'' ''./plugin.so''
      new_RuleComponentRegistry = (None, r') \<and> NewNode ''test/filter'' r' = Inr (FilterNode None)"
  using plugin_is_registered [of "\<lambda>_. Inr (\<lambda>_. Inr (PluginRegistry MyPlugins_Components))" "''./plugin.so''" _
      new_RuleComponentRegistry "''test''"]
  by (auto simp: new_RuleComponentRegistry_def reg_lookup_def)

section \<open>Running\<close>

text \<open>An instance as \<open>New\<close> makes it, which \<open>Init\<close> leaves as it is.\<close>

definition fresh_node :: "plugin_node \<Rightarrow> bool" where
  "fresh_node n = (plugin_New n = n)"

lemma plugin_linear:
  assumes "fresh_node n"
  shows "linear_result (fst (plugin_OnMsg now n v msg w))"
    and "call \<in> set (fst (fst (plugin_OnMsg now n v msg w))) \<Longrightarrow> \<not> defers call"
  using assms by (cases n; auto simp: plugin_OnMsg_def UpperNode_OnMsg_def TimeNode_OnMsg_def FilterNode_OnMsg_def listed_def tell_defs
      linear_result_def fresh_node_def split: sum.splits)+

text \<open>A chain of the components of the plugin, as they are created, completes under every schedule
  when it has no cycle and no fan-out.\<close>

theorem plugin_chain_completes:
  assumes "env_ops E = plugin_ops now" "builtin_engine E e fresh_node" "Get g key = Some e"
    and "user_end endFunc" "user_done doneFunc"
  shows "(\<nexists>f. f 0 = OnMsgAndWait key msg endFunc doneFunc (init_sys g w) \<and> (\<forall>i. step E (f i) (f (Suc i)))) \<and>
    (\<forall>s. (step E)\<^sup>*\<^sup>* (OnMsgAndWait key msg endFunc doneFunc (init_sys g w)) s \<longrightarrow>
       s_crashed s = None \<and>
       ((\<nexists>s'. step E s s') \<longrightarrow> count_list (s_trace s) (EvCompleted key 0) = 1 \<and> (\<forall>g \<in> set (s_gos s). g = [])))"
  using assms(2-5)
  by (rule simple_engine_total)
    (auto simp: nodes_linear_def nodes_prompt_def assms(1) plugin_ops_def intro: plugin_linear(1) dest: plugin_linear(2))

text \<open>The filter passes nothing on: a call of \<open>TellNext\<close> without a relation is the end of the branch, whatever
  the node is connected to.\<close>

theorem plugin_filter_ends_branch:
  assumes "plugin_OnMsg now (FilterNode None) v msg w = ((calls, pan), w')" "\<not> dc_isFirst (ctx_at s c)"
  shows "pan = None \<and> (\<exists>call. calls = [call] \<and> do_call E c call s = DoOnEnd c msg None [] s)"
  using assms by (auto simp: plugin_OnMsg_def FilterNode_OnMsg_def listed_def TellNext_def do_call_def tell_def)

text \<open>A message on the blacklist is not answered at all, and its branch does not end.\<close>

theorem plugin_filter_drops:
  "listed bl (MsgType msg) \<Longrightarrow> plugin_OnMsg now (FilterNode bl) v msg w = (([], None), w)"
  by (simp add: plugin_OnMsg_def FilterNode_OnMsg_def)

end
