(* ===== verification/ComponentRun.thy ===== *)
theory ComponentRun
  imports Endpoint Completion
begin

text \<open>
  A router that runs a component itself (\<open>ComponentExecutor.Execute\<close> of \<open>endpoint/endpoint.go\<close>) in the
  engine model: the component gets a context of its own, without a chain, a node or a parent, and the
  caller waits for its completion callback. The empty name stands for the chain that is nil: no engine
  has it. The completion callback only closes the channel of the caller; it is the callback of \<open>Run\<close>
  for that name, which runs no aspects as there is no engine, and its event marks the closing.
\<close>

definition start_component ::
  "('n, 'w) env \<Rightarrow> 'n \<Rightarrow> 'w Config \<Rightarrow> RuleMsg \<Rightarrow> bool \<Rightarrow> nat \<Rightarrow> ('n, 'w) sys \<Rightarrow> ('n, 'w) sys" where
  "start_component E component config inMsg wait k s =
     (let r = length (s_heap s);
          ruleCtx = NewRuleContext E 0 config [] None None (cfg_Pool config) (Some (UserEnd k));
          ruleCtx = (if wait then ruleCtx\<lparr>dc_onAllNodeCompleted := Some (EngineDone [] r inMsg True None)\<rparr> else ruleCtx);
          s = s\<lparr>s_heap := s_heap s @ [ruleCtx]\<rparr>;
          ((calls, pan), w) = n_OnMsg (env_ops E) component (view_of s r) inMsg (s_world s)
      in spawn (ICalls r calls pan # (if wait then [IAwait r] else [])) (s\<lparr>s_world := w\<rparr>))"

definition empty_view :: ctx_view where
  "empty_view = \<lparr>cv_self = None, cv_from = None, cv_chain = None, cv_debug = False\<rparr>"

section \<open>The states of a run\<close>

text \<open>The caller has three positions, the goroutines of the engine nine.\<close>

fun caller_at :: "nat \<Rightarrow> 'w action list" where
  "caller_at a = (if a = 0 then [ICalls 0 [] None, IAwait 0] else if a = 1 then [IAwait 0] else [])"

definition engine_at :: "RuleMsg \<Rightarrow> error option \<Rightarrow> nat \<Rightarrow> RuleMsg \<Rightarrow> nat \<Rightarrow> 'w action list list" where
  "engine_at m e k inMsg b =
     (if b = 0 then [[IFirst 0 m e]]
      else [[], (if b = 1 then [IEnd 0 m e []] else if b = 2 then [IEndFn (UserEnd k) 0 m e [], IDone 0]
                 else if b = 3 then [IDone 0] else if b = 4 then [ICompleted 0]
                 else if b = 5 then [ISetDone 0 (EngineDone [] 0 inMsg True None)]
                 else if b = 6 then [IDoneFn (EngineDone [] 0 inMsg True None)] else if b = 7 then [IClose 0] else [])])"

definition trace_at :: "RuleMsg \<Rightarrow> error option \<Rightarrow> nat \<Rightarrow> nat \<Rightarrow> event list" where
  "trace_at m e k b = (if 3 \<le> b then [EvUserEnd k 0 m e []] else []) @ (if 7 \<le> b then [EvCompleted [] 0] else []) @
     (if 8 \<le> b then [EvClosed 0] else [])"

definition ctx_stage :: "'w DefaultRuleContext \<Rightarrow> nat \<Rightarrow> 'w DefaultRuleContext" where
  "ctx_stage x b =
     (let x = (if 4 \<le> b then x\<lparr>dc_waitingCount := -1\<rparr> else x)
      in if 6 \<le> b then x\<lparr>dc_onAllNodeCompletedDone := True\<rparr> else x)"

definition component_state ::
  "('n, 'w) RuleGo \<Rightarrow> 'w DefaultRuleContext \<Rightarrow> RuleMsg \<Rightarrow> error option \<Rightarrow> nat \<Rightarrow> RuleMsg \<Rightarrow> 'w \<Rightarrow> nat \<Rightarrow> nat \<Rightarrow> ('n, 'w) sys" where
  "component_state g x m e k inMsg w a b =
     \<lparr>s_engines = g, s_heap = [ctx_stage x b], s_vars = [], s_gos = caller_at a # engine_at m e k inMsg b,
      s_trace = trace_at m e k b, s_world = w, s_tick = 1, s_crashed = None\<rparr>"

lemmas stage_defs = component_state_def engine_at_def trace_at_def ctx_stage_def

definition component_ready :: "('n, 'w) RuleGo \<Rightarrow> 'w DefaultRuleContext \<Rightarrow> RuleMsg \<Rightarrow> nat \<Rightarrow> bool" where
  "component_ready g x inMsg k =
     (Get g [] = None \<and> dc_self x = None \<and> dc_isFirst x \<and> dc_parent x = None \<and> dc_pool x = None \<and>
      \<not> cfg_OnEnd (dc_config x) \<and> dc_onEnd x = Some (UserEnd k) \<and>
      dc_onAllNodeCompleted x = Some (EngineDone [] 0 inMsg True None) \<and>
      \<not> dc_onAllNodeCompletedDone x \<and> dc_waitingCount x = 0)"

lemma stage_fields:
  assumes "component_ready g x inMsg k"
  shows "dc_self (ctx_stage x b) = None" "dc_parent (ctx_stage x b) = None" "dc_pool (ctx_stage x b) = None"
    "dc_config (ctx_stage x b) = dc_config x" "dc_onEnd (ctx_stage x b) = Some (UserEnd k)"
    "dc_onAllNodeCompleted (ctx_stage x b) = Some (EngineDone [] 0 inMsg True None)"
    "Get g [] = None" "\<not> cfg_OnEnd (dc_config x)" "\<not> dc_onAllNodeCompletedDone x" "dc_waitingCount x = 0"
  using assms by (simp_all add: ctx_stage_def Let_def component_ready_def)

lemma moves:
  assumes R: "component_ready g x inMsg k" and "b < 8"
  shows "step_at E (if b = 0 then 1 else 2) (component_state g x m e k inMsg w a b) = component_state g x m e k inMsg w a (Suc b)"
proof -
  from assms(2) consider "b = 0" | "b = 1" | "b = 2" | "b = 3" | "b = 4" | "b = 5" | "b = 6" | "b = 7" by linarith
  then show ?thesis
    by cases (simp_all add: stage_defs step_at_def first_task_def DoOnEnd_def ctx_at_def SubmitTack_def spawn_def
        end_fn_call_def emit_def childDone_def completed_def set_done_def done_fn_call_def upd_ctx_def wrap32_def Let_def
        R [unfolded component_ready_def])
qed

lemma caller_moves:
  "step_at E 0 (component_state g x m e k inMsg w 0 b) = component_state g x m e k inMsg w 1 b"
  "step_at E 0 (component_state g x m e k inMsg w 1 b) = component_state g x m e k inMsg w 2 b"
  by (simp_all add: component_state_def step_at_def)

lemma closed_iff: "EvClosed 0 \<in> set (trace_at m e k b) \<longleftrightarrow> 8 \<le> b"
  by (simp add: trace_at_def)

lemma step_state:
  assumes R: "component_ready g x inMsg k"
    and "step E (component_state g x m e k inMsg w a b) t" "a \<le> 2" "b \<le> 8" "a = 2 \<longrightarrow> b = 8"
  shows "\<exists>a' b'. t = component_state g x m e k inMsg w a' b' \<and> a' \<le> 2 \<and> b' \<le> 8 \<and> (a' = 2 \<longrightarrow> b' = 8) \<and> a + b < a' + b'"
  using assms(2)
proof cases
  case (step i)
  then consider "i = 0" "a = 0" | "i = 0" "a = 1" "b = 8" | "i = (if b = 0 then 1 else 2)" "b < 8"
    using assms(3-5) closed_iff [of m e k b]
    by (auto simp: component_state_def engine_at_def runnable_def less_Suc_eq split: if_splits)
  then show ?thesis
  proof cases
    case 1
    then show ?thesis using step(1) assms caller_moves(1) by (intro exI [of _ 1] exI [of _ b]) auto
  next
    case 2
    then show ?thesis using step(1) caller_moves(2) by (intro exI [of _ 2] exI [of _ 8]) simp
  next
    case 3
    then show ?thesis using step(1) assms moves [OF R, of b E m e w a] by (intro exI [of _ a] exI [of _ "Suc b"]) auto
  qed
qed

lemma stuck_state:
  assumes "\<nexists>t. step E (component_state g x m e k inMsg w a b) t" "a \<le> 2" "b \<le> 8"
  shows "a = 2 \<and> b = 8"
proof -
  let ?s = "component_state g x m e k inMsg w a b"
  have n: "\<not> (i < length (s_gos ?s) \<and> runnable ?s (s_gos ?s ! i))" for i
    using assms(1) step.intros [of i ?s E] by (auto simp: component_state_def)
  have "b = 8"
  proof (rule ccontr)
    assume "b \<noteq> 8"
    with n [of "if b = 0 then 1 else 2"] assms(3) show False
      by (auto simp: component_state_def engine_at_def runnable_def split: if_splits)
  qed
  with n [of 0] assms(2) closed_iff [of m e k 8] show ?thesis
    by (auto simp: component_state_def runnable_def split: if_splits)
qed

lemma reach_state:
  assumes R: "component_ready g x inMsg k" and "(step E)\<^sup>*\<^sup>* (component_state g x m e k inMsg w 0 0) t"
  shows "\<exists>a b. t = component_state g x m e k inMsg w a b \<and> a \<le> 2 \<and> b \<le> 8 \<and> (a = 2 \<longrightarrow> b = 8)"
  using assms(2)
proof (induction rule: rtranclp_induct)
  case base
  show ?case by (intro exI [of _ 0]) simp
next
  case (step s t)
  then show ?case using step_state [OF R] by blast
qed

lemma not_endless:
  assumes R: "component_ready g x inMsg k"
  shows "f 0 = component_state g x m e k inMsg w a b \<Longrightarrow> a \<le> 2 \<Longrightarrow> b \<le> 8 \<Longrightarrow> a = 2 \<longrightarrow> b = 8 \<Longrightarrow>
    \<not> (\<forall>i. step E (f i) (f (Suc i)))"
proof (induction "10 - (a + b)" arbitrary: a b f rule: less_induct)
  case less
  show ?case
  proof
    assume f: "\<forall>i. step E (f i) (f (Suc i))"
    from spec [OF f, of 0] less.prems(1) have "step E (component_state g x m e k inMsg w a b) (f (Suc 0))" by simp
    from step_state [OF R this less.prems(2-4)] obtain a' b' where t: "f (Suc 0) = component_state g x m e k inMsg w a' b'"
      "a' \<le> 2" "b' \<le> 8" "a' = 2 \<longrightarrow> b' = 8" "a + b < a' + b'" by blast
    have "10 - (a' + b') < 10 - (a + b)" using t less.prems by linarith
    from less.hyps [OF this, of "\<lambda>i. f (Suc i)"] t f show False by auto
  qed
qed

section \<open>Every run\<close>

text \<open>What the context of the component holds when it is called.\<close>

definition component_ctx :: "('n, 'w) env \<Rightarrow> 'w Config \<Rightarrow> RuleMsg \<Rightarrow> nat \<Rightarrow> 'w DefaultRuleContext" where
  "component_ctx E config inMsg k =
     (NewRuleContext E 0 config [] None None (cfg_Pool config) (Some (UserEnd k)))\<lparr>dc_onAllNodeCompleted := Some (EngineDone [] 0 inMsg True None)\<rparr>"

lemma component_ctx_run:
  assumes "Get g [] = None" "cfg_Pool config = None" "\<not> cfg_OnEnd config"
  shows "component_ready g (component_ctx E config inMsg k) inMsg k"
proof -
  have "cfg_OnEnd (fst (GetNodeAspects (env_sort E) config)) = cfg_OnEnd config"
    by (simp add: GetNodeAspects_def Let_def)
  with assms show ?thesis
    by (simp add: component_ready_def component_ctx_def NewRuleContext_def case_prod_beta Let_def)
qed

lemma start_component_state:
  assumes "Get g [] = None" "n_OnMsg (env_ops E) component empty_view inMsg w = (([CTell msg err rels], None), w')"
  shows "start_component E component config inMsg True k (init_sys g w) =
    \<lparr>s_engines = g, s_heap = [component_ctx E config inMsg k], s_vars = [],
     s_gos = [[ICalls 0 [CTell msg err rels] None, IAwait 0]], s_trace = [], s_world = w', s_tick = 0, s_crashed = None\<rparr>"
proof -
  have "view_of (init_sys g w\<lparr>s_heap := [component_ctx E config inMsg k]\<rparr>) 0 = empty_view"
    using assms(1) by (simp add: view_of_def empty_view_def ctx_at_def component_ctx_def NewRuleContext_def case_prod_beta Let_def
        chain_of_def init_sys_def)
  with assms(2) show ?thesis
    by (simp add: start_component_def Let_def init_sys_def component_ctx_def [symmetric] spawn_def)
qed

text \<open>The first step is that of the caller; then the runs are those of the states above.\<close>

lemma first_step:
  assumes "Get g [] = None" "cfg_Pool config = None" "n_OnMsg (env_ops E) component empty_view inMsg w = (([CTell msg err rels], None), w')"
    and "step E (start_component E component config inMsg True k (init_sys g w)) t"
  shows "t = component_state g (component_ctx E config inMsg k) (Copy (env_now E 0) (env_uuid E 0) msg) err k inMsg w' 0 0"
  using assms(4) unfolding start_component_state [OF assms(1,3)]
  by cases (simp add: step_at_def do_call_def tell_def tellFirst_def copy_msg_def SubmitTack_def ctx_at_def component_ctx_def
      NewRuleContext_def case_prod_beta Let_def assms(2) spawn_def component_state_def engine_at_def trace_at_def ctx_stage_def)

lemma component_run_total:
  fixes k :: nat
  assumes "Get g [] = None" "cfg_Pool config = None" "\<not> cfg_OnEnd config"
    and "n_OnMsg (env_ops E) component empty_view inMsg w = (([CTell msg err rels], None), w')"
  defines "s0 \<equiv> start_component E component config inMsg True k (init_sys g w)"
  shows "(\<nexists>f. f 0 = s0 \<and> (\<forall>i. step E (f i) (f (Suc i)))) \<and>
    (\<forall>t. (step E)\<^sup>*\<^sup>* s0 t \<and> (\<nexists>u. step E t u) \<longrightarrow>
       (\<forall>q \<in> set (s_gos t). q = []) \<and> s_crashed t = None \<and>
       s_trace t = [EvUserEnd k 0 (Copy (env_now E 0) (env_uuid E 0) msg) err [], EvCompleted [] 0, EvClosed 0])"
proof -
  let ?m = "Copy (env_now E 0) (env_uuid E 0) msg" and ?x = "component_ctx E config inMsg k"
  note first = first_step [OF assms(1,2,4), where k = k, folded s0_def]
  note R = component_ctx_run [OF assms(1-3), of E inMsg k]
  have "\<not> (\<forall>i. step E (f i) (f (Suc i)))" if "f 0 = s0" for f
  proof
    assume f: "\<forall>i. step E (f i) (f (Suc i))"
    from spec [OF f, of 0] that have "step E s0 (f (Suc 0))" by simp
    then have "f (Suc 0) = component_state g ?x ?m err k inMsg w' 0 0" by (rule first)
    with f not_endless [OF R, of "\<lambda>i. f (Suc i)" ?m err w' 0 0 E] show False by simp
  qed
  moreover have "(\<forall>q \<in> set (s_gos t). q = []) \<and> s_crashed t = None \<and>
       s_trace t = [EvUserEnd k 0 ?m err [], EvCompleted [] 0, EvClosed 0]"
    if r: "(step E)\<^sup>*\<^sup>* s0 t" and "\<nexists>u. step E t u" for t
  proof -
    have "\<exists>u. step E s0 u"
      unfolding s0_def start_component_state [OF assms(1,4)] by (rule exI, rule step.intros [of 0]) (simp_all add: runnable_def)
    with that have n: "s0 \<noteq> t" by auto
    from r obtain u where "step E s0 u" "(step E)\<^sup>*\<^sup>* u t" by (rule converse_rtranclpE) (use n in auto)
    with first [OF this(1)] have "(step E)\<^sup>*\<^sup>* (component_state g ?x ?m err k inMsg w' 0 0) t" by simp
    from reach_state [OF R this] obtain a b where t: "t = component_state g ?x ?m err k inMsg w' a b" "a \<le> 2" "b \<le> 8" by blast
    with that(2) stuck_state [of E g ?x ?m err k inMsg w' a b] have "a = 2" "b = 8" by auto
    with t show ?thesis by (simp add: component_state_def engine_at_def trace_at_def)
  qed
  ultimately show ?thesis by blast
qed

end
