(* ===== verification/Delay.thy ===== *)
theory Delay
  imports ActionNodes
begin

text \<open>
  The delay component under concurrent messages. A message is handled in a goroutine of its own, and
  \<open>OnMsg\<close> (\<open>delay_node.go\<close>) is not one critical section: it loads the id of the pending message, reads the
  number of pending messages under the lock, lets the lock go, stores the id of its message and takes the lock again to
  put the message into the map. Here every one of these operations is a step of its own and the steps of the
  messages under way are interleaved. Run alone, the steps are \<open>DelayNode_OnMsg\<close> of the theory \<open>ActionNodes\<close>.
\<close>

section \<open>The steps of \<open>OnMsg\<close>\<close>

text \<open>The places between the operations: at the first load of the id, before the entry of that id is
  replaced, before the number is read, before the id is stored, before the message is put into the map
  (with the period in seconds), and at the end.\<close>

datatype delay_pc = DlLoad | DlReplace | DlLen | DlStore int | DlPut int | DlEnd

text \<open>One operation: the calls on the context, the next place and the node. The section for an
  acknowledgement holds the lock to its end. In the place \<open>DlReplace\<close> the id is loaded a second time.\<close>

definition delay_op :: "int \<Rightarrow> string \<Rightarrow> RuleMsg \<Rightarrow> delay_pc \<Rightarrow> DelayNode \<Rightarrow> ctx_call list \<times> delay_pc \<times> DelayNode" where
  "delay_op now uuid msg pc x =
     (case pc of
        DlLoad \<Rightarrow>
          (if MsgType msg = DelayNodeMsgType then
             (case map_of (dl_PendingMsgs x) (MsgId msg) of
                Some pendingMsg \<Rightarrow>
                  (let x = (if dl_Overwrite (dl_Config x) then x\<lparr>dl_LastPendingMsgId := []\<rparr> else x)
                   in ([TellSuccess pendingMsg], DlEnd, x\<lparr>dl_PendingMsgs := gm_del (MsgId msg) (dl_PendingMsgs x)\<rparr>))
              | None \<Rightarrow> ([TellFailure msg (Some ''msg not found'')], DlEnd, x))
           else if dl_LastPendingMsgId x \<noteq> [] then ([], DlReplace, x)
           else ([], DlLen, x))
      | DlReplace \<Rightarrow> ([], DlEnd, x\<lparr>dl_PendingMsgs := gm_put (dl_LastPendingMsgId x) msg (dl_PendingMsgs x)\<rparr>)
      | DlLen \<Rightarrow>
          (if int (length (dl_PendingMsgs x)) < dl_MaxPendingMsgs (dl_Config x) then
             (case (if dl_PeriodInSecondsPattern (dl_Config x) \<noteq> []
                    then Atoi (SprintfDict (dl_PeriodInSecondsPattern (dl_Config x)) (md_entries (MsgMetadata msg)))
                    else Inr (dl_PeriodInSeconds (dl_Config x))) of
                Inl err \<Rightarrow> ([TellFailure msg (Some err)], DlEnd, x)
              | Inr periodInSeconds \<Rightarrow> ([], DlStore periodInSeconds, x))
           else ([TellFailure msg (Some ''max limit of pending messages'')], DlEnd, x))
      | DlStore periodInSeconds \<Rightarrow>
          ([], DlPut periodInSeconds, if dl_Overwrite (dl_Config x) then x\<lparr>dl_LastPendingMsgId := MsgId msg\<rparr> else x)
      | DlPut periodInSeconds \<Rightarrow>
          (let ackMsg = (Copy now uuid msg)\<lparr>MsgType := DelayNodeMsgType\<rparr>
           in ([TellSelf ackMsg (wrap64 (periodInSeconds * 1000))], DlEnd,
               x\<lparr>dl_PendingMsgs := gm_put (MsgId msg) msg (dl_PendingMsgs x)\<rparr>))
      | DlEnd \<Rightarrow> ([], DlEnd, x))"

text \<open>The steps of one message with nothing in between.\<close>

fun delay_alone :: "nat \<Rightarrow> int \<Rightarrow> string \<Rightarrow> RuleMsg \<Rightarrow> delay_pc \<Rightarrow> DelayNode \<Rightarrow> ctx_call list \<times> delay_pc \<times> DelayNode" where
  "delay_alone 0 now uuid msg pc x = ([], pc, x)"
| "delay_alone (Suc n) now uuid msg pc x =
     (case delay_op now uuid msg pc x of
        (calls, pc, x) \<Rightarrow> (case delay_alone n now uuid msg pc x of (calls', pc, x) \<Rightarrow> (calls @ calls', pc, x)))"

text \<open>four steps are enough for a message, and alone they are the handler as a whole.\<close>

theorem delay_steps_alone:
  "delay_alone 4 now uuid msg DlLoad x =
     (case DelayNode_OnMsg now uuid msg x of (calls, x) \<Rightarrow> (calls, DlEnd, x))"
proof -
  have n: "(4 :: nat) = Suc (Suc (Suc (Suc 0)))" by simp
  show ?thesis unfolding n delay_alone.simps
    by (auto simp: delay_op_def DelayNode_OnMsg_def Let_def split: option.splits sum.splits)
qed

section \<open>Messages under way\<close>

record delay_sys =
  ds_node :: DelayNode
  ds_handlers :: "(RuleMsg \<times> delay_pc) list"
  ds_calls :: "ctx_call list"

definition delay_start :: "DelayNode \<Rightarrow> delay_sys" where
  "delay_start x = \<lparr>ds_node = x, ds_handlers = [], ds_calls = []\<rparr>"

fun inserting :: "delay_pc \<Rightarrow> bool" where
  "inserting (DlStore _) = True"
| "inserting (DlPut _) = True"
| "inserting _ = False"

definition insertions :: "delay_sys \<Rightarrow> nat" where
  "insertions s = length (filter (\<lambda>h. inserting (snd h)) (ds_handlers s))"

definition delay_move :: "int \<Rightarrow> string \<Rightarrow> nat \<Rightarrow> delay_sys \<Rightarrow> delay_sys" where
  "delay_move now uuid i s =
     (case ds_handlers s ! i of
        (msg, pc) \<Rightarrow>
          (case delay_op now uuid msg pc (ds_node s) of
             (calls, pc', x) \<Rightarrow>
               s\<lparr>ds_node := x, ds_handlers := (ds_handlers s)[i := (msg, pc')], ds_calls := ds_calls s @ calls\<rparr>))"

text \<open>A message arrives or a message under way makes a step, as long as no more than \<open>k\<close> messages
  are between the check of the limit and the map at once.\<close>

inductive delay_step :: "int \<Rightarrow> string \<Rightarrow> nat \<Rightarrow> delay_sys \<Rightarrow> delay_sys \<Rightarrow> bool" for now uuid k where
  arrive: "delay_step now uuid k s (s\<lparr>ds_handlers := ds_handlers s @ [(msg, DlLoad)]\<rparr>)"
| move: "i < length (ds_handlers s) \<Longrightarrow> insertions (delay_move now uuid i s) \<le> k \<Longrightarrow>
    delay_step now uuid k s (delay_move now uuid i s)"

section \<open>The limit\<close>

lemma length_filter_update:
  assumes "i < length xs"
  shows "length (filter P (xs[i := y])) + (if P (xs ! i) then 1 else 0) = length (filter P xs) + (if P y then 1 else 0)"
proof -
  have "mset (xs[i := y]) + {#xs ! i#} = mset xs + {#y#}" using assms by (simp add: mset_update)
  then have "filter_mset P (mset (xs[i := y])) + filter_mset P {#xs ! i#} = filter_mset P (mset xs) + filter_mset P {#y#}"
    by (metis filter_union_mset)
  from arg_cong [OF this, of size] show ?thesis by (simp flip: mset_filter split: if_splits)
qed

lemma length_put_le: "length (gm_put k v m) \<le> Suc (length m)"
  by (induction m) auto

lemma length_del_le: "length (gm_del k m) \<le> length m"
  by (simp add: AList.delete_eq)

definition delay_ok :: "nat \<Rightarrow> delay_sys \<Rightarrow> bool" where
  "delay_ok k s \<longleftrightarrow> \<not> dl_Overwrite (dl_Config (ds_node s)) \<and> dl_LastPendingMsgId (ds_node s) = [] \<and>
     distinct (map fst (dl_PendingMsgs (ds_node s))) \<and> insertions s \<le> k \<and>
     list_all (\<lambda>(m, pc). pc \<noteq> DlReplace) (ds_handlers s) \<and>
     int (length (dl_PendingMsgs (ds_node s)) + insertions s) < dl_MaxPendingMsgs (dl_Config (ds_node s)) + int k"

text \<open>One operation of a message: where it may lead and what it does to the number of pending messages.\<close>

lemma delay_op_ok:
  assumes "delay_op now uuid msg pc x = (calls, pc', x')" "\<not> dl_Overwrite (dl_Config x)" "dl_LastPendingMsgId x = []"
    and "pc \<noteq> DlReplace" "distinct (map fst (dl_PendingMsgs x))"
  shows "dl_Config x' = dl_Config x \<and> dl_LastPendingMsgId x' = [] \<and> pc' \<noteq> DlReplace \<and> distinct (map fst (dl_PendingMsgs x')) \<and>
    length (dl_PendingMsgs x') + (if inserting pc' then 1 else 0) \<le>
      length (dl_PendingMsgs x) + (if inserting pc then 1 else 0) + (if pc = DlLen \<and> inserting pc' then 1 else 0) \<and>
    (pc = DlLen \<and> inserting pc' \<longrightarrow> int (length (dl_PendingMsgs x)) < dl_MaxPendingMsgs (dl_Config x) \<and> x' = x)"
  using assms length_put_le [of "MsgId msg" msg "dl_PendingMsgs x"] length_del_le [of "MsgId msg" "dl_PendingMsgs x"]
  by (cases pc) (auto simp: delay_op_def Let_def distinct_delete split: option.splits sum.splits if_splits)

lemma delay_step_ok:
  assumes "delay_step now uuid k s s'" "delay_ok k s"
  shows "delay_ok k s' \<and> dl_Config (ds_node s') = dl_Config (ds_node s)"
  using assms(1)
proof cases
  case (arrive msg)
  with assms(2) show ?thesis by (simp add: delay_ok_def insertions_def)
next
  case (move i)
  obtain msg pc where h: "ds_handlers s ! i = (msg, pc)" by force
  obtain calls pc' x where o: "delay_op now uuid msg pc (ds_node s) = (calls, pc', x)" by (metis prod_cases3)
  have s': "s' = s\<lparr>ds_node := x, ds_handlers := (ds_handlers s)[i := (msg, pc')], ds_calls := ds_calls s @ calls\<rparr>"
    using move(1) by (simp add: delay_move_def h o)
  have pc: "pc \<noteq> DlReplace" using assms(2) move(2) h by (auto simp: delay_ok_def list_all_length)
  note f = delay_op_ok [OF o _ _ pc]
  have n: "insertions s' + (if inserting pc then 1 else 0) = insertions s + (if inserting pc' then 1 else 0)"
    using length_filter_update [OF move(2), of "\<lambda>h. inserting (snd h)" "(msg, pc')"] h by (simp add: insertions_def s')
  have k: "insertions s' \<le> k" using move by simp
  have l: "list_all (\<lambda>(m, pc). pc \<noteq> DlReplace) (ds_handlers s')"
    using assms(2) f move(2) by (auto simp: delay_ok_def s' list_all_length nth_list_update)
  have "int (length (dl_PendingMsgs x) + insertions s') < dl_MaxPendingMsgs (dl_Config x) + int k"
    using f assms(2) n k by (cases "pc = DlLen \<and> inserting pc'") (auto simp: delay_ok_def split: if_splits)
  with f assms(2) k l show ?thesis by (simp add: delay_ok_def s')
qed

text \<open>C34: The limit of pending messages under concurrency. A delay node that does not overwrite is given any messages in any
  interleaving of the operations of their handlers. If never more than \<open>k\<close> of them are at once between the check of the limit and the
  insertion, then at most \<open>MaxPendingMsgs + k - 1\<close> messages are pending, each under its own id. With one at a time that is the
  limit of the configuration.\<close>

theorem delay_limit_concurrent:
  assumes "DelayNode_Init decode configuration x0 = Inr x" "\<not> dl_Overwrite (dl_Config x)" "0 < k"
    and "(delay_step now uuid k)\<^sup>*\<^sup>* (delay_start x) s"
  shows "int (length (dl_PendingMsgs (ds_node s))) \<le> dl_MaxPendingMsgs (dl_Config x) + int k - 1 \<and>
    distinct (map fst (dl_PendingMsgs (ds_node s)))"
proof -
  have "delay_ok k s \<and> dl_Config (ds_node s) = dl_Config x"
    using assms(4)
  proof (induction rule: rtranclp_induct)
    case base
    have "dl_PendingMsgs x = []" "dl_LastPendingMsgId x = []" "0 < dl_MaxPendingMsgs (dl_Config x)"
      using assms(1) by (auto simp: DelayNode_Init_def Let_def split: prod.splits option.splits if_splits)
    with assms(2,3) show ?case by (simp add: delay_ok_def delay_start_def insertions_def)
  next
    case (step s s')
    with delay_step_ok [OF step(2)] show ?case by simp
  qed
  then show ?thesis by (auto simp: delay_ok_def)
qed

section \<open>The limit is exceeded\<close>

definition small_delay :: DelayNode where
  "small_delay = demo_delay\<lparr>dl_Config := (dl_Config demo_delay)\<lparr>dl_MaxPendingMsgs := 1\<rparr>\<rparr>"

definition over_delay :: DelayNode where
  "over_delay = demo_delay\<lparr>dl_Config := (dl_Config demo_delay)\<lparr>dl_Overwrite := True\<rparr>\<rparr>"

lemma delay_arrive_all:
  "(delay_step now uuid k)\<^sup>*\<^sup>* s (s\<lparr>ds_handlers := ds_handlers s @ map (\<lambda>m. (m, DlLoad)) ms\<rparr>)"
proof (induction ms arbitrary: s)
  case (Cons m ms)
  have "delay_step now uuid k s (s\<lparr>ds_handlers := ds_handlers s @ [(m, DlLoad)]\<rparr>)" by (rule delay_step.arrive)
  with Cons [of "s\<lparr>ds_handlers := ds_handlers s @ [(m, DlLoad)]\<rparr>"] show ?case
    by (auto intro: converse_rtranclp_into_rtranclp)
qed simp

text \<open>All messages at one place take the same step, one after the other.\<close>

lemma delay_sweep:
  assumes "\<And>m x' c'. m \<in> set ms \<Longrightarrow> Q x' \<Longrightarrow> delay_op now uuid m pc x' = (cs m, pc', f m x') \<and> Q (f m x')"
    and "length ms + length done \<le> k" "Q x"
  shows "(delay_step now uuid k)\<^sup>*\<^sup>*
      \<lparr>ds_node = x, ds_handlers = map (\<lambda>m. (m, pc')) done @ map (\<lambda>m. (m, pc)) ms, ds_calls = c\<rparr>
      \<lparr>ds_node = fold f ms x, ds_handlers = map (\<lambda>m. (m, pc')) (done @ ms), ds_calls = c @ concat (map cs ms)\<rparr>"
  using assms
proof (induction ms arbitrary: x c "done")
  case (Cons m ms)
  let ?s = "\<lparr>ds_node = x, ds_handlers = map (\<lambda>m. (m, pc')) done @ map (\<lambda>m. (m, pc)) (m # ms), ds_calls = c\<rparr>"
  let ?s' = "\<lparr>ds_node = f m x, ds_handlers = map (\<lambda>m. (m, pc')) (done @ [m]) @ map (\<lambda>m. (m, pc)) ms, ds_calls = c @ cs m\<rparr>"
  have o: "delay_op now uuid m pc x = (cs m, pc', f m x)" "Q (f m x)" using Cons.prems by auto
  have m: "delay_move now uuid (length done) ?s = ?s'"
    using o(1) by (simp add: delay_move_def nth_append list_update_append)
  have "insertions ?s' \<le> length (ds_handlers ?s')" by (simp only: insertions_def length_filter_le)
  then have "insertions (delay_move now uuid (length done) ?s) \<le> k" unfolding m using Cons.prems(2) by simp
  then have "delay_step now uuid k ?s (delay_move now uuid (length done) ?s)"
    by (rule delay_step.move [rotated]) simp
  then have 1: "delay_step now uuid k ?s ?s'" unfolding m .
  have "(delay_step now uuid k)\<^sup>*\<^sup>* ?s' \<lparr>ds_node = fold f ms (f m x), ds_handlers = map (\<lambda>m. (m, pc')) ((done @ [m]) @ ms),
      ds_calls = (c @ cs m) @ concat (map cs ms)\<rparr>"
    using Cons.prems by (intro Cons.IH) (auto simp: o(2))
  with 1 show ?case by (simp add: converse_rtranclp_into_rtranclp)
qed simp

lemma delay_put_all:
  "distinct (map MsgId ms) \<Longrightarrow> \<forall>m \<in> set ms. MsgId m \<notin> fst ` set (dl_PendingMsgs x) \<Longrightarrow>
   fold (\<lambda>m x. x\<lparr>dl_PendingMsgs := gm_put (MsgId m) m (dl_PendingMsgs x)\<rparr>) ms x =
     x\<lparr>dl_PendingMsgs := dl_PendingMsgs x @ map (\<lambda>m. (MsgId m, m)) ms\<rparr>"
proof (induction ms arbitrary: x)
  case (Cons m ms)
  then have "\<forall>a \<in> set ms. MsgId a \<notin> fst ` set (dl_PendingMsgs x @ [(MsgId m, m)])" by (auto simp: image_iff)
  with Cons show ?case by (simp add: gm_put_new)
qed simp



theorem delay_limit_concurrent_witness:
  "length (dl_PendingMsgs (ds_node (delay_move 1 ''u'' 0 (delay_start small_delay\<lparr>ds_handlers := [(delay_msg ''1'' ''a'', DlLoad)]\<rparr>)))) \<le> 1"
proof -
  let ?s = "delay_start small_delay\<lparr>ds_handlers := [(delay_msg ''1'' ''a'', DlLoad)]\<rparr>"
  have "DelayNode_Init (\<lambda>cf c. (None, c)) [] (DelayNode_New\<lparr>dl_Config := dl_Config small_delay\<rparr>) = Inr small_delay"
    by (simp add: DelayNode_Init_def DelayNode_New_def demo_delay_def small_delay_def)
  moreover have "delay_step 1 ''u'' 1 (delay_start small_delay) ?s"
    using delay_step.arrive [of 1 "''u''" 1 "delay_start small_delay" "delay_msg ''1'' ''a''"] by (simp add: delay_start_def)
  moreover have "insertions (delay_move 1 ''u'' 0 ?s) \<le> 1" by code_simp
  then have "delay_step 1 ''u'' 1 ?s (delay_move 1 ''u'' 0 ?s)" by (rule delay_step.move [rotated]) simp
  ultimately show ?thesis
    using delay_limit_concurrent [of "\<lambda>cf c. (None, c)" "[]" "DelayNode_New\<lparr>dl_Config := dl_Config small_delay\<rparr>" small_delay 1 1 "''u''" "delay_move 1 ''u'' 0 ?s"]
    by (simp add: small_delay_def demo_delay_def converse_rtranclp_into_rtranclp)
qed

section \<open>Overwriting\<close>

text \<open>In the overwriting mode a message can be lost for good. A second message sees that there is a pending message, then the
  timer of the first fires and clears the id, and the second is stored under the empty id: it has no timer, no
  acknowledgement will ever find it, and it stays in the map.\<close>

theorem delay_overwrite_leaks:
  assumes "DelayNode_Init decode configuration x0 = Inr x" "dl_Overwrite (dl_Config x)" "dl_PeriodInSecondsPattern (dl_Config x) = []"
    and "MsgId m1 \<noteq> []" "MsgType m1 \<noteq> DelayNodeMsgType" "MsgType m2 \<noteq> DelayNodeMsgType"
  shows "let s = fold (delay_move now uuid) [0, 0, 0, 0, 1, 2, 1]
                (delay_start x\<lparr>ds_handlers := map (\<lambda>m. (m, DlLoad)) [m1, m2, ack_of now uuid m1]\<rparr>)
    in ds_calls s = [TellSelf (ack_of now uuid m1) (wrap64 (dl_PeriodInSeconds (dl_Config x) * 1000)), TellSuccess m1] \<and> dl_PendingMsgs (ds_node s) = [([], m2)] \<and>
       map snd (ds_handlers s) = [DlEnd, DlEnd, DlEnd]"
proof -
  have "dl_PendingMsgs x = []" "dl_LastPendingMsgId x = []" "0 < dl_MaxPendingMsgs (dl_Config x)"
    using assms(1) by (auto simp: DelayNode_Init_def Let_def split: prod.splits option.splits if_splits)
  with assms(2-6) show ?thesis
    by (simp add: delay_start_def delay_move_def delay_op_def Let_def ack_of_simps flip: ack_of_def)
qed

theorem delay_overwrite_leaks_witness:
  "dl_PendingMsgs (ds_node (fold (delay_move 1 ''u'') [0, 0, 0, 0, 1, 2, 1]
     (delay_start over_delay\<lparr>ds_handlers := map (\<lambda>m. (m, DlLoad)) [delay_msg ''1'' ''a'', delay_msg ''2'' ''b'', ack_of 1 ''u'' (delay_msg ''1'' ''a'')]\<rparr>))) =
   [([], delay_msg ''2'' ''b'')]"
proof -
  have "DelayNode_Init (\<lambda>cf c. (None, c)) [] (DelayNode_New\<lparr>dl_Config := dl_Config over_delay\<rparr>) = Inr over_delay"
    by (simp add: DelayNode_Init_def DelayNode_New_def demo_delay_def over_delay_def)
  moreover have "dl_Overwrite (dl_Config over_delay)" "dl_PeriodInSecondsPattern (dl_Config over_delay) = []"
    "MsgId (delay_msg ''1'' ''a'') \<noteq> []" "MsgType (delay_msg ''1'' ''a'') \<noteq> DelayNodeMsgType" "MsgType (delay_msg ''2'' ''b'') \<noteq> DelayNodeMsgType"
    by (simp_all add: over_delay_def demo_delay_def delay_msg_def DelayNodeMsgType_def)
  ultimately show ?thesis using delay_overwrite_leaks [of "\<lambda>cf c. (None, c)"] unfolding Let_def by blast
qed

end
