(* ===== verification/Spec2Isabelle.thy ===== *)
theory Spec2Isabelle
  imports Completion Pool Fallback GroupFilter GroupAction Builtin WsEndpoint NetClient ScheduleEndpoint MqttEndpoint RestApiCall DbClient ExternalNodes Server Messages Options PluginNodes ComponentRun Delay
begin

text \<open>
  A verification development for RuleGo, a rule engine for Go programs.

  \<^bold>\<open>The program.\<close> A rule chain is a graph of nodes. A node is an instance of a component, and it passes a message on by
  telling relations, which name the edges. An engine holds a chain, a pool holds engines by id, endpoints
  receive messages from the network and hand them to the chains of a pool. Engines run nodes in goroutines, through
  a worker pool if there is one; aspects run around nodes. A server application puts the parts together and keeps
  rule chains in files.

  \<^bold>\<open>Where what is modelled.\<close>

    \<^item> \<open>Prelude\<close>, \<open>GoStr\<close>: Go maps as association lists without duplicates, errors as \<open>Inl\<close>, the \<open>strings\<close> and \<open>strconv\<close>
      functions that are used, values of type \<open>interface{}\<close>, \<open>utils/str\<close>, \<open>utils/json\<close>, \<open>utils/maps\<close>.
    \<^item> \<open>Msg\<close>, \<open>Config\<close>, \<open>Registry\<close>: \<open>api/types\<close> (messages, metadata, the calls on a context, configuration, aspect lists),
      \<open>registry.go\<close>, \<open>endpoint/registry.go\<close> and the registry of functions.
    \<^item> \<open>Chain\<close>, \<open>Engine\<close>: \<open>dsl.go\<close>, \<open>node.go\<close>, \<open>parser.go\<close>, \<open>chain.go\<close>; the life cycle of \<open>engine.go\<close>, and \<open>rulego.go\<close>.
    \<^item> \<open>Run\<close>, \<open>Completion\<close>, \<open>Termination\<close>, \<open>Builtin\<close>: the processing of a message in \<open>engine.go\<close>, as a system of goroutines that make
      atomic steps in any order; \<open>Options\<close>: the options of a run and the methods of its contexts.
    \<^item> \<open>Pool\<close>: \<open>pool/workerpool.go\<close>, as interleaved steps of clients, workers and the cleaner.
    \<^item> \<open>Fallback\<close>: the aspects \<open>aspect/debug_aspect.go\<close> and \<open>aspect/skip_fallback_aspect.go\<close>.
    \<^item> \<open>JsEngine\<close>, \<open>NodeBase\<close>, \<open>FilterNodes\<close>, \<open>GroupFilter\<close>, \<open>ActionNodes\<close>, \<open>GroupAction\<close>, \<open>TransformNodes\<close>: \<open>components/js\<close>, \<open>filter\<close>, \<open>action\<close>,
      \<open>flow\<close> and \<open>transform\<close>. \<open>OnMsg\<close> of a node is the list of its calls on the context. \<open>Delay\<close>: the operations of a delay
      node, interleaved by the messages under way.
    \<^item> \<open>Endpoint\<close>, \<open>ComponentRun\<close>: \<open>endpoint/endpoint.go\<close>: routers, processors and executors, and the run of a component without
      a chain.
    \<^item> \<open>Routes\<close>: the contract of a routing table as a locale, and the part of \<open>net/http\<close> the endpoints share; \<open>RestEndpoint\<close>,
      \<open>WsEndpoint\<close>, \<open>NetEndpoint\<close>, \<open>ScheduleEndpoint\<close>, \<open>MqttEndpoint\<close>: the endpoints under \<open>endpoint/\<close>, each with its messages, its
      operations on routers and its handler; \<open>Messages\<close>: the \<open>Message\<close> interface and its ten implementations.
    \<^item> \<open>MqttClient\<close>: \<open>components/mqtt/client.go\<close>; \<open>RestApiCall\<close>, \<open>DbClient\<close>, \<open>NetClient\<close>, \<open>ExternalNodes\<close>: \<open>components/external\<close>.
    \<^item> \<open>GoSort\<close>: the contract of \<open>sort.Slice\<close>; \<open>Files\<close>: \<open>utils/fs\<close> over a tree of directories, with the functions of \<open>path/filepath\<close>
      that are used; \<open>Forms\<close>: \<open>utils/reflect\<close>, \<open>api/types/component.go\<close>, plugin loading, and the built-in components with
      the lists they are in.
    \<^item> \<open>PluginNodes\<close>: the plugin of \<open>examples/plugin\<close>.
    \<^item> \<open>DebugData\<close>, \<open>Server\<close>: the server application \<open>examples/server\<close>: its store of debug data, and its start, routes and
      files.

  State is passed explicitly in records with the fields of the structs. Locks do not appear where a locked section is one step; an atomic load and a later
  store are two steps, and so are the iterations of the dispatch loop of the engine.
  Pointers that are shared appear as addresses in a heap: the contexts of a run, the routers of the HTTP endpoint,
  the cells of a query. Machine integers are words where they can wrap around.

  \<^bold>\<open>What the theorems show.\<close> A run: in a chain without fan-out (no node has two connections of the same type) and without
  connections to sub rule chains, in which every node passes a message on exactly once and the pool refuses nothing, the
  completion is called once and after all work (\<open>Completion\<close>); without cycles every schedule is finite and
  ends with completion (\<open>Termination\<close>), and the built-in components fulfil the condition (\<open>Builtin\<close>); theorems
  about the code as it is show that the conditions are needed: executions with two relations, with two targets and the race of the
  dispatch loop, with a sub chain and with a refusing pool. Options are
  applied in order, and the context they give is handed from node to node until a node replaces it.
  Chains: well-formedness, the index of routes against its specification, reloading is all or nothing. Pool: every
  accepted task is run, stale workers are the ones retired. Aspects: the fallback refines a circuit
  breaker. Endpoints: a message goes through one pipeline, a routing table serves what was added and not
  removed, lines are framed, and a waiting router answers after its chain or component. External components: their outcomes, the
  retry loops of the MQTT client, the safety of the network client, and its lines arrive at the endpoint. The delay node delivers what it keeps, and
  its limit holds up to the number of messages that are handled at once. Server: a posted
  message starts its chain, a saved chain is what the next start loads, the debug data are the latest of every node, and
  where the code loses or spoils them.

  \<^bold>\<open>Interfaces.\<close> The locales are interpreted on the definitions of the model: \<open>keyed_store\<close> (a store with update and deletion) by Go
  maps, the engine pool, the error cache and the function registry; \<open>type_registry\<close> by both registries;
  \<open>slice_sort\<close> by the sorting of aspects; \<open>task_pool\<close> by the worker pool; \<open>route_set\<close> (a routing table) by the HTTP, network
  and MQTT endpoints; \<open>endpoint_message\<close> (what was set last is what is read, for bodies that are not nil and while no parameter is asked for) by the
  requests and responses of all endpoints; \<open>recent_log\<close> (a log that keeps the latest entries of every key) by the store of debug data.

  \<^bold>\<open>Bounds.\<close> No result depends on fuel. Loops are recursions with a termination proof; the two loops that may not end, connecting
  and subscribing of the MQTT client, are partial functions whose value is \<open>None\<close> if they do not, and it is proved
  when they return. Runs are schedules of any length. The reader of lines has the buffer of 4096 bytes
  of \<open>bufio\<close>, the scanner of event streams that of 65536.

  \<^bold>\<open>Not modelled.\<close> Third-party code is a parameter: the JavaScript runtime, the expression language, the multiplexer, cron, the MQTT, SMTP,
  SSH and SQL libraries, regular expressions, JSON, \<open>plugin.Open\<close> and the decoding of configurations by reflection. The file
  system has no links, permissions or concurrent changes, and paths are those of Unix. Logging to files, the other examples
  and the test helpers are left out. Processors of endpoints are total functions on the exchange.
\<close>

section \<open>Endpoints and chains\<close>

text \<open>The exchange of an endpoint after the end callbacks, number \<open>k\<close>, that a run has called.\<close>

definition answer :: "'m message_ops \<Rightarrow> ('n, 'w, 'm) To \<Rightarrow> nat \<Rightarrow> event list \<Rightarrow> 'm Exchange \<Rightarrow> 'm Exchange" where
  "answer mo t k tr ex =
     fold (\<lambda>ev ex. case ev of EvUserEnd k' _ msg err _ \<Rightarrow> if k' = k then end_callback mo t msg err ex else ex | _ \<Rightarrow> ex) tr ex"

lemma answer_quiet: "\<forall>x \<in> set tr. \<not> work_event x \<Longrightarrow> answer mo t k tr ex = ex"
  by (induction tr arbitrary: ex) (auto simp: answer_def split: event.splits)

lemma answer_append: "answer mo t k (tr @ tr') ex = answer mo t k tr' (answer mo t k tr ex)"
  by (simp add: answer_def)

lemma answer_before_completion:
  assumes "count_list tr ev = 1" and "quiet_after ev tr" and "\<not> work_event ev"
  obtains pre post where "tr = pre @ ev # post" "answer mo t k tr ex = answer mo t k pre ex"
proof -
  from assms(1) have "ev \<in> set tr" by (metis count_list_0_iff zero_neq_one)
  then obtain pre post where tr: "tr = pre @ ev # post" by (meson split_list)
  with assms(2) have "\<forall>x \<in> set post. \<not> work_event x" unfolding quiet_after_def by blast
  with assms(3) have "answer mo t k (ev # post) (answer mo t k pre ex) = answer mo t k pre ex" by (intro answer_quiet) auto
  with that tr show ?thesis by (simp add: answer_append)
qed

text \<open>C4: a router that waits for its chain, from the message of the endpoint to the answer. A message
  that passes the processors starts the chain its path names. Let the chain have no cycle, no fan-out (no node has two
  connections of the same relation type) and no connection to a sub rule chain, its pool take every task, its around
  aspects leave calling the node to the engine, and its nodes answer every message with exactly one call of the context,
  on one relation, or panic before it, and put no message off. Then every run ends, and at its end
  the completion callback has run once, after every callback that changed the exchange: what the
  endpoint sends when \<open>OnMsgAndWait\<close> returns is final.\<close>

theorem router_waits_for_chain:
  fixes b :: "'m BaseEndpoint" and router :: "('n, 'w, 'm) Router" and pools :: "nat \<Rightarrow> ('n, 'w) RuleGo"
  assumes "rt_from router = Some f" "fr_to f = Some t" "to_executor t = Some ChainExecutor" "to_wait t"
    and "run_processes (be_interceptors b @ fr_processList f) ex = (True, ex1)"
    and "mo_GetMsg mo (ex_In ex1) = (Some msg, i)"
    and "Get (pools (rt_RuleGo router)) (ToStringByDict t (md_entries (MsgMetadata msg))) = Some e"
    and "linear_engine E e" "acyclic_engine E e"
  shows "\<exists>chain. DoProcess mo pools b router ex = (ex1\<lparr>ex_In := i\<rparr>, Some (StartChain (rt_RuleGo router) chain msg True)) \<and>
    (\<nexists>f. f 0 = start_chain chain msg True k (init_sys (pools (rt_RuleGo router)) w) \<and> (\<forall>i. step E (f i) (f (Suc i)))) \<and>
    (\<forall>s. (step E)\<^sup>*\<^sup>* (start_chain chain msg True k (init_sys (pools (rt_RuleGo router)) w)) s \<and> (\<nexists>s'. step E s s') \<longrightarrow>
       (\<forall>g \<in> set (s_gos s). g = []) \<and>
       (\<exists>pre post. s_trace s = pre @ EvCompleted chain 0 # post \<and>
          answer mo t k (s_trace s) (ex1\<lparr>ex_In := i\<rparr>) = answer mo t k pre (ex1\<lparr>ex_In := i\<rparr>)))"
proof -
  define chain where "chain = ToStringByDict t (md_entries (MsgMetadata msg))"
  let ?p = "pools (rt_RuleGo router)" and ?ex = "ex1\<lparr>ex_In := i\<rparr>"
  have "DoProcess mo pools b router ex = (?ex, Some (StartChain (rt_RuleGo router) chain msg True))"
    using DoProcess_through [OF assms(1,5)] assms(1-4,6,7) by (simp add: To_Execute_def ChainExecutor_Execute_def Let_def chain_def)
  moreover have st: "start_chain chain msg True k (init_sys ?p w) = OnMsgAndWait chain msg (Some (UserEnd k)) None (init_sys ?p w)"
    by (simp add: start_chain_def)
  have g: "Get ?p chain = Some e" "user_end (Some (UserEnd k))" "user_done None"
    using assms(7) by (simp_all add: chain_def user_end_def user_done_def)
  note run = total_run [OF assms(8,9) g, of msg w]
  have "(\<forall>g \<in> set (s_gos s). g = []) \<and>
       (\<exists>pre post. s_trace s = pre @ EvCompleted chain 0 # post \<and> answer mo t k (s_trace s) ?ex = answer mo t k pre ?ex)"
    if r: "(step E)\<^sup>*\<^sup>* (OnMsgAndWait chain msg (Some (UserEnd k)) None (init_sys ?p w)) s" and "\<nexists>s'. step E s s'" for s
  proof -
    from run that have c: "s_crashed s = None" "count_list (s_trace s) (EvCompleted chain 0) = 1" "\<forall>g \<in> set (s_gos s). g = []" by blast+
    from completes_once [OF assms(8) g r c(1)] have "quiet_after (EvCompleted chain 0) (s_trace s)" by blast
    from answer_before_completion [OF c(2) this, of mo t k ?ex] c(3) show ?thesis by (metis work_event.simps(4))
  qed
  ultimately show ?thesis using run unfolding st [symmetric] by blast
qed

definition wait_to :: "(Configuration, unit, nat) To" where
  "wait_to = \<lparr>to_HasVars = False, to_Config = [], to_To = ''chain:rule01'', to_ToPath = ''rule01'', to_processList = [],
     to_executor = Some ChainExecutor, to_wait = True\<rparr>"

definition wait_from :: "(Configuration, unit, nat) From" where
  "wait_from = \<lparr>fr_Config = [], fr_From = ''/a'', fr_processList = [], fr_to = Some wait_to\<rparr>"

definition wait_router :: "(Configuration, unit, nat) Router" where
  "wait_router = \<lparr>rt_from = Some wait_from, rt_RuleGo = 0, rt_Config = types_NewConfig [], rt_disable = False\<rparr>"

theorem router_waits_for_chain_witness:
  "\<exists>chain msg. DoProcess flag_ops (\<lambda>_. [(''rule01'', demo_run)]) \<lparr>be_interceptors = []\<rparr> wait_router \<lparr>ex_In = 7, ex_Out = 0\<rparr> =
       (\<lparr>ex_In = 7, ex_Out = 0\<rparr>, Some (StartChain 0 chain msg True)) \<and>
     (\<nexists>f. f 0 = start_chain chain msg True 0 (init_sys [(''rule01'', demo_run)] ()) \<and> (\<forall>i. step demo_env (f i) (f (Suc i))))"
proof -
  have f: "rt_from wait_router = Some wait_from" "fr_to wait_from = Some wait_to" "to_executor wait_to = Some ChainExecutor"
    "to_wait wait_to" "rt_RuleGo wait_router = 0"
    by (simp_all add: wait_router_def wait_from_def wait_to_def)
  have p: "run_processes (be_interceptors \<lparr>be_interceptors = []\<rparr> @ fr_processList wait_from) \<lparr>ex_In = 7, ex_Out = 0 :: nat\<rparr> =
      (True, \<lparr>ex_In = 7, ex_Out = 0\<rparr>)" by (simp add: wait_from_def)
  obtain msg where m: "mo_GetMsg flag_ops (ex_In \<lparr>ex_In = 7, ex_Out = 0 :: nat\<rparr>) = (Some msg, 7)" by (simp add: flag_ops_def)
  have g: "Get ((\<lambda>_. [(''rule01'', demo_run)]) (rt_RuleGo wait_router)) (ToStringByDict wait_to (md_entries (MsgMetadata msg))) = Some demo_run"
    by (simp add: wait_to_def ToStringByDict_def Get_def)
  show ?thesis
    using router_waits_for_chain [OF f(1-4) p m g demo_linear demo_acyclic, of 0 "()"] unfolding f(5) by auto
qed

text \<open>C5: a router that runs a component and waits for it. The configuration of the component has neither a worker
  pool, which could refuse the task and let the caller wait for ever, nor a global \<open>OnEnd\<close> callback, and no engine is stored under
  the empty id. A message that passes the processors is given
  to the component; if the component makes exactly one call of its context, which tells a message on any relations,
  then every run ends, and
  at its end the processors of the \<open>To\<close> side have run once, with the message or the error that it told:
  what the endpoint sends when \<open>Execute\<close> returns is final.\<close>

theorem router_waits_for_component:
  fixes b :: "'m BaseEndpoint" and router :: "('n, 'w, 'm) Router" and pools :: "nat \<Rightarrow> ('n, 'w) RuleGo"
  assumes "rt_from router = Some f" "fr_to f = Some t" "to_executor t = Some (ComponentExecutor (Some node) (Some config))" "to_wait t"
    and "run_processes (be_interceptors b @ fr_processList f) ex = (True, ex1)"
    and "mo_GetMsg mo (ex_In ex1) = (Some msg, i)"
    and "Get g [] = None" "cfg_Pool config = None" "\<not> cfg_OnEnd config"
    and "n_OnMsg (env_ops E) node empty_view msg w = (([CTell m err rels], None), w')"
  shows "DoProcess mo pools b router ex = (ex1\<lparr>ex_In := i\<rparr>, Some (StartComponent node config msg True)) \<and>
    (\<nexists>f. f 0 = start_component E node config msg True k (init_sys g w) \<and> (\<forall>i. step E (f i) (f (Suc i)))) \<and>
    (\<forall>s. (step E)\<^sup>*\<^sup>* (start_component E node config msg True k (init_sys g w)) s \<and> (\<nexists>s'. step E s s') \<longrightarrow>
       (\<forall>q \<in> set (s_gos s). q = []) \<and>
       answer mo t k (s_trace s) (ex1\<lparr>ex_In := i\<rparr>) =
         end_callback mo t (Copy (env_now E 0) (env_uuid E 0) m) err (ex1\<lparr>ex_In := i\<rparr>))"
proof -
  have "DoProcess mo pools b router ex = (ex1\<lparr>ex_In := i\<rparr>, Some (StartComponent node config msg True))"
    using DoProcess_through [OF assms(1,5)] assms(1-4,6) by (simp add: To_Execute_def ComponentExecutor_Execute_def Let_def)
  moreover note component_run_total [OF assms(7-10), of k]
  ultimately show ?thesis by (simp add: answer_def)
qed

definition component_router :: "(Configuration, unit, nat) Router" where
  "component_router = wait_router\<lparr>rt_from := Some (wait_from\<lparr>fr_to :=
     Some (wait_to\<lparr>to_executor := Some (ComponentExecutor (Some []) (Some (types_NewConfig [])))\<rparr>)\<rparr>)\<rparr>"

theorem router_waits_for_component_witness:
  "\<exists>msg. DoProcess flag_ops (\<lambda>_. []) \<lparr>be_interceptors = []\<rparr> component_router \<lparr>ex_In = 7, ex_Out = 0\<rparr> =
       (\<lparr>ex_In = 7, ex_Out = 0\<rparr>, Some (StartComponent [] (types_NewConfig []) msg True)) \<and>
     (\<nexists>f. f 0 = start_component demo_env [] (types_NewConfig []) msg True 0 (init_sys [] ()) \<and>
        (\<forall>i. step demo_env (f i) (f (Suc i))))"
proof -
  let ?t = "wait_to\<lparr>to_executor := Some (ComponentExecutor (Some []) (Some (types_NewConfig [])))\<rparr>"
  let ?f = "wait_from\<lparr>fr_to := Some ?t\<rparr>"
  have f: "rt_from component_router = Some ?f" "fr_to ?f = Some ?t"
    "to_executor ?t = Some (ComponentExecutor (Some []) (Some (types_NewConfig [])))" "to_wait ?t"
    by (simp_all add: component_router_def wait_to_def)
  have p: "run_processes (be_interceptors \<lparr>be_interceptors = []\<rparr> @ fr_processList ?f) \<lparr>ex_In = 7, ex_Out = 0 :: nat\<rparr> =
      (True, \<lparr>ex_In = 7, ex_Out = 0\<rparr>)" by (simp add: wait_from_def)
  obtain msg where m: "mo_GetMsg flag_ops (ex_In \<lparr>ex_In = 7, ex_Out = 0 :: nat\<rparr>) = (Some msg, 7)" by (simp add: flag_ops_def)
  have c: "Get ([] :: (Configuration, unit) RuleGo) [] = None" "cfg_Pool (types_NewConfig [] :: unit Config) = None"
    "\<not> cfg_OnEnd (types_NewConfig [] :: unit Config)" by (simp_all add: Get_def types_NewConfig_def)
  have n: "n_OnMsg (env_ops demo_env) [] empty_view msg () = (([CTell msg None (Some [Success])], None), ())"
    by (simp add: demo_env_def demo_ops_def TellSuccess_def)
  show ?thesis
    using router_waits_for_component [OF f p m c n, of "\<lambda>_. []" 0] by auto
qed

end
